(* ===== verification/Prelude.thy ===== *)
theory Prelude
  imports Complex_Main "HOL-Library.AList" "HOL-Library.Monad_Syntax"
begin

text \<open>
  Shared vocabulary of the development: the fragments of the JavaScript standard library the
  sources use (strings, \<open>Map\<close> objects, JSON values and their serialisation), the result type of
  operations that may throw, the generic list lemmas, and the interface \<open>keyed_log\<close> that every
  index rebuilt from an append-only log satisfies.

  A JavaScript string is a \<^typ>\<open>string\<close>, one \<^typ>\<open>char\<close> per UTF-16 code unit, so \<^const>\<open>length\<close> is
  \<open>String.length\<close>; code units above 255 are outside the model. Numbers are \<^typ>\<open>int\<close>, \<^typ>\<open>nat\<close> or,
  for percentages, \<^typ>\<open>rat\<close>; rounding of IEEE doubles is not modelled. A \<open>Map\<close> is an association
  list in insertion order: \<open>set\<close> overwrites in place or appends (\<^const>\<open>AList.update\<close>), \<open>delete\<close>
  removes (\<^const>\<open>AList.delete\<close>), \<open>get\<close> is \<^const>\<open>map_of\<close>.
\<close>

section \<open>Collections of rules\<close>

named_theorems js_map_simps \<open>laws of JavaScript maps as association lists\<close>
named_theorems session_simps \<open>field equations of session entries and session manager states\<close>
named_theorems inv_intros \<open>invariant preservation, one rule per operation\<close>

section \<open>Results of operations that may throw\<close>

text \<open>\<open>TypeError\<close> is what the language throws on a null dereference; \<open>JsError m\<close> is \<open>throw new Error(m)\<close>.\<close>

datatype js_error = JsError string | TypeError | FsError string

type_synonym 'a js_result = "js_error + 'a"

fun js_bind :: "'a js_result \<Rightarrow> ('a \<Rightarrow> 'b js_result) \<Rightarrow> 'b js_result" where
  "js_bind (Inl e) f = Inl e"
| "js_bind (Inr x) f = f x"

text \<open>\<open>Array.prototype.map\<close> with a callback that may throw: the first throw wins.\<close>

fun js_map :: "('a \<Rightarrow> 'b js_result) \<Rightarrow> 'a list \<Rightarrow> 'b list js_result" where
  "js_map f [] = Inr []"
| "js_map f (x # xs) = js_bind (f x) (\<lambda>y. js_bind (js_map f xs) (\<lambda>ys. Inr (y # ys)))"

text \<open>\<open>error instanceof Error ? error.message : String(error)\<close>\<close>

fun errorText :: "js_error \<Rightarrow> string" where
  "errorText (JsError m) = m"
| "errorText TypeError = ''TypeError''"
| "errorText (FsError m) = m"

lemma js_bind_Inr_iff [simp]: "js_bind r f = Inr y \<longleftrightarrow> (\<exists>x. r = Inr x \<and> f x = Inr y)"
  by (cases r) auto

lemma js_bind_Inl_iff: "js_bind r f = Inl e \<longleftrightarrow> r = Inl e \<or> (\<exists>x. r = Inr x \<and> f x = Inl e)"
  by (cases r) auto

lemma js_map_Inr_iff: "js_map f xs = Inr ys \<longleftrightarrow> list_all2 (\<lambda>x y. f x = Inr y) xs ys"
  by (induction xs arbitrary: ys) (auto simp: list_all2_Cons1)

lemma js_map_length: "js_map f xs = Inr ys \<Longrightarrow> length ys = length xs"
  by (simp add: js_map_Inr_iff list_all2_lengthD)

lemma js_map_total: "(\<And>x. x \<in> set xs \<Longrightarrow> f x = Inr (g x)) \<Longrightarrow> js_map f xs = Inr (map g xs)"
  by (induction xs) auto

section \<open>Strings\<close>

definition isSpace :: "char \<Rightarrow> bool" where
  "isSpace c \<longleftrightarrow> (of_char c :: nat) \<in> {9, 10, 11, 12, 13, 32, 160}"

text \<open>\<open>String.prototype.trim\<close>\<close>

definition trim :: "string \<Rightarrow> string" where
  "trim s = rev (dropWhile isSpace (rev (dropWhile isSpace s)))"

abbreviation newline :: string where
  "newline \<equiv> [CHR 0x0A]"

text \<open>\<open>Array.prototype.join\<close>\<close>

fun join :: "'a list \<Rightarrow> 'a list list \<Rightarrow> 'a list" where
  "join sep [] = []"
| "join sep [x] = x"
| "join sep (x # y # xs) = x @ sep @ join sep (y # xs)"

text \<open>\<open>s.split(c)\<close> for a one-character separator: never empty.\<close>

fun splitOn :: "'a \<Rightarrow> 'a list \<Rightarrow> 'a list list" where
  "splitOn c [] = [[]]"
| "splitOn c (x # xs) =
     (if x = c then [] # splitOn c xs
      else case splitOn c xs of [] \<Rightarrow> [[x]] | w # ws \<Rightarrow> (x # w) # ws)"

lemma splitOn_not_Nil [simp]: "splitOn c s \<noteq> []"
  by (induction s) (auto split: list.splits)

lemma join_splitOn: "join [c] (splitOn c s) = s"
proof (induction s)
  case (Cons x xs)
  then show ?case
    by (cases "splitOn c xs" rule: list.exhaust) (auto split: list.splits, (metis append_Cons join.simps(2,3) neq_Nil_conv)+)
qed simp

lemma splitOn_no_sep: "w \<in> set (splitOn c s) \<Longrightarrow> c \<notin> set w"
  by (induction s arbitrary: w) (auto split: if_splits list.splits)

definition startsWith :: "string \<Rightarrow> string \<Rightarrow> bool" where
  "startsWith s p \<longleftrightarrow> take (length p) s = p"

lemma startsWith_append [simp]: "startsWith (p @ s) p"
  by (simp add: startsWith_def)

text \<open>Decimal rendering of integers, as \<open>String(n)\<close> and template literals give it.\<close>

definition digitChar :: "nat \<Rightarrow> char" where
  "digitChar d = char_of (48 + d)"

fun showNat :: "nat \<Rightarrow> string" where
  "showNat n = (if n < 10 then [digitChar n] else showNat (n div 10) @ [digitChar (n mod 10)])"

declare showNat.simps [simp del]

definition showInt :: "int \<Rightarrow> string" where
  "showInt i = (if i < 0 then CHR ''-'' # showNat (nat (- i)) else showNat (nat i))"

lemma showNat_not_Nil [simp]: "showNat n \<noteq> []"
  by (subst showNat.simps) simp

text \<open>\<open>Math.ceil(n / 4)\<close> for a non-negative integer.\<close>

definition ceilDiv :: "nat \<Rightarrow> nat \<Rightarrow> nat" where
  "ceilDiv n d = (n + (d - 1)) div d"

lemma ceilDiv_eq_0_iff: "0 < d \<Longrightarrow> ceilDiv n d = 0 \<longleftrightarrow> n = 0"
  by (cases d) (auto simp: ceilDiv_def div_eq_0_iff)

lemma ceilDiv_mono: "m \<le> n \<Longrightarrow> ceilDiv m d \<le> ceilDiv n d"
  by (simp add: ceilDiv_def div_le_mono)

section \<open>JSON values and \<open>JSON.stringify\<close>\<close>

text \<open>Objects keep their keys in order. Numbers are restricted to integers.\<close>

datatype json =
    JNull
  | JBool bool
  | JNum int
  | JStr string
  | JArr "json list"
  | JObj "(string \<times> json) list"

definition hexDigit :: "nat \<Rightarrow> char" where
  "hexDigit d = (if d < 10 then char_of (48 + d) else char_of (87 + d))"

definition escapeChar :: "char \<Rightarrow> string" where
  "escapeChar c =
     (let n = (of_char c :: nat); bs = CHR 0x5C in
      if n = 34 then [bs, CHR 0x22]
      else if n = 92 then [bs, bs]
      else if n = 8 then [bs, CHR ''b'']
      else if n = 9 then [bs, CHR ''t'']
      else if n = 10 then [bs, CHR ''n'']
      else if n = 12 then [bs, CHR ''f'']
      else if n = 13 then [bs, CHR ''r'']
      else if n < 32 then [bs, CHR ''u'', CHR ''0'', CHR ''0'', hexDigit (n div 16), hexDigit (n mod 16)]
      else [c])"

definition quoteString :: "string \<Rightarrow> string" where
  "quoteString s = [CHR 0x22] @ concat (map escapeChar s) @ [CHR 0x22]"

fun stringify :: "json \<Rightarrow> string" where
  "stringify JNull = ''null''"
| "stringify (JBool b) = (if b then ''true'' else ''false'')"
| "stringify (JNum i) = showInt i"
| "stringify (JStr s) = quoteString s"
| "stringify (JArr xs) = ''['' @ join '','' (map stringify xs) @ '']''"
| "stringify (JObj kvs) =
     [CHR 0x7B] @ join '','' (map (\<lambda>(k, v). quoteString k @ '':'' @ stringify v) kvs) @ [CHR 0x7D]"

lemma stringify_not_Nil: "stringify j \<noteq> []"
  by (cases j) (auto simp: quoteString_def showInt_def)

section \<open>JavaScript maps\<close>

lemma map_of_update [js_map_simps, simp]: "map_of (AList.update k v m) = (map_of m)(k \<mapsto> v)"
  by (simp add: update_conv')

lemma map_of_delete [js_map_simps, simp]: "map_of (AList.delete k m) = (map_of m)(k := None)"
  by (simp add: delete_conv')

lemma keys_update [js_map_simps]: "set (map fst (AList.update k v m)) = insert k (set (map fst m))"
  by (induction m) auto

lemma update_fresh: "k \<notin> set (map fst m) \<Longrightarrow> AList.update k v m = m @ [(k, v)]"
  by (induction m) auto

lemma distinct_keys_update [js_map_simps]:
  "distinct (map fst m) \<Longrightarrow> distinct (map fst (AList.update k v m))"
  by (rule distinct_update)

lemma distinct_keys_delete [js_map_simps]:
  "distinct (map fst m) \<Longrightarrow> distinct (map fst (AList.delete k m))"
  by (rule distinct_delete)

section \<open>Lists\<close>

text \<open>\<open>Array.prototype.find\<close>; \<^const>\<open>List.find\<close> already is the specification.\<close>

text \<open>The last element that satisfies a predicate: what a backwards scan returns.\<close>

definition findLast :: "('a \<Rightarrow> bool) \<Rightarrow> 'a list \<Rightarrow> 'a option" where
  "findLast P xs = List.find P (rev xs)"

lemma find_append: "List.find P (xs @ ys) = (case List.find P xs of None \<Rightarrow> List.find P ys | Some x \<Rightarrow> Some x)"
  by (induction xs) auto

lemma findLast_Nil [simp]: "findLast P [] = None"
  by (simp add: findLast_def)

lemma findLast_snoc [simp]: "findLast P (xs @ [x]) = (if P x then Some x else findLast P xs)"
  by (simp add: findLast_def)

lemma findLast_Cons:
  "findLast P (x # xs) = (case findLast P xs of Some y \<Rightarrow> Some y | None \<Rightarrow> if P x then Some x else None)"
  by (simp add: findLast_def find_append split: option.splits)

lemma findLast_append:
  "findLast P (xs @ ys) = (case findLast P ys of Some y \<Rightarrow> Some y | None \<Rightarrow> findLast P xs)"
  by (simp add: findLast_def find_append split: option.splits)

lemma findLast_None_iff: "findLast P xs = None \<longleftrightarrow> (\<forall>x \<in> set xs. \<not> P x)"
  by (auto simp: findLast_def find_None_iff)

lemma findLast_Some: "findLast P xs = Some x \<Longrightarrow> P x \<and> x \<in> set xs"
  unfolding findLast_def by (induction xs) (auto simp: find_append split: option.splits if_splits)

lemma findLast_cong: "(\<And>x. x \<in> set xs \<Longrightarrow> P x = Q x) \<Longrightarrow> findLast P xs = findLast Q xs"
  unfolding findLast_def by (rule find_cong) auto

text \<open>\<open>Array.prototype.findIndex\<close>\<close>

fun findIndex :: "('a \<Rightarrow> bool) \<Rightarrow> 'a list \<Rightarrow> nat option" where
  "findIndex P [] = None"
| "findIndex P (x # xs) = (if P x then Some 0 else map_option Suc (findIndex P xs))"

lemma findIndex_None_iff: "findIndex P xs = None \<longleftrightarrow> (\<forall>x \<in> set xs. \<not> P x)"
  by (induction xs) auto

lemma findIndex_Some:
  "findIndex P xs = Some i \<Longrightarrow> i < length xs \<and> P (xs ! i) \<and> (\<forall>j < i. \<not> P (xs ! j))"
proof (induction xs arbitrary: i)
  case (Cons x xs)
  then show ?case
    by (cases i) (auto split: if_splits simp: less_Suc_eq_0_disj)
qed simp

lemma findIndex_append_Cons:
  "(\<forall>x \<in> set xs. \<not> P x) \<Longrightarrow> P y \<Longrightarrow> findIndex P (xs @ y # ys) = Some (length xs)"
  by (induction xs) auto

lemma sum_list_map_eq_0_iff: "sum_list (map f xs) = (0::nat) \<longleftrightarrow> (\<forall>x \<in> set xs. f x = 0)"
  by (induction xs) auto

section \<open>The interface of an index replayed from a log\<close>

text \<open>
  Several components keep a map that is a function of an append-only log: the entry index, the
  label index, the legacy prune baseline, the resolved context changes, the tool set and the
  named prompt sections of a transcript. Each log record either leaves the map alone
  (\<open>effect e = None\<close>) or sets (\<open>Some (k, Some v)\<close>) or deletes (\<open>Some (k, None)\<close>) one key. The
  contract is one law about a single record; the clients need the law about the whole log.
\<close>

locale keyed_log =
  fixes upd :: "'e \<Rightarrow> 'm \<Rightarrow> 'm"
    and look :: "'m \<Rightarrow> 'k \<Rightarrow> 'v option"
    and effect :: "'e \<Rightarrow> ('k \<times> 'v option) option"
  assumes look_upd:
    "look (upd e m) = (case effect e of None \<Rightarrow> look m | Some (k, v) \<Rightarrow> (look m)(k := v))"
begin

definition writes :: "'k \<Rightarrow> 'e \<Rightarrow> bool" where
  "writes k e \<longleftrightarrow> (case effect e of None \<Rightarrow> False | Some (k', _) \<Rightarrow> k' = k)"

lemma look_upd_other: "\<not> writes k e \<Longrightarrow> look (upd e m) k = look m k"
  by (auto simp: look_upd writes_def split: option.splits)

lemma look_upd_same: "effect e = Some (k, v) \<Longrightarrow> look (upd e m) k = v"
  by (simp add: look_upd)

text \<open>The last record that writes a key decides its value.\<close>

lemma last_writer_wins:
  "look (fold upd es m) k =
     (case findLast (writes k) es of
        None \<Rightarrow> look m k
      | Some e \<Rightarrow> (case effect e of None \<Rightarrow> look m k | Some (_, v) \<Rightarrow> v))"
proof (induction es rule: rev_induct)
  case Nil
  then show ?case by simp
next
  case (snoc e es)
  then show ?case
    by (auto simp: look_upd writes_def split: option.splits)
qed

lemma untouched: "(\<forall>e \<in> set es. \<not> writes k e) \<Longrightarrow> look (fold upd es m) k = look m k"
  by (simp add: last_writer_wins flip: findLast_None_iff)

lemma replay_cong:
  "look m = look m' \<Longrightarrow> look (fold upd es m) = look (fold upd es m')"
  by (rule ext) (simp add: last_writer_wins split: option.splits)

lemma replay_filter:
  "(\<And>e. e \<in> set es \<Longrightarrow> \<not> P e \<Longrightarrow> effect e = None) \<Longrightarrow>
   look (fold upd (filter P es) m) = look (fold upd es m)"
proof (induction es rule: rev_induct)
  case (snoc e es)
  have IH: "look (fold upd (filter P es) m) = look (fold upd es m)"
    using snoc.prems by (intro snoc.IH) auto
  show ?case
    using snoc.prems [of e] by (cases "P e") (simp_all add: look_upd IH split: option.splits)
qed simp

end

end
