(* ===== verification/Delta_Ops.thy ===== *)
theory Delta_Ops
  imports Prelude
begin

text \<open>
  Delta operations over JSON, \<open>packages/chord/src/delta/index.ts\<close>: validation, application to a value and the
  application that leaves the old value alone. An operation is a replacement of the whole value or an edit at a path.
  The tuples of the source are the constructors, so that the checks of their arity and payload types hold by typing;
  numbers are integers. A value is a tree: what the in-place code shares with its arguments is the ownership rule its
  comments state. An undefined value behaves like \<open>null\<close> here. Objects that differ in the order of their keys only
  have the same \<open>meaning\<close>.
\<close>

section \<open>Operations\<close>

datatype seg = Key string | Index int

type_synonym path = "seg list"

datatype edit =
    SetTo json
  | Delete
  | AppendText string
  | Trim int
  | SpliceBy int int "json list" \<comment> \<open>index, remove, items\<close>
  | Reorder "int list"

datatype delta_op = Replace json | At path edit

datatype delta_error =
    PathError path
  | PathIdError int
  | UnsafePathError seg
  | OpShape string

type_synonym 'a delta_result = "delta_error + 'a"

fun dbind :: "'a delta_result \<Rightarrow> ('a \<Rightarrow> 'b delta_result) \<Rightarrow> 'b delta_result" where
  "dbind (Inl err) f = Inl err"
| "dbind (Inr x) f = f x"

fun dfold :: "('a \<Rightarrow> 'b \<Rightarrow> 'b delta_result) \<Rightarrow> 'a list \<Rightarrow> 'b \<Rightarrow> 'b delta_result" where
  "dfold f [] y = Inr y"
| "dfold f (x # xs) y = dbind (f x y) (dfold f xs)"

lemma dbind_Inr_iff [simp]: "dbind r f = Inr y \<longleftrightarrow> (\<exists>x. r = Inr x \<and> f x = Inr y)"
  by (cases r) auto

lemma dfold_append: "dfold f (xs @ ys) y = dbind (dfold f xs y) (dfold f ys)"
proof (induction xs arbitrary: y)
  case (Cons x xs)
  then show ?case by (cases "f x y") simp_all
qed simp

text \<open>The edits of an array itself, which may be the root.\<close>

definition isArrayEdit :: "edit \<Rightarrow> bool" where
  "isArrayEdit e = (case e of SpliceBy _ _ _ \<Rightarrow> True | Reorder _ \<Rightarrow> True | _ \<Rightarrow> False)"

definition isReplace :: "delta_op \<Rightarrow> bool" where
  "isReplace op = (case op of Replace _ \<Rightarrow> True | At _ _ \<Rightarrow> False)"

definition isBase :: "delta_op list \<Rightarrow> bool" where
  "isBase ops = (case ops of [] \<Rightarrow> False | op # _ \<Rightarrow> isReplace op)"

section \<open>Validation\<close>

definition RESERVED_SEGMENTS :: "string list" where
  "RESERVED_SEGMENTS = [''__proto__'', ''constructor'', ''prototype'']"

fun assertSafePath :: "path \<Rightarrow> unit delta_result" where
  "assertSafePath [] = Inr ()"
| "assertSafePath (Key k # p) = (if k \<in> set RESERVED_SEGMENTS then Inl (UnsafePathError (Key k)) else assertSafePath p)"
| "assertSafePath (Index i # p) = (if i < 0 then Inl (UnsafePathError (Index i)) else assertSafePath p)"

definition assertPathArg :: "path \<Rightarrow> bool \<Rightarrow> unit delta_result" where
  "assertPathArg p nonEmpty = (if nonEmpty \<and> p = [] then Inl (OpShape ''path is empty'') else assertSafePath p)"

fun permutationFrom :: "int \<Rightarrow> int list \<Rightarrow> int list \<Rightarrow> unit delta_result" where
  "permutationFrom n seen [] = Inr ()"
| "permutationFrom n seen (i # is) =
     (if i < 0 \<or> n \<le> i \<or> i \<in> set seen then Inl (OpShape ''m permutation is not a bijection'')
      else permutationFrom n (i # seen) is)"

definition assertPermutation :: "int list \<Rightarrow> unit delta_result" where
  "assertPermutation p = permutationFrom (int (length p)) [] p"

fun assertValidOp :: "delta_op \<Rightarrow> unit delta_result" where
  "assertValidOp (Replace _) = Inr ()"
| "assertValidOp (At p (SetTo _)) = assertPathArg p True"
| "assertValidOp (At p Delete) = assertPathArg p True"
| "assertValidOp (At p (AppendText _)) = assertPathArg p True"
| "assertValidOp (At p (Trim n)) = (if n < 0 then Inl (OpShape ''t shape'') else assertPathArg p True)"
| "assertValidOp (At p (SpliceBy i r _)) =
     dbind (assertPathArg p False) (\<lambda>_.
       if i < 0 then Inl (OpShape ''p index'') else if r < 0 then Inl (OpShape ''p remove'') else Inr ())"
| "assertValidOp (At p (Reorder order)) = dbind (assertPathArg p False) (\<lambda>_. assertPermutation order)"

section \<open>Application\<close>

text \<open>A number as a property key of an object is its decimal rendering.\<close>

fun segKey :: "seg \<Rightarrow> string" where
  "segKey (Key k) = k"
| "segKey (Index i) = showInt i"

definition inRange :: "int \<Rightarrow> 'a list \<Rightarrow> bool" where
  "inRange i xs \<longleftrightarrow> 0 \<le> i \<and> nat i < length xs"

text \<open>The walk to the node at a path, and what replaces the node there. The path of the errors is \<open>full\<close>.\<close>

fun modifyAt :: "path \<Rightarrow> path \<Rightarrow> (json \<Rightarrow> json delta_result) \<Rightarrow> json \<Rightarrow> json delta_result" where
  "modifyAt full [] f node = f node"
| "modifyAt full (Index i # p) f (JArr xs) =
     (if inRange i xs then dbind (modifyAt full p f (xs ! nat i)) (\<lambda>v. Inr (JArr (xs[nat i := v]))) else Inl (PathError full))"
| "modifyAt full (Key k # p) f (JArr xs) = Inl (UnsafePathError (Key k))"
| "modifyAt full (s # p) f (JObj kvs) =
     (case map_of kvs (segKey s) of
        None \<Rightarrow> Inl (PathError full)
      | Some child \<Rightarrow> dbind (modifyAt full p f child) (\<lambda>v. Inr (JObj (AList.update (segKey s) v kvs))))"
| "modifyAt full (s # p) f node = Inl (PathError full)"

text \<open>\<open>Array.prototype.splice\<close>, whose start is clamped to the length.\<close>

definition jsSplice :: "'a list \<Rightarrow> nat \<Rightarrow> nat \<Rightarrow> 'a list \<Rightarrow> 'a list" where
  "jsSplice xs i r items = take i xs @ items @ drop (i + r) xs"

text \<open>Many items are inserted in chunks.\<close>

definition chunkSize :: nat where
  "chunkSize = 10000"

function insertChunks :: "nat \<Rightarrow> 'a list \<Rightarrow> 'a list \<Rightarrow> 'a list" where
  "insertChunks i items xs =
     (if items = [] then xs
      else insertChunks (i + chunkSize) (drop chunkSize items) (jsSplice xs i 0 (take chunkSize items)))"
  by pat_completeness auto

termination by (relation "measure (\<lambda>(_, items, _). length items)") (auto simp: chunkSize_def)

declare insertChunks.simps [simp del]

text \<open>The new content of a string, an array element or a property: \<open>None\<close> deletes it.\<close>

definition editValue :: "path \<Rightarrow> edit \<Rightarrow> json option \<Rightarrow> json option delta_result" where
  "editValue path e current =
     (case e of
        SetTo v \<Rightarrow> Inr (Some v)
      | AppendText t \<Rightarrow> (case current of Some (JStr s) \<Rightarrow> Inr (Some (JStr (s @ t))) | _ \<Rightarrow> Inl (PathError path))
      | Trim n \<Rightarrow> (case current of Some (JStr s) \<Rightarrow> Inr (Some (JStr (drop (nat n) s))) | _ \<Rightarrow> Inl (PathError path))
      | _ \<Rightarrow> Inr None)"

fun editKey :: "path \<Rightarrow> seg \<Rightarrow> edit \<Rightarrow> json \<Rightarrow> json delta_result" where
  "editKey path (Key k) e (JArr xs) = Inl (UnsafePathError (Key k))"
| "editKey path (Index i) e (JArr xs) =
     (if length xs < nat i then Inl (UnsafePathError (Index i))
      else dbind (editValue path e (if nat i < length xs then Some (xs ! nat i) else None)) (\<lambda>next.
        case next of
          Some v \<Rightarrow> Inr (JArr (if nat i < length xs then xs[nat i := v] else xs @ [v]))
        | None \<Rightarrow> if nat i < length xs then Inr (JArr (jsSplice xs (nat i) 1 [])) else Inl (PathError path)))"
| "editKey path s e (JObj kvs) =
     dbind (editValue path e (map_of kvs (segKey s))) (\<lambda>next.
       case next of
         Some v \<Rightarrow> Inr (JObj (AList.update (segKey s) v kvs))
       | None \<Rightarrow> Inr (JObj (AList.delete (segKey s) kvs)))"
| "editKey path s e node = Inl (PathError (butlast path))"

text \<open>An edit of the array at the path itself.\<close>

fun editArray :: "path \<Rightarrow> edit \<Rightarrow> json \<Rightarrow> json delta_result" where
  "editArray path (SpliceBy i r items) (JArr xs) = Inr (JArr (insertChunks (nat i) items (jsSplice xs (nat i) (nat r) [])))"
| "editArray path (Reorder order) (JArr xs) =
     (if length xs = length order then Inr (JArr (map (\<lambda>i. xs ! nat i) order)) else Inl (PathError path))"
| "editArray path _ node = Inl (PathError path)"

definition applyEdit :: "path \<Rightarrow> edit \<Rightarrow> json \<Rightarrow> json delta_result" where
  "applyEdit path e doc =
     (case e of
        SpliceBy _ _ _ \<Rightarrow> modifyAt path path (editArray path e) doc
      | Reorder _ \<Rightarrow> modifyAt path path (editArray path e) doc
      | _ \<Rightarrow> modifyAt (butlast path) (butlast path) (editKey path (last path) e) doc)"

definition applyOp :: "delta_op \<Rightarrow> json \<Rightarrow> json delta_result" where
  "applyOp op doc =
     dbind (assertValidOp op) (\<lambda>_. case op of Replace v \<Rightarrow> Inr v | At path e \<Rightarrow> applyEdit path e doc)"

definition applyOps :: "delta_op list \<Rightarrow> json \<Rightarrow> json delta_result" where
  "applyOps ops doc = dfold applyOp ops doc"

section \<open>Application without mutation\<close>

text \<open>
  The containers along the path are copied first; a copy equals its original, what remains is the check that they
  exist. On an array \<open>hasOwn\<close> also holds of \<open>length\<close> and of the renderings of its indexes.
\<close>

definition ownArrayKey :: "'a list \<Rightarrow> string \<Rightarrow> bool" where
  "ownArrayKey xs k \<longleftrightarrow> k = ''length'' \<or> list_ex (\<lambda>i. k = showNat i) [0..<length xs]"

fun copyContainers :: "path \<Rightarrow> path \<Rightarrow> json \<Rightarrow> unit delta_result" where
  "copyContainers full [] (JArr xs) = Inr ()"
| "copyContainers full [] (JObj kvs) = Inr ()"
| "copyContainers full (Index i # p) (JArr xs) =
     (if inRange i xs then copyContainers full p (xs ! nat i) else Inl (PathError full))"
| "copyContainers full (Key k # p) (JArr xs) =
     (if ownArrayKey xs k then Inl (UnsafePathError (Key k)) else Inl (PathError full))"
| "copyContainers full (s # p) (JObj kvs) =
     (case map_of kvs (segKey s) of None \<Rightarrow> Inl (PathError full) | Some child \<Rightarrow> copyContainers full p child)"
| "copyContainers full p node = Inl (PathError full)"

definition containerPath :: "path \<Rightarrow> edit \<Rightarrow> path" where
  "containerPath path e = (case e of SpliceBy _ _ _ \<Rightarrow> path | Reorder _ \<Rightarrow> path | _ \<Rightarrow> butlast path)"

definition applyOpImmutable :: "delta_op \<Rightarrow> json \<Rightarrow> json delta_result" where
  "applyOpImmutable op doc =
     (case op of
        Replace v \<Rightarrow> dbind (assertValidOp op) (\<lambda>_. Inr v)
      | At path e \<Rightarrow> dbind (copyContainers (containerPath path e) (containerPath path e) doc) (\<lambda>_. applyOp op doc))"

definition applyImmutable :: "delta_op list \<Rightarrow> json \<Rightarrow> json delta_result" where
  "applyImmutable ops doc = dfold applyOpImmutable ops doc"

end
