(* ===== verification/Delta_Meaning.thy ===== *)
theory Delta_Meaning
  imports Delta_Ops
begin

text \<open>
  What delta operations mean: a JSON value read as a tree of maps, in which the order of the keys of an object is
  gone, and the effect of an operation on it. The application of the code depends on the meaning of a value only, and
  the application that copies instead of mutating gives the same result. The operations at a path compose like updates
  of a nested environment.
\<close>

section \<open>Meaning\<close>

datatype jvalue =
    VNull
  | VBool bool
  | VNum int
  | VStr string
  | VArr "jvalue list"
  | VObj "string \<Rightarrow> jvalue option"

fun meaning :: "json \<Rightarrow> jvalue" where
  "meaning JNull = VNull"
| "meaning (JBool b) = VBool b"
| "meaning (JNum i) = VNum i"
| "meaning (JStr s) = VStr s"
| "meaning (JArr xs) = VArr (map meaning xs)"
| "meaning (JObj kvs) = VObj (map_of (map (\<lambda>(k, v). (k, meaning v)) kvs))"

text \<open>The keys of an object are distinct.\<close>

fun wfJson :: "json \<Rightarrow> bool" where
  "wfJson (JArr xs) = (\<forall>x \<in> set xs. wfJson x)"
| "wfJson (JObj kvs) = (distinct (map fst kvs) \<and> (\<forall>kv \<in> set kvs. wfJson (snd kv)))"
| "wfJson _ = True"

lemma meaning_obj: "meaning (JObj kvs) = VObj (\<lambda>k. map_option meaning (map_of kvs k))"
  by (simp add: map_of_map fun_eq_iff comp_def)

declare meaning.simps(6) [simp del]
declare meaning_obj [simp]

fun wfEdit :: "edit \<Rightarrow> bool" where
  "wfEdit (SetTo v) = wfJson v"
| "wfEdit (SpliceBy i r items) = (\<forall>x \<in> set items. wfJson x)"
| "wfEdit _ = True"

fun wfOp :: "delta_op \<Rightarrow> bool" where
  "wfOp (Replace v) = wfJson v"
| "wfOp (At p e) = wfEdit e"

definition result :: "json delta_result \<Rightarrow> jvalue option" where
  "result r = (case r of Inl _ \<Rightarrow> None | Inr v \<Rightarrow> Some (meaning v))"

lemma result_simps [simp]: "result (Inl err) = None" "result (Inr v) = Some (meaning v)"
  by (simp_all add: result_def)

section \<open>Updates at a path\<close>

fun vchild :: "seg \<Rightarrow> jvalue \<Rightarrow> jvalue option" where
  "vchild (Index i) (VArr xs) = (if inRange i xs then Some (xs ! nat i) else None)"
| "vchild (Key k) (VArr xs) = None"
| "vchild s (VObj m) = m (segKey s)"
| "vchild s node = None"

text \<open>Writes an existing child.\<close>

fun vset :: "seg \<Rightarrow> jvalue \<Rightarrow> jvalue \<Rightarrow> jvalue" where
  "vset (Index i) w (VArr xs) = VArr (xs[nat i := w])"
| "vset s w (VObj m) = VObj (m(segKey s \<mapsto> w))"
| "vset s w node = node"

lemma vset_child:
  assumes "vchild s v = Some c"
  shows "vchild s (vset s w v) = Some w" "vset s w' (vset s w v) = vset s w' v" "vset s c v = v"
  using assms by (cases "(s, v)" rule: vchild.cases; auto simp: inRange_def split: if_splits)+

fun vmodify :: "path \<Rightarrow> (jvalue \<Rightarrow> jvalue option) \<Rightarrow> jvalue \<Rightarrow> jvalue option" where
  "vmodify [] g node = g node"
| "vmodify (s # p) g node = Option.bind (vchild s node) (\<lambda>c. map_option (\<lambda>w. vset s w node) (vmodify p g c))"

lemma vmodify_Nil [simp]: "vmodify [] g = g"
  by (rule ext) simp

lemma vmodify_append: "vmodify (p @ q) g v = vmodify p (vmodify q g) v"
  by (induction p arbitrary: v) simp_all

lemma vmodify_then: "Option.bind (vmodify p g v) (vmodify p h) = vmodify p (\<lambda>n. Option.bind (g n) h) v"
proof (induction p arbitrary: v)
  case (Cons s p)
  show ?case
  proof (cases "vchild s v")
    case child: (Some c)
    show ?thesis
    proof (cases "vmodify p g c")
      case None
      then show ?thesis using child Cons.IH [of c] by (cases "vmodify p (\<lambda>n. Option.bind (g n) h) c") simp_all
    next
      case (Some w)
      then have "vmodify p h w = vmodify p (\<lambda>n. Option.bind (g n) h) c" using Cons.IH [of c] by simp
      then show ?thesis using Some child vset_child(1,2) [OF child]
        by (cases "vmodify p h w") simp_all
    qed
  qed simp
qed simp

fun vget :: "path \<Rightarrow> jvalue \<Rightarrow> jvalue option" where
  "vget [] v = Some v"
| "vget (s # p) v = Option.bind (vchild s v) (vget p)"

fun vput :: "path \<Rightarrow> jvalue \<Rightarrow> jvalue \<Rightarrow> jvalue" where
  "vput [] w v = w"
| "vput (s # p) w v = (case vchild s v of None \<Rightarrow> v | Some c \<Rightarrow> vset s (vput p w c) v)"

lemma vget_append: "vget (p @ q) v = Option.bind (vget p v) (vget q)"
  by (induction p arbitrary: v) (simp_all split: bind_splits)

text \<open>A modification reads the node and writes it back.\<close>

lemma vmodify_get: "vget p v = Some n \<Longrightarrow> vmodify p g v = map_option (\<lambda>w. vput p w v) (g n)"
  by (induction p arbitrary: v) (auto simp: option.map_comp comp_def option.map_ident split: bind_splits)

lemma vput_laws:
  assumes "vget p v = Some n"
  shows "vget p (vput p w v) = Some w" "vput p w' (vput p w v) = vput p w' v" "vput p n v = v"
  using assms
proof (induction p arbitrary: v)
  case (Cons s p)
  case 1
  then show ?case using Cons.IH(1) vset_child(1) by (auto split: bind_splits)
next
  case (Cons s p)
  case 2
  then obtain c where "vchild s v = Some c" "vget p c = Some n" by (auto split: bind_splits)
  then show ?case using Cons.IH(2) vset_child by simp
next
  case (Cons s p)
  case 3
  then show ?case using Cons.IH(3) vset_child(3) by (auto split: bind_splits)
qed simp_all

lemma vput_append: "vget p v = Some n \<Longrightarrow> vput (p @ q) w v = vput p (vput q w n) v"
  by (induction p arbitrary: v) (auto split: bind_splits)

section \<open>Operations on meanings\<close>

definition vEditValue :: "edit \<Rightarrow> jvalue option \<Rightarrow> jvalue option option" where
  "vEditValue e current =
     (case e of
        SetTo v \<Rightarrow> Some (Some (meaning v))
      | AppendText t \<Rightarrow> (case current of Some (VStr s) \<Rightarrow> Some (Some (VStr (s @ t))) | _ \<Rightarrow> None)
      | Trim n \<Rightarrow> (case current of Some (VStr s) \<Rightarrow> Some (Some (VStr (drop (nat n) s))) | _ \<Rightarrow> None)
      | _ \<Rightarrow> Some None)"

fun vEditKey :: "seg \<Rightarrow> edit \<Rightarrow> jvalue \<Rightarrow> jvalue option" where
  "vEditKey (Key k) e (VArr xs) = None"
| "vEditKey (Index i) e (VArr xs) =
     (if length xs < nat i then None
      else Option.bind (vEditValue e (if nat i < length xs then Some (xs ! nat i) else None)) (\<lambda>next.
        case next of
          Some v \<Rightarrow> Some (VArr (if nat i < length xs then xs[nat i := v] else xs @ [v]))
        | None \<Rightarrow> if nat i < length xs then Some (VArr (jsSplice xs (nat i) 1 [])) else None))"
| "vEditKey s e (VObj m) = map_option (\<lambda>next. VObj (m(segKey s := next))) (vEditValue e (m (segKey s)))"
| "vEditKey s e node = None"

fun vEditArray :: "edit \<Rightarrow> jvalue \<Rightarrow> jvalue option" where
  "vEditArray (SpliceBy i r items) (VArr xs) = Some (VArr (jsSplice xs (nat i) (nat r) (map meaning items)))"
| "vEditArray (Reorder order) (VArr xs) = (if length xs = length order then Some (VArr (map (\<lambda>i. xs ! nat i) order)) else None)"
| "vEditArray _ node = None"

definition vApplyEdit :: "path \<Rightarrow> edit \<Rightarrow> jvalue \<Rightarrow> jvalue option" where
  "vApplyEdit path e doc =
     (case e of
        SpliceBy _ _ _ \<Rightarrow> vmodify path (vEditArray e) doc
      | Reorder _ \<Rightarrow> vmodify path (vEditArray e) doc
      | _ \<Rightarrow> vmodify (butlast path) (vEditKey (last path) e) doc)"

definition vApplyOp :: "delta_op \<Rightarrow> jvalue \<Rightarrow> jvalue option" where
  "vApplyOp op doc =
     (if assertValidOp op \<noteq> Inr () then None
      else case op of Replace v \<Rightarrow> Some (meaning v) | At path e \<Rightarrow> vApplyEdit path e doc)"

fun vApplyOps :: "delta_op list \<Rightarrow> jvalue \<Rightarrow> jvalue option" where
  "vApplyOps [] doc = Some doc"
| "vApplyOps (op # ops) doc = Option.bind (vApplyOp op doc) (vApplyOps ops)"

lemma vApplyOps_append: "vApplyOps (ops @ ops') doc = Option.bind (vApplyOps ops doc) (vApplyOps ops')"
  by (induction ops arbitrary: doc) (simp_all split: bind_splits)

section \<open>The application computes the meaning\<close>

lemma jsSplice_none [simp]: "jsSplice xs i 0 [] = xs"
  by (simp add: jsSplice_def)

lemma insertChunks_splice: "insertChunks i items xs = jsSplice xs i 0 items"
proof (induction i items xs rule: insertChunks.induct)
  case (1 i items xs)
  show ?case
  proof (cases "items = []")
    case True
    then show ?thesis by (simp add: insertChunks.simps jsSplice_def)
  next
    case False
    have "jsSplice (jsSplice xs i 0 (take chunkSize items)) (i + chunkSize) 0 (drop chunkSize items) = jsSplice xs i 0 items"
    proof (cases "length items \<le> chunkSize")
      case True
      then show ?thesis by simp
    next
      case long: False
      have eq: "take chunkSize items @ drop chunkSize items @ r = items @ r" for r by (simp flip: append_assoc)
      show ?thesis
      proof (cases "i \<le> length xs")
        case True
        then show ?thesis using long by (simp add: jsSplice_def min_def eq)
      next
        case False
        then show ?thesis using long by (simp add: jsSplice_def eq)
      qed
    qed
    then show ?thesis using "1.IH" False by (subst insertChunks.simps) simp
  qed
qed

lemma jsSplice_remove: "jsSplice (jsSplice xs i r []) i 0 items = jsSplice xs i r items"
  by (cases "i \<le> length xs") (simp_all add: jsSplice_def min_def)

lemma wfJson_child: "wfJson (JObj kvs) \<Longrightarrow> map_of kvs k = Some v \<Longrightarrow> wfJson v"
  by (auto dest!: map_of_SomeD)

lemma wfJson_update: "wfJson (JObj kvs) \<Longrightarrow> wfJson v \<Longrightarrow> wfJson (JObj (AList.update k v kvs))"
proof -
  assume a: "wfJson (JObj kvs)" "wfJson v"
  have "kv \<in> set kvs \<or> kv = (k, v)" if "kv \<in> set (AList.update k v kvs)" for kv
    using that by (induction kvs) (auto split: if_splits)
  then show ?thesis using a by (fastforce simp: distinct_update)
qed

lemma wfJson_delete: "wfJson (JObj kvs) \<Longrightarrow> wfJson (JObj (AList.delete k kvs))"
proof -
  assume "wfJson (JObj kvs)"
  moreover have "set (AList.delete k kvs) \<subseteq> set kvs" by (auto simp: AList.delete_eq)
  ultimately show ?thesis using distinct_delete [of kvs k] by auto
qed

lemma wfJson_list_update: "wfJson (JArr xs) \<Longrightarrow> wfJson v \<Longrightarrow> wfJson (JArr (xs[i := v]))"
  using set_update_subset_insert [of xs i v] by auto

lemma modifyAt_result:
  assumes "\<And>n. wfJson n \<Longrightarrow> result (f n) = g (meaning n)" and "wfJson doc"
  shows "result (modifyAt full p f doc) = vmodify p g (meaning doc)"
  using assms
proof (induction full p f doc rule: modifyAt.induct)
  case (2 full i p f xs)
  have IH: "vmodify p g (meaning (xs ! nat i)) = result (modifyAt full p f (xs ! nat i))" if "inRange i xs"
    using that 2 by (auto simp: inRange_def)
  show ?case
    using IH by (cases "modifyAt full p f (xs ! nat i)") (auto simp: inRange_def map_update)
next
  case (4 full s p f kvs)
  show ?case
  proof (cases "map_of kvs (segKey s)")
    case None
    then show ?thesis by (cases s) simp_all
  next
    case (Some c)
    have IH: "vmodify p g (meaning c) = result (modifyAt full p f c)"
      using 4 Some wfJson_child by metis
    have "vchild s (meaning (JObj kvs)) = Some (meaning c)" using Some by (cases s) simp_all
    moreover have "meaning (JObj (AList.update (segKey s) v kvs)) = vset s (meaning v) (meaning (JObj kvs))" for v
      by (cases s) (auto simp: fun_eq_iff)
    ultimately show ?thesis
      using IH Some by (cases "modifyAt full p f c") (auto simp del: meaning_obj)
  qed
qed auto

lemma modifyAt_wf:
  assumes "\<forall>n v. wfJson n \<longrightarrow> f n = Inr v \<longrightarrow> wfJson v" and "wfJson doc" and "modifyAt full p f doc = Inr w"
  shows "wfJson w"
  using assms
proof (induction full p f doc arbitrary: w rule: modifyAt.induct)
  case (2 full i p f xs)
  from "2.prems"(3) obtain v where i: "inRange i xs" and v: "modifyAt full p f (xs ! nat i) = Inr v" "w = JArr (xs[nat i := v])"
    by (auto split: if_splits)
  have x: "wfJson (xs ! nat i)" using i "2.prems"(2) by (simp add: inRange_def)
  have "wfJson v" by (rule "2.IH" [OF i "2.prems"(1) x v(1)])
  then show ?case using wfJson_list_update [OF "2.prems"(2)] v(2) by blast
next
  case (4 full s p f kvs)
  from "4.prems"(3) obtain c v where c: "map_of kvs (segKey s) = Some c" "modifyAt full p f c = Inr v"
    "w = JObj (AList.update (segKey s) v kvs)" by (auto split: option.splits)
  have "wfJson v" by (rule "4.IH" [OF c(1) "4.prems"(1) wfJson_child [OF "4.prems"(2) c(1)] c(2)])
  then show ?case using wfJson_update "4.prems"(2) c(3) by blast
qed auto

lemma editValue_result:
  "(case editValue path e current of Inl _ \<Rightarrow> None | Inr x \<Rightarrow> Some (map_option meaning x)) = vEditValue e (map_option meaning current)"
proof (cases current)
  case None
  then show ?thesis by (cases e) (simp_all add: editValue_def vEditValue_def)
next
  case (Some j)
  then show ?thesis by (cases j; cases e) (simp_all add: editValue_def vEditValue_def)
qed

lemma editValue_wf: "editValue path e current = Inr (Some v) \<Longrightarrow> wfEdit e \<Longrightarrow> wfJson v"
  by (auto simp: editValue_def split: edit.splits option.splits json.splits)

lemma editKey_result: "result (editKey path s e n) = vEditKey s e (meaning n)"
proof (induction path s e n rule: editKey.induct)
  case (2 path i e xs)
  let ?cur = "if nat i < length xs then Some (xs ! nat i) else None"
  have "map_option meaning ?cur = (if nat i < length xs then Some (map meaning xs ! nat i) else None)" by simp
  then have "vEditValue e (if nat i < length xs then Some (map meaning xs ! nat i) else None) =
      (case editValue path e ?cur of Inl _ \<Rightarrow> None | Inr x \<Rightarrow> Some (map_option meaning x))"
    using editValue_result [of path e ?cur] by simp
  then show ?case
    by (cases "editValue path e ?cur")
      (auto simp: map_update jsSplice_def take_map drop_map split: option.split)
next
  case (3 path s e kvs)
  let ?cur = "map_of kvs (segKey s)"
  have "vEditValue e (map_option meaning ?cur) = (case editValue path e ?cur of Inl _ \<Rightarrow> None | Inr x \<Rightarrow> Some (map_option meaning x))"
    using editValue_result [of path e ?cur] by simp
  then show ?case
    by (cases "editValue path e ?cur"; cases s) (auto simp: fun_eq_iff split: option.split)
qed auto

lemma editKey_wf:
  assumes "wfJson n" and "wfEdit e" and "editKey path s e n = Inr v"
  shows "wfJson v"
  using assms
proof (induction path s e n rule: editKey.induct)
  case (2 path i e xs)
  then obtain nv where n: "editValue path e (if nat i < length xs then Some (xs ! nat i) else None) = Inr nv"
    by (auto split: if_splits)
  show ?case
  proof (cases nv)
    case None
    then show ?thesis using 2 n by (auto simp: jsSplice_def split: if_splits) (meson in_set_takeD in_set_dropD)+
  next
    case (Some x)
    then have "wfJson x" using editValue_wf n 2(2) by blast
    then have "wfJson (JArr (xs[nat i := x]))" using wfJson_list_update 2(1) by blast
    with \<open>wfJson x\<close> show ?thesis using 2 n Some by (auto split: if_splits)
  qed
next
  case (3 path s e kvs)
  then show ?case
    by (auto split: option.splits simp del: wfJson.simps(2) intro: wfJson_update wfJson_delete dest: editValue_wf)
qed auto

lemma jsSplice_map: "map f (jsSplice xs i r items) = jsSplice (map f xs) i r (map f items)"
  by (simp add: jsSplice_def take_map drop_map)

lemma permutationFrom_range: "permutationFrom n seen p = Inr () \<Longrightarrow> \<forall>i \<in> set p. 0 \<le> i \<and> i < n"
  by (induction n seen p rule: permutationFrom.induct) (auto split: if_splits)

lemma valid_order:
  assumes "assertValidOp (At p (Reorder order)) = Inr ()" and "i \<in> set order"
  shows "nat i < length order"
proof -
  have "0 \<le> i \<and> i < int (length order)"
    using assms permutationFrom_range [of "int (length order)" "[]" order] by (simp add: assertPermutation_def)
  then show ?thesis by auto
qed

lemma editArray_result: "assertValidOp (At p e) = Inr () \<Longrightarrow> result (editArray path e n) = vEditArray e (meaning n)"
proof (induction path e n rule: editArray.induct)
  case (2 path order xs)
  then show ?case using valid_order [OF 2] by simp
qed (simp_all add: insertChunks_splice jsSplice_remove jsSplice_map)

lemma jsSplice_set: "set (jsSplice xs i r items) \<subseteq> set xs \<union> set items"
  by (auto simp: jsSplice_def dest: in_set_takeD in_set_dropD)

text \<open>A valid edit of an array reads elements of the array only.\<close>

lemma editArray_wf:
  assumes "wfJson n" and "wfEdit e" and "assertValidOp (At p e) = Inr ()" and "editArray path e n = Inr v"
  shows "wfJson v"
  using assms
proof (induction path e n rule: editArray.induct)
  case (1 path i r items xs)
  then have "v = JArr (jsSplice xs (nat i) (nat r) items)" by (simp add: insertChunks_splice jsSplice_remove)
  moreover have "wfJson x" if "x \<in> set (jsSplice xs (nat i) (nat r) items)" for x
    using that jsSplice_set [of xs "nat i" "nat r" items] 1(1,2) by auto
  ultimately show ?case by simp
next
  case (2 path order xs)
  then have v: "v = JArr (map (\<lambda>i. xs ! nat i) order)" "length xs = length order" by (auto split: if_splits)
  then show ?case using 2(1) valid_order [OF 2(3)] by auto
qed auto

lemma applyEdit_result:
  assumes "wfJson doc" and "assertValidOp (At p e) = Inr ()"
  shows "result (applyEdit p e doc) = vApplyEdit p e (meaning doc)"
proof -
  have "result (modifyAt p p (editArray p e) doc) = vmodify p (vEditArray e) (meaning doc)"
    by (rule modifyAt_result) (use assms editArray_result in blast)+
  moreover have "result (modifyAt (butlast p) (butlast p) (editKey p (last p) e) doc) = vmodify (butlast p) (vEditKey (last p) e) (meaning doc)"
    by (rule modifyAt_result) (use assms editKey_result in blast)+
  ultimately show ?thesis unfolding applyEdit_def vApplyEdit_def by (cases e) simp_all
qed

lemma applyEdit_wf:
  assumes "wfJson doc" and "wfEdit e" and "assertValidOp (At p e) = Inr ()" and "applyEdit p e doc = Inr v"
  shows "wfJson v"
proof -
  have "\<forall>n v. wfJson n \<longrightarrow> editArray p e n = Inr v \<longrightarrow> wfJson v" using editArray_wf assms(2,3) by blast
  note 1 = modifyAt_wf [OF this assms(1), of p p v]
  have "\<forall>n v. wfJson n \<longrightarrow> editKey p (last p) e n = Inr v \<longrightarrow> wfJson v" using editKey_wf assms(2) by blast
  note 2 = modifyAt_wf [OF this assms(1), of "butlast p" "butlast p" v]
  show ?thesis using assms(4) 1 2 unfolding applyEdit_def by (cases e) simp_all
qed

lemma applyOp_result: "wfJson doc \<Longrightarrow> result (applyOp op doc) = vApplyOp op (meaning doc)"
proof (cases "assertValidOp op")
  case (Inr u)
  assume "wfJson doc"
  then show ?thesis using Inr applyEdit_result by (cases op) (simp_all add: applyOp_def vApplyOp_def)
qed (simp add: applyOp_def vApplyOp_def)

lemma applyOp_wf: "wfJson doc \<Longrightarrow> wfOp op \<Longrightarrow> applyOp op doc = Inr v \<Longrightarrow> wfJson v"
  using applyEdit_wf by (cases op) (auto simp: applyOp_def)

lemma applyOps_result:
  assumes "wfJson doc" and "\<forall>op \<in> set ops. wfOp op"
  shows "result (applyOps ops doc) = vApplyOps ops (meaning doc)"
    and "applyOps ops doc = Inr v \<Longrightarrow> wfJson v"
proof -
  have "result (applyOps ops doc) = vApplyOps ops (meaning doc) \<and> (\<forall>v. applyOps ops doc = Inr v \<longrightarrow> wfJson v)"
    using assms
  proof (induction ops arbitrary: doc)
    case (Cons op ops)
    have r: "vApplyOp op (meaning doc) = result (applyOp op doc)" using applyOp_result Cons.prems(1) by simp
    show ?case
    proof (cases "applyOp op doc")
      case (Inr w)
      have "wfJson w" using applyOp_wf [OF Cons.prems(1) _ Inr] Cons.prems(2) by simp
      then show ?thesis using Cons.IH [of w] Cons.prems(2) Inr r by (simp add: applyOps_def)
    qed (use r in \<open>simp add: applyOps_def\<close>)
  qed (simp add: applyOps_def)
  then show "result (applyOps ops doc) = vApplyOps ops (meaning doc)" "applyOps ops doc = Inr v \<Longrightarrow> wfJson v" by blast+
qed

section \<open>Copying\<close>

lemma modifyAt_copies:
  assumes "modifyAt full p f doc = Inr v" and "\<forall>n v. f n = Inr v \<longrightarrow> (\<exists>xs. n = JArr xs) \<or> (\<exists>kvs. n = JObj kvs)"
  shows "copyContainers full' p doc = Inr ()"
  using assms
proof (induction full p f doc arbitrary: v rule: modifyAt.induct)
  case (1 full f node)
  then show ?case by auto
next
  case (4 full s p f kvs)
  then show ?case by (cases s) (auto split: option.splits)
qed (auto split: if_splits)

lemma editKey_container: "editKey path s e n = Inr v \<Longrightarrow> (\<exists>xs. n = JArr xs) \<or> (\<exists>kvs. n = JObj kvs)"
  by (cases n) auto

lemma editArray_container: "editArray path e n = Inr v \<Longrightarrow> \<exists>xs. n = JArr xs"
  by (cases n; cases e) auto

lemma applyOpImmutable_iff: "applyOpImmutable op doc = Inr v \<longleftrightarrow> applyOp op doc = Inr v"
proof (cases op)
  case (At p e)
  have "copyContainers (containerPath p e) (containerPath p e) doc = Inr ()" if a: "applyEdit p e doc = Inr v"
  proof -
    have "\<forall>n v. editArray p e n = Inr v \<longrightarrow> (\<exists>xs. n = JArr xs) \<or> (\<exists>kvs. n = JObj kvs)" using editArray_container by blast
    note 1 = modifyAt_copies [OF _ this]
    have "\<forall>n v. editKey p (last p) e n = Inr v \<longrightarrow> (\<exists>xs. n = JArr xs) \<or> (\<exists>kvs. n = JObj kvs)" using editKey_container by blast
    note 2 = modifyAt_copies [OF _ this]
    show ?thesis using a 1 2 by (cases e) (simp_all add: applyEdit_def containerPath_def)
  qed
  then show ?thesis using At by (auto simp: applyOpImmutable_def applyOp_def)
qed (simp add: applyOpImmutable_def applyOp_def)

lemma applyImmutable_iff: "applyImmutable ops doc = Inr v \<longleftrightarrow> applyOps ops doc = Inr v"
  unfolding applyImmutable_def applyOps_def
  by (induction ops arbitrary: doc) (simp_all add: applyOpImmutable_iff)

text \<open>
  A batch gives the same on values that differ in the order of keys only, up to that order: it fails
  on both or on none. Applying without mutation succeeds exactly when applying in place does, with the same value,
  and what comes out of well-formed operations is a well-formed value.
\<close>

theorem apply_respects_meaning:
  assumes "wfJson doc" and "wfJson doc'" and "meaning doc = meaning doc'" and "\<forall>op \<in> set ops. wfOp op"
  shows "result (applyOps ops doc) = result (applyOps ops doc') \<and>
         (\<forall>v. applyImmutable ops doc = Inr v \<longleftrightarrow> applyOps ops doc = Inr v) \<and>
         (\<forall>v. applyOps ops doc = Inr v \<longrightarrow> wfJson v)"
  using applyOps_result [OF assms(1,4)] applyOps_result(1) [OF assms(2,4)] assms(3) applyImmutable_iff by simp

definition sampleDoc :: json where
  "sampleDoc = JObj [(''a'', JArr [JNum 1, JNum 2]), (''t'', JStr ''hi'')]"

definition sampleDoc' :: json where
  "sampleDoc' = JObj [(''t'', JStr ''hi''), (''a'', JArr [JNum 1, JNum 2])]"

definition sampleBatch :: "delta_op list" where
  "sampleBatch = [At [Key ''a''] (SpliceBy 1 1 [JNull]), At [Key ''t''] (AppendText ''!''), At [Key ''a'', Index 0] Delete]"

theorem apply_respects_meaning_witness:
  "applyOps sampleBatch sampleDoc = Inr (JObj [(''a'', JArr [JNull]), (''t'', JStr ''hi!'')]) \<and>
   result (applyOps sampleBatch sampleDoc) = result (applyOps sampleBatch sampleDoc') \<and>
   applyImmutable sampleBatch sampleDoc = Inr (JObj [(''a'', JArr [JNull]), (''t'', JStr ''hi!'')])"
proof -
  have w: "wfJson sampleDoc" "wfJson sampleDoc'" "\<forall>op \<in> set sampleBatch. wfOp op"
    by (simp_all add: sampleDoc_def sampleDoc'_def sampleBatch_def)
  have m: "meaning sampleDoc = meaning sampleDoc'" by (auto simp: sampleDoc_def sampleDoc'_def fun_eq_iff)
  have "applyOps sampleBatch sampleDoc = Inr (JObj [(''a'', JArr [JNull]), (''t'', JStr ''hi!'')])"
    by (simp add: applyOps_def sampleBatch_def sampleDoc_def applyOp_def applyEdit_def assertPathArg_def RESERVED_SEGMENTS_def
        editValue_def jsSplice_def inRange_def insertChunks_splice)
  then show ?thesis using apply_respects_meaning [OF w(1,2) m w(3)] by simp
qed

end
