(* ===== verification/Revision_Diff.thy ===== *)
theory Revision_Diff
  imports Delta_Meaning
begin

text \<open>
  The operations between two revisions of a replicated state, \<open>packages/chord/src/state/diff.ts\<close>, with \<open>overlap\<close> of
  \<open>packages/chord/src/delta/index.ts\<close>. Revisions are frozen and share subtrees, and \<open>===\<close> compares containers by
  identity, so a container of a \<open>revision\<close> carries its address; \<open>coherent\<close> says that the same address is the same value.
  The loops append to the list of operations they are given, as in the code.
\<close>

section \<open>Revisions\<close>

datatype revision =
    RNull
  | RBool bool
  | RNum int
  | RStr string
  | RArr nat "revision list"
  | RObj nat "(string \<times> revision) list"

text \<open>\<open>===\<close>\<close>

fun identical :: "revision \<Rightarrow> revision \<Rightarrow> bool" where
  "identical (RArr a _) (RArr b _) \<longleftrightarrow> a = b"
| "identical (RObj a _) (RObj b _) \<longleftrightarrow> a = b"
| "identical l r \<longleftrightarrow> l = r"

fun plain :: "revision \<Rightarrow> json" where
  "plain RNull = JNull"
| "plain (RBool b) = JBool b"
| "plain (RNum i) = JNum i"
| "plain (RStr s) = JStr s"
| "plain (RArr _ xs) = JArr (map plain xs)"
| "plain (RObj _ kvs) = JObj (map (\<lambda>(k, v). (k, plain v)) kvs)"

function equalJson :: "revision \<Rightarrow> revision \<Rightarrow> bool"
  and equalElements :: "revision list \<Rightarrow> revision list \<Rightarrow> bool"
  and equalEntries :: "(string \<times> revision) list \<Rightarrow> (string \<times> revision) list \<Rightarrow> bool" where
  "equalJson left right \<longleftrightarrow>
     identical left right \<or>
     (case left of
        RArr _ xs \<Rightarrow> (case right of RArr _ ys \<Rightarrow> length xs = length ys \<and> equalElements xs ys | _ \<Rightarrow> False)
      | RObj _ kvs \<Rightarrow> (case right of RObj _ other \<Rightarrow> length kvs = length other \<and> equalEntries kvs other | _ \<Rightarrow> False)
      | _ \<Rightarrow> False)"
| "equalElements [] ys \<longleftrightarrow> True"
| "equalElements (x # xs) [] \<longleftrightarrow> False"
| "equalElements (x # xs) (y # ys) \<longleftrightarrow> equalJson x y \<and> equalElements xs ys"
| "equalEntries [] other \<longleftrightarrow> True"
| "equalEntries ((k, v) # kvs) other \<longleftrightarrow>
     (case map_of other k of None \<Rightarrow> False | Some w \<Rightarrow> equalJson v w \<and> equalEntries kvs other)"
  by pat_completeness auto

termination
  by (relation "measure (\<lambda>x. case x of
      Inl (l, _) \<Rightarrow> size l
    | Inr (Inl (xs, _)) \<Rightarrow> size_list size xs
    | Inr (Inr (kvs, _)) \<Rightarrow> size_list (size_prod (\<lambda>_. 0) size) kvs)") auto

declare equalJson.simps [simp del]

section \<open>Strings\<close>

definition DEFAULT_OVERLAP_SCAN :: nat where
  "DEFAULT_OVERLAP_SCAN = 65536"

definition MAX_DELTA_OPERATIONS :: nat where
  "MAX_DELTA_OPERATIONS = 4096"

text \<open>The occurrences of a head that are tried, and the first one at which the rest agrees.\<close>

definition occurrences :: "string \<Rightarrow> string \<Rightarrow> nat list" where
  "occurrences head tail = filter (\<lambda>k. take (length head) (drop k tail) = head) [0..<length tail]"

definition overlapAt :: "string \<Rightarrow> string \<Rightarrow> nat \<Rightarrow> nat \<Rightarrow> nat option" where
  "overlapAt tail b h maxCandidates =
     map_option (\<lambda>k. length tail - k)
       (List.find (\<lambda>k. length tail - k \<le> length b \<and> drop k tail = take (length tail - k) b)
         (take maxCandidates (occurrences (take h b) tail)))"

definition overlap :: "string \<Rightarrow> string \<Rightarrow> nat \<Rightarrow> nat \<Rightarrow> nat \<Rightarrow> nat" where
  "overlap a b scan probe maxCandidates =
     (if a = [] \<or> b = [] \<or> scan = 0 then 0
      else let tail = (if scan < length a then drop (length a - scan) a else a);
               h = min probe (length b)
           in case overlapAt tail b h maxCandidates of
                Some n \<Rightarrow> n
              | None \<Rightarrow>
                  if h = 1 then 0
                  else case overlapAt tail b 1 maxCandidates of Some n \<Rightarrow> n | None \<Rightarrow> 0)"

definition emitSet :: "path \<Rightarrow> json \<Rightarrow> delta_op list \<Rightarrow> delta_op list" where
  "emitSet path v operations = operations @ [if path = [] then Replace v else At path (SetTo v)]"

definition emitString :: "string \<Rightarrow> string \<Rightarrow> path \<Rightarrow> delta_op list \<Rightarrow> delta_op list" where
  "emitString before after path operations =
     (if before = after then operations
      else if length before < length after \<and> take (length before) after = before
      then operations @ [At path (AppendText (drop (length before) after))]
      else let shared = overlap before after DEFAULT_OVERLAP_SCAN 64 8
           in if shared = 0 then operations @ [At path (SetTo (JStr after))]
              else operations @ [At path (Trim (int (length before - shared)))]
                     @ (if shared < length after then [At path (AppendText (drop shared after))] else []))"

section \<open>Arrays\<close>

text \<open>The indices at which each value occurs, in order; \<open>permutation\<close> takes them one by one.\<close>

fun addPosition :: "revision \<Rightarrow> nat \<Rightarrow> (revision \<times> nat list) list \<Rightarrow> (revision \<times> nat list) list" where
  "addPosition v i [] = [(v, [i])]"
| "addPosition v i ((w, is) # ps) = (if identical w v then (w, is @ [i]) # ps else (w, is) # addPosition v i ps)"

fun takePosition :: "revision \<Rightarrow> (revision \<times> nat list) list \<Rightarrow> (nat \<times> (revision \<times> nat list) list) option" where
  "takePosition v [] = None"
| "takePosition v ((w, is) # ps) =
     (if identical w v then (case is of [] \<Rightarrow> None | i # is' \<Rightarrow> Some (i, (w, is') # ps))
      else map_option (\<lambda>(i, ps'). (i, (w, is) # ps')) (takePosition v ps))"

fun takePositions :: "revision list \<Rightarrow> (revision \<times> nat list) list \<Rightarrow> nat list option" where
  "takePositions [] ps = Some []"
| "takePositions (v # vs) ps =
     (case takePosition v ps of
        None \<Rightarrow> None
      | Some (i, ps') \<Rightarrow> map_option ((#) i) (takePositions vs ps'))"

definition positionsOf :: "revision list \<Rightarrow> (revision \<times> nat list) list" where
  "positionsOf before = fold (\<lambda>(i, v). addPosition v i) (zip [0..<length before] before) []"

definition permutation :: "revision list \<Rightarrow> revision list \<Rightarrow> nat list option" where
  "permutation before after =
     (if length before \<noteq> length after then None else takePositions after (positionsOf before))"

text \<open>A window of unchanged length that moved: what was removed in front, or inserted there.\<close>

definition removedAtFront :: "revision list \<Rightarrow> revision list \<Rightarrow> nat option" where
  "removedAtFront before after =
     List.find (\<lambda>r. list_all (\<lambda>i. identical (before ! i) (after ! (i - r))) [r..<length before])
       (take 16 (filter (\<lambda>r. identical (before ! r) (after ! 0)) [1..<length before]))"

definition sameLengthShift :: "revision list \<Rightarrow> revision list \<Rightarrow> path \<Rightarrow> delta_op list option" where
  "sameLengthShift before after path =
     (let n = length before
      in if n < 2 then None
         else case removedAtFront before after of
                Some r \<Rightarrow> Some [At path (SpliceBy 0 (int r) []),
                                At path (SpliceBy (int (n - r)) 0 (map plain (drop (n - r) after)))]
              | None \<Rightarrow>
                  (case removedAtFront after before of
                     Some r \<Rightarrow> Some [At path (SpliceBy 0 0 (map plain (take r after))),
                                     At path (SpliceBy (int n) (int r) [])]
                   | None \<Rightarrow> None))"

fun commonPrefix :: "revision list \<Rightarrow> revision list \<Rightarrow> nat" where
  "commonPrefix (x # xs) (y # ys) = (if equalJson x y then Suc (commonPrefix xs ys) else 0)"
| "commonPrefix _ _ = 0"

definition spliceBetween :: "revision list \<Rightarrow> revision list \<Rightarrow> path \<Rightarrow> delta_op" where
  "spliceBetween before after path =
     (let p = commonPrefix before after;
          rest = min (length before) (length after) - p;
          s = commonPrefix (take rest (rev before)) (take rest (rev after))
      in At path (SpliceBy (int p) (int (length before - p - s)) (map plain (drop p (take (length after - s) after)))))"

definition mismatches :: "revision list \<Rightarrow> revision list \<Rightarrow> nat" where
  "mismatches before after = length (filter (\<lambda>(b, a). \<not> identical b a) (zip before after))"

text \<open>The decisions of \<open>diffArray\<close> before the element-wise comparison.\<close>

definition arrayMove :: "revision list \<Rightarrow> revision list \<Rightarrow> path \<Rightarrow> delta_op list option" where
  "arrayMove before after path =
     (if length before \<noteq> length after then Some [spliceBetween before after path]
      else if mismatches before after = 0 then Some []
      else if 1 < mismatches before after
      then case permutation before after of
             Some order \<Rightarrow> Some [At path (Reorder (map int order))]
           | None \<Rightarrow> sameLengthShift before after path
      else None)"

section \<open>Values\<close>

text \<open>The deletion of the keys that are gone.\<close>

fun removeKeys :: "string list \<Rightarrow> string list \<Rightarrow> path \<Rightarrow> delta_op list \<Rightarrow> delta_op list" where
  "removeKeys [] after path operations = operations"
| "removeKeys (k # ks) after path operations =
     (if MAX_DELTA_OPERATIONS < length operations then operations
      else removeKeys ks after path (if k \<in> set after then operations else operations @ [At (path @ [Key k]) Delete]))"

function diffValue :: "revision \<Rightarrow> revision \<Rightarrow> path \<Rightarrow> delta_op list \<Rightarrow> delta_op list"
  and diffElements :: "revision list \<Rightarrow> revision list \<Rightarrow> nat \<Rightarrow> path \<Rightarrow> delta_op list \<Rightarrow> delta_op list"
  and diffEntries :: "(string \<times> revision) list \<Rightarrow> (string \<times> revision) list \<Rightarrow> path \<Rightarrow> delta_op list \<Rightarrow> delta_op list" where
  "diffValue before after path operations =
     (if identical before after \<or> MAX_DELTA_OPERATIONS < length operations then operations
      else case after of
        RStr a \<Rightarrow>
          (case before of
             RStr b \<Rightarrow> if path = [] then emitSet path (plain after) operations else emitString b a path operations
           | _ \<Rightarrow> emitSet path (plain after) operations)
      | RArr _ as \<Rightarrow>
          (case before of
             RArr _ bs \<Rightarrow>
               (case arrayMove bs as path of
                  Some new \<Rightarrow> operations @ new
                | None \<Rightarrow> diffElements bs as 0 path operations)
           | _ \<Rightarrow> emitSet path (plain after) operations)
      | RObj _ as \<Rightarrow>
          (case before of
             RObj _ bs \<Rightarrow>
               if list_ex (\<lambda>k. k \<in> set RESERVED_SEGMENTS) (map fst bs @ map fst as)
               then (if equalJson before after then operations else emitSet path (plain after) operations)
               else removeKeys (map fst bs) (map fst as) path (diffEntries bs as path operations)
           | _ \<Rightarrow> emitSet path (plain after) operations)
      | _ \<Rightarrow> emitSet path (plain after) operations)"
| "diffElements bs [] i path operations = operations"
| "diffElements [] (a # as) i path operations = operations"
| "diffElements (b # bs) (a # as) i path operations =
     (if MAX_DELTA_OPERATIONS < length operations then operations
      else diffElements bs as (Suc i) path (diffValue b a (path @ [Index (int i)]) operations))"
| "diffEntries bs [] path operations = operations"
| "diffEntries bs ((k, a) # as) path operations =
     (if MAX_DELTA_OPERATIONS < length operations then operations
      else diffEntries bs as path
             (case map_of bs k of
                Some b \<Rightarrow> diffValue b a (path @ [Key k]) operations
              | None \<Rightarrow> emitSet (path @ [Key k]) (plain a) operations))"
  by pat_completeness auto

termination
  by (relation "measure (\<lambda>x. case x of
      Inl (_, a, _) \<Rightarrow> size a
    | Inr (Inl (_, as, _)) \<Rightarrow> size_list size as
    | Inr (Inr (_, as, _)) \<Rightarrow> size_list (size_prod (\<lambda>_. 0) size) as)") auto

declare diffValue.simps [simp del]

section \<open>Revisions\<close>

fun jsonCost :: "json \<Rightarrow> nat" where
  "jsonCost JNull = 4"
| "jsonCost (JStr s) = length s + 2"
| "jsonCost (JNum i) = length (showInt i)"
| "jsonCost (JBool b) = (if b then 4 else 5)"
| "jsonCost (JArr xs) = 2 + sum_list (map jsonCost xs) + (length xs - 1)"
| "jsonCost (JObj kvs) = 2 + sum_list (map (\<lambda>(k, v). length k + 3 + jsonCost v) kvs) + (length kvs - 1)"

fun segCost :: "seg \<Rightarrow> nat" where
  "segCost (Key k) = length k + 2"
| "segCost (Index i) = length (showInt i)"

definition pathCost :: "path \<Rightarrow> nat" where
  "pathCost path = 2 + sum_list (map segCost path) + (length path - 1)"

fun operationCost :: "delta_op \<Rightarrow> nat" where
  "operationCost (Replace v) = 6 + jsonCost v"
| "operationCost (At path (SetTo v)) = 7 + pathCost path + jsonCost v"
| "operationCost (At path Delete) = 6 + pathCost path"
| "operationCost (At path (AppendText t)) = 7 + pathCost path + length t + 2"
| "operationCost (At path (Trim n)) = 7 + pathCost path + length (showInt n)"
| "operationCost (At path (SpliceBy i r items)) =
     10 + pathCost path + length (showInt i) + length (showInt r) + jsonCost (JArr items)"
| "operationCost (At path (Reorder order)) = 7 + pathCost path + jsonCost (JArr (map JNum order))"

definition diffRevisions :: "revision \<Rightarrow> revision \<Rightarrow> delta_op list" where
  "diffRevisions before after =
     (let operations = diffValue before after [] []
      in if MAX_DELTA_OPERATIONS < length operations then [Replace (plain after)]
         else if operations = [] \<or> isReplace (hd operations) then operations
         else let deltaCost = 2 + sum_list (map (\<lambda>op. operationCost op + 1) operations)
              in if deltaCost < 65536 then operations
                 else if jsonCost (plain after) + 6 \<le> deltaCost then [Replace (plain after)] else operations)"

end
