(* ===== verification/Diff_Properties.thy ===== *)
theory Diff_Properties
  imports Revision_Diff "HOL-Library.Sublist"
begin

text \<open>
  The operations between two revisions turn the one into the other. \<open>transforms p ops a b\<close> says that a batch turns the
  value \<open>a\<close> at the path \<open>p\<close> of any document into \<open>b\<close> and leaves the rest alone; its rules follow the structure of the
  difference.
\<close>

section \<open>Batches that transform a value at a path\<close>

definition transforms :: "path \<Rightarrow> delta_op list \<Rightarrow> jvalue \<Rightarrow> jvalue \<Rightarrow> bool" where
  "transforms p ops a b \<longleftrightarrow> (\<forall>doc. vget p doc = Some a \<longrightarrow> vApplyOps ops doc = Some (vput p b doc))"

lemma transforms_Nil: "transforms p [] a a"
  by (simp add: transforms_def vput_laws(3))

lemma transforms_append:
  assumes "transforms p ops a b" and "transforms p ops' b c"
  shows "transforms p (ops @ ops') a c"
  using assms unfolding transforms_def vApplyOps_append by (auto simp: vput_laws)

lemma transforms_child:
  assumes "vchild s n = Some a" and "transforms (p @ [s]) ops a b"
  shows "transforms p ops n (vset s b n)"
  using assms unfolding transforms_def by (auto simp: vget_append vput_append)

text \<open>Edits of an existing node.\<close>

lemma vEditKey_existing:
  assumes "vchild s n = Some a" and "vEditValue e (Some a) = Some (Some b)"
  shows "vEditKey s e n = Some (vset s b n)"
  using assms by (cases "(s, n)" rule: vchild.cases) (auto simp: inRange_def split: if_splits)

lemma vApplyEdit_key: "\<not> isArrayEdit e \<Longrightarrow> vApplyEdit (p @ [s]) e doc = vmodify p (vEditKey s e) doc"
  by (cases e) (simp_all add: vApplyEdit_def isArrayEdit_def)

lemma transforms_parent:
  assumes "\<not> isArrayEdit e" and "assertValidOp (At (p @ [s]) e) = Inr ()" and "vEditKey s e n = Some n'"
  shows "transforms p [At (p @ [s]) e] n n'"
  using assms by (simp add: transforms_def vApplyOp_def vApplyEdit_key vmodify_get)

lemma transforms_edit:
  assumes "\<not> isArrayEdit e" and "p \<noteq> []" and "assertValidOp (At p e) = Inr ()" and "vEditValue e (Some a) = Some (Some b)"
  shows "transforms p [At p e] a b"
  unfolding transforms_def
proof (intro allI impI)
  fix doc
  assume g: "vget p doc = Some a"
  obtain q s where p: "p = q @ [s]" using assms(2) by (metis rev_exhaust)
  then obtain n where n: "vget q doc = Some n" "vchild s n = Some a"
    using g by (auto simp: vget_append split: bind_splits)
  have "transforms q [At p e] n (vset s b n)"
    unfolding p using assms(1,3) p vEditKey_existing [OF n(2) assms(4)] by (intro transforms_parent) simp_all
  then show "vApplyOps [At p e] doc = Some (vput p b doc)"
    using n vput_append [OF n(1), of "[s]" b] unfolding transforms_def p by simp
qed

lemma transforms_array:
  assumes "isArrayEdit e" and "assertValidOp (At p e) = Inr ()" and "vEditArray e a = Some b"
  shows "transforms p [At p e] a b"
  using assms by (cases e) (simp_all add: transforms_def vApplyOp_def vApplyEdit_def isArrayEdit_def vmodify_get)

lemma assertSafePath_append: "assertSafePath (p @ q) = Inr () \<longleftrightarrow> assertSafePath p = Inr () \<and> assertSafePath q = Inr ()"
  by (induction p rule: assertSafePath.induct) auto

lemma transforms_set:
  assumes "assertSafePath p = Inr ()"
  shows "transforms p [if p = [] then Replace v else At p (SetTo v)] a (meaning v)"
proof (cases "p = []")
  case True
  then show ?thesis by (simp add: transforms_def vApplyOp_def)
next
  case False
  have "transforms p [At p (SetTo v)] a (meaning v)"
    using False assms by (intro transforms_edit) (simp_all add: isArrayEdit_def assertPathArg_def vEditValue_def)
  then show ?thesis using False by simp
qed

section \<open>Strings\<close>

lemma overlapAt_sound:
  assumes "overlapAt tail b h c = Some n"
  shows "n \<le> length b" "n \<le> length tail" "drop (length tail - n) tail = take n b"
proof -
  obtain k where k: "k \<in> set (take c (occurrences (take h b) tail))" "n = length tail - k" "n \<le> length b"
    "drop k tail = take n b"
    using assms by (auto simp: overlapAt_def find_Some_iff in_set_conv_nth)
  have "k \<in> set (occurrences (take h b) tail)" using k(1) by (rule in_set_takeD)
  then have "k < length tail" by (auto simp: occurrences_def)
  then show "n \<le> length b" "n \<le> length tail" "drop (length tail - n) tail = take n b" using k by auto
qed

lemma overlap_sound:
  "overlap a b scan probe c \<le> length a \<and> overlap a b scan probe c \<le> length b \<and>
   drop (length a - overlap a b scan probe c) a = take (overlap a b scan probe c) b"
proof -
  define tail where "tail = (if scan < length a then drop (length a - scan) a else a)"
  have t: "tail = drop (length a - length tail) a" "length tail \<le> length a" by (auto simp: tail_def)
  have found: "n \<le> length a \<and> n \<le> length b \<and> drop (length a - n) a = take n b" if "overlapAt tail b h c = Some n" for n h
  proof -
    have n: "n \<le> length b" "n \<le> length tail" "drop (length tail - n) tail = take n b" using overlapAt_sound [OF that] by auto
    have "drop (length tail - n) tail = drop (length tail - n) (drop (length a - length tail) a)" by (rule arg_cong [OF t(1)])
    also have "\<dots> = drop (length a - n) a" using n(2) t(2) by simp
    finally have "drop (length a - n) a = drop (length tail - n) tail" ..
    then show ?thesis using n t(2) by auto
  qed
  show ?thesis
    using found unfolding overlap_def Let_def tail_def [symmetric] by (auto split: option.split)
qed

lemma emitString_transforms:
  assumes safe: "assertSafePath p = Inr ()" and "p \<noteq> []"
  shows "\<exists>new. emitString b a p ops = ops @ new \<and> transforms p new (VStr b) (VStr a) \<and> (\<forall>op \<in> set new. wfOp op)"
proof -
  have one: "transforms p [At p e] (VStr s) (VStr t)"
    if "\<not> isArrayEdit e" "vEditValue e (Some (VStr s)) = Some (Some (VStr t))" "\<forall>n. e = Trim n \<longrightarrow> 0 \<le> n" for e s t
    using that assms by (intro transforms_edit) (cases e; auto simp: assertPathArg_def isArrayEdit_def)+
  consider (same) "b = a" | (grows) "b \<noteq> a" "length b < length a" "take (length b) a = b"
    | (other) "b \<noteq> a" "\<not> (length b < length a \<and> take (length b) a = b)" by blast
  then show ?thesis
  proof cases
    case same
    then show ?thesis using transforms_Nil by (auto simp: emitString_def)
  next
    case grows
    have "b @ drop (length b) a = a" using grows(3) by (metis append_take_drop_id)
    then have "transforms p [At p (AppendText (drop (length b) a))] (VStr b) (VStr a)"
      by (intro one) (simp_all add: isArrayEdit_def vEditValue_def)
    then show ?thesis using grows by (auto simp: emitString_def)
  next
    case other
    define n where "n = overlap b a DEFAULT_OVERLAP_SCAN 64 8"
    have n: "n \<le> length b" "n \<le> length a" "drop (length b - n) b = take n a" using overlap_sound unfolding n_def by blast+
    show ?thesis
    proof (cases "n = 0")
      case True
      have "transforms p [At p (SetTo (JStr a))] (VStr b) (VStr a)"
        by (intro one) (simp_all add: isArrayEdit_def vEditValue_def)
      then show ?thesis using other True by (auto simp: emitString_def n_def Let_def)
    next
      case False
      have 1: "transforms p [At p (Trim (int (length b - n)))] (VStr b) (VStr (take n a))"
        using n(3) by (intro one) (simp_all add: isArrayEdit_def vEditValue_def)
      let ?rest = "if n < length a then [At p (AppendText (drop n a))] else []"
      have "transforms p [At p (AppendText (drop n a))] (VStr (take n a)) (VStr a)"
        by (intro one) (simp_all add: isArrayEdit_def vEditValue_def)
      then have 2: "transforms p ?rest (VStr (take n a)) (VStr a)" using n(2) transforms_Nil by auto
      have "emitString b a p ops = ops @ [At p (Trim (int (length b - n)))] @ ?rest"
        using other False by (auto simp: emitString_def n_def Let_def)
      then show ?thesis using transforms_append [OF 1 2] by auto
    qed
  qed
qed

section \<open>Revisions\<close>

abbreviation valueOf :: "revision \<Rightarrow> jvalue" where
  "valueOf r \<equiv> meaning (plain r)"

fun subs :: "revision \<Rightarrow> revision list" where
  "subs (RArr a xs) = RArr a xs # concat (map subs xs)"
| "subs (RObj a kvs) = RObj a kvs # concat (map (\<lambda>(k, v). subs v) kvs)"
| "subs r = [r]"

definition coherent :: "revision list \<Rightarrow> bool" where
  "coherent rs \<longleftrightarrow> (\<forall>x \<in> set rs. \<forall>y \<in> set rs. identical x y \<longrightarrow> x = y)"

text \<open>What the proofs use: below a set of revisions identity implies equality, and their keys are distinct.\<close>

definition soundOn :: "revision set \<Rightarrow> bool" where
  "soundOn S \<longleftrightarrow> (\<forall>x \<in> S. \<forall>y \<in> S. identical x y \<longrightarrow> valueOf x = valueOf y) \<and>
     (\<forall>x \<in> S. set (subs x) \<subseteq> S \<and> wfJson (plain x))"

lemma subs_self [simp]: "r \<in> set (subs r)"
  by (cases r) auto

lemma soundOn_elem: "soundOn S \<Longrightarrow> RArr a xs \<in> S \<Longrightarrow> x \<in> set xs \<Longrightarrow> x \<in> S"
proof -
  assume a: "soundOn S" "RArr a xs \<in> S" "x \<in> set xs"
  have "x \<in> set (subs (RArr a xs))" using a(3) subs_self [of x] by (auto simp del: subs_self)
  moreover have "set (subs (RArr a xs)) \<subseteq> S" using a(1,2) unfolding soundOn_def by blast
  ultimately show ?thesis by blast
qed

lemma soundOn_entry: "soundOn S \<Longrightarrow> RObj a kvs \<in> S \<Longrightarrow> (k, v) \<in> set kvs \<Longrightarrow> v \<in> S"
proof -
  assume a: "soundOn S" "RObj a kvs \<in> S" "(k, v) \<in> set kvs"
  have "v \<in> set (subs (RObj a kvs))" using a(3) subs_self [of v] by (auto simp del: subs_self)
  moreover have "set (subs (RObj a kvs)) \<subseteq> S" using a(1,2) unfolding soundOn_def by blast
  ultimately show ?thesis by blast
qed

lemma soundOn_identical: "soundOn S \<Longrightarrow> x \<in> S \<Longrightarrow> y \<in> S \<Longrightarrow> identical x y \<Longrightarrow> valueOf x = valueOf y"
  by (simp add: soundOn_def)

lemma map_of_plain: "map_of (map (\<lambda>(k, v). (k, plain v)) kvs) k = map_option plain (map_of kvs k)"
  by (simp add: map_of_map)

lemma valueOf_obj: "valueOf (RObj a kvs) = VObj (\<lambda>k. map_option valueOf (map_of kvs k))"
  by (simp add: map_of_plain fun_eq_iff option.map_comp comp_def)

lemma valueOf_arr: "valueOf (RArr a xs) = VArr (map valueOf xs)"
  by simp

lemma map_fst_plain [simp]: "map fst (map (\<lambda>(k, v). (k, plain v)) kvs) = map fst kvs"
  by (induction kvs) auto

lemma soundOn_keys: "soundOn S \<Longrightarrow> RObj a kvs \<in> S \<Longrightarrow> distinct (map fst kvs)"
proof -
  assume "soundOn S" "RObj a kvs \<in> S"
  then have "wfJson (plain (RObj a kvs))" unfolding soundOn_def by blast
  then show ?thesis by (simp only: plain.simps wfJson.simps map_fst_plain)
qed

lemma wf_elems: "soundOn S \<Longrightarrow> set xs \<subseteq> S \<Longrightarrow> \<forall>x \<in> set (map plain xs). wfJson x"
  by (auto simp: soundOn_def)

lemma identical_refl [simp]: "identical x x"
  by (cases x) simp_all

lemma identical_sym: "identical x y \<Longrightarrow> identical y x"
  by (induction x y rule: identical.induct) auto

lemma identical_trans: "identical x y \<Longrightarrow> identical y z \<Longrightarrow> identical x z"
  by (cases x; cases y; cases z) auto

lemma equalJson_sound:
  assumes "soundOn S"
  shows "equalJson l r \<Longrightarrow> l \<in> S \<Longrightarrow> r \<in> S \<Longrightarrow> valueOf l = valueOf r"
    and "equalElements xs ys \<Longrightarrow> length xs = length ys \<Longrightarrow> set xs \<subseteq> S \<Longrightarrow> set ys \<subseteq> S \<Longrightarrow> map valueOf xs = map valueOf ys"
    and "equalEntries kvs other \<Longrightarrow> snd ` set kvs \<subseteq> S \<Longrightarrow> snd ` set other \<subseteq> S \<Longrightarrow>
      \<forall>k v. (k, v) \<in> set kvs \<longrightarrow> (\<exists>w. map_of other k = Some w \<and> valueOf v = valueOf w)"
proof (induction l r and xs ys and kvs other rule: equalJson_equalElements_equalEntries.induct)
  case (1 l r)
  show ?case
  proof (cases "identical l r")
    case True
    then show ?thesis using soundOn_identical [OF assms] 1(4,5) by blast
  next
    case False
    then consider (arr) a xs b ys where "l = RArr a xs" "r = RArr b ys" "length xs = length ys" "equalElements xs ys"
      | (obj) a kvs b other where "l = RObj a kvs" "r = RObj b other" "length kvs = length other" "equalEntries kvs other"
      using 1(3) by (subst (asm) equalJson.simps) (auto split: revision.splits)
    then show ?thesis
    proof cases
      case arr
      have "set xs \<subseteq> S" "set ys \<subseteq> S" using soundOn_elem [OF assms] 1(4,5) arr(1,2) by blast+
      then show ?thesis using 1(1) [OF arr(1,2)] arr by (simp add: comp_def)
    next
      case obj
      have "snd ` set kvs \<subseteq> S" "snd ` set other \<subseteq> S" using soundOn_entry [OF assms] 1(4,5) obj(1,2) by force+
      then have sub: "\<forall>k v. (k, v) \<in> set kvs \<longrightarrow> (\<exists>w. map_of other k = Some w \<and> valueOf v = valueOf w)"
        using 1(2) [OF obj(1,2)] obj(3,4) by simp
      have d: "distinct (map fst kvs)" "distinct (map fst other)" using soundOn_keys [OF assms] 1(4,5) obj(1,2) by blast+
      have keys: "fst ` set kvs \<subseteq> fst ` set other" using sub by (force dest: map_of_SomeD)
      have "card (fst ` set kvs) = card (fst ` set other)"
        using d obj(3) by (metis distinct_card length_map set_map)
      then have same: "fst ` set kvs = fst ` set other" using keys by (simp add: card_subset_eq)
      have "map_option valueOf (map_of kvs k) = map_option valueOf (map_of other k)" for k
      proof (cases "map_of kvs k")
        case None
        then have "map_of other k = None" using same by (simp add: map_of_eq_None_iff)
        then show ?thesis using None by simp
      next
        case (Some v)
        then show ?thesis using sub by (fastforce dest: map_of_SomeD)
      qed
      then show ?thesis unfolding obj(1,2) valueOf_obj by simp
    qed
  qed
next
  case (6 k v kvs other)
  then obtain w where w: "map_of other k = Some w" "equalJson v w" "equalEntries kvs other" by (auto split: option.splits)
  then have "w \<in> S" using 6(5) by (force dest: map_of_SomeD)
  then have "valueOf v = valueOf w" using 6(1) [OF w(1)] w(2) 6(4) by simp
  then show ?case using 6(2) [OF w(1)] w 6(4,5) by auto
qed auto

section \<open>Arrays\<close>

lemma wfItems: "soundOn S \<Longrightarrow> set xs \<subseteq> S \<Longrightarrow> wfEdit (SpliceBy i r (map plain xs))"
  using wf_elems by simp

lemma splice_transforms:
  assumes "assertSafePath p = Inr ()" and "ys = jsSplice xs i r (map valueOf items)"
  shows "transforms p [At p (SpliceBy (int i) (int r) (map plain items))] (VArr xs) (VArr ys)"
  using assms by (intro transforms_array) (simp_all add: isArrayEdit_def assertPathArg_def comp_def)

lemma commonPrefix_sound:
  assumes "soundOn S" and "set xs \<subseteq> S" and "set ys \<subseteq> S"
  shows "commonPrefix xs ys \<le> length xs \<and> commonPrefix xs ys \<le> length ys \<and>
         take (commonPrefix xs ys) (map valueOf xs) = take (commonPrefix xs ys) (map valueOf ys)"
  using assms(2,3) by (induction xs ys rule: commonPrefix.induct) (auto intro: equalJson_sound(1) [OF assms(1)])

lemma spliceBetween_transforms:
  assumes sound: "soundOn S" "set bs \<subseteq> S" "set as \<subseteq> S" and safe: "assertSafePath path = Inr ()"
  shows "transforms path [spliceBetween bs as path] (VArr (map valueOf bs)) (VArr (map valueOf as))"
    and "wfOp (spliceBetween bs as path)"
proof -
  define p where "p = commonPrefix bs as"
  define rest where "rest = min (length bs) (length as) - p"
  define s where "s = commonPrefix (take rest (rev bs)) (take rest (rev as))"
  have p: "p \<le> length bs" "p \<le> length as" "take p (map valueOf bs) = take p (map valueOf as)"
    using commonPrefix_sound [OF sound] unfolding p_def by blast+
  have sub: "set (take rest (rev bs)) \<subseteq> S" "set (take rest (rev as)) \<subseteq> S" using sound(2,3) set_take_subset [of rest "rev bs"] set_take_subset [of rest "rev as"] by auto
  have s: "s \<le> rest" "take s (map valueOf (take rest (rev bs))) = take s (map valueOf (take rest (rev as)))"
    using commonPrefix_sound [OF sound(1) sub] unfolding s_def by auto
  have le: "p + s \<le> length bs" "p + s \<le> length as" using s(1) p(1,2) unfolding rest_def by auto
  have pl: "p \<le> length as - s" using le(2) by arith
  have "take s (rev (map valueOf bs)) = take s (rev (map valueOf as))"
    using s by (simp add: take_map rev_map min_def)
  then have tail: "drop (length bs - s) (map valueOf bs) = drop (length as - s) (map valueOf as)"
    by (simp add: take_rev)
  let ?items = "drop p (take (length as - s) as)"
  have "map valueOf ?items = drop p (take (length as - s) (map valueOf as))" by (simp add: drop_map take_map)
  then have "jsSplice (map valueOf bs) p (length bs - p - s) (map valueOf ?items) =
      take p (map valueOf as) @ drop p (take (length as - s) (map valueOf as)) @ drop (length as - s) (map valueOf as)"
    using le p(3) tail by (simp add: jsSplice_def)
  also have "take p (map valueOf as) @ drop p (take (length as - s) (map valueOf as)) @ drop (length as - s) (map valueOf as)
      = (take p (take (length as - s) (map valueOf as)) @ drop p (take (length as - s) (map valueOf as))) @ drop (length as - s) (map valueOf as)"
    using pl by (simp add: min_absorb1)
  also have "\<dots> = map valueOf as" by (simp only: append_take_drop_id)
  finally have "map valueOf as = jsSplice (map valueOf bs) p (length bs - p - s) (map valueOf ?items)" ..
  from splice_transforms [OF safe this]
  show "transforms path [spliceBetween bs as path] (VArr (map valueOf bs)) (VArr (map valueOf as))"
    by (simp add: spliceBetween_def Let_def p_def [symmetric] rest_def [symmetric] s_def [symmetric])
  have "set ?items \<subseteq> S" using sound(3) by (auto dest: in_set_takeD in_set_dropD)
  from wfItems [OF sound(1) this] show "wfOp (spliceBetween bs as path)"
    by (simp add: spliceBetween_def Let_def p_def [symmetric] rest_def [symmetric] s_def [symmetric])
qed

subsection \<open>Permutations\<close>

definition posInv :: "revision list \<Rightarrow> (revision \<times> nat list) list \<Rightarrow> bool" where
  "posInv before ps \<longleftrightarrow> distinct (concat (map snd ps)) \<and>
     (\<forall>(w, is) \<in> set ps. \<forall>i \<in> set is. i < length before \<and> identical w (before ! i))"

lemma posInv_Cons:
  "posInv before ((w, is) # ps) \<longleftrightarrow> distinct is \<and> set is \<inter> set (concat (map snd ps)) = {} \<and>
     (\<forall>i \<in> set is. i < length before \<and> identical w (before ! i)) \<and> posInv before ps"
  by (auto simp: posInv_def)

lemma addPosition_indices: "set (concat (map snd (addPosition v i ps))) = insert i (set (concat (map snd ps)))"
  by (induction v i ps rule: addPosition.induct) auto

lemma addPosition_inv:
  assumes "posInv before ps" and "i \<notin> set (concat (map snd ps))" and "i < length before" and "before ! i = v"
  shows "posInv before (addPosition v i ps)"
  using assms
proof (induction v i ps rule: addPosition.induct)
  case (2 v i w "is" ps)
  have tl: "posInv before ps" using 2(2) by (auto simp: posInv_def)
  show ?case
  proof (cases "identical w v")
    case True
    then show ?thesis using 2 by (auto simp: posInv_def)
  next
    case False
    then have "posInv before (addPosition v i ps)" using 2 tl by auto
    then show ?thesis using False 2(2,3) addPosition_indices [of v i ps] by (auto simp: posInv_def)
  qed
qed (simp add: posInv_def)

lemma positions_inv:
  assumes "posInv before ps" and "distinct (map fst pairs)" and "fst ` set pairs \<inter> set (concat (map snd ps)) = {}"
    and "\<forall>(i, v) \<in> set pairs. i < length before \<and> before ! i = v"
  shows "posInv before (fold (\<lambda>(i, v). addPosition v i) pairs ps)"
  using assms
proof (induction pairs arbitrary: ps)
  case (Cons q pairs)
  obtain i v where q: "q = (i, v)" by (cases q)
  have "posInv before (addPosition v i ps)" using Cons.prems q by (intro addPosition_inv) auto
  moreover have "fst ` set pairs \<inter> set (concat (map snd (addPosition v i ps))) = {}"
    using Cons.prems(2,3) q unfolding addPosition_indices by auto
  ultimately show ?case using Cons.IH [of "addPosition v i ps"] Cons.prems(2,4) q by simp
qed simp

lemma positionsOf_inv: "posInv before (positionsOf before)"
  unfolding positionsOf_def by (rule positions_inv) (auto simp: posInv_def set_zip)

lemma takePosition_inv:
  assumes "takePosition v ps = Some (i, ps')" and "posInv before ps"
  shows "i < length before \<and> identical (before ! i) v \<and> posInv before ps' \<and>
         i \<in> set (concat (map snd ps)) \<and> i \<notin> set (concat (map snd ps')) \<and>
         set (concat (map snd ps')) \<subseteq> set (concat (map snd ps))"
  using assms
proof (induction v ps arbitrary: i ps' rule: takePosition.induct)
  case (2 v w "is" ps)
  show ?case
  proof (cases "identical w v")
    case True
    then obtain is' where i: "is = i # is'" "ps' = (w, is') # ps" using 2(2) by (auto split: list.splits)
    have "identical w (before ! i)" "i < length before" using 2(3) i(1) by (auto simp: posInv_def)
    then show ?thesis using True i 2(3) identical_trans [OF identical_sym [of w "before ! i"]] by (auto simp: posInv_def)
  next
    case False
    then obtain ps1 where ps1: "takePosition v ps = Some (i, ps1)" "ps' = (w, is) # ps1" using 2(2) by auto
    have tl: "posInv before ps" using 2(3) by (auto simp: posInv_def)
    have IH: "i < length before" "identical (before ! i) v" "posInv before ps1" "i \<in> set (concat (map snd ps))"
      "i \<notin> set (concat (map snd ps1))" "set (concat (map snd ps1)) \<subseteq> set (concat (map snd ps))"
      using 2(1) [OF False ps1(1) tl] by auto
    have d: "set is \<inter> set (concat (map snd ps)) = {}" using 2(3) unfolding posInv_Cons by blast
    have "posInv before ps'" using IH(3,6) 2(3) unfolding ps1(2) posInv_Cons by blast
    moreover have "i \<notin> set (concat (map snd ps'))" using IH(4,5) d unfolding ps1(2) by auto
    moreover have "set (concat (map snd ps')) \<subseteq> set (concat (map snd ((w, is) # ps)))" using IH(6) unfolding ps1(2) by auto
    ultimately show ?thesis using IH(1,2,4) by simp
  qed
qed simp

lemma takePositions_sound:
  assumes "takePositions vs ps = Some order" and "posInv before ps"
  shows "length order = length vs \<and> distinct order \<and> set order \<subseteq> set (concat (map snd ps)) \<and>
         (\<forall>j < length vs. order ! j < length before \<and> identical (before ! (order ! j)) (vs ! j))"
  using assms
proof (induction vs ps arbitrary: order rule: takePositions.induct)
  case (2 v vs ps)
  then obtain i ps' order' where t: "takePosition v ps = Some (i, ps')" "takePositions vs ps' = Some order'" "order = i # order'"
    by (auto split: option.splits)
  have i: "i < length before" "identical (before ! i) v" "posInv before ps'" "i \<in> set (concat (map snd ps))"
    "i \<notin> set (concat (map snd ps'))" "set (concat (map snd ps')) \<subseteq> set (concat (map snd ps))"
    using takePosition_inv [OF t(1) 2(3)] by auto
  have IH: "length order' = length vs" "distinct order'" "set order' \<subseteq> set (concat (map snd ps'))"
    "\<forall>j < length vs. order' ! j < length before \<and> identical (before ! (order' ! j)) (vs ! j)"
    using 2(1) [OF t(1) refl t(2) i(3)] by auto
  show ?case
  proof (intro conjI allI impI)
    show "length order = length (v # vs)" using IH(1) t(3) by simp
    show "distinct order" using IH(2,3) i(5) t(3) by auto
    show "set order \<subseteq> set (concat (map snd ps))" using IH(3) i(4,6) t(3) by auto
    show "order ! j < length before" "identical (before ! (order ! j)) ((v # vs) ! j)" if "j < length (v # vs)" for j
      using that IH(4) i(1,2) t(3) by (cases j; simp)+
  qed
qed simp

lemma permutationFrom_ok:
  assumes "distinct is" and "set is \<inter> set seen = {}" and "\<forall>i \<in> set is. 0 \<le> i \<and> i < n"
  shows "permutationFrom n seen is = Inr ()"
  using assms by (induction n seen "is" rule: permutationFrom.induct) auto

lemma permutation_transforms:
  assumes sound: "soundOn S" "set bs \<subseteq> S" "set as \<subseteq> S" and safe: "assertSafePath p = Inr ()"
    and perm: "permutation bs as = Some order"
  shows "transforms p [At p (Reorder (map int order))] (VArr (map valueOf bs)) (VArr (map valueOf as))"
proof -
  have len: "length bs = length as" and t: "takePositions as (positionsOf bs) = Some order"
    using perm by (auto simp: permutation_def split: if_splits)
  have o: "length order = length as" "distinct order"
    "\<forall>j < length as. order ! j < length bs \<and> identical (bs ! (order ! j)) (as ! j)"
    using takePositions_sound [OF t positionsOf_inv] by auto
  have "valueOf (bs ! (order ! j)) = valueOf (as ! j)" if "j < length as" for j
    using that o(3) sound(2,3) by (intro soundOn_identical [OF sound(1)]) auto
  then have "map (\<lambda>i. map valueOf bs ! nat i) (map int order) = map valueOf as"
    using o by (intro nth_equalityI) auto
  moreover have "assertPermutation (map int order) = Inr ()"
  proof -
    have "\<forall>i \<in> set order. i < length order" using o(1,3) len by (auto simp: in_set_conv_nth)
    then show ?thesis unfolding assertPermutation_def using o(2) by (intro permutationFrom_ok) (auto simp: distinct_map)
  qed
  ultimately show ?thesis
    using safe o(1) len by (intro transforms_array) (simp_all add: isArrayEdit_def assertPathArg_def)
qed

subsection \<open>Moves\<close>

lemma removedAtFront_sound:
  assumes "removedAtFront xs ys = Some r"
  shows "1 \<le> r \<and> r < length xs \<and> (\<forall>i. r \<le> i \<and> i < length xs \<longrightarrow> identical (xs ! i) (ys ! (i - r)))"
proof -
  obtain all: "list_all (\<lambda>i. identical (xs ! i) (ys ! (i - r))) [r..<length xs]"
    and r: "r \<in> set (take 16 (filter (\<lambda>r. identical (xs ! r) (ys ! 0)) [1..<length xs]))"
    using assms by (auto simp: removedAtFront_def find_Some_iff in_set_conv_nth)
  have "r \<in> set (filter (\<lambda>r. identical (xs ! r) (ys ! 0)) [1..<length xs])" using r by (rule in_set_takeD)
  then show ?thesis using all by (auto simp: list_all_iff)
qed

lemma shifted_values:
  assumes "soundOn S" and "set xs \<subseteq> S" and "set ys \<subseteq> S" and "length xs = length ys"
    and "\<forall>i. r \<le> i \<and> i < length xs \<longrightarrow> identical (xs ! i) (ys ! (i - r))"
  shows "drop r (map valueOf xs) = take (length xs - r) (map valueOf ys)"
proof (rule nth_equalityI)
  fix i assume "i < length (drop r (map valueOf xs))"
  then have i: "i < length xs - r" by simp
  then have "identical (xs ! (r + i)) (ys ! i)" using assms(5) [rule_format, of "r + i"] by simp
  then have "valueOf (xs ! (r + i)) = valueOf (ys ! i)"
    using i assms(2-4) by (intro soundOn_identical [OF assms(1)]) auto
  then show "drop r (map valueOf xs) ! i = take (length xs - r) (map valueOf ys) ! i" using i assms(4) by simp
qed (use assms(4) in simp)

lemma sameLengthShift_transforms:
  assumes sound: "soundOn S" "set bs \<subseteq> S" "set as \<subseteq> S" and len: "length bs = length as" and safe: "assertSafePath p = Inr ()"
    and shift: "sameLengthShift bs as p = Some new"
  shows "transforms p new (VArr (map valueOf bs)) (VArr (map valueOf as)) \<and> (\<forall>op \<in> set new. wfOp op)"
proof (cases "removedAtFront bs as")
  case (Some r)
  let ?n = "length bs" and ?xs = "map valueOf bs" and ?ys = "map valueOf as"
  have r: "1 \<le> r" "r < ?n" and eq: "drop r ?xs = take (?n - r) ?ys"
    using removedAtFront_sound [OF Some] shifted_values [OF sound len] by auto
  have new: "new = [At p (SpliceBy (int 0) (int r) (map plain []))] @ [At p (SpliceBy (int (?n - r)) (int 0) (map plain (drop (?n - r) as)))]"
    using shift Some r by (auto simp: sameLengthShift_def Let_def)
  have 1: "transforms p [At p (SpliceBy (int 0) (int r) (map plain []))] (VArr ?xs) (VArr (take (?n - r) ?ys))"
    by (rule splice_transforms [OF safe]) (simp add: jsSplice_def eq)
  have 2: "transforms p [At p (SpliceBy (int (?n - r)) (int 0) (map plain (drop (?n - r) as)))] (VArr (take (?n - r) ?ys)) (VArr ?ys)"
    using len by (intro splice_transforms [OF safe]) (simp add: jsSplice_def flip: drop_map)
  have "set (drop (?n - r) as) \<subseteq> S" using sound(3) set_drop_subset by fast
  then show ?thesis
    using transforms_append [OF 1 2] wf_elems [OF sound(1)] unfolding new by simp
next
  case None
  then obtain r where Some: "removedAtFront as bs = Some r"
    using shift by (auto simp: sameLengthShift_def Let_def split: if_splits option.splits)
  let ?n = "length bs" and ?xs = "map valueOf bs" and ?ys = "map valueOf as"
  have r: "1 \<le> r" "r < ?n" and eq: "drop r ?ys = take (?n - r) ?xs"
    using removedAtFront_sound [OF Some] shifted_values [OF sound(1,3,2)] len by auto
  have new: "new = [At p (SpliceBy (int 0) (int 0) (map plain (take r as)))] @ [At p (SpliceBy (int ?n) (int r) (map plain []))]"
    using shift Some None r by (auto simp: sameLengthShift_def Let_def)
  have 1: "transforms p [At p (SpliceBy (int 0) (int 0) (map plain (take r as)))] (VArr ?xs) (VArr (take r ?ys @ ?xs))"
    by (rule splice_transforms [OF safe]) (simp add: jsSplice_def take_map)
  have "take r ?ys @ take (?n - r) ?xs = ?ys" using eq by (metis append_take_drop_id)
  then have "?ys = jsSplice (take r ?ys @ ?xs) ?n r (map valueOf [])"
    using r len by (simp add: jsSplice_def min_def)
  then have 2: "transforms p [At p (SpliceBy (int ?n) (int r) (map plain []))] (VArr (take r ?ys @ ?xs)) (VArr ?ys)"
    by (rule splice_transforms [OF safe])
  have "set (take r as) \<subseteq> S" using sound(3) set_take_subset by fast
  then show ?thesis
    using transforms_append [OF 1 2] wf_elems [OF sound(1)] unfolding new by simp
qed

lemma no_mismatch:
  assumes sound: "soundOn S" "set bs \<subseteq> S" "set as \<subseteq> S" and "length bs = length as" and "mismatches bs as = 0"
  shows "map valueOf bs = map valueOf as"
proof (rule nth_equalityI)
  fix i assume i: "i < length (map valueOf bs)"
  then have "(bs ! i, as ! i) \<in> set (zip bs as)" using assms(4) by (auto simp: set_zip)
  then have "identical (bs ! i) (as ! i)" using assms(5) by (auto simp: mismatches_def filter_empty_conv)
  moreover have "bs ! i \<in> S" "as ! i \<in> S" using i assms(2-4) by auto
  ultimately have "valueOf (bs ! i) = valueOf (as ! i)" by (intro soundOn_identical [OF sound(1)])
  then show "map valueOf bs ! i = map valueOf as ! i" using i assms(4) by simp
qed (use assms(4) in simp)

lemma arrayMove_transforms:
  assumes sound: "soundOn S" "set bs \<subseteq> S" "set as \<subseteq> S" and safe: "assertSafePath p = Inr ()"
    and move: "arrayMove bs as p = Some new"
  shows "transforms p new (VArr (map valueOf bs)) (VArr (map valueOf as)) \<and> (\<forall>op \<in> set new. wfOp op)"
proof -
  show ?thesis
  proof (cases "length bs = length as")
    case False
    then have "new = [spliceBetween bs as p]" using move by (simp add: arrayMove_def)
    then show ?thesis using spliceBetween_transforms [OF sound safe] by simp
  next
    case len: True
    show ?thesis
    proof (cases "mismatches bs as = 0")
      case True
      then have "new = []" using move len by (simp add: arrayMove_def)
      then show ?thesis using no_mismatch [OF sound len True] transforms_Nil by simp
    next
      case False
      then have "1 < mismatches bs as" using move len by (simp add: arrayMove_def split: if_splits)
      then have m: "(case permutation bs as of Some order \<Rightarrow> Some [At p (Reorder (map int order))] | None \<Rightarrow> sameLengthShift bs as p) = Some new"
        using move len by (simp add: arrayMove_def)
      show ?thesis
      proof (cases "permutation bs as")
        case None
        then show ?thesis using sameLengthShift_transforms [OF sound len safe] m by simp
      next
        case (Some order)
        then have "new = [At p (Reorder (map int order))]" using m by simp
        then show ?thesis using permutation_transforms [OF sound safe Some] by simp
      qed
    qed
  qed
qed

section \<open>The difference\<close>

definition emits :: "delta_op list \<Rightarrow> delta_op list \<Rightarrow> path \<Rightarrow> jvalue \<Rightarrow> jvalue \<Rightarrow> bool" where
  "emits ops out p a b \<longleftrightarrow> (\<exists>new. out = ops @ new \<and> transforms p new a b \<and> (\<forall>op \<in> set new. wfOp op))"

lemma emits_refl: "emits ops ops p a a"
  by (auto simp: emits_def transforms_Nil)

lemma emits_trans: "emits ops o1 p a b \<Longrightarrow> emits o1 o2 p b c \<Longrightarrow> emits ops o2 p a c"
  unfolding emits_def using transforms_append by fastforce

lemma emits_child: "emits ops out (p @ [s]) a b \<Longrightarrow> vchild s n = Some a \<Longrightarrow> emits ops out p n (vset s b n)"
  unfolding emits_def using transforms_child by blast

lemma emits_set: "assertSafePath p = Inr () \<Longrightarrow> wfJson v \<Longrightarrow> emits ops (emitSet p v ops) p a (meaning v)"
  using transforms_set [of p v a] by (auto simp: emits_def emitSet_def)

lemma removeKeys_extends: "prefix ops (removeKeys ks after p ops)"
proof (induction ks arbitrary: ops)
  case (Cons k ks)
  let ?ops = "if k \<in> set after then ops else ops @ [At (p @ [Key k]) Delete]"
  have "prefix ops ?ops" by simp
  then have "prefix ops (removeKeys ks after p ?ops)" using Cons.IH by (rule prefix_order.trans)
  then show ?case by simp
qed simp

lemma emitSet_extends: "prefix ops (emitSet p v ops)"
  by (simp add: emitSet_def)

lemma emitString_extends: "prefix ops (emitString b a p ops)"
  by (simp add: emitString_def Let_def)

lemma diff_extends:
  "prefix ops (diffValue b a p ops)"
  "prefix ops (diffElements bs as i p ops)"
  "prefix ops (diffEntries bs' as' p ops)"
proof (induction b a p ops and bs as i p ops and bs' as' p ops rule: diffValue_diffElements_diffEntries.induct)
  case (1 before after path operations)
  show ?case
  proof (cases "identical before after \<or> MAX_DELTA_OPERATIONS < length operations")
    case True
    then show ?thesis by (subst diffValue.simps) simp
  next
    case False
    note ext = emitSet_extends emitString_extends
    show ?thesis
    proof (cases after)
      case (RStr a)
      then show ?thesis using False ext by (cases before) (simp_all add: diffValue.simps)
    next
      case (RArr x as)
      show ?thesis
      proof (cases before)
        case (RArr y bs)
        then show ?thesis using 1(1) [OF False \<open>after = RArr x as\<close> RArr] \<open>after = RArr x as\<close> False
          by (cases "arrayMove bs as path") (simp_all add: diffValue.simps)
      qed (use RArr False ext in \<open>simp_all add: diffValue.simps\<close>)
    next
      case (RObj x as)
      show ?thesis
      proof (cases before)
        case (RObj y bs)
        have "prefix operations (removeKeys (map fst bs) (map fst as) path (diffEntries bs as path operations))"
          if "\<not> list_ex (\<lambda>k. k \<in> set RESERVED_SEGMENTS) (map fst bs @ map fst as)"
          using 1(2) [OF False \<open>after = RObj x as\<close> RObj that] removeKeys_extends prefix_order.trans by blast
        then show ?thesis using RObj \<open>after = RObj x as\<close> False ext by (simp add: diffValue.simps)
      qed (use RObj False ext in \<open>simp_all add: diffValue.simps\<close>)
    qed (use False ext in \<open>simp_all add: diffValue.simps\<close>)
  qed
next
  case (4 b bs a as i path operations)
  show ?case
  proof (cases "MAX_DELTA_OPERATIONS < length operations")
    case False
    have "prefix operations (diffElements bs as (Suc i) path (diffValue b a (path @ [Index (int i)]) operations))"
      using 4(1,2) [OF False] by (rule prefix_order.trans)
    then show ?thesis using False by simp
  qed simp
next
  case (6 bs k a as path operations)
  show ?case
  proof (cases "MAX_DELTA_OPERATIONS < length operations")
    case False
    let ?mid = "case map_of bs k of Some b \<Rightarrow> diffValue b a (path @ [Key k]) operations | None \<Rightarrow> emitSet (path @ [Key k]) (plain a) operations"
    have "prefix operations ?mid" using 6(1) [OF False] emitSet_extends by (cases "map_of bs k") simp_all
    then have "prefix operations (diffEntries bs as path ?mid)" using 6(2) [OF False] by (rule prefix_order.trans)
    then show ?thesis using False by simp
  qed simp
qed simp_all

lemma prefix_bound: "prefix xs ys \<Longrightarrow> length ys \<le> n \<Longrightarrow> length xs \<le> n"
  using prefix_length_le by fastforce

lemma safe_key: "assertSafePath p = Inr () \<Longrightarrow> k \<notin> set RESERVED_SEGMENTS \<Longrightarrow> assertSafePath (p @ [Key k]) = Inr ()"
  by (simp add: assertSafePath_append)

lemma emits_property:
  assumes "assertSafePath p = Inr ()" and "k \<notin> set RESERVED_SEGMENTS" and "\<not> isArrayEdit e"
    and "\<forall>n. e \<noteq> Trim n" and "vEditValue e (m k) = Some x" and "wfEdit e"
  shows "emits ops (ops @ [At (p @ [Key k]) e]) p (VObj m) (VObj (m(k := x)))"
proof -
  have "assertValidOp (At (p @ [Key k]) e) = Inr ()"
    using safe_key [OF assms(1,2)] assms(3,4) by (cases e) (simp_all add: assertPathArg_def isArrayEdit_def)
  then have "transforms p [At (p @ [Key k]) e] (VObj m) (VObj (m(k := x)))"
    using assms(3,5) by (intro transforms_parent) simp_all
  then show ?thesis using assms(6) by (auto simp: emits_def)
qed

lemma removeKeys_emits:
  assumes "assertSafePath p = Inr ()" and "\<forall>k \<in> set ks. k \<notin> set RESERVED_SEGMENTS"
    and "length (removeKeys ks after p ops) \<le> MAX_DELTA_OPERATIONS"
  shows "emits ops (removeKeys ks after p ops) p (VObj m) (VObj (\<lambda>k. if k \<in> set ks \<and> k \<notin> set after then None else m k))"
  using assms(2,3)
proof (induction ks arbitrary: m ops)
  case (Cons k ks)
  have len: "length ops \<le> MAX_DELTA_OPERATIONS" by (rule prefix_bound [OF removeKeys_extends Cons.prems(2)])
  let ?ops = "if k \<in> set after then ops else ops @ [At (p @ [Key k]) Delete]"
  let ?m = "if k \<in> set after then m else m(k := None)"
  have "emits ops (ops @ [At (p @ [Key k]) Delete]) p (VObj m) (VObj (m(k := None)))"
    using Cons.prems(1) by (intro emits_property assms(1)) (simp_all add: isArrayEdit_def vEditValue_def)
  then have 1: "emits ops ?ops p (VObj m) (VObj ?m)" using emits_refl by simp
  have "emits ?ops (removeKeys ks after p ?ops) p (VObj ?m) (VObj (\<lambda>k. if k \<in> set ks \<and> k \<notin> set after then None else ?m k))"
    using Cons.prems len by (intro Cons.IH) simp_all
  from emits_trans [OF 1 this]
  have "emits ops (removeKeys (k # ks) after p ops) p (VObj m) (VObj (\<lambda>k'. if k' \<in> set ks \<and> k' \<notin> set after then None else ?m k'))"
    using len by simp
  moreover have "(\<lambda>k'. if k' \<in> set ks \<and> k' \<notin> set after then None else ?m k') =
      (\<lambda>k'. if k' \<in> set (k # ks) \<and> k' \<notin> set after then None else m k')" by auto
  ultimately show ?case by simp
qed (simp add: emits_refl)

lemma emitString_emits:
  assumes "assertSafePath p = Inr ()" and "p \<noteq> []"
  shows "emits ops (emitString b a p ops) p (VStr b) (VStr a)"
  using emitString_transforms [OF assms] by (simp add: emits_def)

lemma plain_wf: "soundOn S \<Longrightarrow> r \<in> S \<Longrightarrow> wfJson (plain r)"
  by (simp add: soundOn_def)

definition withEntries :: "(string \<times> revision) list \<Rightarrow> (string \<Rightarrow> jvalue option) \<Rightarrow> string \<Rightarrow> jvalue option" where
  "withEntries as m = (\<lambda>k. case map_of as k of Some a \<Rightarrow> Some (valueOf a) | None \<Rightarrow> m k)"

lemma withEntries_Cons: "k \<notin> fst ` set as \<Longrightarrow> withEntries as (m(k \<mapsto> valueOf a)) = withEntries ((k, a) # as) m"
  using map_of_eq_None_iff [of as k] by (auto simp: withEntries_def fun_eq_iff split: option.split)

lemma withEntries_removed:
  "(\<lambda>k. if k \<in> set (map fst bs) \<and> k \<notin> set (map fst as) then None
      else withEntries as (\<lambda>k. map_option valueOf (map_of bs k)) k) = (\<lambda>k. map_option valueOf (map_of as k))"
proof
  fix k
  show "(if k \<in> set (map fst bs) \<and> k \<notin> set (map fst as) then None
      else withEntries as (\<lambda>k. map_option valueOf (map_of bs k)) k) = map_option valueOf (map_of as k)"
    using map_of_eq_None_iff [of as k] map_of_eq_None_iff [of bs k]
    by (cases "map_of as k"; cases "map_of bs k") (simp_all add: withEntries_def)
qed

lemma diff_emits:
  assumes sound: "soundOn S"
  shows "before \<in> S \<Longrightarrow> after \<in> S \<Longrightarrow> assertSafePath p = Inr () \<Longrightarrow>
      length (diffValue before after p ops) \<le> MAX_DELTA_OPERATIONS \<Longrightarrow>
      emits ops (diffValue before after p ops) p (valueOf before) (valueOf after)"
    and "length bs = length as \<Longrightarrow> set bs \<subseteq> S \<Longrightarrow> set as \<subseteq> S \<Longrightarrow> assertSafePath p = Inr () \<Longrightarrow>
      length (diffElements bs as i p ops) \<le> MAX_DELTA_OPERATIONS \<Longrightarrow>
      \<forall>done. length done = i \<longrightarrow>
        emits ops (diffElements bs as i p ops) p (VArr (done @ map valueOf bs)) (VArr (done @ map valueOf as))"
    and "snd ` set bs' \<subseteq> S \<Longrightarrow> snd ` set as' \<subseteq> S \<Longrightarrow> distinct (map fst as') \<Longrightarrow>
      \<forall>k \<in> fst ` set as'. k \<notin> set RESERVED_SEGMENTS \<Longrightarrow> assertSafePath p = Inr () \<Longrightarrow>
      length (diffEntries bs' as' p ops) \<le> MAX_DELTA_OPERATIONS \<Longrightarrow>
      \<forall>m. (\<forall>k \<in> fst ` set as'. m k = map_option valueOf (map_of bs' k)) \<longrightarrow>
        emits ops (diffEntries bs' as' p ops) p (VObj m) (VObj (withEntries as' m))"
proof (induction before after p ops and bs as i p ops and bs' as' p ops rule: diffValue_diffElements_diffEntries.induct)
  case (1 before after path operations)
  have len: "length operations \<le> MAX_DELTA_OPERATIONS" by (rule prefix_bound [OF diff_extends(1) 1(6)])
  have set: "emits operations (emitSet path (plain after) operations) path (valueOf before) (valueOf after)"
    by (rule emits_set [OF 1(5) plain_wf [OF sound 1(4)]])
  show ?case
  proof (cases "identical before after")
    case True
    then have "valueOf before = valueOf after" by (rule soundOn_identical [OF sound 1(3,4)])
    then show ?thesis using True by (subst diffValue.simps) (simp add: emits_refl)
  next
    case False
    then have not: "\<not> (identical before after \<or> MAX_DELTA_OPERATIONS < length operations)" using len by simp
    show ?thesis
    proof (cases after)
      case (RStr a)
      show ?thesis
      proof (cases before)
        case before: (RStr b)
        have "path \<noteq> [] \<Longrightarrow> emits operations (emitString b a path operations) path (valueOf before) (valueOf after)"
          using emitString_emits [OF 1(5)] RStr before by simp
        then show ?thesis using set not RStr before by (cases "path = []") (simp_all add: diffValue.simps)
      qed (use set not RStr in \<open>simp_all add: diffValue.simps\<close>)
    next
      case after: (RArr x as)
      show ?thesis
      proof (cases before)
        case before: (RArr y bs)
        have sub: "set bs \<subseteq> S" "set as \<subseteq> S" using soundOn_elem [OF sound] 1(3,4) before after by blast+
        show ?thesis
        proof (cases "arrayMove bs as path")
          case None
          have leneq: "length bs = length as" using None by (auto simp: arrayMove_def split: if_splits)
          have out: "diffValue before after path operations = diffElements bs as 0 path operations"
            using not before after None by (simp add: diffValue.simps)
          have "emits operations (diffElements bs as 0 path operations) path (VArr ([] @ map valueOf bs)) (VArr ([] @ map valueOf as))"
            using 1(1) [OF not after before None leneq sub 1(5)] 1(6) out by simp
          then show ?thesis unfolding out unfolding before after valueOf_arr by simp
        next
          case (Some new)
          have "diffValue before after path operations = operations @ new"
            using not before after Some by (simp add: diffValue.simps)
          then show ?thesis
            using arrayMove_transforms [OF sound sub 1(5) Some] unfolding before after valueOf_arr by (simp add: emits_def)
        qed
      qed (use set not after in \<open>simp_all add: diffValue.simps\<close>)
    next
      case after: (RObj x as)
      show ?thesis
      proof (cases before)
        case before: (RObj y bs)
        have sub: "snd ` set bs \<subseteq> S" "snd ` set as \<subseteq> S" using soundOn_entry [OF sound] 1(3,4) before after by force+
        show ?thesis
        proof (cases "list_ex (\<lambda>k. k \<in> set RESERVED_SEGMENTS) (map fst bs @ map fst as)")
          case True
          have "equalJson before after \<Longrightarrow> valueOf before = valueOf after" using equalJson_sound(1) [OF sound] 1(3,4) by blast
          then have "emits operations (if equalJson before after then operations else emitSet path (plain after) operations) path
              (valueOf before) (valueOf after)" using set emits_refl by simp
          moreover have "diffValue before after path operations =
              (if equalJson before after then operations else emitSet path (plain after) operations)"
            using not before after True by (simp add: diffValue.simps)
          ultimately show ?thesis by simp
        next
          case res: False
          let ?mid = "diffEntries bs as path operations" and ?m = "\<lambda>k. map_option valueOf (map_of bs k)"
          have out: "diffValue before after path operations = removeKeys (map fst bs) (map fst as) path ?mid"
            using not before after res by (simp add: diffValue.simps)
          have len2: "length (removeKeys (map fst bs) (map fst as) path ?mid) \<le> MAX_DELTA_OPERATIONS" using 1(6) out by simp
          have lenm: "length ?mid \<le> MAX_DELTA_OPERATIONS" by (rule prefix_bound [OF removeKeys_extends len2])
          have d: "distinct (map fst as)" using soundOn_keys [OF sound] 1(4) after by blast
          have ok: "\<forall>k \<in> set (map fst bs). k \<notin> set RESERVED_SEGMENTS" "\<forall>k \<in> fst ` set as. k \<notin> set RESERVED_SEGMENTS"
            using res by (auto simp: list_ex_iff)
          have 2: "emits operations ?mid path (VObj ?m) (VObj (withEntries as ?m))"
            using 1(2) [OF not after before res sub d ok(2) 1(5) lenm] by simp
          have 3: "emits ?mid (removeKeys (map fst bs) (map fst as) path ?mid) path (VObj (withEntries as ?m))
              (VObj (\<lambda>k. if k \<in> set (map fst bs) \<and> k \<notin> set (map fst as) then None else withEntries as ?m k))"
            by (rule removeKeys_emits [OF 1(5) ok(1) len2])
          have "(\<lambda>k. if k \<in> set (map fst bs) \<and> k \<notin> set (map fst as) then None else withEntries as ?m k) =
              (\<lambda>k. map_option valueOf (map_of as k))"
            by (rule withEntries_removed)
          then show ?thesis using emits_trans [OF 2 3] unfolding out unfolding before after valueOf_obj by simp
        qed
      qed (use set not after in \<open>simp_all add: diffValue.simps\<close>)
    qed (use set not in \<open>simp_all add: diffValue.simps\<close>)
  qed
next
  case (2 bs i path operations)
  then show ?case by (simp add: emits_refl)
next
  case (3 a as i path operations)
  then show ?case by simp
next
  case (4 b bs a as i path operations)
  have len: "length operations \<le> MAX_DELTA_OPERATIONS" by (rule prefix_bound [OF diff_extends(2) 4(7)])
  then have not: "\<not> MAX_DELTA_OPERATIONS < length operations" by simp
  let ?mid = "diffValue b a (path @ [Index (int i)]) operations"
  have out: "diffElements (b # bs) (a # as) i path operations = diffElements bs as (Suc i) path ?mid" using not by simp
  have len2: "length (diffElements bs as (Suc i) path ?mid) \<le> MAX_DELTA_OPERATIONS" using 4(7) out by simp
  have lenm: "length ?mid \<le> MAX_DELTA_OPERATIONS" by (rule prefix_bound [OF diff_extends(2) len2])
  have safe: "assertSafePath (path @ [Index (int i)]) = Inr ()" using 4(6) by (simp add: assertSafePath_append)
  have one: "emits operations ?mid (path @ [Index (int i)]) (valueOf b) (valueOf a)"
    using 4(1) [OF not _ _ safe lenm] 4(4,5) by simp
  have rest: "\<forall>done. length done = Suc i \<longrightarrow>
      emits ?mid (diffElements bs as (Suc i) path ?mid) path (VArr (done @ map valueOf bs)) (VArr (done @ map valueOf as))"
    using 4(2) [OF not _ _ _ 4(6) len2] 4(3-5) by simp
  show ?case
  proof (intro allI impI)
    fix "done" :: "jvalue list"
    assume i: "length done = i"
    have "vchild (Index (int i)) (VArr (done @ map valueOf (b # bs))) = Some (valueOf b)"
      using i by (simp add: inRange_def nth_append)
    from emits_child [OF one this]
    have 1: "emits operations ?mid path (VArr (done @ map valueOf (b # bs))) (VArr ((done @ [valueOf a]) @ map valueOf bs))"
      using i by (simp add: list_update_append)
    have "emits ?mid (diffElements bs as (Suc i) path ?mid) path (VArr ((done @ [valueOf a]) @ map valueOf bs))
        (VArr ((done @ [valueOf a]) @ map valueOf as))"
      using rest [rule_format, of "done @ [valueOf a]"] i by simp
    from emits_trans [OF 1 this] show "emits operations (diffElements (b # bs) (a # as) i path operations) path
        (VArr (done @ map valueOf (b # bs))) (VArr (done @ map valueOf (a # as)))" unfolding out by simp
  qed
next
  case (5 bs path operations)
  then show ?case by (simp add: emits_refl withEntries_def)
next
  case (6 bs k a as path operations)
  have len: "length operations \<le> MAX_DELTA_OPERATIONS" by (rule prefix_bound [OF diff_extends(3) 6(8)])
  then have not: "\<not> MAX_DELTA_OPERATIONS < length operations" by simp
  let ?mid = "case map_of bs k of Some b \<Rightarrow> diffValue b a (path @ [Key k]) operations | None \<Rightarrow> emitSet (path @ [Key k]) (plain a) operations"
  have out: "diffEntries bs ((k, a) # as) path operations = diffEntries bs as path ?mid" using not by simp
  have len2: "length (diffEntries bs as path ?mid) \<le> MAX_DELTA_OPERATIONS" using 6(8) out by simp
  have lenm: "length ?mid \<le> MAX_DELTA_OPERATIONS" by (rule prefix_bound [OF diff_extends(3) len2])
  have safe: "assertSafePath (path @ [Key k]) = Inr ()" and k: "k \<notin> set RESERVED_SEGMENTS" using 6(6,7) safe_key by auto
  have a: "a \<in> S" using 6(4) by auto
  have rest: "\<forall>m. (\<forall>k \<in> fst ` set as. m k = map_option valueOf (map_of bs k)) \<longrightarrow>
      emits ?mid (diffEntries bs as path ?mid) path (VObj m) (VObj (withEntries as m))"
    using 6(2) [OF not 6(3) _ _ _ 6(7) len2] 6(4-6) by simp
  have fresh: "k \<notin> fst ` set as" using 6(5) by auto
  show ?case
  proof (intro allI impI)
    fix m :: "string \<Rightarrow> jvalue option"
    assume m: "\<forall>k \<in> fst ` set ((k, a) # as). m k = map_option valueOf (map_of bs k)"
    have 1: "emits operations ?mid path (VObj m) (VObj (m(k \<mapsto> valueOf a)))"
    proof (cases "map_of bs k")
      case None
      have "emits operations (operations @ [At (path @ [Key k]) (SetTo (plain a))]) path (VObj m) (VObj (m(k := Some (valueOf a))))"
        using plain_wf [OF sound a] by (intro emits_property 6(7) k) (simp_all add: isArrayEdit_def vEditValue_def)
      then show ?thesis using None by (simp add: emitSet_def)
    next
      case (Some b)
      then have "b \<in> S" using 6(3) by (force dest: map_of_SomeD)
      then have "emits operations ?mid (path @ [Key k]) (valueOf b) (valueOf a)"
        using 6(1) [OF not Some _ a safe] lenm Some by simp
      moreover have "vchild (Key k) (VObj m) = Some (valueOf b)" using m Some by simp
      ultimately show ?thesis using emits_child by fastforce
    qed
    have "\<forall>k' \<in> fst ` set as. (m(k \<mapsto> valueOf a)) k' = map_option valueOf (map_of bs k')" using m fresh by auto
    then have "emits ?mid (diffEntries bs as path ?mid) path (VObj (m(k \<mapsto> valueOf a))) (VObj (withEntries as (m(k \<mapsto> valueOf a))))"
      using rest by blast
    from emits_trans [OF 1 this] show "emits operations (diffEntries bs ((k, a) # as) path operations) path (VObj m)
        (VObj (withEntries ((k, a) # as) m))" unfolding out withEntries_Cons [OF fresh] .
  qed
qed

lemma subs_closed: "x \<in> set (subs r) \<Longrightarrow> set (subs x) \<subseteq> set (subs r)"
proof (induction r)
  case (RArr a xs)
  then show ?case by fastforce
next
  case (RObj a kvs)
  then show ?case by (fastforce simp: snds.simps)
qed auto

lemma subs_wf: "x \<in> set (subs r) \<Longrightarrow> wfJson (plain r) \<Longrightarrow> wfJson (plain x)"
proof (induction r)
  case (RArr a xs)
  then show ?case by fastforce
next
  case (RObj a kvs)
  then show ?case by (fastforce simp: snds.simps)
qed auto

lemma subs_sound:
  assumes "coherent (subs b @ subs a)" and "wfJson (plain b)" and "wfJson (plain a)"
  shows "soundOn (set (subs b) \<union> set (subs a))"
  using assms subs_closed subs_wf unfolding soundOn_def coherent_def by fastforce

lemma diff_applies:
  assumes "coherent (subs before @ subs after)" and "wfJson (plain before)" and "wfJson (plain after)"
    and doc: "wfJson doc" "meaning doc = meaning (plain before)"
  shows "\<exists>v. applyImmutable (diffRevisions before after) doc = Inr v \<and> wfJson v \<and> meaning v = meaning (plain after)"
proof -
  let ?ops = "diffValue before after [] []"
  have sound: "soundOn (set (subs before) \<union> set (subs after))"
    using subs_sound assms(1-3) by blast
  have replace: "vApplyOps [Replace (plain after)] (meaning doc) = Some (meaning (plain after)) \<and> (\<forall>op \<in> set [Replace (plain after)]. wfOp op)"
    using assms(3) by (simp add: vApplyOp_def)
  have "vApplyOps ?ops (meaning doc) = Some (meaning (plain after)) \<and> (\<forall>op \<in> set ?ops. wfOp op)" if "length ?ops \<le> MAX_DELTA_OPERATIONS"
    using diff_emits(1) [OF sound _ _ _ that] doc(2) by (simp add: emits_def transforms_def)
  then have "vApplyOps (diffRevisions before after) (meaning doc) = Some (meaning (plain after)) \<and>
      (\<forall>op \<in> set (diffRevisions before after). wfOp op)"
    using replace unfolding diffRevisions_def Let_def by (simp only: split: if_split) auto
  then have "result (applyOps (diffRevisions before after) doc) = Some (meaning (plain after))"
    "\<And>v. applyOps (diffRevisions before after) doc = Inr v \<Longrightarrow> wfJson v"
    using applyOps_result [OF doc(1)] by auto
  then show ?thesis by (cases "applyOps (diffRevisions before after) doc") (auto simp: applyImmutable_iff)
qed

text \<open>
  C16 (difference and application): for two revisions with distinct keys in which the same address is the same value, the
  operations of the difference, applied to any value that means the old revision, succeed and give a well-formed value
  that means the new one.
\<close>

theorem diff_apply_roundtrip:
  assumes "coherent (subs before @ subs after)" and "wfJson (plain before)" and "wfJson (plain after)"
    and doc: "wfJson doc" "meaning doc = meaning (plain before)"
  shows "\<exists>v. applyImmutable (diffRevisions before after) doc = Inr v \<and> wfJson v \<and> meaning v = meaning (plain after)"
  by (rule diff_applies [OF assms])

text \<open>The two items of an array change places, a text grows, a key goes and another one comes.\<close>

definition revisionBefore :: revision where
  "revisionBefore = RObj 1 [(''a'', RArr 2 [RObj 3 [(''n'', RNum 1)], RObj 4 []]), (''t'', RStr ''hel''), (''old'', RNull)]"

definition revisionAfter :: revision where
  "revisionAfter = RObj 5 [(''a'', RArr 6 [RObj 4 [], RObj 3 [(''n'', RNum 1)]]), (''t'', RStr ''hello''), (''k'', RBool True)]"

lemma revisionDelta: "diffRevisions revisionBefore revisionAfter =
  [At [Key ''a''] (Reorder [1, 0]), At [Key ''t''] (AppendText ''lo''), At [Key ''k''] (SetTo (JBool True)), At [Key ''old''] Delete]"
proof -
  have "arrayMove [RObj 3 [(''n'', RNum 1)], RObj 4 []] [RObj 4 [], RObj 3 [(''n'', RNum 1)]] [Key ''a''] =
      Some [At [Key ''a''] (Reorder [1, 0])]" by code_simp
  then have "diffValue revisionBefore revisionAfter [] [] =
      [At [Key ''a''] (Reorder [1, 0]), At [Key ''t''] (AppendText ''lo''), At [Key ''k''] (SetTo (JBool True)), At [Key ''old''] Delete]"
    by (simp add: revisionBefore_def revisionAfter_def diffValue.simps emitString_def emitSet_def MAX_DELTA_OPERATIONS_def
        RESERVED_SEGMENTS_def)
  then show ?thesis
    by (simp add: diffRevisions_def MAX_DELTA_OPERATIONS_def isReplace_def pathCost_def showInt_def showNat.simps)
qed

theorem diff_apply_roundtrip_witness:
  "diffRevisions revisionBefore revisionAfter \<noteq> [] \<and> plain revisionBefore \<noteq> plain revisionAfter \<and>
   (\<exists>v. applyImmutable (diffRevisions revisionBefore revisionAfter) (plain revisionBefore) = Inr v \<and> wfJson v \<and>
     meaning v = meaning (plain revisionAfter))"
proof -
  have "coherent (subs revisionBefore @ subs revisionAfter)"
    by (simp add: coherent_def revisionBefore_def revisionAfter_def snds.simps)
  moreover have "wfJson (plain revisionBefore)" "wfJson (plain revisionAfter)"
    by (simp_all add: revisionBefore_def revisionAfter_def)
  ultimately show ?thesis
    using diff_apply_roundtrip [of revisionBefore revisionAfter "plain revisionBefore"]
    by (simp add: revisionDelta) (simp add: revisionBefore_def revisionAfter_def)
qed

end
