(* ===== verification/Revision_Store.thy ===== *)
theory Revision_Store
  imports Diff_Properties
begin

text \<open>
  The store of frozen revisions, \<open>packages/chord/src/state/value.ts\<close>: \<open>import\<close> copies a value, \<open>commit\<close> finishes the
  containers a transaction owns in place, keeps what the store owns already and copies everything else, a container that
  is placed a second time included. A container is its address here; a copy takes the next free one. Values are
  well-typed JSON trees, so the checks for cycles, holes, symbols, accessors and foreign prototypes hold by typing.
\<close>

section \<open>Copies\<close>

fun importValue :: "nat \<Rightarrow> json \<Rightarrow> nat \<times> revision"
  and importElements :: "nat \<Rightarrow> json list \<Rightarrow> nat \<times> revision list"
  and importEntries :: "nat \<Rightarrow> (string \<times> json) list \<Rightarrow> nat \<times> (string \<times> revision) list" where
  "importValue n JNull = (n, RNull)"
| "importValue n (JBool b) = (n, RBool b)"
| "importValue n (JNum i) = (n, RNum i)"
| "importValue n (JStr s) = (n, RStr s)"
| "importValue n (JArr xs) = (let p = importElements (Suc n) xs in (fst p, RArr n (snd p)))"
| "importValue n (JObj kvs) = (let p = importEntries (Suc n) kvs in (fst p, RObj n (snd p)))"
| "importElements n [] = (n, [])"
| "importElements n (x # xs) = (let p = importValue n x; q = importElements (fst p) xs in (fst q, snd p # snd q))"
| "importEntries n [] = (n, [])"
| "importEntries n ((k, v) # kvs) = (let p = importValue n v; q = importEntries (fst p) kvs in (fst q, (k, snd p) # snd q))"

section \<open>Transactions\<close>

text \<open>\<open>owned\<close> is what the store owns, \<open>txn\<close> what the transaction owns, \<open>placed\<close> the containers that have been met.\<close>

fun finishValue :: "nat list \<Rightarrow> nat list \<Rightarrow> revision \<Rightarrow> nat \<times> nat list \<Rightarrow> (nat \<times> nat list) \<times> revision"
  and finishElements :: "nat list \<Rightarrow> nat list \<Rightarrow> revision list \<Rightarrow> nat \<times> nat list \<Rightarrow> (nat \<times> nat list) \<times> revision list"
  and finishEntries :: "nat list \<Rightarrow> nat list \<Rightarrow> (string \<times> revision) list \<Rightarrow> nat \<times> nat list \<Rightarrow>
    (nat \<times> nat list) \<times> (string \<times> revision) list" where
  "finishValue owned txn (RArr a xs) (n, placed) =
     (if a \<in> set placed then let p = importValue n (plain (RArr a xs)) in ((fst p, placed), snd p)
      else if a \<in> set owned then ((n, a # placed), RArr a xs)
      else if a \<notin> set txn then let p = importValue n (plain (RArr a xs)) in ((fst p, a # placed), snd p)
      else let p = finishElements owned txn xs (n, a # placed) in (fst p, RArr a (snd p)))"
| "finishValue owned txn (RObj a kvs) (n, placed) =
     (if a \<in> set placed then let p = importValue n (plain (RObj a kvs)) in ((fst p, placed), snd p)
      else if a \<in> set owned then ((n, a # placed), RObj a kvs)
      else if a \<notin> set txn then let p = importValue n (plain (RObj a kvs)) in ((fst p, a # placed), snd p)
      else let p = finishEntries owned txn kvs (n, a # placed) in (fst p, RObj a (snd p)))"
| "finishValue owned txn r st = (st, r)"
| "finishElements owned txn [] st = (st, [])"
| "finishElements owned txn (x # xs) st =
     (let p = finishValue owned txn x st; q = finishElements owned txn xs (fst p) in (fst q, snd p # snd q))"
| "finishEntries owned txn [] st = (st, [])"
| "finishEntries owned txn ((k, v) # kvs) st =
     (let p = finishValue owned txn v st; q = finishEntries owned txn kvs (fst p) in (fst q, (k, snd p) # snd q))"

fun addrs :: "revision \<Rightarrow> nat list" where
  "addrs (RArr a xs) = a # concat (map addrs xs)"
| "addrs (RObj a kvs) = a # concat (map (\<lambda>(k, v). addrs v) kvs)"
| "addrs r = []"

record store =
  st_next :: nat
  st_owned :: "nat list"

definition importRevision :: "json \<Rightarrow> store \<Rightarrow> store \<times> revision" where
  "importRevision v st =
     (let p = importValue (st_next st) v
      in (\<lparr>st_next = fst p, st_owned = addrs (snd p) @ st_owned st\<rparr>, snd p))"

definition commitRevision :: "nat list \<Rightarrow> revision \<Rightarrow> store \<Rightarrow> store \<times> revision" where
  "commitRevision txn v st =
     (let p = finishValue (st_owned st) txn v (st_next st, [])
      in (\<lparr>st_next = fst (fst p), st_owned = addrs (snd p) @ st_owned st\<rparr>, snd p))"

section \<open>A copy has new addresses\<close>

abbreviation elemAddrs :: "revision list \<Rightarrow> nat list" where
  "elemAddrs rs \<equiv> concat (map addrs rs)"

abbreviation entryAddrs :: "(string \<times> revision) list \<Rightarrow> nat list" where
  "entryAddrs kvs \<equiv> concat (map (\<lambda>(k, v). addrs v) kvs)"

lemma plain_import:
  "plain (snd (importValue n v)) = v"
  "map plain (snd (importElements n xs)) = xs"
  "map (\<lambda>(k, v). (k, plain v)) (snd (importEntries n kvs)) = kvs"
proof (induction n v and n xs and n kvs rule: importValue_importElements_importEntries.induct)
  case (6 n kvs)
  then show ?case by (simp only: importValue.simps plain.simps Let_def snd_conv)
qed (simp_all add: Let_def)

text \<open>Two parts in a row: the second one starts where the first one ends.\<close>

lemma range_append:
  assumes "(n :: nat) \<le> m \<and> distinct as \<and> set as \<subseteq> {n..<m}" and "m \<le> k \<and> distinct bs \<and> set bs \<subseteq> {m..<k}"
  shows "n \<le> k \<and> distinct (as @ bs) \<and> set (as @ bs) \<subseteq> {n..<k}"
  using assms by (fastforce simp: subset_eq)

lemma range_Cons:
  assumes "Suc n \<le> m \<and> distinct as \<and> set as \<subseteq> {Suc n..<m}"
  shows "n \<le> m \<and> distinct (n # as) \<and> set (n # as) \<subseteq> {n..<m}"
  using assms by (fastforce simp: subset_eq)

lemma import_addrs:
  "n \<le> fst (importValue n v) \<and> distinct (addrs (snd (importValue n v))) \<and>
    set (addrs (snd (importValue n v))) \<subseteq> {n..<fst (importValue n v)}"
  "n \<le> fst (importElements n xs) \<and> distinct (elemAddrs (snd (importElements n xs))) \<and>
    set (elemAddrs (snd (importElements n xs))) \<subseteq> {n..<fst (importElements n xs)}"
  "n \<le> fst (importEntries n kvs) \<and> distinct (entryAddrs (snd (importEntries n kvs))) \<and>
    set (entryAddrs (snd (importEntries n kvs))) \<subseteq> {n..<fst (importEntries n kvs)}"
proof (induction n v and n xs and n kvs rule: importValue_importElements_importEntries.induct)
  case (5 n xs)
  from range_Cons [OF this] show ?case by (simp only: importValue.simps addrs.simps Let_def fst_conv snd_conv)
next
  case (6 n kvs)
  from range_Cons [OF this] show ?case by (simp only: importValue.simps addrs.simps Let_def fst_conv snd_conv)
next
  case (8 n x xs)
  from range_append [OF 8(1) 8(2) [OF refl]] show ?case
    by (simp only: importElements.simps Let_def fst_conv snd_conv list.map concat.simps)
next
  case (10 n k v kvs)
  from range_append [OF 10(1) 10(2) [OF refl]] show ?case
    by (simp only: importEntries.simps Let_def fst_conv snd_conv list.map concat.simps prod.case)
qed simp_all

section \<open>A transaction keeps its value and places every container once\<close>

lemma plain_finish:
  "plain (snd (finishValue owned txn r st)) = plain r"
  "map plain (snd (finishElements owned txn xs st)) = map plain xs"
  "map (\<lambda>(k, v). (k, plain v)) (snd (finishEntries owned txn kvs st)) = map (\<lambda>(k, v). (k, plain v)) kvs"
proof (induction owned txn r st and owned txn xs st and owned txn kvs st rule: finishValue_finishElements_finishEntries.induct)
  case (1 owned txn a xs n placed)
  then show ?case by (simp add: Let_def plain_import)
next
  case (2 owned txn a kvs n placed)
  have "plain (RObj a (snd (finishEntries owned txn kvs (n, a # placed)))) = plain (RObj a kvs)"
    if "a \<notin> set placed" "a \<notin> set owned" "a \<in> set txn"
    using 2 that by (simp only: plain.simps simp_thms)
  then show ?case by (simp add: Let_def plain_import)
qed (simp_all add: Let_def)

text \<open>The addresses outside what the store owns.\<close>

fun newAddrs :: "nat list \<Rightarrow> revision \<Rightarrow> nat list" where
  "newAddrs owned (RArr a xs) = (if a \<in> set owned then [] else a # concat (map (newAddrs owned) xs))"
| "newAddrs owned (RObj a kvs) = (if a \<in> set owned then [] else a # concat (map (\<lambda>(k, v). newAddrs owned v) kvs))"
| "newAddrs owned r = []"

abbreviation newElems :: "nat list \<Rightarrow> revision list \<Rightarrow> nat list" where
  "newElems owned rs \<equiv> concat (map (newAddrs owned) rs)"

abbreviation newEntries :: "nat list \<Rightarrow> (string \<times> revision) list \<Rightarrow> nat list" where
  "newEntries owned kvs \<equiv> concat (map (\<lambda>(k, v). newAddrs owned v) kvs)"

lemma newAddrs_disjoint: "set (addrs r) \<inter> set owned = {} \<Longrightarrow> newAddrs owned r = addrs r"
proof (induction r)
  case (RArr a xs)
  have "map (newAddrs owned) xs = map addrs xs" using RArr by (intro map_cong refl) fastforce
  then have "newElems owned xs = elemAddrs xs" by (rule arg_cong)
  then show ?case using RArr.prems by simp
next
  case (RObj a kvs)
  have "map (\<lambda>(k, v). newAddrs owned v) kvs = map (\<lambda>(k, v). addrs v) kvs"
  proof (intro map_cong refl)
    fix kv
    assume kv: "kv \<in> set kvs"
    then have "set (addrs (snd kv)) \<subseteq> set (addrs (RObj a kvs))" by (auto simp: case_prod_beta)
    then have "set (addrs (snd kv)) \<inter> set owned = {}" using RObj.prems by blast
    then show "(case kv of (k, v) \<Rightarrow> newAddrs owned v) = (case kv of (k, v) \<Rightarrow> addrs v)"
      using RObj.IH [OF kv] by (cases kv) (simp add: snds.simps)
  qed
  then have "newEntries owned kvs = entryAddrs kvs" by (rule arg_cong)
  then show ?case using RObj.prems by simp
qed simp_all

text \<open>New addresses come from the containers met on the way or from the free ones, each at most once.\<close>

definition allot :: "nat \<Rightarrow> nat set \<Rightarrow> nat set \<Rightarrow> nat list \<Rightarrow> nat \<Rightarrow> nat set \<Rightarrow> bool" where
  "allot n P X fs n' P' \<longleftrightarrow>
     n \<le> n' \<and> P \<subseteq> P' \<and> P' \<subseteq> P \<union> X \<and> distinct fs \<and> set fs \<subseteq> (P' - P) \<union> {n..<n'}"

lemma allot_Nil: "allot n P X [] n P"
  by (simp add: allot_def)

lemma allot_append:
  assumes "allot n P X fs n1 P1" and "allot n1 P1 Y gs n2 P2" and "P \<union> X \<union> Y \<subseteq> {..<n}"
  shows "allot n P (X \<union> Y) (fs @ gs) n2 P2"
proof -
  have f: "x \<in> P1 \<and> x \<notin> P \<or> n \<le> x \<and> x < n1" if "x \<in> set fs" for x using assms(1) that unfolding allot_def by auto
  have g: "x \<in> P2 \<and> x \<notin> P1 \<or> n1 \<le> x \<and> x < n2" if "x \<in> set gs" for x using assms(2) that unfolding allot_def by auto
  have b: "P1 \<subseteq> P \<union> X" "P2 \<subseteq> P1 \<union> Y" "P \<subseteq> P1" "P1 \<subseteq> P2" "n \<le> n1" "n1 \<le> n2" "distinct fs" "distinct gs"
    using assms(1,2) unfolding allot_def by simp_all
  have "P2 \<subseteq> {..<n}" using b(1,2) assms(3) by blast
  then have low: "x < n" if "x \<in> P2" for x using that by auto
  have "x \<notin> set gs" if "x \<in> set fs" for x
    using f [OF that] g [of x] low [of x] b(3-6) by auto
  then have "distinct (fs @ gs)" using b by auto
  moreover have "set (fs @ gs) \<subseteq> (P2 - P) \<union> {n..<n2}"
  proof
    fix x
    assume "x \<in> set (fs @ gs)"
    then show "x \<in> (P2 - P) \<union> {n..<n2}" using f [of x] g [of x] b(3-6) by auto
  qed
  moreover have "P2 \<subseteq> P \<union> (X \<union> Y)" using b(1,2) by blast
  ultimately show ?thesis using b(3-6) unfolding allot_def by auto
qed

lemma allot_Cons:
  assumes "allot n (insert a P) X fs n' P'" and "a \<notin> P" and "a < n"
  shows "allot n P (insert a X) (a # fs) n' P'"
proof -
  have "x \<noteq> a" if "x \<in> set fs" for x using that assms(1,3) unfolding allot_def by auto
  then show ?thesis using assms unfolding allot_def by auto
qed

lemma allot_import:
  assumes "set owned \<subseteq> {..<n}" and "P \<subseteq> P'" and "P' \<subseteq> P \<union> X"
  shows "allot n P X (newAddrs owned (snd (importValue n v))) (fst (importValue n v)) P'"
proof -
  note addrs = import_addrs(1) [of n v]
  have "newAddrs owned (snd (importValue n v)) = addrs (snd (importValue n v))"
    using addrs assms(1) by (intro newAddrs_disjoint) fastforce
  then show ?thesis using addrs assms unfolding allot_def by auto
qed

lemma finish_allot:
  "set owned \<union> set (addrs r) \<union> set (snd st) \<subseteq> {..<fst st} \<Longrightarrow>
    allot (fst st) (set (snd st)) (set (addrs r)) (newAddrs owned (snd (finishValue owned txn r st)))
      (fst (fst (finishValue owned txn r st))) (set (snd (fst (finishValue owned txn r st))))"
  "set owned \<union> set (elemAddrs xs) \<union> set (snd st) \<subseteq> {..<fst st} \<Longrightarrow>
    allot (fst st) (set (snd st)) (set (elemAddrs xs)) (newElems owned (snd (finishElements owned txn xs st)))
      (fst (fst (finishElements owned txn xs st))) (set (snd (fst (finishElements owned txn xs st))))"
  "set owned \<union> set (entryAddrs kvs) \<union> set (snd st) \<subseteq> {..<fst st} \<Longrightarrow>
    allot (fst st) (set (snd st)) (set (entryAddrs kvs)) (newEntries owned (snd (finishEntries owned txn kvs st)))
      (fst (fst (finishEntries owned txn kvs st))) (set (snd (fst (finishEntries owned txn kvs st))))"
proof (induction owned txn r st and owned txn xs st and owned txn kvs st rule: finishValue_finishElements_finishEntries.induct)
  case (1 owned txn a xs n placed)
  have o: "set owned \<subseteq> {..<n}" and a: "a < n" and xs: "set (elemAddrs xs) \<subseteq> {..<n}" and p: "set placed \<subseteq> {..<n}" using 1(2) by simp_all
  consider "a \<in> set placed" | "a \<notin> set placed" "a \<in> set owned" | "a \<notin> set placed" "a \<notin> set owned" "a \<notin> set txn"
    | (own) "a \<notin> set placed" "a \<notin> set owned" "a \<in> set txn" by blast
  then show ?case
  proof cases
    case own
    let ?q = "finishElements owned txn xs (n, a # placed)"
    have "set owned \<union> set (elemAddrs xs) \<union> set (snd (n, a # placed)) \<subseteq> {..<fst (n, a # placed)}" using o a xs p by simp
    from 1(1) [OF own(1,2) _ this] own
    have "allot n (insert a (set placed)) (set (elemAddrs xs)) (newElems owned (snd ?q)) (fst (fst ?q)) (set (snd (fst ?q)))" by simp
    from allot_Cons [OF this own(1) a] show ?thesis using own by (simp add: Let_def)
  next
    case 1
    then show ?thesis using allot_import [OF o, of "set placed" "set placed" _ "plain (RArr a xs)"]
      by (simp only: finishValue.simps if_True Let_def fst_conv snd_conv) simp
  next
    case 2
    have "allot n (set placed) (set (addrs (RArr a xs))) [] n (insert a (set placed))" by (auto simp: allot_def)
    then show ?thesis using 2 by simp
  next
    case 3
    then show ?thesis using allot_import [OF o, of "set placed" "insert a (set placed)" _ "plain (RArr a xs)"]
      by (simp only: finishValue.simps if_True if_False not_False_eq_True Let_def fst_conv snd_conv list.set(2)) auto
  qed
next
  case (2 owned txn a kvs n placed)
  have o: "set owned \<subseteq> {..<n}" and a: "a < n" and xs: "set (entryAddrs kvs) \<subseteq> {..<n}" and p: "set placed \<subseteq> {..<n}" using 2(2) by simp_all
  consider "a \<in> set placed" | "a \<notin> set placed" "a \<in> set owned" | "a \<notin> set placed" "a \<notin> set owned" "a \<notin> set txn"
    | (own) "a \<notin> set placed" "a \<notin> set owned" "a \<in> set txn" by blast
  then show ?case
  proof cases
    case own
    let ?q = "finishEntries owned txn kvs (n, a # placed)"
    have "set owned \<union> set (entryAddrs kvs) \<union> set (snd (n, a # placed)) \<subseteq> {..<fst (n, a # placed)}" using o a xs p by simp
    from 2(1) [OF own(1,2) _ this] own
    have "allot n (insert a (set placed)) (set (entryAddrs kvs)) (newEntries owned (snd ?q)) (fst (fst ?q)) (set (snd (fst ?q)))" by simp
    from allot_Cons [OF this own(1) a] show ?thesis using own by (simp add: Let_def)
  next
    case 1
    then show ?thesis using allot_import [OF o, of "set placed" "set placed" _ "plain (RObj a kvs)"]
      by (simp only: finishValue.simps if_True Let_def fst_conv snd_conv) simp
  next
    case 2
    have "allot n (set placed) (set (addrs (RObj a kvs))) [] n (insert a (set placed))" by (auto simp: allot_def)
    then show ?thesis using 2 by simp
  next
    case 3
    then show ?thesis using allot_import [OF o, of "set placed" "insert a (set placed)" _ "plain (RObj a kvs)"]
      by (simp only: finishValue.simps if_True if_False not_False_eq_True Let_def fst_conv snd_conv list.set(2)) auto
  qed
next
  case (5 owned txn x xs st)
  let ?p = "finishValue owned txn x st" and ?q = "\<lambda>p. finishElements owned txn xs (fst p)"
  have h: "set owned \<union> set (addrs x) \<union> set (snd st) \<subseteq> {..<fst st}" using 5(3) by simp
  note first = 5(1) [OF h]
  have "set owned \<union> set (elemAddrs xs) \<union> set (snd (fst ?p)) \<subseteq> {..<fst (fst ?p)}"
    using first 5(3) unfolding allot_def by fastforce
  note second = 5(2) [OF refl this]
  have "set (snd st) \<union> set (addrs x) \<union> set (elemAddrs xs) \<subseteq> {..<fst st}" using 5(3) by simp
  from allot_append [OF first second this] show ?case by (simp add: Let_def)
next
  case (7 owned txn k v kvs st)
  let ?p = "finishValue owned txn v st"
  have h: "set owned \<union> set (addrs v) \<union> set (snd st) \<subseteq> {..<fst st}" using 7(3) by simp
  note first = 7(1) [OF h]
  have "set owned \<union> set (entryAddrs kvs) \<union> set (snd (fst ?p)) \<subseteq> {..<fst (fst ?p)}"
    using first 7(3) unfolding allot_def by fastforce
  note second = 7(2) [OF refl this]
  have "set (snd st) \<union> set (addrs v) \<union> set (entryAddrs kvs) \<subseteq> {..<fst st}" using 7(3) by simp
  from allot_append [OF first second this] show ?case by (simp add: Let_def)
qed (simp_all add: allot_Nil)

section \<open>The store keeps its revisions coherent\<close>

fun addrOf :: "revision \<Rightarrow> nat option" where
  "addrOf (RArr a _) = Some a"
| "addrOf (RObj a _) = Some a"
| "addrOf _ = None"

lemma addrOf_subs: "c \<in> set (subs r) \<Longrightarrow> addrOf c = Some a \<Longrightarrow> a \<in> set (addrs r)"
proof (induction r)
  case (RObj b kvs)
  then show ?case by (fastforce simp: snds.simps)
qed auto

text \<open>Containers with an address of the store are revisions of the store.\<close>

definition keeps :: "revision set \<Rightarrow> nat list \<Rightarrow> revision \<Rightarrow> bool" where
  "keeps H owned r \<longleftrightarrow> (\<forall>c \<in> set (subs r). \<forall>a. addrOf c = Some a \<and> a \<in> set owned \<longrightarrow> c \<in> H)"

lemma keeps_arr: "keeps H owned (RArr a xs) \<longleftrightarrow> (a \<in> set owned \<longrightarrow> RArr a xs \<in> H) \<and> (\<forall>x \<in> set xs. keeps H owned x)"
  by (fastforce simp: keeps_def)

lemma keeps_obj:
  "keeps H owned (RObj a kvs) \<longleftrightarrow> (a \<in> set owned \<longrightarrow> RObj a kvs \<in> H) \<and> (\<forall>kv \<in> set kvs. keeps H owned (snd kv))"
  by (fastforce simp: keeps_def)

lemma keeps_new: "set (addrs r) \<inter> set owned = {} \<Longrightarrow> keeps H owned r"
  using addrOf_subs by (fastforce simp: keeps_def)

lemma keeps_import: "set owned \<subseteq> {..<n} \<Longrightarrow> keeps H owned (snd (importValue n v))"
  using import_addrs(1) [of n v] by (intro keeps_new) fastforce

lemma finish_keeps:
  "set owned \<subseteq> {..<fst st} \<Longrightarrow> keeps H owned r \<Longrightarrow>
    fst st \<le> fst (fst (finishValue owned txn r st)) \<and> keeps H owned (snd (finishValue owned txn r st))"
  "set owned \<subseteq> {..<fst st} \<Longrightarrow> \<forall>x \<in> set xs. keeps H owned x \<Longrightarrow>
    fst st \<le> fst (fst (finishElements owned txn xs st)) \<and> (\<forall>x \<in> set (snd (finishElements owned txn xs st)). keeps H owned x)"
  "set owned \<subseteq> {..<fst st} \<Longrightarrow> \<forall>kv \<in> set kvs. keeps H owned (snd kv) \<Longrightarrow>
    fst st \<le> fst (fst (finishEntries owned txn kvs st)) \<and>
    (\<forall>kv \<in> set (snd (finishEntries owned txn kvs st)). keeps H owned (snd kv))"
proof (induction owned txn r st and owned txn xs st and owned txn kvs st rule: finishValue_finishElements_finishEntries.induct)
  case (1 owned txn a xs n placed)
  have le: "n \<le> fst (importValue n (plain (RArr a xs)))" using import_addrs(1) by blast
  have k: "keeps H owned (snd (importValue n (plain (RArr a xs))))" using 1(2) by (intro keeps_import) simp
  have ih: "n \<le> fst (fst (finishElements owned txn xs (n, a # placed))) \<and>
      (\<forall>x \<in> set (snd (finishElements owned txn xs (n, a # placed))). keeps H owned x)"
    if "a \<notin> set placed" "a \<notin> set owned" "a \<in> set txn" using 1(1) [OF that(1,2)] that 1(2,3) by (simp add: keeps_arr)
  show ?case using le k ih 1(3) by (simp only: finishValue.simps Let_def split: if_split) (simp add: keeps_arr)
next
  case (2 owned txn a kvs n placed)
  have le: "n \<le> fst (importValue n (plain (RObj a kvs)))" using import_addrs(1) by blast
  have k: "keeps H owned (snd (importValue n (plain (RObj a kvs))))" using 2(2) by (intro keeps_import) simp
  have ih: "n \<le> fst (fst (finishEntries owned txn kvs (n, a # placed))) \<and>
      (\<forall>kv \<in> set (snd (finishEntries owned txn kvs (n, a # placed))). keeps H owned (snd kv))"
    if "a \<notin> set placed" "a \<notin> set owned" "a \<in> set txn" using 2(1) [OF that(1,2)] that 2(2,3) by (simp add: keeps_obj)
  show ?case using le k ih 2(3) by (simp only: finishValue.simps Let_def split: if_split) (simp add: keeps_obj)
next
  case (5 owned txn x xs st)
  let ?p = "finishValue owned txn x st"
  have p: "fst st \<le> fst (fst ?p)" "keeps H owned (snd ?p)" using 5(1) 5(3,4) by simp_all
  then have "set owned \<subseteq> {..<fst (fst ?p)}" using 5(3) by fastforce
  from 5(2) [OF refl this] show ?case using p 5(4) by (auto simp: Let_def)
next
  case (7 owned txn k v kvs st)
  let ?p = "finishValue owned txn v st"
  have p: "fst st \<le> fst (fst ?p)" "keeps H owned (snd ?p)" using 7(1) 7(3,4) by simp_all
  then have "set owned \<subseteq> {..<fst (fst ?p)}" using 7(3) by fastforce
  from 7(2) [OF refl this] show ?case using p 7(4) by (auto simp: Let_def)
qed simp_all

definition storeOk :: "store \<Rightarrow> revision set \<Rightarrow> bool" where
  "storeOk st H \<longleftrightarrow>
     (\<forall>x \<in> H. set (subs x) \<subseteq> H \<and> wfJson (plain x) \<and> set (addrs x) \<subseteq> set (st_owned st)) \<and>
     (\<forall>x \<in> H. \<forall>y \<in> H. identical x y \<longrightarrow> x = y) \<and> (\<forall>a \<in> set (st_owned st). a < st_next st)"

lemma distinct_concat_eq:
  "distinct (concat (map f xs)) \<Longrightarrow> u \<in> set xs \<Longrightarrow> w \<in> set xs \<Longrightarrow> a \<in> set (f u) \<Longrightarrow> a \<in> set (f w) \<Longrightarrow> u = w"
  by (induction xs) auto

lemma newAddrs_subs:
  assumes "\<forall>x \<in> H. set (addrs x) \<subseteq> set owned"
  shows "keeps H owned r \<Longrightarrow> c \<in> set (subs r) \<Longrightarrow> addrOf c = Some a \<Longrightarrow> a \<notin> set owned \<Longrightarrow> a \<in> set (newAddrs owned r)"
proof (induction r)
  case (RArr b xs)
  have "b \<notin> set owned"
  proof
    assume "b \<in> set owned"
    then have "RArr b xs \<in> H" using RArr.prems(1) by (simp add: keeps_arr)
    then show False using assms RArr.prems(2-4) addrOf_subs by blast
  qed
  then show ?case using RArr by (auto simp: keeps_arr)
next
  case (RObj b kvs)
  have "b \<notin> set owned"
  proof
    assume "b \<in> set owned"
    then have "RObj b kvs \<in> H" using RObj.prems(1) by (simp add: keeps_obj)
    then show False using assms RObj.prems(2-4) addrOf_subs by blast
  qed
  then show ?case using RObj by (fastforce simp: keeps_obj snds.simps)
qed auto

lemma placed_once:
  assumes H: "\<forall>x \<in> H. set (addrs x) \<subseteq> set owned"
  shows "keeps H owned r \<Longrightarrow> distinct (newAddrs owned r) \<Longrightarrow> x \<in> set (subs r) \<Longrightarrow> y \<in> set (subs r) \<Longrightarrow>
    addrOf x = Some a \<Longrightarrow> addrOf y = Some a \<Longrightarrow> a \<notin> set owned \<Longrightarrow> x = y"
proof (induction r arbitrary: x y)
  case (RArr b xs)
  have k: "keeps H owned u" if "u \<in> set xs" for u using that RArr.prems(1) by (simp add: keeps_arr)
  have b: "b \<notin> set owned" using newAddrs_subs [OF H RArr.prems(1,3,5,7)] by (auto split: if_splits)
  have d: "b \<notin> set (newElems owned xs)" "distinct (newElems owned xs)" using RArr.prems(2) b by simp_all
  have inner: "a \<in> set (newAddrs owned u)" if "u \<in> set xs" "z \<in> set (subs u)" "addrOf z = Some a" for u z
    using newAddrs_subs [OF H k [OF that(1)] that(2,3) RArr.prems(7)] .
  have root: False if "u \<in> set xs" "z \<in> set (subs u)" "addrOf z = Some a" "a = b" for u z
    using inner [OF that(1-3)] d(1) that(1,4) by auto
  consider "x = RArr b xs" "y = RArr b xs" | u where "x = RArr b xs" "u \<in> set xs" "y \<in> set (subs u)"
    | u where "y = RArr b xs" "u \<in> set xs" "x \<in> set (subs u)"
    | u w where "u \<in> set xs" "x \<in> set (subs u)" "w \<in> set xs" "y \<in> set (subs w)" using RArr.prems(3,4) by auto
  then show ?case
  proof cases
    case 4
    have "u = w" by (rule distinct_concat_eq [OF d(2) 4(1,3) inner [OF 4(1,2) RArr.prems(5)] inner [OF 4(3,4) RArr.prems(6)]])
    moreover have "distinct (newAddrs owned u)" using d(2) 4(1) by (auto simp: distinct_concat_iff)
    ultimately show ?thesis using RArr.IH [OF 4(1) k [OF 4(1)] _ 4(2) _ RArr.prems(5-7)] 4(4) by simp
  next
    case 1
    then show ?thesis by simp
  next
    case 2
    then have "a = b" using RArr.prems(5) by simp
    then show ?thesis using root [OF 2(2,3) RArr.prems(6)] by blast
  next
    case 3
    then have "a = b" using RArr.prems(6) by simp
    then show ?thesis using root [OF 3(2,3) RArr.prems(5)] by blast
  qed
next
  case (RObj b kvs)
  have k: "keeps H owned (snd u)" if "u \<in> set kvs" for u using that RObj.prems(1) by (simp add: keeps_obj)
  have b: "b \<notin> set owned" using newAddrs_subs [OF H RObj.prems(1,3,5,7)] by (auto split: if_splits)
  have d: "b \<notin> set (newEntries owned kvs)" "distinct (newEntries owned kvs)" using RObj.prems(2) b by simp_all
  have inner: "a \<in> set (case u of (k, v) \<Rightarrow> newAddrs owned v)" if "u \<in> set kvs" "z \<in> set (subs (snd u))" "addrOf z = Some a" for u z
    using newAddrs_subs [OF H k [OF that(1)] that(2,3) RObj.prems(7)] by (simp add: case_prod_beta)
  have root: False if "u \<in> set kvs" "z \<in> set (subs (snd u))" "addrOf z = Some a" "a = b" for u z
    using inner [OF that(1-3)] d(1) that(1,4) by auto
  consider "x = RObj b kvs" "y = RObj b kvs" | u where "x = RObj b kvs" "u \<in> set kvs" "y \<in> set (subs (snd u))"
    | u where "y = RObj b kvs" "u \<in> set kvs" "x \<in> set (subs (snd u))"
    | u w where "u \<in> set kvs" "x \<in> set (subs (snd u))" "w \<in> set kvs" "y \<in> set (subs (snd w))" using RObj.prems(3,4) by force
  then show ?case
  proof cases
    case 4
    have same: "u = w" by (rule distinct_concat_eq [OF d(2) 4(1,3) inner [OF 4(1,2) RObj.prems(5)] inner [OF 4(3,4) RObj.prems(6)]])
    have "(case u of (k, v) \<Rightarrow> newAddrs owned v) \<in> set (map (\<lambda>(k, v). newAddrs owned v) kvs)" using 4(1) by simp
    then have du: "distinct (newAddrs owned (snd u))"
      using d(2) unfolding distinct_concat_iff by (simp add: case_prod_beta)
    have snds: "snd u \<in> Basic_BNFs.snds u" by (simp add: snds.simps)
    show ?thesis by (rule RObj.IH [OF 4(1) snds k [OF 4(1)] du 4(2) 4(4) [folded same] RObj.prems(5-7)])
  next
    case 1
    then show ?thesis by simp
  next
    case 2
    then have "a = b" using RObj.prems(5) by simp
    then show ?thesis using root [OF 2(2,3) RObj.prems(6)] by blast
  next
    case 3
    then have "a = b" using RObj.prems(6) by simp
    then show ?thesis using root [OF 3(2,3) RObj.prems(5)] by blast
  qed
qed auto

lemma addrs_subs: "x \<in> set (subs r) \<Longrightarrow> set (addrs x) \<subseteq> set (addrs r)"
proof (induction r)
  case (RArr a xs)
  then show ?case by fastforce
next
  case (RObj a kvs)
  then show ?case by (fastforce simp: snds.simps)
qed auto

lemma storeOk_extend:
  assumes ok: "storeOk st H" and wf: "wfJson (plain r)" and k: "keeps H (st_owned st) r"
    and d: "distinct (newAddrs (st_owned st) r)" and n: "st_next st \<le> n" "\<forall>a \<in> set (addrs r). a < n"
  shows "storeOk \<lparr>st_next = n, st_owned = addrs r @ st_owned st\<rparr> (H \<union> set (subs r))"
proof -
  have H: "\<forall>x \<in> H. set (addrs x) \<subseteq> set (st_owned st)" using ok unfolding storeOk_def by blast
  have "x = y" if x: "x \<in> H \<union> set (subs r)" and y: "y \<in> H \<union> set (subs r)" and i: "identical x y" for x y
  proof (cases "addrOf x")
    case None
    then show ?thesis using i by (cases x; cases y) simp_all
  next
    case (Some a)
    then have a: "addrOf y = Some a" using i by (cases x; cases y) simp_all
    have inH: "z \<in> H" if "z \<in> H \<union> set (subs r)" "addrOf z = Some a" "a \<in> set (st_owned st)" for z
      using that k unfolding keeps_def by blast
    show ?thesis
    proof (cases "a \<in> set (st_owned st)")
      case True
      then have "x \<in> H" "y \<in> H" using inH x y Some a by blast+
      then show ?thesis using ok i unfolding storeOk_def by blast
    next
      case False
      have out: "z \<in> set (subs r)" if "z \<in> H \<union> set (subs r)" "addrOf z = Some a" for z
        using that H False addrOf_subs [OF subs_self that(2)] by blast
      show ?thesis using placed_once [OF H k d out [OF x Some] out [OF y a] Some a False] .
    qed
  qed
  moreover have "set (subs x) \<subseteq> H \<union> set (subs r) \<and> wfJson (plain x) \<and> set (addrs x) \<subseteq> set (addrs r @ st_owned st)"
    if "x \<in> H \<union> set (subs r)" for x
  proof (cases "x \<in> H")
    case True
    then show ?thesis using ok unfolding storeOk_def by auto
  next
    case False
    then have x: "x \<in> set (subs r)" using that by blast
    have "set (addrs x) \<subseteq> set (addrs r)" using addrs_subs [OF x] .
    then show ?thesis using subs_closed [OF x] subs_wf [OF x wf] by auto
  qed
  moreover have "a < n" if "a \<in> set (addrs r @ st_owned st)" for a using that n ok unfolding storeOk_def by fastforce
  ultimately show ?thesis unfolding storeOk_def by simp
qed

definition draftOk :: "store \<Rightarrow> revision set \<Rightarrow> revision \<Rightarrow> bool" where
  "draftOk st H v \<longleftrightarrow> wfJson (plain v) \<and> (\<forall>a \<in> set (addrs v). a < st_next st) \<and> keeps H (st_owned st) v"

lemma import_store:
  assumes "storeOk st H" and "wfJson v" and "importRevision v st = (st', r)"
  shows "plain r = v \<and> storeOk st' (H \<union> set (subs r))"
proof -
  let ?p = "importValue (st_next st) v"
  have r: "r = snd ?p" "st' = \<lparr>st_next = fst ?p, st_owned = addrs r @ st_owned st\<rparr>"
    using assms(3) by (auto simp: importRevision_def Let_def)
  have low: "set (st_owned st) \<subseteq> {..<st_next st}" using assms(1) unfolding storeOk_def by auto
  note a = import_addrs(1) [of "st_next st" v]
  have "newAddrs (st_owned st) r = addrs r" using a low unfolding r(1) by (intro newAddrs_disjoint) fastforce
  then have "distinct (newAddrs (st_owned st) r)" using a r(1) by simp
  moreover have "\<forall>x \<in> set (addrs r). x < fst ?p" using a r(1) by auto
  ultimately have "storeOk st' (H \<union> set (subs r))" unfolding r(2)
    using a assms(1,2) keeps_import [OF low] r(1) by (intro storeOk_extend) (simp_all add: plain_import)
  then show ?thesis by (simp add: r(1) plain_import)
qed

lemma newAddrs_all: "a \<in> set (addrs r) \<Longrightarrow> keeps H owned r \<Longrightarrow> \<forall>x \<in> H. set (addrs x) \<subseteq> set owned \<Longrightarrow>
  a \<in> set (newAddrs owned r) \<or> a \<in> set owned"
proof (induction r)
  case (RArr b xs)
  show ?case
  proof (cases "b \<in> set owned")
    case True
    then have "RArr b xs \<in> H" using RArr.prems(2) by (simp add: keeps_arr)
    then show ?thesis using RArr.prems(1,3) by blast
  next
    case False
    then show ?thesis using RArr by (auto simp: keeps_arr)
  qed
next
  case (RObj b kvs)
  show ?case
  proof (cases "b \<in> set owned")
    case True
    then have "RObj b kvs \<in> H" using RObj.prems(2) by (simp add: keeps_obj)
    then show ?thesis using RObj.prems(1,3) by blast
  next
    case False
    then show ?thesis using RObj by (fastforce simp: keeps_obj snds.simps)
  qed
qed auto

lemma commit_coherent:
  assumes "storeOk st H" and "draftOk st H v" and "commitRevision txn v st = (st', r)"
  shows "plain r = plain v \<and> storeOk st' (H \<union> set (subs r))"
proof -
  let ?p = "finishValue (st_owned st) txn v (st_next st, [])"
  have r: "r = snd ?p" "st' = \<lparr>st_next = fst (fst ?p), st_owned = addrs r @ st_owned st\<rparr>"
    using assms(3) by (auto simp: commitRevision_def Let_def)
  have low: "set (st_owned st) \<subseteq> {..<st_next st}" using assms(1) unfolding storeOk_def by auto
  have H: "\<forall>x \<in> H. set (addrs x) \<subseteq> set (st_owned st)" using assms(1) unfolding storeOk_def by blast
  have "set (st_owned st) \<union> set (addrs v) \<union> set (snd (st_next st, [])) \<subseteq> {..<fst (st_next st, [])}"
    using low assms(2) by (auto simp: draftOk_def)
  from finish_allot(1) [OF this, of txn]
  have a: "st_next st \<le> fst (fst ?p)" "distinct (newAddrs (st_owned st) r)"
    "set (newAddrs (st_owned st) r) \<subseteq> set (addrs v) \<union> {st_next st..<fst (fst ?p)}"
    unfolding allot_def r(1) by auto
  have k: "keeps H (st_owned st) r"
    using finish_keeps(1) [of "st_owned st" "(st_next st, [])" H v txn] low assms(2) r(1) by (simp add: draftOk_def)
  have "x < fst (fst ?p)" if "x \<in> set (addrs r)" for x
    using newAddrs_all [OF that k H] a low assms(2) by (fastforce simp: draftOk_def)
  then have "storeOk st' (H \<union> set (subs r))" unfolding r(2)
    using assms(1,2) k a by (intro storeOk_extend) (simp_all add: r(1) plain_finish draftOk_def)
  then show ?thesis by (simp add: r(1) plain_finish)
qed

text \<open>
  C19 (commit): committing a draft keeps its value, and the store stays coherent: the revision shares with the earlier
  ones exactly what it took over from them, and no address stands for two values, although a container may occur in the
  draft twice or belong to somebody else.
\<close>

theorem commitRevision_coherent:
  assumes "storeOk st H" and "draftOk st H v" and "commitRevision txn v st = (st', r)"
  shows "plain r = plain v \<and> storeOk st' (H \<union> set (subs r))"
  by (rule commit_coherent [OF assms])

text \<open>The item of the base is placed twice, next to a container of the caller: the second place gets a copy.\<close>

definition baseItem :: revision where
  "baseItem = RObj 1 [(''n'', RNum 1)]"

definition sampleStore :: store where
  "sampleStore = \<lparr>st_next = 9, st_owned = [0, 1]\<rparr>"

definition sampleDraft :: revision where
  "sampleDraft = RArr 5 [baseItem, RArr 6 [], baseItem, RArr 7 [baseItem]]"

theorem commitRevision_coherent_witness:
  "commitRevision [5, 7] sampleDraft sampleStore =
     (\<lparr>st_next = 12, st_owned = [5, 1, 9, 10, 7, 11, 0, 1]\<rparr>,
      RArr 5 [baseItem, RArr 9 [], RObj 10 [(''n'', RNum 1)], RArr 7 [RObj 11 [(''n'', RNum 1)]]]) \<and>
   storeOk \<lparr>st_next = 12, st_owned = [5, 1, 9, 10, 7, 11, 0, 1]\<rparr> ({RArr 0 [baseItem], baseItem, RNum 1} \<union>
     set (subs (RArr 5 [baseItem, RArr 9 [], RObj 10 [(''n'', RNum 1)], RArr 7 [RObj 11 [(''n'', RNum 1)]]])))"
proof -
  let ?H = "{RArr 0 [baseItem], baseItem, RNum 1}"
  have ok: "storeOk sampleStore ?H" by (simp add: storeOk_def sampleStore_def baseItem_def)
  have draft: "draftOk sampleStore ?H sampleDraft"
    by (auto simp: draftOk_def sampleStore_def sampleDraft_def baseItem_def keeps_def)
  have out: "commitRevision [5, 7] sampleDraft sampleStore =
     (\<lparr>st_next = 12, st_owned = [5, 1, 9, 10, 7, 11, 0, 1]\<rparr>,
      RArr 5 [baseItem, RArr 9 [], RObj 10 [(''n'', RNum 1)], RArr 7 [RObj 11 [(''n'', RNum 1)]]])"
    by (simp add: commitRevision_def sampleStore_def sampleDraft_def baseItem_def Let_def)
  show ?thesis using commitRevision_coherent [OF ok draft out] out by simp
qed

end
