(* ===== verification/Json_Keys.thy ===== *)
theory Json_Keys
  imports Prelude
begin

text \<open>
  \<open>JSON.stringify\<close> of an array of scalars as a key: the paths of \<open>packages/chord/src/delta/index.ts\<close> and the state names
  of \<open>packages/chord/src/services/state-codec.ts\<close> are kept in maps under such keys. Different arrays have different keys.
\<close>

section \<open>Numbers\<close>

definition readDigits :: "string \<Rightarrow> nat" where
  "readDigits s = foldl (\<lambda>v c. 10 * v + (of_char c - 48)) 0 s"

lemma digitChar_val [simp]: "d < 10 \<Longrightarrow> (of_char (digitChar d) :: nat) = 48 + d"
  by (simp add: digitChar_def)

lemma readDigits_showNat: "readDigits (showNat n) = n"
proof (induction n rule: showNat.induct)
  case (1 n)
  show ?case
  proof (cases "n < 10")
    case True
    then show ?thesis by (subst showNat.simps) (simp add: readDigits_def)
  next
    case False
    with 1 show ?thesis by (subst showNat.simps) (simp add: readDigits_def)
  qed
qed

lemma showNat_inject: "showNat m = showNat n \<longleftrightarrow> m = n"
  using readDigits_showNat by metis

lemma showNat_digits: "c \<in> set (showNat n) \<Longrightarrow> 48 \<le> (of_char c :: nat) \<and> (of_char c :: nat) \<le> 57"
proof (induction n rule: showNat.induct)
  case (1 n)
  show ?case
  proof (cases "n < 10")
    case True
    then show ?thesis using 1(2) by (simp add: showNat.simps [of n])
  next
    case False
    have "c \<in> set (showNat (n div 10)) \<or> c = digitChar (n mod 10)" using 1(2) False by (subst (asm) showNat.simps) auto
    then show ?thesis using 1(1) [OF False] by auto
  qed
qed

lemma showInt_chars:
  assumes "c \<in> set (showInt i)"
  shows "c \<notin> {CHR '','', CHR '']'', CHR 0x22, CHR ''n''}"
proof -
  have "c = CHR ''-'' \<or> (48 \<le> (of_char c :: nat) \<and> (of_char c :: nat) \<le> 57)"
    using assms showNat_digits by (auto simp: showInt_def split: if_splits)
  then show ?thesis by auto
qed

lemma showInt_inject: "showInt i = showInt j \<longleftrightarrow> i = j"
proof -
  have minus: "showNat m \<noteq> CHR ''-'' # s" for m s using showNat_digits [of "CHR ''-''" m] by auto
  show ?thesis using minus minus [symmetric] by (auto simp: showInt_def showNat_inject split: if_splits)
qed

section \<open>Strings\<close>

definition hexValue :: "char \<Rightarrow> nat" where
  "hexValue c = (let n = (of_char c :: nat) in if n < 97 then n - 48 else n - 87)"

lemma hexValue_hexDigit: "d < 16 \<Longrightarrow> hexValue (hexDigit d) = d"
  by (auto simp: hexValue_def hexDigit_def Let_def)

definition simpleEscape :: "char \<Rightarrow> char" where
  "simpleEscape c =
     (if c = CHR ''b'' then char_of (8 :: nat) else if c = CHR ''t'' then char_of (9 :: nat)
      else if c = CHR ''n'' then char_of (10 :: nat) else if c = CHR ''f'' then char_of (12 :: nat)
      else if c = CHR ''r'' then char_of (13 :: nat) else c)"

fun readChar :: "string \<Rightarrow> char \<times> string" where
  "readChar (b # d # s) =
     (if b \<noteq> CHR 0x5C then (b, d # s)
      else if d = CHR ''u'' then (char_of (16 * hexValue (s ! 2) + hexValue (s ! 3)), drop 4 s)
      else (simpleEscape d, s))"
| "readChar [b] = (b, [])"
| "readChar [] = (CHR 0x00, [])"

lemma of_char_eqD: "of_char c = (n :: nat) \<Longrightarrow> c = char_of n"
  by auto

lemma readChar_escape: "readChar (escapeChar c @ r) = (c, r)"
proof -
  define n where "n = (of_char c :: nat)"
  have c: "c = char_of n" by (simp add: n_def)
  have special: "CHR 0x22 = char_of (34 :: nat)" "CHR 0x5C = char_of (92 :: nat)" by (rule of_char_eqD; simp)+
  have single: "readChar (c # r) = (c, r)" if "c \<noteq> CHR 0x5C" using that by (cases r) simp_all
  have hex: "char_of (16 * hexValue (hexDigit (n div 16)) + hexValue (hexDigit (n mod 16))) = c" if "n < 32"
    using that by (simp add: hexValue_hexDigit c)
  consider "n = 34" | "n = 92" | "n = 8" | "n = 9" | "n = 10" | "n = 12" | "n = 13"
    | (control) "n < 32" "n \<notin> {8, 9, 10, 12, 13}" | (plain) "n \<notin> {34, 92}" "\<not> n < 32" by force
  then show ?thesis
  proof cases
    case control
    then have "escapeChar c = [CHR 0x5C, CHR ''u'', CHR ''0'', CHR ''0'', hexDigit (n div 16), hexDigit (n mod 16)]"
      by (auto simp: escapeChar_def n_def [symmetric] Let_def)
    then show ?thesis using hex [OF control(1)] by (simp add: numeral_2_eq_2 numeral_3_eq_3)
  next
    case plain
    then have "c \<noteq> CHR 0x5C" unfolding n_def by auto
    moreover have "escapeChar c = [c]" using plain by (auto simp: escapeChar_def n_def [symmetric] Let_def)
    ultimately show ?thesis using single by simp
  qed (simp_all add: escapeChar_def c simpleEscape_def Let_def special [symmetric])
qed

lemma escapeChar_hd: "\<exists>b s. escapeChar c = b # s \<and> b \<noteq> CHR 0x22"
proof (cases "(of_char c :: nat) = 34")
  case False
  then have "c \<noteq> CHR 0x22" by auto
  then show ?thesis by (auto simp: escapeChar_def Let_def)
qed (simp add: escapeChar_def Let_def)

lemma escaped_inject:
  "concat (map escapeChar s) @ CHR 0x22 # r = concat (map escapeChar t) @ CHR 0x22 # r' \<Longrightarrow> s = t \<and> r = r'"
proof (induction s arbitrary: t)
  case Nil
  show ?case
  proof (cases t)
    case (Cons d t')
    obtain b u where "escapeChar d = b # u" "b \<noteq> CHR 0x22" using escapeChar_hd by blast
    then show ?thesis using Nil Cons by simp
  qed (use Nil in simp)
next
  case (Cons c s)
  show ?case
  proof (cases t)
    case Nil
    then show ?thesis using Cons.prems escapeChar_hd [of c] by auto
  next
    case (Cons d t')
    let ?u = "concat (map escapeChar s) @ CHR 0x22 # r" and ?v = "concat (map escapeChar t') @ CHR 0x22 # r'"
    have "escapeChar c @ ?u = escapeChar d @ ?v" using Cons.prems Cons by simp
    then have "(c, ?u) = (d, ?v)" by (metis readChar_escape)
    then show ?thesis using Cons.IH [of t'] Cons by simp
  qed
qed

section \<open>Arrays of scalars\<close>

fun scalar :: "json \<Rightarrow> bool" where
  "scalar (JArr _) = False"
| "scalar (JObj _) = False"
| "scalar (JBool _) = False"
| "scalar _ = True"

definition delimited :: "string \<Rightarrow> bool" where
  "delimited r \<longleftrightarrow> r \<noteq> [] \<and> hd r \<in> {CHR '','', CHR '']''}"

lemma showInt_delimited:
  assumes "delimited r" and "delimited r'" and "showInt i @ r = showInt j @ r'"
  shows "i = j \<and> r = r'"
proof -
  have cut: "takeWhile (\<lambda>c. c \<notin> {CHR '','', CHR '']''}) (showInt k @ s) = showInt k" if "delimited s" for k s
    using that showInt_chars [of _ k] by (cases s) (auto simp: delimited_def takeWhile_append)
  have "showInt i = showInt j" using cut [OF assms(1)] cut [OF assms(2)] assms(3) by metis
  then show ?thesis using assms(3) by (simp add: showInt_inject)
qed

lemma showInt_hd: "\<exists>c s. showInt i = c # s \<and> c \<notin> {CHR '','', CHR '']'', CHR 0x22, CHR ''n''}"
proof -
  have "showInt i \<noteq> []" by (simp add: showInt_def)
  then obtain c s where "showInt i = c # s" by (cases "showInt i") auto
  then show ?thesis using showInt_chars [of c i] by auto
qed

lemma scalar_hd: "scalar y \<Longrightarrow> \<exists>c s. stringify y = c # s \<and> c \<noteq> CHR '']''"
proof (cases y)
  case (JNum i)
  then show ?thesis using showInt_hd [of i] by auto
qed (simp_all add: quoteString_def)

lemma scalar_delimited:
  assumes "scalar x" and "scalar y" and "delimited r" and "delimited r'" and eq: "stringify x @ r = stringify y @ r'"
  shows "x = y \<and> r = r'"
proof -
  have str: "stringify (JStr s) = CHR 0x22 # concat (map escapeChar s) @ [CHR 0x22]" for s by (simp add: quoteString_def)
  have num: "hd (showInt i @ s) \<noteq> CHR 0x22" "hd (showInt i @ s) \<noteq> CHR ''n''" for i s using showInt_hd [of i] by auto
  have hd: "hd (stringify x @ r) = hd (stringify y @ r')" using eq by simp
  show ?thesis
  proof (cases x)
    case JNull
    then have "y = JNull" using assms(2) hd num [symmetric] by (cases y) (simp_all add: quoteString_def)
    then show ?thesis using eq JNull by simp
  next
    case (JNum i)
    then obtain j where "y = JNum j" using assms(2) hd num by (cases y) (simp_all add: quoteString_def)
    then show ?thesis using eq showInt_delimited [OF assms(3,4), of i j] JNum by simp
  next
    case (JStr s)
    then obtain t where "y = JStr t" using assms(2) hd num [symmetric] by (cases y) (simp_all add: quoteString_def)
    then show ?thesis using eq escaped_inject [of s r t r'] JStr str by simp
  qed (use assms(1) in simp_all)
qed

lemma join_scalars_inject:
  assumes "list_all scalar xs" and "list_all scalar ys"
    and "join '','' (map stringify xs) @ '']'' = join '','' (map stringify ys) @ '']''"
  shows "xs = ys"
  using assms
proof (induction xs arbitrary: ys)
  case Nil
  show ?case
  proof (cases ys)
    case (Cons y ys')
    have "scalar y" using Nil(2) Cons by simp
    then show ?thesis using Nil(3) Cons scalar_hd [of y] by (cases ys') auto
  qed simp
next
  case (Cons x xs)
  let ?rest = "\<lambda>zs. case zs of [] \<Rightarrow> '']'' | _ \<Rightarrow> '','' @ join '','' (map stringify zs) @ '']''"
  have shape: "join '','' (map stringify (z # zs)) @ '']'' = stringify z @ ?rest zs" "delimited (?rest zs)" for z zs
    by (cases zs; simp add: delimited_def)+
  show ?case
  proof (cases ys)
    case Nil
    have "scalar x" using Cons.prems(1) by simp
    then show ?thesis using Cons.prems(3) Nil scalar_hd [of x] shape(1) [of x xs] by auto
  next
    case ys: (Cons y ys')
    have "stringify x @ ?rest xs = stringify y @ ?rest ys'" using Cons.prems(3) unfolding ys shape(1) .
    from scalar_delimited [OF _ _ shape(2) shape(2) this]
    have "x = y" and rest: "?rest xs = ?rest ys'" using Cons.prems(1,2) ys by auto
    show ?thesis
    proof (cases xs)
      case Nil
      then show ?thesis using rest ys \<open>x = y\<close> by (cases ys') simp_all
    next
      case (Cons a as)
      then obtain b bs where b: "ys' = b # bs" using rest by (cases ys') simp_all
      have "join '','' (map stringify xs) @ '']'' = join '','' (map stringify ys') @ '']''" using rest unfolding Cons b by simp
      then have "xs = ys'" using Cons.IH [of ys'] Cons.prems(1,2) ys by simp
      then show ?thesis using ys \<open>x = y\<close> by simp
    qed
  qed
qed

lemma stringify_scalars_inject:
  assumes "list_all scalar xs" and "list_all scalar ys" and "stringify (JArr xs) = stringify (JArr ys)"
  shows "xs = ys"
  using join_scalars_inject [OF assms(1,2)] assms(3) by simp

end
