(* ===== verification/Replicated_State.thy ===== *)
theory Replicated_State
  imports Revision_Store Json_Keys
begin

text \<open>
  A replicated state from its source to a replica: the source and the replica of
  \<open>packages/chord/src/services/state.ts\<close>, and the subscription of \<open>services/provider.ts\<close> between them. Listeners are
  names; the calls an operation makes to them are part of its result. A listener may change the source while it is
  called, so the loop that delivers publications is one step per publication here. Contexts are left out.
\<close>

datatype state_error =
    StateError string
  | ApplyError delta_error

section \<open>The source\<close>

record publication =
  pb_value :: revision
  pb_ops :: "delta_op list"
  pb_sequence :: nat

record mutable_state =
  ms_store :: store
  ms_value :: revision
  ms_sequence :: nat
  ms_publications :: "publication list"
  ms_changing :: bool
  ms_delivering :: bool
  ms_listeners :: "(string \<times> nat) list"

definition newState :: "json \<Rightarrow> mutable_state" where
  "newState initial =
     (let p = importRevision initial \<lparr>st_next = 0, st_owned = []\<rparr>
      in \<lparr>ms_store = fst p, ms_value = snd p, ms_sequence = 0, ms_publications = [], ms_changing = False,
          ms_delivering = False, ms_listeners = []\<rparr>)"

definition commitNext :: "revision \<Rightarrow> mutable_state \<Rightarrow> mutable_state" where
  "commitNext next s =
     (let ops = diffRevisions (ms_value s) next
      in if ops = [] then s
         else s\<lparr>ms_value := next, ms_sequence := Suc (ms_sequence s),
                ms_publications := ms_publications s @
                  [\<lparr>pb_value = next, pb_ops = ops, pb_sequence = Suc (ms_sequence s)\<rparr>],
                ms_delivering := True\<rparr>)"

text \<open>\<open>change\<close> up to the call of the recipe and after it; \<open>None\<close> is a recipe that throws.\<close>

definition beginChange :: "mutable_state \<Rightarrow> (state_error + unit) \<times> mutable_state" where
  "beginChange s =
     (if ms_changing s then (Inl (StateError ''Replicated state cannot be changed reentrantly from a change callback''), s)
      else (Inr (), s\<lparr>ms_changing := True\<rparr>))"

definition endChange :: "(revision \<times> nat list) option \<Rightarrow> mutable_state \<Rightarrow> mutable_state" where
  "endChange produced s =
     (case produced of
        None \<Rightarrow> s\<lparr>ms_changing := False\<rparr>
      | Some (v, txn) \<Rightarrow>
          if identical v (ms_value s) then s\<lparr>ms_changing := False\<rparr>
          else let p = commitRevision txn v (ms_store s)
               in commitNext (snd p) (s\<lparr>ms_store := fst p, ms_changing := False\<rparr>))"

definition replaceState :: "json \<Rightarrow> mutable_state \<Rightarrow> (state_error + unit) \<times> mutable_state" where
  "replaceState v s =
     (if ms_changing s then (Inl (StateError ''Replicated state cannot be replaced from a change callback''), s)
      else let p = importRevision v (ms_store s) in (Inr (), commitNext (snd p) (s\<lparr>ms_store := fst p\<rparr>)))"

text \<open>A local listener is called with the value at once; when that call throws it is not kept.\<close>

definition subscribeState :: "string \<Rightarrow> bool \<Rightarrow> mutable_state \<Rightarrow> (nat \<times> revision) \<times> mutable_state" where
  "subscribeState listener throws s =
     ((ms_sequence s, ms_value s),
      if throws then s\<lparr>ms_listeners := AList.delete listener (ms_listeners s)\<rparr>
      else s\<lparr>ms_listeners := AList.update listener (ms_sequence s) (ms_listeners s)\<rparr>)"

definition nextPublication :: "mutable_state \<Rightarrow> publication option \<times> mutable_state" where
  "nextPublication s =
     (case ms_publications s of
        [] \<Rightarrow> (None, s\<lparr>ms_delivering := False\<rparr>)
      | p # ps \<Rightarrow> (Some p, s\<lparr>ms_publications := ps\<rparr>))"

definition localDeliveries :: "publication \<Rightarrow> mutable_state \<Rightarrow> (string \<times> revision \<times> nat) list" where
  "localDeliveries p s =
     map (\<lambda>(l, _). (l, pb_value p, pb_sequence p)) (filter (\<lambda>(_, hydrated). hydrated < pb_sequence p) (ms_listeners s))"

section \<open>The replica\<close>

datatype delivery_kind = Hydrated | Updated

record replica =
  rp_value :: "json option"
  rp_sequence :: "nat option"
  rp_listeners :: "string list"

type_synonym deliveries = "(string \<times> json \<times> delivery_kind \<times> nat) list"

definition newReplica :: replica where
  "newReplica = \<lparr>rp_value = None, rp_sequence = None, rp_listeners = []\<rparr>"

definition clearReplica :: "replica \<Rightarrow> replica" where
  "clearReplica r = r\<lparr>rp_value := None, rp_sequence := None\<rparr>"

definition deliverAll :: "delivery_kind \<Rightarrow> replica \<Rightarrow> deliveries" where
  "deliverAll kind r =
     (case (rp_value r, rp_sequence r) of
        (Some v, Some n) \<Rightarrow> map (\<lambda>l. (l, v, kind, n)) (rp_listeners r)
      | _ \<Rightarrow> [])"

definition hydrateReplica :: "nat \<Rightarrow> delta_op list \<Rightarrow> replica \<Rightarrow> (state_error + deliveries) \<times> replica" where
  "hydrateReplica sequence ops r =
     (if \<not> isBase ops
      then (Inl (StateError ''Replicated state snapshot is not a base operation batch''), clearReplica r)
      else case applyImmutable ops JNull of
             Inl err \<Rightarrow> (Inl (ApplyError err), clearReplica r)
           | Inr v \<Rightarrow> let r' = r\<lparr>rp_sequence := Some sequence, rp_value := Some v\<rparr> in (Inr (deliverAll Hydrated r'), r'))"

definition updateReplica :: "nat \<Rightarrow> delta_op list \<Rightarrow> replica \<Rightarrow> (state_error + deliveries) \<times> replica" where
  "updateReplica sequence ops r =
     (case (rp_sequence r, rp_value r) of
        (Some n, Some v) \<Rightarrow>
          if sequence \<noteq> Suc n then (Inl (StateError ''Replicated state update sequence has a gap''), clearReplica r)
          else (case applyImmutable ops v of
                  Inl err \<Rightarrow> (Inl (ApplyError err), clearReplica r)
                | Inr v' \<Rightarrow>
                    let r' = r\<lparr>rp_sequence := Some sequence, rp_value := Some v'\<rparr> in (Inr (deliverAll Updated r'), r'))
      | _ \<Rightarrow> (Inl (StateError ''Replicated state received an update before hydration''), r))"

definition subscribeReplica :: "string \<Rightarrow> replica \<Rightarrow> deliveries \<times> replica" where
  "subscribeReplica listener r =
     (let r' = r\<lparr>rp_listeners := List.insert listener (rp_listeners r)\<rparr>
      in ((case (rp_value r, rp_sequence r) of (Some v, Some n) \<Rightarrow> [(listener, v, Hydrated, n)] | _ \<Rightarrow> []), r'))"

section \<open>Subscriptions\<close>

type_synonym address = "string \<times> nat"

datatype member_snapshot =
    MethodMember string
  | StateMember string nat "delta_op list"

record instance_snapshot =
  is_instance :: "address option"
  is_members :: "member_snapshot list"

datatype provider_update =
    StateUpdate "address option" string nat "delta_op list"
  | Unavailable
  | Replaced instance_snapshot
  | Spawned instance_snapshot
  | Closed address

definition stateMemberKey :: "address option \<Rightarrow> string \<Rightarrow> string" where
  "stateMemberKey inst member =
     stringify (JArr (case inst of None \<Rightarrow> [JStr member] | Some (k, g) \<Rightarrow> [JStr k, JNum (int g), JStr member]))"

type_synonym sequences = "(string \<times> nat) list"

fun recordMember :: "address option \<Rightarrow> member_snapshot \<Rightarrow> sequences \<Rightarrow> sequences" where
  "recordMember inst (MethodMember _) seqs = seqs"
| "recordMember inst (StateMember name n _) seqs = AList.update (stateMemberKey inst name) n seqs"

definition recordSnapshotSequences :: "sequences \<Rightarrow> instance_snapshot list \<Rightarrow> sequences" where
  "recordSnapshotSequences seqs snapshots =
     fold (\<lambda>snapshot. fold (recordMember (is_instance snapshot)) (is_members snapshot)) snapshots seqs"

definition addressPrefix :: "address \<Rightarrow> string" where
  "addressPrefix a = (case a of (k, g) \<Rightarrow> butlast (stringify (JArr [JStr k, JNum (int g)])) @ '','')"

definition updateCoveredBySnapshot :: "sequences \<Rightarrow> provider_update \<Rightarrow> bool \<times> sequences" where
  "updateCoveredBySnapshot seqs update =
     (case update of
        StateUpdate inst member n _ \<Rightarrow>
          let key = stateMemberKey inst member
          in (case map_of seqs key of
                None \<Rightarrow> (False, seqs)
              | Some covered \<Rightarrow> if n \<le> covered then (True, seqs) else (False, AList.delete key seqs))
      | Replaced snapshot \<Rightarrow> (False, recordSnapshotSequences [] [snapshot])
      | Spawned snapshot \<Rightarrow> (False, recordSnapshotSequences seqs [snapshot])
      | Unavailable \<Rightarrow> (False, [])
      | Closed a \<Rightarrow> (False, filter (\<lambda>(key, _). \<not> startsWith key (addressPrefix a)) seqs))"

record subscriber =
  sb_buffer :: "provider_update list"
  sb_sequences :: sequences
  sb_active :: bool
  sb_terminated :: bool
  sb_closed :: bool

definition newSubscriber :: "instance_snapshot list \<Rightarrow> subscriber" where
  "newSubscriber snapshots =
     \<lparr>sb_buffer = [], sb_sequences = recordSnapshotSequences [] snapshots, sb_active = False, sb_terminated = False,
      sb_closed = False\<rparr>"

text \<open>One subscriber in \<open>#emit\<close>: what its listener is called with.\<close>

definition emitTo :: "provider_update \<Rightarrow> subscriber \<Rightarrow> provider_update option \<times> subscriber" where
  "emitTo update b =
     (if sb_closed b then (None, b)
      else case updateCoveredBySnapshot (sb_sequences b) update of
             (True, seqs) \<Rightarrow> (None, b\<lparr>sb_sequences := seqs\<rparr>)
           | (False, seqs) \<Rightarrow>
               if \<not> sb_active b then (None, b\<lparr>sb_sequences := seqs, sb_buffer := sb_buffer b @ [update]\<rparr>)
               else (Some update, b\<lparr>sb_sequences := seqs\<rparr>))"

text \<open>\<open>activate\<close> takes the buffer; the listener is then called with its updates one by one.\<close>

definition beginActivate :: "subscriber \<Rightarrow> provider_update list \<times> subscriber" where
  "beginActivate b =
     (if sb_closed b \<or> sb_active b then ([], b) else (sb_buffer b, b\<lparr>sb_active := True, sb_buffer := []\<rparr>))"

definition endActivate :: "subscriber \<Rightarrow> subscriber" where
  "endActivate b = (if sb_terminated b then b\<lparr>sb_closed := True\<rparr> else b)"

definition closeSubscriber :: "subscriber \<Rightarrow> subscriber" where
  "closeSubscriber b = (if sb_closed b then b else b\<lparr>sb_closed := True, sb_buffer := []\<rparr>)"

section \<open>A binding\<close>

text \<open>
  A singleton with one state member, a binding to it over the loopback transport and its replica. \<open>bn_snapshot\<close> is the
  snapshot of a subscription that is not installed yet and \<open>bn_flush\<close> what is left of the buffer of an activation.
  \<open>bn_history\<close> and \<open>bn_roots\<close> record, for the statements only, the values of the source by sequence number and all
  revisions of its store.
\<close>

record binding =
  bn_source :: mutable_state
  bn_subscriber :: "subscriber option"
  bn_snapshot :: "(nat \<times> delta_op list) option"
  bn_flush :: "provider_update list"
  bn_replica :: replica
  bn_errors :: "state_error list"
  bn_history :: "revision list"
  bn_roots :: "revision list"

definition memberName :: string where
  "memberName = ''state''"

definition newBinding :: "json \<Rightarrow> binding" where
  "newBinding initial =
     (let s = newState initial
      in \<lparr>bn_source = s, bn_subscriber = None, bn_snapshot = None, bn_flush = [], bn_replica = newReplica, bn_errors = [],
          bn_history = [ms_value s], bn_roots = [ms_value s]\<rparr>)"

definition snapshotInstance :: "mutable_state \<Rightarrow> instance_snapshot" where
  "snapshotInstance s =
     \<lparr>is_instance = None, is_members = [StateMember memberName (ms_sequence s) [Replace (plain (ms_value s))]]\<rparr>"

definition withSource :: "mutable_state \<Rightarrow> revision list \<Rightarrow> binding \<Rightarrow> binding" where
  "withSource s made b =
     b\<lparr>bn_source := s, bn_roots := made @ bn_roots b,
       bn_history := bn_history b @ (if ms_sequence s = ms_sequence (bn_source b) then [] else [ms_value s])\<rparr>"

definition reported :: "(state_error + 'a) \<times> 'b \<Rightarrow> state_error list" where
  "reported outcome = (case fst outcome of Inl err \<Rightarrow> [err] | Inr _ \<Rightarrow> [])"

text \<open>
  The listener of the binding: an update of the state member goes to its replica, a replacement hydrates it again, errors
  are reported. Members other than \<open>memberName\<close> have replicas of their own, which are not part of this record.
\<close>

fun installMembers :: "member_snapshot list \<Rightarrow> replica \<Rightarrow> state_error list \<times> replica" where
  "installMembers [] r = ([], r)"
| "installMembers (MethodMember _ # ms) r = installMembers ms r"
| "installMembers (StateMember name n ops # ms) r =
     (if name = memberName
      then (case hydrateReplica n ops r of (Inl err, r') \<Rightarrow> ([err], r') | (Inr _, r') \<Rightarrow> installMembers ms r')
      else installMembers ms r)"

definition receive :: "provider_update \<Rightarrow> binding \<Rightarrow> binding" where
  "receive update b =
     (case update of
        StateUpdate None member n ops \<Rightarrow>
          if member \<noteq> memberName
          then b\<lparr>bn_errors := bn_errors b @ [StateError ''Remote service update targets non-state member'']\<rparr>
          else let outcome = updateReplica n ops (bn_replica b)
               in b\<lparr>bn_replica := snd outcome, bn_errors := bn_errors b @ reported outcome\<rparr>
      | Unavailable \<Rightarrow> b\<lparr>bn_replica := clearReplica (bn_replica b)\<rparr>
      | Replaced snapshot \<Rightarrow>
          if is_instance snapshot \<noteq> None
          then b\<lparr>bn_errors := bn_errors b @ [StateError ''Singleton replacement has an instance address'']\<rparr>
          else let outcome = installMembers (is_members snapshot) (bn_replica b)
               in b\<lparr>bn_replica := snd outcome, bn_errors := bn_errors b @ fst outcome\<rparr>
      | _ \<Rightarrow> b)"

datatype binding_event =
    ReplaceSource json
  | BeginChange
  | EndChange "(revision \<times> nat list) option"
  | Publish
  | Subscribe
  | Install
  | Flush

fun perform :: "binding_event \<Rightarrow> binding \<Rightarrow> binding" where
  "perform (ReplaceSource v) b =
     (if ms_changing (bn_source b) then b
      else withSource (snd (replaceState v (bn_source b))) [snd (importRevision v (ms_store (bn_source b)))] b)"
| "perform BeginChange b = b\<lparr>bn_source := snd (beginChange (bn_source b))\<rparr>"
| "perform (EndChange produced) b =
     (if \<not> ms_changing (bn_source b) then b
      else withSource (endChange produced (bn_source b))
        (case produced of
           None \<Rightarrow> []
         | Some (v, txn) \<Rightarrow>
             if identical v (ms_value (bn_source b)) then [] else [snd (commitRevision txn v (ms_store (bn_source b)))]) b)"
| "perform Publish b =
     (case nextPublication (bn_source b) of
        (None, s) \<Rightarrow> b\<lparr>bn_source := s\<rparr>
      | (Some p, s) \<Rightarrow>
          (case bn_subscriber b of
             None \<Rightarrow> b\<lparr>bn_source := s\<rparr>
           | Some sub \<Rightarrow>
               (case emitTo (StateUpdate None memberName (pb_sequence p) (pb_ops p)) sub of
                  (None, sub') \<Rightarrow> b\<lparr>bn_source := s, bn_subscriber := Some sub'\<rparr>
                | (Some update, sub') \<Rightarrow> receive update (b\<lparr>bn_source := s, bn_subscriber := Some sub'\<rparr>))))"
| "perform Subscribe b =
     (if bn_subscriber b \<noteq> None then b
      else b\<lparr>bn_subscriber := Some (newSubscriber [snapshotInstance (bn_source b)]),
             bn_snapshot := Some (ms_sequence (bn_source b), [Replace (plain (ms_value (bn_source b)))])\<rparr>)"
| "perform Install b =
     (case (bn_snapshot b, bn_subscriber b) of
        (Some (n, ops), Some sub) \<Rightarrow>
          (case hydrateReplica n ops (bn_replica b) of
             (Inl err, r) \<Rightarrow> b\<lparr>bn_replica := r, bn_errors := bn_errors b @ [err], bn_snapshot := None\<rparr>
           | (Inr _, r) \<Rightarrow>
               let activated = beginActivate sub
               in b\<lparr>bn_replica := r, bn_snapshot := None, bn_subscriber := Some (snd activated), bn_flush := fst activated\<rparr>)
      | _ \<Rightarrow> b)"
| "perform Flush b =
     (case bn_flush b of
        [] \<Rightarrow> b
      | update # rest \<Rightarrow> receive update (b\<lparr>bn_flush := rest\<rparr>))"

end
