(* ===== verification/Delta_Codec.thy ===== *)
theory Delta_Codec
  imports Delta_Meaning Json_Keys
begin

text \<open>
  The codec between a tracker and a boundary, \<open>packages/chord/src/delta/index.ts\<close>: paths are interned on their second
  use, and within a batch an operation at the path of the one before leaves its path out. The short and the long tuples
  of the wire grammar are edits without and with a path reference. What a batch that fails to decode leaves behind in
  the dictionary of the decoder is not modelled.
\<close>

section \<open>The wire grammar\<close>

datatype path_ref = AtPath path | AtId int

datatype wire_op =
    WReplace json
  | WEdit "path_ref option" edit
  | WDefine int path

fun okRef :: "path_ref \<Rightarrow> unit delta_result" where
  "okRef (AtId n) = (if n < 0 then Inl (OpShape ''bad path id'') else Inr ())"
| "okRef (AtPath p) = assertSafePath p"

definition okOptRef :: "path_ref option \<Rightarrow> unit delta_result" where
  "okOptRef r = (case r of None \<Rightarrow> Inr () | Some ref \<Rightarrow> okRef ref)"

fun assertValidWireOp :: "wire_op \<Rightarrow> unit delta_result" where
  "assertValidWireOp (WReplace _) = Inr ()"
| "assertValidWireOp (WEdit r (SetTo _)) = okOptRef r"
| "assertValidWireOp (WEdit r Delete) = okOptRef r"
| "assertValidWireOp (WEdit r (AppendText _)) = okOptRef r"
| "assertValidWireOp (WEdit r (Trim n)) = dbind (okOptRef r) (\<lambda>_. if n < 0 then Inl (OpShape ''t count'') else Inr ())"
| "assertValidWireOp (WEdit r (SpliceBy i n _)) =
     dbind (okOptRef r) (\<lambda>_.
       if i < 0 then Inl (OpShape ''p index'') else if n < 0 then Inl (OpShape ''p remove'') else Inr ())"
| "assertValidWireOp (WEdit r (Reorder order)) = dbind (okOptRef r) (\<lambda>_. assertPermutation order)"
| "assertValidWireOp (WDefine i p) = (if i < 0 then Inl (OpShape ''# shape'') else assertSafePath p)"

section \<open>Encoding\<close>

fun segJson :: "seg \<Rightarrow> json" where
  "segJson (Key k) = JStr k"
| "segJson (Index i) = JNum i"

definition pathKey :: "path \<Rightarrow> string" where
  "pathKey p = stringify (JArr (map segJson p))"

record encoder_state =
  en_seen :: "string list"
  en_ids :: "(string \<times> int) list"
  en_nextId :: int

definition newEncoder :: encoder_state where
  "newEncoder = \<lparr>en_seen = [], en_ids = [], en_nextId = 0\<rparr>"

text \<open>One operation, with the key of the path of the operation before it in the batch.\<close>

fun encodeOp :: "delta_op \<Rightarrow> encoder_state \<times> string option \<Rightarrow> wire_op list \<times> encoder_state \<times> string option" where
  "encodeOp (Replace v) (e, previous) = ([WReplace v], newEncoder, None)"
| "encodeOp (At path ed) (e, previous) =
     (let key = pathKey path
      in if previous = Some key then ([WEdit None ed], e, previous)
         else case map_of (en_ids e) key of
                Some i \<Rightarrow> ([WEdit (Some (AtId i)) ed], e, Some key)
              | None \<Rightarrow>
                  if key \<in> set (en_seen e)
                  then let i = en_nextId e
                       in ([WDefine i path, WEdit (Some (AtId i)) ed],
                           e\<lparr>en_nextId := i + 1, en_ids := AList.update key i (en_ids e)\<rparr>, Some key)
                  else ([WEdit (Some (AtPath path)) ed], e\<lparr>en_seen := key # en_seen e\<rparr>, Some key))"

fun encodeOps :: "delta_op list \<Rightarrow> encoder_state \<times> string option \<Rightarrow> wire_op list \<times> encoder_state \<times> string option" where
  "encodeOps [] st = ([], st)"
| "encodeOps (op # ops) st =
     (let (out, st') = encodeOp op st; (rest, st'') = encodeOps ops st' in (out @ rest, st''))"

definition encode :: "encoder_state \<Rightarrow> delta_op list \<Rightarrow> wire_op list \<times> encoder_state" where
  "encode e ops = (let (out, e', _) = encodeOps ops (e, None) in (out, e'))"

section \<open>Decoding\<close>

type_synonym decoder_state = "(int \<times> path) list"

definition newDecoder :: decoder_state where
  "newDecoder = []"

text \<open>The path of an edit: the one before it in the batch, one of the dictionary, or its own.\<close>

definition refPath :: "decoder_state \<Rightarrow> path option \<Rightarrow> path_ref option \<Rightarrow> path delta_result" where
  "refPath paths previous r =
     (case r of
        None \<Rightarrow> (case previous of None \<Rightarrow> Inl (PathError []) | Some p \<Rightarrow> Inr p)
      | Some (AtId i) \<Rightarrow> (case map_of paths i of None \<Rightarrow> Inl (PathIdError i) | Some p \<Rightarrow> Inr p)
      | Some (AtPath p) \<Rightarrow> Inr p)"

definition decodeOp ::
    "wire_op \<Rightarrow> decoder_state \<times> path option \<times> delta_op list \<Rightarrow> (decoder_state \<times> path option \<times> delta_op list) delta_result" where
  "decodeOp w st =
     (case st of (paths, previous, out) \<Rightarrow>
       dbind (assertValidWireOp w) (\<lambda>_.
         case w of
           WDefine i p \<Rightarrow> Inr (AList.update i p paths, previous, out)
         | WReplace v \<Rightarrow> Inr ([], None, out @ [Replace v])
         | WEdit r e \<Rightarrow>
             dbind (refPath paths previous r) (\<lambda>path.
               if \<not> isArrayEdit e \<and> path = [] then Inl (PathError path)
               else Inr (paths, Some path, out @ [At path e]))))"

definition decode :: "decoder_state \<Rightarrow> wire_op list \<Rightarrow> (delta_op list \<times> decoder_state) delta_result" where
  "decode paths wire = dbind (dfold decodeOp wire (paths, None, [])) (\<lambda>(paths', _, out). Inr (out, paths'))"

text \<open>The batches of one state stream.\<close>

fun encodeBatches :: "encoder_state \<Rightarrow> delta_op list list \<Rightarrow> wire_op list list \<times> encoder_state" where
  "encodeBatches e [] = ([], e)"
| "encodeBatches e (b # bs) = (let (w, e') = encode e b; (ws, e'') = encodeBatches e' bs in (w # ws, e''))"

fun decodeBatches :: "decoder_state \<Rightarrow> wire_op list list \<Rightarrow> (delta_op list list \<times> decoder_state) delta_result" where
  "decodeBatches d [] = Inr ([], d)"
| "decodeBatches d (w # ws) =
     dbind (decode d w) (\<lambda>(b, d'). dbind (decodeBatches d' ws) (\<lambda>(bs, d''). Inr (b # bs, d'')))"

section \<open>The encoder and the decoder agree\<close>

lemma pathKey_inject: "pathKey p = pathKey q \<longleftrightarrow> p = q"
proof
  assume "pathKey p = pathKey q"
  moreover have "scalar (segJson s)" for s by (cases s) simp_all
  then have "list_all scalar (map segJson r)" for r by (simp add: list_all_iff)
  ultimately have "map segJson p = map segJson q"
    unfolding pathKey_def using stringify_scalars_inject by blast
  moreover have "inj segJson"
    by (rule injI) (auto elim!: segJson.elims)
  ultimately show "p = q" by (simp add: inj_map_eq_map)
qed simp

text \<open>Every path the encoder has interned is in the dictionary of the decoder, under an id below the next one.\<close>

definition synced :: "encoder_state \<Rightarrow> decoder_state \<Rightarrow> bool" where
  "synced e d \<longleftrightarrow> 0 \<le> en_nextId e \<and>
     (\<forall>k i. map_of (en_ids e) k = Some i \<longrightarrow> 0 \<le> i \<and> i < en_nextId e \<and> (\<exists>p. pathKey p = k \<and> map_of d i = Some p))"

lemma synced_new: "synced newEncoder d"
  by (simp add: synced_def newEncoder_def)

lemma synced_id: "synced e d \<Longrightarrow> map_of (en_ids e) (pathKey p) = Some i \<Longrightarrow> 0 \<le> i \<and> map_of d i = Some p"
  unfolding synced_def using pathKey_inject by metis

lemma synced_seen: "synced e d \<Longrightarrow> synced (e\<lparr>en_seen := s\<rparr>) d"
  by (simp add: synced_def)

lemma synced_define:
  assumes "synced e d"
  shows "synced (e\<lparr>en_nextId := en_nextId e + 1, en_ids := AList.update (pathKey p) (en_nextId e) (en_ids e)\<rparr>)
    (AList.update (en_nextId e) p d)"
  unfolding synced_def
proof (intro conjI allI impI)
  show "0 \<le> en_nextId (e\<lparr>en_nextId := en_nextId e + 1, en_ids := AList.update (pathKey p) (en_nextId e) (en_ids e)\<rparr>)"
    using assms by (simp add: synced_def)
next
  fix k i
  assume "map_of (en_ids (e\<lparr>en_nextId := en_nextId e + 1, en_ids := AList.update (pathKey p) (en_nextId e) (en_ids e)\<rparr>)) k = Some i"
  then consider "k = pathKey p" "i = en_nextId e" | "k \<noteq> pathKey p" "map_of (en_ids e) k = Some i" by (auto split: if_splits)
  then have "0 \<le> i \<and> i < en_nextId e + 1 \<and> (\<exists>q. pathKey q = k \<and> map_of (AList.update (en_nextId e) p d) i = Some q)"
  proof cases
    case 1
    then show ?thesis using assms by (auto simp: synced_def)
  next
    case 2
    then show ?thesis using assms by (force simp: synced_def)
  qed
  then show "0 \<le> i" "i < en_nextId (e\<lparr>en_nextId := en_nextId e + 1, en_ids := AList.update (pathKey p) (en_nextId e) (en_ids e)\<rparr>)"
      "\<exists>q. pathKey q = k \<and> map_of (AList.update (en_nextId e) p d) i = Some q" by simp_all
qed

lemma safe_of_valid: "assertValidOp (At p e) = Inr () \<Longrightarrow> assertSafePath p = Inr () \<and> (isArrayEdit e \<or> p \<noteq> [])"
  by (cases e) (auto simp: assertPathArg_def isArrayEdit_def split: if_splits)

lemma valid_wire:
  assumes "assertValidOp (At p e) = Inr ()" and "okOptRef r = Inr ()"
  shows "assertValidWireOp (WEdit r e) = Inr ()"
  using assms by (cases e) (auto split: if_splits)

lemma decode_edit:
  assumes "assertValidOp (At p e) = Inr ()" and "okOptRef r = Inr ()" and "refPath d q r = Inr p"
  shows "decodeOp (WEdit r e) (d, q, out) = Inr (d, Some p, out @ [At p e])"
  using valid_wire [OF assms(1,2)] safe_of_valid [OF assms(1)] assms(3) by (auto simp: decodeOp_def)

lemma encodeOp_decodes:
  assumes "assertValidOp op = Inr ()" and "synced e d \<or> isReplace op"
    and "encodeOp op (e, map_option pathKey q) = (w, e', prev')"
  shows "\<exists>d' q'. dfold decodeOp w (d, q, out) = Inr (d', q', out @ [op]) \<and> synced e' d' \<and> prev' = map_option pathKey q'"
proof (cases op)
  case (Replace v)
  then show ?thesis using assms(3) synced_new by (auto simp: decodeOp_def)
next
  case (At p ed)
  have v: "assertValidOp (At p ed) = Inr ()" and s: "synced e d" using assms(1,2) At by (simp_all add: isReplace_def)
  have safe: "assertSafePath p = Inr ()" using safe_of_valid [OF v] by simp
  note enc = assms(3) [unfolded At encodeOp.simps Let_def]
  show ?thesis
  proof (cases "q = Some p")
    case True
    have "decodeOp (WEdit None ed) (d, q, out) = Inr (d, Some p, out @ [At p ed])"
      by (rule decode_edit [OF v]) (simp_all add: okOptRef_def refPath_def True)
    then show ?thesis using enc True s At by auto
  next
    case False
    then have new: "map_option pathKey q \<noteq> Some (pathKey p)" using pathKey_inject by (cases q) auto
    note enc = enc [unfolded if_not_P [OF new]]
    show ?thesis
    proof (cases "map_of (en_ids e) (pathKey p)")
      case (Some i)
      note i = synced_id [OF s Some]
      have "decodeOp (WEdit (Some (AtId i)) ed) (d, q, out) = Inr (d, Some p, out @ [At p ed])"
        using i by (intro decode_edit [OF v]) (simp_all add: okOptRef_def refPath_def)
      moreover have "w = [WEdit (Some (AtId i)) ed]" "e' = e" "prev' = Some (pathKey p)" using enc Some by simp_all
      ultimately show ?thesis using s At by (intro exI [of _ d] exI [of _ "Some p"]) simp
    next
      case None
      show ?thesis
      proof (cases "pathKey p \<in> set (en_seen e)")
        case True
        let ?i = "en_nextId e" and ?d = "AList.update (en_nextId e) p d"
        have pos: "0 \<le> ?i" using s by (simp add: synced_def)
        have "decodeOp (WDefine ?i p) (d, q, out) = Inr (?d, q, out)" using pos safe by (simp add: decodeOp_def)
        moreover have "decodeOp (WEdit (Some (AtId ?i)) ed) (?d, q, out) = Inr (?d, Some p, out @ [At p ed])"
          using pos by (intro decode_edit [OF v]) (simp_all add: okOptRef_def refPath_def)
        ultimately have "dfold decodeOp [WDefine ?i p, WEdit (Some (AtId ?i)) ed] (d, q, out) = Inr (?d, Some p, out @ [op])"
          using At by simp
        moreover have "w = [WDefine ?i p, WEdit (Some (AtId ?i)) ed]" "prev' = Some (pathKey p)"
          "e' = e\<lparr>en_nextId := ?i + 1, en_ids := AList.update (pathKey p) ?i (en_ids e)\<rparr>" using enc None True by auto
        ultimately show ?thesis using synced_define [OF s, of p] by (intro exI [of _ ?d] exI [of _ "Some p"]) simp
      next
        case fresh: False
        have "decodeOp (WEdit (Some (AtPath p)) ed) (d, q, out) = Inr (d, Some p, out @ [At p ed])"
          using safe by (intro decode_edit [OF v]) (simp_all add: okOptRef_def refPath_def)
        moreover have "w = [WEdit (Some (AtPath p)) ed]" "e' = e\<lparr>en_seen := pathKey p # en_seen e\<rparr>" "prev' = Some (pathKey p)"
          using enc None fresh by auto
        ultimately show ?thesis using synced_seen [OF s] At by (intro exI [of _ d] exI [of _ "Some p"]) simp
      qed
    qed
  qed
qed

lemma encodeOps_decodes:
  assumes "\<forall>op \<in> set ops. assertValidOp op = Inr ()" and "synced e d \<or> isBase ops"
    and "encodeOps ops (e, map_option pathKey q) = (w, e', prev')"
  shows "\<exists>d' q'. dfold decodeOp w (d, q, out) = Inr (d', q', out @ ops) \<and> synced e' d' \<and> prev' = map_option pathKey q'"
  using assms
proof (induction ops arbitrary: e d q w out)
  case (Cons op ops)
  obtain w1 e1 p1 where 1: "encodeOp op (e, map_option pathKey q) = (w1, e1, p1)" by (rule prod_cases3)
  obtain w2 e2 p2 where 2: "encodeOps ops (e1, p1) = (w2, e2, p2)" by (rule prod_cases3)
  have w: "w = w1 @ w2" "e' = e2" "prev' = p2" using Cons.prems(3) 1 2 by simp_all
  have "assertValidOp op = Inr ()" "synced e d \<or> isReplace op" using Cons.prems(1,2) by (auto simp: isBase_def)
  from encodeOp_decodes [OF this 1] obtain d1 q1 where
    d1: "dfold decodeOp w1 (d, q, out) = Inr (d1, q1, out @ [op])" "synced e1 d1" "p1 = map_option pathKey q1" by blast
  have "\<exists>d2 q2. dfold decodeOp w2 (d1, q1, out @ [op]) = Inr (d2, q2, (out @ [op]) @ ops) \<and> synced e2 d2 \<and> p2 = map_option pathKey q2"
    using Cons.IH [of e1 d1 q1 w2 "out @ [op]"] Cons.prems(1) d1(2,3) 2 w by simp
  then show ?case using d1(1) w by (auto simp: dfold_append)
qed (auto simp: isBase_def)

lemma encode_decodes:
  assumes "\<forall>op \<in> set ops. assertValidOp op = Inr ()" and "synced e d \<or> isBase ops" and "encode e ops = (w, e')"
  shows "\<exists>d'. decode d w = Inr (ops, d') \<and> synced e' d'"
proof -
  obtain prev' where "encodeOps ops (e, map_option pathKey None) = (w, e', prev')"
    using assms(3) by (auto simp: encode_def split: prod.splits)
  from encodeOps_decodes [OF assms(1,2) this, of "[]"] show ?thesis by (auto simp: decode_def)
qed

lemma encodeBatches_decodes:
  assumes "\<forall>b \<in> set bs. \<forall>op \<in> set b. assertValidOp op = Inr ()" and "synced e d \<or> bs = [] \<or> isBase (hd bs)"
    and "encodeBatches e bs = (ws, e')"
  shows "\<exists>d'. decodeBatches d ws = Inr (bs, d')"
  using assms
proof (induction bs arbitrary: e d ws)
  case (Cons b bs)
  obtain w e1 where 1: "encode e b = (w, e1)" by (rule prod.exhaust)
  obtain ws2 e2 where 2: "encodeBatches e1 bs = (ws2, e2)" by (rule prod.exhaust)
  have w: "ws = w # ws2" "e' = e2" using Cons.prems(3) 1 2 by simp_all
  obtain d1 where d1: "decode d w = Inr (b, d1)" "synced e1 d1"
    using encode_decodes [OF _ _ 1, of d] Cons.prems(1,2) by auto
  obtain d2 where "decodeBatches d1 ws2 = Inr (bs, d2)"
    using Cons.IH [of e1 d1 ws2] Cons.prems(1) d1(2) 2 w(2) by auto
  then show ?case using d1(1) w(1) by simp
qed simp

lemma encodeBatches_append:
  "encodeBatches e (xs @ ys) =
     (let (w, e') = encodeBatches e xs; (w', e'') = encodeBatches e' ys in (w @ w', e''))"
  by (induction xs arbitrary: e) (auto split: prod.splits)

lemma encodeBatches_length: "length (fst (encodeBatches e xs)) = length xs"
proof (induction xs arbitrary: e)
  case (Cons x xs)
  obtain w e1 where 1: "encode e x = (w, e1)" by (rule prod.exhaust)
  show ?case using Cons.IH [of e1] by (simp add: 1 case_prod_beta)
qed simp

text \<open>
  C17 (codec): a decoder that observes every batch of a stream from its beginning, or from any later base batch on with a
  fresh dictionary, gives back exactly the operations that were encoded: interned ids, omitted paths and the clearing at
  a base batch never make it resolve another path or fail.
\<close>

theorem codec_roundtrip:
  assumes "\<forall>b \<in> set kept. \<forall>op \<in> set b. assertValidOp op = Inr ()"
    and "skipped = [] \<or> kept = [] \<or> isBase (hd kept)"
  shows "\<exists>d. decodeBatches newDecoder (drop (length skipped) (fst (encodeBatches newEncoder (skipped @ kept)))) = Inr (kept, d)"
proof -
  obtain w e where 1: "encodeBatches newEncoder skipped = (w, e)" by (rule prod.exhaust)
  obtain w' e' where 2: "encodeBatches e kept = (w', e')" by (rule prod.exhaust)
  have "length w = length skipped" using encodeBatches_length [of newEncoder skipped] 1 by simp
  then have "drop (length skipped) (fst (encodeBatches newEncoder (skipped @ kept))) = w'"
    using 1 2 by (simp add: encodeBatches_append)
  moreover have "synced e newDecoder \<or> kept = [] \<or> isBase (hd kept)" using assms(2) 1 synced_new by auto
  ultimately show ?thesis using encodeBatches_decodes [OF assms(1) _ 2] by simp
qed

text \<open>A batch before the last base, which the reader does not see, and two after it: the path is defined on its second use.\<close>

theorem codec_roundtrip_witness:
  "fst (encodeBatches newEncoder [[Replace (JObj []), At [Key ''t''] (AppendText ''a''), At [Key ''t''] (AppendText ''b'')],
        [At [Key ''t''] (Trim 1), At [Key ''s''] (SetTo JNull)]]) =
     [[WReplace (JObj []), WEdit (Some (AtPath [Key ''t''])) (AppendText ''a''), WEdit None (AppendText ''b'')],
      [WDefine 0 [Key ''t''], WEdit (Some (AtId 0)) (Trim 1), WEdit (Some (AtPath [Key ''s''])) (SetTo JNull)]] \<and>
   (\<exists>d. decodeBatches newDecoder (drop (length [[At [Key ''t''] Delete]])
       (fst (encodeBatches newEncoder ([[At [Key ''t''] Delete]] @
         [[Replace (JObj []), At [Key ''t''] (AppendText ''a''), At [Key ''t''] (AppendText ''b'')],
          [At [Key ''t''] (Trim 1), At [Key ''s''] (SetTo JNull)]])))) =
     Inr ([[Replace (JObj []), At [Key ''t''] (AppendText ''a''), At [Key ''t''] (AppendText ''b'')],
          [At [Key ''t''] (Trim 1), At [Key ''s''] (SetTo JNull)]], d))"
proof (rule conjI)
  show "fst (encodeBatches newEncoder [[Replace (JObj []), At [Key ''t''] (AppendText ''a''), At [Key ''t''] (AppendText ''b'')],
        [At [Key ''t''] (Trim 1), At [Key ''s''] (SetTo JNull)]]) =
     [[WReplace (JObj []), WEdit (Some (AtPath [Key ''t''])) (AppendText ''a''), WEdit None (AppendText ''b'')],
      [WDefine 0 [Key ''t''], WEdit (Some (AtId 0)) (Trim 1), WEdit (Some (AtPath [Key ''s''])) (SetTo JNull)]]"
    by (simp add: encode_def newEncoder_def pathKey_inject Let_def)
next
  show "\<exists>d. decodeBatches newDecoder (drop (length [[At [Key ''t''] Delete]])
       (fst (encodeBatches newEncoder ([[At [Key ''t''] Delete]] @
         [[Replace (JObj []), At [Key ''t''] (AppendText ''a''), At [Key ''t''] (AppendText ''b'')],
          [At [Key ''t''] (Trim 1), At [Key ''s''] (SetTo JNull)]])))) =
     Inr ([[Replace (JObj []), At [Key ''t''] (AppendText ''a''), At [Key ''t''] (AppendText ''b'')],
          [At [Key ''t''] (Trim 1), At [Key ''s''] (SetTo JNull)]], d)"
    by (rule codec_roundtrip) (simp_all add: assertPathArg_def RESERVED_SEGMENTS_def isBase_def isReplace_def)
qed

end
