(* ===== verification/State_Codec.thy ===== *)
theory State_Codec
  imports Replicated_State Delta_Codec
begin

text \<open>
  The codecs of a service subscription, \<open>packages/chord/src/services/state-codec.ts\<close>: one encoder, and on the other side
  one decoder, for every state member of every live instance, kept in a registry under the key of the member. Snapshots
  and the updates that carry one create codecs, updates of a state use them, and a closed instance gives its own back.
\<close>

datatype codec_error =
    DuplicateState string
  | UnknownState string
  | BadOps delta_error

section \<open>The registry\<close>

type_synonym 'c registry = "(string \<times> address option \<times> 'c) list"

definition stateKey :: "address option \<Rightarrow> string \<Rightarrow> string" where
  "stateKey inst member =
     stringify (JArr [(case inst of None \<Rightarrow> JNull | Some (k, _) \<Rightarrow> JStr k),
                      (case inst of None \<Rightarrow> JNull | Some (_, g) \<Rightarrow> JNum (int g)), JStr member])"

text \<open>\<open>add\<close> and the use of the codec it returns: the codec is put into the registry as it is after its first use.\<close>

definition addCodec :: "address option \<Rightarrow> string \<Rightarrow> 'c \<Rightarrow> 'c registry \<Rightarrow> codec_error + 'c registry" where
  "addCodec inst member codec reg =
     (if stateKey inst member \<in> set (map fst reg) then Inl (DuplicateState (stateKey inst member))
      else Inr (AList.update (stateKey inst member) (inst, codec) reg))"

definition getCodec :: "address option \<Rightarrow> string \<Rightarrow> 'c registry \<Rightarrow> codec_error + 'c" where
  "getCodec inst member reg =
     (case map_of reg (stateKey inst member) of None \<Rightarrow> Inl (UnknownState (stateKey inst member)) | Some (_, c) \<Rightarrow> Inr c)"

definition putCodec :: "address option \<Rightarrow> string \<Rightarrow> 'c \<Rightarrow> 'c registry \<Rightarrow> 'c registry" where
  "putCodec inst member codec reg =
     map (\<lambda>(k, i, c). if k = stateKey inst member then (k, i, codec) else (k, i, c)) reg"

definition removeInstance :: "address \<Rightarrow> 'c registry \<Rightarrow> 'c registry" where
  "removeInstance a reg = filter (\<lambda>(_, i, _). i \<noteq> Some a) reg"

section \<open>The wire\<close>

datatype wire_member =
    WMethod string
  | WState string nat "wire_op list"

record wire_instance =
  wi_instance :: "address option"
  wi_members :: "wire_member list"

datatype wire_update =
    WStateUpdate "address option" string nat "wire_op list"
  | WUnavailable
  | WReplaced wire_instance
  | WSpawned wire_instance
  | WClosed address

fun codec_bind :: "codec_error + 'a \<Rightarrow> ('a \<Rightarrow> codec_error + 'b) \<Rightarrow> codec_error + 'b" where
  "codec_bind (Inl err) f = Inl err"
| "codec_bind (Inr x) f = f x"

lemma codec_bind_Inr_iff [simp]: "codec_bind r f = Inr y \<longleftrightarrow> (\<exists>x. r = Inr x \<and> f x = Inr y)"
  by (cases r) auto

text \<open>\<open>map\<close> with a function that changes the registry and may throw.\<close>

fun mapCodecs :: "('a \<Rightarrow> 'r \<Rightarrow> codec_error + ('b \<times> 'r)) \<Rightarrow> 'a list \<Rightarrow> 'r \<Rightarrow> codec_error + ('b list \<times> 'r)" where
  "mapCodecs f [] reg = Inr ([], reg)"
| "mapCodecs f (x # xs) reg =
     codec_bind (f x reg) (\<lambda>(y, reg'). codec_bind (mapCodecs f xs reg') (\<lambda>(ys, reg''). Inr (y # ys, reg'')))"

section \<open>Encoding\<close>

fun encodeMember :: "address option \<Rightarrow> member_snapshot \<Rightarrow> encoder_state registry \<Rightarrow>
    codec_error + (wire_member \<times> encoder_state registry)" where
  "encodeMember inst (MethodMember name) reg = Inr (WMethod name, reg)"
| "encodeMember inst (StateMember name n ops) reg =
     (let p = encode newEncoder ops
      in codec_bind (addCodec inst name (snd p) reg) (\<lambda>reg'. Inr (WState name n (fst p), reg')))"

definition encodeInstance :: "instance_snapshot \<Rightarrow> encoder_state registry \<Rightarrow> codec_error + (wire_instance \<times> encoder_state registry)" where
  "encodeInstance snapshot reg =
     codec_bind (mapCodecs (encodeMember (is_instance snapshot)) (is_members snapshot) reg)
       (\<lambda>(ms, reg'). Inr (\<lparr>wi_instance = is_instance snapshot, wi_members = ms\<rparr>, reg'))"

definition encodeSnapshot :: "instance_snapshot list \<Rightarrow> encoder_state registry \<Rightarrow> codec_error + (wire_instance list \<times> encoder_state registry)" where
  "encodeSnapshot instances reg = mapCodecs encodeInstance instances []"

fun encodeUpdate :: "provider_update \<Rightarrow> encoder_state registry \<Rightarrow> codec_error + (wire_update \<times> encoder_state registry)" where
  "encodeUpdate (StateUpdate inst member n ops) reg =
     codec_bind (getCodec inst member reg) (\<lambda>e.
       let p = encode e ops in Inr (WStateUpdate inst member n (fst p), putCodec inst member (snd p) reg))"
| "encodeUpdate (Replaced snapshot) reg = codec_bind (encodeInstance snapshot []) (\<lambda>(w, reg'). Inr (WReplaced w, reg'))"
| "encodeUpdate (Spawned snapshot) reg = codec_bind (encodeInstance snapshot reg) (\<lambda>(w, reg'). Inr (WSpawned w, reg'))"
| "encodeUpdate Unavailable reg = Inr (WUnavailable, [])"
| "encodeUpdate (Closed a) reg = Inr (WClosed a, removeInstance a reg)"

section \<open>Decoding\<close>

definition decodeWith :: "decoder_state \<Rightarrow> wire_op list \<Rightarrow> codec_error + (delta_op list \<times> decoder_state)" where
  "decodeWith d w = (case decode d w of Inl err \<Rightarrow> Inl (BadOps err) | Inr p \<Rightarrow> Inr p)"

fun decodeMember :: "address option \<Rightarrow> wire_member \<Rightarrow> decoder_state registry \<Rightarrow>
    codec_error + (member_snapshot \<times> decoder_state registry)" where
  "decodeMember inst (WMethod name) reg = Inr (MethodMember name, reg)"
| "decodeMember inst (WState name n w) reg =
     codec_bind (addCodec inst name newDecoder reg) (\<lambda>_.
     codec_bind (decodeWith newDecoder w) (\<lambda>(ops, d).
     codec_bind (addCodec inst name d reg) (\<lambda>reg'. Inr (StateMember name n ops, reg'))))"

definition decodeInstance :: "wire_instance \<Rightarrow> decoder_state registry \<Rightarrow> codec_error + (instance_snapshot \<times> decoder_state registry)" where
  "decodeInstance w reg =
     codec_bind (mapCodecs (decodeMember (wi_instance w)) (wi_members w) reg)
       (\<lambda>(ms, reg'). Inr (\<lparr>is_instance = wi_instance w, is_members = ms\<rparr>, reg'))"

definition decodeSnapshot :: "wire_instance list \<Rightarrow> decoder_state registry \<Rightarrow> codec_error + (instance_snapshot list \<times> decoder_state registry)" where
  "decodeSnapshot instances reg = mapCodecs decodeInstance instances []"

fun decodeUpdate :: "wire_update \<Rightarrow> decoder_state registry \<Rightarrow> codec_error + (provider_update \<times> decoder_state registry)" where
  "decodeUpdate (WStateUpdate inst member n w) reg =
     codec_bind (getCodec inst member reg) (\<lambda>d.
     codec_bind (decodeWith d w) (\<lambda>(ops, d'). Inr (StateUpdate inst member n ops, putCodec inst member d' reg)))"
| "decodeUpdate (WReplaced w) reg = codec_bind (decodeInstance w []) (\<lambda>(s, reg'). Inr (Replaced s, reg'))"
| "decodeUpdate (WSpawned w) reg = codec_bind (decodeInstance w reg) (\<lambda>(s, reg'). Inr (Spawned s, reg'))"
| "decodeUpdate WUnavailable reg = Inr (Unavailable, [])"
| "decodeUpdate (WClosed a) reg = Inr (Closed a, removeInstance a reg)"

section \<open>The two sides agree\<close>

text \<open>The registries hold the same members in the same order, with codecs that agree.\<close>

definition entryAgrees :: "string \<times> address option \<times> encoder_state \<Rightarrow> string \<times> address option \<times> decoder_state \<Rightarrow> bool" where
  "entryAgrees x y \<longleftrightarrow> (case x of (k, i, e) \<Rightarrow> case y of (k', i', d) \<Rightarrow> k = k' \<and> i = i' \<and> synced e d)"

abbreviation agree :: "encoder_state registry \<Rightarrow> decoder_state registry \<Rightarrow> bool" where
  "agree \<equiv> list_all2 entryAgrees"

definition validOps :: "delta_op list \<Rightarrow> bool" where
  "validOps ops \<longleftrightarrow> (\<forall>op \<in> set ops. assertValidOp op = Inr ())"

fun validMember :: "member_snapshot \<Rightarrow> bool" where
  "validMember (MethodMember _) = True"
| "validMember (StateMember _ _ ops) = validOps ops"

definition validInstance :: "instance_snapshot \<Rightarrow> bool" where
  "validInstance s \<longleftrightarrow> (\<forall>m \<in> set (is_members s). validMember m)"

fun validUpdate :: "provider_update \<Rightarrow> bool" where
  "validUpdate (StateUpdate _ _ _ ops) = validOps ops"
| "validUpdate (Replaced s) = validInstance s"
| "validUpdate (Spawned s) = validInstance s"
| "validUpdate _ = True"

lemma agree_keys: "agree es ds \<Longrightarrow> map fst es = map fst ds"
  by (induction rule: list_all2_induct) (auto simp: entryAgrees_def)

lemma agree_add:
  assumes "agree es ds" and "addCodec inst name e es = Inr es'" and "synced e d"
  shows "\<exists>ds'. addCodec inst name d ds = Inr ds' \<and> agree es' ds'"
proof -
  have fresh: "stateKey inst name \<notin> set (map fst es)" and es': "es' = es @ [(stateKey inst name, inst, e)]"
    using assms(2) by (auto simp: addCodec_def update_fresh split: if_splits)
  have "stateKey inst name \<notin> set (map fst ds)" using fresh agree_keys [OF assms(1)] by simp
  then have "addCodec inst name d ds = Inr (ds @ [(stateKey inst name, inst, d)])"
    by (simp add: addCodec_def update_fresh)
  then show ?thesis using assms(1,3) es' by (auto simp: entryAgrees_def list_all2_appendI)
qed

lemma agree_get:
  assumes "agree es ds" and "getCodec inst name es = Inr e"
  shows "\<exists>d. getCodec inst name ds = Inr d \<and> synced e d"
  using assms
proof (induction rule: list_all2_induct)
  case (Cons x xs y ys)
  then show ?case by (cases x; cases y) (auto simp: entryAgrees_def getCodec_def split: if_splits)
qed (simp add: getCodec_def)

lemma agree_put: "agree es ds \<Longrightarrow> synced e d \<Longrightarrow> agree (putCodec inst name e es) (putCodec inst name d ds)"
  unfolding putCodec_def
  by (induction rule: list_all2_induct) (auto simp: entryAgrees_def split: if_splits)

lemma agree_remove: "agree es ds \<Longrightarrow> agree (removeInstance a es) (removeInstance a ds)"
  unfolding removeInstance_def by (induction rule: list_all2_induct) (auto simp: entryAgrees_def)

lemma decodeWith_encode:
  assumes "validOps ops" and "synced e d" and "encode e ops = (w, e')"
  shows "\<exists>d'. decodeWith d w = Inr (ops, d') \<and> synced e' d'"
  using encode_decodes [OF _ _ assms(3), of d] assms(1,2) by (auto simp: validOps_def decodeWith_def)

text \<open>What the two sides of a codec promise for one item, and what follows for a sequence of items.\<close>

locale stream_codec =
  fixes enc :: "'x \<Rightarrow> encoder_state registry \<Rightarrow> codec_error + ('w \<times> encoder_state registry)"
    and dec :: "'w \<Rightarrow> decoder_state registry \<Rightarrow> codec_error + ('x \<times> decoder_state registry)"
    and valid :: "'x \<Rightarrow> bool"
  assumes item: "valid x \<Longrightarrow> agree es ds \<Longrightarrow> enc x es = Inr (w, es') \<Longrightarrow> \<exists>ds'. dec w ds = Inr (x, ds') \<and> agree es' ds'"
begin

lemma items:
  assumes "\<forall>x \<in> set xs. valid x" and "agree es ds" and "mapCodecs enc xs es = Inr (ws, es')"
  shows "\<exists>ds'. mapCodecs dec ws ds = Inr (xs, ds') \<and> agree es' ds'"
  using assms
proof (induction xs arbitrary: es ds ws)
  case (Cons x xs)
  from Cons.prems(3) obtain w es1 ws1 where 1: "enc x es = Inr (w, es1)" "mapCodecs enc xs es1 = Inr (ws1, es')" "ws = w # ws1"
    by auto
  have "valid x" and rest: "\<forall>x \<in> set xs. valid x" using Cons.prems(1) by simp_all
  from item [OF this(1) Cons.prems(2) 1(1)] obtain ds1 where 2: "dec w ds = Inr (x, ds1)" "agree es1 ds1" by blast
  from Cons.IH [OF rest 2(2) 1(2)] show ?case using 1(3) 2(1) by auto
qed simp

end

lemma member_agrees:
  assumes "validMember m" and "agree es ds" and "encodeMember inst m es = Inr (w, es')"
  shows "\<exists>ds'. decodeMember inst w ds = Inr (m, ds') \<and> agree es' ds'"
proof (cases m)
  case (StateMember name n ops)
  obtain x e where p: "encode newEncoder ops = (x, e)" by (rule prod.exhaust)
  have add: "addCodec inst name e es = Inr es'" and w: "w = WState name n x"
    using assms(3) StateMember p by (auto simp: Let_def)
  obtain d where d: "decodeWith newDecoder x = Inr (ops, d)" "synced e d"
    using decodeWith_encode [OF _ synced_new p] assms(1) StateMember by auto
  obtain ds' where ds': "addCodec inst name d ds = Inr ds'" "agree es' ds'" using agree_add [OF assms(2) add d(2)] by blast
  have "\<exists>r. addCodec inst name newDecoder ds = Inr r" using ds'(1) by (auto simp: addCodec_def split: if_splits)
  then show ?thesis using d(1) ds' w StateMember by auto
qed (use assms in auto)

interpretation members: stream_codec "encodeMember inst" "decodeMember inst" validMember for inst
  by unfold_locales (rule member_agrees)

lemma instance_agrees:
  assumes "validInstance s" and "agree es ds" and "encodeInstance s es = Inr (w, es')"
  shows "\<exists>ds'. decodeInstance w ds = Inr (s, ds') \<and> agree es' ds'"
proof -
  obtain ms where ms: "mapCodecs (encodeMember (is_instance s)) (is_members s) es = Inr (ms, es')"
    "w = \<lparr>wi_instance = is_instance s, wi_members = ms\<rparr>" using assms(3) by (auto simp: encodeInstance_def)
  have "\<exists>ds'. mapCodecs (decodeMember (is_instance s)) ms ds = Inr (is_members s, ds') \<and> agree es' ds'"
    using members.items [OF _ assms(2) ms(1)] assms(1) by (simp add: validInstance_def)
  then show ?thesis using ms(2) by (auto simp: decodeInstance_def)
qed

interpretation instances: stream_codec encodeInstance decodeInstance validInstance
  by unfold_locales (rule instance_agrees)

lemma update_agrees:
  assumes "validUpdate u" and "agree es ds" and "encodeUpdate u es = Inr (w, es')"
  shows "\<exists>ds'. decodeUpdate w ds = Inr (u, ds') \<and> agree es' ds'"
proof (cases u)
  case (StateUpdate inst name n ops)
  then obtain e where e: "getCodec inst name es = Inr e" using assms(3) by auto
  obtain x e' where p: "encode e ops = (x, e')" by (rule prod.exhaust)
  have w: "w = WStateUpdate inst name n x" "es' = putCodec inst name e' es" using assms(3) StateUpdate e p by (auto simp: Let_def)
  obtain d where d: "getCodec inst name ds = Inr d" "synced e d" using agree_get [OF assms(2) e] by blast
  obtain d' where "decodeWith d x = Inr (ops, d')" "synced e' d'" using decodeWith_encode [OF _ d(2) p] assms(1) StateUpdate by auto
  then show ?thesis using d(1) w agree_put [OF assms(2)] StateUpdate by auto
next
  case (Replaced s)
  then show ?thesis using assms(1,3) instance_agrees [of s "[]" "[]"] by fastforce
next
  case (Spawned s)
  then show ?thesis using assms instance_agrees [of s es ds] by fastforce
qed (use assms agree_remove in auto)

interpretation updates: stream_codec encodeUpdate decodeUpdate validUpdate
  by unfold_locales (rule update_agrees)

text \<open>A subscription: its snapshot and its updates in order.\<close>

definition encodeSubscription :: "instance_snapshot list \<Rightarrow> provider_update list \<Rightarrow> codec_error + (wire_instance list \<times> wire_update list)" where
  "encodeSubscription snapshot updates =
     codec_bind (encodeSnapshot snapshot []) (\<lambda>(w, reg).
     codec_bind (mapCodecs encodeUpdate updates reg) (\<lambda>(ws, _). Inr (w, ws)))"

definition decodeSubscription :: "wire_instance list \<Rightarrow> wire_update list \<Rightarrow> codec_error + (instance_snapshot list \<times> provider_update list)" where
  "decodeSubscription snapshot updates =
     codec_bind (decodeSnapshot snapshot []) (\<lambda>(s, reg).
     codec_bind (mapCodecs decodeUpdate updates reg) (\<lambda>(us, _). Inr (s, us)))"

text \<open>
  C18 (subscription codec): whatever instances appear, are replaced, become unavailable or are closed in between, and
  whatever the order of the updates of their members, the decoders of a subscription give back its snapshot and its
  updates exactly as they were encoded: no member ever uses the path dictionary of another one or of a predecessor.
\<close>

theorem subscription_roundtrip:
  assumes "\<forall>s \<in> set snapshot. validInstance s" and "\<forall>u \<in> set updates. validUpdate u"
    and "encodeSubscription snapshot updates = Inr (w, ws)"
  shows "decodeSubscription w ws = Inr (snapshot, updates)"
proof -
  from assms(3) obtain es es' where 1: "mapCodecs encodeInstance snapshot [] = Inr (w, es)"
    "mapCodecs encodeUpdate updates es = Inr (ws, es')" by (auto simp: encodeSubscription_def encodeSnapshot_def)
  obtain ds where ds: "mapCodecs decodeInstance w [] = Inr (snapshot, ds)" "agree es ds"
    using instances.items [OF assms(1) _ 1(1)] by blast
  from updates.items [OF assms(2) ds(2) 1(2)]
  obtain ds' where "mapCodecs decodeUpdate ws ds = Inr (updates, ds')" by blast
  then show ?thesis using ds(1) by (auto simp: decodeSubscription_def decodeSnapshot_def)
qed

lemma stateKey_inject: "stateKey i m = stateKey j n \<longleftrightarrow> i = j \<and> m = n"
proof
  let ?tokens = "\<lambda>i m. [(case i of None \<Rightarrow> JNull | Some (k, _) \<Rightarrow> JStr k),
      (case i of None \<Rightarrow> JNull | Some (_, g) \<Rightarrow> JNum (int g)), JStr m]"
  assume "stateKey i m = stateKey j n"
  moreover have "list_all scalar (?tokens i m)" for i :: "address option" and m by (auto split: option.split)
  ultimately have "?tokens i m = ?tokens j n" unfolding stateKey_def by (intro stringify_scalars_inject)
  then show "i = j \<and> m = n" by (auto split: option.splits)
qed simp

text \<open>An instance comes back under its old key: its member gets a new dictionary, the other instance keeps its own.\<close>

definition sampleInstance :: "nat \<Rightarrow> instance_snapshot" where
  "sampleInstance g = \<lparr>is_instance = Some (''k'', g), is_members = [StateMember ''s'' 0 [Replace (JObj [])], MethodMember ''run'']\<rparr>"

definition sampleUpdates :: "provider_update list" where
  "sampleUpdates =
     [StateUpdate (Some (''k'', 1)) ''s'' 1 [At [Key ''a''] (SetTo JNull), At [Key ''a''] (SetTo JNull)],
      Closed (''k'', 1), Spawned (sampleInstance 2),
      StateUpdate (Some (''k'', 2)) ''s'' 1 [At [Key ''a''] (SetTo JNull)]]"

theorem subscription_roundtrip_witness:
  "\<exists>w ws. encodeSubscription [sampleInstance 1] sampleUpdates = Inr (w, ws) \<and>
     ws ! 0 = WStateUpdate (Some (''k'', 1)) ''s'' 1 [WEdit (Some (AtPath [Key ''a''])) (SetTo JNull), WEdit None (SetTo JNull)] \<and>
     ws ! 3 = WStateUpdate (Some (''k'', 2)) ''s'' 1 [WEdit (Some (AtPath [Key ''a''])) (SetTo JNull)] \<and>
     decodeSubscription w ws = Inr ([sampleInstance 1], sampleUpdates)"
proof -
  have "\<exists>w ws. encodeSubscription [sampleInstance 1] sampleUpdates = Inr (w, ws) \<and>
     ws ! 0 = WStateUpdate (Some (''k'', 1)) ''s'' 1 [WEdit (Some (AtPath [Key ''a''])) (SetTo JNull), WEdit None (SetTo JNull)] \<and>
     ws ! 3 = WStateUpdate (Some (''k'', 2)) ''s'' 1 [WEdit (Some (AtPath [Key ''a''])) (SetTo JNull)]"
    by (simp add: encodeSubscription_def encodeSnapshot_def encodeInstance_def sampleInstance_def sampleUpdates_def addCodec_def
        getCodec_def putCodec_def removeInstance_def stateKey_inject encode_def newEncoder_def pathKey_inject Let_def numeral_3_eq_3)
      (auto simp: stateKey_inject)
  moreover have "validInstance (sampleInstance g)" for g by (simp add: validInstance_def sampleInstance_def validOps_def)
  then have "\<forall>s \<in> set [sampleInstance 1]. validInstance s" "\<forall>u \<in> set sampleUpdates. validUpdate u"
    by (simp_all add: sampleUpdates_def validOps_def assertPathArg_def RESERVED_SEGMENTS_def)
  ultimately show ?thesis using subscription_roundtrip by blast
qed

end
