(* ===== verification/Replica_Properties.thy ===== *)
theory Replica_Properties
  imports Replicated_State
begin

text \<open>
  A replica follows its source: whatever the order of changes, publications, the subscription, its installation and the
  delivery of its buffer, as long as nothing is published while a buffer is being delivered, the replica holds the value
  the source had at the sequence number of the replica, no error is reported, and when everything has been delivered it
  holds the value of the source. A publication during that delivery loses the replica.
\<close>

section \<open>The source\<close>

definition heap :: "revision list \<Rightarrow> revision set" where
  "heap roots = (\<Union>r \<in> set roots. set (subs r))"

lemma heap_Cons: "heap (r # roots) = heap roots \<union> set (subs r)"
  by (auto simp: heap_def)

definition opsAt :: "revision list \<Rightarrow> nat \<Rightarrow> delta_op list" where
  "opsAt h k = diffRevisions (h ! (k - 1)) (h ! k)"

definition publicationAt :: "revision list \<Rightarrow> nat \<Rightarrow> publication" where
  "publicationAt h k = \<lparr>pb_value = h ! k, pb_ops = opsAt h k, pb_sequence = k\<rparr>"

definition updateAt :: "revision list \<Rightarrow> nat \<Rightarrow> provider_update" where
  "updateAt h k = StateUpdate None memberName k (opsAt h k)"

lemma opsAt_snoc: "k < length h \<Longrightarrow> opsAt (h @ [x]) k = opsAt h k"
proof -
  assume k: "k < length h"
  then have "k - 1 < length h" by simp
  then show ?thesis using k unfolding opsAt_def nth_append by simp
qed

lemma publications_snoc: "n \<le> length h \<Longrightarrow> map (publicationAt (h @ [x])) [m..<n] = map (publicationAt h) [m..<n]"
  by (simp add: publicationAt_def opsAt_snoc nth_append)

lemma updates_snoc: "n \<le> length h \<Longrightarrow> map (updateAt (h @ [x])) [m..<n] = map (updateAt h) [m..<n]"
  by (simp add: updateAt_def opsAt_snoc)

definition delivered :: "mutable_state \<Rightarrow> nat" where
  "delivered s = ms_sequence s - length (ms_publications s)"

definition sourceInv :: "mutable_state \<Rightarrow> revision list \<Rightarrow> revision list \<Rightarrow> bool" where
  "sourceInv s h roots \<longleftrightarrow>
     length h = Suc (ms_sequence s) \<and> h ! ms_sequence s = ms_value s \<and> storeOk (ms_store s) (heap roots) \<and>
     set h \<subseteq> heap roots \<and> length (ms_publications s) \<le> ms_sequence s \<and>
     ms_publications s = map (publicationAt h) [Suc (delivered s)..<Suc (ms_sequence s)]"

lemma sourceInvI:
  assumes "length h = Suc (ms_sequence s)" and "h ! ms_sequence s = ms_value s" and "storeOk (ms_store s) (heap roots)"
    and "set h \<subseteq> heap roots" and "length (ms_publications s) \<le> ms_sequence s"
    and "ms_publications s = map (publicationAt h) [Suc (delivered s)..<Suc (ms_sequence s)]"
  shows "sourceInv s h roots"
  using assms unfolding sourceInv_def by blast

lemma sourceInvD:
  assumes "sourceInv s h roots"
  shows "length h = Suc (ms_sequence s)" "h ! ms_sequence s = ms_value s" "storeOk (ms_store s) (heap roots)"
    "set h \<subseteq> heap roots" "length (ms_publications s) \<le> ms_sequence s"
    "ms_publications s = map (publicationAt h) [Suc (delivered s)..<Suc (ms_sequence s)]"
  using assms unfolding sourceInv_def by blast+

lemma commitNext_unchanged: "diffRevisions (ms_value s) r = [] \<Longrightarrow> commitNext r s = s"
  by (simp add: commitNext_def Let_def)

lemma commitNext_source:
  assumes inv: "sourceInv s h roots" and ok: "storeOk st (heap (r # roots))"
    and s'_def: "s' = commitNext r (s\<lparr>ms_store := st, ms_changing := c\<rparr>)"
  shows "sourceInv s' (h @ (if ms_sequence s' = ms_sequence s then [] else [ms_value s'])) (r # roots)"
    and "delivered s' = delivered s"
proof -
  let ?s = "s\<lparr>ms_store := st, ms_changing := c\<rparr>"
  have sub: "set h \<subseteq> heap (r # roots)" using inv by (auto simp: sourceInv_def heap_Cons)
  have d: "delivered s' = delivered s"
    by (simp add: delivered_def s'_def commitNext_def Let_def)
  then show "delivered s' = delivered s" .
  show "sourceInv s' (h @ (if ms_sequence s' = ms_sequence s then [] else [ms_value s'])) (r # roots)"
  proof (cases "diffRevisions (ms_value s) r = []")
    case True
    then have s': "s' = ?s" unfolding s'_def by (intro commitNext_unchanged) simp
    note D = sourceInvD [OF inv]
    have "sourceInv s' h (r # roots)"
    proof (intro sourceInvI)
      show "length (ms_publications s') \<le> ms_sequence s'" using D(5) s' by simp
      show "ms_publications s' = map (publicationAt h) [Suc (delivered s')..<Suc (ms_sequence s')]"
        using D(6) s' unfolding d by (simp del: upt_Suc)
    qed (use D(1,2) ok sub s' in simp_all)
    then show ?thesis using s' by simp
  next
    case False
    let ?n = "ms_sequence s"
    have s': "ms_sequence s' = Suc ?n" "ms_value s' = r" "ms_store s' = st"
      "ms_publications s' = ms_publications s @ [\<lparr>pb_value = r, pb_ops = diffRevisions (ms_value s) r, pb_sequence = Suc ?n\<rparr>]"
      using False by (simp_all add: s'_def commitNext_def Let_def)
    have len: "length h = Suc ?n" and val: "h ! ?n = ms_value s"
      and pubs: "ms_publications s = map (publicationAt h) [Suc (delivered s)..<Suc ?n]" using sourceInvD [OF inv] by blast+
    have new: "publicationAt (h @ [r]) (Suc ?n) = \<lparr>pb_value = r, pb_ops = diffRevisions (ms_value s) r, pb_sequence = Suc ?n\<rparr>"
      using len val by (simp add: publicationAt_def opsAt_def nth_append)
    have "delivered s \<le> ?n" by (simp add: delivered_def)
    then have "[Suc (delivered s)..<Suc (Suc ?n)] = [Suc (delivered s)..<Suc ?n] @ [Suc ?n]" by simp
    then have "map (publicationAt (h @ [r])) [Suc (delivered s)..<Suc (Suc ?n)] = ms_publications s'"
      using publications_snoc [of "Suc ?n" h r] len pubs new s'(4) by (simp del: upt_Suc)
    moreover have "r \<in> heap (r # roots)" by (simp add: heap_Cons)
    moreover have "length (ms_publications s') \<le> Suc ?n" using sourceInvD(5) [OF inv] s'(4) by simp
    ultimately show ?thesis using inv ok sub d s' len by (simp add: sourceInv_def nth_append del: upt_Suc)
  qed
qed

lemma nextPublication_source:
  assumes "sourceInv s h roots"
  shows "(nextPublication s = (None, s\<lparr>ms_delivering := False\<rparr>) \<and> delivered s = ms_sequence s) \<or>
    (\<exists>s'. nextPublication s = (Some (publicationAt h (Suc (delivered s))), s') \<and> sourceInv s' h roots \<and>
      delivered s' = Suc (delivered s) \<and> Suc (delivered s) \<le> ms_sequence s \<and> ms_sequence s' = ms_sequence s)"
proof (cases "ms_publications s")
  case Nil
  then show ?thesis by (simp add: nextPublication_def delivered_def)
next
  case (Cons p ps)
  have le: "length (ms_publications s) \<le> ms_sequence s"
    and pubs: "ms_publications s = map (publicationAt h) [Suc (delivered s)..<Suc (ms_sequence s)]"
    using sourceInvD [OF assms] by blast+
  have lt: "delivered s < ms_sequence s" using le Cons by (simp add: delivered_def)
  then have "[Suc (delivered s)..<Suc (ms_sequence s)] = Suc (delivered s) # [Suc (Suc (delivered s))..<Suc (ms_sequence s)]"
    by (subst upt_conv_Cons) simp_all
  then have p: "p = publicationAt h (Suc (delivered s))"
    and ps: "ps = map (publicationAt h) [Suc (Suc (delivered s))..<Suc (ms_sequence s)]"
    using pubs Cons by (simp_all del: upt_Suc)
  have d: "delivered (s\<lparr>ms_publications := ps\<rparr>) = Suc (delivered s)" using Cons le by (simp add: delivered_def)
  have "sourceInv (s\<lparr>ms_publications := ps\<rparr>) h roots"
  proof (intro sourceInvI)
    show "length (ms_publications (s\<lparr>ms_publications := ps\<rparr>)) \<le> ms_sequence (s\<lparr>ms_publications := ps\<rparr>)" using le Cons by simp
    show "ms_publications (s\<lparr>ms_publications := ps\<rparr>) =
        map (publicationAt h) [Suc (delivered (s\<lparr>ms_publications := ps\<rparr>))..<Suc (ms_sequence (s\<lparr>ms_publications := ps\<rparr>))]"
      using ps unfolding d by (simp del: upt_Suc)
  qed (use sourceInvD [OF assms] in simp_all)
  then show ?thesis using d lt p Cons by (simp add: nextPublication_def)
qed

text \<open>A local listener gets what is pending and newer than its hydration, in order and once.\<close>

lemma filter_upt: "filter (\<lambda>k. n < k) [m..<j] = [max (Suc n) m..<j]"
  by (induction j) (auto simp: max_def)

lemma local_listener_updates:
  assumes "sourceInv s h roots" and "ms_listeners s = [(l, n)]"
  shows "concat (map (\<lambda>p. localDeliveries p s) (ms_publications s)) =
    map (\<lambda>k. (l, h ! k, k)) [Suc (max n (delivered s))..<Suc (ms_sequence s)]"
proof -
  have each: "localDeliveries (publicationAt h k) s = (if n < k then [(l, h ! k, k)] else [])" for k
    using assms(2) by (simp add: localDeliveries_def publicationAt_def)
  have "concat (map (\<lambda>k. if n < k then [(l, h ! k, k)] else []) ks) = map (\<lambda>k. (l, h ! k, k)) (filter (\<lambda>k. n < k) ks)" for ks
    by (induction ks) auto
  moreover have "concat (map (\<lambda>p. localDeliveries p s) (ms_publications s)) =
      concat (map (\<lambda>k. if n < k then [(l, h ! k, k)] else []) [Suc (delivered s)..<Suc (ms_sequence s)])"
    unfolding sourceInvD(6) [OF assms(1)] map_map comp_def each ..
  ultimately show ?thesis by (simp only: filter_upt max_Suc_Suc)
qed

section \<open>One update\<close>

definition follows :: "revision list \<Rightarrow> nat \<Rightarrow> replica \<Rightarrow> bool" where
  "follows h n r \<longleftrightarrow>
     rp_sequence r = Some n \<and> (\<exists>v. rp_value r = Some v \<and> wfJson v \<and> meaning v = valueOf (h ! n))"

lemma heap_pair:
  assumes "storeOk st (heap roots)" and "set h \<subseteq> heap roots" and "i < length h" and "j < length h"
  shows "coherent (subs (h ! i) @ subs (h ! j)) \<and> wfJson (plain (h ! i)) \<and> wfJson (plain (h ! j))"
proof -
  have m: "h ! i \<in> heap roots" "h ! j \<in> heap roots" using assms(2-4) nth_mem by blast+
  then have "set (subs (h ! i)) \<subseteq> heap roots" "set (subs (h ! j)) \<subseteq> heap roots" using assms(1) unfolding storeOk_def by blast+
  then have "\<forall>x \<in> set (subs (h ! i) @ subs (h ! j)). \<forall>y \<in> set (subs (h ! i) @ subs (h ! j)). identical x y \<longrightarrow> x = y"
    using assms(1) unfolding storeOk_def by (metis (no_types, lifting) Un_iff set_append subsetD)
  then show ?thesis using m assms(1) unfolding coherent_def storeOk_def by blast
qed

lemma updateReplica_follows:
  assumes "storeOk st (heap roots)" and "set h \<subseteq> heap roots" and "Suc n < length h" and "follows h n r"
  shows "\<exists>ds r'. updateReplica (Suc n) (opsAt h (Suc n)) r = (Inr ds, r') \<and> follows h (Suc n) r'"
proof -
  obtain v where v: "rp_value r = Some v" "wfJson v" "meaning v = valueOf (h ! n)" "rp_sequence r = Some n"
    using assms(4) by (auto simp: follows_def)
  have "n < length h" using assms(3) by simp
  from heap_pair [OF assms(1,2) this assms(3)]
  obtain w where "applyImmutable (diffRevisions (h ! n) (h ! Suc n)) v = Inr w" "wfJson w" "meaning w = valueOf (h ! Suc n)"
    using diff_applies [OF _ _ _ v(2,3)] by blast
  then show ?thesis using v by (simp add: updateReplica_def opsAt_def follows_def Let_def)
qed

section \<open>The binding\<close>

definition coveredBy :: "nat \<Rightarrow> nat \<Rightarrow> sequences" where
  "coveredBy q d = (if d \<le> q then [(stateMemberKey None memberName, q)] else [])"

text \<open>\<open>q\<close> is the sequence number of the snapshot, \<open>d\<close> what the source has delivered and \<open>n\<close> where the replica is.\<close>

definition waiting :: "revision list \<Rightarrow> nat \<Rightarrow> nat \<Rightarrow> binding \<Rightarrow> subscriber \<Rightarrow> bool" where
  "waiting h d q b sub \<longleftrightarrow>
     bn_snapshot b = Some (q, [Replace (plain (h ! q))]) \<and> \<not> sb_active sub \<and> bn_flush b = [] \<and>
     sb_buffer sub = map (updateAt h) [Suc q..<Suc d] \<and> rp_value (bn_replica b) = None"

definition installed :: "revision list \<Rightarrow> nat \<Rightarrow> nat \<Rightarrow> binding \<Rightarrow> subscriber \<Rightarrow> bool" where
  "installed h d q b sub \<longleftrightarrow>
     bn_snapshot b = None \<and> sb_active sub \<and> sb_buffer sub = [] \<and>
     (\<exists>n. follows h n (bn_replica b) \<and> q \<le> n \<and> n \<le> max d q \<and> bn_flush b = map (updateAt h) [Suc n..<Suc d])"

definition linkInv :: "binding \<Rightarrow> bool" where
  "linkInv b \<longleftrightarrow>
     (case bn_subscriber b of
        None \<Rightarrow> bn_snapshot b = None \<and> bn_flush b = [] \<and> rp_value (bn_replica b) = None
      | Some sub \<Rightarrow>
          \<not> sb_closed sub \<and>
          (\<exists>q \<le> ms_sequence (bn_source b). sb_sequences sub = coveredBy q (delivered (bn_source b)) \<and>
             (waiting (bn_history b) (delivered (bn_source b)) q b sub \<or>
              installed (bn_history b) (delivered (bn_source b)) q b sub)))"

definition bindingInv :: "binding \<Rightarrow> bool" where
  "bindingInv b \<longleftrightarrow> sourceInv (bn_source b) (bn_history b) (bn_roots b) \<and> linkInv b \<and> bn_errors b = []"

text \<open>Values are well-formed, drafts respect the store, and nothing is published while a buffer is delivered.\<close>

definition calm :: "binding_event \<Rightarrow> binding \<Rightarrow> bool" where
  "calm e b =
     (case e of
        ReplaceSource v \<Rightarrow> wfJson v
      | EndChange (Some (v, txn)) \<Rightarrow> draftOk (ms_store (bn_source b)) (heap (bn_roots b)) v
      | Publish \<Rightarrow> bn_flush b = []
      | _ \<Rightarrow> True)"

inductive calmRun :: "json \<Rightarrow> binding \<Rightarrow> bool" for initial :: json where
  start: "wfJson initial \<Longrightarrow> calmRun initial (newBinding initial)"
| step: "calmRun initial b \<Longrightarrow> calm e b \<Longrightarrow> calmRun initial (perform e b)"

lemma follows_snoc: "n < length h \<Longrightarrow> follows (h @ xs) n r = follows h n r"
  by (simp add: follows_def nth_append)

lemma delivered_le: "delivered s \<le> ms_sequence s"
  by (simp add: delivered_def)

lemma linkInv_source:
  assumes link: "linkInv b" and len: "length (bn_history b) = Suc (ms_sequence (bn_source b))"
    and d: "delivered s = delivered (bn_source b)" and seq: "ms_sequence (bn_source b) \<le> ms_sequence s"
    and xs: "xs = [] \<or> (\<exists>x. xs = [x])"
  shows "linkInv (b\<lparr>bn_source := s, bn_history := bn_history b @ xs, bn_roots := roots\<rparr>)"
proof (cases "bn_subscriber b")
  case None
  then show ?thesis using link by (simp add: linkInv_def)
next
  case (Some sub)
  let ?h = "bn_history b" and ?d = "delivered (bn_source b)"
  obtain q where q: "q \<le> ms_sequence (bn_source b)" "sb_sequences sub = coveredBy q ?d" "\<not> sb_closed sub"
    "waiting ?h ?d q b sub \<or> installed ?h ?d q b sub" using link Some by (auto simp: linkInv_def)
  have lt: "q < length ?h" "Suc ?d \<le> length ?h" using q(1) len delivered_le [of "bn_source b"] by simp_all
  have map_eq: "map (updateAt (?h @ xs)) [m..<Suc ?d] = map (updateAt ?h) [m..<Suc ?d]" for m
    using xs updates_snoc [OF lt(2)] by (auto simp del: upt_Suc)
  have nth_eq: "(?h @ xs) ! q = ?h ! q" using lt(1) by (simp add: nth_append)
  have fol: "follows (?h @ xs) n r = follows ?h n r" if "n \<le> max ?d q" for n r
    using that lt by (intro follows_snoc) auto
  let ?b = "b\<lparr>bn_source := s, bn_history := ?h @ xs, bn_roots := roots\<rparr>"
  have "waiting ?h ?d q b sub \<Longrightarrow> waiting (?h @ xs) ?d q ?b sub"
    by (simp add: waiting_def map_eq nth_eq del: upt_Suc)
  moreover have "installed ?h ?d q b sub \<Longrightarrow> installed (?h @ xs) ?d q ?b sub"
    unfolding installed_def map_eq using fol by auto
  ultimately have "waiting (?h @ xs) ?d q ?b sub \<or> installed (?h @ xs) ?d q ?b sub" using q(4) by blast
  then have "\<not> sb_closed sub \<and> (\<exists>q \<le> ms_sequence s. sb_sequences sub = coveredBy q ?d \<and>
      (waiting (?h @ xs) ?d q ?b sub \<or> installed (?h @ xs) ?d q ?b sub))"
    using q(1-3) seq by (intro conjI exI [of _ q]) simp_all
  then show ?thesis using Some by (simp add: linkInv_def d)
qed

lemma withSource_inv:
  assumes inv: "bindingInv b" and ok: "storeOk st (heap (r # bn_roots b))"
    and s: "s = commitNext r ((bn_source b)\<lparr>ms_store := st, ms_changing := c\<rparr>)"
  shows "bindingInv (withSource s [r] b)"
proof -
  have src: "sourceInv (bn_source b) (bn_history b) (bn_roots b)" and link: "linkInv b" and err: "bn_errors b = []"
    using inv by (simp_all add: bindingInv_def)
  let ?xs = "if ms_sequence s = ms_sequence (bn_source b) then [] else [ms_value s]"
  have w: "withSource s [r] b = b\<lparr>bn_source := s, bn_history := bn_history b @ ?xs, bn_roots := r # bn_roots b\<rparr>"
    by (simp add: withSource_def)
  have 1: "sourceInv s (bn_history b @ ?xs) (r # bn_roots b)" and d: "delivered s = delivered (bn_source b)"
    using commitNext_source [OF src ok s] by simp_all
  have "ms_sequence (bn_source b) \<le> ms_sequence s" by (simp add: s commitNext_def Let_def)
  then have "linkInv (withSource s [r] b)" unfolding w
    using linkInv_source [OF link sourceInvD(1) [OF src] d] by auto
  then show ?thesis using 1 err unfolding w by (simp add: bindingInv_def)
qed

lemma sameSource_inv:
  assumes "bindingInv b" and "ms_sequence s = ms_sequence (bn_source b)" and "ms_value s = ms_value (bn_source b)"
    and "ms_store s = ms_store (bn_source b)" and "ms_publications s = ms_publications (bn_source b)"
  shows "bindingInv (b\<lparr>bn_source := s\<rparr>)"
proof -
  have d: "delivered s = delivered (bn_source b)" using assms by (simp add: delivered_def)
  have "sourceInv s (bn_history b) (bn_roots b)" using assms(1) unfolding bindingInv_def sourceInv_def assms(2-5) d by blast
  moreover have "linkInv (b\<lparr>bn_source := s\<rparr>)" using assms(1)
    by (simp add: bindingInv_def linkInv_def waiting_def installed_def d assms(2) del: upt_Suc cong: option.case_cong)
  ultimately show ?thesis using assms(1) by (simp add: bindingInv_def)
qed

lemma perform_ReplaceSource:
  assumes "bindingInv b" and "wfJson v"
  shows "bindingInv (perform (ReplaceSource v) b)"
proof (cases "ms_changing (bn_source b)")
  case False
  obtain st r where i: "importRevision v (ms_store (bn_source b)) = (st, r)" by (rule prod.exhaust)
  have "storeOk (ms_store (bn_source b)) (heap (bn_roots b))" using assms(1) sourceInvD(3) unfolding bindingInv_def by blast
  then have ok: "storeOk st (heap (r # bn_roots b))" using import_store [OF _ assms(2) i] by (simp add: heap_Cons)
  have "(bn_source b)\<lparr>ms_store := st\<rparr> = (bn_source b)\<lparr>ms_store := st, ms_changing := False\<rparr>"
    using False by (cases "bn_source b") simp
  then have "snd (replaceState v (bn_source b)) = commitNext r ((bn_source b)\<lparr>ms_store := st, ms_changing := False\<rparr>)"
    using i False by (simp only: replaceState_def Let_def if_False fst_conv snd_conv)
  from withSource_inv [OF assms(1) ok this] show ?thesis using i False by simp
qed (use assms in simp)

lemma perform_EndChange:
  assumes "bindingInv b" and "calm (EndChange produced) b"
  shows "bindingInv (perform (EndChange produced) b)"
proof (cases "ms_changing (bn_source b)")
  case True
  let ?s = "bn_source b"
  have same: "bindingInv (withSource (?s\<lparr>ms_changing := False\<rparr>) [] b)"
    using sameSource_inv [OF assms(1), of "?s\<lparr>ms_changing := False\<rparr>"] by (simp add: withSource_def)
  show ?thesis
  proof (cases produced)
    case None
    then show ?thesis using True same by (simp add: endChange_def)
  next
    case (Some p)
    then obtain v txn where p: "produced = Some (v, txn)" by (cases p) auto
    show ?thesis
    proof (cases "identical v (ms_value ?s)")
      case True
      then show ?thesis using \<open>ms_changing ?s\<close> p same by (simp add: endChange_def)
    next
      case False
      obtain st r where c: "commitRevision txn v (ms_store ?s) = (st, r)" by (rule prod.exhaust)
      have "storeOk (ms_store ?s) (heap (bn_roots b))" using assms(1) sourceInvD(3) unfolding bindingInv_def by blast
      moreover have "draftOk (ms_store ?s) (heap (bn_roots b)) v" using assms(2) p by (simp add: calm_def)
      ultimately have ok: "storeOk st (heap (r # bn_roots b))"
        using commit_coherent [OF _ _ c] by (simp add: heap_Cons)
      have "endChange produced ?s = commitNext r (?s\<lparr>ms_store := st, ms_changing := False\<rparr>)"
        using c False p by (simp add: endChange_def Let_def)
      from withSource_inv [OF assms(1) ok this] show ?thesis using c False True p by simp
    qed
  qed
qed (use assms in simp)

lemma perform_Subscribe:
  assumes "bindingInv b"
  shows "bindingInv (perform Subscribe b)"
proof (cases "bn_subscriber b")
  case None
  let ?s = "bn_source b"
  have src: "sourceInv ?s (bn_history b) (bn_roots b)" and link: "linkInv b" and err: "bn_errors b = []"
    using assms by (simp_all add: bindingInv_def)
  have val: "bn_history b ! ms_sequence ?s = ms_value ?s" by (rule sourceInvD(2) [OF src])
  have d: "delivered ?s \<le> ms_sequence ?s" by (rule delivered_le)
  let ?sub = "newSubscriber [snapshotInstance ?s]"
  have sub: "sb_sequences ?sub = coveredBy (ms_sequence ?s) (delivered ?s)" "\<not> sb_closed ?sub" "\<not> sb_active ?sub" "sb_buffer ?sub = []"
    using d by (simp_all add: newSubscriber_def snapshotInstance_def recordSnapshotSequences_def coveredBy_def)
  have "[Suc (ms_sequence ?s)..<Suc (delivered ?s)] = []" using d by simp
  then have "waiting (bn_history b) (delivered ?s) (ms_sequence ?s) (perform Subscribe b) ?sub"
    using link None val sub by (simp add: waiting_def linkInv_def del: upt_Suc)
  then have "linkInv (perform Subscribe b)"
    using sub None by (auto simp: linkInv_def intro!: exI [of _ "ms_sequence ?s"])
  then show ?thesis using src err None by (simp add: bindingInv_def)
qed (use assms in simp)

lemma hydrate_base: "hydrateReplica n [Replace v] r = (Inr (deliverAll Hydrated (r\<lparr>rp_sequence := Some n, rp_value := Some v\<rparr>)),
    r\<lparr>rp_sequence := Some n, rp_value := Some v\<rparr>)"
  by (simp add: hydrateReplica_def isBase_def isReplace_def applyImmutable_def applyOpImmutable_def Let_def)

lemma perform_Install:
  assumes "bindingInv b"
  shows "bindingInv (perform Install b)"
proof (cases "bn_snapshot b")
  case (Some snap)
  let ?h = "bn_history b" and ?d = "delivered (bn_source b)"
  have src: "sourceInv (bn_source b) ?h (bn_roots b)" and link: "linkInv b" and err: "bn_errors b = []"
    using assms by (simp_all add: bindingInv_def)
  obtain sub where sub: "bn_subscriber b = Some sub" using link Some by (cases "bn_subscriber b") (simp_all add: linkInv_def)
  obtain q where q: "q \<le> ms_sequence (bn_source b)" "sb_sequences sub = coveredBy q ?d" "\<not> sb_closed sub" "waiting ?h ?d q b sub"
    using link sub Some by (auto simp: linkInv_def installed_def)
  let ?r = "(bn_replica b)\<lparr>rp_sequence := Some q, rp_value := Some (plain (?h ! q))\<rparr>"
  let ?sub = "sub\<lparr>sb_active := True, sb_buffer := []\<rparr>"
  let ?b = "b\<lparr>bn_replica := ?r, bn_snapshot := None, bn_subscriber := Some ?sub, bn_flush := sb_buffer sub\<rparr>"
  have out: "perform Install b = ?b"
    using q(3,4) sub by (simp add: waiting_def hydrate_base beginActivate_def Let_def)
  have lt: "q < length ?h" using q(1) sourceInvD(1) [OF src] by simp
  have "wfJson (plain (?h ! q))" using heap_pair [OF sourceInvD(3,4) [OF src] lt lt] by blast
  then have "follows ?h q ?r" by (simp add: follows_def)
  then have "installed ?h ?d q ?b ?sub" using q(4) by (auto simp: installed_def waiting_def simp del: upt_Suc)
  then have "linkInv ?b" using q(1-3) by (auto simp: linkInv_def intro!: exI [of _ q])
  then show ?thesis unfolding out using src err by (simp add: bindingInv_def)
qed (use assms in simp)

lemma receive_follows:
  assumes src: "sourceInv s h roots" and n: "Suc n \<le> ms_sequence s" and f: "follows h n (bn_replica b)"
  shows "\<exists>r. receive (updateAt h (Suc n)) b = b\<lparr>bn_replica := r\<rparr> \<and> follows h (Suc n) r"
proof -
  have "Suc n < length h" using n sourceInvD(1) [OF src] by simp
  from updateReplica_follows [OF sourceInvD(3,4) [OF src] this f] obtain ds r where
    "updateReplica (Suc n) (opsAt h (Suc n)) (bn_replica b) = (Inr ds, r)" "follows h (Suc n) r" by blast
  then show ?thesis by (auto simp: receive_def updateAt_def reported_def Let_def)
qed

lemma perform_Flush:
  assumes "bindingInv b"
  shows "bindingInv (perform Flush b)"
proof (cases "bn_flush b")
  case (Cons u us)
  let ?h = "bn_history b" and ?d = "delivered (bn_source b)"
  have src: "sourceInv (bn_source b) ?h (bn_roots b)" and link: "linkInv b" and err: "bn_errors b = []"
    using assms by (simp_all add: bindingInv_def)
  obtain sub where sub: "bn_subscriber b = Some sub" using link Cons by (cases "bn_subscriber b") (simp_all add: linkInv_def)
  obtain q where q: "q \<le> ms_sequence (bn_source b)" "sb_sequences sub = coveredBy q ?d" "\<not> sb_closed sub" "installed ?h ?d q b sub"
    using link sub Cons by (auto simp: linkInv_def waiting_def)
  then obtain n where n: "follows ?h n (bn_replica b)" "q \<le> n" "n \<le> max ?d q" "bn_flush b = map (updateAt ?h) [Suc n..<Suc ?d]"
    by (auto simp: installed_def)
  have lt: "n < ?d"
  proof (rule ccontr)
    assume "\<not> n < ?d"
    then have "[Suc n..<Suc ?d] = []" by simp
    then show False using n(4) Cons by (simp del: upt_Suc)
  qed
  then have "[Suc n..<Suc ?d] = Suc n # [Suc (Suc n)..<Suc ?d]" by (subst upt_conv_Cons) simp_all
  then have u: "u = updateAt ?h (Suc n)" "us = map (updateAt ?h) [Suc (Suc n)..<Suc ?d]" using n(4) Cons by (simp_all del: upt_Suc)
  have "Suc n \<le> ms_sequence (bn_source b)" using lt delivered_le [of "bn_source b"] by simp
  from receive_follows [OF src this, of "b\<lparr>bn_flush := us\<rparr>"] n(1) obtain r where
    r: "receive u (b\<lparr>bn_flush := us\<rparr>) = b\<lparr>bn_flush := us, bn_replica := r\<rparr>" "follows ?h (Suc n) r" using u(1) by auto
  let ?b = "b\<lparr>bn_flush := us, bn_replica := r\<rparr>"
  have out: "perform Flush b = ?b" using Cons r(1) by simp
  have "installed ?h ?d q ?b sub" using q(4) r(2) u(2) n(2) lt
    by (auto simp: installed_def simp del: upt_Suc intro!: exI [of _ "Suc n"])
  then have "linkInv ?b" using q(1-3) sub by (auto simp: linkInv_def intro!: exI [of _ q])
  then show ?thesis unfolding out using src err by (simp add: bindingInv_def)
qed (use assms in simp)

lemma covered_next:
  "updateCoveredBySnapshot (coveredBy q d) (updateAt h (Suc d)) = (Suc d \<le> q, coveredBy q (Suc d))"
  by (auto simp: updateCoveredBySnapshot_def coveredBy_def updateAt_def Let_def)

lemma perform_Publish:
  assumes inv: "bindingInv b" and calm: "calm Publish b"
  shows "bindingInv (perform Publish b)"
proof -
  let ?s = "bn_source b" and ?h = "bn_history b" and ?d = "delivered (bn_source b)"
  have src: "sourceInv ?s ?h (bn_roots b)" and link: "linkInv b" and err: "bn_errors b = []"
    using inv by (simp_all add: bindingInv_def)
  have flush: "bn_flush b = []" using calm by (simp add: calm_def)
  from nextPublication_source [OF src] consider
    (none) "nextPublication ?s = (None, ?s\<lparr>ms_delivering := False\<rparr>)"
    | (some) s where "nextPublication ?s = (Some (publicationAt ?h (Suc ?d)), s)" "sourceInv s ?h (bn_roots b)"
      "delivered s = Suc ?d" "Suc ?d \<le> ms_sequence ?s" "ms_sequence s = ms_sequence ?s" by blast
  then show ?thesis
  proof cases
    case none
    then show ?thesis using sameSource_inv [OF inv, of "?s\<lparr>ms_delivering := False\<rparr>"] by simp
  next
    case some
    have u: "StateUpdate None memberName (pb_sequence (publicationAt ?h (Suc ?d))) (pb_ops (publicationAt ?h (Suc ?d))) = updateAt ?h (Suc ?d)"
      by (simp add: publicationAt_def updateAt_def)
    show ?thesis
    proof (cases "bn_subscriber b")
      case None
      then show ?thesis using some err link by (simp add: bindingInv_def linkInv_def)
    next
      case (Some sub)
      obtain q where q: "q \<le> ms_sequence ?s" "sb_sequences sub = coveredBy q ?d" "\<not> sb_closed sub"
        "waiting ?h ?d q b sub \<or> installed ?h ?d q b sub" using link Some by (auto simp: linkInv_def)
      have finish: "bindingInv c" if "c = b\<lparr>bn_source := s, bn_subscriber := Some sub', bn_replica := r\<rparr>" "\<not> sb_closed sub'"
          "sb_sequences sub' = coveredBy q (Suc ?d)" "waiting ?h (Suc ?d) q c sub' \<or> installed ?h (Suc ?d) q c sub'" for c sub' r
        using that some err q(1) by (auto simp: bindingInv_def linkInv_def intro!: exI [of _ q])
      let ?cov = "sub\<lparr>sb_sequences := coveredBy q (Suc ?d)\<rparr>"
      have same: "b\<lparr>bn_replica := bn_replica b\<rparr> = b" by simp
      show ?thesis
      proof (cases "Suc ?d \<le> q")
        case True
        have emit: "emitTo (updateAt ?h (Suc ?d)) sub = (None, ?cov)"
          using q(2,3) True by (simp add: emitTo_def covered_next)
        have empty: "[Suc n..<Suc ?d] = []" "[Suc n..<Suc (Suc ?d)] = []" if "q \<le> n" for n using that True by simp_all
        have out: "perform Publish b = b\<lparr>bn_source := s, bn_subscriber := Some ?cov\<rparr>"
          using some(1) Some emit u by simp
        have "waiting ?h ?d q b sub \<Longrightarrow> waiting ?h (Suc ?d) q (perform Publish b) ?cov"
          unfolding out by (simp add: waiting_def empty del: upt_Suc)
        moreover have "installed ?h ?d q b sub \<Longrightarrow> installed ?h (Suc ?d) q (perform Publish b) ?cov"
          unfolding out installed_def using True flush empty by (auto simp del: upt_Suc)
        ultimately show ?thesis using q(3,4) out by (intro finish [where sub' = ?cov and r = "bn_replica b"]) auto
      next
        case False
        then have dq: "q \<le> ?d" by simp
        from q(4) show ?thesis
        proof
          assume w: "waiting ?h ?d q b sub"
          let ?buf = "?cov\<lparr>sb_buffer := sb_buffer sub @ [updateAt ?h (Suc ?d)]\<rparr>"
          have emit: "emitTo (updateAt ?h (Suc ?d)) sub = (None, ?buf)"
            using q(2,3) False w by (simp add: emitTo_def covered_next waiting_def)
          have out: "perform Publish b = b\<lparr>bn_source := s, bn_subscriber := Some ?buf\<rparr>" using some(1) Some emit u by simp
          have "[Suc q..<Suc (Suc ?d)] = [Suc q..<Suc ?d] @ [Suc ?d]" using dq by simp
          then have "waiting ?h (Suc ?d) q (perform Publish b) ?buf"
            using w unfolding out by (simp add: waiting_def del: upt_Suc)
          then show ?thesis using q(3) out by (intro finish [where sub' = ?buf and r = "bn_replica b"]) auto
        next
          assume i: "installed ?h ?d q b sub"
          then obtain n where n: "follows ?h n (bn_replica b)" "q \<le> n" "n \<le> max ?d q" "bn_flush b = map (updateAt ?h) [Suc n..<Suc ?d]"
            "sb_active sub" by (auto simp: installed_def)
          have nd: "n = ?d"
          proof (rule ccontr)
            assume "n \<noteq> ?d"
            then have "[Suc n..<Suc ?d] \<noteq> []" using n(3) dq by simp
            then show False using n(4) flush by (simp del: upt_Suc)
          qed
          have emit: "emitTo (updateAt ?h (Suc ?d)) sub = (Some (updateAt ?h (Suc ?d)), ?cov)"
            using q(2,3) False n(5) by (simp add: emitTo_def covered_next)
          let ?b = "b\<lparr>bn_source := s, bn_subscriber := Some ?cov\<rparr>"
          from receive_follows [OF src some(4), of ?b] n(1) nd obtain r where
            r: "receive (updateAt ?h (Suc ?d)) ?b = ?b\<lparr>bn_replica := r\<rparr>" "follows ?h (Suc ?d) r" by auto
          have out: "perform Publish b = ?b\<lparr>bn_replica := r\<rparr>" using some(1) Some emit u r(1) by simp
          have "installed ?h (Suc ?d) q (perform Publish b) ?cov"
            unfolding out installed_def using i r(2) flush dq by (auto simp: installed_def intro!: exI [of _ "Suc ?d"])
          then show ?thesis using q(3) out by (intro finish [where sub' = ?cov and r = r]) auto
        qed
      qed
    qed
  qed
qed

lemma newBinding_inv:
  assumes "wfJson initial"
  shows "bindingInv (newBinding initial)"
proof -
  let ?st = "\<lparr>st_next = 0, st_owned = []\<rparr>"
  obtain st r where i: "importRevision initial ?st = (st, r)" by (rule prod.exhaust)
  have "storeOk ?st {}" by (simp add: storeOk_def)
  then have "storeOk st (heap [r])" using import_store [OF _ assms i, of "{}"] by (simp add: heap_def)
  moreover have "r \<in> heap [r]" by (simp add: heap_def)
  ultimately show ?thesis using i
    by (simp add: bindingInv_def newBinding_def newState_def Let_def sourceInv_def linkInv_def newReplica_def delivered_def)
qed

lemma calmRun_inv: "calmRun initial b \<Longrightarrow> bindingInv b"
proof (induction rule: calmRun.induct)
  case start
  then show ?case by (rule newBinding_inv)
next
  case (step b e)
  then show ?case
  proof (cases e)
    case (ReplaceSource v)
    then show ?thesis using perform_ReplaceSource step by (simp add: calm_def)
  next
    case BeginChange
    have "snd (beginChange (bn_source b)) = (bn_source b)\<lparr>ms_changing := True\<rparr>"
      by (cases "bn_source b") (simp add: beginChange_def)
    then show ?thesis using BeginChange sameSource_inv [OF step.IH, of "(bn_source b)\<lparr>ms_changing := True\<rparr>"] by simp
  qed (use step perform_EndChange perform_Publish perform_Subscribe perform_Install perform_Flush in blast)+
qed

section \<open>The replica follows the source\<close>

lemma binding_follows:
  assumes "bindingInv b"
  shows "rp_value (bn_replica b) = Some v \<Longrightarrow>
      \<exists>n \<le> ms_sequence (bn_source b). rp_sequence (bn_replica b) = Some n \<and> meaning v = meaning (plain (bn_history b ! n))"
    and "bn_subscriber b \<noteq> None \<Longrightarrow> bn_snapshot b = None \<Longrightarrow> bn_flush b = [] \<Longrightarrow> ms_publications (bn_source b) = [] \<Longrightarrow>
      follows (bn_history b) (ms_sequence (bn_source b)) (bn_replica b)"
proof -
  let ?h = "bn_history b" and ?d = "delivered (bn_source b)"
  have link: "linkInv b" using assms by (simp add: bindingInv_def)
  have at: "\<exists>n q. follows ?h n (bn_replica b) \<and> q \<le> n \<and> n \<le> max ?d q \<and> q \<le> ms_sequence (bn_source b) \<and>
      bn_flush b = map (updateAt ?h) [Suc n..<Suc ?d]"
    if "bn_subscriber b = Some sub" "bn_snapshot b = None \<or> rp_value (bn_replica b) \<noteq> None" for sub
    using link that unfolding linkInv_def waiting_def installed_def by fastforce
  {
    assume v: "rp_value (bn_replica b) = Some v"
    then obtain sub where "bn_subscriber b = Some sub" using link by (cases "bn_subscriber b") (simp_all add: linkInv_def)
    from at [OF this] v obtain n q where n: "follows ?h n (bn_replica b)" "n \<le> max ?d q" "q \<le> ms_sequence (bn_source b)" by auto
    then have "n \<le> ms_sequence (bn_source b)" using delivered_le [of "bn_source b"] by linarith
    then show "\<exists>n \<le> ms_sequence (bn_source b). rp_sequence (bn_replica b) = Some n \<and> meaning v = meaning (plain (?h ! n))"
      using n(1) v by (auto simp: follows_def)
  }
  {
    assume q: "bn_subscriber b \<noteq> None" "bn_snapshot b = None" "bn_flush b = []" "ms_publications (bn_source b) = []"
    then obtain sub where "bn_subscriber b = Some sub" by auto
    from at [OF this] q(2) obtain n q where n: "follows ?h n (bn_replica b)" "q \<le> n" "n \<le> max ?d q" "q \<le> ms_sequence (bn_source b)"
      "bn_flush b = map (updateAt ?h) [Suc n..<Suc ?d]" by auto
    have "?d = ms_sequence (bn_source b)" using q(4) by (simp add: delivered_def)
    moreover have "?d \<le> n" using n(5) q(3) by (cases "?d \<le> n") (simp_all del: upt_Suc)
    ultimately have "n = ms_sequence (bn_source b)" using n(3,4) by simp
    then show "follows ?h (ms_sequence (bn_source b)) (bn_replica b)" using n(1) by simp
  }
qed

text \<open>
  C15 (replication): in every calm run no error is reported; a hydrated replica holds the value the source had at the
  sequence number of the replica, up to the order of keys; and once the subscription is installed and everything that was
  published has been delivered, the replica holds the current value of the source.
\<close>

theorem replica_follows_source:
  assumes "calmRun initial b"
  shows "bn_errors b = [] \<and>
    (\<forall>v. rp_value (bn_replica b) = Some v \<longrightarrow>
      (\<exists>n \<le> ms_sequence (bn_source b). rp_sequence (bn_replica b) = Some n \<and> meaning v = meaning (plain (bn_history b ! n)))) \<and>
    (bn_subscriber b \<noteq> None \<and> bn_snapshot b = None \<and> bn_flush b = [] \<and> ms_publications (bn_source b) = [] \<longrightarrow>
      (\<exists>v. rp_value (bn_replica b) = Some v \<and> meaning v = meaning (plain (ms_value (bn_source b)))))"
proof -
  have inv: "bindingInv b" by (rule calmRun_inv [OF assms])
  then have "bn_history b ! ms_sequence (bn_source b) = ms_value (bn_source b)" "bn_errors b = []"
    using sourceInvD(2) unfolding bindingInv_def by blast+
  then show ?thesis using binding_follows [OF inv] by (auto simp: follows_def)
qed

text \<open>A counter: subscribed at 0, changed twice before the snapshot is installed.\<close>

definition counter :: "int \<Rightarrow> json" where
  "counter i = JObj [(''n'', JNum i)]"

lemma counter_delta:
  assumes "a \<noteq> b" and "i \<noteq> j" and "0 \<le> j" and "j < 10"
  shows "diffRevisions (RObj a [(''n'', RNum i)]) (RObj b [(''n'', RNum j)]) = [At [Key ''n''] (SetTo (JNum j))]"
proof -
  have "showInt j = [digitChar (nat j)]" using assms(3,4) by (simp add: showInt_def showNat.simps [of "nat j"])
  then show ?thesis using assms(1,2)
    by (simp add: diffRevisions_def diffValue.simps emitSet_def MAX_DELTA_OPERATIONS_def RESERVED_SEGMENTS_def isReplace_def pathCost_def)
qed

lemma counter_apply: "applyImmutable [At [Key ''n''] (SetTo (JNum j))] (JObj [(''n'', JNum i)]) = Inr (JObj [(''n'', JNum j)])"
  by (simp add: applyImmutable_def applyOpImmutable_def containerPath_def applyOp_def applyEdit_def assertPathArg_def
      RESERVED_SEGMENTS_def editValue_def)

definition counterAt :: "nat \<Rightarrow> int \<Rightarrow> revision" where
  "counterAt a i = RObj a [(''n'', RNum i)]"

lemma counter_import: "importRevision (counter i) st = (\<lparr>st_next = Suc (st_next st), st_owned = st_next st # st_owned st\<rparr>, counterAt (st_next st) i)"
  by (simp add: importRevision_def counter_def counterAt_def Let_def)

definition bufferedBinding :: binding where
  "bufferedBinding =
     foldl (\<lambda>b e. perform e b) (newBinding (counter 0))
       [Subscribe, ReplaceSource (counter 1), Publish, ReplaceSource (counter 2), Publish, Install]"

lemmas binding_eval = newBinding_def newState_def counter_import replaceState_def commitNext_def nextPublication_def
  newSubscriber_def snapshotInstance_def recordSnapshotSequences_def emitTo_def updateCoveredBySnapshot_def
  withSource_def hydrate_base beginActivate_def Let_def

fun calmAll :: "binding_event list \<Rightarrow> binding \<Rightarrow> bool" where
  "calmAll [] b = True"
| "calmAll (e # es) b = (calm e b \<and> calmAll es (perform e b))"

lemma calmAll_run: "calmRun initial b \<Longrightarrow> calmAll es b \<Longrightarrow> calmRun initial (foldl (\<lambda>b e. perform e b) b es)"
  by (induction es arbitrary: b) (auto intro: calmRun.step)

lemma buffered_value: "bufferedBinding =
  \<lparr>bn_source = \<lparr>ms_store = \<lparr>st_next = 3, st_owned = [2, 1, 0]\<rparr>, ms_value = counterAt 2 2, ms_sequence = 2, ms_publications = [],
     ms_changing = False, ms_delivering = True, ms_listeners = []\<rparr>,
   bn_subscriber = Some \<lparr>sb_buffer = [], sb_sequences = [], sb_active = True, sb_terminated = False, sb_closed = False\<rparr>,
   bn_snapshot = None,
   bn_flush = [StateUpdate None memberName 1 [At [Key ''n''] (SetTo (JNum 1))],
               StateUpdate None memberName 2 [At [Key ''n''] (SetTo (JNum 2))]],
   bn_replica = \<lparr>rp_value = Some (counter 0), rp_sequence = Some 0, rp_listeners = []\<rparr>, bn_errors = [],
   bn_history = [counterAt 0 0, counterAt 1 1, counterAt 2 2], bn_roots = [counterAt 2 2, counterAt 1 1, counterAt 0 0]\<rparr>"
  by (simp add: bufferedBinding_def binding_eval counter_delta counterAt_def newReplica_def numeral_2_eq_2 numeral_3_eq_3)
    (simp add: counter_def)

lemma buffered_calm: "calmRun (counter 0) bufferedBinding"
proof -
  have "calmRun (counter 0) (newBinding (counter 0))" by (rule calmRun.start) (simp add: counter_def)
  moreover have "wfJson (counter i)" for i by (simp add: counter_def)
  then have "calmAll [Subscribe, ReplaceSource (counter 1), Publish, ReplaceSource (counter 2), Publish, Install] (newBinding (counter 0))"
    by (simp add: calm_def binding_eval counter_delta counterAt_def)
  ultimately show ?thesis unfolding bufferedBinding_def by (rule calmAll_run)
qed

theorem replica_follows_source_witness:
  "let b = perform Flush (perform Flush bufferedBinding)
   in bn_errors b = [] \<and> ms_sequence (bn_source b) = 2 \<and>
      (\<exists>v. rp_value (bn_replica b) = Some v \<and> meaning v = meaning (plain (counterAt 2 2)))"
proof -
  let ?b = "perform Flush (perform Flush bufferedBinding)"
  have "calmRun (counter 0) ?b"
    by (intro calmRun.step buffered_calm) (simp_all add: calm_def)
  moreover have "bn_subscriber ?b \<noteq> None \<and> bn_snapshot ?b = None \<and> bn_flush ?b = [] \<and> ms_publications (bn_source ?b) = []"
    "ms_sequence (bn_source ?b) = 2" "ms_value (bn_source ?b) = counterAt 2 2"
    by (simp_all add: buffered_value receive_def Let_def)
  ultimately show ?thesis using replica_follows_source [of "counter 0" ?b] by (simp add: Let_def)
qed

text \<open>
  C20 (reentrant activation): activation marks the subscriber active before it delivers the buffered updates. A
  publication that arrives while that delivery is under way, because a listener of the replica changes the source, is
  delivered ahead of the rest of the buffer: the replica sees a gap and is cleared, whatever the state and the update.
\<close>

theorem publication_during_activation_clears_replica:
  assumes "calmRun initial b" and "bn_flush b \<noteq> []" and "ms_publications (bn_source b) \<noteq> []"
  shows "rp_value (bn_replica (perform Publish b)) = None \<and>
    bn_errors (perform Publish b) = [StateError ''Replicated state update sequence has a gap'']"
proof -
  let ?s = "bn_source b" and ?h = "bn_history b" and ?d = "delivered (bn_source b)"
  have inv: "bindingInv b" by (rule calmRun_inv [OF assms(1)])
  have src: "sourceInv ?s ?h (bn_roots b)" and link: "linkInv b" and err: "bn_errors b = []"
    using inv by (simp_all add: bindingInv_def)
  obtain sub where sub: "bn_subscriber b = Some sub" using link assms(2) by (cases "bn_subscriber b") (simp_all add: linkInv_def)
  obtain q where q: "sb_sequences sub = coveredBy q ?d" "\<not> sb_closed sub" "installed ?h ?d q b sub"
    using link sub assms(2) by (auto simp: linkInv_def waiting_def)
  then obtain n where n: "follows ?h n (bn_replica b)" "q \<le> n" "bn_flush b = map (updateAt ?h) [Suc n..<Suc ?d]" "sb_active sub"
    by (auto simp: installed_def)
  have lt: "n < ?d" using n(3) assms(2) by (cases "n < ?d") (simp_all del: upt_Suc)
  have "fst (nextPublication ?s) \<noteq> None" using assms(3) by (simp add: nextPublication_def split: list.split)
  then obtain s where s: "nextPublication ?s = (Some (publicationAt ?h (Suc ?d)), s)" using nextPublication_source [OF src] by auto
  have u: "StateUpdate None memberName (pb_sequence (publicationAt ?h (Suc ?d))) (pb_ops (publicationAt ?h (Suc ?d))) = updateAt ?h (Suc ?d)"
    by (simp add: publicationAt_def updateAt_def)
  let ?sub = "sub\<lparr>sb_sequences := coveredBy q (Suc ?d)\<rparr>"
  have "emitTo (updateAt ?h (Suc ?d)) sub = (Some (updateAt ?h (Suc ?d)), ?sub)"
    using q(1,2) lt n(2,4) by (simp add: emitTo_def covered_next)
  then have out: "perform Publish b = receive (updateAt ?h (Suc ?d)) (b\<lparr>bn_source := s, bn_subscriber := Some ?sub\<rparr>)"
    using s sub u by simp
  have "updateReplica (Suc ?d) (opsAt ?h (Suc ?d)) (bn_replica b) =
      (Inl (StateError ''Replicated state update sequence has a gap''), clearReplica (bn_replica b))"
    using n(1) lt by (auto simp: updateReplica_def follows_def)
  then show ?thesis unfolding out using err by (simp add: receive_def updateAt_def reported_def clearReplica_def Let_def)
qed

text \<open>One buffered update is delivered, its listener sets the counter to 3; the other buffered update then finds no value.\<close>

theorem publication_during_activation_clears_replica_witness:
  "let b = perform Publish (perform (ReplaceSource (counter 3)) (perform Flush bufferedBinding))
   in rp_value (bn_replica b) = None \<and> bn_errors b = [StateError ''Replicated state update sequence has a gap''] \<and>
      bn_errors (perform Flush b) = [StateError ''Replicated state update sequence has a gap'',
        StateError ''Replicated state received an update before hydration''] \<and>
      bn_flush (perform Flush b) = [] \<and> rp_value (bn_replica (perform Flush b)) = None"
proof -
  let ?a = "perform (ReplaceSource (counter 3)) (perform Flush bufferedBinding)"
  have "wfJson (counter 3)" by (simp add: counter_def)
  then have run: "calmRun (counter 0) ?a" by (intro calmRun.step buffered_calm) (simp_all add: calm_def)
  have one: "updateReplica (Suc 0) [At [Key ''n''] (SetTo (JNum 1))] \<lparr>rp_value = Some (counter 0), rp_sequence = Some 0, rp_listeners = []\<rparr> =
      (Inr [], \<lparr>rp_value = Some (counter 1), rp_sequence = Some (Suc 0), rp_listeners = []\<rparr>)"
    by (simp add: updateReplica_def counter_def counter_apply deliverAll_def Let_def)
  have a: "?a = \<lparr>bn_source = \<lparr>ms_store = \<lparr>st_next = 4, st_owned = [3, 2, 1, 0]\<rparr>, ms_value = counterAt 3 3, ms_sequence = 3,
       ms_publications = [\<lparr>pb_value = counterAt 3 3, pb_ops = [At [Key ''n''] (SetTo (JNum 3))], pb_sequence = 3\<rparr>],
       ms_changing = False, ms_delivering = True, ms_listeners = []\<rparr>,
     bn_subscriber = Some \<lparr>sb_buffer = [], sb_sequences = [], sb_active = True, sb_terminated = False, sb_closed = False\<rparr>,
     bn_snapshot = None, bn_flush = [StateUpdate None memberName 2 [At [Key ''n''] (SetTo (JNum 2))]],
     bn_replica = \<lparr>rp_value = Some (counter 1), rp_sequence = Some (Suc 0), rp_listeners = []\<rparr>, bn_errors = [],
     bn_history = [counterAt 0 0, counterAt 1 1, counterAt 2 2, counterAt 3 3],
     bn_roots = [counterAt 3 3, counterAt 2 2, counterAt 1 1, counterAt 0 0]\<rparr>"
    by (simp add: buffered_value receive_def one reported_def Let_def replaceState_def counter_import commitNext_def withSource_def
        counterAt_def counter_delta)
  define c where "c = perform Publish ?a"
  have lost: "rp_value (bn_replica c) = None" "bn_errors c = [StateError ''Replicated state update sequence has a gap'']"
    using publication_during_activation_clears_replica [OF run] unfolding c_def a by simp_all
  have flush: "bn_flush c = [StateUpdate None memberName 2 [At [Key ''n''] (SetTo (JNum 2))]]"
    unfolding c_def a by (simp add: nextPublication_def emitTo_def updateCoveredBySnapshot_def receive_def Let_def)
  have "bn_errors (perform Flush c) = [StateError ''Replicated state update sequence has a gap'',
      StateError ''Replicated state received an update before hydration''] \<and>
      bn_flush (perform Flush c) = [] \<and> rp_value (bn_replica (perform Flush c)) = None"
    using lost flush by (cases "rp_sequence (bn_replica c)") (simp_all add: receive_def updateReplica_def reported_def Let_def)
  then show ?thesis using lost by (simp only: c_def [symmetric] Let_def simp_thms)
qed

section \<open>Snapshot sequences\<close>

lemma startsWith_iff: "startsWith s p \<longleftrightarrow> (\<exists>r. s = p @ r)"
proof
  assume "startsWith s p"
  then have "s = p @ drop (length p) s" unfolding startsWith_def by (metis append_take_drop_id)
  then show "\<exists>r. s = p @ r" by blast
qed auto

lemma addressPrefix_eq: "addressPrefix (k, g) = ''['' @ stringify (JStr k) @ '','' @ stringify (JNum (int g)) @ '',''"
  by (simp add: addressPrefix_def butlast_append)

lemma stateMemberKey_eq:
  "stateMemberKey None m = ''['' @ stringify (JStr m) @ '']''"
  "stateMemberKey (Some (k, g)) m = ''['' @ stringify (JStr k) @ '','' @ stringify (JNum (int g)) @ '','' @ stringify (JStr m) @ '']''"
  by (simp_all add: stateMemberKey_def)

text \<open>The textual prefix of an address selects the keys of its members, and no others.\<close>

lemma addressPrefix_selects: "startsWith (stateMemberKey i m) (addressPrefix a) \<longleftrightarrow> i = Some a"
proof -
  obtain k g where a: "a = (k, g)" by (cases a)
  show ?thesis
  proof (cases i)
    case None
    have False if "stringify (JStr m) @ '']'' = stringify (JStr k) @ ('','' @ stringify (JNum (int g)) @ '','' @ r)" for r
      using scalar_delimited [OF _ _ _ _ that] by (simp add: delimited_def)
    then show ?thesis unfolding startsWith_iff a None addressPrefix_eq stateMemberKey_eq by auto
  next
    case (Some b)
    obtain k' g' where b: "b = (k', g')" by (cases b)
    have "k' = k \<and> g' = g"
      if eq: "stringify (JStr k') @ ('','' @ stringify (JNum (int g')) @ '','' @ stringify (JStr m) @ '']'') =
        stringify (JStr k) @ ('','' @ stringify (JNum (int g)) @ '','' @ r)" for r
    proof -
      from scalar_delimited [OF _ _ _ _ eq] have k: "k' = k"
        and rest: "stringify (JNum (int g')) @ ('','' @ stringify (JStr m) @ '']'') = stringify (JNum (int g)) @ ('','' @ r)"
        by (simp_all add: delimited_def)
      from scalar_delimited [OF _ _ _ _ rest] show ?thesis using k by (simp add: delimited_def)
    qed
    moreover have "startsWith (stateMemberKey (Some (k, g)) m) (addressPrefix (k, g))"
      unfolding startsWith_iff addressPrefix_eq stateMemberKey_eq by (intro exI [of _ "stringify (JStr m) @ '']''"]) simp
    ultimately show ?thesis unfolding a Some b startsWith_iff addressPrefix_eq stateMemberKey_eq by auto
  qed
qed

end
