(* ===== verification/Messages.thy ===== *)
theory Messages
  imports Prelude
begin

text \<open>
  The message model. Content blocks, usage records, stop reasons and the four provider roles are
  the types of \<open>packages/ai/src/types.ts\<close>; the five agent-side roles and the conversion to
  provider messages are \<open>packages/coding-agent/src/core/messages.ts\<close>; text extraction is
  \<open>packages/ai/src/utils/text.ts\<close>. One datatype \<open>agent_message\<close> holds all roles (the source's
  \<open>AgentMessage\<close>); \<open>isLlmMessage\<close> singles out the provider roles (the source's \<open>Message\<close>).
  Optional fields no modelled operation reads travel in the \<open>rest\<close> field of their record. An ISO
  timestamp string is represented by the millisecond instant it denotes.
\<close>

section \<open>Content blocks\<close>

record tool_call =
  tc_id :: string
  tc_name :: string
  tc_arguments :: "(string \<times> json) list"
  tc_thoughtSignature :: "string option"
  tc_namespace :: "string option"

datatype content_block =
    TextBlock string "string option" \<comment> \<open>text, textSignature\<close>
  | ThinkingBlock string "string option" bool \<comment> \<open>thinking, thinkingSignature, redacted\<close>
  | ImageBlock string string \<comment> \<open>data, mimeType\<close>
  | ToolCallBlock tool_call

datatype content = ContentString string | ContentBlocks "content_block list"

fun blockText :: "content_block \<Rightarrow> string option" where
  "blockText (TextBlock t _) = Some t"
| "blockText _ = None"

fun blockToolCall :: "content_block \<Rightarrow> tool_call option" where
  "blockToolCall (ToolCallBlock tc) = Some tc"
| "blockToolCall _ = None"

abbreviation plainText :: "string \<Rightarrow> content_block" where
  "plainText t \<equiv> TextBlock t None"

text \<open>\<open>contentText(content, separator)\<close>; the default separator is a newline.\<close>

fun contentTextSep :: "string \<Rightarrow> content \<Rightarrow> string" where
  "contentTextSep sep (ContentString s) = s"
| "contentTextSep sep (ContentBlocks bs) = join sep (List.map_filter blockText bs)"

abbreviation contentText :: "content \<Rightarrow> string" where
  "contentText \<equiv> contentTextSep newline"

text \<open>The tool calls of an assistant message, in order.\<close>

definition toolCallsOf :: "content_block list \<Rightarrow> tool_call list" where
  "toolCallsOf bs = List.map_filter blockToolCall bs"

section \<open>Usage and stop reasons\<close>

record usage_cost =
  co_input :: rat
  co_output :: rat
  co_cacheRead :: rat
  co_cacheWrite :: rat
  co_total :: rat

record usage =
  u_input :: nat
  u_output :: nat
  u_cacheRead :: nat
  u_cacheWrite :: nat
  u_cacheWrite1h :: "nat option"
  u_reasoning :: "nat option"
  u_totalTokens :: nat
  u_cost :: usage_cost

datatype stop_reason = Pending | Stop | Length | ToolUse | StopError | StopAborted | Deferred

section \<open>Tools and messages\<close>

text \<open>\<open>Tool\<close>; the schema is its JSON value. \<open>AgentTool\<close> extends the record (theory \<open>Agent_Loop\<close>).\<close>

record tool =
  t_name :: string
  t_description :: string
  t_parameters :: json
  t_constrainedSampling :: "json option"

record system_message =
  sys_content :: content
  sys_sections :: "(string \<times> string option) list option"
  sys_toolsAdded :: "tool list option"
  sys_toolsRemoved :: "string list option"
  sys_timestamp :: int

record user_message =
  um_content :: content
  um_timestamp :: int

record assistant_message =
  am_content :: "content_block list"
  am_api :: string
  am_provider :: string
  am_model :: string
  am_usage :: "usage option"
  am_stopReason :: stop_reason
  am_errorMessage :: "string option"
  am_timestamp :: int
  am_rest :: "(string \<times> json) list"

record tool_result_message =
  tr_toolCallId :: string
  tr_toolName :: string
  tr_content :: "content_block list"
  tr_details :: "json option"
  tr_usage :: "usage option"
  tr_isError :: bool
  tr_timestamp :: int

record bash_execution_message =
  be_command :: string
  be_output :: string
  be_exitCode :: "int option"
  be_cancelled :: bool
  be_truncated :: bool
  be_fullOutputPath :: "string option"
  be_timestamp :: int
  be_excludeFromContext :: bool

record custom_message =
  cm_customType :: string
  cm_content :: content
  cm_display :: bool
  cm_details :: "json option"
  cm_timestamp :: int

record branch_summary_message =
  bsm_summary :: string
  bsm_fromId :: "string option"
  bsm_timestamp :: int

record compaction_summary_message =
  csm_summary :: string
  csm_tokensBefore :: nat
  csm_timestamp :: int

record context_status_message =
  cs_content :: string
  cs_percent :: rat
  cs_timestamp :: int

text \<open>
  \<open>HookMessage\<close> is a message with the role \<open>hookMessage\<close> of session versions before 3 (the shape of a
  custom message under its old name); \<open>UnknownRole\<close> is any other role this version does not know.
\<close>

datatype agent_message =
    System system_message
  | User user_message
  | Assistant assistant_message
  | ToolResult tool_result_message
  | BashExecution bash_execution_message
  | Custom custom_message
  | BranchSummary branch_summary_message
  | CompactionSummary compaction_summary_message
  | ContextStatus context_status_message
  | HookMessage custom_message
  | UnknownRole string json

fun isSystem :: "agent_message \<Rightarrow> bool" where
  "isSystem (System _) = True"
| "isSystem _ = False"

fun isAssistant :: "agent_message \<Rightarrow> bool" where
  "isAssistant (Assistant _) = True"
| "isAssistant _ = False"

fun isToolResult :: "agent_message \<Rightarrow> bool" where
  "isToolResult (ToolResult _) = True"
| "isToolResult _ = False"

fun isContextStatus :: "agent_message \<Rightarrow> bool" where
  "isContextStatus (ContextStatus _) = True"
| "isContextStatus _ = False"

fun isLlmMessage :: "agent_message \<Rightarrow> bool" where
  "isLlmMessage (System _) = True"
| "isLlmMessage (User _) = True"
| "isLlmMessage (Assistant _) = True"
| "isLlmMessage (ToolResult _) = True"
| "isLlmMessage _ = False"

section \<open>System message text\<close>

definition nonEmpty :: "string \<Rightarrow> bool" where
  "nonEmpty s \<longleftrightarrow> s \<noteq> []"

definition blankLine :: string where
  "blankLine = newline @ newline"

definition getSystemMessageText :: "system_message \<Rightarrow> string" where
  "getSystemMessageText m =
     join blankLine
       (filter nonEmpty
         (contentText (sys_content m) #
          List.map_filter snd (case sys_sections m of None \<Rightarrow> [] | Some ss \<Rightarrow> ss)))"

definition renderSystemMessageUpdate :: "system_message \<Rightarrow> string" where
  "renderSystemMessageUpdate m =
     join blankLine
       (filter nonEmpty [contentText (sys_content m)] @
        map (\<lambda>(name, value). case value of
               None \<Rightarrow> ''Removed system prompt section '' @ [CHR 0x22] @ name @ [CHR 0x22] @ ''.''
             | Some v \<Rightarrow> ''Updated system prompt section '' @ [CHR 0x22] @ name @ [CHR 0x22] @ '':''
                          @ blankLine @ v)
          (case sys_sections m of None \<Rightarrow> [] | Some ss \<Rightarrow> ss))"

section \<open>Agent-side messages\<close>

definition COMPACTION_SUMMARY_PREFIX :: string where
  "COMPACTION_SUMMARY_PREFIX =
     ''The conversation history before this point was compacted into the following summary:''
     @ blankLine @ ''<summary>'' @ newline"

definition COMPACTION_SUMMARY_SUFFIX :: string where
  "COMPACTION_SUMMARY_SUFFIX = newline @ ''</summary>''"

definition BRANCH_SUMMARY_PREFIX :: string where
  "BRANCH_SUMMARY_PREFIX =
     ''The following is a summary of a branch that this conversation came back from:''
     @ blankLine @ ''<summary>'' @ newline"

definition BRANCH_SUMMARY_SUFFIX :: string where
  "BRANCH_SUMMARY_SUFFIX = ''</summary>''"

definition bashExecutionToText :: "bash_execution_message \<Rightarrow> string" where
  "bashExecutionToText m =
     ''Ran `'' @ be_command m @ ''`'' @ newline
     @ (if be_output m \<noteq> [] then ''```'' @ newline @ be_output m @ newline @ ''```'' else ''(no output)'')
     @ (if be_cancelled m then blankLine @ ''(command cancelled)''
        else case be_exitCode m of
               None \<Rightarrow> []
             | Some c \<Rightarrow> if c = 0 then [] else blankLine @ ''Command exited with code '' @ showInt c)
     @ (case be_fullOutputPath m of
          None \<Rightarrow> []
        | Some p \<Rightarrow> if be_truncated m \<and> p \<noteq> []
                    then blankLine @ ''[Output truncated. Full output: '' @ p @ '']'' else [])"

definition createBranchSummaryMessage :: "string \<Rightarrow> string \<Rightarrow> int \<Rightarrow> branch_summary_message" where
  "createBranchSummaryMessage summary fromId timestamp =
     \<lparr>bsm_summary = summary, bsm_fromId = Some fromId, bsm_timestamp = timestamp\<rparr>"

definition createCompactionSummaryMessage ::
  "string \<Rightarrow> nat \<Rightarrow> int \<Rightarrow> compaction_summary_message" where
  "createCompactionSummaryMessage summary tokensBefore timestamp =
     \<lparr>csm_summary = summary, csm_tokensBefore = tokensBefore, csm_timestamp = timestamp\<rparr>"

definition createCustomMessage ::
  "string \<Rightarrow> content \<Rightarrow> bool \<Rightarrow> json option \<Rightarrow> int \<Rightarrow> custom_message" where
  "createCustomMessage customType content display details timestamp =
     \<lparr>cm_customType = customType, cm_content = content, cm_display = display,
      cm_details = details, cm_timestamp = timestamp\<rparr>"

section \<open>Context status\<close>

definition CONTEXT_STATUS_TAG :: string where
  "CONTEXT_STATUS_TAG = ''[context-status]''"

definition CONTEXT_HYGIENE_CHECK_REQUIRED :: string where
  "CONTEXT_HYGIENE_CHECK_REQUIRED =
     ''CONTEXT HYGIENE CHECK REQUIRED: Before further substantive work, call list_context. Keep or summarize decisions and other state that would be costly to reconstruct. Prune closed or replaceable material. Do not wait for automatic compaction.''"

definition contextHygieneThresholdPercent :: "int \<Rightarrow> int \<Rightarrow> bool \<Rightarrow> rat" where
  "contextHygieneThresholdPercent contextWindow reserveTokens compactionEnabled =
     (if \<not> compactionEnabled \<or> contextWindow \<le> 0 then 80
      else let linePercent = (1 - of_int reserveTokens / of_int contextWindow) * 100
           in max 50 (min 80 (linePercent - 10)))"

text \<open>\<open>n.toLocaleString("en-US")\<close> of an integer: groups of three digits from the right.\<close>

fun groupDigits :: "string \<Rightarrow> string" where
  "groupDigits (a # b # c # d # ds) = a # b # c # CHR '','' # groupDigits (d # ds)"
| "groupDigits ds = ds"

definition toLocaleString :: "int \<Rightarrow> string" where
  "toLocaleString i =
     (if i < 0 then ''-'' else []) @ rev (groupDigits (rev (showNat (nat \<bar>i\<bar>))))"

text \<open>\<open>x.toFixed(1)\<close>: the closest multiple of one tenth, ties away from zero.\<close>

definition toFixed1 :: "rat \<Rightarrow> string" where
  "toFixed1 x =
     (let n = nat \<lfloor>\<bar>x\<bar> * 10 + 1 / 2\<rfloor>
      in (if x < 0 then ''-'' else []) @ showNat (n div 10) @ ''.'' @ showNat (n mod 10))"

definition formatContextStatus :: "int \<Rightarrow> int \<Rightarrow> rat \<Rightarrow> string" where
  "formatContextStatus contextWindow used percent =
     CONTEXT_STATUS_TAG @ '' window '' @ toLocaleString contextWindow @ '' '' @ [CHR 0xB7] @ '' used ''
     @ toLocaleString used @ '' ('' @ toFixed1 percent @ ''%)''"

definition createContextStatusMessage ::
  "int \<Rightarrow> int \<Rightarrow> rat \<Rightarrow> int \<Rightarrow> bool \<Rightarrow> context_status_message" where
  "createContextStatusMessage contextWindow used percent timestamp requireHygieneCheck =
     \<lparr>cs_content =
        (if requireHygieneCheck
         then formatContextStatus contextWindow used percent @ blankLine @ CONTEXT_HYGIENE_CHECK_REQUIRED
         else formatContextStatus contextWindow used percent),
      cs_percent = percent, cs_timestamp = timestamp\<rparr>"

section \<open>Conversion to provider messages\<close>

definition userText :: "string \<Rightarrow> int \<Rightarrow> agent_message" where
  "userText t ts = User \<lparr>um_content = ContentBlocks [plainText t], um_timestamp = ts\<rparr>"

fun convertMessage :: "agent_message \<Rightarrow> agent_message option" where
  "convertMessage (BashExecution m) =
     (if be_excludeFromContext m then None
      else Some (userText (bashExecutionToText m) (be_timestamp m)))"
| "convertMessage (Custom m) =
     Some (User \<lparr>um_content = (case cm_content m of
                    ContentString s \<Rightarrow> ContentBlocks [plainText s]
                  | ContentBlocks bs \<Rightarrow> ContentBlocks bs),
                 um_timestamp = cm_timestamp m\<rparr>)"
| "convertMessage (BranchSummary m) =
     Some (userText (BRANCH_SUMMARY_PREFIX @ bsm_summary m @ BRANCH_SUMMARY_SUFFIX) (bsm_timestamp m))"
| "convertMessage (CompactionSummary m) =
     Some (userText (COMPACTION_SUMMARY_PREFIX @ csm_summary m @ COMPACTION_SUMMARY_SUFFIX)
             (csm_timestamp m))"
| "convertMessage (ContextStatus m) = Some (userText (cs_content m) (cs_timestamp m))"
| "convertMessage (HookMessage _) = None"
| "convertMessage (UnknownRole _ _) = None"
| "convertMessage m = Some m"

definition convertToLlm :: "agent_message list \<Rightarrow> agent_message list" where
  "convertToLlm ms = List.map_filter convertMessage ms"

section \<open>Lemmas\<close>

lemma toolCallsOf_simps [simp]:
  "toolCallsOf [] = []"
  "toolCallsOf (b # bs) = (case blockToolCall b of None \<Rightarrow> toolCallsOf bs | Some tc \<Rightarrow> tc # toolCallsOf bs)"
  by (auto simp: toolCallsOf_def List.map_filter_def split: option.splits)

lemma map_filter_append: "List.map_filter f (xs @ ys) = List.map_filter f xs @ List.map_filter f ys"
  by (simp add: List.map_filter_def)

lemma convertMessage_llm: "convertMessage m = Some m' \<Longrightarrow> isLlmMessage m'"
  by (cases m) (auto simp: userText_def split: if_splits)

lemma convertMessage_id: "isLlmMessage m \<Longrightarrow> convertMessage m = Some m"
  by (cases m) auto

lemma convertToLlm_append: "convertToLlm (ms @ ms') = convertToLlm ms @ convertToLlm ms'"
  by (simp add: convertToLlm_def map_filter_append)

lemma convertToLlm_roles: "m \<in> set (convertToLlm ms) \<Longrightarrow> isLlmMessage m"
  by (auto simp: convertToLlm_def List.map_filter_def dest: convertMessage_llm)

lemma convertToLlm_llm: "(\<forall>m \<in> set ms. isLlmMessage m) \<Longrightarrow> convertToLlm ms = ms"
  by (induction ms) (auto simp: convertToLlm_def List.map_filter_def convertMessage_id)

lemma convertToLlm_system: "filter isSystem (convertToLlm ms) = filter isSystem ms"
proof (induction ms)
  case (Cons m ms)
  then show ?case
    by (cases m) (auto simp: convertToLlm_def List.map_filter_def userText_def)
qed (simp add: convertToLlm_def List.map_filter_def)

text \<open>
  \<open>convertToLlm\<close> yields provider roles only, is the identity on provider messages
  (so converting twice changes nothing), works message by message, and keeps every system message.
\<close>

theorem convertToLlm_correct:
  "list_all isLlmMessage (convertToLlm ms) \<and>
   convertToLlm (convertToLlm ms) = convertToLlm ms \<and>
   convertToLlm (ms @ ms') = convertToLlm ms @ convertToLlm ms' \<and>
   filter isSystem (convertToLlm ms) = filter isSystem ms"
  by (simp add: convertToLlm_append convertToLlm_system convertToLlm_llm convertToLlm_roles list_all_iff)

lemma contextHygieneThresholdPercent_bounds:
  "50 \<le> contextHygieneThresholdPercent w r e" "contextHygieneThresholdPercent w r e \<le> 80"
  by (auto simp: contextHygieneThresholdPercent_def Let_def)

lemma hygiene_line_tokens:
  assumes "0 < (w::int)"
  shows "of_int t / of_int w * 100 < (1 - of_int r / of_int w) * (100::rat) \<longleftrightarrow> t < w - r"
proof -
  have "(1 - of_int r / of_int w) * (100::rat) = of_int (w - r) / of_int w * 100"
    using assms by (simp add: field_simps)
  then show ?thesis
    using assms by (simp add: divide_less_cancel flip: of_int_diff)
qed

text \<open>
  The threshold always lies between 50 and 80 percent, and when compaction
  is enabled and the reserve is less than half the window, a context at the threshold is strictly
  below the auto-compaction line \<open>contextWindow - reserveTokens\<close>, so the instruction comes first.
\<close>

lemma hygiene_precedes_compaction:
  assumes "0 < w" and "2 * r < w" and "of_int t / of_int w * 100 \<le> contextHygieneThresholdPercent w r True"
  shows "50 \<le> contextHygieneThresholdPercent w r True \<and>
         contextHygieneThresholdPercent w r True \<le> 80 \<and> t < w - r"
proof -
  let ?line = "(1 - of_int r / of_int w) * (100::rat)"
  have "of_int (2 * r) < (of_int w :: rat)" using assms(2) by (simp only: of_int_less_iff)
  then have half: "of_int r / of_int w < (1 / 2 :: rat)" using assms(1) by (simp add: field_simps)
  define x where "x = of_int r / (of_int w :: rat)"
  from half have "x < 1 / 2" by (simp only: x_def)
  then have "50 < (1 - x) * 100" by (simp add: field_simps)
  then have "50 < ?line" by (simp only: x_def)
  then have "contextHygieneThresholdPercent w r True < ?line"
    using assms(1) by (auto simp: contextHygieneThresholdPercent_def Let_def)
  with assms show ?thesis
    using hygiene_line_tokens [of w t r]
    by (simp add: contextHygieneThresholdPercent_bounds)
qed

lemma hygiene_precedes_compaction_witness:
  "50 \<le> contextHygieneThresholdPercent 128000 16384 True \<and>
   contextHygieneThresholdPercent 128000 16384 True \<le> 80 \<and> (98000::int) < 128000 - 16384"
proof -
  have "contextHygieneThresholdPercent 128000 16384 True = 386 / 5"
    by (simp add: contextHygieneThresholdPercent_def Let_def)
  then show ?thesis
    using hygiene_precedes_compaction [of 128000 16384 98000]
    by simp
qed

end
