(* ===== verification/Transcript.thy ===== *)
theory Transcript
  imports Messages
begin

text \<open>
  Prompt and tool state as a transcript of system messages: \<open>packages/ai/src/utils/transcript.ts\<close>.
  The current tool set and the named prompt sections are replayed from the system messages in
  order; both replays are interpretations of \<open>keyed_log\<close>. A JSON round trip of a tool schema is
  the identity on the modelled schemas (they are JSON values), so \<open>toToolDeclaration\<close> only drops the
  executable fields an \<open>AgentTool\<close> adds.
\<close>

section \<open>Initial system message\<close>

definition createInitialSystemMessage :: "string option \<Rightarrow> tool list option \<Rightarrow> system_message option" where
  "createInitialSystemMessage systemPrompt tools =
     (let hasSystemPrompt = (case systemPrompt of None \<Rightarrow> False | Some p \<Rightarrow> p \<noteq> []);
          hasTools = (case tools of None \<Rightarrow> False | Some ts \<Rightarrow> ts \<noteq> [])
      in if \<not> hasSystemPrompt \<and> \<not> hasTools then None
         else Some \<lparr>sys_content = ContentString (case systemPrompt of None \<Rightarrow> [] | Some p \<Rightarrow> p),
                    sys_sections = None,
                    sys_toolsAdded = (if hasTools then tools else None),
                    sys_toolsRemoved = None, sys_timestamp = 0\<rparr>)"

text \<open>\<open>normalizeContext\<close> on \<open>{systemPrompt, messages, tools}\<close>\<close>

definition normalizeContext ::
  "string option \<Rightarrow> agent_message list \<Rightarrow> tool list option \<Rightarrow> agent_message list" where
  "normalizeContext systemPrompt messages tools =
     (case createInitialSystemMessage systemPrompt tools of
        None \<Rightarrow> messages
      | Some m \<Rightarrow> System m # messages)"

fun asSystem :: "agent_message \<Rightarrow> system_message option" where
  "asSystem (System m) = Some m"
| "asSystem _ = None"

text \<open>The loop header \<open>for (const message of messages) if (!isSystemMessage(message)) continue\<close>\<close>

definition systemsOf :: "agent_message list \<Rightarrow> system_message list" where
  "systemsOf ms = List.map_filter asSystem ms"

definition getInitialSystemMessage :: "agent_message list \<Rightarrow> system_message option" where
  "getInitialSystemMessage ms = (case ms of [] \<Rightarrow> None | m # _ \<Rightarrow> asSystem m)"

definition withoutInitialSystemMessage :: "agent_message list \<Rightarrow> agent_message list" where
  "withoutInitialSystemMessage ms =
     (case getInitialSystemMessage ms of None \<Rightarrow> ms | Some _ \<Rightarrow> tl ms)"

section \<open>Replay\<close>

definition listOf :: "'a list option \<Rightarrow> 'a list" where
  "listOf xs = (case xs of None \<Rightarrow> [] | Some ys \<Rightarrow> ys)"

definition applyToolDelta :: "system_message \<Rightarrow> (string \<times> tool) list \<Rightarrow> (string \<times> tool) list" where
  "applyToolDelta m tools =
     fold (\<lambda>t. AList.update (t_name t) t) (listOf (sys_toolsAdded m))
       (fold AList.delete (listOf (sys_toolsRemoved m)) tools)"

definition getCurrentTools :: "agent_message list \<Rightarrow> tool list" where
  "getCurrentTools ms = map snd (fold applyToolDelta (systemsOf ms) [])"

fun applySection :: "string \<times> string option \<Rightarrow> (string \<times> string) list \<Rightarrow> (string \<times> string) list" where
  "applySection (name, None) ss = AList.delete name ss"
| "applySection (name, Some v) ss = AList.update name v ss"

definition currentSections :: "system_message list \<Rightarrow> (string \<times> string) list" where
  "currentSections sys = fold applySection (concat (map (listOf \<circ> sys_sections) sys)) []"

definition getCurrentSystemMessage :: "agent_message list \<Rightarrow> system_message option" where
  "getCurrentSystemMessage ms =
     (let sys = systemsOf ms;
          content = filter nonEmpty (map (contentText \<circ> sys_content) sys);
          sections = currentSections sys;
          timestamp = (case sys of [] \<Rightarrow> None | m # _ \<Rightarrow> Some (sys_timestamp m));
          tools = getCurrentTools ms
      in if timestamp = None \<and> tools = [] then None
         else Some \<lparr>sys_content = ContentString (join blankLine content),
                    sys_sections = (if sections \<noteq> [] then Some (map (\<lambda>(k, v). (k, Some v)) sections) else None),
                    sys_toolsAdded = (if tools \<noteq> [] then Some tools else None),
                    sys_toolsRemoved = None,
                    sys_timestamp = (case timestamp of None \<Rightarrow> 0 | Some t \<Rightarrow> t)\<rparr>)"

definition getCurrentSystemPrompt :: "agent_message list \<Rightarrow> string" where
  "getCurrentSystemPrompt ms =
     (case getCurrentSystemMessage ms of None \<Rightarrow> [] | Some m \<Rightarrow> getSystemMessageText m)"

definition collapseSystemMessages :: "agent_message list \<Rightarrow> agent_message list" where
  "collapseSystemMessages ms =
     (let rest = filter (\<lambda>m. \<not> isSystem m) ms
      in case getCurrentSystemMessage ms of None \<Rightarrow> rest | Some h \<Rightarrow> System h # rest)"

definition resolveTranscript :: "agent_message list \<Rightarrow> bool \<Rightarrow> agent_message list" where
  "resolveTranscript ms supportsMidConvoSystemMessages =
     (if supportsMidConvoSystemMessages then ms else collapseSystemMessages ms)"

section \<open>Tool declarations\<close>

definition toToolDeclaration :: "'z tool_scheme \<Rightarrow> tool" where
  "toToolDeclaration t =
     \<lparr>t_name = t_name t, t_description = t_description t, t_parameters = t_parameters t,
      t_constrainedSampling = t_constrainedSampling t\<rparr>"

text \<open>The object \<open>JSON.stringify\<close> sees: an absent \<open>constrainedSampling\<close> has no key.\<close>

definition declarationJson :: "tool \<Rightarrow> json" where
  "declarationJson t =
     JObj ([(''name'', JStr (t_name t)), (''description'', JStr (t_description t)),
            (''parameters'', t_parameters t)]
           @ (case t_constrainedSampling t of None \<Rightarrow> [] | Some c \<Rightarrow> [(''constrainedSampling'', c)]))"

definition declarationsEqual :: "tool \<Rightarrow> tool \<Rightarrow> bool" where
  "declarationsEqual l r \<longleftrightarrow>
     stringify (declarationJson (toToolDeclaration l)) = stringify (declarationJson (toToolDeclaration r))"

text \<open>\<open>new Map(tools.map((tool) => [tool.name, tool]))\<close>\<close>

definition toolMap :: "tool list \<Rightarrow> (string \<times> tool) list" where
  "toolMap ts = fold (\<lambda>t. AList.update (t_name t) t) ts []"

definition getToolStateChanges :: "tool list \<Rightarrow> tool list \<Rightarrow> tool list \<times> string list" where
  "getToolStateChanges previous current =
     (let previousTools = toolMap previous; currentTools = toolMap current in
      (map toToolDeclaration
         (filter (\<lambda>t. case map_of previousTools (t_name t) of
                        None \<Rightarrow> True | Some p \<Rightarrow> \<not> declarationsEqual p t) current),
       map t_name
         (filter (\<lambda>t. case map_of currentTools (t_name t) of
                        None \<Rightarrow> True | Some c \<Rightarrow> \<not> declarationsEqual t c) previous)))"

definition getDeclaredTools :: "agent_message list \<Rightarrow> tool list" where
  "getDeclaredTools ms = map snd (toolMap (concat (map (listOf \<circ> sys_toolsAdded) (systemsOf ms))))"

fun hasToolRedefinitionsFrom :: "(string \<times> tool) list \<Rightarrow> tool list \<Rightarrow> bool" where
  "hasToolRedefinitionsFrom declared [] = False"
| "hasToolRedefinitionsFrom declared (t # ts) =
     ((case map_of declared (t_name t) of None \<Rightarrow> False | Some p \<Rightarrow> \<not> declarationsEqual p t)
      \<or> hasToolRedefinitionsFrom (AList.update (t_name t) t declared) ts)"

definition hasToolRedefinitions :: "agent_message list \<Rightarrow> bool" where
  "hasToolRedefinitions ms =
     hasToolRedefinitionsFrom [] (concat (map (listOf \<circ> sys_toolsAdded) (systemsOf ms)))"

text \<open>The inner loop over one message's additions: the names declared so far, or \<open>None\<close> for \<open>return true\<close>.\<close>

fun declareAdditions :: "string set \<Rightarrow> tool list \<Rightarrow> string set option" where
  "declareAdditions declared [] = Some declared"
| "declareAdditions declared (t # ts) =
     (if t_name t \<in> declared then None else declareAdditions (insert (t_name t) declared) ts)"

fun nonAdditiveFrom :: "string set \<Rightarrow> system_message list \<Rightarrow> bool" where
  "nonAdditiveFrom declared [] = False"
| "nonAdditiveFrom declared (m # ms) =
     (if listOf (sys_toolsRemoved m) \<noteq> [] then True
      else case declareAdditions declared (listOf (sys_toolsAdded m)) of
             None \<Rightarrow> True
           | Some declared' \<Rightarrow> nonAdditiveFrom declared' ms)"

definition hasNonAdditiveToolChanges :: "agent_message list \<Rightarrow> bool" where
  "hasNonAdditiveToolChanges ms = nonAdditiveFrom {} (systemsOf ms)"

record transcript_tools =
  requestTools :: "tool list"
  anchorsAdditions :: bool

definition resolveTranscriptTools :: "agent_message list \<Rightarrow> bool \<Rightarrow> transcript_tools" where
  "resolveTranscriptTools ms supportsToolAdditions =
     (let anchors = supportsToolAdditions \<and> \<not> hasNonAdditiveToolChanges ms
      in \<lparr>requestTools =
            (if anchors
             then (case getInitialSystemMessage ms of None \<Rightarrow> [] | Some m \<Rightarrow> listOf (sys_toolsAdded m))
             else getCurrentTools ms),
          anchorsAdditions = anchors\<rparr>)"

section \<open>Lemmas: replay\<close>

lemma systemsOf_simps [simp]:
  "systemsOf [] = []"
  "systemsOf (m # ms) = (case asSystem m of None \<Rightarrow> systemsOf ms | Some s \<Rightarrow> s # systemsOf ms)"
  "systemsOf (ms @ ms') = systemsOf ms @ systemsOf ms'"
  by (auto simp: systemsOf_def List.map_filter_def split: option.splits)

lemma systemsOf_filter [simp]: "systemsOf (filter (\<lambda>m. \<not> isSystem m) ms) = []"
proof (induction ms)
  case (Cons m ms)
  then show ?case by (cases m) auto
qed simp

lemma systemsOf_nonsystem: "(\<forall>m \<in> set ms. \<not> isSystem m) \<Longrightarrow> systemsOf ms = []"
proof (induction ms)
  case (Cons m ms)
  then show ?case by (cases m) auto
qed simp

lemma listOf_simps [simp]: "listOf None = []" "listOf (Some xs) = xs"
  by (simp_all add: listOf_def)

text \<open>One tool delta as a list of single-key records.\<close>

datatype tool_event = ToolRemoved string | ToolAdded tool

definition toolEvents :: "system_message \<Rightarrow> tool_event list" where
  "toolEvents m = map ToolRemoved (listOf (sys_toolsRemoved m)) @ map ToolAdded (listOf (sys_toolsAdded m))"

fun applyToolEvent :: "tool_event \<Rightarrow> (string \<times> tool) list \<Rightarrow> (string \<times> tool) list" where
  "applyToolEvent (ToolRemoved n) = AList.delete n"
| "applyToolEvent (ToolAdded t) = AList.update (t_name t) t"

fun toolEffect :: "tool_event \<Rightarrow> (string \<times> tool option) option" where
  "toolEffect (ToolRemoved n) = Some (n, None)"
| "toolEffect (ToolAdded t) = Some (t_name t, Some t)"

interpretation tool_log: keyed_log applyToolEvent map_of toolEffect
proof
  fix e m
  show "map_of (applyToolEvent e m) =
        (case toolEffect e of None \<Rightarrow> map_of m | Some (k, v) \<Rightarrow> (map_of m)(k := v))"
    by (cases e) auto
qed

fun sectionEffect :: "string \<times> string option \<Rightarrow> (string \<times> string option) option" where
  "sectionEffect (n, v) = Some (n, v)"

interpretation section_log: keyed_log applySection map_of sectionEffect
proof
  fix e m
  show "map_of (applySection e m) =
        (case sectionEffect e of None \<Rightarrow> map_of m | Some (k, v) \<Rightarrow> (map_of m)(k := v))"
    by (cases e; cases "snd e") auto
qed

lemma applyToolDelta_events: "applyToolDelta m = fold applyToolEvent (toolEvents m)"
  by (simp add: fun_eq_iff applyToolDelta_def toolEvents_def fold_map comp_def)

lemma replay_tool_events:
  "fold applyToolDelta sys tools = fold applyToolEvent (concat (map toolEvents sys)) tools"
  by (induction sys arbitrary: tools) (simp_all add: applyToolDelta_events)

lemma distinct_applyToolEvent: "distinct (map fst m) \<Longrightarrow> distinct (map fst (applyToolEvent e m))"
  by (cases e) (simp_all add: js_map_simps)

lemma distinct_applyToolDelta: "distinct (map fst m) \<Longrightarrow> distinct (map fst (applyToolDelta s m))"
  unfolding applyToolDelta_events by (rule fold_invariant [where Q = "\<lambda>_. True"]) (auto simp: distinct_applyToolEvent)

definition named :: "(string \<times> tool) list \<Rightarrow> bool" where
  "named m \<longleftrightarrow> (\<forall>(k, t) \<in> set m. k = t_name t)"

lemma named_simps [simp]: "named []" "named (p # m) \<longleftrightarrow> fst p = t_name (snd p) \<and> named m"
  by (auto simp: named_def)

lemma named_update: "named m \<Longrightarrow> named (AList.update (t_name t) t m)"
  by (induction m) auto

lemma named_delete: "named m \<Longrightarrow> named (AList.delete k m)"
  by (auto simp: named_def AList.delete_eq)

lemma named_applyToolEvent: "named m \<Longrightarrow> named (applyToolEvent e m)"
  by (cases e) (simp_all add: named_update named_delete)

definition toolState :: "(string \<times> tool) list \<Rightarrow> bool" where
  "toolState m \<longleftrightarrow> distinct (map fst m) \<and> named m"

lemma toolState_replay: "toolState m \<Longrightarrow> toolState (fold applyToolDelta sys m)"
  unfolding replay_tool_events
  by (rule fold_invariant [where Q = "\<lambda>_. True"])
     (auto simp: toolState_def distinct_applyToolEvent named_applyToolEvent)

lemma named_keys: "named m \<Longrightarrow> map fst m = map t_name (map snd m)"
  by (induction m) auto

text \<open>Setting each of a list of distinctly named new tools appends them.\<close>

lemma fold_update_fresh:
  assumes "distinct (map t_name ts)" and "set (map t_name ts) \<inter> set (map fst m) = {}"
  shows "fold (\<lambda>t. AList.update (t_name t) t) ts m = m @ map (\<lambda>t. (t_name t, t)) ts"
  using assms
proof (induction ts arbitrary: m)
  case (Cons t ts)
  have "AList.update (t_name t) t m = m @ [(t_name t, t)]"
    using Cons.prems by (intro update_fresh) auto
  then show ?case
    using Cons.prems by (auto simp: Cons.IH)
qed simp

lemma toolMap_distinct: "distinct (map t_name ts) \<Longrightarrow> toolMap ts = map (\<lambda>t. (t_name t, t)) ts"
  by (simp add: toolMap_def fold_update_fresh)

lemma map_of_toolMap: "distinct (map t_name ts) \<Longrightarrow> t \<in> set ts \<Longrightarrow> map_of (toolMap ts) (t_name t) = Some t"
  by (simp add: toolMap_distinct map_of_eq_Some_iff comp_def)

lemma map_of_toolMap_None: "distinct (map t_name ts) \<Longrightarrow> map_of (toolMap ts) n = None \<longleftrightarrow> n \<notin> t_name ` set ts"
  by (simp add: toolMap_distinct map_of_eq_None_iff image_image)

lemma getCurrentTools_state:
  obtains m where "toolState m" and "getCurrentTools ms = map snd m"
    and "fold applyToolDelta (systemsOf ms) [] = m"
  by (rule that [of "fold applyToolDelta (systemsOf ms) []"])
     (auto simp: getCurrentTools_def intro!: toolState_replay, simp add: toolState_def)

lemma getCurrentTools_distinct: "distinct (map t_name (getCurrentTools ms))"
  by (metis getCurrentTools_state named_keys toolState_def)

lemma named_entries: "named m \<Longrightarrow> map (\<lambda>t. (t_name t, t)) (map snd m) = m"
  by (induction m) auto

lemma getCurrentTools_pairs:
  "map (\<lambda>t. (t_name t, t)) (getCurrentTools ms) = fold applyToolDelta (systemsOf ms) []"
  by (rule getCurrentTools_state [of ms]) (simp add: toolState_def named_entries del: map_map)


section \<open>Collapsing a transcript keeps its state\<close>

lemma fold_sections_fresh:
  assumes "distinct (map fst ss)" and "set (map fst ss) \<inter> set (map fst m) = {}"
  shows "fold applySection (map (\<lambda>(k, v). (k, Some v)) ss) m = m @ ss"
  using assms
proof (induction ss arbitrary: m)
  case (Cons p ss)
  obtain k v where p: "p = (k, v)" by (cases p)
  have "AList.update k v m = m @ [(k, v)]"
    using Cons.prems p by (intro update_fresh) auto
  then show ?case
    using Cons.prems p by (auto simp: Cons.IH)
qed simp

lemma distinct_applySection: "distinct (map fst m) \<Longrightarrow> distinct (map fst (applySection e m))"
  by (cases e; cases "snd e") (simp_all add: js_map_simps)

lemma currentSections_distinct: "distinct (map fst (currentSections sys))"
  unfolding currentSections_def
  by (rule fold_invariant [where Q = "\<lambda>_. True"]) (auto simp: distinct_applySection)

lemma getCurrentTools_added:
  "distinct (map t_name ts) \<Longrightarrow> systemsOf ms = [h] \<Longrightarrow> listOf (sys_toolsAdded h) = ts \<Longrightarrow>
   listOf (sys_toolsRemoved h) = [] \<Longrightarrow> getCurrentTools ms = ts"
  by (simp add: getCurrentTools_def applyToolDelta_def fold_update_fresh comp_def)

lemma getCurrentSystemMessage_fields:
  assumes "getCurrentSystemMessage ms = Some h"
  shows "sys_content h = ContentString (join blankLine (filter nonEmpty (map (contentText \<circ> sys_content) (systemsOf ms))))"
    and "sys_sections h =
      (if currentSections (systemsOf ms) \<noteq> []
       then Some (map (\<lambda>(k, v). (k, Some v)) (currentSections (systemsOf ms))) else None)"
    and "sys_toolsAdded h = (if getCurrentTools ms \<noteq> [] then Some (getCurrentTools ms) else None)"
    and "sys_toolsRemoved h = None"
  using assms by (auto simp: getCurrentSystemMessage_def Let_def split: if_splits)

lemma getCurrentSystemMessage_replayed:
  assumes h: "getCurrentSystemMessage ms = Some h" and sys: "systemsOf ms' = [h]"
  shows "getCurrentSystemMessage ms' = Some h"
proof -
  note f = getCurrentSystemMessage_fields [OF h]
  have tools: "getCurrentTools ms' = getCurrentTools ms"
    by (rule getCurrentTools_added [OF _ sys]) (auto simp: f getCurrentTools_distinct)
  have secs: "currentSections [h] = currentSections (systemsOf ms)"
    using fold_sections_fresh [OF currentSections_distinct [of "systemsOf ms"], of "[]"]
    by (auto simp: f currentSections_def [of "[h]"])
  have cont: "join blankLine (filter nonEmpty [contentText (sys_content h)]) = contentText (sys_content h)"
    by (auto simp: nonEmpty_def)
  show ?thesis
    using f cont by (simp add: getCurrentSystemMessage_def [of ms'] Let_def sys tools secs)
qed

text \<open>
  C28 (collapse): rebuilding a transcript for a provider without mid-conversation system messages
  keeps the whole replayed state (prompt text, sections, tools), leaves the conversation messages
  in order, puts the only system message first, and is idempotent.
\<close>

theorem collapseSystemMessages_correct:
  "getCurrentSystemMessage (collapseSystemMessages ms) = getCurrentSystemMessage ms \<and>
   getCurrentTools (collapseSystemMessages ms) = getCurrentTools ms \<and>
   filter (\<lambda>m. \<not> isSystem m) (collapseSystemMessages ms) = filter (\<lambda>m. \<not> isSystem m) ms \<and>
   systemsOf (tl (collapseSystemMessages ms)) = [] \<and>
   collapseSystemMessages (collapseSystemMessages ms) = collapseSystemMessages ms"
proof (cases "getCurrentSystemMessage ms")
  case None
  then have e: "collapseSystemMessages ms = filter (\<lambda>m. \<not> isSystem m) ms"
    by (simp add: collapseSystemMessages_def)
  have "systemsOf ms = [] \<and> getCurrentTools ms = []"
    using None by (auto simp: getCurrentSystemMessage_def Let_def split: if_splits list.splits)
  then have "getCurrentSystemMessage (filter (\<lambda>m. \<not> isSystem m) ms) = None"
    and "getCurrentTools ms = getCurrentTools (filter (\<lambda>m. \<not> isSystem m) ms)"
    by (simp_all add: getCurrentSystemMessage_def getCurrentTools_def)
  moreover have "systemsOf (tl (filter (\<lambda>m. \<not> isSystem m) ms)) = []"
    using systemsOf_filter [of ms]
    by (cases "filter (\<lambda>m. \<not> isSystem m) ms") (auto split: option.splits)
  ultimately show ?thesis
    using None by (simp add: e collapseSystemMessages_def [of "filter _ _"])
next
  case (Some h)
  then have e: "collapseSystemMessages ms = System h # filter (\<lambda>m. \<not> isSystem m) ms"
    by (simp add: collapseSystemMessages_def)
  have g: "getCurrentSystemMessage (collapseSystemMessages ms) = Some h"
    by (rule getCurrentSystemMessage_replayed [OF Some]) (simp add: e)
  have t: "getCurrentTools (collapseSystemMessages ms) = getCurrentTools ms"
    by (rule getCurrentTools_added [where h = h])
       (simp_all add: e getCurrentSystemMessage_fields [OF Some] getCurrentTools_distinct)
  show ?thesis
    using g t Some by (simp add: e collapseSystemMessages_def [of "System h # _"])
qed

section \<open>Tool changes replay to the executable tool set\<close>

definition sameTools :: "tool list \<Rightarrow> tool list \<Rightarrow> bool" where
  "sameTools ts us \<longleftrightarrow>
     set (map t_name ts) = set (map t_name us) \<and>
     (\<forall>t \<in> set ts. \<forall>u \<in> set us. t_name t = t_name u \<longrightarrow> declarationsEqual t u)"

lemma toToolDeclaration_id [simp]: "toToolDeclaration (t :: tool) = t"
  by (simp add: toToolDeclaration_def)

lemma declarationsEqual_refl [simp]: "declarationsEqual t t"
  by (simp add: declarationsEqual_def)

lemma map_of_fold_delete: "map_of (fold AList.delete ns m) n = (if n \<in> set ns then None else map_of m n)"
  by (induction ns arbitrary: m) auto

lemma map_of_fold_update:
  "map_of (fold (\<lambda>t. AList.update (t_name t) t) ts m) n =
     (case map_of (toolMap ts) n of Some t \<Rightarrow> Some t | None \<Rightarrow> map_of m n)"
proof (induction ts rule: rev_induct)
  case (snoc t ts)
  then show ?case by (auto simp: toolMap_def)
qed (simp add: toolMap_def)

lemma map_of_applyToolDelta:
  "map_of (applyToolDelta s m) n =
     (case map_of (toolMap (listOf (sys_toolsAdded s))) n of
        Some t \<Rightarrow> Some t
      | None \<Rightarrow> if n \<in> set (listOf (sys_toolsRemoved s)) then None else map_of m n)"
  by (simp add: applyToolDelta_def map_of_fold_update map_of_fold_delete split: option.split)

lemma toolMap_lookup:
  assumes "distinct (map t_name ts)"
  shows "map_of (toolMap ts) n = Some t \<longleftrightarrow> t \<in> set ts \<and> t_name t = n"
  using assms by (auto simp: toolMap_distinct map_of_eq_Some_iff comp_def)

lemma toolMap_filter:
  assumes d: "distinct (map t_name ts)"
  shows "map_of (toolMap (filter P ts)) n =
    (case map_of (toolMap ts) n of None \<Rightarrow> None | Some c \<Rightarrow> if P c then Some c else None)"
proof (cases "map_of (toolMap ts) n")
  case None
  then show ?thesis
    using map_of_toolMap_None [OF d, of n] map_of_toolMap_None [OF distinct_map_filter [OF d], of P n] by auto
next
  case (Some c)
  then have c: "c \<in> set ts" "t_name c = n"
    by (simp_all add: toolMap_lookup [OF d])
  have "t = c" if "t \<in> set ts" "t_name t = n" for t
    using that Some toolMap_lookup [OF d, of n t] by simp
  then have "map_of (toolMap (filter P ts)) n = None" if "\<not> P c"
    using that map_of_toolMap_None [OF distinct_map_filter [OF d], of P n] by auto
  moreover have "map_of (toolMap (filter P ts)) n = Some c" if "P c"
    using that c toolMap_lookup [OF distinct_map_filter [OF d], of P n c] by simp
  ultimately show ?thesis using Some by simp
qed

lemma getCurrentTools_lookup:
  "t \<in> set (getCurrentTools ms) \<longleftrightarrow> map_of (fold applyToolDelta (systemsOf ms) []) (t_name t) = Some t"
  using toolMap_lookup [OF getCurrentTools_distinct, of ms "t_name t" t]
  by (simp add: toolMap_distinct [OF getCurrentTools_distinct] getCurrentTools_pairs)

lemma getToolStateChanges_lookup:
  assumes "distinct (map t_name prev)" and "distinct (map t_name cur)"
    and "getToolStateChanges prev cur = (added, removed)"
    and "listOf (sys_toolsAdded s) = added" and "listOf (sys_toolsRemoved s) = removed"
  shows "map_of (applyToolDelta s (toolMap prev)) n =
     (case map_of (toolMap cur) n of
        None \<Rightarrow> None
      | Some c \<Rightarrow> (case map_of (toolMap prev) n of
                     None \<Rightarrow> Some c
                   | Some p \<Rightarrow> if declarationsEqual p c then Some p else Some c))"
proof -
  let ?new = "\<lambda>t. case map_of (toolMap prev) (t_name t) of None \<Rightarrow> True | Some p \<Rightarrow> \<not> declarationsEqual p t"
  let ?old = "\<lambda>t. case map_of (toolMap cur) (t_name t) of None \<Rightarrow> True | Some c \<Rightarrow> \<not> declarationsEqual t c"
  have a: "added = filter ?new cur" and r: "removed = map t_name (filter ?old prev)"
    using assms(3) by (auto simp: getToolStateChanges_def Let_def map_idI)
  have la: "map_of (toolMap added) n =
      (case map_of (toolMap cur) n of None \<Rightarrow> None | Some c \<Rightarrow> if ?new c then Some c else None)"
    unfolding a by (rule toolMap_filter [OF assms(2)])
  have lr: "n \<in> set removed \<longleftrightarrow> (\<exists>p. map_of (toolMap prev) n = Some p \<and> ?old p)"
    using toolMap_lookup [OF assms(1), of n] by (auto simp: r)
  have nc: "t_name c = n" if "map_of (toolMap cur) n = Some c" for c
    using that by (simp add: toolMap_lookup [OF assms(2)])
  have np: "t_name p = n" if "map_of (toolMap prev) n = Some p" for p
    using that by (simp add: toolMap_lookup [OF assms(1)])
  note delta = map_of_applyToolDelta [of s "toolMap prev" n, unfolded assms(4,5) la lr]
  show ?thesis
  proof (cases "map_of (toolMap cur) n")
    case None
    have "map_of (toolMap cur) (t_name p) = None" if "map_of (toolMap prev) n = Some p" for p
      using None np [OF that] by simp
    with None show ?thesis by (cases "map_of (toolMap prev) n") (auto simp: delta)
  next
    case (Some c)
    note c = nc [OF Some]
    show ?thesis
    proof (cases "map_of (toolMap prev) n")
      case None
      with Some c show ?thesis by (simp add: delta)
    next
      case (Some p)
      with \<open>map_of (toolMap cur) n = Some c\<close> c np [OF Some] show ?thesis by (simp add: delta)
    qed
  qed
qed

lemma sameTools_lookup:
  assumes "distinct (map t_name ts)" and "distinct (map t_name us)"
    and "\<And>n. rel_option declarationsEqual (map_of (toolMap ts) n) (map_of (toolMap us) n)"
  shows "sameTools ts us"
  unfolding sameTools_def
proof (intro conjI ballI impI)
  show "set (map t_name ts) = set (map t_name us)"
  proof (intro set_eqI)
    fix n
    show "n \<in> set (map t_name ts) \<longleftrightarrow> n \<in> set (map t_name us)"
      using assms(3) [of n] map_of_toolMap_None [OF assms(1), of n] map_of_toolMap_None [OF assms(2), of n]
      by (auto simp: option_rel_Some1 option_rel_Some2 elim!: option.rel_cases)
  qed
  fix t u
  assume "t \<in> set ts" "u \<in> set us" "t_name t = t_name u"
  then show "declarationsEqual t u"
    using assms(3) [of "t_name t"] map_of_toolMap [OF assms(1), of t] map_of_toolMap [OF assms(2), of u]
    by simp
qed

lemma tool_changes_replay:
  assumes "distinct (map t_name cur)"
    and "getToolStateChanges (getCurrentTools ms) cur = (added, removed)"
    and "listOf (sys_toolsAdded s) = added" and "listOf (sys_toolsRemoved s) = removed"
  shows "sameTools (getCurrentTools (ms @ [System s])) cur"
proof (rule sameTools_lookup [OF getCurrentTools_distinct assms(1)])
  fix n
  have "toolMap (getCurrentTools (ms @ [System s])) = applyToolDelta s (toolMap (getCurrentTools ms))"
    using getCurrentTools_pairs [of "ms @ [System s]"] getCurrentTools_pairs [of ms]
    by (simp add: toolMap_distinct [OF getCurrentTools_distinct])
  then show "rel_option declarationsEqual
      (map_of (toolMap (getCurrentTools (ms @ [System s]))) n) (map_of (toolMap cur) n)"
    using getToolStateChanges_lookup [OF getCurrentTools_distinct assms, of n]
    by (auto split: option.splits)
qed

section \<open>Splitting tools between the request and in-place additions\<close>

lemma declareAdditions_Some:
  "declareAdditions D ts = Some D' \<Longrightarrow>
   distinct (map t_name ts) \<and> set (map t_name ts) \<inter> D = {} \<and> D' = D \<union> set (map t_name ts)"
  by (induction D ts rule: declareAdditions.induct) (auto split: if_splits)

lemma additive_replay:
  "\<not> nonAdditiveFrom (set (map fst m)) sys \<Longrightarrow>
   fold applyToolDelta sys m = m @ map (\<lambda>t. (t_name t, t)) (concat (map (listOf \<circ> sys_toolsAdded) sys))"
proof (induction sys arbitrary: m)
  case (Cons s sys)
  let ?ts = "listOf (sys_toolsAdded s)"
  from Cons.prems obtain D' where d: "listOf (sys_toolsRemoved s) = []"
    "declareAdditions (set (map fst m)) ?ts = Some D'" "\<not> nonAdditiveFrom D' sys"
    by (auto split: if_splits option.splits)
  note da = declareAdditions_Some [OF d(2)]
  have step: "applyToolDelta s m = m @ map (\<lambda>t. (t_name t, t)) ?ts"
    using da d(1) by (simp add: applyToolDelta_def fold_update_fresh)
  have keys: "set (map fst (m @ map (\<lambda>t. (t_name t, t)) ?ts)) = D'"
    using da by (simp add: image_image)
  show ?case
    using Cons.IH [of "m @ map (\<lambda>t. (t_name t, t)) ?ts", unfolded keys, OF d(3)] by (simp add: step)
qed simp

text \<open>
  Tool split: whichever way \<open>resolveTranscriptTools\<close> splits the declarations, the request
  tools followed by the additions carried in place are exactly the current tool set, in order.
\<close>

theorem resolveTranscriptTools_correct:
  "getCurrentTools ms =
     requestTools (resolveTranscriptTools ms b) @
     (if anchorsAdditions (resolveTranscriptTools ms b)
      then concat (map (listOf \<circ> sys_toolsAdded) (systemsOf (withoutInitialSystemMessage ms)))
      else [])"
proof (cases "b \<and> \<not> hasNonAdditiveToolChanges ms")
  case True
  then have "fold applyToolDelta (systemsOf ms) [] =
      map (\<lambda>t. (t_name t, t)) (concat (map (listOf \<circ> sys_toolsAdded) (systemsOf ms)))"
    using additive_replay [of "[]" "systemsOf ms"] by (simp add: hasNonAdditiveToolChanges_def)
  then have cur: "getCurrentTools ms = concat (map (listOf \<circ> sys_toolsAdded) (systemsOf ms))"
    by (simp add: getCurrentTools_def comp_def)
  from True show ?thesis
    unfolding cur
    by (cases ms) (auto simp: resolveTranscriptTools_def Let_def getInitialSystemMessage_def
          withoutInitialSystemMessage_def split: option.splits)
qed (auto simp: resolveTranscriptTools_def Let_def)

end
