(* ===== verification/Session_Entries.thy ===== *)
theory Session_Entries
  imports Transcript
begin

text \<open>
  Session entries and the projection of a session path into model context: the types and the pure
  functions of \<open>packages/coding-agent/src/core/session-manager.ts\<close>.

  A session is a list of entries with parent links. Messages of a session file are not validated
  on load: the boolean of a \<open>MessageEntry\<close> records that the stored \<open>content\<close> is null or missing, in
  which case the content held in the message value is not looked at. Parent links are followed by
  a loop that ends only if they are acyclic, so the walk is a partial function: \<open>None\<close> is a walk
  that does not return. The entries of a version 1 file have no ids; the missing id is the empty
  string, which is falsy like \<open>undefined\<close>. An edit's \<open>replacement\<close> is \<open>None\<close> for null and \<open>Some c\<close> for \<open>{content: c}\<close>.
\<close>

section \<open>Entries\<close>

datatype prune_state = Included | Excluded | Summarized

record compaction_data =
  ce_summary :: string
  ce_firstKeptEntryId :: string
  ce_firstKeptEntryIndex :: "nat option" \<comment> \<open>version 1 files only\<close>
  ce_tokensBefore :: nat
  ce_details :: "json option"
  ce_usage :: "usage option"
  ce_fromHook :: bool
  ce_systemMessage :: "system_message option"

datatype entry_data =
    MessageEntry agent_message bool \<comment> \<open>message, whether its stored content is null\<close>
  | ThinkingLevelChangeEntry string
  | ModelChangeEntry string string \<comment> \<open>provider, modelId\<close>
  | UsageEntry string string string usage "string option" \<comment> \<open>kind, provider, model, usage, note\<close>
  | CompactionEntry compaction_data
  | BranchSummaryEntry string string "json option" "usage option" bool \<comment> \<open>fromId, summary, details, usage, fromHook\<close>
  | CustomEntry string "json option" \<comment> \<open>customType, data\<close>
  | CustomMessageEntry string "content option" "json option" bool \<comment> \<open>customType, content, details, display\<close>
  | ContextEditEntry string "content option" bool \<comment> \<open>targetId, replacement, curation = "summary"\<close>
  | ContextEditCancelEntry string \<comment> \<open>targetId\<close>
  | LabelEntry string "string option" \<comment> \<open>targetId, label\<close>
  | PruneEntry string prune_state "string option" \<comment> \<open>targetId, state, summary\<close>
  | SessionInfoEntry "string option" \<comment> \<open>name\<close>

record session_entry =
  e_id :: string
  e_parentId :: "string option"
  e_timestamp :: int
  e_data :: entry_data

record session_header =
  h_version :: "nat option"
  h_id :: string
  h_timestamp :: int
  h_cwd :: string
  h_parentSession :: "string option"

datatype file_entry = Header session_header | Entry session_entry

fun asEntry :: "file_entry \<Rightarrow> session_entry option" where
  "asEntry (Entry e) = Some e"
| "asEntry (Header _) = None"

fun compactionOf :: "session_entry \<Rightarrow> compaction_data option" where
  "compactionOf e = (case e_data e of CompactionEntry c \<Rightarrow> Some c | _ \<Rightarrow> None)"

definition isCompaction :: "session_entry \<Rightarrow> bool" where
  "isCompaction e \<longleftrightarrow> compactionOf e \<noteq> None"

text \<open>\<open>entry.type === "message" && entry.message.role === "system"\<close>\<close>

definition isSystemEntry :: "session_entry \<Rightarrow> bool" where
  "isSystemEntry e \<longleftrightarrow> (case e_data e of MessageEntry m _ \<Rightarrow> isSystem m | _ \<Rightarrow> False)"

definition CONTEXT_BLOCK_SUMMARY_PREFIX :: string where
  "CONTEXT_BLOCK_SUMMARY_PREFIX = ''[Summary of previously summarized context block]'' @ newline"

definition getLatestCompactionEntry :: "session_entry list \<Rightarrow> session_entry option" where
  "getLatestCompactionEntry entries = findLast isCompaction entries"

section \<open>The path from a leaf to the root\<close>

type_synonym entry_index = "(string \<times> session_entry) list"

definition indexEntry :: "session_entry \<Rightarrow> entry_index \<Rightarrow> entry_index" where
  "indexEntry e index = AList.update (e_id e) e index"

definition buildEntryIndex :: "session_entry list \<Rightarrow> entry_index option \<Rightarrow> entry_index" where
  "buildEntryIndex entries byId = (case byId of Some index \<Rightarrow> index | None \<Rightarrow> fold indexEntry entries [])"

text \<open>\<open>current.parentId ? index.get(current.parentId) : undefined\<close>\<close>

definition parentOf :: "entry_index \<Rightarrow> session_entry \<Rightarrow> session_entry option" where
  "parentOf index e =
     (case e_parentId e of None \<Rightarrow> None | Some p \<Rightarrow> if p = [] then None else map_of index p)"

text \<open>
  \<open>while (current) { path.push(current); current = parent }\<close> followed by \<open>path.reverse()\<close>: the
  accumulator holds the entries seen so far, nearest to the root first.
\<close>

partial_function (option) walkParents ::
  "entry_index \<Rightarrow> session_entry \<Rightarrow> session_entry list \<Rightarrow> session_entry list option" where
  "walkParents index current path =
     (case parentOf index current of
        None \<Rightarrow> Some (current # path)
      | Some p \<Rightarrow> walkParents index p (current # path))"

text \<open>The optional parameter \<open>leafId?: string | null\<close>\<close>

datatype leaf_arg = LeafUndefined | LeafNull | LeafId string

definition buildSessionPath ::
  "session_entry list \<Rightarrow> leaf_arg \<Rightarrow> entry_index option \<Rightarrow> session_entry list option" where
  "buildSessionPath entries leafId byId =
     (let index = buildEntryIndex entries byId;
          fallback = (if entries = [] then None else Some (last entries));
          start = (case leafId of
                     LeafId i \<Rightarrow> if i = [] then fallback
                                 else (case map_of index i of Some e \<Rightarrow> Some e | None \<Rightarrow> fallback)
                   | _ \<Rightarrow> fallback)
      in if leafId = LeafNull then Some []
         else case start of None \<Rightarrow> Some [] | Some leaf \<Rightarrow> walkParents index leaf [])"

fun applySetting :: "session_entry \<Rightarrow> string \<times> (string \<times> string) option \<Rightarrow> string \<times> (string \<times> string) option" where
  "applySetting e (level, model) =
     (case e_data e of
        ThinkingLevelChangeEntry l \<Rightarrow> (l, model)
      | ModelChangeEntry p i \<Rightarrow> (level, Some (p, i))
      | MessageEntry (Assistant m) _ \<Rightarrow> (level, Some (am_provider m, am_model m))
      | _ \<Rightarrow> (level, model))"

definition getSessionContextSettings :: "session_entry list \<Rightarrow> string \<times> (string \<times> string) option" where
  "getSessionContextSettings path = fold applySetting path (''off'', None)"

section \<open>The messages an entry contributes\<close>

fun nullContentMessage :: "agent_message \<Rightarrow> agent_message" where
  "nullContentMessage (System m) = System (m\<lparr>sys_content := ContentString []\<rparr>)"
| "nullContentMessage (User m) = User (m\<lparr>um_content := ContentBlocks []\<rparr>)"
| "nullContentMessage (Assistant m) = Assistant (m\<lparr>am_content := []\<rparr>)"
| "nullContentMessage (ToolResult m) = ToolResult (m\<lparr>tr_content := []\<rparr>)"
| "nullContentMessage m = m"

definition sessionEntryToContextMessages :: "session_entry \<Rightarrow> agent_message list" where
  "sessionEntryToContextMessages e =
     (case e_data e of
        MessageEntry m contentNull \<Rightarrow> [if contentNull then nullContentMessage m else m]
      | CustomMessageEntry ty c details display \<Rightarrow>
          [Custom (createCustomMessage ty (case c of None \<Rightarrow> ContentBlocks [] | Some c' \<Rightarrow> c')
             display details (e_timestamp e))]
      | BranchSummaryEntry fromId summary _ _ _ \<Rightarrow>
          if summary \<noteq> [] then [BranchSummary (createBranchSummaryMessage summary fromId (e_timestamp e))] else []
      | CompactionEntry c \<Rightarrow>
          (let summary = CompactionSummary (createCompactionSummaryMessage (ce_summary c) (ce_tokensBefore c) (e_timestamp e))
           in case ce_systemMessage c of None \<Rightarrow> [summary] | Some s \<Rightarrow> [System s, summary])
      | _ \<Rightarrow> [])"

section \<open>Compaction-aware entry selection\<close>

text \<open>The loop over the entries before the compaction, with its flag \<open>foundFirstKept\<close>.\<close>

fun keptBefore :: "string \<Rightarrow> bool \<Rightarrow> session_entry list \<Rightarrow> session_entry list" where
  "keptBefore firstKept found [] = []"
| "keptBefore firstKept found (e # es) =
     (let found' = found \<or> e_id e = firstKept
      in if found' \<and> \<not> isSystemEntry e then e # keptBefore firstKept found' es
         else keptBefore firstKept found' es)"

definition compactPath :: "session_entry list \<Rightarrow> session_entry list" where
  "compactPath path =
     (case findLast isCompaction path of
        None \<Rightarrow> path
      | Some compaction \<Rightarrow>
          (case findIndex (\<lambda>e. e_id e = e_id compaction) path of
             None \<Rightarrow> path
           | Some compactionIdx \<Rightarrow>
               compaction #
               keptBefore (case compactionOf compaction of Some c \<Rightarrow> ce_firstKeptEntryId c | None \<Rightarrow> [])
                 False (take compactionIdx path) @
               drop (Suc compactionIdx) path))"

definition hiddenState :: "prune_state option \<Rightarrow> bool" where
  "hiddenState s \<longleftrightarrow> s = Some Excluded \<or> s = Some Summarized"

definition buildContextEntries ::
  "session_entry list \<Rightarrow> leaf_arg \<Rightarrow> entry_index option \<Rightarrow> (string \<times> prune_state) list option
   \<Rightarrow> session_entry list option" where
  "buildContextEntries entries leafId byId pruneStateById =
     map_option (\<lambda>path.
         (case pruneStateById of
            None \<Rightarrow> compactPath path
          | Some states \<Rightarrow>
              if states = [] then compactPath path
              else filter (\<lambda>e. \<not> hiddenState (map_of states (e_id e))) (compactPath path)))
       (buildSessionPath entries leafId byId)"

section \<open>Context edits\<close>

definition contextSummary :: "string \<Rightarrow> session_entry \<Rightarrow> agent_message" where
  "contextSummary t e = Custom (createCustomMessage ''context_summary'' (ContentString t) False None (e_timestamp e))"

definition blocksOf :: "content \<Rightarrow> content_block list" where
  "blocksOf c = (case c of ContentString s \<Rightarrow> [plainText s] | ContentBlocks bs \<Rightarrow> bs)"

text \<open>The \<open>switch (message.role)\<close> of \<open>projectContextEntry\<close> for a non-null replacement.\<close>

fun replaceContent :: "session_entry \<Rightarrow> content \<Rightarrow> bool \<Rightarrow> agent_message \<Rightarrow> agent_message" where
  "replaceContent e c curated (Assistant m) = Assistant (m\<lparr>am_content := blocksOf c\<rparr>)"
| "replaceContent e c curated (ToolResult m) = ToolResult (m\<lparr>tr_content := blocksOf c\<rparr>)"
| "replaceContent e c curated (User m) = User (m\<lparr>um_content := c\<rparr>)"
| "replaceContent e c curated (Custom m) = Custom (m\<lparr>cm_content := c\<rparr>)"
| "replaceContent e c curated (ContextStatus m) = ContextStatus (m\<lparr>cs_content := contentText c\<rparr>)"
| "replaceContent e c curated (CompactionSummary m) = CompactionSummary (m\<lparr>csm_summary := contentText c\<rparr>)"
| "replaceContent e c curated (BranchSummary m) = BranchSummary (m\<lparr>bsm_summary := contentText c\<rparr>)"
| "replaceContent e c curated (BashExecution m) = contextSummary (contentText c) e"
| "replaceContent e c curated (System m) =
     (case e_data e of
        MessageEntry _ _ \<Rightarrow> if curated then contextSummary (contentText c) e else System m
      | _ \<Rightarrow> System m)"
| "replaceContent e c curated (HookMessage m) = HookMessage m"
| "replaceContent e c curated (UnknownRole r j) = UnknownRole r j"

definition projectContextEntry :: "session_entry \<Rightarrow> session_entry option \<Rightarrow> agent_message list" where
  "projectContextEntry e change =
     (let messages = sessionEntryToContextMessages e in
      case change of
        None \<Rightarrow> messages
      | Some ch \<Rightarrow>
          (case e_data ch of
             PruneEntry _ state summary \<Rightarrow>
               if state = Included then messages
               else if state = Excluded \<or> summary = None \<or> summary = Some [] then []
               else (let s = contextSummary (CONTEXT_BLOCK_SUMMARY_PREFIX @ the summary) e in
                     case compactionOf e of
                       Some c \<Rightarrow> (case ce_systemMessage c of Some sm \<Rightarrow> [System sm, s] | None \<Rightarrow> [s])
                     | None \<Rightarrow> [s])
           | ContextEditEntry _ None _ \<Rightarrow> []
           | ContextEditEntry _ (Some c) curated \<Rightarrow> map (replaceContent e c curated) messages
           | _ \<Rightarrow> messages))"

type_synonym changes = "(string \<times> session_entry) list"

definition applyLegacyPrune :: "session_entry \<Rightarrow> changes \<Rightarrow> changes" where
  "applyLegacyPrune e changes =
     (case e_data e of
        PruneEntry t state _ \<Rightarrow> if state = Included then AList.delete t changes else AList.update t e changes
      | _ \<Rightarrow> changes)"

definition applyContextEdit :: "session_entry \<Rightarrow> changes \<Rightarrow> changes" where
  "applyContextEdit e changes =
     (case e_data e of
        ContextEditEntry t _ _ \<Rightarrow> AList.update t e changes
      | ContextEditCancelEntry t \<Rightarrow> AList.delete t changes
      | _ \<Rightarrow> changes)"

definition resolveContextChanges ::
  "session_entry list \<Rightarrow> session_entry list \<Rightarrow> changes option \<Rightarrow> changes" where
  "resolveContextChanges entries path legacyPruneChanges =
     fold applyContextEdit path
       (case legacyPruneChanges of
          Some legacy \<Rightarrow> legacy
        | None \<Rightarrow> fold applyLegacyPrune entries [])"

definition contextChangeState :: "session_entry option \<Rightarrow> prune_state option" where
  "contextChangeState change =
     (case change of
        None \<Rightarrow> None
      | Some ch \<Rightarrow>
          (case e_data ch of
             PruneEntry _ state _ \<Rightarrow> if state = Included then None else Some state
           | ContextEditEntry _ replacement curated \<Rightarrow>
               if curated then Some Summarized
               else if replacement = None then Some Excluded else None
           | _ \<Rightarrow> None))"

section \<open>Projection\<close>

record projected_entry =
  pe_source :: session_entry
  pe_messages :: "agent_message list"

record session_projection =
  sp_entries :: "projected_entry list"
  sp_messages :: "agent_message list"
  sp_thinkingLevel :: string
  sp_model :: "(string \<times> string) option"

definition projectOne :: "changes \<Rightarrow> session_entry \<Rightarrow> projected_entry" where
  "projectOne changes e =
     \<lparr>pe_source = e, pe_messages = projectContextEntry e (map_of changes (e_id e))\<rparr>"

text \<open>\<open>contextEntries.map((sourceEntry, index) => \<dots>)\<close>: a compaction contributes at index zero only.\<close>

fun projectEntries :: "changes \<Rightarrow> session_entry list \<Rightarrow> projected_entry list" where
  "projectEntries changes [] = []"
| "projectEntries changes (e # es) =
     projectOne changes e #
     map (\<lambda>e'. if isCompaction e' then \<lparr>pe_source = e', pe_messages = []\<rparr> else projectOne changes e') es"

definition buildSessionProjection ::
  "session_entry list \<Rightarrow> leaf_arg \<Rightarrow> entry_index option \<Rightarrow> changes option \<Rightarrow> session_projection option" where
  "buildSessionProjection entries leafId byId legacyPruneChanges =
     do {
       path \<leftarrow> buildSessionPath entries leafId byId;
       contextEntries \<leftarrow> buildContextEntries entries leafId byId None;
       let changes = resolveContextChanges entries path legacyPruneChanges;
       let projectedEntries = projectEntries changes contextEntries;
       let settings = getSessionContextSettings path;
       Some \<lparr>sp_entries = projectedEntries,
             sp_messages = concat (map pe_messages projectedEntries),
             sp_thinkingLevel = fst settings, sp_model = snd settings\<rparr>
     }"

record session_context =
  sc_messages :: "agent_message list"
  sc_thinkingLevel :: string
  sc_model :: "(string \<times> string) option"

definition buildSessionContext ::
  "session_entry list \<Rightarrow> leaf_arg \<Rightarrow> entry_index option \<Rightarrow> changes option \<Rightarrow> session_context option" where
  "buildSessionContext entries leafId byId legacyPruneChanges =
     map_option (\<lambda>p. \<lparr>sc_messages = sp_messages p, sc_thinkingLevel = sp_thinkingLevel p, sc_model = sp_model p\<rparr>)
       (buildSessionProjection entries leafId byId legacyPruneChanges)"

end
