(* ===== verification/Session_Projection.thy ===== *)
theory Session_Projection
  imports Session_Entries "HOL-Library.Sublist"
begin

text \<open>
  Properties of the pure session functions: the walk along parent links (when it returns and what
  it returns), the path of an entry in a well-formed log, compaction-aware selection, and how
  context edits act on the projection. \<open>projectPath\<close> is the projection as a function of the path
  and the legacy baseline alone; every branch-locality statement rests on it.
\<close>

section \<open>Indexes replayed from entries\<close>

fun indexEffect :: "session_entry \<Rightarrow> (string \<times> session_entry option) option" where
  "indexEffect e = Some (e_id e, Some e)"

interpretation index_log: keyed_log indexEntry map_of indexEffect
  by unfold_locales (simp add: indexEntry_def)

definition editEffect :: "session_entry \<Rightarrow> (string \<times> session_entry option) option" where
  "editEffect e =
     (case e_data e of
        ContextEditEntry t _ _ \<Rightarrow> Some (t, Some e)
      | ContextEditCancelEntry t \<Rightarrow> Some (t, None)
      | _ \<Rightarrow> None)"

interpretation edit_log: keyed_log applyContextEdit map_of editEffect
  by unfold_locales (simp add: applyContextEdit_def editEffect_def split: entry_data.splits)

definition legacyEffect :: "session_entry \<Rightarrow> (string \<times> session_entry option) option" where
  "legacyEffect e =
     (case e_data e of
        PruneEntry t state _ \<Rightarrow> Some (t, if state = Included then None else Some e)
      | _ \<Rightarrow> None)"

interpretation legacy_log: keyed_log applyLegacyPrune map_of legacyEffect
  by unfold_locales (simp add: applyLegacyPrune_def legacyEffect_def split: entry_data.splits)

section \<open>The walk along parent links\<close>

definition rootChain :: "entry_index \<Rightarrow> session_entry list \<Rightarrow> bool" where
  "rootChain index path \<longleftrightarrow>
     path \<noteq> [] \<and> parentOf index (hd path) = None \<and>
     successively (\<lambda>p e. parentOf index e = Some p) path"

lemma walkParents_chain_acc:
  assumes "walkParents index e acc = Some path"
  shows "successively (\<lambda>p x. parentOf index x = Some p) (e # acc) \<longrightarrow>
         rootChain index path \<and> (\<exists>pre. path = pre @ e # acc)"
proof (rule walkParents.raw_induct
    [where P = "\<lambda>index e acc path. successively (\<lambda>p x. parentOf index x = Some p) (e # acc) \<longrightarrow>
         rootChain index path \<and> (\<exists>pre. path = pre @ e # acc)", OF _ assms])
  fix f and index :: entry_index and e acc path
  assume IH: "\<And>index e acc path. f index e acc = Some path \<Longrightarrow>
      successively (\<lambda>p x. parentOf index x = Some p) (e # acc) \<longrightarrow>
      rootChain index path \<and> (\<exists>pre. path = pre @ e # acc)"
    and eq: "(case parentOf index e of None \<Rightarrow> Some (e # acc) | Some p \<Rightarrow> f index p (e # acc)) = Some path"
  show "successively (\<lambda>p x. parentOf index x = Some p) (e # acc) \<longrightarrow>
      rootChain index path \<and> (\<exists>pre. path = pre @ e # acc)"
  proof (cases "parentOf index e")
    case None
    with eq show ?thesis by (auto simp: rootChain_def)
  next
    case (Some p)
    with eq IH [of index p "e # acc" path] show ?thesis by fastforce
  qed
qed

lemma walkParents_of_chain:
  "rootChain index (pre @ [e]) \<Longrightarrow> walkParents index e acc = Some (pre @ e # acc)"
proof (induction pre arbitrary: e acc rule: rev_induct)
  case Nil
  then show ?case by (subst walkParents.simps) (simp add: rootChain_def)
next
  case (snoc p pre)
  from snoc.prems have p: "parentOf index e = Some p" and r: "rootChain index (pre @ [p])"
    by (auto simp: rootChain_def successively_append_iff hd_append split: if_splits)
  from p snoc.IH [OF r, of "e # acc"] show ?case by (subst walkParents.simps) simp
qed

lemma walkParents_iff:
  "walkParents index e [] = Some path \<longleftrightarrow> rootChain index path \<and> last path = e"
proof
  assume "walkParents index e [] = Some path"
  from walkParents_chain_acc [OF this] show "rootChain index path \<and> last path = e" by auto
next
  assume *: "rootChain index path \<and> last path = e"
  then have "path = butlast path @ [e]" by (auto simp: rootChain_def)
  with * walkParents_of_chain [of index "butlast path" e "[]"] show "walkParents index e [] = Some path"
    by simp
qed

text \<open>The walk diverges exactly on cyclic links; a self-parented entry is the smallest cycle.\<close>

lemma walkParents_self_loop:
  assumes "parentOf index e = Some e"
  shows "walkParents index e acc = None"
proof (rule ccontr)
  assume "walkParents index e acc \<noteq> None"
  then obtain path where w: "walkParents index e acc = Some path" by blast
  have "parentOf index e \<noteq> Some e"
  proof (rule walkParents.raw_induct [where P = "\<lambda>index e acc path. parentOf index e \<noteq> Some e", OF _ w])
    fix f and index :: entry_index and e acc path
    assume "\<And>index e acc path. f index e acc = Some path \<Longrightarrow> parentOf index e \<noteq> Some e"
      and "(case parentOf index e of None \<Rightarrow> Some (e # acc) | Some p \<Rightarrow> f index p (e # acc)) = Some path"
    then show "parentOf index e \<noteq> Some e" by (auto split: option.splits)
  qed
  with assms show False by simp
qed

section \<open>Well-formed logs\<close>

text \<open>Ids are non-empty and distinct, and every parent link points to an earlier entry.\<close>

definition entryOk :: "string set \<Rightarrow> session_entry \<Rightarrow> bool" where
  "entryOk seen e \<longleftrightarrow>
     e_id e \<noteq> [] \<and> e_id e \<notin> seen \<and> (case e_parentId e of None \<Rightarrow> True | Some p \<Rightarrow> p \<in> seen)"

fun wfFrom :: "string set \<Rightarrow> session_entry list \<Rightarrow> bool" where
  "wfFrom seen [] = True"
| "wfFrom seen (e # es) = (entryOk seen e \<and> wfFrom (insert (e_id e) seen) es)"

abbreviation wfEntries :: "session_entry list \<Rightarrow> bool" where
  "wfEntries es \<equiv> wfFrom {} es"

abbreviation ids :: "session_entry list \<Rightarrow> string set" where
  "ids es \<equiv> e_id ` set es"

abbreviation indexOf :: "session_entry list \<Rightarrow> entry_index" where
  "indexOf es \<equiv> fold indexEntry es []"

lemma wfFrom_snoc: "wfFrom seen (es @ [e]) \<longleftrightarrow> wfFrom seen es \<and> entryOk (seen \<union> ids es) e"
  by (induction es arbitrary: seen) auto

lemma wfFrom_append: "wfFrom seen (es @ fs) \<longleftrightarrow> wfFrom seen es \<and> wfFrom (seen \<union> ids es) fs"
  by (induction es arbitrary: seen) auto

lemma wfEntries_snoc: "wfEntries (es @ [e]) \<longleftrightarrow> wfEntries es \<and> entryOk (ids es) e"
  by (simp add: wfFrom_snoc)

lemma wfEntries_prefix: "wfEntries (es @ fs) \<Longrightarrow> wfEntries es"
  by (simp add: wfFrom_append)

lemma wfFrom_distinct: "wfFrom seen es \<Longrightarrow> distinct (map e_id es) \<and> seen \<inter> ids es = {}"
  by (induction es arbitrary: seen) (auto simp: entryOk_def)

lemma wfEntries_distinct: "wfEntries es \<Longrightarrow> distinct (map e_id es)"
  by (simp add: wfFrom_distinct)

lemma wfEntries_id_nonempty: "wfFrom seen es \<Longrightarrow> e \<in> set es \<Longrightarrow> e_id e \<noteq> []"
  by (induction es arbitrary: seen) (auto simp: entryOk_def)

lemma wfFrom_parent:
  "wfFrom seen es \<Longrightarrow> e \<in> set es \<Longrightarrow> e_parentId e = Some p \<Longrightarrow> p \<in> seen \<union> ids es"
  by (induction es arbitrary: seen) (auto simp: entryOk_def)

lemma map_of_indexEntry [simp]: "map_of (indexEntry e m) = (map_of m)(e_id e \<mapsto> e)"
  by (simp add: indexEntry_def)

lemma indexEntry_fresh: "e_id e \<notin> fst ` set m \<Longrightarrow> indexEntry e m = m @ [(e_id e, e)]"
  by (simp add: indexEntry_def update_fresh)

lemma subseq_set: "subseq xs ys \<Longrightarrow> set xs \<subseteq> set ys"
  by (auto simp: subseq_conv_nths set_nths)

lemma subseq_distinct_map: "subseq xs ys \<Longrightarrow> distinct (map f ys) \<Longrightarrow> distinct (map f xs)"
  unfolding subseq_conv_nths by (metis distinct_nthsI nths_map)

lemma indexOf_distinct: "distinct (map e_id es) \<Longrightarrow> indexOf es = map (\<lambda>e. (e_id e, e)) es"
proof (induction es rule: rev_induct)
  case (snoc e es)
  then have "indexOf es = map (\<lambda>e. (e_id e, e)) es" by simp
  with snoc.prems show ?case
    by (simp add: indexEntry_fresh image_image)
qed simp

lemma indexOf_lookup:
  "distinct (map e_id es) \<Longrightarrow> map_of (indexOf es) i = Some e \<longleftrightarrow> e \<in> set es \<and> e_id e = i"
  by (auto simp: indexOf_distinct map_of_eq_Some_iff comp_def)

lemma indexOf_None: "map_of (indexOf es) i = None \<longleftrightarrow> i \<notin> ids es"
proof (induction es rule: rev_induct)
  case (snoc e es)
  then show ?case by auto
qed simp

lemma indexOf_dom: "i \<in> ids es \<longleftrightarrow> (\<exists>e. map_of (indexOf es) i = Some e)"
  using indexOf_None [of es i] by (cases "map_of (indexOf es) i") auto

lemma parentOf_snoc:
  assumes "wfEntries (es @ [e'])" and "e \<in> set es"
  shows "parentOf (indexOf (es @ [e'])) e = parentOf (indexOf es) e"
proof (cases "e_parentId e")
  case (Some p)
  have wf: "wfEntries es" and ok: "entryOk (ids es) e'" using assms(1) by (simp_all add: wfFrom_snoc)
  have "p \<in> ids es" using wfFrom_parent [OF wf assms(2) Some] by simp
  moreover have "e_id e' \<notin> ids es" using ok by (simp add: entryOk_def)
  ultimately have "p \<noteq> e_id e'" by metis
  then show ?thesis using Some by (simp add: parentOf_def)
qed (simp add: parentOf_def)

lemma rootChain_snoc:
  assumes wf: "wfEntries (es @ [e'])" and "set path \<subseteq> set es" and "rootChain (indexOf es) path"
  shows "rootChain (indexOf (es @ [e'])) path"
proof -
  have p: "parentOf (indexEntry e' (indexOf es)) x = parentOf (indexOf es) x" if "x \<in> set path" for x
    using that assms(2) parentOf_snoc [OF wf, of x] by auto
  have "successively (\<lambda>p e. parentOf (indexOf (es @ [e'])) e = Some p) path"
    using assms(3) unfolding rootChain_def
    by (elim conjE) (erule successively_mono, simp add: p)
  with assms(3) p show ?thesis by (simp add: rootChain_def)
qed

lemma path_exists:
  "wfEntries es \<Longrightarrow> e \<in> set es \<Longrightarrow> \<exists>path. rootChain (indexOf es) path \<and> last path = e \<and> subseq path es"
proof (induction es arbitrary: e rule: rev_induct)
  case Nil
  then show ?case by simp
next
  case (snoc e' es)
  have wf: "wfEntries es" and ok: "entryOk (ids es) e'" using snoc.prems(1) by (simp_all add: wfFrom_snoc)
  have old: "\<exists>path. rootChain (indexOf (es @ [e'])) path \<and> last path = x \<and> subseq path es" if "x \<in> set es" for x
  proof -
    obtain path where path: "rootChain (indexOf es) path" "last path = x" "subseq path es"
      using snoc.IH [OF wf \<open>x \<in> set es\<close>] by blast
    then show ?thesis
      using rootChain_snoc [OF snoc.prems(1) subseq_set [OF path(3)] path(1)] by blast
  qed
  show ?case
  proof (cases "e \<in> set es")
    case True
    with old show ?thesis by (meson subseq_rev_drop_many)
  next
    case False
    then have e: "e = e'" using snoc.prems(2) by simp
    show ?thesis
    proof (cases "parentOf (indexOf (es @ [e'])) e'")
      case None
      then have "rootChain (indexOf (es @ [e'])) [e']" by (simp add: rootChain_def)
      moreover have "subseq [e'] (es @ [e'])" by (simp add: subseq_singleton_left)
      ultimately show ?thesis using e by (intro exI [of _ "[e']"]) simp
    next
      case (Some p)
      have "p \<in> set es"
      proof -
        obtain q where q: "e_parentId e' = Some q" and "map_of (indexOf (es @ [e'])) q = Some p"
          using Some by (auto simp: parentOf_def split: option.splits if_splits)
        moreover have "q \<noteq> e_id e'" using ok q unfolding entryOk_def by (metis option.simps(5))
        ultimately show ?thesis
          using indexOf_lookup [OF wfEntries_distinct [OF wf]] by simp
      qed
      from old [OF this] obtain path where path:
        "rootChain (indexOf (es @ [e'])) path" "last path = p" "subseq path es" by blast
      have "rootChain (indexOf (es @ [e'])) (path @ [e'])"
        using path Some by (auto simp: rootChain_def successively_append_iff)
      then show ?thesis using e path by (intro exI [of _ "path @ [e']"]) simp
    qed
  qed
qed

lemma rootChain_unique:
  "rootChain index path \<Longrightarrow> rootChain index path' \<Longrightarrow> last path = last path' \<Longrightarrow> path = path'"
  using walkParents_iff [of index "last path" path] walkParents_iff [of index "last path" path'] by simp

lemma walkParents_wf:
  assumes "wfEntries es" and "e \<in> set es"
  obtains path where "walkParents (indexOf es) e [] = Some path" "rootChain (indexOf es) path"
    "last path = e" "subseq path es" "distinct (map e_id path)" "path \<noteq> []"
proof -
  obtain path where p: "rootChain (indexOf es) path" "last path = e" "subseq path es"
    using path_exists [OF assms] by blast
  then have "distinct (map e_id path)"
    using subseq_distinct_map wfEntries_distinct [OF assms(1)] by blast
  with p that [of path] show thesis by (simp add: walkParents_iff rootChain_def)
qed

text \<open>The path of an entry does not depend on entries appended later.\<close>

lemma walkParents_snoc:
  assumes wf: "wfEntries (es @ [e'])" and "e \<in> set es"
  shows "walkParents (indexOf (es @ [e'])) e [] = walkParents (indexOf es) e []"
proof -
  have "wfEntries es" using wf by (rule wfEntries_prefix)
  then obtain path where p: "walkParents (indexOf es) e [] = Some path" "rootChain (indexOf es) path"
    "last path = e" "subseq path es" using walkParents_wf [OF _ assms(2)] by metis
  have "rootChain (indexOf (es @ [e'])) path" by (rule rootChain_snoc [OF wf subseq_set [OF p(4)] p(2)])
  with p(3) have "walkParents (indexOf (es @ [e'])) e [] = Some path" unfolding walkParents_iff by simp
  with p(1) show ?thesis by simp
qed

text \<open>The path of a new leaf is the path of its parent followed by the leaf.\<close>

lemma walkParents_child:
  assumes wf: "wfEntries (es @ [e'])" and "e_parentId e' = Some (e_id p)" and "p \<in> set es"
  shows "walkParents (indexOf (es @ [e'])) e' [] = map_option (\<lambda>path. path @ [e']) (walkParents (indexOf es) p [])"
proof -
  have wf': "wfEntries es" using wf by (rule wfEntries_prefix)
  obtain path where w: "walkParents (indexOf es) p [] = Some path" "rootChain (indexOf es) path"
    "last path = p" "subseq path es" using walkParents_wf [OF wf' assms(3)] by metis
  have "rootChain (indexOf (es @ [e'])) path" by (rule rootChain_snoc [OF wf subseq_set [OF w(4)] w(2)])
  moreover have "parentOf (indexOf (es @ [e'])) e' = Some p"
  proof -
    have "map_of (indexOf es) (e_id p) = Some p"
      using indexOf_lookup [OF wfEntries_distinct [OF wf']] assms(3) by blast
    moreover have "e_id p \<noteq> e_id e'"
      using wf assms(3) unfolding wfEntries_snoc entryOk_def by (metis imageI)
    moreover have "e_id p \<noteq> []" by (rule wfEntries_id_nonempty [OF wf' assms(3)])
    ultimately show ?thesis using assms(2) by (simp add: parentOf_def)
  qed
  ultimately have "rootChain (indexOf (es @ [e'])) (path @ [e'])"
    using w(3) by (auto simp: rootChain_def successively_append_iff)
  then have "walkParents (indexOf (es @ [e'])) e' [] = Some (path @ [e'])"
    by (simp only: walkParents_iff last_snoc simp_thms)
  with w(1) show ?thesis by simp
qed

lemma walkParents_root:
  "e_parentId e = None \<Longrightarrow> walkParents index e [] = Some [e]"
  by (subst walkParents.simps) (simp add: parentOf_def)

section \<open>The projection as a function of the path\<close>

definition projectPath :: "changes \<Rightarrow> session_entry list \<Rightarrow> session_projection" where
  "projectPath legacy path =
     (let projectedEntries = projectEntries (fold applyContextEdit path legacy) (compactPath path)
      in \<lparr>sp_entries = projectedEntries,
          sp_messages = concat (map pe_messages projectedEntries),
          sp_thinkingLevel = fst (getSessionContextSettings path),
          sp_model = snd (getSessionContextSettings path)\<rparr>)"

lemma buildSessionProjection_path:
  "buildSessionProjection es leaf byId (Some legacy) =
     map_option (projectPath legacy) (buildSessionPath es leaf byId)"
  by (cases "buildSessionPath es leaf byId")
     (simp_all add: buildSessionProjection_def buildContextEntries_def projectPath_def
        resolveContextChanges_def Let_def)

lemma findIndex_append: "findIndex P xs = Some i \<Longrightarrow> findIndex P (xs @ ys) = Some i"
  by (induction xs arbitrary: i) (auto split: if_splits)

lemma findIndex_snoc_fresh:
  "\<not> P y \<Longrightarrow> findIndex P (xs @ [y]) = findIndex P xs"
  by (induction xs) auto

lemma compactPath_snoc:
  assumes "\<not> isCompaction e"
  shows "compactPath (path @ [e]) = compactPath path @ [e]"
proof (cases "findLast isCompaction path")
  case None
  then show ?thesis using assms by (simp add: compactPath_def)
next
  case (Some c)
  then have "c \<in> set path" by (simp add: findLast_Some)
  then obtain i where i: "findIndex (\<lambda>e. e_id e = e_id c) path = Some i"
    by (cases "findIndex (\<lambda>e. e_id e = e_id c) path") (auto simp: findIndex_None_iff)
  then have "i < length path" by (simp add: findIndex_Some)
  then show ?thesis using Some i assms findIndex_append [OF i, of "[e]"] by (simp add: compactPath_def)
qed

lemma compactPath_snoc_compaction:
  assumes "compactionOf e = Some c" and "e_id e \<notin> ids path"
  shows "compactPath (path @ [e]) = e # keptBefore (ce_firstKeptEntryId c) False path"
proof -
  have "findIndex (\<lambda>x. e_id x = e_id e) (path @ [e]) = Some (length path)"
    using assms(2) by (intro findIndex_append_Cons) (metis imageI, simp)
  then show ?thesis using assms(1) by (simp add: compactPath_def isCompaction_def)
qed

lemma keptBefore_subset: "set (keptBefore k b es) \<subseteq> set es"
  by (induction es arbitrary: b) (auto simp: Let_def)

lemma compactPath_subset: "set (compactPath path) \<subseteq> set path"
  by (auto simp: compactPath_def split: option.splits
      dest!: subsetD [OF keptBefore_subset] in_set_takeD in_set_dropD dest: findLast_Some)

lemma projectEntries_cong:
  assumes "\<And>e. e \<in> set es \<Longrightarrow> map_of c (e_id e) = map_of c' (e_id e)"
  shows "projectEntries c es = projectEntries c' es"
  using assms by (cases es) (auto simp: projectOne_def)

lemma projectEntries_snoc:
  assumes "\<not> isCompaction e"
  shows "projectEntries c (es @ [e]) = projectEntries c es @ [projectOne c e]"
  using assms by (cases es) auto

lemma map_pe_source_projectEntries [simp]: "map pe_source (projectEntries c es) = es"
  by (cases es) (auto simp: projectOne_def intro!: map_idI)

lemma settings_snoc: "getSessionContextSettings (path @ [e]) = applySetting e (getSessionContextSettings path)"
  by (simp add: getSessionContextSettings_def)

section \<open>Appending to a path\<close>

text \<open>Two projections that differ at most in what the entry with id \<open>t\<close> contributes.\<close>

definition sameExcept :: "string \<Rightarrow> projected_entry list \<Rightarrow> projected_entry list \<Rightarrow> bool" where
  "sameExcept t pes pes' \<longleftrightarrow>
     list_all2 (\<lambda>pe pe'. pe_source pe = pe_source pe' \<and> (e_id (pe_source pe) \<noteq> t \<longrightarrow> pe = pe')) pes pes'"

lemma projectEntries_sameExcept:
  assumes "\<And>k. k \<noteq> t \<Longrightarrow> map_of c k = map_of c' k"
  shows "sameExcept t (projectEntries c es) (projectEntries c' es)"
  using assms by (cases es) (auto simp: sameExcept_def projectOne_def list.rel_map intro!: list.rel_refl)

lemma sameExcept_absent:
  assumes "sameExcept t pes pes'" and "t \<notin> (e_id \<circ> pe_source) ` set pes"
  shows "pes = pes'"
  using assms unfolding sameExcept_def
  by (induction pes pes' rule: list_all2_induct) (auto simp: image_iff)

lemma editEffect_plain:
  assumes "editEffect e = Some (t, v)"
  shows "\<not> isCompaction e" "sessionEntryToContextMessages e = []" "applySetting e s = s"
  using assms
  by (cases "e_data e"; cases s; simp add: editEffect_def isCompaction_def sessionEntryToContextMessages_def)+

abbreviation changesOf :: "changes \<Rightarrow> session_entry list \<Rightarrow> changes" where
  "changesOf legacy path \<equiv> fold applyContextEdit path legacy"

lemma projectPath_entries: "sp_entries (projectPath legacy path) = projectEntries (changesOf legacy path) (compactPath path)"
  by (simp add: projectPath_def Let_def)

lemma projectPath_messages: "sp_messages (projectPath legacy path) = concat (map pe_messages (sp_entries (projectPath legacy path)))"
  by (simp add: projectPath_def Let_def)

lemma applyContextEdit_plain: "editEffect e = None \<Longrightarrow> applyContextEdit e c = c"
  by (auto simp: editEffect_def applyContextEdit_def split: entry_data.splits)

lemma projectPath_snoc_plain:
  assumes "\<not> isCompaction e" and "editEffect e = None"
  shows "sp_entries (projectPath legacy (path @ [e])) =
         sp_entries (projectPath legacy path) @ [projectOne (changesOf legacy path) e]"
  using assms
  by (simp add: projectPath_entries applyContextEdit_plain compactPath_snoc projectEntries_snoc)

lemma projectPath_snoc_edit:
  assumes e: "editEffect e = Some (t, v)" and "map_of (changesOf legacy path) (e_id e) = None" and "e_id e \<noteq> t"
  shows "\<exists>pes. sp_entries (projectPath legacy (path @ [e])) = pes @ [\<lparr>pe_source = e, pe_messages = []\<rparr>] \<and>
              sameExcept t (sp_entries (projectPath legacy path)) pes \<and>
              pes = projectEntries (changesOf legacy (path @ [e])) (compactPath path)"
proof -
  let ?c = "changesOf legacy path" and ?c' = "changesOf legacy (path @ [e])"
  have c': "map_of ?c' = (map_of ?c)(t := v)" using e by (simp add: edit_log.look_upd)
  have "projectOne ?c' e = \<lparr>pe_source = e, pe_messages = []\<rparr>"
    using assms(2,3) unfolding projectOne_def c' by (simp add: projectContextEntry_def editEffect_plain [OF e])
  moreover have "sameExcept t (sp_entries (projectPath legacy path)) (projectEntries ?c' (compactPath path))"
    unfolding projectPath_entries unfolding c' by (rule projectEntries_sameExcept) (simp add: c' [simplified])
  ultimately show ?thesis
    using editEffect_plain(1) [OF e]
    by (simp only: projectPath_entries compactPath_snoc projectEntries_snoc not_False_eq_True) blast
qed

section \<open>Reading a list from an id on\<close>

abbreviation startingAt :: "string \<Rightarrow> session_entry list \<Rightarrow> session_entry list" where
  "startingAt i es \<equiv> dropWhile (\<lambda>e. e_id e \<noteq> i) es"

lemma keptBefore_True: "keptBefore k True es = filter (\<lambda>e. \<not> isSystemEntry e) es"
  by (induction es) (auto simp: Let_def)

lemma keptBefore_fromId: "keptBefore k False es = filter (\<lambda>e. \<not> isSystemEntry e) (startingAt k es)"
  by (induction es) (auto simp: Let_def keptBefore_True)

lemma fromId_drop:
  "distinct (map e_id es) \<Longrightarrow> n < length es \<Longrightarrow> startingAt (e_id (es ! n)) es = drop n es"
proof (induction es arbitrary: n)
  case (Cons e es)
  then show ?case by (cases n) auto
qed simp

lemma fromId_filter:
  "distinct (map e_id es) \<Longrightarrow> i \<in> ids (filter P es) \<Longrightarrow> startingAt i (filter P es) = filter P (startingAt i es)"
proof (induction es)
  case (Cons e es)
  show ?case
  proof (cases "e_id e = i")
    case True
    then have "i \<notin> ids es" using Cons.prems(1) by auto
    then have "P e" using Cons.prems(2) by (auto split: if_splits)
    with True show ?thesis by simp
  next
    case False
    then have "i \<in> ids (filter P es)" using Cons.prems(2) by (auto split: if_splits)
    with False Cons show ?thesis by simp
  qed
qed simp

lemma fromId_fromId:
  "distinct (map e_id es) \<Longrightarrow> i \<in> ids (startingAt j es) \<Longrightarrow> startingAt i (startingAt j es) = startingAt i es"
proof (induction es)
  case (Cons e es)
  then show ?case
    by (cases "e_id e = j") (auto dest!: set_dropWhileD)
qed simp

lemma fromId_append_in: "i \<in> ids xs \<Longrightarrow> startingAt i (xs @ ys) = startingAt i xs @ ys"
  by (induction xs) auto

lemma fromId_append_out: "i \<notin> ids xs \<Longrightarrow> startingAt i (xs @ ys) = startingAt i ys"
  by (induction xs) auto

section \<open>The newest compaction of a path\<close>

lemma findLast_split:
  "findLast P xs = Some c \<Longrightarrow> \<exists>pre post. xs = pre @ c # post \<and> P c \<and> (\<forall>e \<in> set post. \<not> P e)"
proof (induction xs rule: rev_induct)
  case (snoc x xs)
  then show ?case
  proof (cases "P x")
    case False
    with snoc obtain pre post where "xs = pre @ c # post" "P c" "\<forall>e \<in> set post. \<not> P e" by auto
    with False show ?thesis by (intro exI [of _ pre] exI [of _ "post @ [x]"]) auto
  next
    case True
    with snoc.prems show ?thesis by (intro exI [of _ xs] exI [of _ "[]"]) simp
  qed
qed simp

lemma compactPath_at:
  assumes "distinct (map e_id (pre @ c # post))" and "compactionOf c = Some cd" and "\<forall>e \<in> set post. \<not> isCompaction e"
  shows "compactPath (pre @ c # post) = c # keptBefore (ce_firstKeptEntryId cd) False pre @ post"
proof -
  have "findLast isCompaction post = None" using assms(3) by (simp add: findLast_None_iff)
  then have l: "findLast isCompaction (pre @ c # post) = Some c"
    using assms(2) by (simp add: findLast_append findLast_Cons isCompaction_def)
  have "findIndex (\<lambda>e. e_id e = e_id c) (pre @ c # post) = Some (length pre)"
    by (rule findIndex_append_Cons) (use assms(1) in \<open>auto simp: image_iff\<close>)
  then show ?thesis using l assms(2) by (simp add: compactPath_def)
qed

lemma compactPath_plain: "\<forall>e \<in> set path. \<not> isCompaction e \<Longrightarrow> compactPath path = path"
  using findLast_None_iff [of isCompaction path] by (simp add: compactPath_def)

lemma compactPath_cases:
  assumes "distinct (map e_id path)"
  obtains (plain) "\<forall>e \<in> set path. \<not> isCompaction e" "compactPath path = path"
  | (compacted) pre c post k where "path = pre @ c # post" "isCompaction c" "\<forall>e \<in> set post. \<not> isCompaction e"
      "compactPath path = c # keptBefore k False pre @ post"
proof (cases "findLast isCompaction path")
  case None
  then have "\<forall>e \<in> set path. \<not> isCompaction e" using findLast_None_iff [of isCompaction path] by simp
  then show thesis using that(1) compactPath_plain by blast
next
  case (Some c)
  then obtain pre post where path: "path = pre @ c # post" "isCompaction c" "\<forall>e \<in> set post. \<not> isCompaction e"
    using findLast_split by metis
  then obtain cd where "compactionOf c = Some cd" by (auto simp: isCompaction_def)
  then show thesis using that(2) path assms compactPath_at by metis
qed

end
