(* ===== verification/Session_Migration.thy ===== *)
theory Session_Migration
  imports Session_Projection
begin

text \<open>
  Entry ids and the version migrations of session files (\<open>session-manager.ts\<close>: \<open>generateId\<close>,
  \<open>migrateV1ToV2\<close>, \<open>migrateV2ToV3\<close>, \<open>migrateToCurrentVersion\<close>). The random UUIDs a call of
  \<open>generateId\<close> draws are a parameter: \<open>uuids i\<close> is the result of its \<open>i\<close>-th \<open>randomUUID()\<close>.
\<close>

section \<open>Ids\<close>

fun generateIdTry :: "(nat \<Rightarrow> string) \<Rightarrow> (string \<Rightarrow> bool) \<Rightarrow> nat \<Rightarrow> nat \<Rightarrow> string" where
  "generateIdTry uuids has 0 i = uuids i"
| "generateIdTry uuids has (Suc n) i =
     (let id = take 8 (uuids i) in if \<not> has id then id else generateIdTry uuids has n (Suc i))"

definition generateId :: "(nat \<Rightarrow> string) \<Rightarrow> (string \<Rightarrow> bool) \<Rightarrow> string" where
  "generateId uuids has = generateIdTry uuids has 100 0"

definition alnum :: "char \<Rightarrow> bool" where
  "alnum c \<longleftrightarrow> (let n = (of_char c :: nat) in (48 \<le> n \<and> n \<le> 57) \<or> (65 \<le> n \<and> n \<le> 90) \<or> (97 \<le> n \<and> n \<le> 122))"

definition sessionIdChar :: "char \<Rightarrow> bool" where
  "sessionIdChar c \<longleftrightarrow> alnum c \<or> c \<in> {CHR ''.'', CHR ''_'', CHR ''-''}"

definition assertValidSessionId :: "string \<Rightarrow> unit js_result" where
  "assertValidSessionId s =
     (if s \<noteq> [] \<and> alnum (hd s) \<and> alnum (last s) \<and> list_all sessionIdChar s then Inr ()
      else Inl (JsError ''Session id must be non-empty, contain only alphanumeric characters, '-', '_', and '.', and start and end with an alphanumeric character''))"

text \<open>What is used of UUIDs: they are not empty, and the fallback one is not taken.\<close>

definition uuidsOk :: "(nat \<Rightarrow> string) \<Rightarrow> bool" where
  "uuidsOk uuids \<longleftrightarrow> (\<forall>i. uuids i \<noteq> [])"

lemma generateIdTry_fresh: "\<not> has (uuids (i + n)) \<Longrightarrow> \<not> has (generateIdTry uuids has n i)"
  by (induction n arbitrary: i) (auto simp: Let_def)

lemma generateId_fresh: "\<not> has (uuids 100) \<Longrightarrow> \<not> has (generateId uuids has)"
  unfolding generateId_def by (rule generateIdTry_fresh) simp

lemma generateIdTry_nonempty: "uuidsOk uuids \<Longrightarrow> generateIdTry uuids has n i \<noteq> []"
  by (induction n arbitrary: i) (auto simp: Let_def uuidsOk_def)

lemma generateId_nonempty: "uuidsOk uuids \<Longrightarrow> generateId uuids has \<noteq> []"
  unfolding generateId_def by (rule generateIdTry_nonempty)

lemma generateId_first: "\<not> has (take 8 (uuids 0)) \<Longrightarrow> generateId uuids has = take 8 (uuids 0)"
proof -
  assume "\<not> has (take 8 (uuids 0))"
  moreover have "(100::nat) = Suc 99" by simp
  ultimately show ?thesis unfolding generateId_def by (simp only: generateIdTry.simps Let_def if_True simp_thms)
qed

section \<open>Migration from version 1\<close>

text \<open>The conversion of \<open>firstKeptEntryIndex\<close>: \<open>entries\<close> is the array at that moment.\<close>

definition convertFirstKept :: "file_entry list \<Rightarrow> session_entry \<Rightarrow> session_entry" where
  "convertFirstKept entries e =
     (case compactionOf e of
        None \<Rightarrow> e
      | Some c \<Rightarrow>
          (case ce_firstKeptEntryIndex c of
             None \<Rightarrow> e
           | Some k \<Rightarrow>
               e\<lparr>e_data := CompactionEntry (c\<lparr>
                   ce_firstKeptEntryId :=
                     (if k < length entries
                      then (case asEntry (entries ! k) of Some t \<Rightarrow> e_id t | None \<Rightarrow> ce_firstKeptEntryId c)
                      else ce_firstKeptEntryId c),
                   ce_firstKeptEntryIndex := None\<rparr>)\<rparr>))"

text \<open>
  The loop mutates the array in place: \<open>done\<close> is its migrated part. The set \<open>ids\<close> handed to
  \<open>generateId\<close> is never filled by the source, so \<open>has\<close> is constantly false.
\<close>

fun migrateV1Loop ::
  "(nat \<Rightarrow> nat \<Rightarrow> string) \<Rightarrow> string option \<Rightarrow> file_entry list \<Rightarrow> file_entry list \<Rightarrow> file_entry list" where
  "migrateV1Loop uuids prevId done [] = done"
| "migrateV1Loop uuids prevId done (Header h # rest) =
     migrateV1Loop uuids prevId (done @ [Header (h\<lparr>h_version := Some 2\<rparr>)]) rest"
| "migrateV1Loop uuids prevId done (Entry e # rest) =
     (let newId = generateId (uuids (length done)) (\<lambda>_. False);
          e1 = e\<lparr>e_id := newId, e_parentId := prevId\<rparr>;
          e2 = convertFirstKept (done @ Entry e1 # rest) e1
      in migrateV1Loop uuids (Some newId) (done @ [Entry e2]) rest)"

definition migrateV1ToV2 :: "(nat \<Rightarrow> nat \<Rightarrow> string) \<Rightarrow> file_entry list \<Rightarrow> file_entry list" where
  "migrateV1ToV2 uuids entries = migrateV1Loop uuids None [] entries"

section \<open>Migration from version 2\<close>

fun renameHookMessage :: "session_entry \<Rightarrow> session_entry" where
  "renameHookMessage e =
     (case e_data e of
        MessageEntry (HookMessage m) contentNull \<Rightarrow> e\<lparr>e_data := MessageEntry (Custom m) contentNull\<rparr>
      | _ \<Rightarrow> e)"

fun migrateEntryV2ToV3 :: "file_entry \<Rightarrow> file_entry" where
  "migrateEntryV2ToV3 (Header h) = Header (h\<lparr>h_version := Some 3\<rparr>)"
| "migrateEntryV2ToV3 (Entry e) = Entry (renameHookMessage e)"

definition migrateV2ToV3 :: "file_entry list \<Rightarrow> file_entry list" where
  "migrateV2ToV3 entries = map migrateEntryV2ToV3 entries"

definition CURRENT_SESSION_VERSION :: nat where
  "CURRENT_SESSION_VERSION = 3"

fun asHeader :: "file_entry \<Rightarrow> session_header option" where
  "asHeader (Header h) = Some h"
| "asHeader (Entry _) = None"

definition findHeader :: "file_entry list \<Rightarrow> session_header option" where
  "findHeader entries = (case List.find (\<lambda>fe. asHeader fe \<noteq> None) entries of None \<Rightarrow> None | Some fe \<Rightarrow> asHeader fe)"

definition sessionVersion :: "file_entry list \<Rightarrow> nat" where
  "sessionVersion entries =
     (case findHeader entries of None \<Rightarrow> 1 | Some h \<Rightarrow> (case h_version h of None \<Rightarrow> 1 | Some v \<Rightarrow> v))"

definition migrateToCurrentVersion ::
  "(nat \<Rightarrow> nat \<Rightarrow> string) \<Rightarrow> file_entry list \<Rightarrow> bool \<times> file_entry list" where
  "migrateToCurrentVersion uuids entries =
     (let version = sessionVersion entries in
      if CURRENT_SESSION_VERSION \<le> version then (False, entries)
      else let e2 = (if version < 2 then migrateV1ToV2 uuids entries else entries);
               e3 = (if version < 3 then migrateV2ToV3 e2 else e2)
           in (True, e3))"

section \<open>Lemmas\<close>

abbreviation entriesOf :: "file_entry list \<Rightarrow> session_entry list" where
  "entriesOf fes \<equiv> List.map_filter asEntry fes"

lemma entriesOf_simps [simp]:
  "entriesOf [] = []" "entriesOf (Header h # fes) = entriesOf fes" "entriesOf (Entry e # fes) = e # entriesOf fes"
  "entriesOf (map Entry es) = es"
  by (simp_all add: List.map_filter_def comp_def)

lemma entriesOf_append [simp]: "entriesOf (xs @ ys) = entriesOf xs @ entriesOf ys"
  by (rule map_filter_append)

definition newIdAt :: "(nat \<Rightarrow> nat \<Rightarrow> string) \<Rightarrow> nat \<Rightarrow> string" where
  "newIdAt uuids i = take 8 (uuids i 0)"

lemma generateId_unchecked: "generateId (uuids i) (\<lambda>_. False) = newIdAt uuids i"
  by (simp add: generateId_first newIdAt_def)

lemma convertFirstKept_fields [simp]:
  "e_id (convertFirstKept fes e) = e_id e" "e_parentId (convertFirstKept fes e) = e_parentId e"
  "e_timestamp (convertFirstKept fes e) = e_timestamp e"
  by (simp_all add: convertFirstKept_def split: option.splits)

lemma convertFirstKept_messages:
  "sessionEntryToContextMessages (convertFirstKept fes e) = sessionEntryToContextMessages e"
  by (simp add: convertFirstKept_def sessionEntryToContextMessages_def Let_def split: option.splits entry_data.splits)

lemma sessionEntryToContextMessages_links [simp]:
  "sessionEntryToContextMessages (e\<lparr>e_id := i, e_parentId := p\<rparr>) = sessionEntryToContextMessages e"
  by (simp add: sessionEntryToContextMessages_def split: entry_data.split)

text \<open>A linear log: each entry is the child of the one before it.\<close>

fun linearFrom :: "string option \<Rightarrow> session_entry list \<Rightarrow> bool" where
  "linearFrom prev [] = True"
| "linearFrom prev (e # es) = (e_parentId e = prev \<and> linearFrom (Some (e_id e)) es)"

lemma linearFrom_wf:
  assumes "linearFrom prev es" and "distinct (map e_id es)" and "\<forall>e \<in> set es. e_id e \<noteq> [] \<and> e_id e \<notin> seen"
    and "case prev of None \<Rightarrow> True | Some p \<Rightarrow> p \<in> seen"
  shows "wfFrom seen es"
  using assms
proof (induction es arbitrary: prev seen)
  case (Cons e es)
  have "wfFrom (insert (e_id e) seen) es"
    using Cons.prems by (intro Cons.IH [of "Some (e_id e)"]) (auto simp: image_iff)
  then show ?case using Cons.prems by (auto simp: entryOk_def split: option.splits)
qed simp

lemma linearFrom_successively:
  assumes "linearFrom prev es" and "\<forall>e \<in> set es. e_id e \<noteq> [] \<and> map_of index (e_id e) = Some e"
  shows "successively (\<lambda>p e. parentOf index e = Some p) es"
  using assms
proof (induction es arbitrary: prev)
  case (Cons e es)
  then show ?case by (cases es) (auto simp: parentOf_def)
qed simp

lemma linear_path:
  assumes "linearFrom None es" and "distinct (map e_id es)" and "\<forall>e \<in> set es. e_id e \<noteq> []"
  shows "buildSessionPath es LeafUndefined None = Some es"
proof (cases "es = []")
  case True
  then show ?thesis by (simp add: buildSessionPath_def buildEntryIndex_def)
next
  case False
  have "successively (\<lambda>p e. parentOf (indexOf es) e = Some p) es"
    using assms indexOf_lookup [OF assms(2)] by (intro linearFrom_successively) auto
  moreover have "parentOf (indexOf es) (hd es) = None"
    using assms(1) False by (cases es) (auto simp: parentOf_def)
  ultimately have "rootChain (indexOf es) es" using False by (simp add: rootChain_def)
  then have "walkParents (indexOf es) (last es) [] = Some es" by (simp add: walkParents_iff)
  then show ?thesis using False by (simp add: buildSessionPath_def buildEntryIndex_def)
qed

lemma migrateV1Loop_shape:
  "\<exists>es'. migrateV1Loop uuids prev done (map Entry es) = done @ map Entry es' \<and>
         linearFrom prev es' \<and>
         map e_id es' = map (newIdAt uuids) [length done..<length done + length es] \<and>
         map e_timestamp es' = map e_timestamp es \<and>
         map sessionEntryToContextMessages es' = map sessionEntryToContextMessages es"
proof (induction es arbitrary: prev "done")
  case (Cons e es)
  let ?id = "newIdAt uuids (length done)"
  let ?e1 = "e\<lparr>e_id := ?id, e_parentId := prev\<rparr>"
  let ?e2 = "convertFirstKept (done @ Entry ?e1 # map Entry es) ?e1"
  obtain es' where es': "migrateV1Loop uuids (Some ?id) (done @ [Entry ?e2]) (map Entry es) = (done @ [Entry ?e2]) @ map Entry es'"
    "linearFrom (Some ?id) es'"
    "map e_id es' = map (newIdAt uuids) [length (done @ [Entry ?e2])..<length (done @ [Entry ?e2]) + length es]"
    "map e_timestamp es' = map e_timestamp es"
    "map sessionEntryToContextMessages es' = map sessionEntryToContextMessages es"
    using Cons.IH [of "Some ?id" "done @ [Entry ?e2]"] by blast
  have "[length done..<length done + length (e # es)] = length done # [Suc (length done)..<Suc (length done) + length es]"
    using upt_conv_Cons [of "length done" "length done + length (e # es)"] by (simp del: upt_Suc)
  then show ?case
    using es' by (intro exI [of _ "?e2 # es'"])
      (simp add: Let_def generateId_unchecked convertFirstKept_messages del: upt_Suc)
qed simp

text \<open>
  C30 (migration): when the first eight characters of the drawn UUIDs are distinct, migrating a
  version 1 file gives a well-formed log whose active path is the whole conversation in its old
  order, every entry keeps its timestamp and what it contributes to the context, and the header
  has version 2.
\<close>

theorem migrateV1ToV2_correct:
  assumes "distinct (map (newIdAt uuids) [1..<Suc (length es)])" and "\<forall>i. uuids i 0 \<noteq> []"
  shows "\<exists>es'. migrateV1ToV2 uuids (Header h # map Entry es) = Header (h\<lparr>h_version := Some 2\<rparr>) # map Entry es' \<and>
         wfEntries es' \<and> buildSessionPath es' LeafUndefined None = Some es' \<and>
         map e_timestamp es' = map e_timestamp es \<and>
         map sessionEntryToContextMessages es' = map sessionEntryToContextMessages es"
proof -
  obtain es' where es': "migrateV1Loop uuids None [Header (h\<lparr>h_version := Some 2\<rparr>)] (map Entry es) =
      [Header (h\<lparr>h_version := Some 2\<rparr>)] @ map Entry es'"
    "linearFrom None es'" "map e_id es' = map (newIdAt uuids) [1..<Suc (length es)]"
    "map e_timestamp es' = map e_timestamp es"
    "map sessionEntryToContextMessages es' = map sessionEntryToContextMessages es"
    using migrateV1Loop_shape [of uuids None "[Header (h\<lparr>h_version := Some 2\<rparr>)]" es] by auto
  have d: "distinct (map e_id es')" using assms(1) es'(3) by simp
  have "set (map e_id es') \<subseteq> range (newIdAt uuids)" unfolding es'(3) by auto
  then have ne: "\<forall>e \<in> set es'. e_id e \<noteq> []" using assms(2) by (auto simp: newIdAt_def image_subset_iff image_iff)
  show ?thesis
    using es' linearFrom_wf [OF es'(2) d, of "{}"] linear_path [OF es'(2) d ne] ne
    by (intro exI [of _ es']) (simp add: migrateV1ToV2_def)
qed

definition sampleEntry :: "string \<Rightarrow> string option \<Rightarrow> agent_message \<Rightarrow> session_entry" where
  "sampleEntry i p m = \<lparr>e_id = i, e_parentId = p, e_timestamp = 0, e_data = MessageEntry m False\<rparr>"

definition sampleUser :: "string \<Rightarrow> agent_message" where
  "sampleUser t = User \<lparr>um_content = ContentString t, um_timestamp = 0\<rparr>"

definition sampleHeader :: session_header where
  "sampleHeader = \<lparr>h_version = None, h_id = ''s'', h_timestamp = 0, h_cwd = ''/w'', h_parentSession = None\<rparr>"

lemma showNat_digit: "i < 10 \<Longrightarrow> showNat i = [digitChar i]"
  by (simp add: showNat.simps)

theorem migrateV1ToV2_correct_witness:
  "\<exists>es'. migrateV1ToV2 (\<lambda>i j. showNat i) (Header sampleHeader # map Entry [sampleEntry [] None (sampleUser ''hi''), sampleEntry [] None (sampleUser ''ho'')]) =
         Header (sampleHeader\<lparr>h_version := Some 2\<rparr>) # map Entry es' \<and>
         wfEntries es' \<and> buildSessionPath es' LeafUndefined None = Some es' \<and>
         map e_timestamp es' = map e_timestamp [sampleEntry [] None (sampleUser ''hi''), sampleEntry [] None (sampleUser ''ho'')] \<and>
         map sessionEntryToContextMessages es' =
         map sessionEntryToContextMessages [sampleEntry [] None (sampleUser ''hi''), sampleEntry [] None (sampleUser ''ho'')]"
proof (rule migrateV1ToV2_correct)
  show "distinct (map (newIdAt (\<lambda>i j. showNat i)) [1..<Suc (length [sampleEntry [] None (sampleUser ''hi''), sampleEntry [] None (sampleUser ''ho'')])])"
    by (simp add: newIdAt_def showNat_digit digitChar_def)
qed simp

text \<open>
  Id collision: ids drawn by the migration are not checked against each other. When two
  entries of a version 1 file get the same eight characters, the entry becomes its own parent and
  the walk from the leaf does not return.
\<close>

theorem migrateV1ToV2_collision_diverges:
  "u \<noteq> [] \<Longrightarrow>
   buildSessionPath (entriesOf (migrateV1ToV2 (\<lambda>i j. u) [Header h, Entry (sampleEntry [] None m), Entry (sampleEntry [] None m')]))
     LeafUndefined None = None"
proof -
  assume u: "u \<noteq> []"
  define x where "x = take 8 u"
  have ne: "x \<noteq> []" using u by (simp add: x_def)
  have id: "generateId (\<lambda>j. u) (\<lambda>_. False) = x" by (simp add: generateId_first x_def)
  let ?e = "sampleEntry x None m" and ?e' = "sampleEntry x (Some x) m'"
  have "entriesOf (migrateV1ToV2 (\<lambda>i j. u) [Header h, Entry (sampleEntry [] None m), Entry (sampleEntry [] None m')]) = [?e, ?e']"
    by (simp add: migrateV1ToV2_def Let_def id sampleEntry_def convertFirstKept_def)
  moreover have "walkParents (indexOf [?e, ?e']) ?e' [] = None"
    by (rule walkParents_self_loop) (simp add: parentOf_def sampleEntry_def ne)
  ultimately show ?thesis by (simp add: buildSessionPath_def buildEntryIndex_def)
qed

theorem migrateV1ToV2_collision_diverges_witness:
  "buildSessionPath (entriesOf (migrateV1ToV2 (\<lambda>i j. ''0123abcd-0000'') [Header sampleHeader, Entry (sampleEntry [] None (sampleUser ''hi'')), Entry (sampleEntry [] None (sampleUser ''ho''))]))
     LeafUndefined None = None"
  by (rule migrateV1ToV2_collision_diverges) simp

end
