(* ===== verification/Session_Manager.thy ===== *)
theory Session_Manager
  imports Session_Migration
begin

text \<open>
  The class \<open>SessionManager\<close> of \<open>session-manager.ts\<close>: its state as a record, one definition per
  method. The state carries the file system as a map from file names to the entries written there,
  one JSON line each (that a serialised entry parses back to itself is the assumption). What a method draws from the outside (the
  UUIDs, the clock) is the argument \<open>world\<close>. A method that may throw returns \<open>Inl\<close> of the error
  together with the state at the throw, because a throwing method may already have changed the
  state. Methods that walk parent links are in \<open>option\<close>: \<open>None\<close> means the walk does not return.
\<close>

section \<open>State\<close>

record world =
  w_uuids :: "nat \<Rightarrow> string"
  w_sessionId :: string \<comment> \<open>the result of \<open>createSessionId()\<close>\<close>
  w_now :: int
  w_fileName :: string \<comment> \<open>\<open>join(getSessionDir(), timestamp_sessionId.jsonl)\<close>\<close>

type_synonym disk = "string \<Rightarrow> file_entry list option"

record session_manager =
  sessionId :: string
  sessionFile :: "string option"
  sessionDir :: string
  sm_cwd :: string
  sm_persist :: bool
  flushed :: bool
  fileEntries :: "file_entry list"
  byId :: entry_index
  labelsById :: "(string \<times> string) list"
  labelTimestampsById :: "(string \<times> int) list"
  legacyPruneChanges :: changes
  contextChangesCache :: "(nat \<times> string option \<times> changes) option"
  leafId :: "string option"
  sm_disk :: disk

type_synonym 'a action = "session_manager \<Rightarrow> 'a js_result \<times> session_manager"

definition js_throw :: "js_error \<Rightarrow> 'a action" where
  "js_throw err sm = (Inl err, sm)"

section \<open>Loading and indexing\<close>

definition getEntries :: "session_manager \<Rightarrow> session_entry list" where
  "getEntries sm = List.map_filter asEntry (fileEntries sm)"

definition getHeader :: "session_manager \<Rightarrow> session_header option" where
  "getHeader sm = findHeader (fileEntries sm)"

definition applyLabel :: "session_entry \<Rightarrow> (string \<times> string) list \<Rightarrow> (string \<times> string) list" where
  "applyLabel e labels =
     (case e_data e of
        LabelEntry t l \<Rightarrow>
          (case l of None \<Rightarrow> AList.delete t labels
           | Some l' \<Rightarrow> if l' = [] then AList.delete t labels else AList.update t l' labels)
      | _ \<Rightarrow> labels)"

definition applyLabelTimestamp :: "session_entry \<Rightarrow> (string \<times> int) list \<Rightarrow> (string \<times> int) list" where
  "applyLabelTimestamp e stamps =
     (case e_data e of
        LabelEntry t l \<Rightarrow>
          (case l of None \<Rightarrow> AList.delete t stamps
           | Some l' \<Rightarrow> if l' = [] then AList.delete t stamps else AList.update t (e_timestamp e) stamps)
      | _ \<Rightarrow> stamps)"

definition recordLegacyPrune :: "session_entry \<Rightarrow> changes \<Rightarrow> changes" where
  "recordLegacyPrune e legacy = (case e_data e of PruneEntry t _ _ \<Rightarrow> AList.update t e legacy | _ \<Rightarrow> legacy)"

fun indexFileEntry :: "file_entry \<Rightarrow> session_manager \<Rightarrow> session_manager" where
  "indexFileEntry (Header _) sm = sm"
| "indexFileEntry (Entry e) sm =
     sm\<lparr>byId := AList.update (e_id e) e (byId sm),
        leafId := Some (e_id e),
        labelsById := applyLabel e (labelsById sm),
        labelTimestampsById := applyLabelTimestamp e (labelTimestampsById sm),
        legacyPruneChanges := recordLegacyPrune e (legacyPruneChanges sm)\<rparr>"

definition buildIndex :: "session_manager \<Rightarrow> session_manager" where
  "buildIndex sm =
     fold indexFileEntry (fileEntries sm)
       (sm\<lparr>byId := [], labelsById := [], labelTimestampsById := [], legacyPruneChanges := [],
           contextChangesCache := None, leafId := None\<rparr>)"

definition fileOf :: "session_manager \<Rightarrow> string option" where
  "fileOf sm =
     (case sessionFile sm of None \<Rightarrow> None | Some f \<Rightarrow> if sm_persist sm \<and> f \<noteq> [] then Some f else None)"

definition rewriteFile :: "session_manager \<Rightarrow> session_manager" where
  "rewriteFile sm =
     (case fileOf sm of None \<Rightarrow> sm | Some f \<Rightarrow> sm\<lparr>sm_disk := (sm_disk sm)(f := Some (fileEntries sm))\<rparr>)"

record new_session_options =
  opt_id :: "string option"
  opt_parentSession :: "string option"

definition newSession :: "new_session_options option \<Rightarrow> world \<Rightarrow> string option action" where
  "newSession options w sm =
     (let givenId = Option.bind options opt_id in
      case (case givenId of None \<Rightarrow> Inr () | Some i \<Rightarrow> assertValidSessionId i) of
        Inl err \<Rightarrow> (Inl err, sm)
      | Inr _ \<Rightarrow>
          (let sid = (case givenId of Some i \<Rightarrow> i | None \<Rightarrow> w_sessionId w);
               header = \<lparr>h_version = Some CURRENT_SESSION_VERSION, h_id = sid, h_timestamp = w_now w,
                         h_cwd = sm_cwd sm, h_parentSession = Option.bind options opt_parentSession\<rparr>;
               sm' = sm\<lparr>sessionId := sid, fileEntries := [Header header], byId := [], labelsById := [],
                        labelTimestampsById := [], legacyPruneChanges := [], contextChangesCache := None,
                        leafId := None, flushed := False\<rparr>;
               sm'' = (if sm_persist sm then sm'\<lparr>sessionFile := Some (w_fileName w)\<rparr> else sm')
           in (Inr (sessionFile sm''), sm'')))"

definition loadEntries ::
  "file_entry list \<Rightarrow> new_session_options option \<Rightarrow> (nat \<Rightarrow> nat \<Rightarrow> string) \<Rightarrow> world \<Rightarrow> unit action" where
  "loadEntries entries options uuids w sm =
     (case findHeader entries of
        Some header \<Rightarrow>
          (let (migrated, entries') = migrateToCurrentVersion uuids entries;
               sm' = sm\<lparr>fileEntries := entries', sessionId := h_id header\<rparr>;
               sm'' = (if migrated then rewriteFile sm' else sm')
           in (Inr (), buildIndex sm''))
      | None \<Rightarrow>
          (case newSession options w sm of
             (Inl err, sm') \<Rightarrow> (Inl err, sm')
           | (Inr _, sm') \<Rightarrow> (Inr (), buildIndex (sm'\<lparr>fileEntries := fileEntries sm' @ entries\<rparr>))))"

text \<open>
  \<open>loadEntriesFromFile\<close> on parsed lines: nothing is returned unless the first entry is a header. A
  file whose lines do not parse is a file with no entries; \<open>size0\<close> tells an empty file from it.
\<close>

definition validSessionEntries :: "file_entry list \<Rightarrow> file_entry list" where
  "validSessionEntries entries = (case entries of Header h # _ \<Rightarrow> entries | _ \<Rightarrow> [])"

definition setSessionFile ::
  "string \<Rightarrow> file_entry list option \<Rightarrow> bool \<Rightarrow> (nat \<Rightarrow> nat \<Rightarrow> string) \<Rightarrow> world \<Rightarrow> unit action" where
  "setSessionFile f preloaded size0 uuids w sm =
     (let sm0 = sm\<lparr>sessionFile := Some f\<rparr> in
      case sm_disk sm f of
        Some content \<Rightarrow>
          (let entries = (case preloaded of Some es \<Rightarrow> es | None \<Rightarrow> validSessionEntries content) in
           if entries = [] then
             (if \<not> size0 then (Inl (JsError (''Session file is not a valid rxpi session: '' @ f)), sm0)
              else case newSession None w sm0 of
                     (Inl err, sm1) \<Rightarrow> (Inl err, sm1)
                   | (Inr _, sm1) \<Rightarrow> (Inr (), (rewriteFile (sm1\<lparr>sessionFile := Some f\<rparr>))\<lparr>flushed := True\<rparr>))
           else case loadEntries entries None uuids w sm0 of
                  (Inl err, sm1) \<Rightarrow> (Inl err, sm1)
                | (Inr _, sm1) \<Rightarrow> (Inr (), sm1\<lparr>flushed := True\<rparr>))
      | None \<Rightarrow>
          (case newSession None w sm0 of
             (Inl err, sm1) \<Rightarrow> (Inl err, sm1)
           | (Inr _, sm1) \<Rightarrow> (Inr (), sm1\<lparr>sessionFile := Some f\<rparr>)))"

definition emptyManager :: "string \<Rightarrow> string \<Rightarrow> bool \<Rightarrow> disk \<Rightarrow> session_manager" where
  "emptyManager cwd dir persist disk =
     \<lparr>sessionId = [], sessionFile = None, sessionDir = dir, sm_cwd = cwd, sm_persist = persist,
      flushed = False, fileEntries = [], byId = [], labelsById = [], labelTimestampsById = [],
      legacyPruneChanges = [], contextChangesCache = None, leafId = None, sm_disk = disk\<rparr>"

text \<open>The constructor, on resolved paths; creating the session directory is not modelled.\<close>

definition constructManager ::
  "string \<Rightarrow> string \<Rightarrow> string option \<Rightarrow> bool \<Rightarrow> new_session_options option \<Rightarrow> file_entry list option
   \<Rightarrow> bool \<Rightarrow> (nat \<Rightarrow> nat \<Rightarrow> string) \<Rightarrow> world \<Rightarrow> disk \<Rightarrow> unit js_result \<times> session_manager" where
  "constructManager cwd dir file persist options preloaded size0 uuids w disk =
     (let sm = emptyManager cwd dir persist disk in
      case file of
        Some f \<Rightarrow> if f \<noteq> [] then setSessionFile f preloaded size0 uuids w sm
                  else (case preloaded of
                          Some (e # es) \<Rightarrow> loadEntries (e # es) options uuids w sm
                        | _ \<Rightarrow> (let (r, sm') = newSession options w sm in (map_sum id (\<lambda>_. ()) r, sm')))
      | None \<Rightarrow> (case preloaded of
                   Some (e # es) \<Rightarrow> loadEntries (e # es) options uuids w sm
                 | _ \<Rightarrow> (let (r, sm') = newSession options w sm in (map_sum id (\<lambda>_. ()) r, sm'))))"

section \<open>Appending\<close>

definition isAssistantEntry :: "file_entry \<Rightarrow> bool" where
  "isAssistantEntry fe =
     (case asEntry fe of
        None \<Rightarrow> False
      | Some e \<Rightarrow> (case e_data e of MessageEntry m _ \<Rightarrow> isAssistant m | _ \<Rightarrow> False))"

definition hasAssistant :: "session_manager \<Rightarrow> bool" where
  "hasAssistant sm \<longleftrightarrow> list_ex isAssistantEntry (fileEntries sm)"

definition appendLine :: "string \<Rightarrow> session_entry \<Rightarrow> session_manager \<Rightarrow> session_manager" where
  "appendLine f e sm =
     sm\<lparr>sm_disk := (sm_disk sm)(f := Some ((case sm_disk sm f of None \<Rightarrow> [] | Some c \<Rightarrow> c) @ [Entry e]))\<rparr>"

text \<open>\<open>_persist\<close>; opening with the flag \<open>wx\<close> fails when the file exists.\<close>

definition persistEntry :: "session_entry \<Rightarrow> unit action" where
  "persistEntry e sm =
     (case fileOf sm of
        None \<Rightarrow> (Inr (), sm)
      | Some f \<Rightarrow>
          if \<not> hasAssistant sm then
            (if flushed sm then (Inr (), appendLine f e sm) else (Inr (), sm\<lparr>flushed := False\<rparr>))
          else if \<not> flushed sm then
            (if sm_disk sm f \<noteq> None then (Inl (FsError ''EEXIST''), sm)
             else (Inr (), sm\<lparr>sm_disk := (sm_disk sm)(f := Some (fileEntries sm)), flushed := True\<rparr>))
          else (Inr (), appendLine f e sm))"

definition appendEntry :: "session_entry \<Rightarrow> unit action" where
  "appendEntry e sm =
     persistEntry e
       (sm\<lparr>fileEntries := fileEntries sm @ [Entry e],
           byId := AList.update (e_id e) e (byId sm),
           leafId := Some (e_id e)\<rparr>)"

definition hasId :: "session_manager \<Rightarrow> string \<Rightarrow> bool" where
  "hasId sm i \<longleftrightarrow> map_of (byId sm) i \<noteq> None"

definition newEntry :: "world \<Rightarrow> entry_data \<Rightarrow> session_manager \<Rightarrow> session_entry" where
  "newEntry w d sm =
     \<lparr>e_id = generateId (w_uuids w) (hasId sm), e_parentId = leafId sm, e_timestamp = w_now w, e_data = d\<rparr>"

text \<open>The body the append methods share: build the entry, append it, return its id.\<close>

definition appendData :: "world \<Rightarrow> entry_data \<Rightarrow> string action" where
  "appendData w d sm =
     (let e = newEntry w d sm; (r, sm') = appendEntry e sm in (map_sum id (\<lambda>_. e_id e) r, sm'))"

definition appendMessage :: "world \<Rightarrow> agent_message \<Rightarrow> string action" where
  "appendMessage w m = appendData w (MessageEntry m False)"

definition appendThinkingLevelChange :: "world \<Rightarrow> string \<Rightarrow> string action" where
  "appendThinkingLevelChange w level = appendData w (ThinkingLevelChangeEntry level)"

definition appendModelChange :: "world \<Rightarrow> string \<Rightarrow> string \<Rightarrow> string action" where
  "appendModelChange w provider modelId = appendData w (ModelChangeEntry provider modelId)"

definition appendUsage ::
  "world \<Rightarrow> string \<Rightarrow> string \<Rightarrow> string \<Rightarrow> usage \<Rightarrow> string option \<Rightarrow> session_entry action" where
  "appendUsage w kind provider model usage note sm =
     (let e = newEntry w (UsageEntry kind provider model usage (if note = Some [] then None else note)) sm;
          (r, sm') = appendEntry e sm
      in (map_sum id (\<lambda>_. e) r, sm'))"

definition appendCustomEntry :: "world \<Rightarrow> string \<Rightarrow> json option \<Rightarrow> string action" where
  "appendCustomEntry w customType dat = appendData w (CustomEntry customType dat)"

text \<open>\<open>name.replace(/[\r\n]+/g, " ")\<close>\<close>

fun collapseNewlines :: "bool \<Rightarrow> string \<Rightarrow> string" where
  "collapseNewlines inRun [] = []"
| "collapseNewlines inRun (c # cs) =
     (if c = CHR 0x0A \<or> c = CHR 0x0D
      then (if inRun then collapseNewlines True cs else CHR '' '' # collapseNewlines True cs)
      else c # collapseNewlines False cs)"

definition appendSessionInfo :: "world \<Rightarrow> string \<Rightarrow> string action" where
  "appendSessionInfo w name = appendData w (SessionInfoEntry (Some (trim (collapseNewlines False name))))"

definition appendCustomMessageEntry ::
  "world \<Rightarrow> string \<Rightarrow> content \<Rightarrow> bool \<Rightarrow> json option \<Rightarrow> string action" where
  "appendCustomMessageEntry w customType c display details =
     appendData w (CustomMessageEntry customType (Some c) details display)"

definition sessionNameOf :: "session_entry \<Rightarrow> string option option" where
  "sessionNameOf e = (case e_data e of SessionInfoEntry n \<Rightarrow> Some n | _ \<Rightarrow> None)"

definition getSessionName :: "session_manager \<Rightarrow> string option" where
  "getSessionName sm =
     (case findLast (\<lambda>fe. Option.bind (asEntry fe) sessionNameOf \<noteq> None) (fileEntries sm) of
        None \<Rightarrow> None
      | Some fe \<Rightarrow>
          (case Option.bind (asEntry fe) sessionNameOf of
             Some (Some n) \<Rightarrow> if trim n = [] then None else Some (trim n)
           | _ \<Rightarrow> None))"

section \<open>Reading the active branch\<close>

definition getLeafEntry :: "session_manager \<Rightarrow> session_entry option" where
  "getLeafEntry sm = (case leafId sm of None \<Rightarrow> None | Some l \<Rightarrow> if l = [] then None else map_of (byId sm) l)"

definition getEntry :: "string \<Rightarrow> session_manager \<Rightarrow> session_entry option" where
  "getEntry i sm = map_of (byId sm) i"

definition getChildren :: "string \<Rightarrow> session_manager \<Rightarrow> session_entry list" where
  "getChildren parent sm = filter (\<lambda>e. e_parentId e = Some parent) (map snd (byId sm))"

definition getLabel :: "string \<Rightarrow> session_manager \<Rightarrow> string option" where
  "getLabel i sm = map_of (labelsById sm) i"

definition getBranch :: "string option \<Rightarrow> session_manager \<Rightarrow> session_entry list option" where
  "getBranch fromId sm =
     (let startId = (case fromId of Some i \<Rightarrow> Some i | None \<Rightarrow> leafId sm);
          current = (case startId of None \<Rightarrow> None | Some i \<Rightarrow> if i = [] then None else map_of (byId sm) i)
      in case current of None \<Rightarrow> Some [] | Some e \<Rightarrow> walkParents (byId sm) e [])"

fun leafArg :: "string option \<Rightarrow> leaf_arg" where
  "leafArg None = LeafNull"
| "leafArg (Some i) = LeafId i"

definition sm_buildSessionProjection :: "session_manager \<Rightarrow> session_projection option" where
  "sm_buildSessionProjection sm =
     buildSessionProjection (getEntries sm) (leafArg (leafId sm)) (Some (byId sm)) (Some (legacyPruneChanges sm))"

definition sm_buildSessionContext :: "session_manager \<Rightarrow> session_context option" where
  "sm_buildSessionContext sm =
     buildSessionContext (getEntries sm) (leafArg (leafId sm)) (Some (byId sm)) (Some (legacyPruneChanges sm))"

definition buildContextEntriesAll :: "session_manager \<Rightarrow> session_entry list option" where
  "buildContextEntriesAll sm = buildContextEntries (getEntries sm) (leafArg (leafId sm)) (Some (byId sm)) None"

text \<open>\<open>_getContextChanges\<close> with its cache: the state after the call holds the cached value.\<close>

definition getContextChanges :: "session_manager \<Rightarrow> (changes \<times> session_manager) option" where
  "getContextChanges sm =
     (let compute = map_option (\<lambda>branch.
            let changes = resolveContextChanges (getEntries sm) branch (Some (legacyPruneChanges sm))
            in (changes, sm\<lparr>contextChangesCache := Some (length (fileEntries sm), leafId sm, changes)\<rparr>))
          (getBranch None sm)
      in case contextChangesCache sm of
           Some (entryCount, leaf, changes) \<Rightarrow>
             if entryCount = length (fileEntries sm) \<and> leaf = leafId sm then Some (changes, sm) else compute
         | None \<Rightarrow> compute)"

definition getPruneState :: "string \<Rightarrow> session_manager \<Rightarrow> (prune_state option \<times> session_manager) option" where
  "getPruneState i sm = map_option (\<lambda>(changes, sm'). (contextChangeState (map_of changes i), sm')) (getContextChanges sm)"

definition pruneSummaryOf :: "session_entry option \<Rightarrow> string option" where
  "pruneSummaryOf change =
     (case change of
        None \<Rightarrow> None
      | Some ch \<Rightarrow>
          (case e_data ch of
             PruneEntry _ state summary \<Rightarrow> if state = Summarized then summary else None
           | ContextEditEntry _ (Some c) True \<Rightarrow>
               (let text = contentText c in
                Some (if startsWith text CONTEXT_BLOCK_SUMMARY_PREFIX
                      then drop (length CONTEXT_BLOCK_SUMMARY_PREFIX) text else text))
           | _ \<Rightarrow> None))"

definition getPruneSummary :: "string \<Rightarrow> session_manager \<Rightarrow> (string option \<times> session_manager) option" where
  "getPruneSummary i sm = map_option (\<lambda>(changes, sm'). (pruneSummaryOf (map_of changes i), sm')) (getContextChanges sm)"

definition sm_buildContextEntries :: "session_manager \<Rightarrow> (session_entry list \<times> session_manager) option" where
  "sm_buildContextEntries sm =
     do {
       (changes, sm') \<leftarrow> getContextChanges sm;
       es \<leftarrow> buildContextEntries (getEntries sm) (leafArg (leafId sm)) (Some (byId sm)) None;
       Some (filter (\<lambda>e. \<not> hiddenState (contextChangeState (map_of changes (e_id e)))) es, sm')
     }"

section \<open>Compaction entries\<close>

definition appendCompaction ::
  "world \<Rightarrow> string \<Rightarrow> string option \<Rightarrow> nat \<Rightarrow> json option \<Rightarrow> bool \<Rightarrow> usage option \<Rightarrow> session_manager
   \<Rightarrow> (string js_result \<times> session_manager) option" where
  "appendCompaction w summary firstKept tokensBefore details fromHook usage sm =
     map_option (\<lambda>projection.
         let systemMessage = getCurrentSystemMessage (sp_messages projection);
             newId = generateId (w_uuids w) (hasId sm);
             c = \<lparr>ce_summary = summary,
                  ce_firstKeptEntryId = (case firstKept of Some k \<Rightarrow> k | None \<Rightarrow> newId),
                  ce_firstKeptEntryIndex = None,
                  ce_tokensBefore = tokensBefore, ce_details = details, ce_usage = usage, ce_fromHook = fromHook,
                  ce_systemMessage = map_option (\<lambda>s. s\<lparr>sys_timestamp := w_now w\<rparr>) systemMessage\<rparr>
         in appendData w (CompactionEntry c) sm)
       (sm_buildSessionProjection sm)"

section \<open>Context edits\<close>

text \<open>\<open>_getContextEditTarget\<close> with the branch ids at hand, and with the ids read from the active branch.\<close>

definition contextEditTargetOn :: "string \<Rightarrow> string list \<Rightarrow> session_manager \<Rightarrow> session_entry js_result" where
  "contextEditTargetOn targetId branchIds sm =
     (case map_of (byId sm) targetId of
        None \<Rightarrow> Inl (JsError (''Entry '' @ targetId @ '' not found''))
      | Some target \<Rightarrow>
          if targetId \<notin> set branchIds
          then Inl (JsError (''Entry '' @ targetId @ '' is not on the active branch''))
          else if sessionEntryToContextMessages target = []
          then Inl (JsError (''Entry '' @ targetId @ '' does not contribute editable model content''))
          else Inr target)"

definition getContextEditTarget :: "string \<Rightarrow> session_manager \<Rightarrow> session_entry js_result option" where
  "getContextEditTarget targetId sm =
     (if \<not> hasId sm targetId then Some (Inl (JsError (''Entry '' @ targetId @ '' not found'')))
      else map_option (\<lambda>branch. contextEditTargetOn targetId (map e_id branch) sm) (getBranch None sm))"

definition isModelTurnEntry :: "session_entry \<Rightarrow> bool" where
  "isModelTurnEntry e = (case e_data e of MessageEntry m _ \<Rightarrow> isAssistant m \<or> isToolResult m | _ \<Rightarrow> False)"

text \<open>
  The replacement is typed, so the run-time test of its shape always succeeds. \<open>curated\<close> is
  \<open>curation === "summary"\<close>.
\<close>

definition normalizeReplacement ::
  "string \<Rightarrow> content option \<Rightarrow> bool \<Rightarrow> session_entry \<Rightarrow> content option js_result" where
  "normalizeReplacement targetId replacement curated target =
     (if isSystemEntry target \<and> replacement \<noteq> None \<and> \<not> curated
      then Inl (JsError (''Entry '' @ targetId @ '' does not contribute editable model content''))
      else Inr (case replacement of
                  Some (ContentString s) \<Rightarrow>
                    if isModelTurnEntry target then Some (ContentBlocks [plainText s]) else replacement
                | _ \<Rightarrow> replacement))"

definition validateContextEdit ::
  "string \<Rightarrow> content option \<Rightarrow> bool \<Rightarrow> session_manager \<Rightarrow> content option js_result option" where
  "validateContextEdit targetId replacement curated sm =
     map_option (\<lambda>r. js_bind r (normalizeReplacement targetId replacement curated)) (getContextEditTarget targetId sm)"

definition appendContextEdit ::
  "world \<Rightarrow> string \<Rightarrow> content option \<Rightarrow> bool \<Rightarrow> session_manager \<Rightarrow> (string js_result \<times> session_manager) option" where
  "appendContextEdit w targetId replacement curated sm =
     map_option (\<lambda>r. case r of
           Inl err \<Rightarrow> (Inl err, sm)
         | Inr replacement' \<Rightarrow> appendData w (ContextEditEntry targetId replacement' curated) sm)
       (validateContextEdit targetId replacement curated sm)"

definition appendContextEditCancel ::
  "world \<Rightarrow> string \<Rightarrow> session_manager \<Rightarrow> (string js_result \<times> session_manager) option" where
  "appendContextEditCancel w targetId sm =
     map_option (\<lambda>r. case r of
           Inl err \<Rightarrow> (Inl err, sm)
         | Inr _ \<Rightarrow> appendData w (ContextEditCancelEntry targetId) sm)
       (getContextEditTarget targetId sm)"

record context_change =
  cc_targetId :: string
  cc_state :: prune_state
  cc_summary :: "string option"

text \<open>The callback of \<open>changes.map\<close>: the data of the entry to append, or the throw.\<close>

definition validateChange :: "string list \<Rightarrow> session_manager \<Rightarrow> context_change \<Rightarrow> entry_data js_result" where
  "validateChange activeBranchIds sm ch =
     (let curated = (cc_state ch = Summarized);
          replacement = (case cc_summary ch of
                           Some s \<Rightarrow> if curated \<and> s \<noteq> [] then Some (ContentString (CONTEXT_BLOCK_SUMMARY_PREFIX @ s)) else None
                         | None \<Rightarrow> None)
      in if cc_state ch = Included
         then js_bind (contextEditTargetOn (cc_targetId ch) activeBranchIds sm)
                (\<lambda>_. Inr (ContextEditCancelEntry (cc_targetId ch)))
         else js_bind (contextEditTargetOn (cc_targetId ch) activeBranchIds sm)
                (\<lambda>target. js_bind (normalizeReplacement (cc_targetId ch) replacement curated target)
                  (\<lambda>r. Inr (ContextEditEntry (cc_targetId ch) r curated))))"

fun appendValidated :: "(nat \<Rightarrow> world) \<Rightarrow> nat \<Rightarrow> entry_data list \<Rightarrow> string list action" where
  "appendValidated w i [] sm = (Inr [], sm)"
| "appendValidated w i (d # ds) sm =
     (case appendData (w i) d sm of
        (Inl err, sm') \<Rightarrow> (Inl err, sm')
      | (Inr newId, sm') \<Rightarrow>
          (case appendValidated w (Suc i) ds sm' of
             (Inl err, sm'') \<Rightarrow> (Inl err, sm'')
           | (Inr newIds, sm'') \<Rightarrow> (Inr (newId # newIds), sm'')))"

definition appendContextChanges ::
  "(nat \<Rightarrow> world) \<Rightarrow> context_change list \<Rightarrow> session_manager \<Rightarrow> (string list js_result \<times> session_manager) option" where
  "appendContextChanges w chs sm =
     (if chs = [] then Some (Inr [], sm)
      else map_option (\<lambda>branch.
             case js_map (validateChange (map e_id branch) sm) chs of
               Inl err \<Rightarrow> (Inl err, sm)
             | Inr validated \<Rightarrow> appendValidated w 0 validated sm)
           (getBranch None sm))"

text \<open>\<open>appendContextChanges([change])[0]!\<close>\<close>

definition appendContextChange ::
  "world \<Rightarrow> context_change \<Rightarrow> session_manager \<Rightarrow> (string js_result \<times> session_manager) option" where
  "appendContextChange w ch sm =
     map_option (\<lambda>(r, sm'). (map_sum id hd r, sm')) (appendContextChanges (\<lambda>_. w) [ch] sm)"

section \<open>Labels and branching\<close>

definition appendLabelChange :: "world \<Rightarrow> string \<Rightarrow> string option \<Rightarrow> string action" where
  "appendLabelChange w targetId label sm =
     (if \<not> hasId sm targetId then (Inl (JsError (''Entry '' @ targetId @ '' not found'')), sm)
      else let e = newEntry w (LabelEntry targetId label) sm in
           case appendEntry e sm of
             (Inl err, sm') \<Rightarrow> (Inl err, sm')
           | (Inr _, sm') \<Rightarrow>
               (Inr (e_id e),
                sm'\<lparr>labelsById := applyLabel e (labelsById sm'),
                    labelTimestampsById := applyLabelTimestamp e (labelTimestampsById sm')\<rparr>))"

definition branchTo :: "string \<Rightarrow> unit action" where
  "branchTo branchFromId sm =
     (if \<not> hasId sm branchFromId then (Inl (JsError (''Entry '' @ branchFromId @ '' not found'')), sm)
      else (Inr (), sm\<lparr>leafId := Some branchFromId\<rparr>))"

definition resetLeaf :: "session_manager \<Rightarrow> session_manager" where
  "resetLeaf sm = sm\<lparr>leafId := None\<rparr>"

definition branchWithSummary ::
  "world \<Rightarrow> string option \<Rightarrow> string \<Rightarrow> json option \<Rightarrow> bool \<Rightarrow> usage option \<Rightarrow> string action" where
  "branchWithSummary w branchFromId summary details fromHook usage sm =
     (case branchFromId of
        Some b \<Rightarrow> if \<not> hasId sm b then (Inl (JsError (''Entry '' @ b @ '' not found'')), sm)
                  else appendData w (BranchSummaryEntry (case leafId sm of Some l \<Rightarrow> l | None \<Rightarrow> ''root'')
                                      summary details usage fromHook) (sm\<lparr>leafId := Some b\<rparr>)
      | None \<Rightarrow> appendData w (BranchSummaryEntry (case leafId sm of Some l \<Rightarrow> l | None \<Rightarrow> ''root'')
                              summary details usage fromHook) (sm\<lparr>leafId := None\<rparr>))"

end
