(* ===== verification/Session_Invariant.thy ===== *)
theory Session_Invariant
  imports Session_Manager
begin

text \<open>
  The representation invariant of \<open>SessionManager\<close> and its preservation: the log is well formed, the
  indexes are what replaying the log gives, the leaf exists, the cached context changes are the
  resolved ones, and the file on disk equals the log in memory once it has been flushed.
\<close>

section \<open>Invariant\<close>

text \<open>The path to a leaf: what \<open>getBranch\<close> and \<open>buildSessionPath\<close> compute from the index.\<close>

definition pathTo :: "string option \<Rightarrow> session_manager \<Rightarrow> session_entry list option" where
  "pathTo l sm =
     (case l of
        None \<Rightarrow> Some []
      | Some i \<Rightarrow> if i = [] then Some []
                  else (case map_of (byId sm) i of None \<Rightarrow> Some [] | Some e \<Rightarrow> walkParents (byId sm) e []))"

definition leafOk :: "session_manager \<Rightarrow> bool" where
  "leafOk sm \<longleftrightarrow> set_option (leafId sm) \<subseteq> ids (getEntries sm)"

definition cacheOk :: "session_manager \<Rightarrow> bool" where
  "cacheOk sm \<longleftrightarrow>
     (case contextChangesCache sm of
        None \<Rightarrow> True
      | Some (n, l, ch) \<Rightarrow>
          n \<le> length (fileEntries sm) \<and>
          (n = length (fileEntries sm) \<longrightarrow>
             map_option (changesOf (legacyPruneChanges sm)) (pathTo l sm) = Some ch))"

definition diskOk :: "session_manager \<Rightarrow> bool" where
  "diskOk sm \<longleftrightarrow>
     (case fileOf sm of
        None \<Rightarrow> True
      | Some f \<Rightarrow>
          if flushed sm then sm_disk sm f = Some (fileEntries sm)
          else sm_disk sm f = None \<and> \<not> hasAssistant sm)"

definition labelsOk :: "session_manager \<Rightarrow> bool" where
  "labelsOk sm \<longleftrightarrow>
     labelsById sm = fold applyLabel (getEntries sm) [] \<and>
     labelTimestampsById sm = fold applyLabelTimestamp (getEntries sm) []"

definition coreInv :: "session_manager \<Rightarrow> bool" where
  "coreInv sm \<longleftrightarrow>
     (\<exists>h. fileEntries sm = Header h # map Entry (getEntries sm)) \<and>
     wfEntries (getEntries sm) \<and>
     byId sm = indexOf (getEntries sm) \<and>
     legacyPruneChanges sm = fold recordLegacyPrune (getEntries sm) [] \<and>
     leafOk sm \<and> cacheOk sm \<and> diskOk sm"

text \<open>Edits and prune records name entries of the log.\<close>

definition dataTarget :: "entry_data \<Rightarrow> string option" where
  "dataTarget d =
     (case d of
        ContextEditEntry t _ _ \<Rightarrow> Some t
      | ContextEditCancelEntry t \<Rightarrow> Some t
      | PruneEntry t _ _ \<Rightarrow> Some t
      | _ \<Rightarrow> None)"

definition targetsOk :: "session_entry list \<Rightarrow> bool" where
  "targetsOk es \<longleftrightarrow> (\<forall>e \<in> set es. set_option (dataTarget (e_data e)) \<subseteq> ids es)"

definition smInv :: "session_manager \<Rightarrow> bool" where
  "smInv sm \<longleftrightarrow> coreInv sm \<and> labelsOk sm \<and> targetsOk (getEntries sm)"

definition freshWorld :: "world \<Rightarrow> session_manager \<Rightarrow> bool" where
  "freshWorld w sm \<longleftrightarrow> uuidsOk (w_uuids w) \<and> \<not> hasId sm (w_uuids w 100)"

section \<open>Field equations\<close>

lemma getEntries_push [session_simps]:
  "fileEntries sm' = fileEntries sm @ [Entry e] \<Longrightarrow> getEntries sm' = getEntries sm @ [e]"
  by (simp add: getEntries_def)

lemma getEntries_leaf [session_simps, simp]:
  "getEntries (sm\<lparr>leafId := l\<rparr>) = getEntries sm"
  "getEntries (sm\<lparr>contextChangesCache := c\<rparr>) = getEntries sm"
  "getEntries (sm\<lparr>labelsById := ls, labelTimestampsById := ts\<rparr>) = getEntries sm"
  by (simp_all add: getEntries_def)

lemma hasId_iff: "coreInv sm \<Longrightarrow> hasId sm i \<longleftrightarrow> i \<in> ids (getEntries sm)"
  unfolding hasId_def coreInv_def using indexOf_None [of "getEntries sm" i] by auto

lemma coreInv_wf: "coreInv sm \<Longrightarrow> wfEntries (getEntries sm)"
  by (simp add: coreInv_def)

lemma pathTo_None [simp]: "pathTo None sm = Some []"
  by (simp add: pathTo_def)

lemma pathTo_Some:
  assumes "coreInv sm" and "e \<in> set (getEntries sm)"
  shows "pathTo (Some (e_id e)) sm = walkParents (indexOf (getEntries sm)) e []"
proof -
  have wf: "wfEntries (getEntries sm)" using assms(1) by (rule coreInv_wf)
  have "map_of (byId sm) (e_id e) = Some e" "e_id e \<noteq> []"
    using assms indexOf_lookup [OF wfEntries_distinct [OF wf]] wfEntries_id_nonempty [OF wf]
    by (auto simp: coreInv_def)
  then show ?thesis using assms(1) by (simp add: pathTo_def coreInv_def)
qed

lemma getBranch_pathTo: "getBranch None sm = pathTo (leafId sm) sm"
  by (simp add: pathTo_def getBranch_def split: option.split)

lemma getBranch_Some_pathTo: "getBranch (Some i) sm = pathTo (Some i) sm"
  by (simp add: pathTo_def getBranch_def split: option.split)

lemma pathTo_cong: "byId sm = byId sm' \<Longrightarrow> pathTo l sm = pathTo l sm'"
  by (simp add: pathTo_def split: option.split)

lemma fileOf_cong: "sessionFile sm = sessionFile sm' \<Longrightarrow> sm_persist sm = sm_persist sm' \<Longrightarrow> fileOf sm = fileOf sm'"
  by (simp add: fileOf_def split: option.split)

lemma diskOk_cong:
  "sessionFile sm = sessionFile sm' \<Longrightarrow> sm_persist sm = sm_persist sm' \<Longrightarrow> flushed sm = flushed sm' \<Longrightarrow>
   fileEntries sm = fileEntries sm' \<Longrightarrow> sm_disk sm = sm_disk sm' \<Longrightarrow> diskOk sm = diskOk sm'"
  using fileOf_cong [of sm sm'] by (simp add: diskOk_def hasAssistant_def split: option.split)

section \<open>The active branch\<close>

lemma pathTo_total:
  assumes "coreInv sm" and "i \<in> ids (getEntries sm)"
  obtains path e where "pathTo (Some i) sm = Some path" "path \<noteq> []" "e_id (last path) = i"
    "rootChain (byId sm) path" "subseq path (getEntries sm)" "distinct (map e_id path)"
proof -
  obtain e where e: "e \<in> set (getEntries sm)" "e_id e = i" using assms(2) by auto
  obtain path where "walkParents (indexOf (getEntries sm)) e [] = Some path"
    "rootChain (indexOf (getEntries sm)) path" "last path = e" "subseq path (getEntries sm)"
    "distinct (map e_id path)" "path \<noteq> []"
    using walkParents_wf [OF coreInv_wf [OF assms(1)] e(1)] by metis
  then show thesis
    using that [of path] pathTo_Some [OF assms(1) e(1)] e assms(1) by (simp add: coreInv_def)
qed

lemma getBranch_total:
  assumes "coreInv sm"
  obtains path where "getBranch None sm = Some path" "subseq path (getEntries sm)" "distinct (map e_id path)"
proof (cases "leafId sm")
  case None
  then show thesis using that [of "[]"] by (simp add: getBranch_pathTo)
next
  case (Some l)
  then have "l \<in> ids (getEntries sm)" using assms by (simp add: coreInv_def leafOk_def)
  then show thesis using pathTo_total [OF assms] Some that by (metis getBranch_pathTo)
qed

lemma buildSessionPath_leaf:
  assumes "coreInv sm"
  shows "buildSessionPath (getEntries sm) (leafArg (leafId sm)) (Some (byId sm)) = getBranch None sm"
proof (cases "leafId sm")
  case None
  then show ?thesis by (simp add: buildSessionPath_def getBranch_def)
next
  case (Some l)
  then have "l \<in> ids (getEntries sm)" using assms by (simp add: coreInv_def leafOk_def)
  then obtain e where e: "e \<in> set (getEntries sm)" "e_id e = l" by auto
  have "map_of (byId sm) l = Some e" "l \<noteq> []"
    using e assms indexOf_lookup [OF wfEntries_distinct [OF coreInv_wf [OF assms]]]
      wfEntries_id_nonempty [OF coreInv_wf [OF assms] e(1)]
    by (auto simp: coreInv_def)
  then show ?thesis using Some by (simp add: buildSessionPath_def buildEntryIndex_def getBranch_def Let_def)
qed

lemma projection_of_branch:
  assumes "coreInv sm"
  shows "sm_buildSessionProjection sm = map_option (projectPath (legacyPruneChanges sm)) (getBranch None sm)"
  by (simp add: sm_buildSessionProjection_def buildSessionProjection_path buildSessionPath_leaf [OF assms])

section \<open>Appending an entry\<close>

lemma hasAssistant_push: "fileEntries sm' = fileEntries sm @ [fe] \<Longrightarrow> hasAssistant sm' \<longleftrightarrow> hasAssistant sm \<or> isAssistantEntry fe"
  by (simp add: hasAssistant_def)

lemma appendEntry_effect:
  assumes "diskOk sm"
  obtains fl d where
    "appendEntry e sm = (Inr (), sm\<lparr>fileEntries := fileEntries sm @ [Entry e],
        byId := AList.update (e_id e) e (byId sm), leafId := Some (e_id e), flushed := fl, sm_disk := d\<rparr>)"
    "diskOk (snd (appendEntry e sm))"
proof -
  let ?sm1 = "sm\<lparr>fileEntries := fileEntries sm @ [Entry e],
        byId := AList.update (e_id e) e (byId sm), leafId := Some (e_id e)\<rparr>"
  have f: "fileOf ?sm1 = fileOf sm" by (rule fileOf_cong) simp_all
  have f': "fileOf (?sm1\<lparr>flushed := fl, sm_disk := d\<rparr>) = fileOf sm" for fl d by (rule fileOf_cong) simp_all
  have f'': "fileOf (?sm1\<lparr>flushed := fl\<rparr>) = fileOf sm" for fl by (rule fileOf_cong) simp_all
  have "\<exists>fl d. persistEntry e ?sm1 = (Inr (), ?sm1\<lparr>flushed := fl, sm_disk := d\<rparr>) \<and>
               diskOk (?sm1\<lparr>flushed := fl, sm_disk := d\<rparr>)"
  proof (cases "fileOf sm")
    case None
    then have "persistEntry e ?sm1 = (Inr (), ?sm1\<lparr>flushed := flushed sm, sm_disk := sm_disk sm\<rparr>)"
      by (simp add: persistEntry_def f)
    moreover have "diskOk (?sm1\<lparr>flushed := flushed sm, sm_disk := sm_disk sm\<rparr>)"
      using None by (simp add: diskOk_def f f')
    ultimately show ?thesis by blast
  next
    case (Some f0)
    show ?thesis
    proof (cases "flushed sm")
      case True
      then have d: "sm_disk sm f0 = Some (fileEntries sm)" using assms Some by (simp add: diskOk_def)
      let ?d = "(sm_disk sm)(f0 := Some (fileEntries sm @ [Entry e]))"
      have "persistEntry e ?sm1 = (Inr (), ?sm1\<lparr>flushed := True, sm_disk := ?d\<rparr>)"
        using True Some d by (simp add: persistEntry_def f appendLine_def)
      moreover have "diskOk (?sm1\<lparr>flushed := True, sm_disk := ?d\<rparr>)"
        using Some by (simp add: diskOk_def f f')
      ultimately show ?thesis by blast
    next
      case False
      then have d: "sm_disk sm f0 = None" "\<not> hasAssistant sm" using assms Some by (simp_all add: diskOk_def)
      show ?thesis
      proof (cases "hasAssistant ?sm1")
        case True
        let ?d = "(sm_disk sm)(f0 := Some (fileEntries sm @ [Entry e]))"
        have "persistEntry e ?sm1 = (Inr (), ?sm1\<lparr>flushed := True, sm_disk := ?d\<rparr>)"
          using True False Some d(1) by (simp add: persistEntry_def f)
        moreover have "diskOk (?sm1\<lparr>flushed := True, sm_disk := ?d\<rparr>)"
          using Some by (simp add: diskOk_def f f')
        ultimately show ?thesis by blast
      next
        case noAssistant: False
        have "persistEntry e ?sm1 = (Inr (), ?sm1\<lparr>flushed := False, sm_disk := sm_disk sm\<rparr>)"
          using noAssistant False Some by (simp add: persistEntry_def f)
        moreover have "diskOk (?sm1\<lparr>flushed := False, sm_disk := sm_disk sm\<rparr>)"
          using Some d noAssistant by (simp add: diskOk_def f f' f'' hasAssistant_def)
        ultimately show ?thesis by blast
      qed
    qed
  qed
  then show thesis using that by (auto simp: appendEntry_def)
qed

text \<open>What one append does to a state that satisfies the invariant.\<close>

definition appended :: "session_manager \<Rightarrow> session_entry \<Rightarrow> session_manager \<Rightarrow> bool" where
  "appended sm e sm' \<longleftrightarrow>
     getEntries sm' = getEntries sm @ [e] \<and> leafId sm' = Some (e_id e) \<and>
     legacyPruneChanges sm' = legacyPruneChanges sm \<and> labelsById sm' = labelsById sm \<and>
     labelTimestampsById sm' = labelTimestampsById sm \<and>
     sessionId sm' = sessionId sm \<and> getHeader sm' = getHeader sm \<and> fileOf sm' = fileOf sm"

lemma findHeader_append: "findHeader fes = Some h \<Longrightarrow> findHeader (fes @ fes') = Some h"
  by (auto simp: findHeader_def find_append split: option.splits)

lemma cacheOk_push:
  assumes "cacheOk sm" and "fileEntries sm' = fileEntries sm @ [fe]" and "contextChangesCache sm' = contextChangesCache sm"
  shows "cacheOk sm'"
  using assms by (auto simp: cacheOk_def split: option.splits)

lemma appendEntry_coreInv:
  assumes inv: "coreInv sm" and ok: "entryOk (ids (getEntries sm)) e" and np: "\<And>m. recordLegacyPrune e m = m"
  shows "\<exists>sm'. appendEntry e sm = (Inr (), sm') \<and> coreInv sm' \<and> appended sm e sm'"
proof -
  have "diskOk sm" using inv by (simp add: coreInv_def)
  then obtain fl d where
    eq: "appendEntry e sm = (Inr (), sm\<lparr>fileEntries := fileEntries sm @ [Entry e],
        byId := AList.update (e_id e) e (byId sm), leafId := Some (e_id e), flushed := fl, sm_disk := d\<rparr>)"
    and disk: "diskOk (snd (appendEntry e sm))" by (rule appendEntry_effect)
  let ?sm' = "snd (appendEntry e sm)"
  have ents: "getEntries ?sm' = getEntries sm @ [e]" by (rule getEntries_push) (simp add: eq)
  have cache: "cacheOk ?sm'"
    by (rule cacheOk_push [of sm _ "Entry e"]) (use inv in \<open>simp_all add: eq coreInv_def\<close>)
  have wf: "wfEntries (getEntries ?sm')" using inv ok by (simp add: ents wfEntries_snoc coreInv_def)
  have leaf: "leafOk ?sm'" unfolding leafOk_def ents by (simp add: eq)
  have "\<exists>h. fileEntries ?sm' = Header h # map Entry (getEntries ?sm')"
    using inv unfolding ents by (auto simp: eq coreInv_def)
  moreover have "byId ?sm' = indexOf (getEntries ?sm')"
    using inv unfolding ents by (simp add: eq coreInv_def indexEntry_def)
  moreover have "legacyPruneChanges ?sm' = fold recordLegacyPrune (getEntries ?sm') []"
    using inv np unfolding ents by (simp add: eq coreInv_def)
  ultimately have "coreInv ?sm'" using cache disk wf leaf by (simp only: coreInv_def simp_thms)
  moreover have "appended sm e ?sm'"
    using inv ents fileOf_cong [of ?sm' sm]
    by (auto simp: appended_def eq getHeader_def coreInv_def findHeader_append findHeader_def)
  ultimately show ?thesis using eq by auto
qed

lemma newEntry_ok:
  assumes "coreInv sm" and "freshWorld w sm"
  shows "entryOk (ids (getEntries sm)) (newEntry w d sm)"
proof -
  have "generateId (w_uuids w) (hasId sm) \<notin> ids (getEntries sm)"
    using assms generateId_fresh [of "hasId sm" "w_uuids w"] by (simp add: freshWorld_def hasId_iff)
  moreover have "generateId (w_uuids w) (hasId sm) \<noteq> []"
    using assms(2) by (simp add: freshWorld_def generateId_nonempty)
  ultimately show ?thesis
    using assms(1) by (cases "leafId sm") (simp_all add: entryOk_def newEntry_def coreInv_def leafOk_def)
qed

text \<open>Data that no index but the entry index depends on.\<close>

definition plainData :: "entry_data \<Rightarrow> bool" where
  "plainData d \<longleftrightarrow> (case d of PruneEntry _ _ _ \<Rightarrow> False | LabelEntry _ _ \<Rightarrow> False | _ \<Rightarrow> True)"

lemma plainData_entry:
  assumes "plainData (e_data e)"
  shows "recordLegacyPrune e m = m" "applyLabel e l = l" "applyLabelTimestamp e t = t"
  using assms
  by (auto simp: plainData_def recordLegacyPrune_def applyLabel_def applyLabelTimestamp_def split: entry_data.splits)

lemma e_data_newEntry [simp]: "e_data (newEntry w d sm) = d" "e_parentId (newEntry w d sm) = leafId sm"
  by (simp_all add: newEntry_def)

lemma targetsOk_snoc:
  "targetsOk es \<Longrightarrow> set_option (dataTarget (e_data e)) \<subseteq> ids es \<Longrightarrow> targetsOk (es @ [e])"
  by (auto simp: targetsOk_def)

text \<open>A resolved change is always about an entry of the log.\<close>

lemma editEffect_target: "edit_log.writes k e \<Longrightarrow> dataTarget (e_data e) = Some k"
  by (auto simp: edit_log.writes_def editEffect_def dataTarget_def split: entry_data.splits)

lemma recordLegacyPrune_key:
  "map_of (fold recordLegacyPrune es m) k = Some v \<Longrightarrow>
   map_of m k = Some v \<or> (\<exists>e \<in> set es. dataTarget (e_data e) = Some k)"
proof (induction es arbitrary: m)
  case (Cons e es)
  have "map_of (recordLegacyPrune e m) k = Some v \<Longrightarrow> map_of m k = Some v \<or> dataTarget (e_data e) = Some k"
    by (cases "e_data e") (auto simp: recordLegacyPrune_def dataTarget_def split: if_splits)
  with Cons.IH [of "recordLegacyPrune e m"] Cons.prems show ?case by auto
qed simp

lemma changes_target_known:
  assumes "coreInv sm" and t: "targetsOk (getEntries sm)" and "set path \<subseteq> set (getEntries sm)"
    and "k \<notin> ids (getEntries sm)"
  shows "map_of (changesOf (legacyPruneChanges sm) path) k = None"
proof -
  have none: "dataTarget (e_data e) \<noteq> Some k" if "e \<in> set (getEntries sm)" for e
    using t that assms(4) by (force simp: targetsOk_def)
  have "map_of (legacyPruneChanges sm) k = None"
    using assms(1) none recordLegacyPrune_key [of "getEntries sm" "[]" k]
    by (cases "map_of (legacyPruneChanges sm) k") (auto simp: coreInv_def)
  moreover have "\<forall>e \<in> set path. \<not> edit_log.writes k e"
    using assms(3) none editEffect_target by blast
  ultimately show ?thesis by (simp add: edit_log.untouched)
qed

lemma appendData_inv:
  assumes inv: "smInv sm" and fresh: "freshWorld w sm" and d: "plainData d"
    and t: "set_option (dataTarget d) \<subseteq> ids (getEntries sm)"
  shows "\<exists>sm'. appendData w d sm = (Inr (e_id (newEntry w d sm)), sm') \<and> smInv sm' \<and> appended sm (newEntry w d sm) sm'"
proof -
  have c: "coreInv sm" using inv by (simp add: smInv_def)
  obtain sm' where sm': "appendEntry (newEntry w d sm) sm = (Inr (), sm')" "coreInv sm'" "appended sm (newEntry w d sm) sm'"
    using appendEntry_coreInv [OF c newEntry_ok [OF c fresh]] plainData_entry(1) [of "newEntry w d sm"] d by auto
  moreover have "labelsOk sm'"
    using sm'(3) inv plainData_entry [of "newEntry w d sm"] d by (simp add: smInv_def labelsOk_def appended_def)
  moreover have "targetsOk (getEntries sm')"
    using sm'(3) inv t targetsOk_snoc [of "getEntries sm" "newEntry w d sm"] by (simp add: appended_def smInv_def)
  ultimately show ?thesis by (simp add: appendData_def smInv_def)
qed

section \<open>Paths after an append\<close>

lemma pathTo_appended:
  assumes "coreInv sm" and "coreInv sm'" and "getEntries sm' = getEntries sm @ [e]"
    and "set_option l \<subseteq> ids (getEntries sm)"
  shows "pathTo l sm' = pathTo l sm"
proof (cases l)
  case (Some i)
  then obtain x where x: "x \<in> set (getEntries sm)" "e_id x = i" using assms(4) by auto
  then have x': "x \<in> set (getEntries sm')" by (simp add: assms(3))
  have "wfEntries (getEntries sm @ [e])" using assms(2,3) coreInv_wf by metis
  from walkParents_snoc [OF this x(1)] show ?thesis
    using pathTo_Some [OF assms(1) x(1)] pathTo_Some [OF assms(2) x'] x(2) Some by (simp only: assms(3))
qed simp

lemma getBranch_appended:
  assumes "coreInv sm" and "coreInv sm'" and a: "appended sm e sm'" and p: "e_parentId e = leafId sm"
  shows "getBranch None sm' = map_option (\<lambda>path. path @ [e]) (getBranch None sm)"
proof -
  have ents: "getEntries sm' = getEntries sm @ [e]" and leaf: "leafId sm' = Some (e_id e)"
    using a by (simp_all add: appended_def)
  have wf: "wfEntries (getEntries sm @ [e])" using assms(2) ents coreInv_wf by metis
  have b': "getBranch None sm' = walkParents (indexOf (getEntries sm @ [e])) e []"
    using pathTo_Some [OF assms(2), of e] by (simp add: getBranch_pathTo ents leaf)
  show ?thesis
  proof (cases "leafId sm")
    case None
    with p have "walkParents (indexOf (getEntries sm @ [e])) e [] = Some [e]" by (intro walkParents_root) simp
    with b' None show ?thesis by (simp add: getBranch_pathTo)
  next
    case (Some l)
    then obtain x where x: "x \<in> set (getEntries sm)" "e_id x = l"
      using assms(1) by (auto simp: coreInv_def leafOk_def)
    have "getBranch None sm = walkParents (indexOf (getEntries sm)) x []"
      using pathTo_Some [OF assms(1) x(1)] x(2) Some by (simp add: getBranch_pathTo)
    with walkParents_child [OF wf _ x(1)] b' p Some x(2) show ?thesis by metis
  qed
qed

section \<open>The other operations\<close>

lemma coreInv_move_leaf:
  assumes "coreInv sm" and "set_option l \<subseteq> ids (getEntries sm)"
  shows "coreInv (sm\<lparr>leafId := l\<rparr>)"
proof -
  have "cacheOk (sm\<lparr>leafId := l\<rparr>) = cacheOk sm"
    using pathTo_cong [of "sm\<lparr>leafId := l\<rparr>" sm] by (simp add: cacheOk_def split: option.splits)
  moreover have "diskOk (sm\<lparr>leafId := l\<rparr>) = diskOk sm" by (rule diskOk_cong) simp_all
  moreover have "leafOk (sm\<lparr>leafId := l\<rparr>)" using assms(2) by (simp add: leafOk_def)
  ultimately show ?thesis using assms(1) by (simp add: coreInv_def)
qed

lemma smInv_move_leaf:
  "smInv sm \<Longrightarrow> set_option l \<subseteq> ids (getEntries sm) \<Longrightarrow> smInv (sm\<lparr>leafId := l\<rparr>)"
  using coreInv_move_leaf [of sm l] by (simp add: smInv_def labelsOk_def)

lemma branchTo_inv:
  assumes "smInv sm"
  shows "smInv (snd (branchTo i sm))" "getEntries (snd (branchTo i sm)) = getEntries sm"
proof -
  have c: "coreInv sm" using assms by (simp add: smInv_def)
  show "smInv (snd (branchTo i sm))"
    using smInv_move_leaf [OF assms, of "Some i"] assms by (simp add: branchTo_def hasId_iff [OF c])
  show "getEntries (snd (branchTo i sm)) = getEntries sm" by (simp add: branchTo_def)
qed

lemma resetLeaf_inv: "smInv sm \<Longrightarrow> smInv (resetLeaf sm)"
  using smInv_move_leaf [of sm None] by (simp add: resetLeaf_def)

lemma getContextChanges_correct:
  assumes "smInv sm"
  obtains path sm' where "getBranch None sm = Some path"
    "getContextChanges sm = Some (changesOf (legacyPruneChanges sm) path, sm')" "smInv sm'"
    "sm' = sm\<lparr>contextChangesCache := contextChangesCache sm'\<rparr>"
proof -
  have c: "coreInv sm" using assms by (simp add: smInv_def)
  obtain path where path: "getBranch None sm = Some path" using getBranch_total [OF c] by metis
  let ?ch = "changesOf (legacyPruneChanges sm) path"
  let ?sm' = "sm\<lparr>contextChangesCache := Some (length (fileEntries sm), leafId sm, ?ch)\<rparr>"
  show thesis
  proof (cases "\<exists>ch. contextChangesCache sm = Some (length (fileEntries sm), leafId sm, ch)")
    case True
    then obtain ch where ch: "contextChangesCache sm = Some (length (fileEntries sm), leafId sm, ch)" by blast
    then have "?ch = ch" using c path unfolding coreInv_def cacheOk_def getBranch_pathTo
      by (elim conjE) (simp del: fold_simps)
    then show thesis using that [of path sm] path ch assms by (simp add: getContextChanges_def)
  next
    case False
    then have "getContextChanges sm = Some (?ch, ?sm')"
      using path by (auto simp: getContextChanges_def resolveContextChanges_def Let_def split: option.splits)
    moreover have "smInv ?sm'"
    proof -
      have "cacheOk ?sm'"
        using path pathTo_cong [of ?sm' sm] by (simp add: cacheOk_def getBranch_pathTo)
      moreover have "diskOk ?sm' = diskOk sm" by (rule diskOk_cong) simp_all
      ultimately show ?thesis using assms by (simp add: smInv_def coreInv_def labelsOk_def leafOk_def)
    qed
    ultimately show thesis using that [of path ?sm'] path by simp
  qed
qed

lemma coreInv_labels: "coreInv sm \<Longrightarrow> coreInv (sm\<lparr>labelsById := ls, labelTimestampsById := ts\<rparr>)"
proof -
  assume c: "coreInv sm"
  let ?sm' = "sm\<lparr>labelsById := ls, labelTimestampsById := ts\<rparr>"
  have "cacheOk ?sm' = cacheOk sm"
    using pathTo_cong [of ?sm' sm] by (simp add: cacheOk_def split: option.splits)
  moreover have "diskOk ?sm' = diskOk sm" by (rule diskOk_cong) simp_all
  ultimately show "coreInv ?sm'" using c by (simp add: coreInv_def leafOk_def)
qed

lemma appendLabelChange_inv:
  assumes inv: "smInv sm" and fresh: "freshWorld w sm" and t: "t \<in> ids (getEntries sm)"
  shows "\<exists>sm'. appendLabelChange w t l sm = (Inr (e_id (newEntry w (LabelEntry t l) sm)), sm') \<and> smInv sm' \<and>
           getEntries sm' = getEntries sm @ [newEntry w (LabelEntry t l) sm]"
proof -
  let ?e = "newEntry w (LabelEntry t l) sm"
  have c: "coreInv sm" using inv by (simp add: smInv_def)
  obtain sm1 where sm1: "appendEntry ?e sm = (Inr (), sm1)" "coreInv sm1" "appended sm ?e sm1"
    using appendEntry_coreInv [OF c newEntry_ok [OF c fresh], of "LabelEntry t l"] by (auto simp: recordLegacyPrune_def)
  let ?sm' = "sm1\<lparr>labelsById := applyLabel ?e (labelsById sm1), labelTimestampsById := applyLabelTimestamp ?e (labelTimestampsById sm1)\<rparr>"
  have ents: "getEntries ?sm' = getEntries sm @ [?e]" using sm1(3) by (simp add: appended_def)
  have "labelsOk ?sm'"
    using inv sm1(3) unfolding labelsOk_def ents by (simp add: smInv_def labelsOk_def appended_def)
  moreover have "targetsOk (getEntries ?sm')"
    unfolding ents using inv by (intro targetsOk_snoc) (simp_all add: smInv_def dataTarget_def)
  ultimately have "smInv ?sm'" using coreInv_labels [OF sm1(2)] by (simp add: smInv_def)
  then show ?thesis using sm1(1) t ents
    by (intro exI [of _ ?sm']) (simp add: appendLabelChange_def hasId_iff [OF c] Let_def)
qed

end
