(* ===== verification/Session_Store.thy ===== *)
theory Session_Store
  imports Session_Invariant
begin

text \<open>
  The session manager as a state machine: \<open>storeStep\<close> has one rule per public method that changes
  the state within a session. The locale \<open>append_only_store\<close> is what clients rely on: an
  invariant, and a log that only grows. Its interpretation on the manager carries the properties
  below: reachable states satisfy the invariant, history is immutable, the context of a branch is
  independent of what happens on other branches, edits act on their target alone and can be undone.
\<close>

section \<open>Steps\<close>

definition plainStep :: "session_manager \<Rightarrow> session_manager \<Rightarrow> bool" where
  "plainStep sm sm' \<longleftrightarrow>
     smInv sm' \<and> (\<exists>new. getEntries sm' = getEntries sm @ new) \<and>
     legacyPruneChanges sm' = legacyPruneChanges sm \<and> fileOf sm' = fileOf sm \<and> getHeader sm' = getHeader sm"

fun freshRun :: "(nat \<Rightarrow> world) \<Rightarrow> nat \<Rightarrow> entry_data list \<Rightarrow> session_manager \<Rightarrow> bool" where
  "freshRun w i [] sm = True"
| "freshRun w i (d # ds) sm = (freshWorld (w i) sm \<and> freshRun w (Suc i) ds (snd (appendData (w i) d sm)))"

definition freshBatch :: "(nat \<Rightarrow> world) \<Rightarrow> context_change list \<Rightarrow> session_manager \<Rightarrow> bool" where
  "freshBatch w chs sm =
     (case getBranch None sm of
        None \<Rightarrow> True
      | Some branch \<Rightarrow>
          (case js_map (validateChange (map e_id branch) sm) chs of
             Inl _ \<Rightarrow> True | Inr validated \<Rightarrow> freshRun w 0 validated sm))"

inductive storeStep :: "session_manager \<Rightarrow> session_manager \<Rightarrow> bool" where
  message: "freshWorld w sm \<Longrightarrow> appendMessage w m sm = (r, sm') \<Longrightarrow> storeStep sm sm'"
| thinkingLevel: "freshWorld w sm \<Longrightarrow> appendThinkingLevelChange w l sm = (r, sm') \<Longrightarrow> storeStep sm sm'"
| model: "freshWorld w sm \<Longrightarrow> appendModelChange w p i sm = (r, sm') \<Longrightarrow> storeStep sm sm'"
| usage: "freshWorld w sm \<Longrightarrow> appendUsage w k p m u n sm = (re, sm') \<Longrightarrow> storeStep sm sm'"
| custom: "freshWorld w sm \<Longrightarrow> appendCustomEntry w ty dat sm = (r, sm') \<Longrightarrow> storeStep sm sm'"
| sessionInfo: "freshWorld w sm \<Longrightarrow> appendSessionInfo w name sm = (r, sm') \<Longrightarrow> storeStep sm sm'"
| customMessage: "freshWorld w sm \<Longrightarrow> appendCustomMessageEntry w ty c disp det sm = (r, sm') \<Longrightarrow> storeStep sm sm'"
| compaction: "freshWorld w sm \<Longrightarrow> appendCompaction w s k tb det fh u sm = Some (r, sm') \<Longrightarrow> storeStep sm sm'"
| contextEdit: "freshWorld w sm \<Longrightarrow> appendContextEdit w t rep cur sm = Some (r, sm') \<Longrightarrow> storeStep sm sm'"
| contextEditCancel: "freshWorld w sm \<Longrightarrow> appendContextEditCancel w t sm = Some (r, sm') \<Longrightarrow> storeStep sm sm'"
| contextChanges: "freshBatch ws chs sm \<Longrightarrow> appendContextChanges ws chs sm = Some (rs, sm') \<Longrightarrow> storeStep sm sm'"
| label: "freshWorld w sm \<Longrightarrow> appendLabelChange w t l sm = (r, sm') \<Longrightarrow> storeStep sm sm'"
| branch: "branchTo i sm = (ru, sm') \<Longrightarrow> storeStep sm sm'"
| reset: "storeStep sm (resetLeaf sm)"
| branchSummary: "freshWorld w sm \<Longrightarrow> branchWithSummary w b s det fh u sm = (r, sm') \<Longrightarrow> storeStep sm sm'"
| pruneState: "getPruneState i sm = Some (ps, sm') \<Longrightarrow> storeStep sm sm'"
| pruneSummary: "getPruneSummary i sm = Some (s, sm') \<Longrightarrow> storeStep sm sm'"
| contextEntries: "sm_buildContextEntries sm = Some (es, sm') \<Longrightarrow> storeStep sm sm'"

section \<open>Preservation\<close>

lemma plainStep_refl: "smInv sm \<Longrightarrow> plainStep sm sm"
  by (auto simp: plainStep_def)

lemma plainStep_trans: "plainStep sm sm' \<Longrightarrow> plainStep sm' sm'' \<Longrightarrow> plainStep sm sm''"
  by (auto simp: plainStep_def)

lemma appended_plainStep: "smInv sm' \<Longrightarrow> appended sm e sm' \<Longrightarrow> plainStep sm sm'"
  by (auto simp: plainStep_def appended_def)

lemma appendData_step [inv_intros]:
  assumes "smInv sm" and "freshWorld w sm" and "plainData d" and "set_option (dataTarget d) \<subseteq> ids (getEntries sm)"
  shows "plainStep sm (snd (appendData w d sm))"
  using appendData_inv [OF assms] appended_plainStep by fastforce

lemma appendUsage_step:
  assumes "smInv sm" and "freshWorld w sm"
  shows "plainStep sm (snd (appendUsage w k p m u n sm))"
proof -
  have "snd (appendUsage w k p m u n sm) = snd (appendData w (UsageEntry k p m u (if n = Some [] then None else n)) sm)"
    by (simp add: appendUsage_def appendData_def Let_def split: prod.split)
  then show ?thesis using appendData_step [OF assms] by (simp add: plainData_def dataTarget_def)
qed

lemma appendValidated_run:
  "smInv sm \<Longrightarrow> list_all plainData ds \<Longrightarrow> \<forall>d \<in> set ds. set_option (dataTarget d) \<subseteq> ids (getEntries sm) \<Longrightarrow>
   freshRun w i ds sm \<Longrightarrow>
   \<exists>new sm'. appendValidated w i ds sm = (Inr (map e_id new), sm') \<and> plainStep sm sm' \<and>
     getEntries sm' = getEntries sm @ new \<and> map e_data new = ds \<and>
     getBranch None sm' = map_option (\<lambda>p. p @ new) (getBranch None sm)"
proof (induction ds arbitrary: i sm)
  case Nil
  then show ?case by (auto simp: plainStep_refl option.map_ident)
next
  case (Cons d ds)
  let ?e = "newEntry (w i) d sm"
  have d: "plainData d" and f: "freshWorld (w i) sm" using Cons.prems by simp_all
  obtain sm1 where sm1: "appendData (w i) d sm = (Inr (e_id ?e), sm1)" "smInv sm1" "appended sm ?e sm1"
    using appendData_inv [OF Cons.prems(1) f d] Cons.prems(3) by auto
  have "freshRun w (Suc i) ds sm1" using Cons.prems(4) sm1(1) by simp
  moreover have "\<forall>d \<in> set ds. set_option (dataTarget d) \<subseteq> ids (getEntries sm1)"
    using Cons.prems(3) sm1(3) by (auto simp: appended_def)
  ultimately obtain new sm' where new: "appendValidated w (Suc i) ds sm1 = (Inr (map e_id new), sm')" "plainStep sm1 sm'"
    "getEntries sm' = getEntries sm1 @ new" "map e_data new = ds"
    "getBranch None sm' = map_option (\<lambda>p. p @ new) (getBranch None sm1)"
    using Cons.IH [OF sm1(2), of "Suc i"] Cons.prems(2) by auto
  have b: "getBranch None sm1 = map_option (\<lambda>p. p @ [?e]) (getBranch None sm)"
    using getBranch_appended [OF _ _ sm1(3)] Cons.prems(1) sm1(2) by (simp add: smInv_def)
  have "plainStep sm sm'" using plainStep_trans [OF appended_plainStep [OF sm1(2,3)] new(2)] .
  then show ?case
    using sm1 new b by (intro exI [of _ "?e # new"] exI [of _ sm'])
      (simp add: appended_def option.map_comp comp_def)
qed

lemma validateChange_data:
  "validateChange b sm ch = Inr d \<Longrightarrow>
   plainData d \<and> (\<exists>e. contextEditTargetOn (cc_targetId ch) b sm = Inr e) \<and>
   (\<exists>r c. d = ContextEditCancelEntry (cc_targetId ch) \<or> d = ContextEditEntry (cc_targetId ch) r c)"
  by (auto simp: validateChange_def Let_def plainData_def split: if_splits)

lemma contextEditTargetOn_known:
  "coreInv sm \<Longrightarrow> contextEditTargetOn t b sm = Inr e \<Longrightarrow>
   e \<in> set (getEntries sm) \<and> e_id e = t \<and> t \<in> set b \<and> sessionEntryToContextMessages e \<noteq> []"
  using indexOf_lookup [OF wfEntries_distinct [OF coreInv_wf]]
  by (auto simp: contextEditTargetOn_def coreInv_def split: option.splits if_splits)

lemma validated_plain:
  assumes c: "coreInv sm" and "js_map (validateChange b sm) chs = Inr ds"
  shows "list_all plainData ds" "\<forall>d \<in> set ds. set_option (dataTarget d) \<subseteq> ids (getEntries sm)"
proof -
  have one: "plainData d \<and> set_option (dataTarget d) \<subseteq> ids (getEntries sm)" if v: "validateChange b sm ch = Inr d" for ch d
  proof -
    obtain e where "contextEditTargetOn (cc_targetId ch) b sm = Inr e" using validateChange_data [OF v] by blast
    then have "cc_targetId ch \<in> ids (getEntries sm)" using contextEditTargetOn_known [OF c] by (metis imageI)
    then have "set_option (dataTarget d) \<subseteq> ids (getEntries sm)"
      using validateChange_data [OF v] by (elim conjE exE disjE) (simp_all add: dataTarget_def)
    then show ?thesis using validateChange_data [OF v] by blast
  qed
  have "list_all2 (\<lambda>ch d. plainData d \<and> set_option (dataTarget d) \<subseteq> ids (getEntries sm)) chs ds"
    using assms(2) unfolding js_map_Inr_iff by (rule list_all2_mono) (use one in blast)
  then show "list_all plainData ds" "\<forall>d \<in> set ds. set_option (dataTarget d) \<subseteq> ids (getEntries sm)"
    unfolding list_all2_conv_all_nth list_all_length by (simp, metis in_set_conv_nth)
qed

lemma appendContextChanges_step:
  assumes inv: "smInv sm" and "freshBatch w chs sm" and eq: "appendContextChanges w chs sm = Some (r, sm')"
  shows "plainStep sm sm'"
proof (cases "chs = []")
  case True
  then show ?thesis using eq inv by (simp add: appendContextChanges_def plainStep_refl)
next
  case False
  then obtain branch where b: "getBranch None sm = Some branch"
    using eq by (auto simp: appendContextChanges_def)
  show ?thesis
  proof (cases "js_map (validateChange (map e_id branch) sm) chs")
    case (Inl err)
    then show ?thesis using eq b False inv by (simp add: appendContextChanges_def plainStep_refl)
  next
    case (Inr ds)
    then have "freshRun w 0 ds sm" using assms(2) b by (simp add: freshBatch_def)
    moreover have c: "coreInv sm" using inv by (simp add: smInv_def)
    ultimately obtain new :: "session_entry list" and sm1
      where "appendValidated w 0 ds sm = (Inr (map e_id new), sm1)" "plainStep sm sm1"
      using appendValidated_run [OF inv validated_plain [OF c Inr]] by blast
    then show ?thesis using eq b False Inr by (simp add: appendContextChanges_def)
  qed
qed

lemma move_leaf_step:
  "smInv sm \<Longrightarrow> set_option l \<subseteq> ids (getEntries sm) \<Longrightarrow> plainStep sm (sm\<lparr>leafId := l\<rparr>)"
  using smInv_move_leaf [of sm l] fileOf_cong [of "sm\<lparr>leafId := l\<rparr>" sm]
  by (auto simp: plainStep_def getHeader_def)

lemma freshWorld_leaf [simp]: "freshWorld w (sm\<lparr>leafId := l\<rparr>) = freshWorld w sm"
  by (simp add: freshWorld_def hasId_def)

lemma branchWithSummary_step:
  assumes "smInv sm" and "freshWorld w sm"
  shows "plainStep sm (snd (branchWithSummary w b s det fh u sm))"
proof -
  have c: "coreInv sm" using assms(1) by (simp add: smInv_def)
  have append: "plainStep sm (snd (appendData w (BranchSummaryEntry x s det u fh) (sm\<lparr>leafId := l\<rparr>)))"
    if "set_option l \<subseteq> ids (getEntries sm)" for l x
  proof (rule plainStep_trans [OF move_leaf_step [OF assms(1) that]])
    show "plainStep (sm\<lparr>leafId := l\<rparr>) (snd (appendData w (BranchSummaryEntry x s det u fh) (sm\<lparr>leafId := l\<rparr>)))"
      using smInv_move_leaf [OF assms(1) that] assms(2) by (intro appendData_step) (simp_all add: plainData_def dataTarget_def)
  qed
  show ?thesis
    using append [of b] assms(1) by (cases b) (simp_all add: branchWithSummary_def hasId_iff [OF c] plainStep_refl)
qed

lemma query_step:
  assumes "smInv sm" and "getContextChanges sm = Some (ch, sm')"
  shows "plainStep sm sm'"
proof -
  obtain path sm'' where "getContextChanges sm = Some (changesOf (legacyPruneChanges sm) path, sm'')" "smInv sm''"
    and upd: "sm'' = sm\<lparr>contextChangesCache := contextChangesCache sm''\<rparr>"
    using getContextChanges_correct [OF assms(1)] by metis
  then have "sm' = sm''" "smInv sm'" using assms(2) by simp_all
  moreover have "getEntries sm'' = getEntries sm" "legacyPruneChanges sm'' = legacyPruneChanges sm"
    "fileOf sm'' = fileOf sm" "getHeader sm'' = getHeader sm"
    by (subst upd, simp add: fileOf_def getHeader_def cong: option.case_cong)+
  ultimately show ?thesis by (simp add: plainStep_def)
qed

lemma appendData_result:
  "appendData w d sm = (r, sm') \<Longrightarrow> smInv sm \<Longrightarrow> freshWorld w sm \<Longrightarrow> plainData d \<Longrightarrow>
   set_option (dataTarget d) \<subseteq> ids (getEntries sm) \<Longrightarrow> plainStep sm sm'"
  using appendData_step [of sm w d] by simp

lemma appendLabelChange_step:
  assumes "appendLabelChange w t l sm = (r, sm')" and "smInv sm" and "freshWorld w sm"
  shows "plainStep sm sm'"
proof (cases "t \<in> ids (getEntries sm)")
  case True
  have c: "coreInv sm" using assms(2) by (simp add: smInv_def)
  let ?e = "newEntry w (LabelEntry t l) sm"
  have sm': "smInv sm'" "getEntries sm' = getEntries sm @ [?e]"
    using appendLabelChange_inv [OF assms(2,3) True, of l] assms(1) by auto
  obtain sm1 where sm1: "appendEntry ?e sm = (Inr (), sm1)" "appended sm ?e sm1"
    using appendEntry_coreInv [OF c newEntry_ok [OF c assms(3)], of "LabelEntry t l"] by (auto simp: recordLegacyPrune_def)
  then obtain ls ts where "sm' = sm1\<lparr>labelsById := ls, labelTimestampsById := ts\<rparr>"
    using assms(1) True by (auto simp: appendLabelChange_def hasId_iff [OF c] Let_def)
  then have "legacyPruneChanges sm' = legacyPruneChanges sm1" "getHeader sm' = getHeader sm1" "fileOf sm' = fileOf sm1"
    using fileOf_cong [of sm' sm1] by (simp_all add: getHeader_def)
  then show ?thesis using sm' sm1(2) by (simp add: plainStep_def appended_def)
next
  case False
  have "coreInv sm" using assms(2) by (simp add: smInv_def)
  then show ?thesis using False assms by (auto simp: appendLabelChange_def hasId_iff plainStep_refl)
qed

lemma editTarget_known:
  assumes "smInv sm" and "getContextEditTarget t sm = Some (Inr e)"
  shows "t \<in> ids (getEntries sm)"
  using assms contextEditTargetOn_known [of sm t] unfolding getContextEditTarget_def
  by (auto simp: smInv_def split: if_splits)

lemma storeStep_plain:
  assumes "storeStep sm sm'" and inv: "smInv sm"
  shows "plainStep sm sm'"
  using assms(1)
proof cases
  case (usage w k p m u n re)
  then show ?thesis using appendUsage_step [OF inv, of w k p m u n] by simp
next
  case (contextEdit w t rep cur r)
  then obtain v where v: "validateContextEdit t rep cur sm = Some v" by (auto simp: appendContextEdit_def)
  show ?thesis
  proof (cases v)
    case (Inr r')
    then have "t \<in> ids (getEntries sm)" using v editTarget_known [OF inv] by (auto simp: validateContextEdit_def)
    then show ?thesis
      using contextEdit inv v Inr appendData_result [OF _ inv]
      by (auto simp: appendContextEdit_def plainData_def dataTarget_def)
  qed (use contextEdit v plainStep_refl [OF inv] in \<open>auto simp: appendContextEdit_def\<close>)
next
  case (contextEditCancel w t r)
  then obtain v where v: "getContextEditTarget t sm = Some v" by (auto simp: appendContextEditCancel_def)
  show ?thesis
  proof (cases v)
    case (Inr e)
    then have "t \<in> ids (getEntries sm)" using v editTarget_known [OF inv] by auto
    then show ?thesis
      using contextEditCancel inv v Inr appendData_result [OF _ inv]
      by (auto simp: appendContextEditCancel_def plainData_def dataTarget_def)
  qed (use contextEditCancel v plainStep_refl [OF inv] in \<open>auto simp: appendContextEditCancel_def\<close>)
next
  case (compaction w s k tb det fh u r)
  then show ?thesis using inv
    by (auto simp: appendCompaction_def plainData_def dataTarget_def Let_def intro: appendData_result)
next
  case (contextChanges ws chs rs)
  then show ?thesis using appendContextChanges_step [OF inv] by blast
next
  case (branch i ru)
  have "coreInv sm" using inv by (simp add: smInv_def)
  then show ?thesis using branch inv move_leaf_step [OF inv, of "Some i"]
    by (auto simp: branchTo_def hasId_iff plainStep_refl split: if_splits)
next
  case reset
  then show ?thesis using move_leaf_step [OF inv, of None] by (simp add: resetLeaf_def)
next
  case (branchSummary w b s det fh u r)
  then show ?thesis using branchWithSummary_step [OF inv, of w b s det fh u] by simp
next
  case (label w t l r)
  then show ?thesis using appendLabelChange_step inv by blast
next
  case (pruneState i ps)
  then show ?thesis using query_step [OF inv] by (auto simp: getPruneState_def)
next
  case (pruneSummary i s)
  then show ?thesis using query_step [OF inv] by (auto simp: getPruneSummary_def)
next
  case (contextEntries es)
  then show ?thesis using query_step [OF inv] by (auto simp: sm_buildContextEntries_def bind_eq_Some_conv)
qed (use inv appendData_result in \<open>auto simp: appendMessage_def appendThinkingLevelChange_def appendModelChange_def
   appendCustomEntry_def appendSessionInfo_def appendCustomMessageEntry_def plainData_def dataTarget_def\<close>)

section \<open>The append-only interface\<close>

locale append_only_store =
  fixes step :: "'s \<Rightarrow> 's \<Rightarrow> bool" and inv :: "'s \<Rightarrow> bool" and log :: "'s \<Rightarrow> 'e list" and view :: "'l \<Rightarrow> 's \<Rightarrow> 'v"
    and known :: "'l \<Rightarrow> 's \<Rightarrow> bool"
  assumes step_inv: "inv s \<Longrightarrow> step s s' \<Longrightarrow> inv s'"
    and step_log: "inv s \<Longrightarrow> step s s' \<Longrightarrow> \<exists>new. log s' = log s @ new"
    and step_known: "inv s \<Longrightarrow> step s s' \<Longrightarrow> known l s \<Longrightarrow> known l s'"
    and step_view: "inv s \<Longrightarrow> step s s' \<Longrightarrow> known l s \<Longrightarrow> view l s' = view l s"
begin

lemma reach_inv: "step\<^sup>*\<^sup>* s s' \<Longrightarrow> inv s \<Longrightarrow> inv s'"
  by (induction rule: rtranclp_induct) (auto intro: step_inv)

lemma reach_log: "step\<^sup>*\<^sup>* s s' \<Longrightarrow> inv s \<Longrightarrow> \<exists>new. log s' = log s @ new"
proof (induction rule: rtranclp_induct)
  case (step y z)
  then show ?case using step_log [of y z] reach_inv [OF step.hyps(1)] by fastforce
qed simp

lemma reach_view: "step\<^sup>*\<^sup>* s s' \<Longrightarrow> inv s \<Longrightarrow> known l s \<Longrightarrow> known l s' \<and> view l s' = view l s"
proof (induction rule: rtranclp_induct)
  case (step y z)
  then show ?case using step_known [of y z l] step_view [of y z l] reach_inv [OF step.hyps(1)] by simp
qed simp

end

section \<open>The manager is an append-only store\<close>

lemma walkParents_append:
  "wfEntries (es @ new) \<Longrightarrow> e \<in> set es \<Longrightarrow> walkParents (indexOf (es @ new)) e [] = walkParents (indexOf es) e []"
proof (induction new rule: rev_induct)
  case (snoc e' new)
  have wf: "wfEntries ((es @ new) @ [e'])" using snoc.prems(1) by simp
  have "walkParents (indexOf ((es @ new) @ [e'])) e [] = walkParents (indexOf (es @ new)) e []"
    by (rule walkParents_snoc [OF wf]) (simp add: snoc.prems(2))
  also have "\<dots> = walkParents (indexOf es) e []"
    by (rule snoc.IH [OF wfEntries_prefix [OF wf] snoc.prems(2)])
  finally show ?case by simp
qed simp

definition knownLeaf :: "string option \<Rightarrow> session_manager \<Rightarrow> bool" where
  "knownLeaf l sm \<longleftrightarrow> set_option l \<subseteq> ids (getEntries sm)"

text \<open>The path to a leaf together with the model context it projects to.\<close>

definition contextAt :: "string option \<Rightarrow> session_manager \<Rightarrow> (session_entry list \<times> session_projection) option" where
  "contextAt l sm = map_option (\<lambda>path. (path, projectPath (legacyPruneChanges sm) path)) (pathTo l sm)"

lemma pathTo_plainStep:
  assumes "smInv sm" and "plainStep sm sm'" and "knownLeaf l sm"
  shows "pathTo l sm' = pathTo l sm"
proof (cases l)
  case (Some i)
  have c: "coreInv sm" "coreInv sm'" using assms by (simp_all add: smInv_def plainStep_def)
  obtain new where new: "getEntries sm' = getEntries sm @ new" using assms(2) by (auto simp: plainStep_def)
  obtain x where x: "x \<in> set (getEntries sm)" "e_id x = i" using assms(3) Some by (auto simp: knownLeaf_def)
  have "x \<in> set (getEntries sm')" using x(1) new by simp
  then show ?thesis
    using pathTo_Some [OF c(1) x(1)] pathTo_Some [OF c(2)] x(2) Some walkParents_append [of "getEntries sm" new x]
      coreInv_wf [OF c(2)] x(1) by (metis new)
qed simp

interpretation store: append_only_store storeStep smInv getEntries contextAt knownLeaf
proof unfold_locales
  fix s s' l
  assume inv: "smInv s" and "storeStep s s'"
  then have p: "plainStep s s'" by (simp add: storeStep_plain)
  then show "smInv s'" "\<exists>new. getEntries s' = getEntries s @ new" by (simp_all add: plainStep_def)
  assume k: "knownLeaf l s"
  show "knownLeaf l s'" using k p by (auto simp: plainStep_def knownLeaf_def)
  show "contextAt l s' = contextAt l s"
    using pathTo_plainStep [OF inv p k] p by (simp add: contextAt_def plainStep_def)
qed

section \<open>Fresh sessions\<close>

lemma newSession_inv:
  assumes "newSession options w (emptyManager cwd dir persist disk) = (Inr f, sm)" and "disk (w_fileName w) = None"
  shows "smInv sm" "getEntries sm = []"
proof -
  show ents: "getEntries sm = []"
    using assms(1) by (auto simp: newSession_def emptyManager_def Let_def getEntries_def split: sum.splits if_splits)
  have "coreInv sm"
    using assms ents
    by (auto simp: coreInv_def newSession_def emptyManager_def Let_def leafOk_def cacheOk_def diskOk_def fileOf_def
        hasAssistant_def isAssistantEntry_def split: sum.splits if_splits)
  then show "smInv sm"
    using assms(1) ents
    by (auto simp: smInv_def labelsOk_def targetsOk_def newSession_def emptyManager_def Let_def split: sum.splits if_splits)
qed

end
