(* ===== verification/Session_Properties.thy ===== *)
theory Session_Properties
  imports Session_Store
begin

text \<open>
  What the session manager promises: properties of reachable states, of histories, of each way of
  changing the model context, of the cache and of the file on disk. The sample states at the start
  are those of a small persisted session; the witnesses use them.
\<close>

section \<open>A sample session\<close>

definition sampleWorld :: "string \<Rightarrow> world" where
  "sampleWorld u = \<lparr>w_uuids = (\<lambda>_. u), w_sessionId = ''sid'', w_now = 0, w_fileName = ''/s/f.jsonl''\<rparr>"

definition sampleAssistant :: "string \<Rightarrow> agent_message" where
  "sampleAssistant t = Assistant \<lparr>am_content = [plainText t], am_api = ''api'', am_provider = ''p'', am_model = ''m'',
     am_usage = None, am_stopReason = Stop, am_errorMessage = None, am_timestamp = 0, am_rest = []\<rparr>"

definition sample0 :: session_manager where
  "sample0 = snd (newSession None (sampleWorld ''s'') (emptyManager ''/w'' ''/s'' True (\<lambda>_. None)))"

definition sample1 :: session_manager where
  "sample1 = snd (appendMessage (sampleWorld ''aaaaaaaa-0'') (sampleUser ''hi'') sample0)"

definition sampleNext :: "agent_message \<Rightarrow> session_manager" where
  "sampleNext m = snd (appendMessage (sampleWorld ''bbbbbbbb-0'') m sample1)"

definition sample2 :: session_manager where
  "sample2 = sampleNext (sampleAssistant ''ho'')"

lemma sampleWorld_simps [simp]: "w_uuids (sampleWorld u) i = u" "w_now (sampleWorld u) = 0"
  by (simp_all add: sampleWorld_def)

lemma sample0_new: "newSession None (sampleWorld ''s'') (emptyManager ''/w'' ''/s'' True (\<lambda>_. None)) = (Inr (Some ''/s/f.jsonl''), sample0)"
  by (simp add: sample0_def newSession_def Let_def emptyManager_def sampleWorld_def)

lemma sample0_inv: "smInv sample0" and sample0_entries: "getEntries sample0 = []"
  using newSession_inv [OF sample0_new] by simp_all

lemma appendMessage_run:
  assumes "smInv sm" and "freshWorld w sm"
  shows "\<exists>sm'. appendMessage w m sm = (Inr (e_id (newEntry w (MessageEntry m False) sm)), sm') \<and> smInv sm' \<and>
               appended sm (newEntry w (MessageEntry m False) sm) sm'"
  unfolding appendMessage_def
  by (rule appendData_inv [OF assms]) (simp_all add: plainData_def dataTarget_def)

lemma freshWorld_sample:
  "coreInv sm \<Longrightarrow> u \<noteq> [] \<Longrightarrow> u \<notin> ids (getEntries sm) \<Longrightarrow> freshWorld (sampleWorld u) sm"
  by (simp add: freshWorld_def uuidsOk_def hasId_iff)

lemma newEntry_sample_id:
  "coreInv sm \<Longrightarrow> take 8 u \<notin> ids (getEntries sm) \<Longrightarrow> e_id (newEntry (sampleWorld u) d sm) = take 8 u"
  by (simp add: newEntry_def generateId_first hasId_iff)

lemma sample0_fresh: "freshWorld (sampleWorld ''aaaaaaaa-0'') sample0"
  using sample0_inv by (intro freshWorld_sample) (simp_all add: smInv_def sample0_entries)

lemma sample1_run:
  "appendMessage (sampleWorld ''aaaaaaaa-0'') (sampleUser ''hi'') sample0 = (Inr ''aaaaaaaa'', sample1)"
  "smInv sample1" "getEntries sample1 = [sampleEntry ''aaaaaaaa'' None (sampleUser ''hi'')]" "leafId sample1 = Some ''aaaaaaaa''"
proof -
  have c: "coreInv sample0" using sample0_inv by (simp add: smInv_def)
  let ?e = "newEntry (sampleWorld ''aaaaaaaa-0'') (MessageEntry (sampleUser ''hi'') False) sample0"
  have i: "e_id ?e = ''aaaaaaaa''" using newEntry_sample_id [OF c, of "''aaaaaaaa-0''"] by (simp add: sample0_entries)
  have l: "leafId sample0 = None" by (simp add: sample0_def newSession_def Let_def)
  have "?e = sampleEntry (e_id ?e) None (sampleUser ''hi'')" using l by (simp add: newEntry_def sampleEntry_def)
  then have e: "?e = sampleEntry ''aaaaaaaa'' None (sampleUser ''hi'')" by (simp only: i)
  obtain sm' where sm': "appendMessage (sampleWorld ''aaaaaaaa-0'') (sampleUser ''hi'') sample0 = (Inr (e_id ?e), sm')"
    "smInv sm'" "appended sample0 ?e sm'"
    using appendMessage_run [OF sample0_inv sample0_fresh] by blast
  then have "sample1 = sm'" by (simp add: sample1_def)
  with sm' show "appendMessage (sampleWorld ''aaaaaaaa-0'') (sampleUser ''hi'') sample0 = (Inr ''aaaaaaaa'', sample1)"
    "smInv sample1" "getEntries sample1 = [sampleEntry ''aaaaaaaa'' None (sampleUser ''hi'')]" "leafId sample1 = Some ''aaaaaaaa''"
    by (simp_all add: i appended_def sample0_entries e sampleEntry_def)
qed

lemma sample1_fresh: "freshWorld (sampleWorld ''bbbbbbbb-0'') sample1"
  using sample1_run(2) by (intro freshWorld_sample) (simp_all add: smInv_def sample1_run(3) sampleEntry_def)

lemma sampleNext_run:
  "appendMessage (sampleWorld ''bbbbbbbb-0'') m sample1 = (Inr ''bbbbbbbb'', sampleNext m)"
  "smInv (sampleNext m)" "leafId (sampleNext m) = Some ''bbbbbbbb''"
  "getEntries (sampleNext m) = [sampleEntry ''aaaaaaaa'' None (sampleUser ''hi''), sampleEntry ''bbbbbbbb'' (Some ''aaaaaaaa'') m]"
proof -
  have c: "coreInv sample1" using sample1_run(2) by (simp add: smInv_def)
  let ?e = "newEntry (sampleWorld ''bbbbbbbb-0'') (MessageEntry m False) sample1"
  have i: "e_id ?e = ''bbbbbbbb''"
    using newEntry_sample_id [OF c, of "''bbbbbbbb-0''"] by (simp add: sample1_run(3) sampleEntry_def)
  have "?e = sampleEntry (e_id ?e) (Some ''aaaaaaaa'') m"
    by (simp add: newEntry_def sampleEntry_def sample1_run(4))
  then have e: "?e = sampleEntry ''bbbbbbbb'' (Some ''aaaaaaaa'') m" by (simp only: i)
  obtain sm' where sm': "appendMessage (sampleWorld ''bbbbbbbb-0'') m sample1 = (Inr (e_id ?e), sm')"
    "smInv sm'" "appended sample1 ?e sm'"
    using appendMessage_run [OF sample1_run(2) sample1_fresh] by blast
  then have "sampleNext m = sm'" by (simp add: sampleNext_def)
  with sm' show "appendMessage (sampleWorld ''bbbbbbbb-0'') m sample1 = (Inr ''bbbbbbbb'', sampleNext m)"
    "smInv (sampleNext m)" "leafId (sampleNext m) = Some ''bbbbbbbb''"
    "getEntries (sampleNext m) = [sampleEntry ''aaaaaaaa'' None (sampleUser ''hi''), sampleEntry ''bbbbbbbb'' (Some ''aaaaaaaa'') m]"
    by (simp_all add: i appended_def sample1_run(3) e sampleEntry_def)
qed

lemmas sample2_run = sampleNext_run [of "sampleAssistant ''ho''", folded sample2_def]

lemma sample_steps: "storeStep sample0 sample1" "storeStep sample1 sample2" "storeStep\<^sup>*\<^sup>* sample0 sample2"
proof -
  show 1: "storeStep sample0 sample1" by (rule storeStep.message [OF sample0_fresh sample1_run(1)])
  show 2: "storeStep sample1 sample2" by (rule storeStep.message [OF sample1_fresh sample2_run(1)])
  show "storeStep\<^sup>*\<^sup>* sample0 sample2" using 1 2 by (meson rtranclp.simps)
qed

section \<open>Reachable states and histories\<close>

text \<open>
  C1 (reachable states): in every state a fresh session can reach, ids are unique and parents
  precede their children, the indexes and the cache agree with the log, and the walk from the leaf
  returns: the chain of parents from a root to the leaf, each entry once, in log order.
\<close>

theorem session_reachable_inv:
  assumes "newSession options w (emptyManager cwd dir persist disk) = (Inr f, sm0)" and "disk (w_fileName w) = None"
    and "storeStep\<^sup>*\<^sup>* sm0 sm"
  shows "smInv sm \<and> wfEntries (getEntries sm) \<and>
         (\<exists>path. getBranch None sm = Some path \<and> subseq path (getEntries sm) \<and>
            (if leafId sm = None then path = []
             else rootChain (byId sm) path \<and> leafId sm = Some (e_id (last path))))"
proof -
  have inv: "smInv sm" by (rule store.reach_inv [OF assms(3) newSession_inv(1) [OF assms(1,2)]])
  then have c: "coreInv sm" by (simp add: smInv_def)
  have "\<exists>path. getBranch None sm = Some path \<and> subseq path (getEntries sm) \<and>
            (if leafId sm = None then path = []
             else rootChain (byId sm) path \<and> leafId sm = Some (e_id (last path)))"
  proof (cases "leafId sm")
    case (Some l)
    then have "l \<in> ids (getEntries sm)" using c by (simp add: coreInv_def leafOk_def)
    then show ?thesis using Some by (elim pathTo_total [OF c]) (simp add: getBranch_pathTo)
  qed (simp add: getBranch_pathTo)
  with inv c show ?thesis by (simp add: coreInv_wf)
qed

theorem session_reachable_inv_witness:
  "smInv sample2 \<and> wfEntries (getEntries sample2) \<and>
   (\<exists>path. getBranch None sample2 = Some path \<and> subseq path (getEntries sample2) \<and>
      (if leafId sample2 = None then path = []
       else rootChain (byId sample2) path \<and> leafId sample2 = Some (e_id (last path))))"
  by (rule session_reachable_inv [OF sample0_new _ sample_steps(3)]) simp

text \<open>
  C2 (immutable history): whatever is done to a session later (messages, edits, compactions,
  branching), its log is only extended, and the path and the projected context of every leaf that
  already existed stay what they were.
\<close>

theorem history_immutable:
  assumes "smInv sm" and "storeStep\<^sup>*\<^sup>* sm sm'" and "i \<in> ids (getEntries sm)"
  shows "prefix (getEntries sm) (getEntries sm') \<and>
         getBranch (Some i) sm' = getBranch (Some i) sm \<and> contextAt (Some i) sm' = contextAt (Some i) sm"
proof -
  have "contextAt (Some i) sm' = contextAt (Some i) sm"
    using store.reach_view [OF assms(2,1), of "Some i"] assms(3) by (simp add: knownLeaf_def)
  moreover have "pathTo (Some i) x = map_option fst (contextAt (Some i) x)" for x
    by (simp add: contextAt_def option.map_comp comp_def option.map_ident)
  ultimately show ?thesis
    using store.reach_log [OF assms(2,1)] by (simp add: getBranch_Some_pathTo prefix_def)
qed

theorem history_immutable_witness:
  "prefix (getEntries sample1) (getEntries sample2) \<and>
   getBranch (Some ''aaaaaaaa'') sample2 = getBranch (Some ''aaaaaaaa'') sample1 \<and>
   contextAt (Some ''aaaaaaaa'') sample2 = contextAt (Some ''aaaaaaaa'') sample1"
proof (rule history_immutable [OF sample1_run(2)])
  show "storeStep\<^sup>*\<^sup>* sample1 sample2" using sample_steps(2) by blast
qed (simp add: sample1_run(3) sampleEntry_def)

section \<open>What an append does to the context\<close>

lemma appendData_branch:
  assumes inv: "smInv sm" and fresh: "freshWorld w sm" and d: "plainData d" "set_option (dataTarget d) \<subseteq> ids (getEntries sm)"
  obtains path sm' where
    "appendData w d sm = (Inr (e_id (newEntry w d sm)), sm')" "smInv sm'"
    "getEntries sm' = getEntries sm @ [newEntry w d sm]"
    "getBranch None sm = Some path" "getBranch None sm' = Some (path @ [newEntry w d sm])"
    "sm_buildSessionProjection sm = Some (projectPath (legacyPruneChanges sm) path)"
    "sm_buildSessionProjection sm' = Some (projectPath (legacyPruneChanges sm) (path @ [newEntry w d sm]))"
    "map_of (changesOf (legacyPruneChanges sm) path) (e_id (newEntry w d sm)) = None"
    "legacyPruneChanges sm' = legacyPruneChanges sm" "e_id (newEntry w d sm) \<notin> ids (getEntries sm)"
    "set path \<subseteq> set (getEntries sm)"
proof -
  let ?e = "newEntry w d sm"
  have c: "coreInv sm" using inv by (simp add: smInv_def)
  obtain sm' where sm': "appendData w d sm = (Inr (e_id ?e), sm')" "smInv sm'" "appended sm ?e sm'"
    using appendData_inv [OF inv fresh d] by blast
  have c': "coreInv sm'" using sm'(2) by (simp add: smInv_def)
  obtain path where path: "getBranch None sm = Some path" "subseq path (getEntries sm)" using getBranch_total [OF c] by metis
  have b': "getBranch None sm' = Some (path @ [?e])"
    using getBranch_appended [OF c c' sm'(3)] path(1) by simp
  have fresh_id: "e_id ?e \<notin> ids (getEntries sm)" using newEntry_ok [OF c fresh, of d] by (simp add: entryOk_def)
  have "map_of (changesOf (legacyPruneChanges sm) path) (e_id ?e) = None"
    using inv by (intro changes_target_known [OF c _ subseq_set [OF path(2)] fresh_id]) (simp add: smInv_def)
  then show thesis
    using that [of sm' path] sm' path b' fresh_id subseq_set [OF path(2)]
    by (simp add: appended_def projection_of_branch [OF c] projection_of_branch [OF c'])
qed

lemma appendData_projection:
  assumes inv: "smInv sm" and fresh: "freshWorld w sm" and d: "plainData d" "dataTarget d = None"
    and nc: "\<And>c. d \<noteq> CompactionEntry c"
  obtains p p' sm' where "appendData w d sm = (Inr (e_id (newEntry w d sm)), sm')" "smInv sm'"
    "sm_buildSessionProjection sm = Some p" "sm_buildSessionProjection sm' = Some p'"
    "sp_messages p' = sp_messages p @ sessionEntryToContextMessages (newEntry w d sm)"
proof -
  let ?e = "newEntry w d sm"
  have "\<not> isCompaction ?e" using nc by (auto simp: isCompaction_def split: entry_data.splits)
  moreover have "editEffect ?e = None" using d(2) by (auto simp: editEffect_def dataTarget_def split: entry_data.splits)
  ultimately have e: "sp_entries (projectPath l (path @ [?e])) = sp_entries (projectPath l path) @ [projectOne (changesOf l path) ?e]" for l path
    by (rule projectPath_snoc_plain)
  have "set_option (dataTarget d) \<subseteq> ids (getEntries sm)" by (simp add: d(2))
  from appendData_branch [OF inv fresh d(1) this]
  obtain path sm' where b: "appendData w d sm = (Inr (e_id ?e), sm')" "smInv sm'"
    "sm_buildSessionProjection sm = Some (projectPath (legacyPruneChanges sm) path)"
    "sm_buildSessionProjection sm' = Some (projectPath (legacyPruneChanges sm) (path @ [?e]))"
    "map_of (changesOf (legacyPruneChanges sm) path) (e_id ?e) = None" .
  show thesis
    by (rule that [OF b(1-4)]) (simp add: projectPath_messages e projectOne_def projectContextEntry_def b(5))
qed

text \<open>
  Appending a message: it cannot fail, the new entry becomes the leaf at the end of the
  active branch, and the model context is the old one followed by the message, unchanged.
\<close>

theorem appendMessage_extends_context:
  assumes "smInv sm" and "freshWorld w sm"
  shows "\<exists>p p' sm' i. appendMessage w m sm = (Inr i, sm') \<and> smInv sm' \<and> leafId sm' = Some i \<and>
           sm_buildSessionProjection sm = Some p \<and> sm_buildSessionProjection sm' = Some p' \<and>
           sp_messages p' = sp_messages p @ [m]"
proof -
  let ?d = "MessageEntry m False"
  obtain p p' sm' where *: "appendData w ?d sm = (Inr (e_id (newEntry w ?d sm)), sm')" "smInv sm'"
    "sm_buildSessionProjection sm = Some p" "sm_buildSessionProjection sm' = Some p'"
    "sp_messages p' = sp_messages p @ sessionEntryToContextMessages (newEntry w ?d sm)"
    by (rule appendData_projection [OF assms, of ?d]) (simp_all add: plainData_def dataTarget_def)
  moreover have "leafId sm' = Some (e_id (newEntry w ?d sm))"
    using appendMessage_run [OF assms, of m] *(1) by (auto simp: appendMessage_def appended_def)
  ultimately show ?thesis by (auto simp: appendMessage_def sessionEntryToContextMessages_def)
qed

theorem appendMessage_extends_context_witness:
  "\<exists>p p' sm' i. appendMessage (sampleWorld ''bbbbbbbb-0'') (sampleAssistant ''ho'') sample1 = (Inr i, sm') \<and> smInv sm' \<and>
     leafId sm' = Some i \<and> sm_buildSessionProjection sample1 = Some p \<and> sm_buildSessionProjection sm' = Some p' \<and>
     sp_messages p' = sp_messages p @ [sampleAssistant ''ho'']"
  by (rule appendMessage_extends_context [OF sample1_run(2) sample1_fresh])

section \<open>Context edits\<close>

lemma edit_branch:
  assumes inv: "smInv sm" and fresh: "freshWorld w sm" and "plainData d" and "t \<in> ids (getEntries sm)"
    and d: "d = ContextEditCancelEntry t \<or> d = ContextEditEntry t r c" and eq: "appendData w d sm = (Inr i, sm')"
  obtains path where "smInv sm'" "getBranch None sm = Some path" "getBranch None sm' = Some (path @ [newEntry w d sm])"
    "getEntries sm' = getEntries sm @ [newEntry w d sm]"
    "legacyPruneChanges sm' = legacyPruneChanges sm"
    "sm_buildSessionProjection sm = Some (projectPath (legacyPruneChanges sm) path)"
    "sm_buildSessionProjection sm' = Some (projectPath (legacyPruneChanges sm) (path @ [newEntry w d sm]))"
    "sp_entries (projectPath (legacyPruneChanges sm) (path @ [newEntry w d sm])) =
       projectEntries (changesOf (legacyPruneChanges sm) (path @ [newEntry w d sm])) (compactPath path)
       @ [\<lparr>pe_source = newEntry w d sm, pe_messages = []\<rparr>]"
    "sameExcept t (sp_entries (projectPath (legacyPruneChanges sm) path))
       (projectEntries (changesOf (legacyPruneChanges sm) (path @ [newEntry w d sm])) (compactPath path))"
    "map_of (changesOf (legacyPruneChanges sm) path) (e_id (newEntry w d sm)) = None" "e_id (newEntry w d sm) \<noteq> t"
proof -
  let ?e = "newEntry w d sm"
  have "set_option (dataTarget d) \<subseteq> ids (getEntries sm)" using d assms(4) by (auto simp: dataTarget_def)
  from appendData_branch [OF inv fresh assms(3) this]
  obtain path sm1 where b: "appendData w d sm = (Inr (e_id ?e), sm1)" "smInv sm1" "getEntries sm1 = getEntries sm @ [?e]"
    "getBranch None sm = Some path" "getBranch None sm1 = Some (path @ [?e])"
    "sm_buildSessionProjection sm = Some (projectPath (legacyPruneChanges sm) path)"
    "sm_buildSessionProjection sm1 = Some (projectPath (legacyPruneChanges sm) (path @ [?e]))"
    "map_of (changesOf (legacyPruneChanges sm) path) (e_id ?e) = None" "legacyPruneChanges sm1 = legacyPruneChanges sm"
    "e_id ?e \<notin> ids (getEntries sm)" .
  have "sm1 = sm'" using b(1) eq by simp
  have ne: "e_id ?e \<noteq> t" using b(10) assms(4) by metis
  obtain v where "editEffect ?e = Some (t, v)" using d by (auto simp: editEffect_def)
  from projectPath_snoc_edit [OF this b(8) ne] show thesis
    using that [of path] b ne \<open>sm1 = sm'\<close> by blast
qed

lemma appendContextEdit_data:
  assumes inv: "smInv sm" and "appendContextEdit w t rep cur sm = Some (Inr i, sm')"
  obtains rep' where "appendData w (ContextEditEntry t rep' cur) sm = (Inr i, sm')" "t \<in> ids (getEntries sm)"
    "rep = None \<Longrightarrow> rep' = None"
proof -
  obtain r where r: "validateContextEdit t rep cur sm = Some (Inr r)" and a: "appendData w (ContextEditEntry t r cur) sm = (Inr i, sm')"
  proof -
    obtain v where v: "validateContextEdit t rep cur sm = Some v" using assms(2) by (auto simp: appendContextEdit_def)
    then show ?thesis using that assms(2) by (cases v) (auto simp: appendContextEdit_def)
  qed
  obtain e where e: "getContextEditTarget t sm = Some (Inr e)" "normalizeReplacement t rep cur e = Inr r"
    using r by (auto simp: validateContextEdit_def)
  have "rep = None \<Longrightarrow> r = None" using e(2) by (auto simp: normalizeReplacement_def split: if_splits)
  then show thesis using that [of r] a editTarget_known [OF inv e(1)] by blast
qed

lemma sameExcept_silent:
  assumes "sameExcept t pes pes'" and "\<And>pe. pe \<in> set pes' \<Longrightarrow> e_id (pe_source pe) = t \<Longrightarrow> pe_messages pe = []"
  shows "concat (map pe_messages pes') = concat (map pe_messages (filter (\<lambda>pe. e_id (pe_source pe) \<noteq> t) pes))"
  using assms unfolding sameExcept_def
proof (induction pes pes' rule: list_all2_induct)
  case (Cons pe pes pe' pes')
  then have "concat (map pe_messages pes') = concat (map pe_messages (filter (\<lambda>pe. e_id (pe_source pe) \<noteq> t) pes))" by simp
  then show ?case using Cons.hyps(1) Cons.prems [of pe'] by (cases "e_id (pe_source pe) = t") simp_all
qed simp

lemma projectEntries_member:
  "pe \<in> set (projectEntries c es) \<Longrightarrow> pe_messages pe = [] \<or> pe = projectOne c (pe_source pe)"
  by (cases es) (auto simp: projectOne_def)

lemma exclusion_effect:
  assumes "smInv sm" and "freshWorld w sm" and "appendContextEdit w t None cur sm = Some (Inr i, sm')"
  shows "\<exists>p p'. sm_buildSessionProjection sm = Some p \<and> sm_buildSessionProjection sm' = Some p' \<and>
           sp_messages p' = concat (map pe_messages (filter (\<lambda>pe. e_id (pe_source pe) \<noteq> t) (sp_entries p)))"
proof -
  let ?d = "ContextEditEntry t None cur" and ?l = "legacyPruneChanges sm"
  obtain rep' where rep': "appendData w (ContextEditEntry t rep' cur) sm = (Inr i, sm')" "t \<in> ids (getEntries sm)" "rep' = None"
    using appendContextEdit_data [OF assms(1,3)] by blast
  then have a: "appendData w ?d sm = (Inr i, sm')" by simp
  let ?e = "newEntry w ?d sm"
  obtain path where path: "sm_buildSessionProjection sm = Some (projectPath ?l path)"
    "sm_buildSessionProjection sm' = Some (projectPath ?l (path @ [?e]))"
    "sp_entries (projectPath ?l (path @ [?e])) = projectEntries (changesOf ?l (path @ [?e])) (compactPath path) @ [\<lparr>pe_source = ?e, pe_messages = []\<rparr>]"
    "sameExcept t (sp_entries (projectPath ?l path)) (projectEntries (changesOf ?l (path @ [?e])) (compactPath path))"
    by (rule edit_branch [OF assms(1,2) _ rep'(2) _ a]) (simp_all add: plainData_def)
  have m: "map_of (changesOf ?l (path @ [?e])) t = Some ?e" by (simp add: applyContextEdit_def)
  have "pe_messages pe = []"
    if "pe \<in> set (projectEntries (changesOf ?l (path @ [?e])) (compactPath path))" "e_id (pe_source pe) = t" for pe
    using projectEntries_member [OF that(1)]
  proof
    assume "pe = projectOne (changesOf ?l (path @ [?e])) (pe_source pe)"
    then have "pe_messages pe = projectContextEntry (pe_source pe) (map_of (changesOf ?l (path @ [?e])) t)"
      using that(2) by (metis projectOne_def projected_entry.select_convs(2))
    then show ?thesis unfolding m by (simp add: projectContextEntry_def Let_def)
  qed
  from sameExcept_silent [OF path(4) this] show ?thesis using path(1-3) by (simp add: projectPath_messages)
qed

text \<open>
  C21 (exclusion): excluding an entry from the context removes exactly what that entry contributed;
  what every other entry contributes, and the order, stay the same.
\<close>

theorem exclusion_removes_target_only:
  assumes "smInv sm" and "freshWorld w sm" and "appendContextEdit w t None cur sm = Some (Inr i, sm')"
  shows "\<exists>p p'. sm_buildSessionProjection sm = Some p \<and> sm_buildSessionProjection sm' = Some p' \<and>
           sp_messages p' = concat (map pe_messages (filter (\<lambda>pe. e_id (pe_source pe) \<noteq> t) (sp_entries p)))"
  using assms by (rule exclusion_effect)

lemma sample_target:
  assumes "smInv sm" and "getBranch None sm = Some path" and "e \<in> set path" and "set path \<subseteq> set (getEntries sm)"
    and "sessionEntryToContextMessages e \<noteq> []"
  shows "getContextEditTarget (e_id e) sm = Some (Inr e)"
proof -
  have c: "coreInv sm" using assms(1) by (simp add: smInv_def)
  have "map_of (byId sm) (e_id e) = Some e"
    using c indexOf_lookup [OF wfEntries_distinct [OF coreInv_wf [OF c]]] assms(3,4) by (auto simp: coreInv_def)
  then show ?thesis
    using assms(2,3,5) by (auto simp: getContextEditTarget_def contextEditTargetOn_def hasId_def)
qed

lemma sampleNext_branch: "getBranch None (sampleNext m) = Some (getEntries (sampleNext m))"
proof -
  have c: "coreInv (sampleNext m)" using sampleNext_run(2) by (simp add: smInv_def)
  have "getBranch None (sampleNext m) = pathTo (Some (e_id (last (getEntries (sampleNext m))))) (sampleNext m)"
    by (simp add: getBranch_pathTo sampleNext_run(3,4) sampleEntry_def)
  also have "\<dots> = walkParents (indexOf (getEntries (sampleNext m))) (last (getEntries (sampleNext m))) []"
    by (rule pathTo_Some [OF c]) (simp add: sampleNext_run(4))
  also have "\<dots> = Some (getEntries (sampleNext m))"
    by (simp add: walkParents_iff rootChain_def sampleNext_run(4) sampleEntry_def parentOf_def)
  finally show ?thesis .
qed

lemmas sample2_branch = sampleNext_branch [of "sampleAssistant ''ho''", folded sample2_def]

lemma sampleNext_fresh: "freshWorld (sampleWorld ''cccccccc-0'') (sampleNext m)"
  using sampleNext_run(2) by (intro freshWorld_sample) (simp_all add: smInv_def sampleNext_run(4) sampleEntry_def)

lemmas sample2_fresh = sampleNext_fresh [of "sampleAssistant ''ho''", folded sample2_def]

lemma sample2_target:
  "getContextEditTarget ''aaaaaaaa'' sample2 = Some (Inr (sampleEntry ''aaaaaaaa'' None (sampleUser ''hi'')))"
  using sample_target [OF sample2_run(2) sample2_branch, of "sampleEntry ''aaaaaaaa'' None (sampleUser ''hi'')"]
  by (simp add: sample2_run(4) sampleEntry_def sessionEntryToContextMessages_def)

lemma sample_exclude:
  obtains i sm' where "appendContextEdit (sampleWorld ''cccccccc-0'') ''aaaaaaaa'' None False sample2 = Some (Inr i, sm')"
    "appendData (sampleWorld ''cccccccc-0'') (ContextEditEntry ''aaaaaaaa'' None False) sample2 = (Inr i, sm')"
    "smInv sm'" "getEntries sm' = getEntries sample2 @ [newEntry (sampleWorld ''cccccccc-0'') (ContextEditEntry ''aaaaaaaa'' None False) sample2]"
    "getBranch None sm' = Some (getEntries sm')"
proof -
  let ?d = "ContextEditEntry ''aaaaaaaa'' None False" and ?w = "sampleWorld ''cccccccc-0''"
  have "set_option (dataTarget ?d) \<subseteq> ids (getEntries sample2)"
    by (simp add: dataTarget_def sample2_run(4) sampleEntry_def)
  moreover have "plainData ?d" by (simp add: plainData_def)
  ultimately obtain path sm' where b: "appendData ?w ?d sample2 = (Inr (e_id (newEntry ?w ?d sample2)), sm')" "smInv sm'"
    "getEntries sm' = getEntries sample2 @ [newEntry ?w ?d sample2]" "getBranch None sample2 = Some path"
    "getBranch None sm' = Some (path @ [newEntry ?w ?d sample2])"
    using appendData_branch [OF sample2_run(2) sample2_fresh] by metis
  moreover have "appendContextEdit ?w ''aaaaaaaa'' None False sample2 = Some (appendData ?w ?d sample2)"
    by (simp add: appendContextEdit_def validateContextEdit_def sample2_target normalizeReplacement_def)
  ultimately show thesis using that sample2_branch by simp
qed

theorem exclusion_removes_target_only_witness:
  "\<exists>i sm' p p'. appendContextEdit (sampleWorld ''cccccccc-0'') ''aaaaaaaa'' None False sample2 = Some (Inr i, sm') \<and>
     sm_buildSessionProjection sample2 = Some p \<and> sm_buildSessionProjection sm' = Some p' \<and>
     sp_messages p' = concat (map pe_messages (filter (\<lambda>pe. e_id (pe_source pe) \<noteq> ''aaaaaaaa'') (sp_entries p)))"
proof -
  obtain i sm' where "appendContextEdit (sampleWorld ''cccccccc-0'') ''aaaaaaaa'' None False sample2 = Some (Inr i, sm')"
    by (rule sample_exclude)
  with exclusion_removes_target_only [OF sample2_run(2) sample2_fresh this] show ?thesis by blast
qed

text \<open>
  C26 (edits are reversible): when an entry has no active change, editing it (excluding or replacing
  its content) and cancelling the edit afterwards gives back the model context exactly.
\<close>

theorem edit_cancel_roundtrip:
  assumes "smInv sm" and "freshWorld w sm" and edit: "appendContextEdit w t rep cur sm = Some (Inr i, sm1)"
    and "freshWorld w' sm1" and cancel: "appendContextEditCancel w' t sm1 = Some (Inr j, sm2)"
    and "getContextChanges sm = Some (ch, sm0)" and "map_of ch t = None"
  shows "\<exists>p p2. sm_buildSessionProjection sm = Some p \<and> sm_buildSessionProjection sm2 = Some p2 \<and>
           sp_messages p2 = sp_messages p \<and> sp_thinkingLevel p2 = sp_thinkingLevel p \<and> sp_model p2 = sp_model p"
proof -
  let ?l = "legacyPruneChanges sm"
  from appendContextEdit_data [OF assms(1) edit]
  obtain rep' where a1: "appendData w (ContextEditEntry t rep' cur) sm = (Inr i, sm1)" and t: "t \<in> ids (getEntries sm)" .
  let ?e1 = "newEntry w (ContextEditEntry t rep' cur) sm" and ?e2 = "newEntry w' (ContextEditCancelEntry t) sm1"
  have pd: "plainData (ContextEditEntry t rep' cur)" "plainData (ContextEditCancelEntry t)" by (simp_all add: plainData_def)
  from edit_branch [OF assms(1,2) pd(1) t disjI2 [OF refl] a1]
  obtain path where b1: "smInv sm1" "getBranch None sm = Some path" "getBranch None sm1 = Some (path @ [?e1])"
    "getEntries sm1 = getEntries sm @ [?e1]" "legacyPruneChanges sm1 = ?l" "sm_buildSessionProjection sm = Some (projectPath ?l path)"
    "map_of (changesOf ?l path) (e_id ?e1) = None" .
  have t1: "t \<in> ids (getEntries sm1)" using t unfolding b1(4) by simp
  have a2: "appendData w' (ContextEditCancelEntry t) sm1 = (Inr j, sm2)"
    using cancel by (auto simp: appendContextEditCancel_def split: sum.splits) (metis sumE)
  from edit_branch [OF b1(1) assms(4) pd(2) t1 disjI1 [OF refl] a2]
  obtain path1 where b: "getBranch None sm1 = Some path1"
    "sm_buildSessionProjection sm2 = Some (projectPath (legacyPruneChanges sm1) (path1 @ [?e2]))"
    "sp_entries (projectPath (legacyPruneChanges sm1) (path1 @ [?e2])) =
       projectEntries (changesOf (legacyPruneChanges sm1) (path1 @ [?e2])) (compactPath path1) @ [\<lparr>pe_source = ?e2, pe_messages = []\<rparr>]" .
  let ?q = "(path @ [?e1]) @ [?e2]"
  have p1: "path1 = path @ [?e1]" using b1(3) b(1) by simp
  note b2 = b(2,3) [unfolded b1(5) p1]
  have "map_of (changesOf ?l path) t = None"
    using getContextChanges_correct [OF assms(1)] assms(6,7) b1(2) by (metis option.inject prod.inject)
  then have m: "map_of (changesOf ?l ?q) = map_of (changesOf ?l path)"
    by (simp add: applyContextEdit_def fun_upd_idem)
  have "projectEntries (changesOf ?l ?q) (compactPath (path @ [?e1])) =
        projectEntries (changesOf ?l path) (compactPath (path @ [?e1]))"
    by (rule projectEntries_cong) (simp only: m)
  also have "\<dots> = sp_entries (projectPath ?l path) @ [\<lparr>pe_source = ?e1, pe_messages = []\<rparr>]"
    by (simp add: compactPath_snoc projectEntries_snoc isCompaction_def projectPath_entries projectOne_def b1(7)
        projectContextEntry_def sessionEntryToContextMessages_def)
  finally have "projectEntries (changesOf ?l ?q) (compactPath (path @ [?e1])) =
        sp_entries (projectPath ?l path) @ [\<lparr>pe_source = ?e1, pe_messages = []\<rparr>]" .
  then have "sp_messages (projectPath ?l ?q) = sp_messages (projectPath ?l path)"
    unfolding projectPath_messages b2(2) by simp
  moreover have "getSessionContextSettings ?q = getSessionContextSettings path"
    by (cases "fold applySetting path (''off'', None)") (simp add: getSessionContextSettings_def)
  ultimately show ?thesis using b1(6) b2(1) by (simp add: projectPath_def Let_def)
qed

theorem edit_cancel_roundtrip_witness:
  "\<exists>i sm1 j sm2 p p2.
     appendContextEdit (sampleWorld ''cccccccc-0'') ''aaaaaaaa'' None False sample2 = Some (Inr i, sm1) \<and>
     appendContextEditCancel (sampleWorld ''dddddddd-0'') ''aaaaaaaa'' sm1 = Some (Inr j, sm2) \<and>
     sm_buildSessionProjection sample2 = Some p \<and> sm_buildSessionProjection sm2 = Some p2 \<and>
     sp_messages p2 = sp_messages p \<and> sp_thinkingLevel p2 = sp_thinkingLevel p \<and> sp_model p2 = sp_model p"
proof -
  let ?w = "sampleWorld ''cccccccc-0''" and ?w' = "sampleWorld ''dddddddd-0''"
  let ?e = "newEntry ?w (ContextEditEntry ''aaaaaaaa'' None False) sample2"
  obtain i sm1 where e: "appendContextEdit ?w ''aaaaaaaa'' None False sample2 = Some (Inr i, sm1)" "smInv sm1"
    "getEntries sm1 = getEntries sample2 @ [?e]" "getBranch None sm1 = Some (getEntries sm1)" by (rule sample_exclude)
  have c: "coreInv sample2" "coreInv sm1" using sample2_run(2) e(2) by (simp_all add: smInv_def)
  have i: "e_id ?e = ''cccccccc''"
    using newEntry_sample_id [OF c(1), of "''cccccccc-0''"] by (simp add: sample2_run(4) sampleEntry_def)
  have f: "freshWorld ?w' sm1"
    by (rule freshWorld_sample [OF c(2)]) (simp_all add: e(3) sample2_run(4) sampleEntry_def i)
  have "getContextEditTarget ''aaaaaaaa'' sm1 = Some (Inr (sampleEntry ''aaaaaaaa'' None (sampleUser ''hi'')))"
    using sample_target [OF e(2,4), of "sampleEntry ''aaaaaaaa'' None (sampleUser ''hi'')"]
    by (simp add: e(3) sample2_run(4) sampleEntry_def sessionEntryToContextMessages_def)
  then have "appendContextEditCancel ?w' ''aaaaaaaa'' sm1 = Some (appendData ?w' (ContextEditCancelEntry ''aaaaaaaa'') sm1)"
    by (simp add: appendContextEditCancel_def)
  moreover have "set_option (dataTarget (ContextEditCancelEntry ''aaaaaaaa'')) \<subseteq> ids (getEntries sm1)"
    by (simp add: dataTarget_def e(3) sample2_run(4) sampleEntry_def)
  ultimately obtain j sm2 where x: "appendContextEditCancel ?w' ''aaaaaaaa'' sm1 = Some (Inr j, sm2)"
    using appendData_inv [OF e(2) f, of "ContextEditCancelEntry ''aaaaaaaa''"] by (auto simp: plainData_def)
  have l: "legacyPruneChanges sample2 = []" using c(1) by (simp add: coreInv_def sample2_run(4) sampleEntry_def recordLegacyPrune_def)
  obtain sm0 where "getContextChanges sample2 = Some (changesOf (legacyPruneChanges sample2) (getEntries sample2), sm0)"
    using getContextChanges_correct [OF sample2_run(2)] sample2_branch by (metis option.inject)
  moreover have "map_of (changesOf (legacyPruneChanges sample2) (getEntries sample2)) ''aaaaaaaa'' = None"
    by (simp add: l sample2_run(4) sampleEntry_def applyContextEdit_def)
  ultimately show ?thesis
    using edit_cancel_roundtrip [OF sample2_run(2) sample2_fresh e(1) f x] e(1) x by blast
qed

section \<open>Batches\<close>

text \<open>
  When a change of a batch is valid, and what the entry of a valid change has to say. Both are stated on
  the active branch, without the validation code.
\<close>

definition editableOn :: "session_entry list \<Rightarrow> string \<Rightarrow> bool" where
  "editableOn path t \<longleftrightarrow> list_ex (\<lambda>e. e_id e = t \<and> sessionEntryToContextMessages e \<noteq> []) path"

definition carriesOut :: "context_change \<Rightarrow> entry_data \<Rightarrow> bool" where
  "carriesOut ch d \<longleftrightarrow>
     (case cc_state ch of
        Included \<Rightarrow> d = ContextEditCancelEntry (cc_targetId ch)
      | Excluded \<Rightarrow> d = ContextEditEntry (cc_targetId ch) None False
      | Summarized \<Rightarrow>
          (\<exists>r. d = ContextEditEntry (cc_targetId ch) r True \<and>
               map_option contentText r =
                 (case cc_summary ch of
                    None \<Rightarrow> None
                  | Some s \<Rightarrow> if s = [] then None else Some (CONTEXT_BLOCK_SUMMARY_PREFIX @ s))))"

lemma contextEditTargetOn_iff:
  assumes c: "coreInv sm" and path: "subseq path (getEntries sm)"
  shows "(\<exists>e. contextEditTargetOn t (map e_id path) sm = Inr e) \<longleftrightarrow> editableOn path t"
proof -
  have sub: "set path \<subseteq> set (getEntries sm)" by (rule subseq_set [OF path])
  have found: "map_of (byId sm) (e_id e) = Some e" if "e \<in> set path" for e
    using c that sub indexOf_lookup [OF wfEntries_distinct [OF coreInv_wf [OF c]]] by (auto simp: coreInv_def)
  show ?thesis
  proof
    assume "\<exists>e. contextEditTargetOn t (map e_id path) sm = Inr e"
    then obtain e where e: "contextEditTargetOn t (map e_id path) sm = Inr e" ..
    then obtain e' where e': "e' \<in> set path" "e_id e' = t" using contextEditTargetOn_known [OF c e] by auto
    have "e' = e" using found [OF e'(1)] e e'(2) by (auto simp: contextEditTargetOn_def split: if_splits)
    then show "editableOn path t" using contextEditTargetOn_known [OF c e] e' by (auto simp: editableOn_def list_ex_iff)
  next
    assume "editableOn path t"
    then obtain e where "e \<in> set path" "e_id e = t" "sessionEntryToContextMessages e \<noteq> []"
      by (auto simp: editableOn_def list_ex_iff)
    then show "\<exists>e. contextEditTargetOn t (map e_id path) sm = Inr e"
      using found [of e] by (auto simp: contextEditTargetOn_def)
  qed
qed

lemma validateChange_iff:
  assumes "coreInv sm" and "subseq path (getEntries sm)"
  shows "(\<exists>d. validateChange (map e_id path) sm ch = Inr d) \<longleftrightarrow> editableOn path (cc_targetId ch)"
proof -
  have "(\<exists>d. validateChange (map e_id path) sm ch = Inr d) \<longleftrightarrow> (\<exists>e. contextEditTargetOn (cc_targetId ch) (map e_id path) sm = Inr e)"
    by (cases "contextEditTargetOn (cc_targetId ch) (map e_id path) sm")
      (auto simp: validateChange_def normalizeReplacement_def Let_def split: option.splits)
  then show ?thesis using contextEditTargetOn_iff [OF assms] by simp
qed

lemma validateChange_carriesOut: "validateChange b sm ch = Inr d \<Longrightarrow> carriesOut ch d"
  by (cases "contextEditTargetOn (cc_targetId ch) b sm"; cases "cc_state ch")
    (auto simp: validateChange_def normalizeReplacement_def carriesOut_def Let_def List.map_filter_def
      split: option.splits if_splits)

lemma js_map_Inl: "js_map f xs = Inl err \<Longrightarrow> \<exists>x \<in> set xs. f x = Inl err"
  by (induction xs) (auto simp: js_bind_Inl_iff)

text \<open>
  C27 (atomic batches): a curation batch is validated as a whole. It throws exactly when some change
  names an entry that is not on the active branch or contributes nothing to the model, and then the
  manager is unchanged. Otherwise one entry per change is appended, in order, that says what the change
  asks for (the end of an edit, an exclusion, a marked summary), and the active branch is extended by
  exactly these entries.
\<close>

theorem appendContextChanges_atomic:
  assumes "smInv sm" and "freshBatch w chs sm"
  shows "\<exists>path r sm'. getBranch None sm = Some path \<and> appendContextChanges w chs sm = Some (r, sm') \<and>
           (case r of
              Inl err \<Rightarrow> sm' = sm \<and> \<not> list_all (\<lambda>ch. editableOn path (cc_targetId ch)) chs
            | Inr newIds \<Rightarrow>
                list_all (\<lambda>ch. editableOn path (cc_targetId ch)) chs \<and>
                (\<exists>new. getEntries sm' = getEntries sm @ new \<and> map e_id new = newIds \<and>
                   list_all2 (\<lambda>ch e. carriesOut ch (e_data e)) chs new \<and> getBranch None sm' = Some (path @ new)))"
proof -
  have c: "coreInv sm" using assms(1) by (simp add: smInv_def)
  obtain path where path: "getBranch None sm = Some path" "subseq path (getEntries sm)" using getBranch_total [OF c] by metis
  note valid = validateChange_iff [OF c path(2)]
  show ?thesis
  proof (cases "js_map (validateChange (map e_id path) sm) chs")
    case (Inl err)
    then obtain ch where ch: "ch \<in> set chs" "validateChange (map e_id path) sm ch = Inl err" using js_map_Inl [OF Inl] by blast
    have "\<not> editableOn path (cc_targetId ch)" using ch(2) valid [of ch] by auto
    then have "\<not> list_all (\<lambda>ch. editableOn path (cc_targetId ch)) chs" using ch(1) by (auto simp: list_all_iff)
    moreover have "chs \<noteq> []" using ch(1) by auto
    ultimately show ?thesis using Inl path by (simp add: appendContextChanges_def)
  next
    case (Inr ds)
    then have f: "freshRun w 0 ds sm" using assms(2) path by (simp add: freshBatch_def)
    from appendValidated_run [OF assms(1) validated_plain [OF c Inr] f] obtain new :: "session_entry list" and sm'
      where run: "appendValidated w 0 ds sm = (Inr (map e_id new), sm')" "getEntries sm' = getEntries sm @ new"
        "map e_data new = ds" "getBranch None sm' = map_option (\<lambda>p. p @ new) (getBranch None sm)" by blast
    have one: "list_all2 (\<lambda>ch d. validateChange (map e_id path) sm ch = Inr d) chs ds" using Inr by (simp add: js_map_Inr_iff)
    have "list_all2 (\<lambda>ch d. editableOn path (cc_targetId ch)) chs ds"
      using one by (rule list_all2_mono) (use valid in blast)
    then have all: "list_all (\<lambda>ch. editableOn path (cc_targetId ch)) chs" by (simp add: list_all_length list_all2_conv_all_nth)
    have "list_all2 carriesOut chs ds" using one by (rule list_all2_mono) (rule validateChange_carriesOut)
    then have "list_all2 (\<lambda>ch e. carriesOut ch (e_data e)) chs new" unfolding run(3) [symmetric] by (simp add: list_all2_map2)
    moreover have "appendContextChanges w chs sm = Some (Inr (map e_id new), sm')"
    proof (cases "chs = []")
      case True
      then have "new = []" using Inr run(3) by simp
      then show ?thesis using True run Inr by (simp add: appendContextChanges_def)
    qed (simp add: appendContextChanges_def path Inr run(1))
    ultimately show ?thesis using all path run(2,4)
      by (intro exI [of _ path] exI [of _ "Inr (map e_id new)"] exI [of _ sm']) simp
  qed
qed

definition sampleChange :: "string \<Rightarrow> context_change" where
  "sampleChange i = \<lparr>cc_targetId = i, cc_state = Excluded, cc_summary = None\<rparr>"

lemma sampleBatch_valid:
  "js_map (validateChange (map e_id (getEntries sample2)) sample2) [sampleChange ''aaaaaaaa''] = Inr [ContextEditEntry ''aaaaaaaa'' None False]"
proof -
  have "contextEditTargetOn ''aaaaaaaa'' (map e_id (getEntries sample2)) sample2 =
        Inr (sampleEntry ''aaaaaaaa'' None (sampleUser ''hi''))"
    using sample2_target sample2_branch by (auto simp: getContextEditTarget_def split: if_splits)
  then show ?thesis by (simp add: sampleChange_def validateChange_def normalizeReplacement_def)
qed

lemma sampleBatch_editable:
  "editableOn (getEntries sample2) ''aaaaaaaa''" "\<not> editableOn (getEntries sample2) ''zzzzzzzz''"
  by (simp_all add: editableOn_def sample2_run(4) sampleEntry_def sessionEntryToContextMessages_def)

text \<open>The valid batch of one change appends its exclusion; with an unknown entry added it throws and nothing is appended.\<close>

theorem appendContextChanges_atomic_witness:
  "(\<exists>i sm' e. appendContextChanges (\<lambda>_. sampleWorld ''cccccccc-0'') [sampleChange ''aaaaaaaa''] sample2 = Some (Inr [i], sm') \<and>
      getEntries sm' = getEntries sample2 @ [e] \<and> e_data e = ContextEditEntry ''aaaaaaaa'' None False) \<and>
   (\<exists>err. appendContextChanges (\<lambda>_. sampleWorld ''cccccccc-0'') [sampleChange ''aaaaaaaa'', sampleChange ''zzzzzzzz''] sample2
      = Some (Inl err, sample2))"
proof -
  let ?w = "\<lambda>_ :: nat. sampleWorld ''cccccccc-0''"
  have f: "freshBatch ?w [sampleChange ''aaaaaaaa''] sample2"
    by (simp add: freshBatch_def sample2_branch sampleBatch_valid sample2_fresh del: js_map.simps)
  obtain err where e: "validateChange (map e_id (getEntries sample2)) sample2 (sampleChange ''zzzzzzzz'') = Inl err"
    using validateChange_iff [of sample2 "getEntries sample2" "sampleChange ''zzzzzzzz''"] sampleBatch_editable(2) sample2_run(2)
    by (cases "validateChange (map e_id (getEntries sample2)) sample2 (sampleChange ''zzzzzzzz'')")
      (auto simp: smInv_def sampleChange_def)
  have f2: "freshBatch ?w [sampleChange ''aaaaaaaa'', sampleChange ''zzzzzzzz''] sample2"
    using sampleBatch_valid e by (auto simp: freshBatch_def sample2_branch split: sum.splits)
  show ?thesis
  proof
    show "\<exists>i sm' e. appendContextChanges ?w [sampleChange ''aaaaaaaa''] sample2 = Some (Inr [i], sm') \<and>
      getEntries sm' = getEntries sample2 @ [e] \<and> e_data e = ContextEditEntry ''aaaaaaaa'' None False"
      using appendContextChanges_atomic [OF sample2_run(2) f] sample2_branch sampleBatch_editable
      by (fastforce simp: sampleChange_def carriesOut_def list_all2_Cons1 split: sum.splits)
    show "\<exists>err. appendContextChanges ?w [sampleChange ''aaaaaaaa'', sampleChange ''zzzzzzzz''] sample2 = Some (Inl err, sample2)"
    proof -
      from appendContextChanges_atomic [OF sample2_run(2) f2] show ?thesis
      proof (elim exE conjE)
        fix path r sm'
        assume b: "getBranch None sample2 = Some path"
          and c: "appendContextChanges ?w [sampleChange ''aaaaaaaa'', sampleChange ''zzzzzzzz''] sample2 = Some (r, sm')"
        note * = b c sample2_branch sampleBatch_editable(2)
        show ?thesis if "case r of Inl err \<Rightarrow> sm' = sample2 \<and> P | Inr newIds \<Rightarrow> list_all (\<lambda>ch. editableOn path (cc_targetId ch))
            [sampleChange ''aaaaaaaa'', sampleChange ''zzzzzzzz''] \<and> Q newIds" for P Q
          using that * by (cases r) (simp_all add: sampleChange_def)
      qed
    qed
  qed
qed

section \<open>The cache\<close>

text \<open>
  A prune state or summary read through the cache is the one resolved from
  the log and the active branch at that moment, and reading changes nothing but the cache.
\<close>

theorem cached_changes_correct:
  assumes "smInv sm"
  shows "\<exists>path sm'. getBranch None sm = Some path \<and>
           getPruneState i sm = Some (contextChangeState (map_of (resolveContextChanges (getEntries sm) path (Some (legacyPruneChanges sm))) i), sm') \<and>
           getPruneSummary i sm = Some (pruneSummaryOf (map_of (resolveContextChanges (getEntries sm) path (Some (legacyPruneChanges sm))) i), sm') \<and>
           smInv sm' \<and> sm' = sm\<lparr>contextChangesCache := contextChangesCache sm'\<rparr>"
proof -
  obtain path sm' where "getBranch None sm = Some path"
    "getContextChanges sm = Some (changesOf (legacyPruneChanges sm) path, sm')" "smInv sm'"
    "sm' = sm\<lparr>contextChangesCache := contextChangesCache sm'\<rparr>"
    by (rule getContextChanges_correct [OF assms])
  then show ?thesis
    by (intro exI [of _ path] exI [of _ sm'])
       (simp add: getPruneState_def getPruneSummary_def resolveContextChanges_def)
qed

theorem cached_changes_correct_witness:
  "\<exists>path sm'. getBranch None sample2 = Some path \<and>
     getPruneState ''aaaaaaaa'' sample2 = Some (contextChangeState (map_of (resolveContextChanges (getEntries sample2) path (Some (legacyPruneChanges sample2))) ''aaaaaaaa''), sm') \<and>
     getPruneSummary ''aaaaaaaa'' sample2 = Some (pruneSummaryOf (map_of (resolveContextChanges (getEntries sample2) path (Some (legacyPruneChanges sample2))) ''aaaaaaaa''), sm') \<and>
     smInv sm' \<and> sm' = sample2\<lparr>contextChangesCache := contextChangesCache sm'\<rparr>"
  by (rule cached_changes_correct [OF sample2_run(2)])

section \<open>The file on disk\<close>

lemma indexFold:
  "fold indexFileEntry (map Entry es) sm =
     sm\<lparr>byId := fold indexEntry es (byId sm),
        labelsById := fold applyLabel es (labelsById sm),
        labelTimestampsById := fold applyLabelTimestamp es (labelTimestampsById sm),
        legacyPruneChanges := fold recordLegacyPrune es (legacyPruneChanges sm),
        leafId := (if es = [] then leafId sm else Some (e_id (last es)))\<rparr>"
  by (induction es arbitrary: sm) (simp_all add: indexEntry_def)

lemma buildIndex_inv:
  assumes f: "fileEntries sm = Header h # map Entry es" and wf: "wfEntries es" and "diskOk sm" and "targetsOk es"
  shows "smInv (buildIndex sm)" "getEntries (buildIndex sm) = es"
    "leafId (buildIndex sm) = (if es = [] then None else Some (e_id (last es)))"
proof -
  let ?sm' = "buildIndex sm"
  have eq: "?sm' = sm\<lparr>byId := indexOf es, labelsById := fold applyLabel es [], labelTimestampsById := fold applyLabelTimestamp es [],
      legacyPruneChanges := fold recordLegacyPrune es [], contextChangesCache := None,
      leafId := (if es = [] then None else Some (e_id (last es)))\<rparr>"
    by (simp add: buildIndex_def f indexFold)
  show ents: "getEntries ?sm' = es" by (simp add: getEntries_def eq f)
  have "diskOk ?sm'" using diskOk_cong [of ?sm' sm] assms(3) by (simp add: eq)
  moreover have "leafOk ?sm'" unfolding leafOk_def ents by (simp add: eq)
  moreover have "cacheOk ?sm'" by (simp add: cacheOk_def eq)
  ultimately have "coreInv ?sm'" using wf unfolding coreInv_def ents by (simp add: eq f)
  then show "smInv ?sm'" using assms(4) unfolding smInv_def labelsOk_def ents by (simp add: eq)
  show "leafId ?sm' = (if es = [] then None else Some (e_id (last es)))" by (simp add: eq)
qed

lemma buildIndex_flushed:
  "fileEntries sm = Header h # map Entry es \<Longrightarrow> (buildIndex sm)\<lparr>flushed := b\<rparr> = buildIndex (sm\<lparr>flushed := b\<rparr>)"
  by (simp add: buildIndex_def indexFold)

text \<open>
  C22 (durability and reload): in every reachable state of a persisted session that has an assistant
  message, the file holds the log. Opening that file again gives a manager in a valid state with the
  same entries, labels and legacy records and the same context at every leaf; its leaf is the last entry.
\<close>

theorem reload_roundtrip:
  assumes "smInv sm0" and "storeStep\<^sup>*\<^sup>* sm0 sm" and "fileOf sm = Some f" and "hasAssistant sm"
    and "3 \<le> sessionVersion (fileEntries sm)"
  shows "sm_disk sm f = Some (fileEntries sm) \<and>
         (\<exists>sm'. constructManager cwd dir (Some f) True None None size0 uuids w (sm_disk sm) = (Inr (), sm') \<and> smInv sm' \<and>
            getEntries sm' = getEntries sm \<and> labelsById sm' = labelsById sm \<and>
            legacyPruneChanges sm' = legacyPruneChanges sm \<and> contextAt l sm' = contextAt l sm \<and>
            leafId sm' = (if getEntries sm = [] then None else Some (e_id (last (getEntries sm)))))"
proof -
  have inv: "smInv sm" by (rule store.reach_inv [OF assms(2,1)])
  then have c: "coreInv sm" by (simp add: smInv_def)
  then have disk: "sm_disk sm f = Some (fileEntries sm)"
    using assms(3,4) by (auto simp: coreInv_def diskOk_def split: if_splits)
  obtain h where h: "fileEntries sm = Header h # map Entry (getEntries sm)" using c by (auto simp: coreInv_def)
  have fne: "f \<noteq> []" using assms(3) by (auto simp: fileOf_def split: option.splits if_splits)
  let ?em = "emptyManager cwd dir True (sm_disk sm)"
  let ?b = "?em\<lparr>sessionFile := Some f, fileEntries := fileEntries sm, sessionId := h_id h\<rparr>"
  have mig: "migrateToCurrentVersion uuids (fileEntries sm) = (False, fileEntries sm)"
    using assms(5) by (simp add: migrateToCurrentVersion_def CURRENT_SESSION_VERSION_def)
  have con: "constructManager cwd dir (Some f) True None None size0 uuids w (sm_disk sm) = (Inr (), (buildIndex ?b)\<lparr>flushed := True\<rparr>)"
    using fne disk mig
    by (simp add: constructManager_def setSessionFile_def loadEntries_def Let_def validSessionEntries_def h
        findHeader_def emptyManager_def)
  let ?sm' = "buildIndex (?b\<lparr>flushed := True\<rparr>)"
  have "(buildIndex ?b)\<lparr>flushed := True\<rparr> = ?sm'" by (rule buildIndex_flushed) (simp add: h)
  with con have con': "constructManager cwd dir (Some f) True None None size0 uuids w (sm_disk sm) = (Inr (), ?sm')" by simp
  have "diskOk (?b\<lparr>flushed := True\<rparr>)" using disk fne by (simp add: diskOk_def fileOf_def emptyManager_def)
  then have r: "smInv ?sm'" "getEntries ?sm' = getEntries sm"
    "leafId ?sm' = (if getEntries sm = [] then None else Some (e_id (last (getEntries sm))))"
    using buildIndex_inv [of "?b\<lparr>flushed := True\<rparr>" h "getEntries sm"] h inv coreInv_wf [OF c] by (simp_all add: smInv_def)
  have same: "labelsById ?sm' = labelsById sm" "legacyPruneChanges ?sm' = legacyPruneChanges sm" "byId ?sm' = byId sm"
    using r(1,2) inv by (simp_all add: smInv_def labelsOk_def coreInv_def)
  then have "contextAt l ?sm' = contextAt l sm" using pathTo_cong [of ?sm' sm l] by (simp add: contextAt_def)
  with disk con' r same show ?thesis by blast
qed

theorem reload_roundtrip_witness:
  "sm_disk sample2 ''/s/f.jsonl'' = Some (fileEntries sample2) \<and>
   (\<exists>sm'. constructManager ''/w'' ''/s'' (Some ''/s/f.jsonl'') True None None False (\<lambda>_ _. []) (sampleWorld ''x'') (sm_disk sample2) = (Inr (), sm') \<and>
      smInv sm' \<and> getEntries sm' = getEntries sample2 \<and> labelsById sm' = labelsById sample2 \<and>
      legacyPruneChanges sm' = legacyPruneChanges sample2 \<and> contextAt (Some ''aaaaaaaa'') sm' = contextAt (Some ''aaaaaaaa'') sample2 \<and>
      leafId sm' = (if getEntries sample2 = [] then None else Some (e_id (last (getEntries sample2)))))"
proof (rule reload_roundtrip [OF sample0_inv sample_steps(3)])
  have p: "plainStep sample0 sample2"
    by (rule plainStep_trans [OF storeStep_plain [OF sample_steps(1) sample0_inv] storeStep_plain [OF sample_steps(2) sample1_run(2)]])
  then have "fileOf sample2 = fileOf sample0" and gh: "getHeader sample2 = getHeader sample0" by (simp_all add: plainStep_def)
  then show "fileOf sample2 = Some ''/s/f.jsonl''"
    by (simp add: sample0_def newSession_def Let_def emptyManager_def sampleWorld_def fileOf_def)
  obtain h where h: "fileEntries sample2 = Header h # map Entry (getEntries sample2)"
    using sample2_run(2) by (auto simp: smInv_def coreInv_def)
  then show "hasAssistant sample2"
    by (simp add: hasAssistant_def sample2_run(4) isAssistantEntry_def sampleEntry_def sampleAssistant_def)
  show "3 \<le> sessionVersion (fileEntries sample2)"
    using gh by (simp add: sessionVersion_def getHeader_def sample0_def newSession_def Let_def emptyManager_def
        findHeader_def CURRENT_SESSION_VERSION_def)
qed

end
