(* ===== verification/Token_Estimate.thy ===== *)
theory Token_Estimate
  imports Session_Projection
begin

text \<open>
  Token estimates: the size part of \<open>packages/coding-agent/src/core/compaction/compaction.ts\<close>
  and \<open>packages/ai/src/utils/estimate.ts\<close>. Both files define functions of the same names; those of the
  second one carry the suffix \<open>_ai\<close>. An index that JavaScript reports as \<open>-1\<close> when
  nothing is found is an option here, and \<open>jsIndex\<close> where the code compares it as a number.
\<close>

section \<open>Usage reported by the provider\<close>

definition calculateContextTokens :: "usage \<Rightarrow> nat" where
  "calculateContextTokens u =
     (if u_totalTokens u \<noteq> 0 then u_totalTokens u
      else u_input u + u_output u + u_cacheRead u + u_cacheWrite u)"

fun getAssistantUsage :: "agent_message \<Rightarrow> usage option" where
  "getAssistantUsage (Assistant m) =
     (case am_usage m of
        None \<Rightarrow> None
      | Some u \<Rightarrow>
          if am_stopReason m \<noteq> StopAborted \<and> am_stopReason m \<noteq> StopError \<and> 0 < calculateContextTokens u
          then Some u else None)"
| "getAssistantUsage _ = None"

definition entryUsage :: "session_entry \<Rightarrow> usage option" where
  "entryUsage e = (case e_data e of MessageEntry m _ \<Rightarrow> getAssistantUsage m | _ \<Rightarrow> None)"

definition getLastAssistantUsage :: "session_entry list \<Rightarrow> usage option" where
  "getLastAssistantUsage entries = Option.bind (findLast (\<lambda>e. entryUsage e \<noteq> None) entries) entryUsage"

text \<open>The backwards loop over the indices \<open>n - 1, \<dots>, 0\<close>.\<close>

fun usageInfoBelow :: "agent_message list \<Rightarrow> nat \<Rightarrow> (usage \<times> nat) option" where
  "usageInfoBelow messages 0 = None"
| "usageInfoBelow messages (Suc i) =
     (case getAssistantUsage (messages ! i) of
        Some u \<Rightarrow> Some (u, i)
      | None \<Rightarrow> usageInfoBelow messages i)"

definition getLastAssistantUsageInfo :: "agent_message list \<Rightarrow> (usage \<times> nat) option" where
  "getLastAssistantUsageInfo messages = usageInfoBelow messages (length messages)"

section \<open>Size of a message\<close>

definition ESTIMATED_IMAGE_CHARS :: nat where
  "ESTIMATED_IMAGE_CHARS = 4800"

fun blockChars :: "content_block \<Rightarrow> nat" where
  "blockChars (TextBlock t _) = length t"
| "blockChars (ImageBlock _ _) = ESTIMATED_IMAGE_CHARS"
| "blockChars _ = 0"

fun estimateTextAndImageContentChars :: "content \<Rightarrow> nat" where
  "estimateTextAndImageContentChars (ContentString s) = length s"
| "estimateTextAndImageContentChars (ContentBlocks bs) = sum_list (map blockChars bs)"

fun assistantBlockChars :: "content_block \<Rightarrow> nat" where
  "assistantBlockChars (TextBlock t _) = length t"
| "assistantBlockChars (ThinkingBlock t _ _) = length t"
| "assistantBlockChars (ToolCallBlock tc) = length (tc_name tc) + length (stringify (JObj (tc_arguments tc)))"
| "assistantBlockChars (ImageBlock _ _) = 0"

text \<open>A tool in \<open>toolsAdded\<close> is serialised with the keys of a declaration.\<close>

definition toolsJson :: "tool list \<Rightarrow> json" where
  "toolsJson ts = JArr (map declarationJson ts)"

definition systemChars :: "system_message \<Rightarrow> nat" where
  "systemChars m =
     estimateTextAndImageContentChars (sys_content m)
     + (case sys_sections m of
          None \<Rightarrow> 0
        | Some ss \<Rightarrow> sum_list (map (\<lambda>(_, v). case v of None \<Rightarrow> 0 | Some t \<Rightarrow> length t) ss))
     + (case sys_toolsAdded m of None \<Rightarrow> 0 | Some ts \<Rightarrow> length (stringify (toolsJson ts)))"

fun messageChars :: "agent_message \<Rightarrow> nat" where
  "messageChars (System m) = systemChars m"
| "messageChars (User m) = estimateTextAndImageContentChars (um_content m)"
| "messageChars (Assistant m) = sum_list (map assistantBlockChars (am_content m))"
| "messageChars (Custom m) = estimateTextAndImageContentChars (cm_content m)"
| "messageChars (ToolResult m) = estimateTextAndImageContentChars (ContentBlocks (tr_content m))"
| "messageChars (ContextStatus m) = length (cs_content m)"
| "messageChars (BashExecution m) = length (be_command m) + length (be_output m)"
| "messageChars (BranchSummary m) = length (bsm_summary m)"
| "messageChars (CompactionSummary m) = length (csm_summary m)"
| "messageChars (HookMessage _) = 0"
| "messageChars (UnknownRole _ _) = 0"

definition estimateTokens :: "agent_message \<Rightarrow> nat" where
  "estimateTokens m = ceilDiv (messageChars m) 4"

definition sumTokens :: "agent_message list \<Rightarrow> nat" where
  "sumTokens ms = sum_list (map estimateTokens ms)"

section \<open>Size of a context\<close>

record context_usage_estimate =
  cu_tokens :: nat
  cu_usageTokens :: nat
  cu_trailingTokens :: nat
  cu_lastUsageIndex :: "nat option"

definition estimateContextTokens :: "agent_message list \<Rightarrow> context_usage_estimate" where
  "estimateContextTokens messages =
     (case getLastAssistantUsageInfo messages of
        None \<Rightarrow> \<lparr>cu_tokens = sumTokens messages, cu_usageTokens = 0, cu_trailingTokens = sumTokens messages,
                 cu_lastUsageIndex = None\<rparr>
      | Some (u, i) \<Rightarrow>
          (let usageTokens = calculateContextTokens u;
               trailingTokens = sumTokens (drop (Suc i) messages)
           in \<lparr>cu_tokens = usageTokens + trailingTokens, cu_usageTokens = usageTokens,
               cu_trailingTokens = trailingTokens, cu_lastUsageIndex = Some i\<rparr>))"

definition jsIndex :: "nat option \<Rightarrow> int" where
  "jsIndex i = (case i of None \<Rightarrow> - 1 | Some n \<Rightarrow> int n)"

text \<open>The loop that finds the projected entry holding the message at \<open>i\<close>; \<open>pos\<close> is \<open>projectedMessageIndex\<close>.\<close>

fun entryAtMessage :: "projected_entry list \<Rightarrow> nat \<Rightarrow> nat \<Rightarrow> string option" where
  "entryAtMessage [] pos i = None"
| "entryAtMessage (pe # pes) pos i =
     (let nextMessageIndex = pos + length (pe_messages pe)
      in if i < nextMessageIndex then Some (e_id (pe_source pe)) else entryAtMessage pes nextMessageIndex i)"

definition invalidatesUsage :: "session_entry \<Rightarrow> bool" where
  "invalidatesUsage e =
     (case e_data e of
        ContextEditEntry _ _ _ \<Rightarrow> True
      | ContextEditCancelEntry _ \<Rightarrow> True
      | CompactionEntry _ \<Rightarrow> True
      | _ \<Rightarrow> False)"

fun lastIndexBelow :: "('a \<Rightarrow> bool) \<Rightarrow> 'a list \<Rightarrow> nat \<Rightarrow> nat option" where
  "lastIndexBelow P xs 0 = None"
| "lastIndexBelow P xs (Suc i) = (if P (xs ! i) then Some i else lastIndexBelow P xs i)"

text \<open>\<open>latestLegacyChanges\<close>: the file position of the last prune entry for each target.\<close>

fun latestLegacyChanges :: "session_entry list \<Rightarrow> nat \<Rightarrow> (string \<times> nat) list \<Rightarrow> (string \<times> nat) list" where
  "latestLegacyChanges [] i m = m"
| "latestLegacyChanges (e # es) i m =
     latestLegacyChanges es (Suc i)
       (case e_data e of PruneEntry t _ _ \<Rightarrow> AList.update t i m | _ \<Rightarrow> m)"

definition editTargets :: "session_entry list \<Rightarrow> string list" where
  "editTargets es =
     List.map_filter (\<lambda>e. case e_data e of
         ContextEditEntry t _ _ \<Rightarrow> Some t | ContextEditCancelEntry t \<Rightarrow> Some t | _ \<Rightarrow> None) es"

definition hasLaterLegacyChange ::
  "session_projection \<Rightarrow> session_entry list \<Rightarrow> session_entry list \<Rightarrow> int \<Rightarrow> bool" where
  "hasLaterLegacyChange projection branchEntries sessionEntries usageFileIndex \<longleftrightarrow>
     list_ex (\<lambda>(targetId, index).
         usageFileIndex < int index \<and>
         targetId \<in> set (map (e_id \<circ> pe_source) (sp_entries projection)) \<and>
         targetId \<notin> set (editTargets branchEntries))
       (latestLegacyChanges sessionEntries 0 [])"

text \<open>The test that lets the provider's usage stand: \<open>usageEntryId\<close> is the entry that reported it.\<close>

definition usageStillValid ::
  "session_projection \<Rightarrow> session_entry list \<Rightarrow> session_entry list \<Rightarrow> nat \<Rightarrow> bool" where
  "usageStillValid projection branchEntries sessionEntries lastUsageIndex =
     (let usageEntryId = entryAtMessage (sp_entries projection) 0 lastUsageIndex;
          usageEntryIndex = (case usageEntryId of
              Some i \<Rightarrow> if i = [] then - 1 else jsIndex (findIndex (\<lambda>e. e_id e = i) branchEntries)
            | None \<Rightarrow> - 1);
          latestInvalidatingEntryIndex =
            jsIndex (lastIndexBelow invalidatesUsage branchEntries (length branchEntries));
          usageFileIndex = jsIndex (findIndex (\<lambda>e. Some (e_id e) = usageEntryId) sessionEntries)
      in latestInvalidatingEntryIndex < usageEntryIndex \<and> 0 \<le> usageFileIndex \<and>
         \<not> hasLaterLegacyChange projection branchEntries sessionEntries usageFileIndex)"

definition freshEstimate :: "agent_message list \<Rightarrow> context_usage_estimate" where
  "freshEstimate messages =
     (let tokens = (case getCurrentSystemMessage messages of None \<Rightarrow> 0 | Some s \<Rightarrow> estimateTokens (System s))
                   + sumTokens (filter (\<lambda>m. \<not> isSystem m) messages)
      in \<lparr>cu_tokens = tokens, cu_usageTokens = 0, cu_trailingTokens = tokens, cu_lastUsageIndex = None\<rparr>)"

definition estimateProjectedContextTokens ::
  "session_projection \<Rightarrow> session_entry list \<Rightarrow> session_entry list \<Rightarrow> context_usage_estimate" where
  "estimateProjectedContextTokens projection branchEntries sessionEntries =
     (let estimate = estimateContextTokens (sp_messages projection)
      in case cu_lastUsageIndex estimate of
           Some i \<Rightarrow>
             if usageStillValid projection branchEntries sessionEntries i then estimate
             else freshEstimate (sp_messages projection)
         | None \<Rightarrow> freshEstimate (sp_messages projection))"

record compaction_settings =
  cst_enabled :: bool
  cst_reserveTokens :: int
  cst_keepRecentTokens :: nat

definition DEFAULT_COMPACTION_SETTINGS :: compaction_settings where
  "DEFAULT_COMPACTION_SETTINGS = \<lparr>cst_enabled = True, cst_reserveTokens = 16384, cst_keepRecentTokens = 20000\<rparr>"

definition shouldCompact :: "int \<Rightarrow> int \<Rightarrow> compaction_settings \<Rightarrow> bool" where
  "shouldCompact contextTokens contextWindow settings \<longleftrightarrow>
     cst_enabled settings \<and> contextWindow - cst_reserveTokens settings < contextTokens"

section \<open>The provider-side estimate\<close>

definition estimateTextTokens :: "string \<Rightarrow> nat" where
  "estimateTextTokens t = ceilDiv (length t) 4"

fun blockChars_ai :: "content_block \<Rightarrow> nat" where
  "blockChars_ai (TextBlock t _) = length t"
| "blockChars_ai _ = ESTIMATED_IMAGE_CHARS"

fun estimateContentChars_ai :: "content \<Rightarrow> nat" where
  "estimateContentChars_ai (ContentString s) = length s"
| "estimateContentChars_ai (ContentBlocks bs) = sum_list (map blockChars_ai bs)"

definition estimateTextAndImageContentTokens :: "content \<Rightarrow> nat" where
  "estimateTextAndImageContentTokens c = ceilDiv (estimateContentChars_ai c) 4"

definition estimateToolsTokens :: "json list option \<Rightarrow> nat" where
  "estimateToolsTokens ts =
     (case ts of None \<Rightarrow> 0 | Some [] \<Rightarrow> 0 | Some js \<Rightarrow> estimateTextTokens (stringify (JArr js)))"

text \<open>\<open>estimateMessageTokens\<close> is called on provider messages; it counts no other role.\<close>

fun estimateMessageTokens :: "agent_message \<Rightarrow> nat" where
  "estimateMessageTokens (System m) =
     estimateTextTokens (getSystemMessageText m)
     + estimateToolsTokens (map_option (map declarationJson) (sys_toolsAdded m))
     + estimateToolsTokens (map_option (map JStr) (sys_toolsRemoved m))"
| "estimateMessageTokens (User m) = estimateTextAndImageContentTokens (um_content m)"
| "estimateMessageTokens (ToolResult m) = estimateTextAndImageContentTokens (ContentBlocks (tr_content m))"
| "estimateMessageTokens (Assistant m) = ceilDiv (sum_list (map assistantBlockChars (am_content m))) 4"
| "estimateMessageTokens _ = 0"

fun messageTimestamp :: "agent_message \<Rightarrow> int" where
  "messageTimestamp (System m) = sys_timestamp m"
| "messageTimestamp (User m) = um_timestamp m"
| "messageTimestamp (Assistant m) = am_timestamp m"
| "messageTimestamp (ToolResult m) = tr_timestamp m"
| "messageTimestamp (BashExecution m) = be_timestamp m"
| "messageTimestamp (Custom m) = cm_timestamp m"
| "messageTimestamp (BranchSummary m) = bsm_timestamp m"
| "messageTimestamp (CompactionSummary m) = csm_timestamp m"
| "messageTimestamp (ContextStatus m) = cs_timestamp m"
| "messageTimestamp (HookMessage m) = cm_timestamp m"
| "messageTimestamp (UnknownRole _ _) = 0"

text \<open>
  The forward loop of the provider side; \<open>latest = None\<close> is \<open>-Infinity\<close>. The usage of an assistant
  message is read without a check, so a message without one throws.
\<close>

fun usageInfoLoop_ai ::
  "agent_message list \<Rightarrow> nat \<Rightarrow> int option \<Rightarrow> (usage \<times> nat) option \<Rightarrow> (usage \<times> nat) option js_result" where
  "usageInfoLoop_ai [] i latest info = Inr info"
| "usageInfoLoop_ai (m # ms) i latest info =
     (let latest' = (case latest of None \<Rightarrow> Some (messageTimestamp m) | Some t \<Rightarrow> Some (max t (messageTimestamp m)))
      in case m of
           Assistant a \<Rightarrow>
             if (case latest of None \<Rightarrow> True | Some t \<Rightarrow> t \<le> am_timestamp a)
                \<and> am_stopReason a \<noteq> StopAborted \<and> am_stopReason a \<noteq> StopError
             then (case am_usage a of
                     None \<Rightarrow> Inl TypeError
                   | Some u \<Rightarrow> usageInfoLoop_ai ms (Suc i) latest'
                                 (if 0 < calculateContextTokens u then Some (u, i) else info))
             else usageInfoLoop_ai ms (Suc i) latest' info
         | _ \<Rightarrow> usageInfoLoop_ai ms (Suc i) latest' info)"

definition getLastAssistantUsageInfo_ai :: "agent_message list \<Rightarrow> (usage \<times> nat) option js_result" where
  "getLastAssistantUsageInfo_ai messages = usageInfoLoop_ai messages 0 None None"

definition estimateContextTokens_ai :: "agent_message list \<Rightarrow> context_usage_estimate js_result" where
  "estimateContextTokens_ai messages =
     js_bind (getLastAssistantUsageInfo_ai messages) (\<lambda>info.
       case info of
         Some (u, i) \<Rightarrow>
           (let usageTokens = calculateContextTokens u;
                trailingTokens = sum_list (map estimateMessageTokens (drop (Suc i) messages))
            in Inr \<lparr>cu_tokens = usageTokens + trailingTokens, cu_usageTokens = usageTokens,
                    cu_trailingTokens = trailingTokens, cu_lastUsageIndex = Some i\<rparr>)
       | None \<Rightarrow>
           (let tokens = sum_list (map estimateMessageTokens messages)
            in Inr \<lparr>cu_tokens = tokens, cu_usageTokens = 0, cu_trailingTokens = tokens, cu_lastUsageIndex = None\<rparr>))"

section \<open>Lemmas\<close>

lemma sumTokens_simps [simp]:
  "sumTokens [] = 0" "sumTokens (m # ms) = estimateTokens m + sumTokens ms"
  "sumTokens (ms @ ms') = sumTokens ms + sumTokens ms'"
  by (simp_all add: sumTokens_def)

lemma lastIndexBelow_None: "lastIndexBelow P xs n = None \<longleftrightarrow> (\<forall>j < n. \<not> P (xs ! j))"
  by (induction n) (auto simp: less_Suc_eq)

lemma lastIndexBelow_Some:
  "lastIndexBelow P xs n = Some i \<Longrightarrow> i < n \<and> P (xs ! i) \<and> (\<forall>j. i < j \<and> j < n \<longrightarrow> \<not> P (xs ! j))"
  by (induction n) (auto simp: less_Suc_eq split: if_splits)

lemma lastIndexBelow_drop:
  assumes "jsIndex (lastIndexBelow P xs (length xs)) < int k"
  shows "list_all (\<lambda>x. \<not> P x) (drop k xs)"
proof -
  have "\<not> P (xs ! j)" if "k \<le> j" "j < length xs" for j
  proof (cases "lastIndexBelow P xs (length xs)")
    case None
    with that show ?thesis by (simp add: lastIndexBelow_None)
  next
    case (Some i)
    then have "i < j" using assms that by (simp add: jsIndex_def)
    with lastIndexBelow_Some [OF Some] that show ?thesis by simp
  qed
  then show ?thesis by (simp add: list_all_length)
qed

lemma usageInfoBelow_Some:
  "usageInfoBelow ms n = Some (u, i) \<Longrightarrow>
   i < n \<and> getAssistantUsage (ms ! i) = Some u \<and> (\<forall>j. i < j \<and> j < n \<longrightarrow> getAssistantUsage (ms ! j) = None)"
  by (induction n) (auto simp: less_Suc_eq split: option.splits)

lemma usageInfoBelow_None: "usageInfoBelow ms n = None \<longleftrightarrow> (\<forall>j < n. getAssistantUsage (ms ! j) = None)"
  by (induction n) (auto simp: less_Suc_eq split: option.splits)

lemma entryAtMessage_Some:
  "entryAtMessage pes pos i = Some k \<Longrightarrow> pos \<le> i \<Longrightarrow>
   \<exists>pre pe post. pes = pre @ pe # post \<and> k = e_id (pe_source pe) \<and>
     pos + length (concat (map pe_messages pre)) \<le> i \<and>
     i < pos + length (concat (map pe_messages pre)) + length (pe_messages pe)"
proof (induction pes arbitrary: pos)
  case (Cons pe pes)
  show ?case
  proof (cases "i < pos + length (pe_messages pe)")
    case True
    with Cons.prems show ?thesis by (intro exI [of _ "[]"] exI [of _ pe] exI [of _ pes]) simp
  next
    case False
    with Cons.prems have "entryAtMessage pes (pos + length (pe_messages pe)) i = Some k"
      by (simp add: Let_def)
    from Cons.IH [OF this] False obtain pre pe' post where
      "pes = pre @ pe' # post" "k = e_id (pe_source pe')"
      "pos + length (pe_messages pe) + length (concat (map pe_messages pre)) \<le> i"
      "i < pos + length (pe_messages pe) + length (concat (map pe_messages pre)) + length (pe_messages pe')"
      by auto
    then show ?thesis by (intro exI [of _ "pe # pre"] exI [of _ pe'] exI [of _ post]) simp
  qed
qed simp

lemma usageStillValid_entry:
  assumes "usageStillValid p branch session i"
  shows "\<exists>pre pe post k. sp_entries p = pre @ pe # post \<and>
      length (concat (map pe_messages pre)) \<le> i \<and>
      i < length (concat (map pe_messages pre)) + length (pe_messages pe) \<and>
      k < length branch \<and> e_id (branch ! k) = e_id (pe_source pe) \<and>
      list_all (\<lambda>e. \<not> invalidatesUsage e) (drop k branch)"
proof -
  obtain t where t: "entryAtMessage (sp_entries p) 0 i = Some t" "t \<noteq> []"
    and lt: "jsIndex (lastIndexBelow invalidatesUsage branch (length branch))
             < jsIndex (findIndex (\<lambda>e. e_id e = t) branch)"
    using assms
    by (auto simp: usageStillValid_def Let_def jsIndex_def split: option.splits if_splits)
  obtain k where k: "findIndex (\<lambda>e. e_id e = t) branch = Some k"
    using lt by (cases "findIndex (\<lambda>e. e_id e = t) branch") (auto simp: jsIndex_def split: option.splits)
  from lt k have "list_all (\<lambda>e. \<not> invalidatesUsage e) (drop k branch)"
    by (intro lastIndexBelow_drop) (simp add: jsIndex_def)
  moreover from findIndex_Some [OF k] have "k < length branch" "e_id (branch ! k) = t" by simp_all
  moreover from entryAtMessage_Some [OF t(1)] obtain pre pe post where
    "sp_entries p = pre @ pe # post" "t = e_id (pe_source pe)"
    "length (concat (map pe_messages pre)) \<le> i"
    "i < length (concat (map pe_messages pre)) + length (pe_messages pe)" by auto
  ultimately show ?thesis by metis
qed

text \<open>
  The size of a projected context is either computed from every visible message
  (with the system messages collapsed into the current one), or it is the usage reported by the
  provider plus the messages after it. The second form is used only for the last message that
  reports usage, and only when the entry of that message is on the branch and no edit, cancelled
  edit or compaction follows it there.
\<close>

theorem estimateProjectedContextTokens_sound:
  "let est = estimateProjectedContextTokens p branch session; ms = sp_messages p in
   case cu_lastUsageIndex est of
     None \<Rightarrow> cu_tokens est =
       (case getCurrentSystemMessage ms of None \<Rightarrow> 0 | Some s \<Rightarrow> estimateTokens (System s))
       + sumTokens (filter (\<lambda>m. \<not> isSystem m) ms)
   | Some i \<Rightarrow>
       (\<exists>u pre pe post k.
          getAssistantUsage (ms ! i) = Some u \<and> i < length ms \<and>
          list_all (\<lambda>m. getAssistantUsage m = None) (drop (Suc i) ms) \<and>
          cu_tokens est = calculateContextTokens u + sumTokens (drop (Suc i) ms) \<and>
          sp_entries p = pre @ pe # post \<and>
          length (concat (map pe_messages pre)) \<le> i \<and>
          i < length (concat (map pe_messages pre)) + length (pe_messages pe) \<and>
          k < length branch \<and> e_id (branch ! k) = e_id (pe_source pe) \<and>
          list_all (\<lambda>e. \<not> invalidatesUsage e) (drop k branch))"
proof (cases "\<exists>i. cu_lastUsageIndex (estimateContextTokens (sp_messages p)) = Some i \<and>
                  usageStillValid p branch session i")
  case False
  then have "estimateProjectedContextTokens p branch session = freshEstimate (sp_messages p)"
    by (auto simp: estimateProjectedContextTokens_def Let_def split: option.splits)
  then show ?thesis by (simp add: freshEstimate_def Let_def)
next
  case True
  then obtain i where i: "cu_lastUsageIndex (estimateContextTokens (sp_messages p)) = Some i"
    and valid: "usageStillValid p branch session i" by blast
  then have est: "estimateProjectedContextTokens p branch session = estimateContextTokens (sp_messages p)"
    by (simp add: estimateProjectedContextTokens_def Let_def)
  obtain u where u: "usageInfoBelow (sp_messages p) (length (sp_messages p)) = Some (u, i)"
    using i by (auto simp: estimateContextTokens_def getLastAssistantUsageInfo_def Let_def split: option.splits)
  then have tokens: "cu_tokens (estimateContextTokens (sp_messages p)) =
      calculateContextTokens u + sumTokens (drop (Suc i) (sp_messages p))"
    by (simp add: estimateContextTokens_def getLastAssistantUsageInfo_def Let_def)
  from usageInfoBelow_Some [OF u] have
    "getAssistantUsage (sp_messages p ! i) = Some u" "i < length (sp_messages p)"
    "list_all (\<lambda>m. getAssistantUsage m = None) (drop (Suc i) (sp_messages p))"
    by (auto simp: list_all_length)
  with usageStillValid_entry [OF valid] tokens est i show ?thesis
    by (simp only: Let_def option.case) blast
qed

end
