(* ===== verification/Compaction_Utils.thy ===== *)
theory Compaction_Utils
  imports Token_Estimate "HOL-Library.List_Lexorder" "HOL-Library.Char_ord"
begin

text \<open>
  File-operation tracking and serialisation of a conversation for summarisation:
  \<open>packages/coding-agent/src/core/compaction/utils.ts\<close>. A JavaScript \<open>Set\<close> of strings is the list of
  its members in insertion order; \<open>sort()\<close> without a comparator orders strings by code unit, which is
  the lexicographic order on \<^typ>\<open>string\<close>.
\<close>

section \<open>File operations\<close>

definition setAdd :: "'a \<Rightarrow> 'a list \<Rightarrow> 'a list" where
  "setAdd x xs = (if x \<in> set xs then xs else xs @ [x])"

record file_operations =
  fo_read :: "string list"
  fo_written :: "string list"
  fo_edited :: "string list"

definition createFileOps :: file_operations where
  "createFileOps = \<lparr>fo_read = [], fo_written = [], fo_edited = []\<rparr>"

text \<open>\<open>typeof args.path === "string"\<close>, and the path is not empty.\<close>

definition pathArgument :: "tool_call \<Rightarrow> string option" where
  "pathArgument tc =
     (case map_of (tc_arguments tc) ''path'' of
        Some (JStr p) \<Rightarrow> if p = [] then None else Some p
      | _ \<Rightarrow> None)"

definition recordToolCall :: "tool_call \<Rightarrow> file_operations \<Rightarrow> file_operations" where
  "recordToolCall tc ops =
     (case pathArgument tc of
        None \<Rightarrow> ops
      | Some p \<Rightarrow>
          if tc_name tc = ''read'' then ops\<lparr>fo_read := setAdd p (fo_read ops)\<rparr>
          else if tc_name tc = ''write'' then ops\<lparr>fo_written := setAdd p (fo_written ops)\<rparr>
          else if tc_name tc = ''edit'' then ops\<lparr>fo_edited := setAdd p (fo_edited ops)\<rparr>
          else ops)"

fun extractFileOpsFromMessage :: "agent_message \<Rightarrow> file_operations \<Rightarrow> file_operations" where
  "extractFileOpsFromMessage (Assistant m) ops = fold recordToolCall (toolCallsOf (am_content m)) ops"
| "extractFileOpsFromMessage _ ops = ops"

definition computeFileLists :: "file_operations \<Rightarrow> string list \<times> string list" where
  "computeFileLists ops =
     (let modified = fold setAdd (fo_edited ops @ fo_written ops) []
      in (sort (filter (\<lambda>f. f \<notin> set modified) (fo_read ops)), sort modified))"

definition formatFileOperations :: "string list \<Rightarrow> string list \<Rightarrow> string" where
  "formatFileOperations readFiles modifiedFiles =
     (let sections =
        (if readFiles = [] then []
         else [''<read-files>'' @ newline @ join newline readFiles @ newline @ ''</read-files>'']) @
        (if modifiedFiles = [] then []
         else [''<modified-files>'' @ newline @ join newline modifiedFiles @ newline @ ''</modified-files>''])
      in if sections = [] then [] else blankLine @ join blankLine sections)"

section \<open>Serialisation of a conversation\<close>

definition TOOL_RESULT_MAX_CHARS :: nat where
  "TOOL_RESULT_MAX_CHARS = 2000"

definition truncateForSummary :: "string \<Rightarrow> nat \<Rightarrow> string" where
  "truncateForSummary t maxChars =
     (if length t \<le> maxChars then t
      else take maxChars t @ blankLine @ ''[... '' @ showNat (length t - maxChars) @ '' more characters truncated]'')"

definition serializeToolCall :: "tool_call \<Rightarrow> string" where
  "serializeToolCall tc =
     tc_name tc @ ''('' @ join '', '' (map (\<lambda>(k, v). k @ ''='' @ stringify v) (tc_arguments tc)) @ '')''"

fun blockThinking :: "content_block \<Rightarrow> string option" where
  "blockThinking (ThinkingBlock t _ _) = Some t"
| "blockThinking _ = None"

definition labelled :: "string \<Rightarrow> string \<Rightarrow> string" where
  "labelled label body = ''['' @ label @ '']: '' @ body"

text \<open>The parts one message adds; a role that is none of the three adds none.\<close>

fun serializeMessage :: "agent_message \<Rightarrow> string list" where
  "serializeMessage (User m) =
     (let content = contentTextSep [] (um_content m) in if content = [] then [] else [labelled ''User'' content])"
| "serializeMessage (Assistant m) =
     (let thinkingParts = List.map_filter blockThinking (am_content m);
          toolCalls = map serializeToolCall (toolCallsOf (am_content m))
      in (if thinkingParts = [] then [] else [labelled ''Assistant thinking'' (join newline thinkingParts)])
         @ (if list_ex (\<lambda>b. blockText b \<noteq> None) (am_content m)
            then [labelled ''Assistant'' (contentText (ContentBlocks (am_content m)))] else [])
         @ (if toolCalls = [] then [] else [labelled ''Assistant tool calls'' (join ''; '' toolCalls)]))"
| "serializeMessage (ToolResult m) =
     (let content = contentTextSep [] (ContentBlocks (tr_content m))
      in if content = [] then []
         else [labelled ''Tool result'' (truncateForSummary content TOOL_RESULT_MAX_CHARS)])"
| "serializeMessage _ = []"

definition serializeConversation :: "agent_message list \<Rightarrow> string" where
  "serializeConversation messages = join blankLine (concat (map serializeMessage messages))"

section \<open>Lemmas\<close>

lemma set_setAdd [simp]: "set (setAdd x xs) = insert x (set xs)"
  by (auto simp: setAdd_def)

lemma distinct_setAdd [simp]: "distinct xs \<Longrightarrow> distinct (setAdd x xs)"
  by (simp add: setAdd_def)

lemma fold_setAdd [simp]: "set (fold setAdd xs ys) = set xs \<union> set ys"
  by (induction xs arbitrary: ys) auto

lemma distinct_fold_setAdd: "distinct ys \<Longrightarrow> distinct (fold setAdd xs ys)"
  by (induction xs arbitrary: ys) auto

text \<open>The file operations a list of tool calls performs, as sets.\<close>

definition pathsOf :: "string set \<Rightarrow> tool_call list \<Rightarrow> string set" where
  "pathsOf names tcs = {p. \<exists>tc \<in> set tcs. tc_name tc \<in> names \<and> pathArgument tc = Some p}"

fun messageToolCalls :: "agent_message \<Rightarrow> tool_call list" where
  "messageToolCalls (Assistant m) = toolCallsOf (am_content m)"
| "messageToolCalls _ = []"

definition callsOf :: "agent_message list \<Rightarrow> tool_call list" where
  "callsOf ms = concat (map messageToolCalls ms)"

lemma pathsOf_Nil [simp]: "pathsOf names [] = {}"
  by (simp add: pathsOf_def)

lemma pathsOf_append: "pathsOf names (tcs @ tcs') = pathsOf names tcs \<union> pathsOf names tcs'"
  by (auto simp: pathsOf_def)

lemma pathsOf_Cons:
  "pathsOf names (tc # tcs) =
     (if tc_name tc \<in> names then set_option (pathArgument tc) else {}) \<union> pathsOf names tcs"
  by (auto simp: pathsOf_def)

lemma pathsOf_Un: "pathsOf (names \<union> names') tcs = pathsOf names tcs \<union> pathsOf names' tcs"
  by (auto simp: pathsOf_def)

lemma recordToolCall_sets:
  "set (fo_read (recordToolCall tc ops)) = set (fo_read ops) \<union> pathsOf {''read''} [tc]"
  "set (fo_written (recordToolCall tc ops)) = set (fo_written ops) \<union> pathsOf {''write''} [tc]"
  "set (fo_edited (recordToolCall tc ops)) = set (fo_edited ops) \<union> pathsOf {''edit''} [tc]"
  by (auto simp: recordToolCall_def pathsOf_def split: option.splits)

lemma fold_recordToolCall_sets:
  "set (fo_read (fold recordToolCall tcs ops)) = set (fo_read ops) \<union> pathsOf {''read''} tcs"
  "set (fo_written (fold recordToolCall tcs ops)) = set (fo_written ops) \<union> pathsOf {''write''} tcs"
  "set (fo_edited (fold recordToolCall tcs ops)) = set (fo_edited ops) \<union> pathsOf {''edit''} tcs"
  by (induction tcs arbitrary: ops)
     (auto simp: recordToolCall_sets pathsOf_Cons [where tcs = "_ # _"] pathsOf_Cons)

lemma extractFileOpsFromMessage_calls:
  "extractFileOpsFromMessage m ops = fold recordToolCall (messageToolCalls m) ops"
  by (cases m) auto

lemma fold_extractFileOps:
  "fold extractFileOpsFromMessage ms ops = fold recordToolCall (callsOf ms) ops"
  by (induction ms arbitrary: ops) (simp_all add: extractFileOpsFromMessage_calls callsOf_def)

text \<open>Every list the code keeps is a set: it has no duplicates.\<close>

definition opsDistinct :: "file_operations \<Rightarrow> bool" where
  "opsDistinct ops \<longleftrightarrow> distinct (fo_read ops) \<and> distinct (fo_written ops) \<and> distinct (fo_edited ops)"

lemma opsDistinct_create [simp]: "opsDistinct createFileOps"
  by (simp add: opsDistinct_def createFileOps_def)

lemma opsDistinct_record: "opsDistinct ops \<Longrightarrow> opsDistinct (recordToolCall tc ops)"
  by (auto simp: opsDistinct_def recordToolCall_def split: option.splits)

lemma opsDistinct_fold: "opsDistinct ops \<Longrightarrow> opsDistinct (fold recordToolCall tcs ops)"
  by (induction tcs arbitrary: ops) (auto simp: opsDistinct_record)

lemma computeFileLists_sets:
  assumes "computeFileLists ops = (readFiles, modifiedFiles)"
  shows "set readFiles = set (fo_read ops) - (set (fo_edited ops) \<union> set (fo_written ops))"
    and "set modifiedFiles = set (fo_edited ops) \<union> set (fo_written ops)"
    and "sorted readFiles" and "sorted modifiedFiles" and "distinct modifiedFiles"
    and "opsDistinct ops \<Longrightarrow> distinct readFiles"
  using assms
  by (auto simp: computeFileLists_def Let_def distinct_fold_setAdd opsDistinct_def)

text \<open>The truncated text is a prefix of at most \<open>maxChars\<close> characters, followed by the marker.\<close>

lemma truncateForSummary_prefix:
  "take (min maxChars (length t)) (truncateForSummary t maxChars) = take maxChars t"
  by (auto simp: truncateForSummary_def)

lemma serializeConversation_append:
  "serializeConversation ms = [] \<or> serializeConversation ms' = [] \<or>
   serializeConversation (ms @ ms') = serializeConversation ms @ blankLine @ serializeConversation ms'"
proof -
  have "xs = [] \<or> ys = [] \<or> join s (xs @ ys) = join s xs @ s @ join s ys" for s xs ys
  proof (induction xs)
    case (Cons x xs)
    then show ?case by (cases xs; cases ys) auto
  qed simp
  then show ?thesis by (metis (no_types) serializeConversation_def concat_append join.simps(1) map_append)
qed

end
