(* ===== verification/Compaction.thy ===== *)
theory Compaction
  imports Compaction_Utils
begin

text \<open>
  Choosing what a compaction summarises and what it keeps: the cut-point search and
  \<open>prepareCompaction\<close> of \<open>packages/coding-agent/src/core/compaction/compaction.ts\<close>. The file has the
  search twice, over raw entries and over projected entries; the locale \<open>cut_scan\<close> states what both rely on
  and is interpreted for each. Indices are natural numbers, and the \<open>-1\<close> of a failed search is \<open>None\<close>.
\<close>

section \<open>Which messages may start the kept tail\<close>

fun isCutPointMessage :: "agent_message \<Rightarrow> bool" where
  "isCutPointMessage (User _) = True"
| "isCutPointMessage (Assistant _) = True"
| "isCutPointMessage (BashExecution _) = True"
| "isCutPointMessage (Custom _) = True"
| "isCutPointMessage (BranchSummary _) = True"
| "isCutPointMessage (CompactionSummary _) = True"
| "isCutPointMessage _ = False"

fun isTurnStartMessage :: "agent_message \<Rightarrow> bool" where
  "isTurnStartMessage (User _) = True"
| "isTurnStartMessage (BashExecution _) = True"
| "isTurnStartMessage (Custom _) = True"
| "isTurnStartMessage (BranchSummary _) = True"
| "isTurnStartMessage (CompactionSummary _) = True"
| "isTurnStartMessage _ = False"

section \<open>The scans\<close>

definition cutPointsOf :: "('e \<Rightarrow> bool) \<Rightarrow> 'e list \<Rightarrow> nat \<Rightarrow> nat \<Rightarrow> nat list" where
  "cutPointsOf cutable entries startIndex endIndex = filter (\<lambda>i. cutable (entries ! i)) [startIndex..<endIndex]"

text \<open>
  The walk back from the newest entry, over the indices \<open>startIndex + n - 1, \<dots>, startIndex\<close>;
  \<open>Some c\<close> when the budget was reached, with the cut point chosen there.
\<close>

fun budgetCut :: "('e \<Rightarrow> nat) \<Rightarrow> 'e list \<Rightarrow> nat list \<Rightarrow> nat \<Rightarrow> nat \<Rightarrow> nat \<Rightarrow> nat \<Rightarrow> nat option" where
  "budgetCut tokens entries cutPoints keep startIndex 0 acc = None"
| "budgetCut tokens entries cutPoints keep startIndex (Suc n) acc =
     (let i = startIndex + n; messageTokens = tokens (entries ! i) in
      if messageTokens = 0 then budgetCut tokens entries cutPoints keep startIndex n acc
      else if keep \<le> acc + messageTokens
      then Some (case List.find (\<lambda>c. i \<le> c) cutPoints of Some c \<Rightarrow> c | None \<Rightarrow> last cutPoints)
      else budgetCut tokens entries cutPoints keep startIndex n (acc + messageTokens))"

text \<open>\<open>while (cutIndex > startIndex) { if (boundary) break; cutIndex--; }\<close>\<close>

fun backOver :: "('e \<Rightarrow> bool) \<Rightarrow> 'e list \<Rightarrow> nat \<Rightarrow> nat \<Rightarrow> nat" where
  "backOver boundary entries startIndex 0 = 0"
| "backOver boundary entries startIndex (Suc c) =
     (if startIndex < Suc c \<and> \<not> boundary (entries ! c) then backOver boundary entries startIndex c else Suc c)"

definition turnStartBelow :: "('e \<Rightarrow> bool) \<Rightarrow> 'e list \<Rightarrow> nat \<Rightarrow> nat \<Rightarrow> nat option" where
  "turnStartBelow starts entries entryIndex startIndex =
     List.find (\<lambda>i. starts (entries ! i)) (rev [startIndex..<Suc entryIndex])"

record cut_point_result =
  cp_firstKeptEntryIndex :: nat
  cp_turnStartIndex :: "nat option"
  cp_isSplitTurn :: bool

definition noCut :: "nat \<Rightarrow> cut_point_result" where
  "noCut startIndex = \<lparr>cp_firstKeptEntryIndex = startIndex, cp_turnStartIndex = None, cp_isSplitTurn = False\<rparr>"

definition cutAt :: "('e \<Rightarrow> bool) \<Rightarrow> 'e list \<Rightarrow> nat \<Rightarrow> nat \<Rightarrow> cut_point_result" where
  "cutAt starts entries startIndex cutIndex =
     (let startsTurn = starts (entries ! cutIndex);
          turnStartIndex = (if startsTurn then None else turnStartBelow starts entries cutIndex startIndex)
      in \<lparr>cp_firstKeptEntryIndex = cutIndex, cp_turnStartIndex = turnStartIndex,
          cp_isSplitTurn = (\<not> startsTurn \<and> turnStartIndex \<noteq> None)\<rparr>)"

section \<open>The cut point in raw entries\<close>

type_synonym prune_states = "(string \<times> prune_state) list"

definition getMessageFromEntryForCompaction :: "prune_states \<Rightarrow> session_entry \<Rightarrow> agent_message option" where
  "getMessageFromEntryForCompaction pruneStateById e =
     (if isCompaction e \<or> map_of pruneStateById (e_id e) = Some Excluded then None
      else case sessionEntryToContextMessages e of [] \<Rightarrow> None | m # _ \<Rightarrow> Some m)"

definition isTurnStartEntry :: "prune_states \<Rightarrow> session_entry \<Rightarrow> bool" where
  "isTurnStartEntry pruneStateById e =
     (case getMessageFromEntryForCompaction pruneStateById e of Some m \<Rightarrow> isTurnStartMessage m | None \<Rightarrow> False)"

definition rawCutable :: "prune_states \<Rightarrow> session_entry \<Rightarrow> bool" where
  "rawCutable pruneStateById e =
     (case getMessageFromEntryForCompaction pruneStateById e of Some m \<Rightarrow> isCutPointMessage m | None \<Rightarrow> False)"

definition rawTokens :: "prune_states \<Rightarrow> session_entry \<Rightarrow> nat" where
  "rawTokens pruneStateById e =
     (case getMessageFromEntryForCompaction pruneStateById e of Some m \<Rightarrow> estimateTokens m | None \<Rightarrow> 0)"

definition rawBoundary :: "prune_states \<Rightarrow> session_entry \<Rightarrow> bool" where
  "rawBoundary pruneStateById e \<longleftrightarrow>
     isCompaction e \<or> getMessageFromEntryForCompaction pruneStateById e \<noteq> None"

definition findTurnStartIndex :: "prune_states \<Rightarrow> session_entry list \<Rightarrow> nat \<Rightarrow> nat \<Rightarrow> nat option" where
  "findTurnStartIndex pruneStateById entries entryIndex startIndex =
     turnStartBelow (isTurnStartEntry pruneStateById) entries entryIndex startIndex"

text \<open>Reading past the end of \<open>entries\<close> dereferences \<open>undefined\<close>.\<close>

definition findCutPoint ::
  "prune_states \<Rightarrow> session_entry list \<Rightarrow> nat \<Rightarrow> nat \<Rightarrow> nat \<Rightarrow> cut_point_result js_result" where
  "findCutPoint pruneStateById entries startIndex endIndex keepRecentTokens =
     (if startIndex < endIndex \<and> length entries < endIndex then Inl TypeError
      else let cutPoints = cutPointsOf (rawCutable pruneStateById) entries startIndex endIndex
           in if cutPoints = [] then Inr (noCut startIndex)
              else let chosen = budgetCut (rawTokens pruneStateById) entries cutPoints keepRecentTokens
                                  startIndex (endIndex - startIndex) 0;
                       cutIndex = (case chosen of Some c \<Rightarrow> c | None \<Rightarrow> hd cutPoints);
                       cutIndex = backOver (rawBoundary pruneStateById) entries startIndex cutIndex
                   in Inr (cutAt (isTurnStartEntry pruneStateById) entries startIndex cutIndex))"

section \<open>The cut point in projected entries\<close>

abbreviation isProjectedCompaction :: "projected_entry \<Rightarrow> bool" where
  "isProjectedCompaction pe \<equiv> isCompaction (pe_source pe)"

definition getMessagesFromProjectedEntryForCompaction :: "projected_entry \<Rightarrow> agent_message list" where
  "getMessagesFromProjectedEntryForCompaction pe =
     (if isProjectedCompaction pe then [] else filter (\<lambda>m. \<not> isSystem m) (pe_messages pe))"

definition isProjectedTurnStart :: "projected_entry \<Rightarrow> bool" where
  "isProjectedTurnStart pe \<longleftrightarrow> \<not> isProjectedCompaction pe \<and> list_ex isTurnStartMessage (pe_messages pe)"

definition projectedCutable :: "projected_entry \<Rightarrow> bool" where
  "projectedCutable pe \<longleftrightarrow> \<not> isProjectedCompaction pe \<and> list_ex isCutPointMessage (pe_messages pe)"

definition projectedTokens :: "projected_entry \<Rightarrow> nat" where
  "projectedTokens pe = sumTokens (pe_messages pe)"

definition projectedBoundary :: "projected_entry \<Rightarrow> bool" where
  "projectedBoundary pe \<longleftrightarrow> isProjectedCompaction pe \<or> pe_messages pe \<noteq> []"

definition isIntrinsicallyVisible :: "projected_entry \<Rightarrow> bool" where
  "isIntrinsicallyVisible pe \<longleftrightarrow>
     (case e_data (pe_source pe) of ContextEditEntry _ _ _ \<Rightarrow> False | _ \<Rightarrow> True) \<and>
     sessionEntryToContextMessages (pe_source pe) \<noteq> []"

definition isOmitted :: "projected_entry \<Rightarrow> bool" where
  "isOmitted pe \<longleftrightarrow> isIntrinsicallyVisible pe \<and> pe_messages pe = []"

definition isAssistantSource :: "session_entry \<Rightarrow> bool" where
  "isAssistantSource e = (case e_data e of MessageEntry m _ \<Rightarrow> isAssistant m | _ \<Rightarrow> False)"

definition hasExternalReplacement :: "projected_entry list \<Rightarrow> bool" where
  "hasExternalReplacement suffixEntries =
     (let omittedSuffixIds = map (e_id \<circ> pe_source) (filter isOmitted suffixEntries)
      in list_ex (\<lambda>pe. case e_data (pe_source pe) of
                         ContextEditEntry t (Some _) _ \<Rightarrow> t \<notin> set omittedSuffixIds
                       | _ \<Rightarrow> False) suffixEntries)"

definition isRecoveryOmissionSuffix :: "bool \<Rightarrow> projected_entry list \<Rightarrow> bool" where
  "isRecoveryOmissionSuffix exceededBudget suffixEntries \<longleftrightarrow>
     exceededBudget \<and> \<not> hasExternalReplacement suffixEntries \<and>
     list_ex (\<lambda>pe. isAssistantSource (pe_source pe) \<and> isOmitted pe) suffixEntries \<and>
     list_all (\<lambda>pe. \<not> isProjectedCompaction pe \<and> (\<not> isIntrinsicallyVisible pe \<or> isOmitted pe)) suffixEntries"

definition slice :: "nat \<Rightarrow> nat \<Rightarrow> 'a list \<Rightarrow> 'a list" where
  "slice i j xs = take (j - i) (drop i xs)"

definition findProjectedCutPoint ::
  "projected_entry list \<Rightarrow> nat \<Rightarrow> nat \<Rightarrow> nat \<Rightarrow> cut_point_result" where
  "findProjectedCutPoint entries startIndex endIndex keepRecentTokens =
     (let cutPoints = cutPointsOf projectedCutable entries startIndex endIndex
      in if cutPoints = [] then noCut startIndex
         else let chosen = budgetCut projectedTokens entries cutPoints keepRecentTokens
                             startIndex (endIndex - startIndex) 0;
                  cutIndex = (case chosen of Some c \<Rightarrow> c | None \<Rightarrow> hd cutPoints);
                  suffixEntries = slice (Suc cutIndex) endIndex entries;
                  cutIndex = (if isRecoveryOmissionSuffix (chosen \<noteq> None) suffixEntries then Suc cutIndex else cutIndex);
                  cutIndex = backOver projectedBoundary entries startIndex cutIndex
              in cutAt isProjectedTurnStart entries startIndex cutIndex)"

section \<open>Preparation\<close>

text \<open>Details written by a compaction hold arrays of strings; other array elements are left out.\<close>

definition stringsAt :: "string \<Rightarrow> json \<Rightarrow> string list" where
  "stringsAt key j =
     (case j of
        JObj kvs \<Rightarrow>
          (case map_of kvs key of
             Some (JArr xs) \<Rightarrow> List.map_filter (\<lambda>x. case x of JStr s \<Rightarrow> Some s | _ \<Rightarrow> None) xs
           | _ \<Rightarrow> [])
      | _ \<Rightarrow> [])"

definition previousFileOps :: "compaction_data \<Rightarrow> file_operations" where
  "previousFileOps c =
     (case (ce_fromHook c, ce_details c) of
        (False, Some details) \<Rightarrow>
          createFileOps\<lparr>fo_read := fold setAdd (stringsAt ''readFiles'' details) [],
                        fo_edited := fold setAdd (stringsAt ''modifiedFiles'' details) []\<rparr>
      | _ \<Rightarrow> createFileOps)"

definition extractFileOperations ::
  "agent_message list \<Rightarrow> session_entry list \<Rightarrow> nat option \<Rightarrow> file_operations" where
  "extractFileOperations messages entries prevCompactionIndex =
     fold extractFileOpsFromMessage messages
       (case prevCompactionIndex of
          None \<Rightarrow> createFileOps
        | Some i \<Rightarrow> (case compactionOf (entries ! i) of Some c \<Rightarrow> previousFileOps c | None \<Rightarrow> createFileOps))"

record compaction_preparation =
  prep_firstKeptEntryId :: string
  prep_messagesToSummarize :: "agent_message list"
  prep_turnPrefixMessages :: "agent_message list"
  prep_isSplitTurn :: bool
  prep_tokensBefore :: nat
  prep_previousSummary :: "string option"
  prep_fileOps :: file_operations
  prep_settings :: compaction_settings

fun previousSummaryOf :: "agent_message list \<Rightarrow> string option" where
  "previousSummaryOf [] = None"
| "previousSummaryOf (CompactionSummary m # ms) = Some (csm_summary m)"
| "previousSummaryOf (Custom m # ms) =
     (if cm_customType m = ''context_summary'' then Some (contentText (cm_content m)) else previousSummaryOf ms)"
| "previousSummaryOf (_ # ms) = previousSummaryOf ms"

text \<open>What \<open>prepareCompaction\<close> does with the projection of the path; \<open>None\<close> is \<open>undefined\<close>.\<close>

definition prepareProjected ::
  "session_projection \<Rightarrow> session_entry list \<Rightarrow> compaction_settings \<Rightarrow> session_entry list
   \<Rightarrow> compaction_preparation option" where
  "prepareProjected projection pathEntries settings sessionEntries =
     (let projectedEntries = sp_entries projection;
          prevCompactionIndex = findIndex (\<lambda>pe. isProjectedCompaction pe \<and> pe_messages pe \<noteq> []) projectedEntries;
          previousSummary = (case prevCompactionIndex of
              None \<Rightarrow> None | Some i \<Rightarrow> previousSummaryOf (pe_messages (projectedEntries ! i)));
          boundaryStart = (case prevCompactionIndex of None \<Rightarrow> 0 | Some i \<Rightarrow> Suc i);
          tokensBefore = cu_tokens (estimateProjectedContextTokens projection pathEntries sessionEntries);
          cutPoint = findProjectedCutPoint projectedEntries boundaryStart (length projectedEntries)
                       (cst_keepRecentTokens settings);
          cut = cp_firstKeptEntryIndex cutPoint
      in if length projectedEntries \<le> cut \<or> e_id (pe_source (projectedEntries ! cut)) = [] then None
         else let historyEnd = (if cp_isSplitTurn cutPoint then the (cp_turnStartIndex cutPoint) else cut);
                  messagesToSummarize = concat (map getMessagesFromProjectedEntryForCompaction
                                                  (slice boundaryStart historyEnd projectedEntries));
                  turnPrefixMessages =
                    (if cp_isSplitTurn cutPoint
                     then concat (map getMessagesFromProjectedEntryForCompaction
                                    (slice (the (cp_turnStartIndex cutPoint)) cut projectedEntries))
                     else []);
                  fileOps = extractFileOperations messagesToSummarize (map pe_source projectedEntries) prevCompactionIndex;
                  fileOps = (if cp_isSplitTurn cutPoint
                             then fold extractFileOpsFromMessage turnPrefixMessages fileOps else fileOps)
              in if messagesToSummarize = [] \<and> turnPrefixMessages = [] then None
                 else Some \<lparr>prep_firstKeptEntryId = e_id (pe_source (projectedEntries ! cut)),
                            prep_messagesToSummarize = messagesToSummarize,
                            prep_turnPrefixMessages = turnPrefixMessages,
                            prep_isSplitTurn = cp_isSplitTurn cutPoint,
                            prep_tokensBefore = tokensBefore,
                            prep_previousSummary = previousSummary,
                            prep_fileOps = fileOps,
                            prep_settings = settings\<rparr>)"

text \<open>The outer option is the walk along parent links, the inner one the result \<open>undefined\<close>.\<close>

definition prepareCompaction ::
  "session_entry list \<Rightarrow> compaction_settings \<Rightarrow> changes option \<Rightarrow> session_entry list
   \<Rightarrow> compaction_preparation option option" where
  "prepareCompaction pathEntries settings legacyPruneChanges sessionEntries =
     (if pathEntries \<noteq> [] \<and> isCompaction (last pathEntries) then Some None
      else map_option (\<lambda>projection. prepareProjected projection pathEntries settings sessionEntries)
             (buildSessionProjection pathEntries LeafUndefined None legacyPruneChanges))"

section \<open>What a scan returns\<close>

lemma budgetCut_mem:
  "cutPoints \<noteq> [] \<Longrightarrow> budgetCut tokens entries cutPoints keep start n acc = Some c \<Longrightarrow> c \<in> set cutPoints"
  by (induction n arbitrary: acc) (auto simp: Let_def find_Some_iff split: if_splits option.splits)

lemma backOver_spec:
  "start \<le> c \<Longrightarrow>
   start \<le> backOver boundary entries start c \<and> backOver boundary entries start c \<le> c \<and>
   (\<forall>i. backOver boundary entries start c \<le> i \<and> i < c \<longrightarrow> \<not> boundary (entries ! i)) \<and>
   (backOver boundary entries start c = start \<or> boundary (entries ! (backOver boundary entries start c - 1)))"
proof (induction c)
  case (Suc c)
  show ?case
  proof (cases "start < Suc c \<and> \<not> boundary (entries ! c)")
    case True
    then have "start \<le> c" by simp
    from Suc.IH [OF this] True show ?thesis by (auto simp: less_Suc_eq)
  next
    case False
    then show ?thesis using Suc.prems by auto
  qed
qed simp

text \<open>
  The tokens of the tail: the entry where the walk stops is the first, from the end, at which the tail
  reaches the budget.
\<close>

lemma budgetCut_reached:
  assumes "budgetCut tokens entries cutPoints keep start n acc = Some c"
  shows "\<exists>i. start \<le> i \<and> i < start + n \<and>
             keep \<le> acc + sum_list (map (\<lambda>j. tokens (entries ! j)) [i..<start + n]) \<and>
             (acc + sum_list (map (\<lambda>j. tokens (entries ! j)) [Suc i..<start + n]) < keep \<or>
              sum_list (map (\<lambda>j. tokens (entries ! j)) [Suc i..<start + n]) = 0) \<and>
             c = (case List.find (\<lambda>c. i \<le> c) cutPoints of Some c \<Rightarrow> c | None \<Rightarrow> last cutPoints)"
  using assms
proof (induction n arbitrary: acc)
  case (Suc n)
  let ?t = "tokens (entries ! (start + n))"
  show ?case
  proof (cases "?t = 0 \<or> \<not> keep \<le> acc + ?t")
    case True
    then have "budgetCut tokens entries cutPoints keep start n (acc + ?t) = Some c"
      using Suc.prems by (auto simp: Let_def split: if_splits)
    from Suc.IH [OF this] obtain i where i: "start \<le> i" "i < start + n"
      "keep \<le> acc + ?t + sum_list (map (\<lambda>j. tokens (entries ! j)) [i..<start + n])"
      "acc + ?t + sum_list (map (\<lambda>j. tokens (entries ! j)) [Suc i..<start + n]) < keep \<or>
       sum_list (map (\<lambda>j. tokens (entries ! j)) [Suc i..<start + n]) = 0"
      "c = (case List.find (\<lambda>c. i \<le> c) cutPoints of Some c \<Rightarrow> c | None \<Rightarrow> last cutPoints)"
      by blast
    define S where "S = sum_list (map (\<lambda>j. tokens (entries ! j)) [Suc i..<start + n])"
    have "acc + (S + ?t) < keep \<or> S + ?t = 0" using i(4) True unfolding S_def [symmetric] by auto
    then show ?thesis
      using i(1,2,3,5) by (intro exI [of _ i]) (simp add: S_def)
  next
    case False
    then show ?thesis using Suc.prems
      by (intro exI [of _ "start + n"]) (auto simp: Let_def)
  qed
qed simp

lemma cutPointsOf_mem:
  "c \<in> set (cutPointsOf cutable entries start stop) \<longleftrightarrow> start \<le> c \<and> c < stop \<and> cutable (entries ! c)"
  by (auto simp: cutPointsOf_def)

text \<open>
  What both searches rely on: an entry that may start the tail is never skipped by the walk back over
  invisible entries.
\<close>

locale cut_scan =
  fixes cutable :: "'e \<Rightarrow> bool"
    and boundary :: "'e \<Rightarrow> bool"
    and tokens :: "'e \<Rightarrow> nat"
  assumes cutable_boundary: "cutable e \<Longrightarrow> boundary e"
begin

definition chosenCut :: "'e list \<Rightarrow> nat \<Rightarrow> nat \<Rightarrow> nat \<Rightarrow> nat" where
  "chosenCut entries start stop keep =
     (let cutPoints = cutPointsOf cutable entries start stop
      in case budgetCut tokens entries cutPoints keep start (stop - start) 0 of
           Some c \<Rightarrow> c | None \<Rightarrow> hd cutPoints)"

lemma chosenCut_mem:
  assumes "cutPointsOf cutable entries start stop \<noteq> []"
  shows "start \<le> chosenCut entries start stop keep" "chosenCut entries start stop keep < stop"
    "cutable (entries ! chosenCut entries start stop keep)"
proof -
  have "chosenCut entries start stop keep \<in> set (cutPointsOf cutable entries start stop)"
    using assms budgetCut_mem [OF assms] by (auto simp: chosenCut_def Let_def split: option.splits)
  then show "start \<le> chosenCut entries start stop keep" "chosenCut entries start stop keep < stop"
    "cutable (entries ! chosenCut entries start stop keep)"
    by (simp_all add: cutPointsOf_mem)
qed

text \<open>
  Between the position the search returns and the chosen cut point nothing is visible, and what
  precedes it is visible, or is the start of the range.
\<close>

lemma tail_starts_at_cut:
  assumes "cutPointsOf cutable entries start stop \<noteq> []"
    and r: "r = backOver boundary entries start (chosenCut entries start stop keep)"
  shows "\<exists>c. start \<le> r \<and> r \<le> c \<and> c < stop \<and> cutable (entries ! c) \<and>
             (\<forall>i. r \<le> i \<and> i < c \<longrightarrow> \<not> boundary (entries ! i)) \<and>
             (r = start \<or> boundary (entries ! (r - 1)))"
  using chosenCut_mem [OF assms(1), of keep] backOver_spec [of start "chosenCut entries start stop keep" boundary entries] r
  by (intro exI [of _ "chosenCut entries start stop keep"]) simp

end

interpretation projected_scan: cut_scan projectedCutable projectedBoundary projectedTokens
  by unfold_locales (auto simp: projectedCutable_def projectedBoundary_def)

interpretation raw_scan: cut_scan "rawCutable states" "rawBoundary states" "rawTokens states" for states
  by unfold_locales (auto simp: rawCutable_def rawBoundary_def split: option.splits)

section \<open>The projected cut point\<close>

lemma slice_append: "i \<le> j \<Longrightarrow> j \<le> k \<Longrightarrow> slice i j xs @ slice j k xs = slice i k xs"
proof -
  assume "i \<le> j" and "j \<le> k"
  then have "k - i = (j - i) + (k - j)" and "drop (j - i) (drop i xs) = drop j xs" by simp_all
  then show ?thesis by (simp add: slice_def take_add)
qed

lemma take_slice_drop: "i \<le> j \<Longrightarrow> take i xs @ slice i j xs @ drop j xs = xs"
  unfolding slice_def
  by (metis append.assoc append_take_drop_id le_add_diff_inverse take_add)

lemma turnStartBelow_Some:
  "turnStartBelow starts entries e start = Some t \<Longrightarrow> start \<le> t \<and> t \<le> e \<and> starts (entries ! t)"
proof -
  assume "turnStartBelow starts entries e start = Some t"
  then have "t \<in> set (rev [start..<Suc e])" and "starts (entries ! t)"
    unfolding turnStartBelow_def by (metis find_Some_iff nth_mem)+
  then show ?thesis by auto
qed

text \<open>
  The tail from position \<open>r\<close> on starts, as far as the model sees it, with an entry that may start a tail; the
  exception is a tail that consists of omitted attempts only.
\<close>

definition tailOk :: "projected_entry list \<Rightarrow> nat \<Rightarrow> bool" where
  "tailOk entries r \<longleftrightarrow>
     (\<exists>c. r \<le> c \<and> c < length entries \<and> projectedCutable (entries ! c) \<and>
          (\<forall>i. r \<le> i \<and> i < c \<longrightarrow> \<not> projectedBoundary (entries ! i))) \<or>
     (\<forall>i. r \<le> i \<and> i < length entries \<longrightarrow>
          \<not> isProjectedCompaction (entries ! i) \<and>
          (\<not> isIntrinsicallyVisible (entries ! i) \<or> pe_messages (entries ! i) = []))"

lemma recovery_tail:
  assumes "isRecoveryOmissionSuffix b (slice (Suc c) (length entries) entries)"
  shows "Suc c < length entries" and "tailOk entries (Suc c)"
proof -
  have s: "slice (Suc c) (length entries) entries = drop (Suc c) entries" by (simp add: slice_def)
  show "Suc c < length entries"
    using assms unfolding isRecoveryOmissionSuffix_def s by (cases "Suc c < length entries") auto
  have "\<not> isProjectedCompaction (entries ! i) \<and> (\<not> isIntrinsicallyVisible (entries ! i) \<or> pe_messages (entries ! i) = [])"
    if "Suc c \<le> i" "i < length entries" for i
  proof -
    have "drop (Suc c) entries ! (i - Suc c) = entries ! i" using that by simp
    with that assms show ?thesis
      unfolding isRecoveryOmissionSuffix_def s list_all_length isOmitted_def
      by (auto dest!: spec [of _ "i - Suc c"])
  qed
  then show "tailOk entries (Suc c)" by (simp add: tailOk_def)
qed

lemma backOver_at_boundary:
  "boundary (entries ! c) \<Longrightarrow> backOver boundary entries start (Suc c) = Suc c"
  by simp

lemma findProjectedCutPoint_spec:
  fixes entries start keep
  defines "cp \<equiv> findProjectedCutPoint entries start (length entries) keep"
  assumes cps: "cutPointsOf projectedCutable entries start (length entries) \<noteq> []"
  shows "start \<le> cp_firstKeptEntryIndex cp" "cp_firstKeptEntryIndex cp < length entries"
    and "tailOk entries (cp_firstKeptEntryIndex cp)"
    and "cp_isSplitTurn cp \<Longrightarrow> \<exists>t. cp_turnStartIndex cp = Some t \<and> start \<le> t \<and> t \<le> cp_firstKeptEntryIndex cp"
proof -
  define c where "c = projected_scan.chosenCut entries start (length entries) keep"
  note c = projected_scan.chosenCut_mem [OF cps, of keep, folded c_def]
  let ?b = "isRecoveryOmissionSuffix (budgetCut projectedTokens entries
      (cutPointsOf projectedCutable entries start (length entries)) keep start (length entries - start) 0 \<noteq> None)
      (slice (Suc c) (length entries) entries)"
  define r where "r = backOver projectedBoundary entries start (if ?b then Suc c else c)"
  have cp: "cp = cutAt isProjectedTurnStart entries start r"
    using cps unfolding cp_def findProjectedCutPoint_def r_def c_def projected_scan.chosenCut_def
    by (simp only: Let_def if_False)
  have r: "start \<le> r \<and> r < length entries \<and> tailOk entries r"
  proof (cases ?b)
    case True
    have "r = Suc c"
      using True backOver_at_boundary [of projectedBoundary entries c start, OF projected_scan.cutable_boundary [OF c(3)]] unfolding r_def by (simp only: if_True)
    with recovery_tail [OF True] c show ?thesis by simp
  next
    case False
    then have "r = backOver projectedBoundary entries start c" unfolding r_def by (simp only: if_False)
    from projected_scan.tail_starts_at_cut [OF cps this [unfolded c_def]] show ?thesis
      unfolding tailOk_def by auto
  qed
  show "start \<le> cp_firstKeptEntryIndex cp" "cp_firstKeptEntryIndex cp < length entries"
    "tailOk entries (cp_firstKeptEntryIndex cp)"
    using r by (simp_all add: cp cutAt_def Let_def)
  show "\<exists>t. cp_turnStartIndex cp = Some t \<and> start \<le> t \<and> t \<le> cp_firstKeptEntryIndex cp" if "cp_isSplitTurn cp"
    using that by (auto simp: cp cutAt_def Let_def dest: turnStartBelow_Some split: if_splits)
qed

lemma findProjectedCutPoint_noCut:
  "cutPointsOf projectedCutable entries start stop = [] \<Longrightarrow>
   findProjectedCutPoint entries start stop keep = noCut start"
  by (simp add: findProjectedCutPoint_def)

section \<open>Preparation splits the conversation\<close>

abbreviation conversationOf :: "projected_entry list \<Rightarrow> agent_message list" where
  "conversationOf pes \<equiv> concat (map getMessagesFromProjectedEntryForCompaction pes)"

text \<open>Only the first projected entry may be a compaction with messages.\<close>

definition headCompaction :: "projected_entry list \<Rightarrow> bool" where
  "headCompaction pes \<longleftrightarrow> list_all (\<lambda>pe. \<not> isProjectedCompaction pe \<or> pe_messages pe = []) (tl pes)"

lemma headCompaction_projectEntries: "headCompaction (projectEntries changes es)"
  by (cases es) (auto simp: headCompaction_def list_all_iff projectOne_def)

lemma boundary_conversation:
  assumes "headCompaction pes"
    and "findIndex (\<lambda>pe. isProjectedCompaction pe \<and> pe_messages pe \<noteq> []) pes = Some i"
  shows "i = 0" and "conversationOf (take (Suc i) pes) = []"
proof -
  note i = findIndex_Some [OF assms(2)]
  show "i = 0"
  proof (rule ccontr)
    assume "i \<noteq> 0"
    then have "pes ! i \<in> set (tl pes)" using i by (cases pes) (auto simp: nth_Cons split: nat.splits)
    with assms(1) i show False by (auto simp: headCompaction_def list_all_iff)
  qed
  then show "conversationOf (take (Suc i) pes) = []"
    using i by (cases pes) (simp_all add: getMessagesFromProjectedEntryForCompaction_def)
qed

lemma prepareProjected_partition:
  assumes prep: "prepareProjected proj path st session = Some p"
    and head: "headCompaction (sp_entries proj)"
  shows "\<exists>n. 0 < n \<and> n < length (sp_entries proj) \<and> tailOk (sp_entries proj) n \<and>
             prep_firstKeptEntryId p = e_id (pe_source (sp_entries proj ! n)) \<and>
             conversationOf (take n (sp_entries proj)) = prep_messagesToSummarize p @ prep_turnPrefixMessages p"
proof -
  let ?pes = "sp_entries proj"
  define prev where "prev = findIndex (\<lambda>pe. isProjectedCompaction pe \<and> pe_messages pe \<noteq> []) ?pes"
  define b where "b = (case prev of None \<Rightarrow> 0 | Some i \<Rightarrow> Suc i)"
  define cp where "cp = findProjectedCutPoint ?pes b (length ?pes) (cst_keepRecentTokens st)"
  define n where "n = cp_firstKeptEntryIndex cp"
  define h where "h = (if cp_isSplitTurn cp then the (cp_turnStartIndex cp) else n)"
  have p: "prep_firstKeptEntryId p = e_id (pe_source (?pes ! n))"
    "prep_messagesToSummarize p = conversationOf (slice b h ?pes)"
    "prep_turnPrefixMessages p = (if cp_isSplitTurn cp then conversationOf (slice h n ?pes) else [])"
    "\<not> (prep_messagesToSummarize p = [] \<and> prep_turnPrefixMessages p = [])"
    using prep
    by (auto simp: prepareProjected_def Let_def prev_def b_def cp_def n_def h_def split: if_splits)
  have cps: "cutPointsOf projectedCutable ?pes b (length ?pes) \<noteq> []"
  proof
    assume "cutPointsOf projectedCutable ?pes b (length ?pes) = []"
    then have "cp = noCut b" by (simp add: cp_def findProjectedCutPoint_noCut)
    then have "h = b" and "\<not> cp_isSplitTurn cp" by (simp_all add: h_def n_def noCut_def)
    with p(2,3,4) show False by (simp add: slice_def)
  qed
  note spec = findProjectedCutPoint_spec [OF cps, of "cst_keepRecentTokens st", folded cp_def, folded n_def]
  have h: "b \<le> h" "h \<le> n" using spec(1,4) by (auto simp: h_def)
  have all: "prep_messagesToSummarize p @ prep_turnPrefixMessages p = conversationOf (slice b n ?pes)"
  proof (cases "cp_isSplitTurn cp")
    case True
    then show ?thesis using slice_append [OF h, of ?pes] p(2,3) by (simp flip: concat_append map_append)
  next
    case False
    then show ?thesis using p(2,3) by (simp add: h_def)
  qed
  have "conversationOf (take b ?pes) = []"
    using boundary_conversation [OF head] by (cases prev) (auto simp: b_def prev_def)
  moreover have "take n ?pes = take b ?pes @ slice b n ?pes"
    unfolding slice_def by (metis spec(1) le_add_diff_inverse take_add)
  ultimately have "conversationOf (take n ?pes) = prep_messagesToSummarize p @ prep_turnPrefixMessages p"
    by (simp add: all)
  moreover from this p(4) have "0 < n" by (cases n) auto
  ultimately show ?thesis using p(1) spec(2,3) by blast
qed

section \<open>The kept tail never starts with a tool result\<close>

lemma projectContextEntry_single:
  assumes "\<not> isCompaction e"
  shows "length (projectContextEntry e change) \<le> 1"
  using assms
  by (auto simp: projectContextEntry_def sessionEntryToContextMessages_def isCompaction_def Let_def
      split: option.splits entry_data.splits if_splits)

lemma invisible_not_toolResult:
  assumes "sessionEntryToContextMessages e = []" and "\<not> isCompaction e" and "m \<in> set (projectContextEntry e change)"
  shows "\<not> isToolResult m"
  using assms
  by (auto simp: projectContextEntry_def contextSummary_def isCompaction_def Let_def
      split: option.splits entry_data.splits if_splits)

lemma not_intrinsically_visible:
  "\<not> isIntrinsicallyVisible pe \<Longrightarrow> sessionEntryToContextMessages (pe_source pe) = []"
  by (auto simp: isIntrinsicallyVisible_def sessionEntryToContextMessages_def split: entry_data.splits)

lemma cut_not_toolResult: "isCutPointMessage m \<Longrightarrow> \<not> isToolResult m"
  by (cases m) auto

definition startsWithToolResult :: "agent_message list \<Rightarrow> bool" where
  "startsWithToolResult ms = (case ms of [] \<Rightarrow> False | m # _ \<Rightarrow> isToolResult m)"

lemma tail_entry:
  assumes "pes = projectEntries changes es" and "0 < i" and "i < length pes" and "\<not> isProjectedCompaction (pes ! i)"
  shows "pe_messages (pes ! i) = projectContextEntry (pe_source (pes ! i)) (map_of changes (e_id (pe_source (pes ! i))))"
  using assms by (cases es; cases i) (auto simp: projectOne_def nth_Cons split: if_splits)

lemma tail_no_toolResult:
  assumes pes: "pes = projectEntries changes es" and "0 < n" and "tailOk pes n"
  shows "\<not> startsWithToolResult (concat (map pe_messages (drop n pes)))"
  using assms(3) unfolding tailOk_def
proof (elim disjE exE conjE)
  fix c assume c: "n \<le> c" "c < length pes" "projectedCutable (pes ! c)"
    and before: "\<forall>i. n \<le> i \<and> i < c \<longrightarrow> \<not> projectedBoundary (pes ! i)"
  have "drop n pes = slice n c pes @ pes ! c # drop (Suc c) pes"
    using c(1,2) by (metis Cons_nth_drop_Suc append_take_drop_id drop_drop le_add_diff_inverse2 slice_def)
  moreover have "concat (map pe_messages (slice n c pes)) = []"
    using before c(2) by (auto simp: slice_def in_set_conv_nth projectedBoundary_def)
  moreover obtain m where "pe_messages (pes ! c) = [m]" "isCutPointMessage m"
  proof -
    have nc: "\<not> isProjectedCompaction (pes ! c)" and ex: "list_ex isCutPointMessage (pe_messages (pes ! c))"
      using c(3) by (simp_all add: projectedCutable_def)
    have "length (pe_messages (pes ! c)) \<le> 1"
      using tail_entry [OF pes _ c(2) nc] projectContextEntry_single [OF nc] assms(2) c(1) by simp
    with ex that show thesis by (cases "pe_messages (pes ! c)") auto
  qed
  ultimately have "concat (map pe_messages (drop n pes)) = m # concat (map pe_messages (drop (Suc c) pes))"
    and "isCutPointMessage m"
    by (simp_all only: map_append concat_append list.map concat.simps append_Nil append_Cons)
  then show ?thesis by (simp add: startsWithToolResult_def cut_not_toolResult)
next
  assume all: "\<forall>i. n \<le> i \<and> i < length pes \<longrightarrow> \<not> isProjectedCompaction (pes ! i) \<and>
      (\<not> isIntrinsicallyVisible (pes ! i) \<or> pe_messages (pes ! i) = [])"
  have "\<not> isToolResult m" if m: "m \<in> set (concat (map pe_messages (drop n pes)))" for m
  proof -
    from m obtain i where i: "n \<le> i" "i < length pes" and mi: "m \<in> set (pe_messages (pes ! i))"
      by (auto simp: in_set_conv_nth) (metis add.commute le_add1 less_diff_conv nth_mem)
    with all have nc: "\<not> isProjectedCompaction (pes ! i)" and "\<not> isIntrinsicallyVisible (pes ! i)" by auto
    then show ?thesis
      using invisible_not_toolResult [OF not_intrinsically_visible] tail_entry [OF pes _ i(2) nc] assms(2) i(1) mi
      by fastforce
  qed
  then show ?thesis unfolding startsWithToolResult_def
    by (cases "concat (map pe_messages (drop n pes))") (metis list.set_intros(1) list.case)+
qed

end
