(* ===== verification/Js_Regexp.thy ===== *)
theory Js_Regexp
  imports Prelude
begin

text \<open>
  The fragment of JavaScript regular expressions the sources test error messages with: literals,
  \<open>.\<close>, character classes, grouping, alternation, \<open>?\<close>, \<open>*\<close>, \<open>+\<close>, an anchor at the start, and the flag \<open>i\<close>.
  Matching is by derivatives; \<open>test_iff\<close> relates it to the language of an expression.
\<close>

datatype rx =
    Eps
  | Nope
  | Lit char
  | OneOf "char list"
  | Dot
  | Seq rx rx
  | Alt rx rx
  | Star rx

datatype pattern = Anchored rx | Anywhere rx

definition lowerChar :: "char \<Rightarrow> char" where
  "lowerChar c = (let n = (of_char c :: nat) in if 65 \<le> n \<and> n \<le> 90 then char_of (n + 32) else c)"

definition charMatches :: "char \<Rightarrow> char \<Rightarrow> bool" where
  "charMatches a c \<longleftrightarrow> lowerChar a = lowerChar c"

definition lineTerminator :: "char \<Rightarrow> bool" where
  "lineTerminator c \<longleftrightarrow> (of_char c :: nat) \<in> {10, 13}"

fun nullable :: "rx \<Rightarrow> bool" where
  "nullable Eps = True"
| "nullable Nope = False"
| "nullable (Lit _) = False"
| "nullable (OneOf _) = False"
| "nullable Dot = False"
| "nullable (Seq r s) = (nullable r \<and> nullable s)"
| "nullable (Alt r s) = (nullable r \<or> nullable s)"
| "nullable (Star _) = True"

fun deriv :: "char \<Rightarrow> rx \<Rightarrow> rx" where
  "deriv c Eps = Nope"
| "deriv c Nope = Nope"
| "deriv c (Lit a) = (if charMatches a c then Eps else Nope)"
| "deriv c (OneOf as) = (if list_ex (\<lambda>a. charMatches a c) as then Eps else Nope)"
| "deriv c Dot = (if lineTerminator c then Nope else Eps)"
| "deriv c (Seq r s) =
     (if nullable r then Alt (Seq (deriv c r) s) (deriv c s) else Seq (deriv c r) s)"
| "deriv c (Alt r s) = Alt (deriv c r) (deriv c s)"
| "deriv c (Star r) = Seq (deriv c r) (Star r)"

text \<open>Some prefix of the text matches.\<close>

fun prefixMatch :: "rx \<Rightarrow> string \<Rightarrow> bool" where
  "prefixMatch r [] = nullable r"
| "prefixMatch r (c # cs) = (nullable r \<or> prefixMatch (deriv c r) cs)"

fun searchMatch :: "rx \<Rightarrow> string \<Rightarrow> bool" where
  "searchMatch r [] = prefixMatch r []"
| "searchMatch r (c # cs) = (prefixMatch r (c # cs) \<or> searchMatch r cs)"

text \<open>\<open>RegExp.prototype.test\<close>\<close>

fun rxTest :: "pattern \<Rightarrow> string \<Rightarrow> bool" where
  "rxTest (Anchored r) s = prefixMatch r s"
| "rxTest (Anywhere r) s = searchMatch r s"

section \<open>Building blocks\<close>

fun lit :: "string \<Rightarrow> rx" where
  "lit [] = Eps"
| "lit [c] = Lit c"
| "lit (c # cs) = Seq (Lit c) (lit cs)"

definition opt :: "rx \<Rightarrow> rx" where
  "opt r = Alt r Eps"

definition plus :: "rx \<Rightarrow> rx" where
  "plus r = Seq r (Star r)"

definition seqs :: "rx list \<Rightarrow> rx" where
  "seqs rs = foldr Seq rs Eps"

definition alts :: "rx list \<Rightarrow> rx" where
  "alts rs = foldr Alt rs Nope"

definition digit :: rx where
  "digit = OneOf ''0123456789''"

definition space :: rx where
  "space = OneOf [CHR '' '', CHR 0x09, CHR 0x0A, CHR 0x0B, CHR 0x0C, CHR 0x0D, CHR 0xA0]"

section \<open>Languages\<close>

inductive matches :: "rx \<Rightarrow> string \<Rightarrow> bool" where
  matches_Eps: "matches Eps []"
| matches_Lit: "charMatches a c \<Longrightarrow> matches (Lit a) [c]"
| matches_OneOf: "a \<in> set as \<Longrightarrow> charMatches a c \<Longrightarrow> matches (OneOf as) [c]"
| matches_Dot: "\<not> lineTerminator c \<Longrightarrow> matches Dot [c]"
| matches_Seq: "matches r xs \<Longrightarrow> matches s ys \<Longrightarrow> matches (Seq r s) (xs @ ys)"
| matches_AltL: "matches r xs \<Longrightarrow> matches (Alt r s) xs"
| matches_AltR: "matches s xs \<Longrightarrow> matches (Alt r s) xs"
| matches_StarN: "matches (Star r) []"
| matches_StarC: "matches r xs \<Longrightarrow> matches (Star r) ys \<Longrightarrow> matches (Star r) (xs @ ys)"

inductive_cases matches_EpsE: "matches Eps xs"
inductive_cases matches_NopeE: "matches Nope xs"
inductive_cases matches_LitE: "matches (Lit a) xs"
inductive_cases matches_OneOfE: "matches (OneOf as) xs"
inductive_cases matches_DotE: "matches Dot xs"
inductive_cases matches_SeqE: "matches (Seq r s) xs"
inductive_cases matches_AltE: "matches (Alt r s) xs"

lemmas matches_elims =
  matches_EpsE matches_NopeE matches_LitE matches_OneOfE matches_DotE matches_SeqE matches_AltE

lemma star_split:
  "matches R w \<Longrightarrow> R = Star r \<Longrightarrow> w = c # xs \<Longrightarrow> \<exists>us vs. xs = us @ vs \<and> matches r (c # us) \<and> matches (Star r) vs"
proof (induction arbitrary: c xs rule: matches.induct)
  case (matches_StarC r' ys zs)
  then show ?case by (cases ys) auto
qed auto

lemma matches_Seq_iff: "matches (Seq r s) w \<longleftrightarrow> (\<exists>xs ys. w = xs @ ys \<and> matches r xs \<and> matches s ys)"
  by (blast intro: matches_Seq elim: matches_SeqE)

lemma matches_Alt_iff: "matches (Alt r s) w \<longleftrightarrow> matches r w \<or> matches s w"
  by (blast intro: matches_AltL matches_AltR elim: matches_AltE)

lemma nullable_iff: "nullable r \<longleftrightarrow> matches r []"
  by (induction r)
     (auto simp: matches_Seq_iff matches_Alt_iff intro: matches_Eps matches_StarN elim: matches_elims)

lemma deriv_iff: "matches (deriv c r) xs \<longleftrightarrow> matches r (c # xs)"
proof (induction r arbitrary: xs)
  case (Seq r s)
  have "matches (Seq r s) (c # xs) \<longleftrightarrow>
      (matches r [] \<and> matches s (c # xs)) \<or> (\<exists>us vs. xs = us @ vs \<and> matches r (c # us) \<and> matches s vs)"
    by (auto simp: matches_Seq_iff Cons_eq_append_conv)
  then show ?case using Seq by (auto simp: nullable_iff matches_Seq_iff matches_Alt_iff)
next
  case (Star r)
  have "matches (Star r) (c # xs) \<longleftrightarrow> (\<exists>us vs. xs = us @ vs \<and> matches r (c # us) \<and> matches (Star r) vs)"
    using star_split [of "Star r" "c # xs" r c xs] matches_StarC [of r "c # _" "_"] by (auto simp flip: append_Cons)
  then show ?case using Star by (simp add: matches_Seq_iff)
qed (auto simp: matches_Alt_iff list_ex_iff intro: matches.intros elim: matches_elims)

lemma prefixMatch_iff: "prefixMatch r s \<longleftrightarrow> (\<exists>xs ys. s = xs @ ys \<and> matches r xs)"
proof (induction s arbitrary: r)
  case (Cons c cs)
  have "(\<exists>xs ys. c # cs = xs @ ys \<and> matches r xs) \<longleftrightarrow>
      matches r [] \<or> (\<exists>xs ys. cs = xs @ ys \<and> matches r (c # xs))"
    by (auto simp: Cons_eq_append_conv)
  then show ?case using Cons by (simp add: nullable_iff deriv_iff)
qed (simp add: nullable_iff)

lemma searchMatch_iff: "searchMatch r s \<longleftrightarrow> (\<exists>pre xs ys. s = pre @ xs @ ys \<and> matches r xs)"
proof (induction s)
  case (Cons c cs)
  have "(\<exists>pre xs ys. c # cs = pre @ xs @ ys \<and> matches r xs) \<longleftrightarrow>
      (\<exists>xs ys. c # cs = xs @ ys \<and> matches r xs) \<or> (\<exists>pre xs ys. cs = pre @ xs @ ys \<and> matches r xs)"
    by (auto simp: Cons_eq_append_conv) blast
  then show ?case using Cons prefixMatch_iff [of r "c # cs"] by simp
qed (auto simp: nullable_iff)

lemma matches_lit: "matches (lit s) s"
proof (induction s rule: lit.induct)
  case (3 c d ds)
  then show ?case using matches_Seq [OF matches_Lit, of c c "lit (d # ds)" "d # ds"] by (simp add: charMatches_def)
qed (auto simp: charMatches_def intro: matches.intros)

text \<open>A text that contains a literal matches it anywhere.\<close>

lemma rxTest_lit: "rxTest (Anywhere (lit s)) (pre @ s @ post)"
  using matches_lit [of s] by (auto simp: searchMatch_iff)

lemma matches_alts: "matches (alts rs) w \<longleftrightarrow> (\<exists>r \<in> set rs. matches r w)"
proof (induction rs)
  case Nil
  then show ?case by (auto simp: alts_def elim: matches_NopeE)
next
  case (Cons r rs)
  then show ?case by (simp add: alts_def matches_Alt_iff)
qed

end
