(* ===== verification/Retry.thy ===== *)
theory Retry
  imports Js_Regexp Messages
begin

text \<open>
  Classification of failed responses and the bounded retry loop: \<open>packages/ai/src/utils/retry.ts\<close> and
  \<open>overflow.ts\<close>. The call that produces a response, the sleep between attempts and their effect on the
  world \<open>'w\<close> are parameters; the callbacks are the events of a trace. A sleep reports whether it was
  aborted.
\<close>

section \<open>Error patterns\<close>

definition buildProviderErrorPattern :: "rx list \<Rightarrow> pattern" where
  "buildProviderErrorPattern patterns = Anywhere (alts patterns)"

text \<open>\<open>a.?b\<close>\<close>

definition gap :: "string \<Rightarrow> string \<Rightarrow> rx" where
  "gap a b = seqs [lit a, opt Dot, lit b]"

definition NON_RETRYABLE_PROVIDER_LIMIT_ERROR_PATTERN :: pattern where
  "NON_RETRYABLE_PROVIDER_LIMIT_ERROR_PATTERN = buildProviderErrorPattern (map lit
     [''GoUsageLimitError'', ''FreeUsageLimitError'', ''Monthly usage limit reached'', ''available balance'',
      ''insufficient_quota'', ''out of budget'', ''quota exceeded'', ''billing''])"

definition RETRYABLE_PROVIDER_ERROR_PATTERN :: pattern where
  "RETRYABLE_PROVIDER_ERROR_PATTERN = buildProviderErrorPattern
     [lit ''overloaded'', lit ''currently experiencing high demand'', gap ''rate'' ''limit'',
      lit ''too many requests'', lit ''429'', lit ''500'', lit ''502'', lit ''503'', lit ''504'', lit ''520'', lit ''524'',
      gap ''service'' ''unavailable'', gap ''server'' ''error'', gap ''internal'' ''error'',
      seqs [lit ''provider'', opt Dot, lit ''returned'', opt Dot, lit ''error''],
      lit ''exceeded request buffer limit while retrying upstream'',
      gap ''network'' ''error'', gap ''connection'' ''error'', gap ''connection'' ''refused'', gap ''connection'' ''lost'',
      lit ''other side closed'', lit ''fetch failed'', lit ''getaddrinfo'', lit ''ENOTFOUND'', lit ''EAI_AGAIN'',
      gap ''upstream'' ''connect'', lit ''reset before headers'', lit ''socket hang up'',
      lit ''socket connection was closed'', seqs [lit ''time'', opt (lit ''d''), lit '' out''], lit ''timeout'',
      lit ''terminated'', gap ''websocket'' ''closed'', gap ''websocket'' ''error'', lit ''ended without'',
      lit ''stream ended before message_stop'', lit ''stream ended before a terminal response event'',
      lit ''http2 request did not get a response'', lit ''retry delay'', lit ''you can retry your request'',
      lit ''try your request again'', lit ''please retry your request'', lit ''ResourceExhausted'']"

definition isRetryableAssistantError :: "assistant_message \<Rightarrow> bool" where
  "isRetryableAssistantError m =
     (case am_errorMessage m of
        None \<Rightarrow> False
      | Some e \<Rightarrow>
          am_stopReason m = StopError \<and> e \<noteq> [] \<and>
          \<not> rxTest NON_RETRYABLE_PROVIDER_LIMIT_ERROR_PATTERN e \<and>
          rxTest RETRYABLE_PROVIDER_ERROR_PATTERN e)"

section \<open>Context overflow\<close>

definition digitsComma :: rx where
  "digitsComma = plus (OneOf ''0123456789,'')"

definition tokensWord :: rx where
  "tokensWord = seqs [lit '' token'', opt (lit ''s'')]"

definition digits :: rx where
  "digits = plus digit"

definition OVERFLOW_PATTERNS :: "pattern list" where
  "OVERFLOW_PATTERNS = map Anywhere
     [seqs [lit ''prompt '', opt (lit ''is ''), lit ''too long''],
      lit ''request_too_large'',
      lit ''input is too long for requested model'',
      lit ''exceeds the context window'',
      seqs [lit ''exceeds '', opt (lit ''the ''), opt (seqs [lit ''model'', opt (Lit (CHR 0x27)), lit ''s '']),
            lit ''maximum context length'',
            Alt (seqs [lit '' of '', digitsComma, tokensWord])
                (seqs [Star space, lit ''('', digitsComma, lit '')''])],
      seqs [lit ''input token count'', Star Dot, lit ''exceeds the maximum''],
      seqs [lit ''maximum prompt length is '', digits],
      lit ''reduce the length of the messages'',
      seqs [lit ''maximum context length is '', digits, lit '' tokens''],
      seqs [lit ''exceeds '', opt (lit ''the ''), lit ''maximum allowed input length of '', digitsComma, tokensWord],
      seqs [lit ''input ('', digits, lit '' tokens) is longer than the model'', opt (Lit (CHR 0x27)),
            lit ''s context length ('', digits, lit '' tokens)''],
      seqs [lit ''exceeds the limit of '', digits],
      lit ''exceeds the available context size'',
      lit ''greater than the context length'',
      lit ''context window exceeds limit'',
      lit ''exceeded model token limit'',
      seqs [lit ''too large for model with '', digits, lit '' maximum context length''],
      seqs [lit ''prompt has '', digitsComma, tokensWord, lit '', but the configured context size is '', digitsComma, tokensWord],
      lit ''model_context_window_exceeded'',
      seqs [lit ''prompt too long; exceeded '', opt (lit ''max ''), lit ''context length''],
      lit ''range of input length should be'',
      seqs [lit ''context'', OneOf ''_ '', lit ''length'', OneOf ''_ '', lit ''exceeded''],
      lit ''too many tokens'',
      lit ''token limit exceeded'']"

definition CEREBRAS_BODYLESS_OVERFLOW_PATTERN :: pattern where
  "CEREBRAS_BODYLESS_OVERFLOW_PATTERN =
     Anchored (seqs [lit ''4'', Alt (lit ''00'') (lit ''13''), Star space, opt (lit ''status code''), Star space, lit ''(no body)''])"

definition NON_OVERFLOW_PATTERNS :: "pattern list" where
  "NON_OVERFLOW_PATTERNS =
     [Anchored (seqs [Alt (lit ''Throttling error'') (lit ''Service unavailable''), lit '':'']),
      Anywhere (lit ''rate limit''), Anywhere (lit ''too many requests'')]"

definition errorOverflow :: "assistant_message \<Rightarrow> bool" where
  "errorOverflow m =
     (case am_errorMessage m of
        None \<Rightarrow> False
      | Some e \<Rightarrow>
          am_stopReason m = StopError \<and> e \<noteq> [] \<and> \<not> list_ex (\<lambda>p. rxTest p e) NON_OVERFLOW_PATTERNS \<and>
          (list_ex (\<lambda>p. rxTest p e) OVERFLOW_PATTERNS \<or>
           (am_provider m = ''cerebras'' \<and> rxTest CEREBRAS_BODYLESS_OVERFLOW_PATTERN e)))"

text \<open>
  \<open>contextWindow\<close> absent and zero are both falsy. The second and third case read \<open>usage\<close> without a check.
\<close>

definition isContextOverflow :: "assistant_message \<Rightarrow> nat option \<Rightarrow> bool js_result" where
  "isContextOverflow m contextWindow =
     (if errorOverflow m then Inr True
      else case contextWindow of
             None \<Rightarrow> Inr False
           | Some window \<Rightarrow>
               if window = 0 \<or> (am_stopReason m \<noteq> Stop \<and> am_stopReason m \<noteq> Length) then Inr False
               else case am_usage m of
                      None \<Rightarrow> Inl TypeError
                    | Some u \<Rightarrow>
                        (let inputTokens = u_input u + u_cacheRead u
                         in if am_stopReason m = Stop then Inr (window < inputTokens)
                            else Inr (u_output u = 0 \<and> 99 * window \<le> 100 * inputTokens)))"

definition isRecoverableLength :: "assistant_message \<Rightarrow> int \<Rightarrow> bool js_result" where
  "isRecoverableLength m desiredMaxOutput =
     (if am_stopReason m = Length \<and> 0 < desiredMaxOutput
      then (case am_usage m of None \<Rightarrow> Inl TypeError | Some u \<Rightarrow> Inr (int (u_output u) < desiredMaxOutput))
      else Inr False)"

section \<open>Backoff\<close>

record retry_policy =
  rp_enabled :: bool
  rp_maxRetries :: nat
  rp_baseDelayMs :: nat
  rp_maxAgentDelayMs :: "nat option"

definition DEFAULT_MAX_AGENT_RETRY_DELAY_MS :: nat where
  "DEFAULT_MAX_AGENT_RETRY_DELAY_MS = 60000"

definition MAX_SAFE_INTEGER :: nat where
  "MAX_SAFE_INTEGER = 2 ^ 53 - 1"

definition retryDelayMs :: "retry_policy \<Rightarrow> nat \<Rightarrow> nat" where
  "retryDelayMs policy attempt =
     (let delay = rp_baseDelayMs policy * 2 ^ (attempt - 1);
          safeDelay = (if delay \<le> MAX_SAFE_INTEGER then delay else MAX_SAFE_INTEGER)
      in min safeDelay (case rp_maxAgentDelayMs policy of Some d \<Rightarrow> d | None \<Rightarrow> DEFAULT_MAX_AGENT_RETRY_DELAY_MS))"

section \<open>The retry loop\<close>

datatype retry_event =
    RetryScheduled nat nat nat string \<comment> \<open>attempt, maxAttempts, delayMs, errorMessage\<close>
  | RetryAttemptStart
  | RetryFinished bool nat "string option" \<comment> \<open>success, attempt, finalError\<close>

record 'w retry_env =
  re_produce :: "'w \<Rightarrow> assistant_message js_result \<times> 'w"
  re_sleep :: "nat \<Rightarrow> 'w \<Rightarrow> bool \<times> 'w" \<comment> \<open>whether the sleep was aborted\<close>

definition maxAttemptsOf :: "retry_policy option \<Rightarrow> nat" where
  "maxAttemptsOf policy = (case policy of Some p \<Rightarrow> if rp_enabled p then rp_maxRetries p else 0 | None \<Rightarrow> 0)"

definition delayOf :: "retry_policy option \<Rightarrow> nat \<Rightarrow> nat" where
  "delayOf policy attempt = (case policy of Some p \<Rightarrow> retryDelayMs p attempt | None \<Rightarrow> 0)"

definition retryError :: "assistant_message \<Rightarrow> string" where
  "retryError m =
     (case am_errorMessage m of Some e \<Rightarrow> if e = [] then ''Unknown error'' else e | None \<Rightarrow> ''Unknown error'')"

text \<open>\<open>if (lastRetry) await callbacks.onRetryFinished(\<dots>)\<close>; \<open>lastRetry.attempt\<close> is the loop's \<open>attempt\<close>.\<close>

definition finishEvents :: "nat \<Rightarrow> bool \<Rightarrow> string option \<Rightarrow> retry_event list" where
  "finishEvents attempt success finalError = (if attempt = 0 then [] else [RetryFinished success attempt finalError])"

text \<open>The loop from \<open>attempt\<close> on, with \<open>left = maxAttempts - attempt\<close> retries left.\<close>

fun retryLoop ::
  "'w retry_env \<Rightarrow> retry_policy option \<Rightarrow> nat \<Rightarrow> nat \<Rightarrow> 'w \<Rightarrow> assistant_message js_result \<times> retry_event list \<times> 'w" where
  "retryLoop env policy attempt left w =
     (let (r, w) = re_produce env w in
      case r of
        Inl e \<Rightarrow> (Inl e, [], w)
      | Inr response \<Rightarrow>
          if am_stopReason response = StopAborted
          then (Inr response, finishEvents attempt False None, w)
          else if am_stopReason response \<noteq> StopError
          then (Inr response, finishEvents attempt True None, w)
          else case left of
                 0 \<Rightarrow> (Inr response, finishEvents attempt False (am_errorMessage response), w)
               | Suc left' \<Rightarrow>
                   if \<not> isRetryableAssistantError response
                   then (Inr response, finishEvents attempt False (am_errorMessage response), w)
                   else let attempt' = Suc attempt;
                            delay = delayOf policy attempt';
                            scheduled = RetryScheduled attempt' (attempt + left) delay (retryError response);
                            (aborted, w) = re_sleep env delay w
                        in if aborted
                           then (Inr (response\<lparr>am_errorMessage := None, am_stopReason := StopAborted\<rparr>),
                                 [scheduled, RetryFinished False attempt' (Some (retryError response))], w)
                           else let (r', events, w) = retryLoop env policy attempt' left' w
                                in (r', [scheduled, RetryAttemptStart] @ events, w))"

declare retryLoop.simps [simp del]

definition retryAssistantCall ::
  "'w retry_env \<Rightarrow> retry_policy option \<Rightarrow> 'w \<Rightarrow> assistant_message js_result \<times> retry_event list \<times> 'w" where
  "retryAssistantCall env policy w = retryLoop env policy 0 (maxAttemptsOf policy) w"

section \<open>What the loop does\<close>

text \<open>The callbacks of a run of failed attempts, each followed by another one.\<close>

fun retriesFrom :: "retry_policy option \<Rightarrow> nat \<Rightarrow> nat \<Rightarrow> string list \<Rightarrow> retry_event list" where
  "retriesFrom policy maxAttempts attempt [] = []"
| "retriesFrom policy maxAttempts attempt (e # es) =
     RetryScheduled (Suc attempt) maxAttempts (delayOf policy (Suc attempt)) e # RetryAttemptStart
     # retriesFrom policy maxAttempts (Suc attempt) es"

definition abortedBackoff :: "retry_policy option \<Rightarrow> nat \<Rightarrow> nat \<Rightarrow> string \<Rightarrow> retry_event list" where
  "abortedBackoff policy maxAttempts attempt e =
     [RetryScheduled attempt maxAttempts (delayOf policy attempt) e, RetryFinished False attempt (Some e)]"

definition retryOutcome ::
  "retry_policy option \<Rightarrow> nat \<Rightarrow> nat \<Rightarrow> nat \<Rightarrow> assistant_message js_result \<Rightarrow> retry_event list \<Rightarrow> bool" where
  "retryOutcome policy maxAttempts attempt left r tail =
     (case r of
        Inl _ \<Rightarrow> tail = []
      | Inr m \<Rightarrow>
          (\<exists>err. tail = finishEvents attempt (am_stopReason m \<noteq> StopError \<and> am_stopReason m \<noteq> StopAborted) err \<and>
                 (am_stopReason m = StopError \<longrightarrow> left = 0 \<or> \<not> isRetryableAssistantError m)) \<or>
          (\<exists>e. 0 < left \<and> am_stopReason m = StopAborted \<and> tail = abortedBackoff policy maxAttempts (Suc attempt) e))"

lemma retryLoop_protocol:
  "retryLoop env policy attempt left w = (r, evs, w') \<Longrightarrow>
   \<exists>errs tail. evs = retriesFrom policy (attempt + left) attempt errs @ tail \<and> length errs \<le> left \<and>
     retryOutcome policy (attempt + left) (attempt + length errs) (left - length errs) r tail"
proof (induction left arbitrary: attempt w r evs w')
  case 0
  then show ?case
    by (intro exI [of _ "[]"] exI [of _ evs], subst (asm) retryLoop.simps)
       (auto simp: retryOutcome_def split: prod.splits sum.splits if_splits)
next
  case (Suc left)
  obtain p w1 where produce: "re_produce env w = (p, w1)" by (cases "re_produce env w")
  show ?case
  proof (cases "\<exists>m. p = Inr m \<and> am_stopReason m = StopError \<and> isRetryableAssistantError m")
    case False
    then show ?thesis
      using Suc.prems produce
      by (intro exI [of _ "[]"] exI [of _ evs], subst (asm) retryLoop.simps)
         (auto simp: retryOutcome_def split: sum.splits if_splits)
  next
    case True
    then obtain m where m: "p = Inr m" "am_stopReason m = StopError" "isRetryableAssistantError m" by blast
    obtain aborted w2 where sleep: "re_sleep env (delayOf policy (Suc attempt)) w1 = (aborted, w2)"
      by (cases "re_sleep env (delayOf policy (Suc attempt)) w1")
    obtain r' evs' w3 where rest: "retryLoop env policy (Suc attempt) left w2 = (r', evs', w3)"
      by (cases "retryLoop env policy (Suc attempt) left w2")
    note run = Suc.prems [unfolded retryLoop.simps [of env policy attempt "Suc left"] produce m(1)]
    show ?thesis
    proof (cases aborted)
      case True
      then show ?thesis using run m sleep
        by (intro exI [of _ "[]"] exI [of _ evs]) (auto simp: retryOutcome_def abortedBackoff_def Let_def)
    next
      case False
      from Suc.IH [OF rest] obtain errs tail where IH:
        "evs' = retriesFrom policy (Suc attempt + left) (Suc attempt) errs @ tail" "length errs \<le> left"
        "retryOutcome policy (Suc attempt + left) (Suc attempt + length errs) (left - length errs) r' tail" by blast
      from False run m sleep rest have "r = r'"
        "evs = RetryScheduled (Suc attempt) (attempt + Suc left) (delayOf policy (Suc attempt)) (retryError m)
                 # RetryAttemptStart # evs'"
        by (simp_all add: Let_def)
      with IH show ?thesis by (intro exI [of _ "retryError m # errs"] exI [of _ tail]) simp
    qed
  qed
qed

lemma retryDelayMs_le:
  "retryDelayMs p n \<le> (case rp_maxAgentDelayMs p of Some d \<Rightarrow> d | None \<Rightarrow> DEFAULT_MAX_AGENT_RETRY_DELAY_MS)"
  "retryDelayMs p n \<le> MAX_SAFE_INTEGER"
  by (auto simp: retryDelayMs_def Let_def min_le_iff_disj)

lemma retryDelayMs_min:
  "retryDelayMs p n = min (rp_baseDelayMs p * 2 ^ (n - 1))
     (min MAX_SAFE_INTEGER (case rp_maxAgentDelayMs p of Some d \<Rightarrow> d | None \<Rightarrow> DEFAULT_MAX_AGENT_RETRY_DELAY_MS))"
proof -
  have "min (if x \<le> M then x else M) c = min x (min M c)" for x M c :: nat by (auto simp: min_def)
  then show ?thesis by (simp only: retryDelayMs_def Let_def)
qed

lemma retryDelayMs_mono: "m \<le> n \<Longrightarrow> retryDelayMs p m \<le> retryDelayMs p n"
  unfolding retryDelayMs_min by (intro min.mono mult_le_mono2 power_increasing order_refl) simp_all


definition failingResponse :: assistant_message where
  "failingResponse = \<lparr>am_content = [], am_api = ''a'', am_provider = ''p'', am_model = ''m'', am_usage = None,
     am_stopReason = StopError, am_errorMessage = Some ''429'', am_timestamp = 0, am_rest = []\<rparr>"

definition flakyEnv :: "nat retry_env" where
  "flakyEnv = \<lparr>re_produce = (\<lambda>n. case n of
      0 \<Rightarrow> (Inr (failingResponse\<lparr>am_stopReason := Stop, am_errorMessage := None\<rparr>), 0)
    | Suc k \<Rightarrow> (Inr failingResponse, k)), re_sleep = (\<lambda>_ n. (False, n))\<rparr>"

definition samplePolicy :: retry_policy where
  "samplePolicy = \<lparr>rp_enabled = True, rp_maxRetries = 3, rp_baseDelayMs = 2000, rp_maxAgentDelayMs = None\<rparr>"

lemma failing_retryable: "isRetryableAssistantError failingResponse"
  by code_simp

lemma flaky_run:
  "retryAssistantCall flakyEnv (Some samplePolicy) 2 =
     (Inr (failingResponse\<lparr>am_stopReason := Stop, am_errorMessage := None\<rparr>),
      [RetryScheduled 1 3 2000 ''429'', RetryAttemptStart, RetryScheduled 2 3 4000 ''429'', RetryAttemptStart,
       RetryFinished True 2 None], 0)"
proof -
  have s: "am_stopReason failingResponse = StopError" "retryError failingResponse = ''429''"
    by (simp_all add: failingResponse_def retryError_def)
  have d: "delayOf (Some samplePolicy) 1 = 2000" "delayOf (Some samplePolicy) 2 = 4000"
    by (simp_all add: delayOf_def retryDelayMs_def samplePolicy_def MAX_SAFE_INTEGER_def DEFAULT_MAX_AGENT_RETRY_DELAY_MS_def)
  have "maxAttemptsOf (Some samplePolicy) = Suc (Suc (Suc 0))" by (simp add: maxAttemptsOf_def samplePolicy_def)
  then show ?thesis
    by (simp add: retryAssistantCall_def retryLoop.simps flakyEnv_def numeral_2_eq_2 numeral_3_eq_3 s failing_retryable
        finishEvents_def d [simplified numeral_2_eq_2 One_nat_def] Let_def)
qed


text \<open>
  The delay before an attempt never exceeds the configured cap (one minute by default) nor the
  safe integers, never decreases from one attempt to the next, and is the base delay doubled once per attempt
  as long as both limits allow it.
\<close>

lemma retryDelayMs_backoff:
  "retryDelayMs p n \<le> (case rp_maxAgentDelayMs p of Some d \<Rightarrow> d | None \<Rightarrow> 60000) \<and>
   retryDelayMs p n \<le> 2 ^ 53 - 1 \<and>
   retryDelayMs p n \<le> retryDelayMs p (n + k) \<and>
   retryDelayMs p n = min (rp_baseDelayMs p * 2 ^ (n - 1))
     (min (2 ^ 53 - 1) (case rp_maxAgentDelayMs p of Some d \<Rightarrow> d | None \<Rightarrow> 60000))"
proof (intro conjI)
  show "retryDelayMs p n \<le> retryDelayMs p (n + k)" by (rule retryDelayMs_mono) simp
  show "retryDelayMs p n = min (rp_baseDelayMs p * 2 ^ (n - 1))
     (min (2 ^ 53 - 1) (case rp_maxAgentDelayMs p of Some d \<Rightarrow> d | None \<Rightarrow> 60000))"
    by (rule retryDelayMs_min [unfolded MAX_SAFE_INTEGER_def DEFAULT_MAX_AGENT_RETRY_DELAY_MS_def])
qed (use retryDelayMs_le [of p n, unfolded MAX_SAFE_INTEGER_def DEFAULT_MAX_AGENT_RETRY_DELAY_MS_def] in simp_all)

end
