(* ===== verification/Summarization.thy ===== *)
theory Summarization
  imports Compaction Retry
begin

text \<open>
  Summarisation requests: the second half of \<open>packages/coding-agent/src/core/compaction/compaction.ts\<close>
  (prompts, request, checks on the response, merging of two summaries) with the system prompt of
  \<open>compaction/utils.ts\<close>. The model call, the retry sleep and their effect on the world are the parameters
  of the record \<open>summarizer\<close>; API keys, headers and abort signals are part of that world.
\<close>

section \<open>Prompts\<close>

definition SUMMARIZATION_SYSTEM_PROMPT :: string where
  "SUMMARIZATION_SYSTEM_PROMPT =
     join newline
      [''You are a context summarization assistant. Your task is to read a conversation between a user and an AI assistant, then produce a structured summary following the exact format specified.'',
       [],
       ''Do NOT continue the conversation. Do NOT respond to any questions in the conversation. ONLY output the structured summary.'']"

definition SUMMARIZATION_PROMPT :: string where
  "SUMMARIZATION_PROMPT =
     join newline
      [''The messages above are a conversation to summarize. Create a structured context checkpoint summary that another LLM will use to continue the work.'',
       [],
       ''Use this EXACT format:'',
       [],
       ''## Goal'',
       ''[What is the user trying to accomplish? Can be multiple items if the session covers different tasks.]'',
       [],
       ''## Constraints & Preferences'',
       ''- [Any constraints, preferences, or requirements mentioned by user]'',
       ''- [Or '' @ [CHR 0x22] @ ''(none)'' @ [CHR 0x22] @ '' if none were mentioned]'',
       [],
       ''## Progress'',
       ''### Done'',
       ''- [x] [Completed tasks/changes]'',
       [],
       ''### In Progress'',
       ''- [ ] [Current work]'',
       [],
       ''### Blocked'',
       ''- [Issues preventing progress, if any]'',
       [],
       ''## Key Decisions'',
       ''- **[Decision]**: [Brief rationale]'',
       [],
       ''## Next Steps'',
       ''1. [Ordered list of what should happen next]'',
       [],
       ''## Critical Context'',
       ''- [Any data, examples, or references needed to continue]'',
       ''- [Or '' @ [CHR 0x22] @ ''(none)'' @ [CHR 0x22] @ '' if not applicable]'',
       [],
       ''Keep each section concise. Preserve exact file paths, function names, and error messages.'']"

definition UPDATE_SUMMARIZATION_INSTRUCTIONS :: string where
  "UPDATE_SUMMARIZATION_INSTRUCTIONS =
     join newline
      [''Update the existing structured summary with new information. RULES:'',
       ''- PRESERVE all existing information from the previous summary'',
       ''- ADD new progress, decisions, and context from the new messages'',
       ''- UPDATE the Progress section: move items from '' @ [CHR 0x22] @ ''In Progress'' @ [CHR 0x22] @ '' to '' @ [CHR 0x22] @ ''Done'' @ [CHR 0x22] @ '' when completed'',
       ''- UPDATE '' @ [CHR 0x22] @ ''Next Steps'' @ [CHR 0x22] @ '' based on what was accomplished'',
       ''- PRESERVE exact file paths, function names, and error messages'',
       ''- If something is no longer relevant, you may remove it'',
       [],
       ''Use this EXACT format:'',
       [],
       ''## Goal'',
       ''[Preserve existing goals, add new ones if the task expanded]'',
       [],
       ''## Constraints & Preferences'',
       ''- [Preserve existing, add new ones discovered]'',
       [],
       ''## Progress'',
       ''### Done'',
       ''- [x] [Include previously done items AND newly completed items]'',
       [],
       ''### In Progress'',
       ''- [ ] [Current work - update based on progress]'',
       [],
       ''### Blocked'',
       ''- [Current blockers - remove if resolved]'',
       [],
       ''## Key Decisions'',
       ''- **[Decision]**: [Brief rationale] (preserve all previous, add new)'',
       [],
       ''## Next Steps'',
       ''1. [Update based on current state]'',
       [],
       ''## Critical Context'',
       ''- [Preserve important context, add new if needed]'',
       [],
       ''Keep each section concise. Preserve exact file paths, function names, and error messages.'']"

definition UPDATE_SUMMARIZATION_PROMPT :: string where
  "UPDATE_SUMMARIZATION_PROMPT =
     join newline
      [''The messages above are NEW conversation messages to incorporate into the existing summary provided in <previous-summary> tags.'',
       [],
       UPDATE_SUMMARIZATION_INSTRUCTIONS]"

definition TURN_PREFIX_SUMMARIZATION_PROMPT :: string where
  "TURN_PREFIX_SUMMARIZATION_PROMPT =
     join newline
      [''The messages above are earlier context from an ongoing conversation. Later messages are stored separately and do not need to be reconstructed.'',
       [],
       ''Create a concise checkpoint of the user's request and the progress shown above. This checkpoint will be placed before the later messages so the conversation can continue with the necessary context.'',
       [],
       ''## Original Request'',
       ''[What did the user ask for?]'',
       [],
       ''## Progress So Far'',
       ''- [Key decisions and work completed in these messages]'',
       [],
       ''## Context Needed to Continue'',
       ''- [Information from these messages needed to understand the later work]'',
       [],
       ''Only summarize information explicitly present above. Do not infer or recreate later messages.'']"

section \<open>Requests\<close>

record model_info =
  mi_reasoning :: bool
  mi_maxTokens :: int
  mi_contextWindow :: int

record summary_request =
  rq_messages :: "agent_message list"
  rq_maxTokens :: int
  rq_reasoning :: "string option"

record 'w summarizer =
  sz_call :: "summary_request \<Rightarrow> 'w \<Rightarrow> assistant_message js_result \<times> 'w"
  sz_sleep :: "nat \<Rightarrow> 'w \<Rightarrow> bool \<times> 'w"
  sz_retry :: "retry_policy option"
  sz_now :: int

definition getSummarizationFailure :: "assistant_message \<Rightarrow> string \<Rightarrow> string option" where
  "getSummarizationFailure response label =
     (if am_stopReason response = StopError then Some (label @ '' failed: '' @ retryError response)
      else if am_stopReason response = Length
      then Some (label @ '' failed: generation hit the token cap and the summary is incomplete'')
      else None)"

definition createSummarizationOptions :: "model_info \<Rightarrow> int \<Rightarrow> string option \<Rightarrow> agent_message list \<Rightarrow> summary_request" where
  "createSummarizationOptions model maxTokens thinkingLevel context =
     \<lparr>rq_messages = context, rq_maxTokens = maxTokens,
      rq_reasoning = (case thinkingLevel of
          Some l \<Rightarrow> if mi_reasoning model \<and> l \<noteq> [] \<and> l \<noteq> ''off'' then Some l else None
        | None \<Rightarrow> None)\<rparr>"

definition completeSummarization ::
  "'w summarizer \<Rightarrow> summary_request \<Rightarrow> 'w \<Rightarrow> assistant_message js_result \<times> 'w" where
  "completeSummarization sz request w =
     (let (r, _, w) = retryAssistantCall \<lparr>re_produce = sz_call sz request, re_sleep = sz_sleep sz\<rparr> (sz_retry sz) w
      in (r, w))"

definition buildSummarizationContext :: "int \<Rightarrow> string \<Rightarrow> agent_message list" where
  "buildSummarizationContext now promptText =
     normalizeContext (Some SUMMARIZATION_SYSTEM_PROMPT) [userText promptText now] None"

definition capTokens :: "model_info \<Rightarrow> int \<Rightarrow> int" where
  "capTokens model n = (if 0 < mi_maxTokens model then min n (mi_maxTokens model) else n)"

text \<open>The checks every summary passes before its text is used.\<close>

definition acceptSummary :: "string \<Rightarrow> string \<Rightarrow> assistant_message \<Rightarrow> (string \<times> usage option) js_result" where
  "acceptSummary label toolError response =
     (case getSummarizationFailure response label of
        Some failure \<Rightarrow> Inl (JsError failure)
      | None \<Rightarrow>
          if toolCallsOf (am_content response) \<noteq> [] then Inl (JsError toolError)
          else Inr (contentText (ContentBlocks (am_content response)), am_usage response))"

definition summaryPrompt :: "string option \<Rightarrow> string option \<Rightarrow> agent_message list \<Rightarrow> string" where
  "summaryPrompt customInstructions previousSummary messages =
     (let previous = (case previousSummary of Some s \<Rightarrow> s | None \<Rightarrow> []);
          custom = (case customInstructions of Some s \<Rightarrow> s | None \<Rightarrow> []);
          base = (if previous \<noteq> [] then UPDATE_SUMMARIZATION_PROMPT else SUMMARIZATION_PROMPT);
          basePrompt = (if custom \<noteq> [] then base @ blankLine @ ''Additional focus: '' @ custom else base)
      in ''<conversation>'' @ newline @ serializeConversation (convertToLlm messages) @ newline
         @ ''</conversation>'' @ blankLine
         @ (if previous \<noteq> []
            then ''<previous-summary>'' @ newline @ previous @ newline @ ''</previous-summary>'' @ blankLine else [])
         @ basePrompt)"

definition generateSummaryWithUsage ::
  "'w summarizer \<Rightarrow> model_info \<Rightarrow> int \<Rightarrow> string option \<Rightarrow> string option \<Rightarrow> string option \<Rightarrow> agent_message list
   \<Rightarrow> 'w \<Rightarrow> (string \<times> usage option) js_result \<times> 'w" where
  "generateSummaryWithUsage sz model reserveTokens customInstructions previousSummary thinkingLevel currentMessages w =
     (let maxTokens = capTokens model (4 * reserveTokens div 5);
          context = buildSummarizationContext (sz_now sz) (summaryPrompt customInstructions previousSummary currentMessages);
          (response, w) = completeSummarization sz (createSummarizationOptions model maxTokens thinkingLevel context) w
      in (js_bind response (acceptSummary ''Summarization'' ''Summarization attempted to call a tool''), w))"

definition turnPrefixPrompt :: "agent_message list \<Rightarrow> string" where
  "turnPrefixPrompt messages =
     ''# Conversation'' @ newline @ serializeConversation (convertToLlm messages) @ blankLine
     @ ''# Instructions'' @ newline @ TURN_PREFIX_SUMMARIZATION_PROMPT"

definition generateTurnPrefixSummary ::
  "'w summarizer \<Rightarrow> model_info \<Rightarrow> int \<Rightarrow> string option \<Rightarrow> agent_message list
   \<Rightarrow> 'w \<Rightarrow> (string \<times> usage option) js_result \<times> 'w" where
  "generateTurnPrefixSummary sz model reserveTokens thinkingLevel messages w =
     (let maxTokens = capTokens model (reserveTokens div 2);
          context = buildSummarizationContext (sz_now sz) (turnPrefixPrompt messages);
          (response, w) = completeSummarization sz (createSummarizationOptions model maxTokens thinkingLevel context) w
      in (js_bind response
            (acceptSummary ''Turn prefix summarization'' ''Turn prefix summarization attempted to call a tool''), w))"

section \<open>Compaction\<close>

definition addOption :: "nat option \<Rightarrow> nat option \<Rightarrow> nat option" where
  "addOption a b =
     (if a = None \<and> b = None then None
      else Some ((case a of Some x \<Rightarrow> x | None \<Rightarrow> 0) + (case b of Some y \<Rightarrow> y | None \<Rightarrow> 0)))"

definition combineUsage :: "usage \<Rightarrow> usage \<Rightarrow> usage" where
  "combineUsage a b =
     \<lparr>u_input = u_input a + u_input b, u_output = u_output a + u_output b,
      u_cacheRead = u_cacheRead a + u_cacheRead b, u_cacheWrite = u_cacheWrite a + u_cacheWrite b,
      u_cacheWrite1h = addOption (u_cacheWrite1h a) (u_cacheWrite1h b),
      u_reasoning = addOption (u_reasoning a) (u_reasoning b),
      u_totalTokens = u_totalTokens a + u_totalTokens b,
      u_cost = \<lparr>co_input = co_input (u_cost a) + co_input (u_cost b),
                co_output = co_output (u_cost a) + co_output (u_cost b),
                co_cacheRead = co_cacheRead (u_cost a) + co_cacheRead (u_cost b),
                co_cacheWrite = co_cacheWrite (u_cost a) + co_cacheWrite (u_cost b),
                co_total = co_total (u_cost a) + co_total (u_cost b)\<rparr>\<rparr>"

record compaction_result =
  cr_summary :: string
  cr_firstKeptEntryId :: string
  cr_tokensBefore :: nat
  cr_usage :: "usage option"
  cr_readFiles :: "string list"
  cr_modifiedFiles :: "string list"

text \<open>
  \<open>historyUsage ? combineUsage(historyUsage, prefix.usage) : prefix.usage\<close>; a second usage that is missing is
  dereferenced and throws.
\<close>

definition mergeUsage :: "usage option \<Rightarrow> usage option \<Rightarrow> usage option js_result" where
  "mergeUsage history turnPrefix =
     (case history of
        None \<Rightarrow> Inr turnPrefix
      | Some h \<Rightarrow> (case turnPrefix of Some p \<Rightarrow> Inr (Some (combineUsage h p)) | None \<Rightarrow> Inl TypeError))"

definition splitTurnSummary :: "string \<Rightarrow> string \<Rightarrow> string" where
  "splitTurnSummary historyText prefixText =
     historyText @ blankLine @ ''---'' @ blankLine @ ''**Turn Context (split turn):**'' @ blankLine @ prefixText"

text \<open>The part of \<open>compact\<close> that calls the model: the summary text and its usage.\<close>

definition generateSummaries ::
  "'w summarizer \<Rightarrow> model_info \<Rightarrow> string option \<Rightarrow> string option \<Rightarrow> compaction_preparation
   \<Rightarrow> 'w \<Rightarrow> (string \<times> usage option) js_result \<times> 'w" where
  "generateSummaries sz model customInstructions thinkingLevel p w =
     (let reserve = cst_reserveTokens (prep_settings p);
          history = generateSummaryWithUsage sz model reserve customInstructions (prep_previousSummary p)
                      thinkingLevel (prep_messagesToSummarize p)
      in if prep_isSplitTurn p \<and> prep_turnPrefixMessages p \<noteq> []
         then let (h, w) =
                    (if prep_messagesToSummarize p \<noteq> [] then history w
                     else (Inr (case prep_previousSummary p of Some s \<Rightarrow> s | None \<Rightarrow> ''No prior history.'', None), w))
              in case h of
                   Inl e \<Rightarrow> (Inl e, w)
                 | Inr (historyText, historyUsage) \<Rightarrow>
                     (let (t, w) = generateTurnPrefixSummary sz model reserve thinkingLevel (prep_turnPrefixMessages p) w
                      in (js_bind t (\<lambda>(prefixText, prefixUsage).
                            js_bind (mergeUsage historyUsage prefixUsage) (\<lambda>u.
                              Inr (splitTurnSummary historyText prefixText, u))), w))
         else history w)"

definition compact ::
  "'w summarizer \<Rightarrow> model_info \<Rightarrow> string option \<Rightarrow> string option \<Rightarrow> compaction_preparation
   \<Rightarrow> 'w \<Rightarrow> compaction_result js_result \<times> 'w" where
  "compact sz model customInstructions thinkingLevel p w =
     (let (s, w) = generateSummaries sz model customInstructions thinkingLevel p w
      in (js_bind s (\<lambda>(summary, use).
            let (readFiles, modifiedFiles) = computeFileLists (prep_fileOps p)
            in if prep_firstKeptEntryId p = []
               then Inl (JsError ''First kept entry has no UUID - session may need migration'')
               else Inr \<lparr>cr_summary = summary @ formatFileOperations readFiles modifiedFiles,
                         cr_firstKeptEntryId = prep_firstKeptEntryId p,
                         cr_tokensBefore = prep_tokensBefore p, cr_usage = use,
                         cr_readFiles = readFiles, cr_modifiedFiles = modifiedFiles\<rparr>), w))"

section \<open>Which files a summary lists\<close>

definition previousDetails :: "projected_entry list \<Rightarrow> string \<Rightarrow> string set" where
  "previousDetails pes key =
     (case findIndex (\<lambda>pe. isProjectedCompaction pe \<and> pe_messages pe \<noteq> []) pes of
        None \<Rightarrow> {}
      | Some i \<Rightarrow>
          (case compactionOf (pe_source (pes ! i)) of
             None \<Rightarrow> {}
           | Some c \<Rightarrow> if ce_fromHook c then {}
                       else (case ce_details c of None \<Rightarrow> {} | Some d \<Rightarrow> set (stringsAt key d))))"

lemma previousFileOps_sets:
  "set (fo_read (previousFileOps c)) = (if ce_fromHook c then {} else case ce_details c of None \<Rightarrow> {} | Some d \<Rightarrow> set (stringsAt ''readFiles'' d))"
  "set (fo_edited (previousFileOps c)) = (if ce_fromHook c then {} else case ce_details c of None \<Rightarrow> {} | Some d \<Rightarrow> set (stringsAt ''modifiedFiles'' d))"
  "set (fo_written (previousFileOps c)) = {}"
  "opsDistinct (previousFileOps c)"
  by (auto simp: previousFileOps_def createFileOps_def opsDistinct_def distinct_fold_setAdd split: option.splits bool.splits)

lemma extractFileOperations_sets:
  fixes pes :: "projected_entry list" and ms
  defines "prev \<equiv> findIndex (\<lambda>pe. isProjectedCompaction pe \<and> pe_messages pe \<noteq> []) pes"
  defines "ops \<equiv> extractFileOperations ms (map pe_source pes) prev"
  shows "set (fo_read ops) = previousDetails pes ''readFiles'' \<union> pathsOf {''read''} (callsOf ms)"
    and "set (fo_written ops) = pathsOf {''write''} (callsOf ms)"
    and "set (fo_edited ops) = previousDetails pes ''modifiedFiles'' \<union> pathsOf {''edit''} (callsOf ms)"
    and "opsDistinct ops"
proof -
  have i: "map pe_source pes ! i = pe_source (pes ! i)" if "prev = Some i" for i
    using findIndex_Some [OF that [unfolded prev_def]] by simp
  show "set (fo_read ops) = previousDetails pes ''readFiles'' \<union> pathsOf {''read''} (callsOf ms)"
    "set (fo_written ops) = pathsOf {''write''} (callsOf ms)"
    "set (fo_edited ops) = previousDetails pes ''modifiedFiles'' \<union> pathsOf {''edit''} (callsOf ms)" "opsDistinct ops"
    using i unfolding ops_def extractFileOperations_def fold_extractFileOps previousDetails_def prev_def [symmetric]
    by (auto simp: fold_recordToolCall_sets createFileOps_def previousFileOps_sets opsDistinct_fold opsDistinct_create [unfolded createFileOps_def]
        split: option.splits if_splits)
qed

lemma fold_extract_append:
  "fold extractFileOpsFromMessage ms' (extractFileOperations ms es prev) = extractFileOperations (ms @ ms') es prev"
  by (simp add: extractFileOperations_def)

lemma prepared_fileOps:
  assumes "prepareProjected proj path st session = Some p"
  shows "prep_fileOps p =
    extractFileOperations (prep_messagesToSummarize p @ prep_turnPrefixMessages p) (map pe_source (sp_entries proj))
      (findIndex (\<lambda>pe. isProjectedCompaction pe \<and> pe_messages pe \<noteq> []) (sp_entries proj))"
  using assms by (auto simp: prepareProjected_def Let_def fold_extract_append split: if_splits)

text \<open>
  Files in a compaction: the lists stored with a compaction are sorted and free of duplicates. A file is
  listed as modified exactly when a \<open>write\<close> or \<open>edit\<close> call of the summarised messages names it or the
  previous compaction lists it as modified; it is listed as read exactly when a \<open>read\<close> call names it or the
  previous compaction lists it as read, and it is not modified.
\<close>

theorem compaction_file_lists:
  assumes "prepareProjected proj path st session = Some p"
    and "computeFileLists (prep_fileOps p) = (readFiles, modifiedFiles)"
  shows "set modifiedFiles = previousDetails (sp_entries proj) ''modifiedFiles'' \<union>
           pathsOf {''write'', ''edit''} (callsOf (prep_messagesToSummarize p @ prep_turnPrefixMessages p)) \<and>
         set readFiles = previousDetails (sp_entries proj) ''readFiles'' \<union>
           pathsOf {''read''} (callsOf (prep_messagesToSummarize p @ prep_turnPrefixMessages p)) - set modifiedFiles \<and>
         sorted readFiles \<and> sorted modifiedFiles \<and> distinct readFiles \<and> distinct modifiedFiles"
proof -
  note ops = extractFileOperations_sets [of "prep_messagesToSummarize p @ prep_turnPrefixMessages p" "sp_entries proj",
      folded prepared_fileOps [OF assms(1)]]
  note lists = computeFileLists_sets [OF assms(2)]
  have "pathsOf {''write'', ''edit''} tcs = pathsOf {''edit''} tcs \<union> pathsOf {''write''} tcs" for tcs
    by (auto simp: pathsOf_def)
  then show ?thesis using lists(1-5) lists(6) [OF ops(4)] ops(1-3) by auto
qed

definition sampleReadCall :: agent_message where
  "sampleReadCall = Assistant \<lparr>am_content = [ToolCallBlock \<lparr>tc_id = ''t'', tc_name = ''edit'',
     tc_arguments = [(''path'', JStr ''a.ts'')], tc_thoughtSignature = None, tc_namespace = None\<rparr>],
     am_api = ''a'', am_provider = ''p'', am_model = ''m'', am_usage = None, am_stopReason = ToolUse,
     am_errorMessage = None, am_timestamp = 0, am_rest = []\<rparr>"

definition sampleProjection :: session_projection where
  "sampleProjection =
     (let entry = (\<lambda>i m. \<lparr>pe_source = \<lparr>e_id = i, e_parentId = None, e_timestamp = 0, e_data = MessageEntry m False\<rparr>,
                          pe_messages = [m]\<rparr>);
          pes = [entry ''a'' sampleReadCall, entry ''b'' (userText ''next'' 0)]
      in \<lparr>sp_entries = pes, sp_messages = concat (map pe_messages pes), sp_thinkingLevel = ''off'', sp_model = None\<rparr>)"

definition keepOne :: compaction_settings where
  "keepOne = \<lparr>cst_enabled = True, cst_reserveTokens = 100, cst_keepRecentTokens = 1\<rparr>"

lemma sampleProjection_prepared:
  "map_option (\<lambda>p. (prep_messagesToSummarize p, prep_turnPrefixMessages p, computeFileLists (prep_fileOps p)))
     (prepareProjected sampleProjection [] keepOne []) = Some ([sampleReadCall], [], ([], [''a.ts'']))"
  by code_simp

theorem compaction_file_lists_witness:
  "\<exists>p. prepareProjected sampleProjection [] keepOne [] = Some p \<and> prep_messagesToSummarize p = [sampleReadCall] \<and>
     set [''a.ts''] = previousDetails (sp_entries sampleProjection) ''modifiedFiles'' \<union>
       pathsOf {''write'', ''edit''} (callsOf [sampleReadCall]) \<and>
     set [] = previousDetails (sp_entries sampleProjection) ''readFiles'' \<union>
       pathsOf {''read''} (callsOf [sampleReadCall]) - set [''a.ts'']"
proof -
  obtain p where p: "prepareProjected sampleProjection [] keepOne [] = Some p" "prep_messagesToSummarize p = [sampleReadCall]"
    "prep_turnPrefixMessages p = []" "computeFileLists (prep_fileOps p) = ([], [''a.ts''])"
    using sampleProjection_prepared by auto
  from compaction_file_lists [OF p(1,4)] show ?thesis using p(1-3) by auto
qed

section \<open>Only complete summaries are used\<close>

definition completeSummary :: "assistant_message \<Rightarrow> bool" where
  "completeSummary m \<longleftrightarrow> am_stopReason m \<noteq> StopError \<and> am_stopReason m \<noteq> Length \<and> toolCallsOf (am_content m) = []"

lemma acceptSummary_Inr:
  "acceptSummary label err m = Inr (t, u) \<longleftrightarrow>
     completeSummary m \<and> t = contentText (ContentBlocks (am_content m)) \<and> u = am_usage m"
  by (auto simp: acceptSummary_def getSummarizationFailure_def completeSummary_def)

lemma acceptSummary_Inl: "acceptSummary label err m = Inl e \<Longrightarrow> \<not> completeSummary m"
  by (auto simp: acceptSummary_def getSummarizationFailure_def completeSummary_def split: if_splits)

text \<open>
  What the model replies, after the automatic retries, to the request for the history of a preparation
  and to the one for the prefix of a split turn.
\<close>

definition historyReply ::
  "'w summarizer \<Rightarrow> model_info \<Rightarrow> string option \<Rightarrow> string option \<Rightarrow> compaction_preparation
   \<Rightarrow> 'w \<Rightarrow> assistant_message js_result \<times> 'w" where
  "historyReply sz model custom think p =
     completeSummarization sz
       (createSummarizationOptions model (capTokens model (4 * cst_reserveTokens (prep_settings p) div 5)) think
          (buildSummarizationContext (sz_now sz)
             (summaryPrompt custom (prep_previousSummary p) (prep_messagesToSummarize p))))"

definition turnReply ::
  "'w summarizer \<Rightarrow> model_info \<Rightarrow> string option \<Rightarrow> compaction_preparation \<Rightarrow> 'w \<Rightarrow> assistant_message js_result \<times> 'w" where
  "turnReply sz model think p =
     completeSummarization sz
       (createSummarizationOptions model (capTokens model (cst_reserveTokens (prep_settings p) div 2)) think
          (buildSummarizationContext (sz_now sz) (turnPrefixPrompt (prep_turnPrefixMessages p))))"

fun usable :: "assistant_message js_result \<Rightarrow> bool" where
  "usable (Inr m) = completeSummary m"
| "usable (Inl e) = False"

definition replyText :: "assistant_message js_result \<Rightarrow> string" where
  "replyText r = contentText (ContentBlocks (am_content (projr r)))"

definition replyUsage :: "assistant_message js_result \<Rightarrow> usage option" where
  "replyUsage r = am_usage (projr r)"

lemma accept_reply:
  "js_bind r (acceptSummary label err) = Inr v \<longleftrightarrow> usable r \<and> v = (replyText r, replyUsage r)"
  "js_bind r (acceptSummary label err) = Inl e \<Longrightarrow> \<not> usable r"
  by (cases r; cases v; force simp: acceptSummary_Inr replyText_def replyUsage_def)
    (cases r; auto dest: acceptSummary_Inl)

lemma generated_replies:
  "generateSummaryWithUsage sz model (cst_reserveTokens (prep_settings p)) custom (prep_previousSummary p) think
     (prep_messagesToSummarize p) w =
   (js_bind (fst (historyReply sz model custom think p w))
      (acceptSummary ''Summarization'' ''Summarization attempted to call a tool''), snd (historyReply sz model custom think p w))"
  "generateTurnPrefixSummary sz model (cst_reserveTokens (prep_settings p)) think (prep_turnPrefixMessages p) w =
   (js_bind (fst (turnReply sz model think p w))
      (acceptSummary ''Turn prefix summarization'' ''Turn prefix summarization attempted to call a tool''),
    snd (turnReply sz model think p w))"
  by (simp_all add: generateSummaryWithUsage_def generateTurnPrefixSummary_def historyReply_def turnReply_def Let_def case_prod_beta)

text \<open>Which parts a preparation asks for, and in which world the second part is asked for.\<close>

definition asksTurn :: "compaction_preparation \<Rightarrow> bool" where
  "asksTurn p \<longleftrightarrow> prep_isSplitTurn p \<and> prep_turnPrefixMessages p \<noteq> []"

definition asksHistory :: "compaction_preparation \<Rightarrow> bool" where
  "asksHistory p \<longleftrightarrow> asksTurn p \<longrightarrow> prep_messagesToSummarize p \<noteq> []"

definition priorHistory :: "compaction_preparation \<Rightarrow> string" where
  "priorHistory p = (case prep_previousSummary p of Some s \<Rightarrow> s | None \<Rightarrow> ''No prior history.'')"

lemma generateSummaries_replies:
  assumes h_def: "h = historyReply sz model custom think p w"
    and t_def: "t = turnReply sz model think p (if asksHistory p then snd h else w)"
  shows "case fst (generateSummaries sz model custom think p w) of
           Inr (text, u) \<Rightarrow>
             (asksHistory p \<longrightarrow> usable (fst h)) \<and> (asksTurn p \<longrightarrow> usable (fst t)) \<and>
             text = (if asksTurn p
                     then splitTurnSummary (if asksHistory p then replyText (fst h) else priorHistory p) (replyText (fst t))
                     else replyText (fst h))
         | Inl e \<Rightarrow>
             asksHistory p \<and> \<not> usable (fst h) \<or>
             asksTurn p \<and> (\<not> usable (fst t) \<or> replyUsage (fst h) \<noteq> None \<and> replyUsage (fst t) = None)"
proof (cases "asksTurn p")
  case False
  then have g: "fst (generateSummaries sz model custom think p w) =
      js_bind (fst h) (acceptSummary ''Summarization'' ''Summarization attempted to call a tool'')"
    by (auto simp: generateSummaries_def generated_replies Let_def h_def asksTurn_def)
  show ?thesis
  proof (cases "js_bind (fst h) (acceptSummary ''Summarization'' ''Summarization attempted to call a tool'')")
    case (Inl e)
    then show ?thesis using False accept_reply(2) [OF Inl] unfolding g by (simp add: asksHistory_def)
  next
    case (Inr v)
    then show ?thesis using False accept_reply(1) [THEN iffD1, OF Inr] unfolding g Inr by (simp add: asksHistory_def)
  qed
next
  case True
  define hr where "hr = (if asksHistory p
    then js_bind (fst h) (acceptSummary ''Summarization'' ''Summarization attempted to call a tool'') else Inr (priorHistory p, None))"
  define tr where "tr = js_bind (fst t) (acceptSummary ''Turn prefix summarization'' ''Turn prefix summarization attempted to call a tool'')"
  have g: "fst (generateSummaries sz model custom think p w) =
      js_bind hr (\<lambda>(historyText, historyUsage). js_bind tr (\<lambda>(prefixText, prefixUsage).
        js_bind (mergeUsage historyUsage prefixUsage) (\<lambda>u. Inr (splitTurnSummary historyText prefixText, u))))"
    using True by (auto simp: generateSummaries_def generated_replies Let_def h_def hr_def tr_def t_def asksTurn_def
        asksHistory_def priorHistory_def case_prod_beta split: sum.split)
  show ?thesis
  proof (cases hr)
    case (Inl e)
    then have "asksHistory p" "\<not> usable (fst h)" using accept_reply(2) by (auto simp: hr_def split: if_splits)
    then show ?thesis using Inl by (simp add: g)
  next
    case (Inr hv)
    obtain ht hu where hv: "hv = (ht, hu)" by force
    have hr: "(asksHistory p \<longrightarrow> usable (fst h)) \<and> ht = (if asksHistory p then replyText (fst h) else priorHistory p) \<and>
        hu = (if asksHistory p then replyUsage (fst h) else None)"
    proof (cases "asksHistory p")
      case True
      then show ?thesis using accept_reply(1) [THEN iffD1, OF Inr [unfolded hr_def hv if_P [OF True]]] by simp
    next
      case False
      then show ?thesis using Inr unfolding hr_def hv by simp
    qed
    show ?thesis
    proof (cases tr)
      case (Inl e)
      then have "\<not> usable (fst t)" using accept_reply(2) by (auto simp: tr_def)
      then show ?thesis using Inl Inr True hv by (simp add: g)
    next
      case tv: (Inr tv)
      have tr: "usable (fst t)" "tv = (replyText (fst t), replyUsage (fst t))"
        using tv unfolding tr_def accept_reply(1) by simp_all
      have "replyUsage (fst h) \<noteq> None \<and> replyUsage (fst t) = None" if "mergeUsage hu (replyUsage (fst t)) = Inl e" for e
        using that hr by (auto simp: mergeUsage_def split: option.splits if_splits)
      then show ?thesis using hr tr True Inr tv hv
        by (cases "mergeUsage hu (replyUsage (fst t))") (simp_all add: g)
    qed
  qed
qed

text \<open>
  C35 (compaction result): a compaction asks the model for a summary of the history (unless a turn is split
  and nothing older is left) and, when a turn is split, for one of its prefix. It succeeds only if every reply
  it asked for, as the automatic retries leave it, is complete: not an error, not cut off by the token limit,
  without a tool call. Its summary is then made of the texts of exactly these replies, in that order, followed by the
  file lists, and it keeps the prepared first kept id and token count. It fails only for one of these reasons, a
  prepared entry without id, or a second reply without usage. An aborted reply is not rejected
  here: the callers test their signal.
\<close>

theorem compact_uses_complete_summaries:
  "let h = historyReply sz model custom think p w;
       t = turnReply sz model think p (if asksHistory p then snd h else w)
   in case fst (compact sz model custom think p w) of
        Inr r \<Rightarrow>
          (asksHistory p \<longrightarrow> usable (fst h)) \<and> (asksTurn p \<longrightarrow> usable (fst t)) \<and>
          cr_summary r =
            (if asksTurn p
             then splitTurnSummary (if asksHistory p then replyText (fst h) else priorHistory p) (replyText (fst t))
             else replyText (fst h)) @ formatFileOperations (cr_readFiles r) (cr_modifiedFiles r) \<and>
          computeFileLists (prep_fileOps p) = (cr_readFiles r, cr_modifiedFiles r) \<and>
          cr_firstKeptEntryId r = prep_firstKeptEntryId p \<and> prep_firstKeptEntryId p \<noteq> [] \<and>
          cr_tokensBefore r = prep_tokensBefore p
      | Inl e \<Rightarrow>
          prep_firstKeptEntryId p = [] \<or> asksHistory p \<and> \<not> usable (fst h) \<or>
          asksTurn p \<and> (\<not> usable (fst t) \<or> replyUsage (fst h) \<noteq> None \<and> replyUsage (fst t) = None)"
proof -
  obtain s w1 where g: "generateSummaries sz model custom think p w = (s, w1)" by force
  obtain rf mf where f: "computeFileLists (prep_fileOps p) = (rf, mf)" by force
  note parts = generateSummaries_replies [OF refl refl, where sz = sz and model = model and custom = custom and think = think and p = p and w = w, unfolded g fst_conv]
  show ?thesis
  proof (cases s)
    case (Inl e)
    then show ?thesis using parts g by (simp add: compact_def Let_def)
  next
    case (Inr v)
    obtain tx u where v: "v = (tx, u)" by force
    show ?thesis
      using parts g f unfolding Inr v Let_def
      by (cases "prep_firstKeptEntryId p = []") (simp_all add: compact_def)
  qed
qed

definition sampleSummarizer :: "unit summarizer" where
  "sampleSummarizer = \<lparr>sz_call = (\<lambda>_ w. (Inr \<lparr>am_content = [plainText ''done''], am_api = ''a'', am_provider = ''p'',
      am_model = ''m'', am_usage = None, am_stopReason = Stop, am_errorMessage = None, am_timestamp = 0, am_rest = []\<rparr>, w)),
     sz_sleep = (\<lambda>_ w. (False, w)), sz_retry = None, sz_now = 0\<rparr>"

definition samplePreparation :: compaction_preparation where
  "samplePreparation = \<lparr>prep_firstKeptEntryId = ''b'', prep_messagesToSummarize = [sampleReadCall],
     prep_turnPrefixMessages = [], prep_isSplitTurn = False, prep_tokensBefore = 7, prep_previousSummary = None,
     prep_fileOps = createFileOps, prep_settings = keepOne\<rparr>"

lemma sampleSummarizer_complete:
  "completeSummarization sampleSummarizer request () =
     (Inr \<lparr>am_content = [plainText ''done''], am_api = ''a'', am_provider = ''p'',
      am_model = ''m'', am_usage = None, am_stopReason = Stop, am_errorMessage = None, am_timestamp = 0, am_rest = []\<rparr>, ())"
  by (simp add: completeSummarization_def sampleSummarizer_def retryAssistantCall_def maxAttemptsOf_def retryLoop.simps)

lemma sample_compact:
  "fst (compact sampleSummarizer \<lparr>mi_reasoning = False, mi_maxTokens = 0, mi_contextWindow = 1000\<rparr> None None samplePreparation ()) =
     Inr \<lparr>cr_summary = ''done'', cr_firstKeptEntryId = ''b'', cr_tokensBefore = 7, cr_usage = None,
          cr_readFiles = [], cr_modifiedFiles = []\<rparr>"
proof -
  have "generateSummaryWithUsage sampleSummarizer model reserve c prev think ms () = (Inr (''done'', None), ())"
    for model reserve c prev think ms
    by (simp add: generateSummaryWithUsage_def sampleSummarizer_complete Let_def acceptSummary_def
        getSummarizationFailure_def List.map_filter_def)
  then show ?thesis
    by (simp add: compact_def generateSummaries_def samplePreparation_def computeFileLists_def createFileOps_def
        formatFileOperations_def)
qed

theorem compact_uses_complete_summaries_witness:
  "let model = \<lparr>mi_reasoning = False, mi_maxTokens = 0, mi_contextWindow = 1000\<rparr>;
       h = fst (historyReply sampleSummarizer model None None samplePreparation ())
   in usable h \<and> ''done'' = replyText h @ formatFileOperations [] []"
proof -
  let ?model = "\<lparr>mi_reasoning = False, mi_maxTokens = 0, mi_contextWindow = 1000\<rparr> :: model_info"
  have a: "\<not> asksTurn samplePreparation" "asksHistory samplePreparation"
    by (simp_all add: asksTurn_def asksHistory_def samplePreparation_def)
  show ?thesis
    using compact_uses_complete_summaries [of sampleSummarizer ?model None None samplePreparation "()"]
    unfolding Let_def sample_compact by (simp add: a)
qed

end
