(* ===== verification/Branch_Summary.thy ===== *)
theory Branch_Summary
  imports Session_Properties Summarization
begin

text \<open>
  Branch summaries, \<open>packages/coding-agent/src/core/compaction/branch-summarization.ts\<close>: which entries a move in the
  session tree leaves behind, how much of them fits the token budget, and the request for their summary. The walk from
  the old leaf may not end on cyclic parent links, hence the option; the model call is the record \<open>summarizer\<close>. The
  product \<open>tokenBudget * 0.9\<close> is exact here.
\<close>

section \<open>Entries\<close>

text \<open>The loop from the old leaf up; the accumulator is already in chronological order.\<close>

partial_function (option) collectUp ::
  "session_manager \<Rightarrow> string option \<Rightarrow> string option \<Rightarrow> session_entry list \<Rightarrow> session_entry list option" where
  "collectUp session commonAncestorId current entries =
     (case current of
        None \<Rightarrow> Some entries
      | Some i \<Rightarrow>
          if i = [] \<or> current = commonAncestorId then Some entries
          else case getEntry i session of
                 None \<Rightarrow> Some entries
               | Some e \<Rightarrow> collectUp session commonAncestorId (e_parentId e) (e # entries))"

definition commonAncestor :: "session_entry list \<Rightarrow> session_entry list \<Rightarrow> string option" where
  "commonAncestor oldBranch targetPath = map_option e_id (findLast (\<lambda>e. e_id e \<in> e_id ` set oldBranch) targetPath)"

definition collectEntriesForBranchSummary ::
  "session_manager \<Rightarrow> string option \<Rightarrow> string \<Rightarrow> (session_entry list \<times> string option) option" where
  "collectEntriesForBranchSummary session oldLeafId targetId =
     (if oldLeafId = None \<or> oldLeafId = Some [] then Some ([], None)
      else do {
        oldBranch \<leftarrow> getBranch oldLeafId session;
        targetPath \<leftarrow> getBranch (Some targetId) session;
        let commonAncestorId = commonAncestor oldBranch targetPath;
        entries \<leftarrow> collectUp session commonAncestorId oldLeafId [];
        Some (entries, commonAncestorId)
      })"

section \<open>Messages within a budget\<close>

definition getMessageFromEntry :: "session_entry \<Rightarrow> agent_message option" where
  "getMessageFromEntry e =
     (case e_data e of
        MessageEntry m _ \<Rightarrow> if isToolResult m then None else Some m
      | CustomMessageEntry ty c details display \<Rightarrow>
          Some (Custom (createCustomMessage ty (case c of None \<Rightarrow> ContentBlocks [] | Some c' \<Rightarrow> c') display details (e_timestamp e)))
      | BranchSummaryEntry fromId summary _ _ _ \<Rightarrow> Some (BranchSummary (createBranchSummaryMessage summary fromId (e_timestamp e)))
      | CompactionEntry c \<Rightarrow> Some (CompactionSummary (createCompactionSummaryMessage (ce_summary c) (ce_tokensBefore c) (e_timestamp e)))
      | _ \<Rightarrow> None)"

text \<open>A message whose content is absent: \<open>estimateTokens\<close> iterates over it and throws.\<close>

fun readsContent :: "agent_message \<Rightarrow> bool" where
  "readsContent (System _) = True"
| "readsContent (User _) = True"
| "readsContent (Assistant _) = True"
| "readsContent (Custom _) = True"
| "readsContent (ContextStatus _) = True"
| "readsContent _ = False"

definition contentMissing :: "session_entry \<Rightarrow> bool" where
  "contentMissing e =
     (case e_data e of
        MessageEntry m contentNull \<Rightarrow> contentNull \<and> readsContent m
      | CustomMessageEntry _ c _ _ \<Rightarrow> c = None
      | _ \<Rightarrow> False)"

definition isSummaryEntry :: "session_entry \<Rightarrow> bool" where
  "isSummaryEntry e = (case e_data e of CompactionEntry _ \<Rightarrow> True | BranchSummaryEntry _ _ _ _ _ \<Rightarrow> True | _ \<Rightarrow> False)"

text \<open>The first pass: files named by the summaries this program wrote.\<close>

definition nestedFileOps :: "session_entry \<Rightarrow> file_operations \<Rightarrow> file_operations" where
  "nestedFileOps e ops =
     (case e_data e of
        BranchSummaryEntry _ _ (Some details) _ False \<Rightarrow>
          ops\<lparr>fo_read := fold setAdd (stringsAt ''readFiles'' details) (fo_read ops),
              fo_edited := fold setAdd (stringsAt ''modifiedFiles'' details) (fo_edited ops)\<rparr>
      | _ \<Rightarrow> ops)"

record branch_preparation =
  bp_messages :: "agent_message list"
  bp_fileOps :: file_operations
  bp_totalTokens :: nat

text \<open>The second pass, over the entries from the newest to the oldest.\<close>

fun takeWithin :: "int \<Rightarrow> session_entry list \<Rightarrow> branch_preparation \<Rightarrow> branch_preparation js_result" where
  "takeWithin tokenBudget [] p = Inr p"
| "takeWithin tokenBudget (e # es) p =
     (case getMessageFromEntry e of
        None \<Rightarrow> takeWithin tokenBudget es p
      | Some m \<Rightarrow>
          if contentMissing e then Inl TypeError
          else let p1 = p\<lparr>bp_fileOps := extractFileOpsFromMessage m (bp_fileOps p)\<rparr>;
                   tokens = estimateTokens m;
                   p2 = p1\<lparr>bp_messages := m # bp_messages p, bp_totalTokens := bp_totalTokens p + tokens\<rparr>
               in if 0 < tokenBudget \<and> tokenBudget < int (bp_totalTokens p + tokens)
                  then if isSummaryEntry e \<and> 10 * int (bp_totalTokens p) < 9 * tokenBudget then Inr p2 else Inr p1
                  else takeWithin tokenBudget es p2)"

definition prepareBranchEntries :: "session_entry list \<Rightarrow> int \<Rightarrow> branch_preparation js_result" where
  "prepareBranchEntries entries tokenBudget =
     takeWithin tokenBudget (rev entries)
       \<lparr>bp_messages = [], bp_fileOps = fold nestedFileOps entries createFileOps, bp_totalTokens = 0\<rparr>"

section \<open>The summary\<close>

definition BRANCH_SUMMARY_PREAMBLE :: string where
  "BRANCH_SUMMARY_PREAMBLE =
     join newline
      [''The user explored a different conversation branch before returning here.'',
       ''Summary of that exploration:'', [], []]"

definition BRANCH_SUMMARY_PROMPT :: string where
  "BRANCH_SUMMARY_PROMPT =
     join newline
      [''Create a structured summary of this conversation branch for context when returning later.'',
       [],
       ''Use this EXACT format:'',
       [],
       ''## Goal'',
       ''[What was the user trying to accomplish in this branch?]'',
       [],
       ''## Constraints & Preferences'',
       ''- [Any constraints, preferences, or requirements mentioned]'',
       ''- [Or '' @ [CHR 0x22] @ ''(none)'' @ [CHR 0x22] @ '' if none were mentioned]'',
       [],
       ''## Progress'',
       ''### Done'',
       ''- [x] [Completed tasks/changes]'',
       [],
       ''### In Progress'',
       ''- [ ] [Work that was started but not finished]'',
       [],
       ''### Blocked'',
       ''- [Issues preventing progress, if any]'',
       [],
       ''## Key Decisions'',
       ''- **[Decision]**: [Brief rationale]'',
       [],
       ''## Next Steps'',
       ''1. [What should happen next to continue this work]'',
       [],
       ''Keep each section concise. Preserve exact file paths, function names, and error messages.'']"

record branch_summary_options =
  bo_customInstructions :: "string option"
  bo_replaceInstructions :: bool
  bo_reserveTokens :: int

datatype branch_summary_result =
    BranchSummaryText string "usage option" "(string list \<times> string list) option" \<comment> \<open>summary, usage, files\<close>
  | BranchSummaryAborted
  | BranchSummaryError string

definition branchInstructions :: "branch_summary_options \<Rightarrow> string" where
  "branchInstructions options =
     (case bo_customInstructions options of
        None \<Rightarrow> BRANCH_SUMMARY_PROMPT
      | Some custom \<Rightarrow>
          if custom = [] then BRANCH_SUMMARY_PROMPT
          else if bo_replaceInstructions options then custom
          else BRANCH_SUMMARY_PROMPT @ blankLine @ ''Additional focus: '' @ custom)"

definition branchPrompt :: "branch_summary_options \<Rightarrow> agent_message list \<Rightarrow> string" where
  "branchPrompt options messages =
     ''<conversation>'' @ newline @ serializeConversation (convertToLlm messages) @ newline @ ''</conversation>''
     @ blankLine @ branchInstructions options"

definition branchTokenBudget :: "model_info \<Rightarrow> branch_summary_options \<Rightarrow> int" where
  "branchTokenBudget model options =
     (if mi_contextWindow model = 0 then 128000 else mi_contextWindow model) - bo_reserveTokens options"

text \<open>The checks on the response; what they reject is reported, not thrown.\<close>

definition acceptBranchSummary :: "file_operations \<Rightarrow> assistant_message \<Rightarrow> branch_summary_result" where
  "acceptBranchSummary fileOps response =
     (if am_stopReason response = StopAborted then BranchSummaryAborted
      else case getSummarizationFailure response ''Branch summarization'' of
             Some failure \<Rightarrow> BranchSummaryError failure
           | None \<Rightarrow>
               if toolCallsOf (am_content response) \<noteq> []
               then BranchSummaryError ''Branch summarization attempted to call a tool''
               else let (readFiles, modifiedFiles) = computeFileLists fileOps
                    in BranchSummaryText
                         (BRANCH_SUMMARY_PREAMBLE @ contentText (ContentBlocks (am_content response))
                           @ formatFileOperations readFiles modifiedFiles)
                         (am_usage response) (Some (readFiles, modifiedFiles)))"

definition generateBranchSummary ::
  "'w summarizer \<Rightarrow> model_info \<Rightarrow> branch_summary_options \<Rightarrow> session_entry list \<Rightarrow> 'w \<Rightarrow> branch_summary_result js_result \<times> 'w" where
  "generateBranchSummary sz model options entries w =
     (case prepareBranchEntries entries (branchTokenBudget model options) of
        Inl err \<Rightarrow> (Inl err, w)
      | Inr p \<Rightarrow>
          if bp_messages p = [] then (Inr (BranchSummaryText ''No content to summarize'' None None), w)
          else let request = createSummarizationOptions model (capTokens model 4096) None
                               (buildSummarizationContext (sz_now sz) (branchPrompt options (bp_messages p)));
                   (response, w') = completeSummarization sz request w
               in (js_bind response (\<lambda>r. Inr (acceptBranchSummary (bp_fileOps p) r)), w'))"

section \<open>What is left behind\<close>

lemma collectUp_chain:
  assumes key: "\<And>i x. map_of (byId sm) i = Some x \<Longrightarrow> e_id x = i"
    and "xs \<noteq> []" and "\<forall>x \<in> set xs. map_of (byId sm) (e_id x) = Some x \<and> e_id x \<noteq> [] \<and> Some (e_id x) \<noteq> anc"
    and "successively (\<lambda>p x. parentOf (byId sm) x = Some p) xs"
    and stop: "e_parentId (hd xs) = None \<or> e_parentId (hd xs) = Some [] \<or> e_parentId (hd xs) = anc \<or>
      (\<exists>q. e_parentId (hd xs) = Some q \<and> map_of (byId sm) q = None)"
  shows "collectUp sm anc (Some (e_id (last xs))) acc = Some (xs @ acc)"
  using assms(2-)
proof (induction xs arbitrary: acc rule: rev_induct)
  case (snoc x xs)
  have x: "getEntry (e_id x) sm = Some x" "e_id x \<noteq> []" "Some (e_id x) \<noteq> anc"
    using snoc.prems(2) by (auto simp: getEntry_def)
  have step: "collectUp sm anc (Some (e_id x)) acc = collectUp sm anc (e_parentId x) (x # acc)"
    using x by (subst collectUp.simps) simp
  show ?case
  proof (cases "xs = []")
    case True
    have "collectUp sm anc (e_parentId x) (x # acc) = Some (x # acc)"
      using snoc.prems(4) True by (subst collectUp.simps) (auto simp: getEntry_def split: option.split)
    then show ?thesis using step True by simp
  next
    case False
    have "parentOf (byId sm) x = Some (last xs)" using snoc.prems(3) False by (simp add: successively_append_iff)
    then obtain q where q: "e_parentId x = Some q" "map_of (byId sm) q = Some (last xs)"
      by (auto simp: parentOf_def split: option.splits if_splits)
    have "collectUp sm anc (Some (e_id (last xs))) (x # acc) = Some (xs @ x # acc)"
      using snoc.IH [OF False] snoc.prems(2-4) False by (simp add: successively_append_iff)
    then show ?thesis using step q(1) key [OF q(2)] by simp
  qed
qed simp

text \<open>
  C12 (what a move leaves behind): the entries collected for the summary of a move from one entry of the session to
  another are exactly the part of the old path below the deepest common ancestor: the two paths share a beginning, the
  collected entries are the rest of the old one, in order, and no entry of it is on the new path.
\<close>

theorem collected_entries_exact:
  assumes inv: "smInv sm" and l: "l \<in> ids (getEntries sm)" and t: "t \<in> ids (getEntries sm)"
  shows "\<exists>common left joined.
    getBranch (Some l) sm = Some (common @ left) \<and> getBranch (Some t) sm = Some (common @ joined) \<and>
    set (map e_id left) \<inter> set (map e_id joined) = {} \<and>
    collectEntriesForBranchSummary sm (Some l) t =
      Some (left, if common = [] then None else Some (e_id (last common)))"
proof -
  have c: "coreInv sm" using inv by (simp add: smInv_def)
  have wf: "wfEntries (getEntries sm)" and idx: "byId sm = indexOf (getEntries sm)" using c by (simp_all add: coreInv_def)
  have look: "map_of (byId sm) i = Some x \<longleftrightarrow> x \<in> set (getEntries sm) \<and> e_id x = i" for i x
    unfolding idx by (rule indexOf_lookup [OF wfEntries_distinct [OF wf]])
  obtain po where po: "pathTo (Some l) sm = Some po" "po \<noteq> []" "e_id (last po) = l" "rootChain (byId sm) po"
    "subseq po (getEntries sm)" "distinct (map e_id po)"
    using pathTo_total [OF c l] by metis
  obtain pt where pt: "pathTo (Some t) sm = Some pt" "pt \<noteq> []" "e_id (last pt) = t" "rootChain (byId sm) pt"
    "subseq pt (getEntries sm)" "distinct (map e_id pt)"
    using pathTo_total [OF c t] by metis
  have mem: "map_of (byId sm) (e_id x) = Some x \<and> e_id x \<noteq> []" if "x \<in> set po" for x
    using that look subseq_set [OF po(5)] wfEntries_id_nonempty [OF wf] by auto
  have l0: "l \<noteq> []" using mem [of "last po"] po(2,3) by auto
  let ?anc = "commonAncestor po pt"
  have collect: "collectEntriesForBranchSummary sm (Some l) t = map_option (\<lambda>es. (es, ?anc)) (collectUp sm ?anc (Some l) [])"
    using l0 po(1) pt(1) by (simp add: collectEntriesForBranchSummary_def getBranch_Some_pathTo bind_eq_Some_conv map_option_case split: option.split)
  show ?thesis
  proof (cases "findLast (\<lambda>e. e_id e \<in> e_id ` set po) pt")
    case None
    then have "e_id x \<notin> set (map e_id po)" if "x \<in> set pt" for x
      using that by (simp add: findLast_None_iff)
    then have dis: "set (map e_id po) \<inter> set (map e_id pt) = {}"
      by (simp add: disjoint_iff) blast
    have "collectUp sm None (Some (e_id (last po))) [] = Some (po @ [])"
      using po(2,4) mem look by (intro collectUp_chain) (auto simp: rootChain_def parentOf_def split: option.splits if_splits)
    then show ?thesis
      using None collect po(1,3) pt(1) dis
      by (intro exI [of _ "[]"] exI [of _ po] exI [of _ pt]) (simp add: commonAncestor_def getBranch_Some_pathTo)
  next
    case (Some a)
    obtain pa r where r: "pt = pa @ a # r" "\<forall>x \<in> set r. e_id x \<notin> e_id ` set po" and a: "e_id a \<in> e_id ` set po"
      using findLast_split [OF Some] by auto
    obtain b where b: "b \<in> set po" "e_id b = e_id a" using a by auto
    have ba: "b = a" using look mem [OF b(1)] b(2) subseq_set [OF pt(5)] r(1) by (metis in_set_conv_decomp option.inject subsetD)
    obtain pb o' where o': "po = pb @ a # o'" using split_list [OF b(1)] ba by blast
    have "rootChain (byId sm) (pa @ [a])" "rootChain (byId sm) (pb @ [a])"
      using po(4) pt(4) unfolding r(1) o' by (auto simp: rootChain_def successively_append_iff hd_append split: if_splits)
    then have "walkParents (byId sm) a [] = Some (pa @ [a])" "walkParents (byId sm) a [] = Some (pb @ [a])"
      by (simp_all add: walkParents_iff)
    then have eq: "pb = pa" by simp
    have anc: "?anc = Some (e_id a)" using Some by (simp add: commonAncestor_def)
    have "e_id x \<notin> set (map e_id o')" if "x \<in> set r" for x using r(2) o' that by (simp add: image_Un)
    then have out: "set (map e_id o') \<inter> set (map e_id r) = {}" by (simp add: disjoint_iff) blast
    have "collectUp sm ?anc (Some l) [] = Some o'"
    proof (cases "o' = []")
      case True
      then have "l = e_id a" using po(3) o' by simp
      then show ?thesis using True anc by (subst collectUp.simps) simp
    next
      case False
      have "e_id x \<noteq> e_id a" if "x \<in> set o'" for x using po(6) o' that by (auto simp: image_iff)
      moreover have "successively (\<lambda>p x. parentOf (byId sm) x = Some p) (a # o')"
        using po(4) o' by (simp add: rootChain_def successively_append_iff)
      then have "successively (\<lambda>p x. parentOf (byId sm) x = Some p) o'" "parentOf (byId sm) (hd o') = Some a"
        using False by (cases o'; simp)+
      moreover have "e_parentId (hd o') = Some (e_id a)"
        using calculation(3) look by (auto simp: parentOf_def split: option.splits if_splits)
      ultimately have "collectUp sm ?anc (Some (e_id (last o'))) [] = Some (o' @ [])"
        using False mem look o' anc by (intro collectUp_chain) auto
      then show ?thesis using po(3) o' False by simp
    qed
    then show ?thesis
      using collect anc po(1) pt(1) o' r(1) eq out
      by (intro exI [of _ "pa @ [a]"] exI [of _ o'] exI [of _ r]) (simp add: getBranch_Some_pathTo)
  qed
qed

theorem collected_entries_exact_witness:
  "smInv sample2 \<and> ''bbbbbbbb'' \<in> ids (getEntries sample2) \<and> ''aaaaaaaa'' \<in> ids (getEntries sample2) \<and>
   (\<exists>common left joined.
     getBranch (Some ''bbbbbbbb'') sample2 = Some (common @ left) \<and> getBranch (Some ''aaaaaaaa'') sample2 = Some (common @ joined) \<and>
     set (map e_id left) \<inter> set (map e_id joined) = {} \<and>
     collectEntriesForBranchSummary sample2 (Some ''bbbbbbbb'') ''aaaaaaaa'' =
       Some (left, if common = [] then None else Some (e_id (last common))))"
proof -
  have b: "''bbbbbbbb'' \<in> ids (getEntries sample2)" and a: "''aaaaaaaa'' \<in> ids (getEntries sample2)"
    by (simp_all add: sample2_run(4) sampleEntry_def)
  show ?thesis using collected_entries_exact [OF sample2_run(2) b a] sample2_run(2) a b by blast
qed

section \<open>What fits the budget\<close>

lemma sumTokens_Cons [simp]: "sumTokens (m # ms) = estimateTokens m + sumTokens ms"
  by (simp add: sumTokens_def)

text \<open>An entry of summary kind may exceed the budget as the oldest one, if the rest leaves a tenth of it.\<close>

definition fitsBudget :: "int \<Rightarrow> session_entry list \<Rightarrow> agent_message list \<Rightarrow> bool" where
  "fitsBudget tokenBudget recent messages \<longleftrightarrow>
     int (sumTokens messages) \<le> tokenBudget \<or>
     (recent \<noteq> [] \<and> isSummaryEntry (hd recent) \<and> messages \<noteq> [] \<and>
      10 * int (sumTokens (tl messages)) < 9 * tokenBudget)"

definition stopsAt :: "int \<Rightarrow> session_entry list \<Rightarrow> agent_message list \<Rightarrow> bool" where
  "stopsAt tokenBudget old messages \<longleftrightarrow>
     old = [] \<or> tokenBudget < int (sumTokens messages) \<or>
     (\<exists>m. getMessageFromEntry (last old) = Some m \<and> tokenBudget < int (sumTokens messages + estimateTokens m))"

lemma takeWithin_shape:
  assumes "takeWithin B es p = Inr q" and "0 < B"
    and "bp_totalTokens p = sumTokens (bp_messages p)" and "fitsBudget B recent (bp_messages p)"
    and "bp_messages p = List.map_filter getMessageFromEntry recent" and "int (bp_totalTokens p) \<le> B"
  shows "\<exists>taken rest. es = taken @ rest \<and> bp_messages q = List.map_filter getMessageFromEntry (rev taken @ recent) \<and>
           bp_totalTokens q = sumTokens (bp_messages q) \<and> fitsBudget B (rev taken @ recent) (bp_messages q) \<and>
           stopsAt B (rev rest) (bp_messages q)"
  using assms
proof (induction B es p arbitrary: recent rule: takeWithin.induct)
  case (1 B p)
  then show ?case by (intro exI [of _ "[]"]) (simp add: stopsAt_def)
next
  case (2 B e es p)
  show ?case
  proof (cases "getMessageFromEntry e")
    case None
    then obtain taken rest where "es = taken @ rest"
        "bp_messages q = List.map_filter getMessageFromEntry (rev taken @ e # recent)"
        "bp_totalTokens q = sumTokens (bp_messages q)" "fitsBudget B (rev taken @ e # recent) (bp_messages q)"
        "stopsAt B (rev rest) (bp_messages q)"
      using "2.IH"(1) [OF None, of "e # recent"] "2.prems"
      by (auto simp: fitsBudget_def List.map_filter_simps)
    then show ?thesis by (intro exI [of _ "e # taken"] exI [of _ rest]) simp
  next
    case (Some m)
    let ?p1 = "p\<lparr>bp_fileOps := extractFileOpsFromMessage m (bp_fileOps p)\<rparr>"
    let ?p2 = "?p1\<lparr>bp_messages := m # bp_messages p, bp_totalTokens := bp_totalTokens p + estimateTokens m\<rparr>"
    have no: "\<not> contentMissing e" using "2.prems"(1) Some by (auto split: if_splits)
    have ms: "bp_messages ?p2 = List.map_filter getMessageFromEntry (e # recent)"
      using "2.prems"(5) Some by (simp add: List.map_filter_simps)
    show ?thesis
    proof (cases "B < int (bp_totalTokens p + estimateTokens m)")
      case full: True
      show ?thesis
      proof (cases "isSummaryEntry e \<and> 10 * int (bp_totalTokens p) < 9 * B")
        case True
        then have q: "q = ?p2" using "2.prems"(1,2) Some no full by (simp add: Let_def)
        have total: "bp_totalTokens q = sumTokens (bp_messages q)" using q "2.prems"(3) by simp
        have "fitsBudget B (e # recent) (bp_messages q)" using q True "2.prems"(3) by (simp add: fitsBudget_def)
        moreover have "stopsAt B (rev es) (bp_messages q)"
          using full total q by (simp add: stopsAt_def add.commute)
        ultimately show ?thesis using q ms total by (intro exI [of _ "[e]"] exI [of _ es]) simp
      next
        case False
        then have q: "q = ?p1" using "2.prems"(1,2) Some no full by (auto simp: Let_def split: if_splits)
        have "stopsAt B (rev (e # es)) (bp_messages q)"
          using full Some q "2.prems"(3) by (simp add: stopsAt_def)
        then show ?thesis using q "2.prems"(3-5) by (intro exI [of _ "[]"] exI [of _ "e # es"]) simp
      qed
    next
      case fits: False
      then have step: "takeWithin B es ?p2 = Inr q" using "2.prems"(1) Some no by (simp add: Let_def)
      have fit: "fitsBudget B (e # recent) (bp_messages ?p2)"
        using fits "2.prems"(3) by (simp add: fitsBudget_def)
      obtain taken rest where "es = taken @ rest"
          "bp_messages q = List.map_filter getMessageFromEntry (rev taken @ e # recent)"
          "bp_totalTokens q = sumTokens (bp_messages q)" "fitsBudget B (rev taken @ e # recent) (bp_messages q)"
          "stopsAt B (rev rest) (bp_messages q)"
        using "2.IH"(2) [OF Some no refl refl refl _ step "2.prems"(2) _ fit ms] fits "2.prems"(3) by auto
      then show ?thesis by (intro exI [of _ "e # taken"] exI [of _ rest]) simp
    qed
  qed
qed

text \<open>
  C37 (branch history within the budget): with a positive budget, the messages chosen for the summary are those of the
  newest entries of the branch, all of them; their tokens are counted right; they fit the budget, or all but the oldest
  fit nine tenths of it and the oldest is itself a summary; and the choice ends only where the next message would not fit.
\<close>

theorem prepareBranchEntries_budget:
  assumes "prepareBranchEntries entries tokenBudget = Inr p" and "0 < tokenBudget"
  shows "\<exists>old recent. entries = old @ recent \<and> bp_messages p = List.map_filter getMessageFromEntry recent \<and>
           bp_totalTokens p = sumTokens (bp_messages p) \<and> fitsBudget tokenBudget recent (bp_messages p) \<and>
           stopsAt tokenBudget old (bp_messages p)"
proof -
  obtain taken rest where r: "rev entries = taken @ rest"
      "bp_messages p = List.map_filter getMessageFromEntry (rev taken)" "bp_totalTokens p = sumTokens (bp_messages p)"
      "fitsBudget tokenBudget (rev taken) (bp_messages p)" "stopsAt tokenBudget (rev rest) (bp_messages p)"
    using takeWithin_shape [OF assms(1) [unfolded prepareBranchEntries_def] assms(2), of "[]"] assms(2)
    by (auto simp: sumTokens_def fitsBudget_def List.map_filter_simps)
  have "entries = rev rest @ rev taken" using r(1) by (simp add: rev_swap)
  with r(2-) show ?thesis by blast
qed

definition sampleBranch :: "session_entry list" where
  "sampleBranch =
     [sampleEntry ''aaaaaaaa'' None (sampleUser ''first one''), sampleEntry ''bbbbbbbb'' (Some ''aaaaaaaa'') (sampleUser ''second''),
      sampleEntry ''cccccccc'' (Some ''bbbbbbbb'') (sampleUser ''third'')]"

lemma sampleBranch_prepared:
  "prepareBranchEntries sampleBranch 5 =
     Inr \<lparr>bp_messages = [sampleUser ''second'', sampleUser ''third''], bp_fileOps = createFileOps, bp_totalTokens = 4\<rparr>"
  by (simp add: prepareBranchEntries_def sampleBranch_def sampleEntry_def sampleUser_def getMessageFromEntry_def
      contentMissing_def nestedFileOps_def estimateTokens_def ceilDiv_def isSummaryEntry_def)

theorem prepareBranchEntries_budget_witness:
  "0 < (5 :: int) \<and>
   (\<exists>p old recent. prepareBranchEntries sampleBranch 5 = Inr p \<and> sampleBranch = old @ recent \<and>
      bp_messages p = List.map_filter getMessageFromEntry recent \<and> bp_totalTokens p = sumTokens (bp_messages p) \<and>
      fitsBudget 5 recent (bp_messages p) \<and> stopsAt 5 old (bp_messages p))"
  using prepareBranchEntries_budget [OF sampleBranch_prepared] sampleBranch_prepared by auto

text \<open>A budget that is not positive is no limit, and nothing fails when every message has its content.\<close>

lemma takeWithin_unlimited:
  assumes "B \<le> 0" and "\<forall>e \<in> set es. \<not> contentMissing e"
  shows "\<exists>q. takeWithin B es p = Inr q \<and> bp_messages q = List.map_filter getMessageFromEntry (rev es) @ bp_messages p"
  using assms
proof (induction B es p rule: takeWithin.induct)
  case (2 B e es p)
  have snoc: "List.map_filter getMessageFromEntry (rev es @ [e]) =
      List.map_filter getMessageFromEntry (rev es) @ (case getMessageFromEntry e of None \<Rightarrow> [] | Some m \<Rightarrow> [m])"
    by (induction "rev es") (auto simp: List.map_filter_def)
  show ?case
  proof (cases "getMessageFromEntry e")
    case None
    then show ?thesis using "2.IH"(1) [OF None] "2.prems" snoc by simp
  next
    case (Some m)
    let ?p1 = "p\<lparr>bp_fileOps := extractFileOpsFromMessage m (bp_fileOps p)\<rparr>"
    let ?p2 = "?p1\<lparr>bp_messages := m # bp_messages p, bp_totalTokens := bp_totalTokens p + estimateTokens m\<rparr>"
    have "\<not> contentMissing e" using "2.prems"(2) by simp
    moreover have "\<not> (0 < B \<and> B < int (bp_totalTokens p + estimateTokens m))" using "2.prems"(1) by simp
    ultimately show ?thesis
      using "2.IH"(2) [OF Some _ refl refl refl, of] "2.prems" snoc Some by (simp add: Let_def)
  qed
qed (simp add: List.map_filter_simps)

lemma prepareBranchEntries_unlimited:
  assumes "tokenBudget \<le> 0" and "\<forall>e \<in> set entries. \<not> contentMissing e"
  shows "\<exists>p. prepareBranchEntries entries tokenBudget = Inr p \<and> bp_messages p = List.map_filter getMessageFromEntry entries"
  using takeWithin_unlimited [OF assms(1), of "rev entries" "\<lparr>bp_messages = [],
    bp_fileOps = fold nestedFileOps entries createFileOps, bp_totalTokens = 0\<rparr>"] assms(2)
  by (simp add: prepareBranchEntries_def)

end
