(* ===== verification/Tool_Execution.thy ===== *)
theory Tool_Execution
  imports Transcript "HOL-Library.Multiset" "HOL-Library.Sublist"
begin

text \<open>
  Execution of the tool calls of an assistant message (\<open>packages/agent/src/agent-loop.ts\<close>, from
  \<open>failToolCallsFromTruncatedMessage\<close> on, with the types of \<open>packages/agent/src/types.ts\<close>). What the
  loop calls but does not define is a field of \<open>loop_env\<close>: the hooks, the tools' own code, schema
  validation, the abort signal and the clock. They act on a world \<open>'w\<close> the loop does not look into.
  Concurrency of a parallel batch is a schedule: each task is a small state machine, and a step
  advances the task the schedule names. A batch whose schedule leaves a task unfinished has not
  returned, which is the value \<open>None\<close>.
\<close>

section \<open>Types\<close>

datatype execution_mode = Sequential | Parallel

type_synonym tool_args = "(string \<times> json) list"

record agent_tool = tool +
  at_label :: string
  at_executionMode :: "execution_mode option"

record agent_tool_result =
  atr_content :: "content_block list option" \<comment> \<open>untyped tools may omit it\<close>
  atr_details :: "json option"
  atr_usage :: "usage option"
  atr_terminate :: "bool option"

record before_result =
  br_block :: bool
  br_reason :: "string option"
  br_terminate :: "bool option"

record after_result =
  ar_content :: "content_block list option"
  ar_details :: "json option"
  ar_isError :: "bool option"
  ar_usage :: "usage option"
  ar_terminate :: "bool option"

record agent_context =
  ctx_messages :: "agent_message list"
  ctx_tools :: "agent_tool list option"

datatype agent_event =
    AgentStart
  | AgentEnd "agent_message list"
  | TurnStart
  | TurnEnd assistant_message "tool_result_message list"
  | MessageStart agent_message
  | MessageUpdate agent_message
  | MessageEnd agent_message
  | ToolExecutionStart string string tool_args
  | ToolExecutionUpdate string string tool_args agent_tool_result
  | ToolExecutionEnd string string agent_tool_result bool

text \<open>What a tool's \<open>execute\<close> does: updates while it runs, updates after it has settled, the outcome.\<close>

record tool_run =
  tn_updates :: "agent_tool_result list"
  tn_lateUpdates :: "agent_tool_result list"
  tn_outcome :: "agent_tool_result js_result"

record 'w loop_env =
  env_emit :: "agent_event \<Rightarrow> 'w \<Rightarrow> 'w"
  env_aborted :: "'w \<Rightarrow> bool"
  env_now :: "'w \<Rightarrow> int"
  env_prepareArguments :: "agent_tool \<Rightarrow> (tool_args \<Rightarrow> tool_args js_result) option"
  env_validate :: "agent_tool \<Rightarrow> tool_call \<Rightarrow> tool_args js_result"
  env_execute :: "agent_tool \<Rightarrow> string \<Rightarrow> tool_args \<Rightarrow> 'w \<Rightarrow> tool_run \<times> 'w"
  env_beforeToolCall :: "(assistant_message \<Rightarrow> tool_call \<Rightarrow> tool_args \<Rightarrow> agent_context \<Rightarrow> 'w \<Rightarrow> before_result option js_result \<times> 'w) option"
  env_afterToolCall :: "(assistant_message \<Rightarrow> tool_call \<Rightarrow> tool_args \<Rightarrow> agent_tool_result \<Rightarrow> bool \<Rightarrow> agent_context \<Rightarrow> 'w \<Rightarrow> after_result option js_result \<times> 'w) option"
  env_toolExecution :: "execution_mode option"
  env_schedule :: "'w \<Rightarrow> nat list" \<comment> \<open>the order in which concurrent tasks make progress\<close>

record 'w loop_state =
  ls_world :: 'w
  ls_events :: "agent_event list"

definition emit :: "('w, 'x) loop_env_scheme \<Rightarrow> agent_event \<Rightarrow> 'w loop_state \<Rightarrow> 'w loop_state" where
  "emit env ev s = \<lparr>ls_world = env_emit env ev (ls_world s), ls_events = ls_events s @ [ev]\<rparr>"

section \<open>Results\<close>

definition createErrorToolResult :: "string \<Rightarrow> agent_tool_result" where
  "createErrorToolResult m =
     \<lparr>atr_content = Some [plainText m], atr_details = Some (JObj []), atr_usage = None, atr_terminate = None\<rparr>"

record finalized =
  fin_toolCall :: tool_call
  fin_result :: agent_tool_result
  fin_isError :: bool

definition emitToolExecutionEnd :: "('w, 'x) loop_env_scheme \<Rightarrow> finalized \<Rightarrow> 'w loop_state \<Rightarrow> 'w loop_state" where
  "emitToolExecutionEnd env f =
     emit env (ToolExecutionEnd (tc_id (fin_toolCall f)) (tc_name (fin_toolCall f)) (fin_result f) (fin_isError f))"

definition createToolResultMessage :: "finalized \<Rightarrow> int \<Rightarrow> tool_result_message" where
  "createToolResultMessage f now =
     \<lparr>tr_toolCallId = tc_id (fin_toolCall f), tr_toolName = tc_name (fin_toolCall f),
      tr_content = (case atr_content (fin_result f) of None \<Rightarrow> [] | Some c \<Rightarrow> c),
      tr_details = atr_details (fin_result f), tr_usage = atr_usage (fin_result f),
      tr_isError = fin_isError f, tr_timestamp = now\<rparr>"

definition emitToolResultMessage :: "('w, 'x) loop_env_scheme \<Rightarrow> tool_result_message \<Rightarrow> 'w loop_state \<Rightarrow> 'w loop_state" where
  "emitToolResultMessage env m s = emit env (MessageEnd (ToolResult m)) (emit env (MessageStart (ToolResult m)) s)"

definition emitToolExecutionStart :: "('w, 'x) loop_env_scheme \<Rightarrow> tool_call \<Rightarrow> 'w loop_state \<Rightarrow> 'w loop_state" where
  "emitToolExecutionStart env tc = emit env (ToolExecutionStart (tc_id tc) (tc_name tc) (tc_arguments tc))"

definition shouldTerminateToolBatch :: "finalized list \<Rightarrow> bool" where
  "shouldTerminateToolBatch fs \<longleftrightarrow> 0 < length fs \<and> list_all (\<lambda>f. atr_terminate (fin_result f) = Some True) fs"

record executed_batch =
  eb_messages :: "tool_result_message list"
  eb_terminate :: bool

section \<open>Truncated messages\<close>

definition truncatedText :: "tool_call \<Rightarrow> string" where
  "truncatedText tc =
     ''Tool call '' @ [CHR 0x22] @ tc_name tc @ [CHR 0x22]
     @ '' was not executed: the response hit the output token limit, so its arguments may be truncated. Re-issue the tool call with complete arguments.''"

fun failToolCallsFromTruncatedMessage ::
  "('w, 'x) loop_env_scheme \<Rightarrow> tool_call list \<Rightarrow> 'w loop_state \<Rightarrow> executed_batch \<times> 'w loop_state" where
  "failToolCallsFromTruncatedMessage env [] s = (\<lparr>eb_messages = [], eb_terminate = False\<rparr>, s)"
| "failToolCallsFromTruncatedMessage env (tc # tcs) s =
     (let s1 = emitToolExecutionStart env tc s;
          f = \<lparr>fin_toolCall = tc, fin_result = createErrorToolResult (truncatedText tc), fin_isError = True\<rparr>;
          s2 = emitToolExecutionEnd env f s1;
          m = createToolResultMessage f (env_now env (ls_world s2));
          s3 = emitToolResultMessage env m s2;
          (b, s4) = failToolCallsFromTruncatedMessage env tcs s3
      in (\<lparr>eb_messages = m # eb_messages b, eb_terminate = False\<rparr>, s4))"

section \<open>One tool call\<close>

datatype preparation = Immediate agent_tool_result bool | Prepared tool_call agent_tool tool_args

definition prepareToolCallArguments ::
  "('w, 'x) loop_env_scheme \<Rightarrow> agent_tool \<Rightarrow> tool_call \<Rightarrow> tool_call js_result" where
  "prepareToolCallArguments env tool tc =
     (case env_prepareArguments env tool of
        None \<Rightarrow> Inr tc
      | Some prep \<Rightarrow> js_bind (prep (tc_arguments tc)) (\<lambda>args. Inr (tc\<lparr>tc_arguments := args\<rparr>)))"

definition immediateError :: "string \<Rightarrow> preparation" where
  "immediateError m = Immediate (createErrorToolResult m) True"

definition findTool :: "agent_context \<Rightarrow> string \<Rightarrow> agent_tool option" where
  "findTool ctx name = (case ctx_tools ctx of None \<Rightarrow> None | Some ts \<Rightarrow> List.find (\<lambda>t. t_name t = name) ts)"

definition blockedPreparation :: "before_result \<Rightarrow> preparation" where
  "blockedPreparation br =
     (let r = createErrorToolResult (case br_reason br of
                 None \<Rightarrow> ''Tool execution was blocked''
               | Some m \<Rightarrow> if m = [] then ''Tool execution was blocked'' else m)
      in Immediate (if br_terminate br = Some True then r\<lparr>atr_terminate := Some True\<rparr> else r) True)"

definition prepareToolCall ::
  "('w, 'x) loop_env_scheme \<Rightarrow> agent_context \<Rightarrow> assistant_message \<Rightarrow> tool_call \<Rightarrow> 'w \<Rightarrow> preparation \<times> 'w" where
  "prepareToolCall env ctx am tc w =
     (case findTool ctx (tc_name tc) of
        None \<Rightarrow> (immediateError (''Tool '' @ tc_name tc @ '' not found''), w)
      | Some tool \<Rightarrow>
          (case js_bind (prepareToolCallArguments env tool tc) (env_validate env tool) of
             Inl err \<Rightarrow> (immediateError (errorText err), w)
           | Inr args \<Rightarrow>
               (case env_beforeToolCall env of
                  None \<Rightarrow>
                    if env_aborted env w then (immediateError ''Operation aborted'', w)
                    else (Prepared tc tool args, w)
                | Some before \<Rightarrow>
                    (case before am tc args ctx w of
                       (Inl err, w') \<Rightarrow> (immediateError (errorText err), w')
                     | (Inr r, w') \<Rightarrow>
                         if env_aborted env w' then (immediateError ''Operation aborted'', w')
                         else (case r of
                                 None \<Rightarrow> (Prepared tc tool args, w')
                               | Some br \<Rightarrow> if br_block br then (blockedPreparation br, w')
                                            else (Prepared tc tool args, w'))))))"

text \<open>\<open>executePreparedToolCall\<close> after \<open>execute\<close> has settled: late updates are not accepted.\<close>

definition executedOutcome :: "tool_run \<Rightarrow> agent_tool_result \<times> bool" where
  "executedOutcome run =
     (case tn_outcome run of Inr r \<Rightarrow> (r, False) | Inl err \<Rightarrow> (createErrorToolResult (errorText err), True))"

definition emitUpdate :: "('w, 'x) loop_env_scheme \<Rightarrow> tool_call \<Rightarrow> agent_tool_result \<Rightarrow> 'w loop_state \<Rightarrow> 'w loop_state" where
  "emitUpdate env tc r = emit env (ToolExecutionUpdate (tc_id tc) (tc_name tc) (tc_arguments tc) r)"

definition executePreparedToolCall ::
  "('w, 'x) loop_env_scheme \<Rightarrow> tool_call \<Rightarrow> agent_tool \<Rightarrow> tool_args \<Rightarrow> 'w loop_state \<Rightarrow> (agent_tool_result \<times> bool) \<times> 'w loop_state" where
  "executePreparedToolCall env tc tool args s =
     (let (run, w) = env_execute env tool (tc_id tc) args (ls_world s)
      in (executedOutcome run, fold (emitUpdate env tc) (tn_updates run) (s\<lparr>ls_world := w\<rparr>)))"

definition orElse :: "'a option \<Rightarrow> 'a option \<Rightarrow> 'a option" where
  "orElse a b = (case a of None \<Rightarrow> b | Some x \<Rightarrow> Some x)"

definition finalizeExecutedToolCall ::
  "('w, 'x) loop_env_scheme \<Rightarrow> agent_context \<Rightarrow> assistant_message \<Rightarrow> tool_call \<Rightarrow> tool_args
   \<Rightarrow> agent_tool_result \<times> bool \<Rightarrow> 'w \<Rightarrow> finalized \<times> 'w" where
  "finalizeExecutedToolCall env ctx am tc args executed w =
     (let (result, isError) = executed in
      case env_afterToolCall env of
        None \<Rightarrow> (\<lparr>fin_toolCall = tc, fin_result = result, fin_isError = isError\<rparr>, w)
      | Some after \<Rightarrow>
          (case after am tc args result isError ctx w of
             (Inl err, w') \<Rightarrow>
               (\<lparr>fin_toolCall = tc, fin_result = createErrorToolResult (errorText err), fin_isError = True\<rparr>, w')
           | (Inr None, w') \<Rightarrow> (\<lparr>fin_toolCall = tc, fin_result = result, fin_isError = isError\<rparr>, w')
           | (Inr (Some ar), w') \<Rightarrow>
               (\<lparr>fin_toolCall = tc,
                 fin_result = result\<lparr>atr_content := orElse (ar_content ar) (atr_content result),
                                     atr_details := orElse (ar_details ar) (atr_details result),
                                     atr_usage := orElse (ar_usage ar) (atr_usage result),
                                     atr_terminate := orElse (ar_terminate ar) (atr_terminate result)\<rparr>,
                 fin_isError = (case ar_isError ar of None \<Rightarrow> isError | Some b \<Rightarrow> b)\<rparr>, w')))"

section \<open>Sequential batches\<close>

definition runOneSequential ::
  "('w, 'x) loop_env_scheme \<Rightarrow> agent_context \<Rightarrow> assistant_message \<Rightarrow> tool_call \<Rightarrow> 'w loop_state \<Rightarrow> finalized \<times> 'w loop_state" where
  "runOneSequential env ctx am tc s =
     (let s1 = emitToolExecutionStart env tc s;
          (prep, w) = prepareToolCall env ctx am tc (ls_world s1);
          s2 = s1\<lparr>ls_world := w\<rparr>
      in case prep of
           Immediate r isError \<Rightarrow> (\<lparr>fin_toolCall = tc, fin_result = r, fin_isError = isError\<rparr>, s2)
         | Prepared tc' tool args \<Rightarrow>
             (let (executed, s3) = executePreparedToolCall env tc' tool args s2;
                  (f, w') = finalizeExecutedToolCall env ctx am tc' args executed (ls_world s3)
              in (f, s3\<lparr>ls_world := w'\<rparr>)))"

fun sequentialLoop ::
  "('w, 'x) loop_env_scheme \<Rightarrow> agent_context \<Rightarrow> assistant_message \<Rightarrow> tool_call list \<Rightarrow> 'w loop_state
   \<Rightarrow> (finalized list \<times> tool_result_message list) \<times> 'w loop_state" where
  "sequentialLoop env ctx am [] s = (([], []), s)"
| "sequentialLoop env ctx am (tc # tcs) s =
     (let (f, s1) = runOneSequential env ctx am tc s;
          s2 = emitToolExecutionEnd env f s1;
          m = createToolResultMessage f (env_now env (ls_world s2));
          s3 = emitToolResultMessage env m s2
      in if env_aborted env (ls_world s3) then (([f], [m]), s3)
         else let ((fs, ms), s4) = sequentialLoop env ctx am tcs s3 in ((f # fs, m # ms), s4))"

definition executeToolCallsSequential ::
  "('w, 'x) loop_env_scheme \<Rightarrow> agent_context \<Rightarrow> assistant_message \<Rightarrow> tool_call list \<Rightarrow> 'w loop_state \<Rightarrow> executed_batch \<times> 'w loop_state" where
  "executeToolCallsSequential env ctx am tcs s =
     (let ((fs, ms), s') = sequentialLoop env ctx am tcs s
      in (\<lparr>eb_messages = ms, eb_terminate = shouldTerminateToolBatch fs\<rparr>, s'))"

section \<open>Parallel batches\<close>

text \<open>
  A task of a parallel batch: settled, not yet started (the deferred closure), or running with the
  updates still to be delivered and the outcome \<open>execute\<close> will have.
\<close>

datatype task =
    Settled finalized
  | Deferred tool_call agent_tool tool_args
  | Running tool_call tool_args "agent_tool_result list" "agent_tool_result \<times> bool"

fun parallelPrepare ::
  "('w, 'x) loop_env_scheme \<Rightarrow> agent_context \<Rightarrow> assistant_message \<Rightarrow> tool_call list \<Rightarrow> 'w loop_state \<Rightarrow> task list \<times> 'w loop_state" where
  "parallelPrepare env ctx am [] s = ([], s)"
| "parallelPrepare env ctx am (tc # tcs) s =
     (let s1 = emitToolExecutionStart env tc s;
          (prep, w) = prepareToolCall env ctx am tc (ls_world s1);
          s2 = s1\<lparr>ls_world := w\<rparr>;
          (t, s3) = (case prep of
                       Immediate r isError \<Rightarrow>
                         (let f = \<lparr>fin_toolCall = tc, fin_result = r, fin_isError = isError\<rparr>
                          in (Settled f, emitToolExecutionEnd env f s2))
                     | Prepared tc' tool args \<Rightarrow> (Deferred tc' tool args, s2))
      in if env_aborted env (ls_world s3) then ([t], s3)
         else let (ts, s4) = parallelPrepare env ctx am tcs s3 in (t # ts, s4))"

fun taskStep ::
  "('w, 'x) loop_env_scheme \<Rightarrow> agent_context \<Rightarrow> assistant_message \<Rightarrow> task \<Rightarrow> 'w loop_state \<Rightarrow> task \<times> 'w loop_state" where
  "taskStep env ctx am (Settled f) s = (Settled f, s)"
| "taskStep env ctx am (Deferred tc tool args) s =
     (if env_aborted env (ls_world s) then
        (let f = \<lparr>fin_toolCall = tc, fin_result = createErrorToolResult ''Operation aborted'', fin_isError = True\<rparr>
         in (Settled f, emitToolExecutionEnd env f s))
      else let (run, w) = env_execute env tool (tc_id tc) args (ls_world s)
           in (Running tc args (tn_updates run) (executedOutcome run), s\<lparr>ls_world := w\<rparr>))"
| "taskStep env ctx am (Running tc args (u # us) executed) s = (Running tc args us executed, emitUpdate env tc u s)"
| "taskStep env ctx am (Running tc args [] executed) s =
     (let (f, w) = finalizeExecutedToolCall env ctx am tc args executed (ls_world s)
      in (Settled f, emitToolExecutionEnd env f (s\<lparr>ls_world := w\<rparr>)))"

fun runSchedule ::
  "('w, 'x) loop_env_scheme \<Rightarrow> agent_context \<Rightarrow> assistant_message \<Rightarrow> nat list \<Rightarrow> task list \<Rightarrow> 'w loop_state \<Rightarrow> task list \<times> 'w loop_state" where
  "runSchedule env ctx am [] ts s = (ts, s)"
| "runSchedule env ctx am (i # is) ts s =
     (if i < length ts
      then let (t, s') = taskStep env ctx am (ts ! i) s in runSchedule env ctx am is (ts[i := t]) s'
      else runSchedule env ctx am is ts s)"

fun settledOf :: "task \<Rightarrow> finalized option" where
  "settledOf (Settled f) = Some f"
| "settledOf _ = None"

text \<open>\<open>Promise.all\<close>: the results in task order, once every task has settled.\<close>

fun allSettled :: "task list \<Rightarrow> finalized list option" where
  "allSettled [] = Some []"
| "allSettled (t # ts) =
     (case settledOf t of None \<Rightarrow> None | Some f \<Rightarrow> map_option (\<lambda>fs. f # fs) (allSettled ts))"

fun emitResults ::
  "('w, 'x) loop_env_scheme \<Rightarrow> finalized list \<Rightarrow> 'w loop_state \<Rightarrow> tool_result_message list \<times> 'w loop_state" where
  "emitResults env [] s = ([], s)"
| "emitResults env (f # fs) s =
     (let m = createToolResultMessage f (env_now env (ls_world s));
          (ms, s') = emitResults env fs (emitToolResultMessage env m s)
      in (m # ms, s'))"

definition executeToolCallsParallel ::
  "('w, 'x) loop_env_scheme \<Rightarrow> agent_context \<Rightarrow> assistant_message \<Rightarrow> tool_call list \<Rightarrow> 'w loop_state
   \<Rightarrow> (executed_batch \<times> 'w loop_state) option" where
  "executeToolCallsParallel env ctx am tcs s =
     (let (ts, s1) = parallelPrepare env ctx am tcs s;
          (ts', s2) = runSchedule env ctx am (env_schedule env (ls_world s1)) ts s1
      in case allSettled ts' of
           None \<Rightarrow> None
         | Some fs \<Rightarrow>
             (let (ms, s3) = emitResults env fs s2
              in Some (\<lparr>eb_messages = ms, eb_terminate = shouldTerminateToolBatch fs\<rparr>, s3)))"

definition executeToolCalls ::
  "('w, 'x) loop_env_scheme \<Rightarrow> agent_context \<Rightarrow> assistant_message \<Rightarrow> 'w loop_state \<Rightarrow> (executed_batch \<times> 'w loop_state) option" where
  "executeToolCalls env ctx am s =
     (let tcs = toolCallsOf (am_content am);
          hasSequential = list_ex (\<lambda>tc. case findTool ctx (tc_name tc) of
                                          None \<Rightarrow> False | Some t \<Rightarrow> at_executionMode t = Some Sequential) tcs
      in if env_toolExecution env = Some Sequential \<or> hasSequential
         then Some (executeToolCallsSequential env ctx am tcs s)
         else executeToolCallsParallel env ctx am tcs s)"

section \<open>Event accounting\<close>

fun endId :: "agent_event \<Rightarrow> string option" where
  "endId (ToolExecutionEnd i _ _ _) = Some i"
| "endId _ = None"

fun messageEnd :: "agent_event \<Rightarrow> agent_message option" where
  "messageEnd (MessageEnd m) = Some m"
| "messageEnd _ = None"

definition endIds :: "'w loop_state \<Rightarrow> string list" where
  "endIds s = List.map_filter endId (ls_events s)"

definition messageEnds :: "'w loop_state \<Rightarrow> agent_message list" where
  "messageEnds s = List.map_filter messageEnd (ls_events s)"

text \<open>The events of the run and its turns; tool execution emits none of them.\<close>

fun isRunEvent :: "agent_event \<Rightarrow> bool" where
  "isRunEvent AgentStart = True"
| "isRunEvent (AgentEnd _) = True"
| "isRunEvent TurnStart = True"
| "isRunEvent (TurnEnd _ _) = True"
| "isRunEvent _ = False"

definition runEvents :: "'w loop_state \<Rightarrow> agent_event list" where
  "runEvents s = filter isRunEvent (ls_events s)"

named_theorems event_simps

lemma endIds_emit [event_simps]: "endIds (emit env ev s) = endIds s @ (case endId ev of None \<Rightarrow> [] | Some i \<Rightarrow> [i])"
  by (simp add: endIds_def emit_def map_filter_append List.map_filter_def split: option.split)

lemma messageEnds_emit [event_simps]:
  "messageEnds (emit env ev s) = messageEnds s @ (case messageEnd ev of None \<Rightarrow> [] | Some m \<Rightarrow> [m])"
  by (simp add: messageEnds_def emit_def map_filter_append List.map_filter_def split: option.split)

lemma runEvents_emit [event_simps]: "runEvents (emit env ev s) = runEvents s @ (if isRunEvent ev then [ev] else [])"
  by (simp add: runEvents_def emit_def)

lemma accounting_world [event_simps]:
  "endIds (s\<lparr>ls_world := w\<rparr>) = endIds s" "messageEnds (s\<lparr>ls_world := w\<rparr>) = messageEnds s"
  "runEvents (s\<lparr>ls_world := w\<rparr>) = runEvents s"
  by (simp_all add: endIds_def messageEnds_def runEvents_def)

lemmas emits = emitToolExecutionStart_def emitToolExecutionEnd_def emitToolResultMessage_def emitUpdate_def

lemma accounting_updates [event_simps]:
  "endIds (fold (emitUpdate env tc) us s) = endIds s" "messageEnds (fold (emitUpdate env tc) us s) = messageEnds s"
  "runEvents (fold (emitUpdate env tc) us s) = runEvents s"
  by (induction us arbitrary: s) (simp_all add: emits event_simps)

lemma createToolResultMessage_fields [simp]:
  "tr_toolCallId (createToolResultMessage f t) = tc_id (fin_toolCall f)"
  "tr_toolName (createToolResultMessage f t) = tc_name (fin_toolCall f)"
  "tr_isError (createToolResultMessage f t) = fin_isError f"
  by (simp_all add: createToolResultMessage_def)

section \<open>Lemmas on one call\<close>

lemma finalize_call: "fin_toolCall (fst (finalizeExecutedToolCall env ctx am tc args executed w)) = tc"
  by (auto simp: finalizeExecutedToolCall_def Let_def split: prod.splits option.splits sum.splits)

lemma prepareToolCall_prepared:
  "fst (prepareToolCall env ctx am tc w) = Prepared tc' tool args \<Longrightarrow>
   tc' = tc \<and> findTool ctx (tc_name tc) = Some tool \<and>
   js_bind (prepareToolCallArguments env tool tc) (env_validate env tool) = Inr args"
  by (auto simp: prepareToolCall_def immediateError_def blockedPreparation_def Let_def
      split: option.splits sum.splits prod.splits if_splits)

lemma prepareToolCall_immediate: "fst (prepareToolCall env ctx am tc w) = Immediate r isError \<Longrightarrow> isError"
  by (auto simp: prepareToolCall_def immediateError_def blockedPreparation_def Let_def
      split: option.splits sum.splits prod.splits if_splits)

lemma runOneSequential_facts:
  "fin_toolCall (fst (runOneSequential env ctx am tc s)) = tc"
  "endIds (snd (runOneSequential env ctx am tc s)) = endIds s"
  "messageEnds (snd (runOneSequential env ctx am tc s)) = messageEnds s"
proof -
  obtain prep w where p: "prepareToolCall env ctx am tc (ls_world (emitToolExecutionStart env tc s)) = (prep, w)" by force
  have c: "prep = Prepared tc' tool args \<Longrightarrow> tc' = tc" for tc' tool args
    using prepareToolCall_prepared [of env ctx am tc "ls_world (emitToolExecutionStart env tc s)"] p by simp
  show "fin_toolCall (fst (runOneSequential env ctx am tc s)) = tc"
    using p c by (auto simp: runOneSequential_def Let_def executePreparedToolCall_def finalize_call
        split: preparation.splits prod.splits) (metis finalize_call fst_conv)
  show "endIds (snd (runOneSequential env ctx am tc s)) = endIds s"
    "messageEnds (snd (runOneSequential env ctx am tc s)) = messageEnds s"
    using p by (auto simp: runOneSequential_def Let_def executePreparedToolCall_def emits event_simps
        split: preparation.splits prod.splits)
qed

section \<open>Sequential batches\<close>

lemma sequentialLoop_facts:
  assumes "sequentialLoop env ctx am tcs s = ((fs, ms), s')"
  shows "map fin_toolCall fs = take (length fs) tcs \<and> map tr_toolCallId ms = map (tc_id \<circ> fin_toolCall) fs \<and>
         endIds s' = endIds s @ map (tc_id \<circ> fin_toolCall) fs \<and> messageEnds s' = messageEnds s @ map ToolResult ms \<and>
         (length fs < length tcs \<longrightarrow> env_aborted env (ls_world s')) \<and> (tcs \<noteq> [] \<longrightarrow> fs \<noteq> [])"
  using assms
proof (induction tcs arbitrary: s fs ms s')
  case (Cons tc tcs)
  obtain f s1 where r: "runOneSequential env ctx am tc s = (f, s1)" by force
  have f: "fin_toolCall f = tc" "endIds s1 = endIds s" "messageEnds s1 = messageEnds s"
    using runOneSequential_facts [of env ctx am tc s] r by simp_all
  let ?s2 = "emitToolExecutionEnd env f s1"
  let ?m = "createToolResultMessage f (env_now env (ls_world ?s2))"
  let ?s3 = "emitToolResultMessage env ?m ?s2"
  have e: "endIds ?s3 = endIds s @ [tc_id tc]" "messageEnds ?s3 = messageEnds s @ [ToolResult ?m]"
    by (simp_all add: emits event_simps f)
  show ?case
  proof (cases "env_aborted env (ls_world ?s3)")
    case True
    then show ?thesis using Cons.prems r e f by (auto simp: Let_def)
  next
    case False
    obtain fs' ms' s4 where l: "sequentialLoop env ctx am tcs ?s3 = ((fs', ms'), s4)" by (metis prod.exhaust)
    then have "fs = f # fs'" "ms = ?m # ms'" "s' = s4" using Cons.prems r False by (simp_all add: Let_def)
    then show ?thesis using Cons.IH [OF l] e f by auto
  qed
qed simp

section \<open>Parallel batches\<close>

fun taskCall :: "task \<Rightarrow> tool_call" where
  "taskCall (Settled f) = fin_toolCall f"
| "taskCall (Deferred tc _ _) = tc"
| "taskCall (Running tc _ _ _) = tc"

definition settledIds :: "task list \<Rightarrow> string multiset" where
  "settledIds ts = image_mset (tc_id \<circ> taskCall) (filter_mset (\<lambda>t. settledOf t \<noteq> None) (mset ts))"

lemma parallelPrepare_facts:
  assumes "parallelPrepare env ctx am tcs s = (ts, s')"
  shows "map taskCall ts = take (length ts) tcs \<and> messageEnds s' = messageEnds s \<and>
         mset (endIds s') = mset (endIds s) + settledIds ts \<and>
         (length ts < length tcs \<longrightarrow> env_aborted env (ls_world s'))"
  using assms
proof (induction tcs arbitrary: s ts s')
  case (Cons tc tcs)
  let ?s1 = "emitToolExecutionStart env tc s"
  obtain prep w where p: "prepareToolCall env ctx am tc (ls_world ?s1) = (prep, w)" by force
  obtain t s3 where t: "(case prep of
        Immediate r isError \<Rightarrow> (let f = \<lparr>fin_toolCall = tc, fin_result = r, fin_isError = isError\<rparr>
           in (Settled f, emitToolExecutionEnd env f (?s1\<lparr>ls_world := w\<rparr>)))
      | Prepared tc' tool args \<Rightarrow> (Deferred tc' tool args, ?s1\<lparr>ls_world := w\<rparr>)) = (t, s3)" by force
  have c: "prep = Prepared tc' tool args \<Longrightarrow> tc' = tc" for tc' tool args
    using prepareToolCall_prepared [of env ctx am tc "ls_world ?s1"] p by simp
  have tf: "taskCall t = tc" "messageEnds s3 = messageEnds s" "mset (endIds s3) = mset (endIds s) + settledIds [t]"
    using t c by (auto simp: Let_def emits event_simps settledIds_def split: preparation.splits)
  show ?case
  proof (cases "env_aborted env (ls_world s3)")
    case True
    then have "ts = [t]" "s' = s3" using Cons.prems p t by (simp_all add: Let_def)
    then show ?thesis using tf True by simp
  next
    case False
    obtain ts' s4 where l: "parallelPrepare env ctx am tcs s3 = (ts', s4)" by force
    then have "ts = t # ts'" "s' = s4" using Cons.prems p t False by (simp_all add: Let_def)
    then show ?thesis using Cons.IH [OF l] tf by (auto simp: settledIds_def)
  qed
qed (simp add: settledIds_def)

lemma taskStep_facts:
  assumes "taskStep env ctx am t s = (t', s')"
  shows "taskCall t' = taskCall t \<and> messageEnds s' = messageEnds s \<and>
         mset (endIds s') + settledIds [t] = mset (endIds s) + settledIds [t'] \<and>
         (settledOf t \<noteq> None \<longrightarrow> t' = t)"
proof -
  have "fin_toolCall f = tc" if "finalizeExecutedToolCall env ctx am tc args executed w = (f, w')" for tc args executed w f w'
    using finalize_call [of env ctx am tc args executed w] that by simp
  then show ?thesis
    using assms by (cases "(env, ctx, am, t, s)" rule: taskStep.cases)
      (auto simp: Let_def emits event_simps settledIds_def split: if_splits prod.splits)
qed

lemma settledIds_update:
  assumes "i < length ts"
  shows "settledIds (ts[i := t]) + settledIds [ts ! i] = settledIds ts + settledIds [t]"
proof -
  have "mset (ts[i := t]) + {#ts ! i#} = mset ts + {#t#}"
    using assms by (simp add: mset_update)
  then have "settledIds (ts[i := t]) + settledIds [ts ! i] =
      image_mset (tc_id \<circ> taskCall) (filter_mset (\<lambda>t. settledOf t \<noteq> None) (mset ts + {#t#}))"
    by (metis (no_types, lifting) filter_union_mset image_mset_union mset_single_iff settledIds_def mset.simps)
  then show ?thesis by (simp add: settledIds_def)
qed

lemma runSchedule_facts:
  assumes "runSchedule env ctx am is ts s = (ts', s')"
  shows "map taskCall ts' = map taskCall ts \<and> messageEnds s' = messageEnds s \<and>
         mset (endIds s') + settledIds ts = mset (endIds s) + settledIds ts'"
  using assms
proof (induction "is" arbitrary: ts s)
  case (Cons i "is")
  show ?case
  proof (cases "i < length ts")
    case True
    obtain t s1 where t: "taskStep env ctx am (ts ! i) s = (t, s1)" by force
    then have r: "runSchedule env ctx am is (ts[i := t]) s1 = (ts', s')" using Cons.prems True by simp
    have "map taskCall (ts[i := t]) = map taskCall ts"
      using taskStep_facts [OF t] True by (simp add: map_update list_update_same_conv)
    moreover have "mset (endIds s') + settledIds ts = mset (endIds s) + settledIds ts'"
      using Cons.IH [OF r] taskStep_facts [OF t] settledIds_update [OF True, of t]
      by (smt (verit) add.assoc add.commute add_left_cancel)
    ultimately show ?thesis using Cons.IH [OF r] taskStep_facts [OF t] by simp
  next
    case False
    then show ?thesis using Cons.IH Cons.prems by simp
  qed
qed simp

lemma allSettled_facts:
  "allSettled ts = Some fs \<Longrightarrow>
   map fin_toolCall fs = map taskCall ts \<and> settledIds ts = mset (map (tc_id \<circ> fin_toolCall) fs)"
proof (induction ts arbitrary: fs)
  case (Cons t ts)
  then obtain f fs' where "t = Settled f" "fs = f # fs'" "allSettled ts = Some fs'"
    by (cases t) (auto split: option.splits)
  then show ?case using Cons.IH [of fs'] by (simp add: settledIds_def)
qed (simp add: settledIds_def)

lemma emitResults_facts:
  "emitResults env fs s = (ms, s') \<Longrightarrow>
   map tr_toolCallId ms = map (tc_id \<circ> fin_toolCall) fs \<and> endIds s' = endIds s \<and>
   messageEnds s' = messageEnds s @ map ToolResult ms"
proof (induction fs arbitrary: s ms s')
  case (Cons f fs)
  let ?m = "createToolResultMessage f (env_now env (ls_world s))"
  obtain ms' s1 where l: "emitResults env fs (emitToolResultMessage env ?m s) = (ms', s1)" by force
  then have "ms = ?m # ms'" "s' = s1" using Cons.prems by (simp_all add: Let_def)
  then show ?case using Cons.IH [OF l] by (simp add: emits event_simps)
qed simp

text \<open>
  How often a task must still be scheduled before it settles, when no tool reports more than \<open>u\<close>
  updates: a deferred task starts, delivers its updates and is finalised.
\<close>

fun stepsLeft :: "nat \<Rightarrow> task \<Rightarrow> nat" where
  "stepsLeft u (Settled f) = 0"
| "stepsLeft u (Deferred tc tool args) = u + 2"
| "stepsLeft u (Running tc args us executed) = Suc (length us)"

lemma taskStep_progress:
  assumes "\<And>tool i args w. length (tn_updates (fst (env_execute env tool i args w))) \<le> u"
  shows "stepsLeft u (fst (taskStep env ctx am t s)) \<le> stepsLeft u t - 1"
proof (cases "(env, ctx, am, t, s)" rule: taskStep.cases)
  case (2 env' ctx' am' tc tool args s')
  then show ?thesis using assms [of tool "tc_id tc" args "ls_world s"] by (auto simp: Let_def split: prod.split)
qed (simp_all add: Let_def split: prod.split)

lemma runSchedule_progress:
  assumes "\<And>tool i args w. length (tn_updates (fst (env_execute env tool i args w))) \<le> u" and "k < length ts"
  shows "stepsLeft u (fst (runSchedule env ctx am is ts s) ! k) \<le> stepsLeft u (ts ! k) - count_list is k"
  using assms(2)
proof (induction "is" arbitrary: ts s)
  case (Cons i "is")
  let ?r = "taskStep env ctx am (ts ! i) s"
  have step: "stepsLeft u (fst ?r) \<le> stepsLeft u (ts ! i) - 1" by (rule taskStep_progress [OF assms(1)])
  have "stepsLeft u (fst (runSchedule env ctx am is (ts[i := fst ?r]) (snd ?r)) ! k) \<le>
        stepsLeft u (ts[i := fst ?r] ! k) - count_list is k"
    using Cons.prems by (intro Cons.IH) simp
  then show ?case using Cons.IH [of ts s] Cons.prems step
    by (cases "k = i") (auto simp: case_prod_beta)
qed simp

lemma parallelPrepare_steps: "t \<in> set (fst (parallelPrepare env ctx am tcs s)) \<Longrightarrow> stepsLeft u t \<le> u + 2"
proof (induction tcs arbitrary: s)
  case (Cons tc tcs)
  have ih: "parallelPrepare env ctx am tcs s' = (ts, s'') \<Longrightarrow> t \<in> set ts \<Longrightarrow> stepsLeft u t \<le> Suc (Suc u)" for s' ts s''
    using Cons.IH [of s'] by simp
  show ?case using Cons.prems by (auto simp: Let_def split: prod.splits preparation.splits if_splits intro: ih)
qed simp

lemma stepsLeft_settled: "stepsLeft u t = 0 \<Longrightarrow> settledOf t \<noteq> None"
  by (cases t) simp_all

lemma allSettled_complete: "(\<And>t. t \<in> set ts \<Longrightarrow> settledOf t \<noteq> None) \<Longrightarrow> allSettled ts \<noteq> None"
proof (induction ts)
  case (Cons t ts)
  obtain f where "settledOf t = Some f" using Cons.prems [of t] by auto
  then show ?case using Cons by auto
qed simp

text \<open>A schedule that gives every task \<open>u + 2\<close> turns settles a prepared batch.\<close>

lemma fair_schedule_settles:
  assumes u: "\<And>tool i args w. length (tn_updates (fst (env_execute env tool i args w))) \<le> u"
    and p: "parallelPrepare env ctx am tcs s = (ts, s1)" and turns: "\<And>i. i < length ts \<Longrightarrow> u + 2 \<le> count_list is i"
  shows "allSettled (fst (runSchedule env ctx am is ts s1)) \<noteq> None"
proof (rule allSettled_complete)
  let ?ts = "fst (runSchedule env ctx am is ts s1)"
  fix t
  assume "t \<in> set ?ts"
  moreover have "length ?ts = length ts" using runSchedule_facts [of env ctx am "is" ts s1] by (metis length_map prod.collapse)
  ultimately obtain k where k: "k < length ts" "t = ?ts ! k" by (metis in_set_conv_nth)
  have "stepsLeft u (ts ! k) \<le> u + 2" using parallelPrepare_steps [of "ts ! k" env ctx am tcs s u] p k by simp
  then have "stepsLeft u t = 0" using runSchedule_progress [OF u, where k = k and ts = ts] turns [OF k(1)] k
    by (metis diff_is_0_eq le_trans le_zero_eq)
  then show "settledOf t \<noteq> None" by (rule stepsLeft_settled)
qed

section \<open>No run events\<close>

lemma runOneSequential_run: "runEvents (snd (runOneSequential env ctx am tc s)) = runEvents s"
  by (auto simp: runOneSequential_def Let_def executePreparedToolCall_def emits event_simps
      split: preparation.splits prod.splits)

lemma sequentialLoop_run: "runEvents (snd (sequentialLoop env ctx am tcs s)) = runEvents s"
proof (induction tcs arbitrary: s)
  case (Cons tc tcs)
  have "runEvents s1 = runEvents s" if "runOneSequential env ctx am tc s = (f, s1)" for f s1
    using runOneSequential_run [of env ctx am tc s] that by simp
  moreover have "runEvents s4 = runEvents s3" if "sequentialLoop env ctx am tcs s3 = (x, s4)" for x s3 s4
    using Cons.IH [of s3] that by simp
  ultimately show ?case by (auto simp: Let_def emits event_simps split: prod.splits)
qed simp

lemma parallelPrepare_run: "runEvents (snd (parallelPrepare env ctx am tcs s)) = runEvents s"
proof (induction tcs arbitrary: s)
  case (Cons tc tcs)
  have "runEvents s4 = runEvents s3" if "parallelPrepare env ctx am tcs s3 = (x, s4)" for x s3 s4
    using Cons.IH [of s3] that by simp
  then show ?case by (auto simp: Let_def emits event_simps split: prod.splits preparation.splits)
qed simp

lemma taskStep_run: "runEvents (snd (taskStep env ctx am t s)) = runEvents s"
  by (cases "(env, ctx, am, t, s)" rule: taskStep.cases) (auto simp: Let_def emits event_simps split: prod.splits)

lemma runSchedule_run: "runEvents (snd (runSchedule env ctx am is ts s)) = runEvents s"
proof (induction "is" arbitrary: ts s)
  case (Cons i "is")
  have "runEvents s1 = runEvents s" if "taskStep env ctx am (ts ! i) s = (t, s1)" for t s1
    using taskStep_run [of env ctx am "ts ! i" s] that by simp
  then show ?case using Cons.IH by (auto split: prod.splits)
qed simp

lemma emitResults_run: "runEvents (snd (emitResults env fs s)) = runEvents s"
proof (induction fs arbitrary: s)
  case (Cons f fs)
  have "runEvents s2 = runEvents s1" if "emitResults env fs s1 = (x, s2)" for x s1 s2
    using Cons.IH [of s1] that by simp
  then show ?case by (auto simp: Let_def emits event_simps split: prod.splits)
qed simp

lemma executeToolCalls_run:
  assumes "executeToolCalls env ctx am s = Some (b, s')"
  shows "runEvents s' = runEvents s"
proof -
  have "runEvents s' = runEvents s" if "executeToolCallsSequential env ctx am tcs s = (b, s')" for tcs
    using that sequentialLoop_run [of env ctx am tcs s] by (auto simp: executeToolCallsSequential_def split: prod.splits)
  moreover have "runEvents s' = runEvents s" if "executeToolCallsParallel env ctx am tcs s = Some (b, s')" for tcs
    using that parallelPrepare_run [of env ctx am tcs s]
    by (auto simp: executeToolCallsParallel_def split: prod.splits option.splits)
       (metis emitResults_run runSchedule_run snd_conv)
  ultimately show ?thesis using assms by (auto simp: executeToolCalls_def Let_def split: if_splits)
qed

lemma truncated_facts:
  assumes "failToolCallsFromTruncatedMessage env tcs s = (b, s')"
  shows "map tr_toolCallId (eb_messages b) = map tc_id tcs \<and> list_all tr_isError (eb_messages b) \<and> \<not> eb_terminate b \<and>
         messageEnds s' = messageEnds s @ map ToolResult (eb_messages b) \<and> endIds s' = endIds s @ map tc_id tcs \<and>
         runEvents s' = runEvents s"
  using assms
proof (induction tcs arbitrary: s b s')
  case (Cons tc tcs)
  let ?f = "\<lparr>fin_toolCall = tc, fin_result = createErrorToolResult (truncatedText tc), fin_isError = True\<rparr>"
  let ?s2 = "emitToolExecutionEnd env ?f (emitToolExecutionStart env tc s)"
  let ?m = "createToolResultMessage ?f (env_now env (ls_world ?s2))"
  obtain b1 s4 where r: "failToolCallsFromTruncatedMessage env tcs (emitToolResultMessage env ?m ?s2) = (b1, s4)" by force
  then have "b = \<lparr>eb_messages = ?m # eb_messages b1, eb_terminate = False\<rparr>" "s' = s4" using Cons.prems by (simp_all add: Let_def)
  then show ?case using Cons.IH [OF r] by (simp add: emits event_simps)
qed auto

section \<open>The order of events\<close>

text \<open>
  Where a run is after some of its events, as a listener sees it. Turns do not nest, messages and tool
  executions belong to a turn, and between the start and the end of a message there are only its updates:
  an assistant message may change while it is open, any other message is started and ended unchanged.
\<close>

datatype phase = BeforeRun | BetweenTurns | InTurn | InMessage agent_message | Ended

fun advance :: "phase \<Rightarrow> agent_event \<Rightarrow> phase option" where
  "advance BeforeRun AgentStart = Some BetweenTurns"
| "advance BetweenTurns TurnStart = Some InTurn"
| "advance BetweenTurns (AgentEnd ms) = Some Ended"
| "advance InTurn (MessageStart m) = Some (InMessage m)"
| "advance InTurn (ToolExecutionStart i n args) = Some InTurn"
| "advance InTurn (ToolExecutionUpdate i n args r) = Some InTurn"
| "advance InTurn (ToolExecutionEnd i n r b) = Some InTurn"
| "advance InTurn (TurnEnd m rs) = Some BetweenTurns"
| "advance (InMessage m) (MessageUpdate m') = (if isAssistant m \<and> isAssistant m' then Some (InMessage m) else None)"
| "advance (InMessage m) (MessageEnd m') = (if m' = m \<or> isAssistant m \<and> isAssistant m' then Some InTurn else None)"
| "advance _ _ = None"

definition phaseAfter :: "agent_event list \<Rightarrow> phase option" where
  "phaseAfter es = fold (\<lambda>ev p. Option.bind p (\<lambda>p. advance p ev)) es (Some BeforeRun)"

abbreviation phaseOf :: "'w loop_state \<Rightarrow> phase option" where
  "phaseOf s \<equiv> phaseAfter (ls_events s)"

lemma phase_emit [event_simps]: "phaseOf (emit env ev s) = Option.bind (phaseOf s) (\<lambda>p. advance p ev)"
  by (simp add: phaseAfter_def emit_def)

lemma phase_updates:
  "phaseOf s = Some InTurn \<Longrightarrow> phaseOf (fold (emitUpdate env tc) us s) = Some InTurn"
  by (induction us arbitrary: s) (simp_all add: emits event_simps)

lemma phase_truncated:
  "phaseOf s = Some InTurn \<Longrightarrow> phaseOf (snd (failToolCallsFromTruncatedMessage env tcs s)) = Some InTurn"
  by (induction tcs arbitrary: s) (simp_all add: Let_def emits event_simps case_prod_beta)

lemma phase_runOneSequential:
  "phaseOf s = Some InTurn \<Longrightarrow> phaseOf (snd (runOneSequential env ctx am tc s)) = Some InTurn"
  by (auto simp: runOneSequential_def Let_def executePreparedToolCall_def emits event_simps
      split: preparation.splits prod.splits intro!: phase_updates)

lemma phase_sequentialLoop:
  "phaseOf s = Some InTurn \<Longrightarrow> phaseOf (snd (sequentialLoop env ctx am tcs s)) = Some InTurn"
proof (induction tcs arbitrary: s)
  case (Cons tc tcs)
  have "phaseOf (snd (runOneSequential env ctx am tc s)) = Some InTurn" by (rule phase_runOneSequential [OF Cons.prems])
  then show ?case using Cons.IH by (simp add: Let_def emits event_simps case_prod_beta)
qed simp

lemma phase_parallelPrepare:
  "phaseOf s = Some InTurn \<Longrightarrow> phaseOf (snd (parallelPrepare env ctx am tcs s)) = Some InTurn"
proof (induction tcs arbitrary: s)
  case (Cons tc tcs)
  then show ?case by (simp add: Let_def emits event_simps case_prod_beta split: preparation.split)
qed simp

lemma phase_taskStep: "phaseOf s = Some InTurn \<Longrightarrow> phaseOf (snd (taskStep env ctx am t s)) = Some InTurn"
  by (cases "(env, ctx, am, t, s)" rule: taskStep.cases) (auto simp: Let_def emits event_simps split: prod.splits)

lemma phase_runSchedule: "phaseOf s = Some InTurn \<Longrightarrow> phaseOf (snd (runSchedule env ctx am is ts s)) = Some InTurn"
proof (induction "is" arbitrary: ts s)
  case (Cons i "is")
  then show ?case using Cons.IH [OF phase_taskStep [OF Cons.prems, of env ctx am "ts ! i"]] Cons.IH [OF Cons.prems]
    by (simp add: case_prod_beta)
qed simp

lemma phase_emitResults: "phaseOf s = Some InTurn \<Longrightarrow> phaseOf (snd (emitResults env fs s)) = Some InTurn"
  by (induction fs arbitrary: s) (simp_all add: Let_def emits event_simps case_prod_beta)

lemma phase_executeToolCalls:
  assumes "executeToolCalls env ctx am s = Some (b, s')" and "phaseOf s = Some InTurn"
  shows "phaseOf s' = Some InTurn"
proof -
  have "phaseOf s' = Some InTurn" if "executeToolCallsSequential env ctx am tcs s = (b, s')" for tcs
    using that phase_sequentialLoop [OF assms(2), of env ctx am tcs] by (auto simp: executeToolCallsSequential_def split: prod.splits)
  moreover have "phaseOf s' = Some InTurn" if par: "executeToolCallsParallel env ctx am tcs s = Some (b, s')" for tcs
  proof -
    obtain ts s1 where p: "parallelPrepare env ctx am tcs s = (ts, s1)" by force
    obtain ts' s2 where r: "runSchedule env ctx am (env_schedule env (ls_world s1)) ts s1 = (ts', s2)" by (metis prod.exhaust)
    obtain fs where a: "allSettled ts' = Some fs" using par p r by (auto simp: executeToolCallsParallel_def split: option.splits)
    obtain ms s3 where e: "emitResults env fs s2 = (ms, s3)" by force
    have "phaseOf s1 = Some InTurn" using phase_parallelPrepare [OF assms(2), of env ctx am tcs] p by simp
    then have "phaseOf s2 = Some InTurn" using phase_runSchedule [of s1 env ctx am _ ts] r by (metis snd_conv)
    then show ?thesis using phase_emitResults [of s2 env fs] e par p r a by (simp add: executeToolCallsParallel_def)
  qed
  ultimately show ?thesis using assms(1) by (auto simp: executeToolCalls_def Let_def split: if_splits)
qed

section \<open>Properties\<close>

lemma executeToolCalls_facts:
  assumes "executeToolCalls env ctx am s = Some (b, s')"
  shows "\<exists>n \<le> length (toolCallsOf (am_content am)).
           map tr_toolCallId (eb_messages b) = map tc_id (take n (toolCallsOf (am_content am))) \<and>
           messageEnds s' = messageEnds s @ map ToolResult (eb_messages b) \<and>
           mset (endIds s') = mset (endIds s) + mset (map tc_id (take n (toolCallsOf (am_content am)))) \<and>
           ((\<forall>w. \<not> env_aborted env w) \<longrightarrow> n = length (toolCallsOf (am_content am)))"
proof -
  let ?tcs = "toolCallsOf (am_content am)"
  consider "executeToolCallsSequential env ctx am ?tcs s = (b, s')" | "executeToolCallsParallel env ctx am ?tcs s = Some (b, s')"
    using assms by (auto simp: executeToolCalls_def Let_def split: if_splits)
  then show ?thesis
  proof cases
    case 1
    obtain fs ms s1 where l: "sequentialLoop env ctx am ?tcs s = ((fs, ms), s1)" by (metis prod.exhaust)
    then have b: "eb_messages b = ms" "s' = s1" using 1 by (auto simp: executeToolCallsSequential_def)
    note f = sequentialLoop_facts [OF l]
    have "map (tc_id \<circ> fin_toolCall) fs = map tc_id (take (length fs) ?tcs)" using f by (metis map_map)
    moreover have "length fs \<le> length ?tcs" using f by (metis length_map length_take min.cobounded1)
    ultimately show ?thesis using f b by (intro exI [of _ "length fs"]) (auto simp: not_less)
  next
    case 2
    obtain ts s1 where p: "parallelPrepare env ctx am ?tcs s = (ts, s1)" by force
    obtain ts' s2 where r: "runSchedule env ctx am (env_schedule env (ls_world s1)) ts s1 = (ts', s2)" by force
    obtain fs where a: "allSettled ts' = Some fs" using 2 p r by (auto simp: executeToolCallsParallel_def split: option.splits)
    obtain ms s3 where e: "emitResults env fs s2 = (ms, s3)" by force
    have b: "eb_messages b = ms" "s' = s3" using 2 p r a e by (auto simp: executeToolCallsParallel_def)
    note fp = parallelPrepare_facts [OF p] and fr = runSchedule_facts [OF r] and fa = allSettled_facts [OF a] and fe = emitResults_facts [OF e]
    have calls: "map fin_toolCall fs = take (length ts) ?tcs" using fp fr fa by simp
    then have ids: "map (tc_id \<circ> fin_toolCall) fs = map tc_id (take (length ts) ?tcs)" by (metis map_map)
    have "length ts \<le> length ?tcs" using fp by (metis length_map length_take min.cobounded1)
    moreover have "mset (endIds s') = mset (endIds s) + mset (map tc_id (take (length ts) ?tcs))"
    proof -
      have "mset (endIds s2) + settledIds ts = (mset (endIds s) + settledIds ts') + settledIds ts"
        using fr fp by (simp add: ac_simps)
      then show ?thesis using fe fa b ids by (simp add: add_right_cancel)
    qed
    ultimately show ?thesis using fp fr fe b ids by (intro exI [of _ "length ts"]) (auto simp: not_less)
  qed
qed

text \<open>
  C9 (one result per call): when a batch returns, its tool results answer the calls of the
  assistant message in their order, whatever order concurrent tools finished in: one result and one
  end event per call, each result also announced to the listeners. Without an abort every call is
  answered; after an abort the answered calls are a prefix.
\<close>

theorem executeToolCalls_one_result_per_call:
  assumes "executeToolCalls env ctx am s = Some (b, s')"
  shows "prefix (map tr_toolCallId (eb_messages b)) (map tc_id (toolCallsOf (am_content am))) \<and>
         mset (endIds s') = mset (endIds s) + mset (map tr_toolCallId (eb_messages b)) \<and>
         messageEnds s' = messageEnds s @ map ToolResult (eb_messages b) \<and>
         ((\<forall>w. \<not> env_aborted env w) \<longrightarrow> map tr_toolCallId (eb_messages b) = map tc_id (toolCallsOf (am_content am)))"
proof -
  let ?ids = "map tc_id (toolCallsOf (am_content am))"
  obtain n where n: "map tr_toolCallId (eb_messages b) = take n ?ids"
    "messageEnds s' = messageEnds s @ map ToolResult (eb_messages b)"
    "mset (endIds s') = mset (endIds s) + mset (take n ?ids)"
    "(\<forall>w. \<not> env_aborted env w) \<longrightarrow> n = length ?ids"
    using executeToolCalls_facts [OF assms] by (auto simp: take_map)
  show ?thesis unfolding n(1) using n(2-4) by (simp add: take_is_prefix)
qed

text \<open>A unit world with one echo tool.\<close>

definition echoTool :: agent_tool where
  "echoTool = \<lparr>t_name = ''echo'', t_description = [], t_parameters = JObj [], t_constrainedSampling = None,
     at_label = ''echo'', at_executionMode = None\<rparr>"

definition echoEnv :: "unit loop_env" where
  "echoEnv = \<lparr>env_emit = (\<lambda>_ w. w), env_aborted = (\<lambda>_. False), env_now = (\<lambda>_. 0),
     env_prepareArguments = (\<lambda>_. None), env_validate = (\<lambda>_ tc. Inr (tc_arguments tc)),
     env_execute = (\<lambda>t i args w. (\<lparr>tn_updates = [], tn_lateUpdates = [], tn_outcome = Inr (createErrorToolResult i)\<rparr>, w)),
     env_beforeToolCall = None, env_afterToolCall = None, env_toolExecution = None, env_schedule = (\<lambda>_. [1, 0, 1, 0])\<rparr>"

definition echoCall :: "string \<Rightarrow> tool_call" where
  "echoCall i = \<lparr>tc_id = i, tc_name = ''echo'', tc_arguments = [], tc_thoughtSignature = None, tc_namespace = None\<rparr>"

definition echoAssistant :: assistant_message where
  "echoAssistant = \<lparr>am_content = [ToolCallBlock (echoCall ''a''), ToolCallBlock (echoCall ''b'')], am_api = [], am_provider = [],
     am_model = [], am_usage = None, am_stopReason = ToolUse, am_errorMessage = None, am_timestamp = 0, am_rest = []\<rparr>"

definition echoContext :: agent_context where
  "echoContext = \<lparr>ctx_messages = [], ctx_tools = Some [echoTool]\<rparr>"

lemma echo_runs: "executeToolCalls echoEnv echoContext echoAssistant \<lparr>ls_world = (), ls_events = []\<rparr> \<noteq> None"
  by (simp add: executeToolCalls_def echoAssistant_def findTool_def echoContext_def echoTool_def echoCall_def Let_def
      echoEnv_def executeToolCallsParallel_def prepareToolCall_def prepareToolCallArguments_def emits emit_def
      finalizeExecutedToolCall_def executedOutcome_def)

theorem executeToolCalls_one_result_per_call_witness:
  "\<exists>b s'. executeToolCalls echoEnv echoContext echoAssistant \<lparr>ls_world = (), ls_events = []\<rparr> = Some (b, s') \<and>
     map tr_toolCallId (eb_messages b) = [''a'', ''b'']"
proof -
  obtain b s' where e: "executeToolCalls echoEnv echoContext echoAssistant \<lparr>ls_world = (), ls_events = []\<rparr> = Some (b, s')"
    using echo_runs by fastforce
  from executeToolCalls_one_result_per_call [OF e] have "map tr_toolCallId (eb_messages b) = map tc_id (toolCallsOf (am_content echoAssistant))"
    by (simp add: echoEnv_def)
  with e show ?thesis by (simp add: echoAssistant_def echoCall_def)
qed

text \<open>
  C31 (progress of a batch): when no tool reports more than \<open>u\<close> updates, every interleaving that gives
  each call of the batch \<open>u + 2\<close> turns (its start, its updates, its finalisation) makes the batch
  return, whatever the tools and hooks do; without an abort every call has its result then.
\<close>

theorem parallel_batch_progress:
  assumes "\<And>tool i args w. length (tn_updates (fst (env_execute env tool i args w))) \<le> u"
    and "\<And>w i. i < length (toolCallsOf (am_content am)) \<Longrightarrow> u + 2 \<le> count_list (env_schedule env w) i"
  shows "\<exists>b s'. executeToolCalls env ctx am s = Some (b, s') \<and>
           ((\<forall>w. \<not> env_aborted env w) \<longrightarrow> map tr_toolCallId (eb_messages b) = map tc_id (toolCallsOf (am_content am)))"
proof -
  let ?tcs = "toolCallsOf (am_content am)"
  obtain ts s1 where p: "parallelPrepare env ctx am ?tcs s = (ts, s1)" by force
  have "length ts \<le> length ?tcs" using parallelPrepare_facts [OF p] by (metis length_map length_take min.cobounded1)
  then have "allSettled (fst (runSchedule env ctx am (env_schedule env (ls_world s1)) ts s1)) \<noteq> None"
    using assms(2) by (intro fair_schedule_settles [OF assms(1) p]) simp
  then have "executeToolCallsParallel env ctx am ?tcs s \<noteq> None"
    using p by (auto simp: executeToolCallsParallel_def split: prod.splits)
  then have "executeToolCalls env ctx am s \<noteq> None" by (simp add: executeToolCalls_def Let_def)
  then obtain b s' where e: "executeToolCalls env ctx am s = Some (b, s')" by fastforce
  with executeToolCalls_facts [OF e] show ?thesis by auto
qed

theorem parallel_batch_progress_witness:
  "\<exists>b s'. executeToolCalls echoEnv echoContext echoAssistant \<lparr>ls_world = (), ls_events = []\<rparr> = Some (b, s') \<and>
     map tr_toolCallId (eb_messages b) = [''a'', ''b'']"
proof -
  have "\<exists>b s'. executeToolCalls echoEnv echoContext echoAssistant \<lparr>ls_world = (), ls_events = []\<rparr> = Some (b, s') \<and>
          ((\<forall>w. \<not> env_aborted echoEnv w) \<longrightarrow>
           map tr_toolCallId (eb_messages b) = map tc_id (toolCallsOf (am_content echoAssistant)))"
    by (rule parallel_batch_progress [of echoEnv 0]) (auto simp: echoEnv_def echoAssistant_def less_Suc_eq)
  then show ?thesis by (auto simp: echoEnv_def echoAssistant_def echoCall_def)
qed

end
