(* ===== verification/Effects.thy ===== *)
theory Effects
  imports Prelude
begin

text \<open>
  Methods that change a state and may throw: the state after the call is kept when they throw. The outer
  option is a walk along parent links that does not end. The locale \<open>total_effects\<close> is the contract of the
  methods of a stateful component: from a state that satisfies the invariant they return, or throw, in a
  state related to it by \<open>step\<close>; its rules follow the structure of a method.
\<close>

section \<open>Methods\<close>

type_synonym ('a, 's) effect = "'s \<Rightarrow> ('a js_result \<times> 's) option"

definition eff_return :: "'a \<Rightarrow> ('a, 's) effect" where
  "eff_return x s = Some (Inr x, s)"

definition eff_throw :: "js_error \<Rightarrow> ('a, 's) effect" where
  "eff_throw err s = Some (Inl err, s)"

definition eff_bind :: "('a, 's) effect \<Rightarrow> ('a \<Rightarrow> ('b, 's) effect) \<Rightarrow> ('b, 's) effect" where
  "eff_bind m f s =
     (case m s of
        None \<Rightarrow> None
      | Some (Inl err, s') \<Rightarrow> Some (Inl err, s')
      | Some (Inr x, s') \<Rightarrow> f x s')"

definition eff_lift :: "'a js_result \<Rightarrow> ('a, 's) effect" where
  "eff_lift r s = Some (r, s)"

text \<open>Reading and assigning fields.\<close>

definition eff_get :: "('s \<Rightarrow> ('a, 's) effect) \<Rightarrow> ('a, 's) effect" where
  "eff_get f s = f s s"

definition eff_modify :: "('s \<Rightarrow> 's) \<Rightarrow> (unit, 's) effect" where
  "eff_modify f s = Some (Inr (), f s)"

text \<open>A computation that walks the session and changes nothing.\<close>

definition eff_query :: "('s \<Rightarrow> 'a option) \<Rightarrow> ('a, 's) effect" where
  "eff_query f s = map_option (\<lambda>x. (Inr x, s)) (f s)"

text \<open>\<open>try { m } catch (err) { h }\<close>\<close>

definition eff_catch :: "('a, 's) effect \<Rightarrow> (js_error \<Rightarrow> ('a, 's) effect) \<Rightarrow> ('a, 's) effect" where
  "eff_catch m h s =
     (case m s of
        None \<Rightarrow> None
      | Some (Inl err, s') \<Rightarrow> h err s'
      | Some (Inr x, s') \<Rightarrow> Some (Inr x, s'))"

text \<open>\<open>for (const x of xs) \<dots>\<close>, with the position of the step.\<close>

fun eff_forEach :: "nat \<Rightarrow> (nat \<Rightarrow> 'a \<Rightarrow> (unit, 's) effect) \<Rightarrow> 'a list \<Rightarrow> (unit, 's) effect" where
  "eff_forEach i f [] = eff_return ()"
| "eff_forEach i f (x # xs) = eff_bind (f i x) (\<lambda>_. eff_forEach (Suc i) f xs)"

lemma eff_bind_Some:
  "eff_bind m f s = Some (Inr y, s') \<longleftrightarrow> (\<exists>x s1. m s = Some (Inr x, s1) \<and> f x s1 = Some (Inr y, s'))"
  by (auto simp: eff_bind_def split: option.splits sum.splits prod.splits)

lemma eff_forEach_cong: "(\<And>i b. b \<in> set bs \<Longrightarrow> f i b = g i b) \<Longrightarrow> eff_forEach i f bs = eff_forEach i g bs"
  by (induction bs arbitrary: i) auto

section \<open>Contracts of methods\<close>

definition runs :: "('s \<Rightarrow> bool) \<Rightarrow> ('s \<Rightarrow> 's \<Rightarrow> bool) \<Rightarrow> ('a, 's) effect \<Rightarrow> bool" where
  "runs ok step m \<longleftrightarrow> (\<forall>s. ok s \<longrightarrow> (\<exists>r s'. m s = Some (r, s') \<and> step s s'))"

lemma runsI: "(\<And>s. ok s \<Longrightarrow> \<exists>r s'. m s = Some (r, s') \<and> step s s') \<Longrightarrow> runs ok step m"
  by (simp add: runs_def)

lemma runsE:
  assumes "runs ok step m" and "ok s"
  obtains r s' where "m s = Some (r, s')" "step s s'"
  using assms by (auto simp: runs_def)

text \<open>The contract of a method that may not return.\<close>

definition keeps :: "('s \<Rightarrow> bool) \<Rightarrow> ('s \<Rightarrow> 's \<Rightarrow> bool) \<Rightarrow> ('a, 's) effect \<Rightarrow> bool" where
  "keeps ok step m \<longleftrightarrow> (\<forall>s r s'. ok s \<longrightarrow> m s = Some (r, s') \<longrightarrow> step s s')"

lemma runs_keeps: "runs ok step m \<Longrightarrow> keeps ok step m"
  unfolding runs_def keeps_def by fastforce

text \<open>What a method may return.\<close>

definition yields :: "('a \<Rightarrow> bool) \<Rightarrow> ('a, 's) effect \<Rightarrow> bool" where
  "yields P m \<longleftrightarrow> (\<forall>s x s'. m s = Some (Inr x, s') \<longrightarrow> P x)"

lemma yields_return: "P x \<Longrightarrow> yields P (eff_return x)"
  by (simp add: yields_def eff_return_def)

lemma yields_throw: "yields P (eff_throw err)"
  by (simp add: yields_def eff_throw_def)

lemma yields_bind: "(\<And>x. yields P (f x)) \<Longrightarrow> yields P (eff_bind m f)"
  by (auto simp: yields_def eff_bind_Some)

lemma yields_get: "(\<And>s. yields P (f s)) \<Longrightarrow> yields P (eff_get f)"
  by (simp add: yields_def eff_get_def)

lemma yields_catch: "yields P m \<Longrightarrow> (\<And>err. yields P (h err)) \<Longrightarrow> yields P (eff_catch m h)"
  by (auto simp: yields_def eff_catch_def split: option.splits sum.splits)

lemmas yields_rules = yields_return yields_throw yields_bind yields_get yields_catch

locale total_effects =
  fixes ok :: "'s \<Rightarrow> bool" and step :: "'s \<Rightarrow> 's \<Rightarrow> bool"
  assumes step_refl: "ok s \<Longrightarrow> step s s"
    and step_trans: "step s s' \<Longrightarrow> step s' s'' \<Longrightarrow> step s s''"
    and step_ok: "ok s \<Longrightarrow> step s s' \<Longrightarrow> ok s'"
begin

lemma runs_return: "runs ok step (eff_return x)"
  by (simp add: runs_def eff_return_def step_refl)

lemma runs_throw: "runs ok step (eff_throw err)"
  by (simp add: runs_def eff_throw_def step_refl)

lemma runs_lift: "runs ok step (eff_lift r)"
  by (simp add: runs_def eff_lift_def step_refl)

lemma runs_modify: "(\<And>s. ok s \<Longrightarrow> step s (f s)) \<Longrightarrow> runs ok step (eff_modify f)"
  by (simp add: runs_def eff_modify_def)

lemma runs_query: "(\<And>s. ok s \<Longrightarrow> f s \<noteq> None) \<Longrightarrow> runs ok step (eff_query f)"
  using step_refl by (fastforce simp: runs_def eff_query_def)

lemma runs_get: "(\<And>s. ok s \<Longrightarrow> runs ok step (f s)) \<Longrightarrow> runs ok step (eff_get f)"
  by (simp add: runs_def eff_get_def)

lemma runs_bind:
  assumes m: "runs ok step m" and f: "\<And>x. runs ok step (f x)"
  shows "runs ok step (eff_bind m f)"
proof (rule runsI)
  fix s
  assume "ok s"
  then obtain r s1 where 1: "m s = Some (r, s1)" "step s s1" "ok s1" using m step_ok by (metis runsE)
  show "\<exists>r s'. eff_bind m f s = Some (r, s') \<and> step s s'"
  proof (cases r)
    case (Inr x)
    obtain r' s2 where "f x s1 = Some (r', s2)" "step s1 s2" by (rule runsE [OF f 1(3)])
    then show ?thesis using 1 Inr by (auto simp: eff_bind_def intro: step_trans)
  qed (use 1 in \<open>simp add: eff_bind_def\<close>)
qed

lemma runs_catch:
  assumes m: "runs ok step m" and h: "\<And>err. runs ok step (h err)"
  shows "runs ok step (eff_catch m h)"
proof (rule runsI)
  fix s
  assume "ok s"
  then obtain r s1 where 1: "m s = Some (r, s1)" "step s s1" "ok s1" using m step_ok by (metis runsE)
  show "\<exists>r s'. eff_catch m h s = Some (r, s') \<and> step s s'"
  proof (cases r)
    case (Inl err)
    obtain r' s2 where "h err s1 = Some (r', s2)" "step s1 s2" by (rule runsE [OF h 1(3)])
    then show ?thesis using 1 Inl by (auto simp: eff_catch_def intro: step_trans)
  qed (use 1 in \<open>simp add: eff_catch_def\<close>)
qed

lemma runs_forEach: "(\<And>i x. runs ok step (f i x)) \<Longrightarrow> runs ok step (eff_forEach i f xs)"
  by (induction xs arbitrary: i) (auto intro: runs_bind runs_return)

lemma keeps_get: "(\<And>s. ok s \<Longrightarrow> keeps ok step (f s)) \<Longrightarrow> keeps ok step (eff_get f)"
  by (simp add: keeps_def eff_get_def)

lemma keeps_bind:
  assumes "keeps ok step m" and "\<And>x. keeps ok step (f x)"
  shows "keeps ok step (eff_bind m f)"
  unfolding keeps_def
proof (intro allI impI)
  fix s r s'
  assume s: "ok s" "eff_bind m f s = Some (r, s')"
  then obtain r1 s1 where 1: "m s = Some (r1, s1)" by (auto simp: eff_bind_def split: option.splits)
  then have st: "step s s1" using assms(1) s(1) by (simp add: keeps_def)
  show "step s s'"
  proof (cases r1)
    case (Inr x)
    then have "step s1 s'" using assms(2) [of x] s 1 step_ok [OF s(1) st] by (simp add: keeps_def eff_bind_def)
    then show ?thesis using st step_trans by blast
  qed (use 1 s st in \<open>simp add: eff_bind_def\<close>)
qed

lemma keeps_catch:
  assumes "keeps ok step m" and "\<And>err. keeps ok step (h err)"
  shows "keeps ok step (eff_catch m h)"
  unfolding keeps_def
proof (intro allI impI)
  fix s r s'
  assume s: "ok s" "eff_catch m h s = Some (r, s')"
  then obtain r1 s1 where 1: "m s = Some (r1, s1)" by (auto simp: eff_catch_def split: option.splits)
  then have st: "step s s1" using assms(1) s(1) by (simp add: keeps_def)
  show "step s s'"
  proof (cases r1)
    case (Inl err)
    then have "step s1 s'" using assms(2) [of err] s 1 step_ok [OF s(1) st] by (simp add: keeps_def eff_catch_def)
    then show ?thesis using st step_trans by blast
  qed (use 1 s st in \<open>simp add: eff_catch_def\<close>)
qed

lemma keeps_modify: "(\<And>s. ok s \<Longrightarrow> step s (f s)) \<Longrightarrow> keeps ok step (eff_modify f)"
  by (simp add: keeps_def eff_modify_def)

lemma keeps_query: "keeps ok step (eff_query f)"
  by (auto simp: keeps_def eff_query_def step_refl)

lemma keeps_forEach: "(\<And>i x. keeps ok step (f i x)) \<Longrightarrow> keeps ok step (eff_forEach i f xs)"
  by (induction xs arbitrary: i) (auto intro: keeps_bind runs_keeps [OF runs_return])

lemmas keeps_rules = runs_return [THEN runs_keeps] runs_throw [THEN runs_keeps] runs_lift [THEN runs_keeps] keeps_query
  keeps_bind keeps_catch keeps_get keeps_modify keeps_forEach

lemmas runs_rules = runs_return runs_throw runs_lift runs_bind runs_catch runs_forEach

end

end
