(* ===== verification/Recovery.thy ===== *)
theory Recovery
  imports Session_Properties Summarization Tool_Execution Effects
begin

text \<open>
  How the agent session survives failing runs, \<open>packages/coding-agent/src/core/agent-session.ts\<close>: it stores the
  messages of a run as the agent's events arrive, and after each run decides whether to retry, to compact or to
  settle. The state is the part of \<open>AgentSession\<close> these methods use, with the events it has sent to its listeners
  and an abstract world of the provider, the agent's queues and the user. The user may ask to abort while a call is
  awaited. Message objects are compared by value: two messages of a session differ at least in a time or a call id.
  Extension handlers other than \<open>session_before_compact\<close> and the bash messages of the user are not modelled.
\<close>

section \<open>State\<close>

datatype compaction_reason = ManualReason | OverflowReason | ThresholdReason

record compaction_outcome =
  oc_summary :: string
  oc_firstKeptEntryId :: string
  oc_tokensBefore :: nat
  oc_usage :: "usage option"
  oc_details :: "json option"

datatype session_event =
    AgentEventSent agent_event "bool option" \<comment> \<open>the event and, at the end of a run, \<open>willRetry\<close>\<close>
  | EntryAppended session_entry
  | QueueUpdate "string list" "string list"
  | AutoRetryStart nat nat nat string \<comment> \<open>attempt, maxAttempts, delayMs, errorMessage\<close>
  | AutoRetryEnd bool nat "string option" \<comment> \<open>success, attempt, finalError\<close>
  | CompactionStart compaction_reason
  | CompactionEnd compaction_reason "(compaction_outcome \<times> nat) option" bool bool "string option"
    \<comment> \<open>reason, result with \<open>estimatedTokensAfter\<close>, aborted, willRetry, errorMessage\<close>
  | AgentSettled

record 'w run_session =
  rs_manager :: session_manager
  rs_messages :: "agent_message list" \<comment> \<open>\<open>agent.state.messages\<close>\<close>
  rs_entryIdsByMessage :: "(agent_message \<times> string) list"
  rs_lastAssistantMessage :: "assistant_message option"
  rs_lastAssistantToolResults :: "agent_message list"
  rs_retryAttempt :: nat
  rs_overflowRecoveryAttempted :: bool
  rs_agentRunAbortRequested :: bool
  rs_cancelledByExtension :: bool \<comment> \<open>a local variable of \<open>_runAutoCompaction\<close>\<close>
  rs_contextStatusLastPercent :: "rat option"
  rs_contextStatusTurnStartPercent :: "rat option"
  rs_contextStatusForceNext :: bool
  rs_pruneSkipNextCompactionCheck :: bool
  rs_steeringMessages :: "string list"
  rs_followUpMessages :: "string list"
  rs_pendingCustomMessages :: "custom_message list"
  rs_events :: "session_event list"
  rs_appends :: nat \<comment> \<open>how often the clock and the random ids have been used\<close>
  rs_world :: 'w

type_synonym ('a, 'w) run_action = "('a, 'w run_session) effect"

record session_model =
  so_provider :: string
  so_id :: string
  so_info :: model_info

record before_compact_result =
  bc_cancel :: bool
  bc_compaction :: "compaction_outcome option"

record 'w recovery_env =
  rv_model :: "session_model option"
  rv_retry :: retry_policy
  rv_compaction :: compaction_settings
  rv_thinkingLevel :: string
  rv_summarizer :: "'w summarizer"
  rv_auth :: "model_info \<Rightarrow> 'w \<Rightarrow> model_info js_result \<times> 'w" \<comment> \<open>\<open>_getSummarizationRequestAuth\<close>\<close>
  rv_beforeCompact :: "(compaction_preparation \<Rightarrow> compaction_reason \<Rightarrow> bool \<Rightarrow> 'w \<Rightarrow> before_compact_result \<times> 'w) option"
  rv_sleep :: "nat \<Rightarrow> 'w \<Rightarrow> bool \<times> 'w" \<comment> \<open>whether the sleep was aborted\<close>
  rv_abort :: "'w \<Rightarrow> bool" \<comment> \<open>whether the user asks to abort the run\<close>
  rv_compactionAborted :: "'w \<Rightarrow> bool" \<comment> \<open>the signal of the running compaction\<close>
  rv_hasQueuedMessages :: "'w \<Rightarrow> bool"
  rv_worlds :: "nat \<Rightarrow> world"
  rv_prompt :: "agent_message list \<Rightarrow> agent_message list \<Rightarrow> 'w \<Rightarrow> agent_event list \<times> unit js_result \<times> 'w"
    \<comment> \<open>\<open>agent.prompt\<close> of new messages in a context: its events, and how it ends\<close>
  rv_continue :: "agent_message list \<Rightarrow> 'w \<Rightarrow> agent_event list \<times> unit js_result \<times> 'w"

definition rs_emit :: "session_event \<Rightarrow> (unit, 'w) run_action" where
  "rs_emit ev = eff_modify (\<lambda>s. s\<lparr>rs_events := rs_events s @ [ev]\<rparr>)"

text \<open>A method of the session manager that reads the clock and draws an id.\<close>

definition rs_store ::
  "'w recovery_env \<Rightarrow> (world \<Rightarrow> session_manager \<Rightarrow> ('a js_result \<times> session_manager) option) \<Rightarrow> ('a, 'w) run_action" where
  "rs_store env f s =
     map_option (\<lambda>(r, sm'). (r, s\<lparr>rs_manager := sm', rs_appends := Suc (rs_appends s)\<rparr>))
       (f (rv_worlds env (rs_appends s)) (rs_manager s))"

text \<open>An awaited call.\<close>

definition rs_call :: "'w recovery_env \<Rightarrow> ('w \<Rightarrow> 'a js_result \<times> 'w) \<Rightarrow> ('a, 'w) run_action" where
  "rs_call env f s =
     (let (r, w) = f (rs_world s)
      in Some (r, s\<lparr>rs_world := w, rs_agentRunAbortRequested := rs_agentRunAbortRequested s \<or> rv_abort env w\<rparr>))"

definition contextWindowOf :: "'w recovery_env \<Rightarrow> int" where
  "contextWindowOf env = (case rv_model env of None \<Rightarrow> 0 | Some m \<Rightarrow> mi_contextWindow (so_info m))"

definition rs_hasQueuedMessages :: "'w recovery_env \<Rightarrow> (bool, 'w) run_action" where
  "rs_hasQueuedMessages env s = Some (Inr (rv_hasQueuedMessages env (rs_world s)), s)"

section \<open>Entries of messages\<close>

fun setEntryIds :: "projected_entry list \<Rightarrow> (agent_message \<times> string) list \<Rightarrow> (agent_message \<times> string) list" where
  "setEntryIds [] m = m"
| "setEntryIds (pe # pes) m = setEntryIds pes (fold (\<lambda>msg. AList.update msg (e_id (pe_source pe))) (pe_messages pe) m)"

definition refreshFinalizedContext :: "(unit, 'w) run_action" where
  "refreshFinalizedContext =
     eff_bind (eff_query (\<lambda>s. sm_buildSessionProjection (rs_manager s))) (\<lambda>projection.
       eff_modify (\<lambda>s. s\<lparr>rs_entryIdsByMessage := setEntryIds (sp_entries projection) (rs_entryIdsByMessage s),
                          rs_messages := sp_messages projection\<rparr>))"

definition entryMessage :: "session_entry \<Rightarrow> agent_message option" where
  "entryMessage e = (case e_data e of MessageEntry m False \<Rightarrow> Some m | _ \<Rightarrow> None)"

definition branchEntryOf :: "agent_message \<Rightarrow> session_entry list \<Rightarrow> string option" where
  "branchEntryOf m branch = map_option e_id (findLast (\<lambda>e. entryMessage e = Some m) branch)"

definition findPersistedMessageEntryId :: "agent_message \<Rightarrow> (string option, 'w) run_action" where
  "findPersistedMessageEntryId m =
     eff_get (\<lambda>s.
       case map_of (rs_entryIdsByMessage s) m of
         Some i \<Rightarrow> eff_return (Some i)
       | None \<Rightarrow>
           eff_bind (eff_query (\<lambda>s. getBranch None (rs_manager s))) (\<lambda>branch.
             case branchEntryOf m branch of
               Some i \<Rightarrow> eff_return (Some i)
             | None \<Rightarrow>
                 (case findIndex (\<lambda>x. x = m) (rs_messages s) of
                    None \<Rightarrow> eff_return None
                  | Some messageIndex \<Rightarrow>
                      eff_bind (eff_query (\<lambda>s. sm_buildSessionProjection (rs_manager s))) (\<lambda>projection.
                        case entryAtMessage (sp_entries projection) 0 messageIndex of
                          None \<Rightarrow> eff_return None
                        | Some i \<Rightarrow>
                            eff_bind (eff_modify (\<lambda>s. s\<lparr>rs_entryIdsByMessage := AList.update m i (rs_entryIdsByMessage s)\<rparr>))
                              (\<lambda>_. eff_return (Some i))))))"

fun eff_mapM :: "('a \<Rightarrow> ('b, 's) effect) \<Rightarrow> 'a list \<Rightarrow> ('b list, 's) effect" where
  "eff_mapM f [] = eff_return []"
| "eff_mapM f (x # xs) = eff_bind (f x) (\<lambda>y. eff_bind (eff_mapM f xs) (\<lambda>ys. eff_return (y # ys)))"

definition omitEntry :: "'w recovery_env \<Rightarrow> string option \<Rightarrow> (unit, 'w) run_action" where
  "omitEntry env targetId =
     (if targetId = None \<or> targetId = Some [] then eff_return ()
      else eff_bind (rs_store env (\<lambda>w. appendContextEdit w (the targetId) None False)) (\<lambda>editId.
             eff_get (\<lambda>s. case getEntry editId (rs_manager s) of
                            None \<Rightarrow> eff_return () | Some e \<Rightarrow> rs_emit (EntryAppended e))))"

definition omitRecoveryAttempt :: "'w recovery_env \<Rightarrow> assistant_message \<Rightarrow> agent_message list \<Rightarrow> (unit, 'w) run_action" where
  "omitRecoveryAttempt env message toolResults =
     (let targets = Assistant message # toolResults
      in eff_bind (eff_mapM findPersistedMessageEntryId targets) (\<lambda>targetIds.
           eff_get (\<lambda>s.
             if list_ex (\<lambda>(target, targetId). targetId = None \<and> target \<in> set (rs_messages s)) (zip targets targetIds)
             then eff_throw (JsError ''Cannot persist recovery omission because a projected message has no source entry'')
             else eff_bind (eff_forEach 0 (\<lambda>_. omitEntry env) targetIds) (\<lambda>_. refreshFinalizedContext))))"

section \<open>Retrying\<close>

definition isRetryableError :: "'w recovery_env \<Rightarrow> assistant_message \<Rightarrow> bool js_result" where
  "isRetryableError env m =
     js_bind (isContextOverflow m (Some (nat (contextWindowOf env)))) (\<lambda>overflow.
       Inr (\<not> overflow \<and> isRetryableAssistantError m))"

definition finishCancelledRetry :: "(unit, 'w) run_action" where
  "finishCancelledRetry =
     eff_get (\<lambda>s.
       if rs_retryAttempt s = 0 then eff_return ()
       else eff_bind (eff_modify (\<lambda>s. s\<lparr>rs_retryAttempt := 0\<rparr>)) (\<lambda>_.
              rs_emit (AutoRetryEnd False (rs_retryAttempt s) (Some ''Retry cancelled''))))"

definition prepareRetry :: "'w recovery_env \<Rightarrow> assistant_message \<Rightarrow> (bool, 'w) run_action" where
  "prepareRetry env message =
     (let settings = rv_retry env
      in if \<not> rp_enabled settings then eff_return False
         else eff_bind (eff_modify (\<lambda>s. s\<lparr>rs_retryAttempt := rs_retryAttempt s + 1\<rparr>)) (\<lambda>_.
           eff_get (\<lambda>s.
             if rp_maxRetries settings < rs_retryAttempt s
             then eff_bind (eff_modify (\<lambda>s. s\<lparr>rs_retryAttempt := rs_retryAttempt s - 1\<rparr>)) (\<lambda>_. eff_return False)
             else let delayMs = retryDelayMs settings (rs_retryAttempt s)
                  in eff_bind (rs_emit (AutoRetryStart (rs_retryAttempt s) (rp_maxRetries settings) delayMs (retryError message))) (\<lambda>_.
                     eff_bind (omitRecoveryAttempt env message []) (\<lambda>_.
                     eff_bind (rs_call env (\<lambda>w. let (aborted, w') = rv_sleep env delayMs w in (Inr aborted, w'))) (\<lambda>aborted.
                       if aborted then eff_bind finishCancelledRetry (\<lambda>_. eff_return False)
                       else eff_return True))))))"

definition willRetryAfterAgentEnd :: "'w recovery_env \<Rightarrow> agent_message list \<Rightarrow> 'w run_session \<Rightarrow> bool js_result" where
  "willRetryAfterAgentEnd env messages s =
     (let settings = rv_retry env
      in if rs_agentRunAbortRequested s \<or> \<not> rp_enabled settings \<or> rp_maxRetries settings \<le> rs_retryAttempt s then Inr False
         else case findLast isAssistant messages of
                Some (Assistant m) \<Rightarrow> isRetryableError env m
              | _ \<Rightarrow> Inr False)"

section \<open>Automatic compaction\<close>

definition estimateMessagesTokens :: "agent_message list \<Rightarrow> nat" where
  "estimateMessagesTokens messages = fold (\<lambda>m tokens. tokens + estimateTokens m) messages 0"

definition throwIfAborted :: "'w recovery_env \<Rightarrow> (unit, 'w) run_action" where
  "throwIfAborted env =
     eff_get (\<lambda>s. if rv_compactionAborted env (rs_world s) then eff_throw (JsError ''This operation was aborted'') else eff_return ())"

definition outcomeOf :: "compaction_result \<Rightarrow> compaction_outcome" where
  "outcomeOf r =
     \<lparr>oc_summary = cr_summary r, oc_firstKeptEntryId = cr_firstKeptEntryId r, oc_tokensBefore = cr_tokensBefore r,
      oc_usage = cr_usage r,
      oc_details = Some (JObj [(''readFiles'', JArr (map JStr (cr_readFiles r))),
                               (''modifiedFiles'', JArr (map JStr (cr_modifiedFiles r)))])\<rparr>"

definition runDefaultCompaction ::
  "'w recovery_env \<Rightarrow> compaction_preparation \<Rightarrow> model_info \<Rightarrow> string option \<Rightarrow> (compaction_outcome, 'w) run_action" where
  "runDefaultCompaction env preparation requestModel customInstructions =
     eff_bind (rs_call env (compact (rv_summarizer env) requestModel customInstructions (Some (rv_thinkingLevel env)) preparation))
       (\<lambda>r. eff_return (outcomeOf r))"

text \<open>The hook: the outcome an extension supplies, if any.\<close>

definition runBeforeCompact ::
  "'w recovery_env \<Rightarrow> compaction_preparation \<Rightarrow> compaction_reason \<Rightarrow> bool \<Rightarrow> (compaction_outcome option, 'w) run_action" where
  "runBeforeCompact env preparation reason willRetry =
     (case rv_beforeCompact env of
        None \<Rightarrow> eff_return None
      | Some handler \<Rightarrow>
          eff_bind (rs_call env (\<lambda>w. let (result, w') = handler preparation reason willRetry w in (Inr result, w'))) (\<lambda>result.
            if bc_cancel result
            then eff_bind (eff_modify (\<lambda>s. s\<lparr>rs_cancelledByExtension := True\<rparr>)) (\<lambda>_. eff_throw (JsError ''Compaction cancelled''))
            else eff_return (bc_compaction result)))"

definition compactionSummary ::
  "'w recovery_env \<Rightarrow> session_model \<Rightarrow> compaction_preparation \<Rightarrow> compaction_reason \<Rightarrow> bool
   \<Rightarrow> (compaction_outcome \<times> bool, 'w) run_action" where
  "compactionSummary env model preparation reason willRetry =
     eff_bind (throwIfAborted env) (\<lambda>_.
     eff_bind (rs_call env (rv_auth env (so_info model))) (\<lambda>requestModel.
     eff_bind (throwIfAborted env) (\<lambda>_.
     eff_bind (runBeforeCompact env preparation reason willRetry) (\<lambda>extensionCompaction.
     eff_bind (throwIfAborted env) (\<lambda>_.
     eff_bind (case extensionCompaction of
                 Some c \<Rightarrow> eff_return (c, True)
               | None \<Rightarrow> eff_bind (runDefaultCompaction env preparation requestModel None) (\<lambda>c. eff_return (c, False))) (\<lambda>result.
     eff_bind (throwIfAborted env) (\<lambda>_. eff_return result)))))))"

text \<open>The compaction joins the history and the live context is read again; the result is its estimated size.\<close>

definition storeCompaction :: "'w recovery_env \<Rightarrow> compaction_outcome \<Rightarrow> bool \<Rightarrow> (nat, 'w) run_action" where
  "storeCompaction env c fromExtension =
     eff_bind (rs_store env (\<lambda>w. appendCompaction w (oc_summary c) (Some (oc_firstKeptEntryId c)) (oc_tokensBefore c)
                                  (oc_details c) fromExtension (oc_usage c))) (\<lambda>_.
     eff_bind refreshFinalizedContext (\<lambda>_.
     eff_bind (eff_modify (\<lambda>s. s\<lparr>rs_contextStatusLastPercent := None\<rparr>)) (\<lambda>_.
     eff_bind (eff_query (\<lambda>s. sm_buildSessionProjection (rs_manager s))) (\<lambda>projection.
       eff_return (estimateMessagesTokens (sp_messages projection))))))"

definition saveCompaction ::
  "'w recovery_env \<Rightarrow> compaction_reason \<Rightarrow> bool \<Rightarrow> compaction_outcome \<times> bool \<Rightarrow> (bool, 'w) run_action" where
  "saveCompaction env reason willRetry = (\<lambda>(c, fromExtension).
     eff_bind (storeCompaction env c fromExtension) (\<lambda>estimatedTokensAfter.
     eff_bind (rs_emit (CompactionEnd reason (Some (c, estimatedTokensAfter)) False willRetry None)) (\<lambda>_.
       if willRetry then eff_return True else rs_hasQueuedMessages env)))"

definition compactionFailed :: "'w recovery_env \<Rightarrow> compaction_reason \<Rightarrow> js_error \<Rightarrow> (bool, 'w) run_action" where
  "compactionFailed env reason err =
     eff_get (\<lambda>s.
       let aborted = (rv_compactionAborted env (rs_world s) \<or> rs_cancelledByExtension s);
           errorMessage = (if aborted then None
                           else if reason = OverflowReason then Some (''Context overflow recovery failed: '' @ errorText err)
                           else Some (''Auto-compaction failed: '' @ errorText err))
       in eff_bind (rs_emit (CompactionEnd reason None aborted False errorMessage)) (\<lambda>_. eff_return False))"

definition preparedCompaction :: "'w recovery_env \<Rightarrow> session_manager \<Rightarrow> compaction_preparation option option" where
  "preparedCompaction env sm =
     Option.bind (getBranch None sm) (\<lambda>pathEntries.
       prepareCompaction pathEntries (rv_compaction env) (Some (legacyPruneChanges sm)) (getEntries sm))"

definition runAutoCompaction :: "'w recovery_env \<Rightarrow> compaction_reason \<Rightarrow> bool \<Rightarrow> (bool, 'w) run_action" where
  "runAutoCompaction env reason willRetry =
     (case rv_model env of
        None \<Rightarrow> eff_return False
      | Some model \<Rightarrow>
          eff_bind (eff_modify (\<lambda>s. s\<lparr>rs_cancelledByExtension := False\<rparr>)) (\<lambda>_.
          eff_bind (eff_query (\<lambda>s. preparedCompaction env (rs_manager s))) (\<lambda>prepared.
            case prepared of
              None \<Rightarrow> eff_return False
            | Some preparation \<Rightarrow>
                eff_bind (rs_emit (CompactionStart reason)) (\<lambda>_.
                  eff_catch
                    (eff_bind (compactionSummary env model preparation reason willRetry) (saveCompaction env reason willRetry))
                    (compactionFailed env reason)))))"

section \<open>Manual compaction\<close>

text \<open>
  \<open>AgentSession.compact\<close> of an idle session, where the abort before it does nothing. \<open>formatNoModelSelectedMessage\<close>
  is the argument \<open>noModel\<close>.
\<close>

definition manualSummary ::
  "'w recovery_env \<Rightarrow> string \<Rightarrow> string option \<Rightarrow> (compaction_outcome \<times> bool, 'w) run_action" where
  "manualSummary env noModel customInstructions =
     (case rv_model env of
        None \<Rightarrow> eff_throw (JsError noModel)
      | Some model \<Rightarrow>
          eff_bind (rs_call env (rv_auth env (so_info model))) (\<lambda>requestModel.
          eff_bind (eff_query (\<lambda>s. preparedCompaction env (rs_manager s))) (\<lambda>prepared.
            case prepared of
              None \<Rightarrow>
                eff_bind (eff_query (\<lambda>s. getBranch None (rs_manager s))) (\<lambda>pathEntries.
                  if pathEntries \<noteq> [] \<and> isCompaction (last pathEntries) then eff_throw (JsError ''Already compacted'')
                  else eff_throw (JsError ''Nothing to compact (session too small)''))
            | Some preparation \<Rightarrow>
                eff_bind (runBeforeCompact env preparation ManualReason False) (\<lambda>extensionCompaction.
                eff_bind (case extensionCompaction of
                            Some c \<Rightarrow> eff_return (c, True)
                          | None \<Rightarrow> eff_bind (runDefaultCompaction env preparation requestModel customInstructions)
                                      (\<lambda>c. eff_return (c, False))) (\<lambda>result.
                eff_get (\<lambda>s.
                  if rv_compactionAborted env (rs_world s) then eff_throw (JsError ''Compaction cancelled'')
                  else eff_return result))))))"

definition manualFailed :: "'w recovery_env \<Rightarrow> js_error \<Rightarrow> ('a, 'w) run_action" where
  "manualFailed env err =
     eff_get (\<lambda>s.
       let aborted = (rv_compactionAborted env (rs_world s) \<or> rs_cancelledByExtension s);
           errorMessage = (if aborted then None else Some (''Compaction failed: '' @ errorText err))
       in eff_bind (rs_emit (CompactionEnd ManualReason None aborted False errorMessage)) (\<lambda>_. eff_throw err))"

definition manualCompact ::
  "'w recovery_env \<Rightarrow> string \<Rightarrow> string option \<Rightarrow> (compaction_outcome \<times> nat, 'w) run_action" where
  "manualCompact env noModel customInstructions =
     eff_bind (eff_modify (\<lambda>s. s\<lparr>rs_cancelledByExtension := False\<rparr>)) (\<lambda>_.
     eff_bind (rs_emit (CompactionStart ManualReason)) (\<lambda>_.
       eff_catch
         (eff_bind (manualSummary env noModel customInstructions) (\<lambda>(c, fromExtension).
          eff_bind (storeCompaction env c fromExtension) (\<lambda>estimatedTokensAfter.
          eff_bind (rs_emit (CompactionEnd ManualReason (Some (c, estimatedTokensAfter)) False False None)) (\<lambda>_.
            eff_return (c, estimatedTokensAfter)))))
         (manualFailed env)))"

section \<open>When to compact\<close>

definition contextEditTarget :: "session_entry \<Rightarrow> string option" where
  "contextEditTarget e =
     (case e_data e of ContextEditEntry t _ _ \<Rightarrow> Some t | ContextEditCancelEntry t \<Rightarrow> Some t | _ \<Rightarrow> None)"

definition isContextChange :: "session_entry \<Rightarrow> bool" where
  "isContextChange e = (case e_data e of PruneEntry _ _ _ \<Rightarrow> True | _ \<Rightarrow> contextEditTarget e \<noteq> None)"

definition isExclusion :: "session_entry \<Rightarrow> bool" where
  "isExclusion e = (case e_data e of ContextEditEntry _ replacement _ \<Rightarrow> replacement = None | _ \<Rightarrow> False)"

definition entriesAfterAssistant :: "string option \<Rightarrow> session_entry list \<Rightarrow> session_entry list" where
  "entriesAfterAssistant assistantEntryId branch =
     (if assistantEntryId = None \<or> assistantEntryId = Some [] then []
      else case findIndex (\<lambda>e. Some (e_id e) = assistantEntryId) branch of
             None \<Rightarrow> [] | Some assistantIndex \<Rightarrow> drop (Suc assistantIndex) branch)"

definition assistantIsProjected :: "string option \<Rightarrow> session_projection \<Rightarrow> bool" where
  "assistantIsProjected assistantEntryId projection \<longleftrightarrow>
     assistantEntryId = None \<or>
     list_ex (\<lambda>pe. Some (e_id (pe_source pe)) = assistantEntryId \<and> list_ex isAssistant (pe_messages pe)) (sp_entries projection)"

definition retainedForExplicitRecovery :: "string option \<Rightarrow> session_entry list \<Rightarrow> bool" where
  "retainedForExplicitRecovery assistantEntryId branch \<longleftrightarrow>
     (let entries = entriesAfterAssistant assistantEntryId branch;
          latestAssistantEdit = findLast (\<lambda>e. contextEditTarget e \<noteq> None \<and> contextEditTarget e = assistantEntryId) entries
      in assistantEntryId = None \<or>
         (\<not> list_ex isCompaction entries \<and>
          (case latestAssistantEdit of None \<Rightarrow> True | Some e \<Rightarrow> \<not> isExclusion e)))"

definition sameModel :: "'w recovery_env \<Rightarrow> assistant_message \<Rightarrow> bool" where
  "sameModel env m =
     (case rv_model env of
        None \<Rightarrow> False
      | Some model \<Rightarrow> am_provider m = so_provider model \<and> am_model m = so_id model)"

text \<open>\<open>a && f()\<close>\<close>

definition js_and :: "bool \<Rightarrow> bool js_result \<Rightarrow> bool js_result" where
  "js_and a b = (if a then b else Inr False)"

definition desiredMaxTokens :: "'w recovery_env \<Rightarrow> int" where
  "desiredMaxTokens env = (case rv_model env of None \<Rightarrow> 0 | Some model \<Rightarrow> mi_maxTokens (so_info model))"

definition hasContextChanges :: "session_entry list \<Rightarrow> bool" where
  "hasContextChanges sessionEntries = list_ex isContextChange sessionEntries"

text \<open>\<open>contextOverflow\<close> and \<open>recoverableLength\<close>.\<close>

definition overflowOf ::
  "'w recovery_env \<Rightarrow> assistant_message \<Rightarrow> string option \<Rightarrow> session_projection \<Rightarrow> session_entry list \<Rightarrow> session_entry list
   \<Rightarrow> (bool \<times> bool) js_result" where
  "overflowOf env m assistantEntryId projection branch sessionEntries =
     (let projected = assistantIsProjected assistantEntryId projection;
          usageMatches = (projected \<and> \<not> list_ex (\<lambda>e. contextEditTarget e \<noteq> None) (entriesAfterAssistant assistantEntryId branch));
          estimate = estimateProjectedContextTokens projection branch sessionEntries
      in js_bind (js_and (am_stopReason m = StopError) (isContextOverflow m None)) (\<lambda>explicitOverflow.
         js_bind (js_and usageMatches (isContextOverflow m (Some (nat (contextWindowOf env))))) (\<lambda>overflow.
           let inferredOverflow = (overflow \<and> (\<not> hasContextChanges sessionEntries \<or> cu_lastUsageIndex estimate \<noteq> None));
               contextOverflow = (sameModel env m \<and>
                 ((explicitOverflow \<and> retainedForExplicitRecovery assistantEntryId branch) \<or> inferredOverflow))
           in js_bind (js_and (sameModel env m \<and> projected) (isRecoverableLength m (desiredMaxTokens env))) (\<lambda>recoverableLength.
                Inr (contextOverflow, recoverableLength)))))"

text \<open>The size the threshold is compared with; nothing when the only usage is older than the compaction.\<close>

definition thresholdTokens ::
  "assistant_message \<Rightarrow> session_projection \<Rightarrow> session_entry list \<Rightarrow> session_entry list \<Rightarrow> agent_message list \<Rightarrow> nat option" where
  "thresholdTokens m projection branch sessionEntries messages =
     (let directContextTokens = (case am_usage m of None \<Rightarrow> 0 | Some u \<Rightarrow> calculateContextTokens u)
      in if hasContextChanges sessionEntries
         then Some (cu_tokens (estimateProjectedContextTokens projection branch sessionEntries))
         else if am_stopReason m = StopError \<or> directContextTokens = 0
         then let estimate = estimateContextTokens messages
              in case (cu_lastUsageIndex estimate, getLatestCompactionEntry branch) of
                   (Some i, Some compactionEntry) \<Rightarrow>
                     (case messages ! i of
                        Assistant usageMsg \<Rightarrow>
                          if am_timestamp usageMsg \<le> e_timestamp compactionEntry then None else Some (cu_tokens estimate)
                      | _ \<Rightarrow> Some (cu_tokens estimate))
                 | _ \<Rightarrow> Some (cu_tokens estimate)
         else Some directContextTokens)"

definition recoveryExhausted :: "bool \<Rightarrow> string" where
  "recoveryExhausted contextOverflow =
     (if contextOverflow
      then ''Context overflow recovery failed after one compact-and-retry attempt. Try reducing context or switching to a larger-context model.''
      else ''Truncated response recovery failed after one compact-and-retry attempt.'')"

definition recoverOverflow ::
  "'w recovery_env \<Rightarrow> assistant_message \<Rightarrow> agent_message list \<Rightarrow> bool \<Rightarrow> (bool, 'w) run_action" where
  "recoverOverflow env m toolResults contextOverflow =
     (if am_stopReason m = Stop then runAutoCompaction env OverflowReason False
      else eff_get (\<lambda>s.
        if rs_overflowRecoveryAttempted s
        then eff_bind (rs_emit (CompactionEnd OverflowReason None False False (Some (recoveryExhausted contextOverflow))))
               (\<lambda>_. eff_return False)
        else eff_bind (eff_modify (\<lambda>s. s\<lparr>rs_overflowRecoveryAttempted := True\<rparr>)) (\<lambda>_.
             eff_bind (omitRecoveryAttempt env m toolResults) (\<lambda>_.
               runAutoCompaction env OverflowReason True))))"

text \<open>What \<open>_checkCompaction\<close> reads: the active branch and its projection.\<close>

definition sessionView :: "session_manager \<Rightarrow> (session_entry list \<times> session_projection) option" where
  "sessionView sm =
     Option.bind (getBranch None sm) (\<lambda>branch. map_option (\<lambda>projection. (branch, projection)) (sm_buildSessionProjection sm))"

definition checkCompaction ::
  "'w recovery_env \<Rightarrow> assistant_message \<Rightarrow> bool \<Rightarrow> agent_message list \<Rightarrow> (bool, 'w) run_action" where
  "checkCompaction env m skipAbortedCheck toolResults =
     (if \<not> cst_enabled (rv_compaction env) \<or> (skipAbortedCheck \<and> am_stopReason m = StopAborted) then eff_return False
      else eff_bind (eff_query (\<lambda>s. sessionView (rs_manager s))) (\<lambda>(branch, projection).
        if (case getLatestCompactionEntry branch of None \<Rightarrow> False | Some c \<Rightarrow> am_timestamp m \<le> e_timestamp c)
        then eff_return False
        else eff_bind (findPersistedMessageEntryId (Assistant m)) (\<lambda>assistantEntryId.
          eff_get (\<lambda>s.
            let sessionEntries = getEntries (rs_manager s)
            in eff_bind (eff_lift (overflowOf env m assistantEntryId projection branch sessionEntries))
                 (\<lambda>(contextOverflow, recoverableLength).
                   if contextOverflow \<or> recoverableLength then recoverOverflow env m toolResults contextOverflow
                   else case thresholdTokens m projection branch sessionEntries (rs_messages s) of
                          None \<Rightarrow> eff_return False
                        | Some contextTokens \<Rightarrow>
                            if shouldCompact (int contextTokens) (contextWindowOf env) (rv_compaction env)
                            then runAutoCompaction env ThresholdReason False
                            else eff_return False)))))"

section \<open>Context usage\<close>

text \<open>Whether a message of the entry reports usage; a missing \<open>usage\<close> throws.\<close>

fun reportsUsage :: "agent_message list \<Rightarrow> bool js_result" where
  "reportsUsage [] = Inr False"
| "reportsUsage (Assistant m # ms) =
     (if am_stopReason m = StopAborted \<or> am_stopReason m = StopError then reportsUsage ms
      else case am_usage m of
             None \<Rightarrow> Inl TypeError
           | Some u \<Rightarrow> if 0 < calculateContextTokens u then Inr True else reportsUsage ms)"
| "reportsUsage (_ # ms) = reportsUsage ms"

record context_usage =
  xu_tokens :: "nat option"
  xu_contextWindow :: int
  xu_percent :: "rat option"

definition hasPostCompactionUsage :: "session_entry list \<Rightarrow> session_projection \<Rightarrow> session_entry \<Rightarrow> bool js_result" where
  "hasPostCompactionUsage branch projection latestCompaction =
     js_bind (js_map (\<lambda>pe. js_bind (reportsUsage (pe_messages pe)) (\<lambda>b. Inr (b, e_id (pe_source pe)))) (sp_entries projection)) (\<lambda>flags.
       let projectedAssistants = map snd (filter fst flags);
           compactionIndex = jsIndex (findIndex (\<lambda>e. e_id e = e_id latestCompaction) branch)
       in Inr (list_ex (\<lambda>e. e_id e \<in> set projectedAssistants) (drop (nat (compactionIndex + 1)) branch)))"

definition getContextUsage :: "'w recovery_env \<Rightarrow> (context_usage option, 'w) run_action" where
  "getContextUsage env =
     (let contextWindow = contextWindowOf env
      in if rv_model env = None \<or> contextWindow \<le> 0 then eff_return None
         else eff_bind (eff_query (\<lambda>s. sessionView (rs_manager s))) (\<lambda>(branch, projection).
           eff_bind (case getLatestCompactionEntry branch of
                       None \<Rightarrow> eff_return True
                     | Some c \<Rightarrow> eff_lift (hasPostCompactionUsage branch projection c)) (\<lambda>known.
             eff_get (\<lambda>s.
               if \<not> known then eff_return (Some \<lparr>xu_tokens = None, xu_contextWindow = contextWindow, xu_percent = None\<rparr>)
               else let estimate = estimateProjectedContextTokens projection branch (getEntries (rs_manager s))
                    in eff_return (Some \<lparr>xu_tokens = Some (cu_tokens estimate), xu_contextWindow = contextWindow,
                                         xu_percent = Some (of_nat (cu_tokens estimate) / of_int contextWindow * 100)\<rparr>)))))"

text \<open>\<open>Math.round\<close> of a token count is the count.\<close>

definition statusMessage :: "'w recovery_env \<Rightarrow> context_usage \<Rightarrow> bool \<Rightarrow> nat \<Rightarrow> rat \<Rightarrow> 'w run_session \<Rightarrow> context_status_message" where
  "statusMessage env usage requireHygieneCheck tokens percent s =
     createContextStatusMessage (xu_contextWindow usage) (int tokens) percent (w_now (rv_worlds env (rs_appends s))) requireHygieneCheck"

definition hygienePercent :: "'w recovery_env \<Rightarrow> context_usage \<Rightarrow> rat" where
  "hygienePercent env usage =
     contextHygieneThresholdPercent (xu_contextWindow usage) (cst_reserveTokens (rv_compaction env)) (cst_enabled (rv_compaction env))"

definition maybeBuildContextStatusMessage :: "'w recovery_env \<Rightarrow> (context_status_message option, 'w) run_action" where
  "maybeBuildContextStatusMessage env =
     eff_bind (getContextUsage env) (\<lambda>u.
       case u of
         None \<Rightarrow> eff_return None
       | Some usage \<Rightarrow>
           (case (xu_tokens usage, xu_percent usage) of
              (Some tokens, Some percent) \<Rightarrow>
                if xu_contextWindow usage \<le> 0 then eff_return None
                else let build = (\<lambda>requireHygieneCheck.
                           eff_bind (eff_modify (\<lambda>s. s\<lparr>rs_contextStatusLastPercent := Some percent\<rparr>)) (\<lambda>_.
                             eff_get (\<lambda>s. eff_return (Some (statusMessage env usage requireHygieneCheck tokens percent s)))))
                     in eff_get (\<lambda>s.
                          if rs_contextStatusForceNext s
                          then eff_bind (eff_modify (\<lambda>s. s\<lparr>rs_contextStatusForceNext := False\<rparr>)) (\<lambda>_. build False)
                          else if hygienePercent env usage \<le> percent then build True
                          else if (case rs_contextStatusLastPercent s of
                                     None \<Rightarrow> False | Some l \<Rightarrow> \<lfloor>l / 10\<rfloor> < \<lfloor>percent / 10\<rfloor>) then build False
                          else if (case rs_contextStatusTurnStartPercent s of
                                     None \<Rightarrow> False | Some turnStart \<Rightarrow> 5 < percent - turnStart) then build False
                          else if rs_contextStatusLastPercent s = None then build False
                          else eff_return None)
            | _ \<Rightarrow> eff_return None))"

definition compactBeforeNextAssistantResponse :: "'w recovery_env \<Rightarrow> agent_message list \<Rightarrow> (agent_message list, 'w) run_action" where
  "compactBeforeNextAssistantResponse env contextMessages =
     eff_bind (eff_query (\<lambda>s. sessionView (rs_manager s))) (\<lambda>(branch, projection).
       eff_get (\<lambda>s.
         if rs_pruneSkipNextCompactionCheck s
         then eff_bind (eff_modify (\<lambda>s. s\<lparr>rs_pruneSkipNextCompactionCheck := False\<rparr>)) (\<lambda>_. eff_return contextMessages)
         else if rv_model env = None \<or> contextWindowOf env \<le> 0 \<or>
                 \<not> shouldCompact (int (cu_tokens (estimateProjectedContextTokens projection branch (getEntries (rs_manager s)))))
                     (contextWindowOf env) (rv_compaction env)
         then eff_return (sp_messages projection)
         else eff_bind (runAutoCompaction env ThresholdReason False) (\<lambda>_.
              eff_bind (eff_query (\<lambda>s. sm_buildSessionProjection (rs_manager s))) (\<lambda>projection'. eff_return (sp_messages projection')))))"

section \<open>Events of the agent\<close>

definition emitQueueUpdate :: "(unit, 'w) run_action" where
  "emitQueueUpdate = eff_get (\<lambda>s. rs_emit (QueueUpdate (rs_steeringMessages s) (rs_followUpMessages s)))"

definition dequeueUserMessage :: "string \<Rightarrow> (unit, 'w) run_action" where
  "dequeueUserMessage messageText =
     eff_get (\<lambda>s.
       if messageText = [] then eff_return ()
       else if messageText \<in> set (rs_steeringMessages s)
       then eff_bind (eff_modify (\<lambda>s. s\<lparr>rs_steeringMessages := remove1 messageText (rs_steeringMessages s)\<rparr>)) (\<lambda>_. emitQueueUpdate)
       else if messageText \<in> set (rs_followUpMessages s)
       then eff_bind (eff_modify (\<lambda>s. s\<lparr>rs_followUpMessages := remove1 messageText (rs_followUpMessages s)\<rparr>)) (\<lambda>_. emitQueueUpdate)
       else eff_return ())"

definition appendCustomMessage :: "'w recovery_env \<Rightarrow> custom_message \<Rightarrow> (unit, 'w) run_action" where
  "appendCustomMessage env m =
     eff_bind (rs_store env (\<lambda>w sm. Some (appendCustomMessageEntry w (cm_customType m) (cm_content m) (cm_display m) (cm_details m) sm))) (\<lambda>_.
     eff_bind refreshFinalizedContext (\<lambda>_.
     eff_bind (rs_emit (AgentEventSent (MessageStart (Custom m)) None)) (\<lambda>_.
       rs_emit (AgentEventSent (MessageEnd (Custom m)) None))))"

definition flushPendingCustomMessages :: "'w recovery_env \<Rightarrow> (unit, 'w) run_action" where
  "flushPendingCustomMessages env =
     eff_get (\<lambda>s.
       eff_bind (eff_modify (\<lambda>s. s\<lparr>rs_pendingCustomMessages := []\<rparr>)) (\<lambda>_.
         eff_forEach 0 (\<lambda>_. appendCustomMessage env) (rs_pendingCustomMessages s)))"

text \<open>The entry a finished message is stored as; other messages are stored elsewhere.\<close>

fun persistedAs :: "agent_message \<Rightarrow> (world \<Rightarrow> string action) option" where
  "persistedAs (Custom m) = Some (\<lambda>w. appendCustomMessageEntry w (cm_customType m) (cm_content m) (cm_display m) (cm_details m))"
| "persistedAs (System m) = Some (\<lambda>w. appendMessage w (System m))"
| "persistedAs (User m) = Some (\<lambda>w. appendMessage w (User m))"
| "persistedAs (Assistant m) = Some (\<lambda>w. appendMessage w (Assistant m))"
| "persistedAs (ToolResult m) = Some (\<lambda>w. appendMessage w (ToolResult m))"
| "persistedAs (ContextStatus m) = Some (\<lambda>w. appendMessage w (ContextStatus m))"
| "persistedAs _ = None"

definition persistMessage :: "'w recovery_env \<Rightarrow> agent_message \<Rightarrow> (unit, 'w) run_action" where
  "persistMessage env m =
     (case persistedAs m of
        None \<Rightarrow> eff_return ()
      | Some store \<Rightarrow>
          eff_bind (rs_store env (\<lambda>w sm. Some (store w sm))) (\<lambda>entryId.
            if entryId = [] then eff_return ()
            else eff_modify (\<lambda>s. s\<lparr>rs_entryIdsByMessage := AList.update m entryId (rs_entryIdsByMessage s)\<rparr>)))"

definition noteAssistantMessage :: "assistant_message \<Rightarrow> (unit, 'w) run_action" where
  "noteAssistantMessage m =
     eff_bind (eff_modify (\<lambda>s. s\<lparr>rs_lastAssistantMessage := Some m,
        rs_overflowRecoveryAttempted :=
          (if am_stopReason m \<noteq> StopError \<and> am_stopReason m \<noteq> Length then False else rs_overflowRecoveryAttempted s)\<rparr>)) (\<lambda>_.
     eff_get (\<lambda>s.
       if am_stopReason m \<noteq> StopError \<and> 0 < rs_retryAttempt s
       then eff_bind (rs_emit (AutoRetryEnd True (rs_retryAttempt s) None)) (\<lambda>_. eff_modify (\<lambda>s. s\<lparr>rs_retryAttempt := 0\<rparr>))
       else eff_return ()))"

definition forwardEvent :: "'w recovery_env \<Rightarrow> agent_event \<Rightarrow> (unit, 'w) run_action" where
  "forwardEvent env ev =
     (case ev of
        AgentEnd messages \<Rightarrow>
          eff_get (\<lambda>s. eff_bind (eff_lift (willRetryAfterAgentEnd env messages s)) (\<lambda>willRetry. rs_emit (AgentEventSent ev (Some willRetry))))
      | _ \<Rightarrow> rs_emit (AgentEventSent ev None))"

text \<open>
  The agent reduces the event into its own state first: a finished message joins \<open>agent.state.messages\<close>. Then the
  session's handler runs.
\<close>

fun reduceMessages :: "agent_event \<Rightarrow> agent_message list \<Rightarrow> agent_message list" where
  "reduceMessages (MessageEnd m) messages = messages @ [m]"
| "reduceMessages _ messages = messages"

definition beforeForward :: "'w recovery_env \<Rightarrow> agent_event \<Rightarrow> (unit, 'w) run_action" where
  "beforeForward env ev =
     (case ev of
        TurnStart \<Rightarrow>
          eff_bind (getContextUsage env) (\<lambda>usage.
            eff_modify (\<lambda>s. s\<lparr>rs_contextStatusTurnStartPercent := Option.bind usage xu_percent\<rparr>))
      | MessageStart (User m) \<Rightarrow>
          eff_bind (eff_modify (\<lambda>s. s\<lparr>rs_overflowRecoveryAttempted := False\<rparr>)) (\<lambda>_.
            dequeueUserMessage (contentTextSep [] (um_content m)))
      | _ \<Rightarrow> eff_return ())"

definition afterForward :: "'w recovery_env \<Rightarrow> agent_event \<Rightarrow> (unit, 'w) run_action" where
  "afterForward env ev =
     (case ev of
        MessageEnd m \<Rightarrow>
          eff_bind (persistMessage env m) (\<lambda>_. case m of Assistant a \<Rightarrow> noteAssistantMessage a | _ \<Rightarrow> eff_return ())
      | TurnEnd _ toolResults \<Rightarrow>
          eff_bind (eff_modify (\<lambda>s. s\<lparr>rs_lastAssistantToolResults := map ToolResult toolResults\<rparr>)) (\<lambda>_.
            flushPendingCustomMessages env)
      | _ \<Rightarrow> eff_return ())"

definition handleAgentEvent :: "'w recovery_env \<Rightarrow> agent_event \<Rightarrow> (unit, 'w) run_action" where
  "handleAgentEvent env ev =
     eff_bind (eff_modify (\<lambda>s. s\<lparr>rs_messages := reduceMessages ev (rs_messages s)\<rparr>)) (\<lambda>_.
     eff_bind (beforeForward env ev) (\<lambda>_.
     eff_bind (forwardEvent env ev) (\<lambda>_. afterForward env ev)))"

section \<open>Runs\<close>

text \<open>A run of the agent: its events are handled in order, then the call returns or throws.\<close>

definition runAgent :: "'w recovery_env \<Rightarrow> ('w \<Rightarrow> agent_event list \<times> unit js_result \<times> 'w) \<Rightarrow> (unit, 'w) run_action" where
  "runAgent env run =
     eff_bind (rs_call env (\<lambda>w. let (events, r, w') = run w in (Inr (events, r), w'))) (\<lambda>(events, r).
     eff_bind (eff_forEach 0 (\<lambda>_. handleAgentEvent env) events) (\<lambda>_. eff_lift r))"

definition continueAgent :: "'w recovery_env \<Rightarrow> (unit, 'w) run_action" where
  "continueAgent env = eff_get (\<lambda>s. runAgent env (rv_continue env (rs_messages s)))"

text \<open>The part of \<open>_handlePostAgentRun\<close> after the retry has been ruled out.\<close>

definition afterRetry :: "'w recovery_env \<Rightarrow> assistant_message \<Rightarrow> agent_message list \<Rightarrow> (bool, 'w) run_action" where
  "afterRetry env message toolResults =
     eff_get (\<lambda>s.
       if rs_agentRunAbortRequested s then eff_bind finishCancelledRetry (\<lambda>_. eff_return False)
       else eff_bind
              (if am_stopReason message = StopError \<and> 0 < rs_retryAttempt s
               then eff_bind (rs_emit (AutoRetryEnd False (rs_retryAttempt s) (am_errorMessage message))) (\<lambda>_.
                      eff_modify (\<lambda>s. s\<lparr>rs_retryAttempt := 0\<rparr>))
               else eff_return ()) (\<lambda>_.
            eff_bind (checkCompaction env message True toolResults) (\<lambda>recovered.
              eff_get (\<lambda>s.
                if recovered then eff_return (\<not> rs_agentRunAbortRequested s)
                else if rs_agentRunAbortRequested s then eff_return False
                else rs_hasQueuedMessages env))))"

definition handlePostAgentRun :: "'w recovery_env \<Rightarrow> (bool, 'w) run_action" where
  "handlePostAgentRun env =
     eff_get (\<lambda>s.
       eff_bind (eff_modify (\<lambda>s. s\<lparr>rs_lastAssistantMessage := None, rs_lastAssistantToolResults := []\<rparr>)) (\<lambda>_.
         if rs_agentRunAbortRequested s then eff_bind finishCancelledRetry (\<lambda>_. eff_return False)
         else case rs_lastAssistantMessage s of
                None \<Rightarrow> rs_hasQueuedMessages env
              | Some message \<Rightarrow>
                  eff_bind (eff_lift (isRetryableError env message)) (\<lambda>retryable.
                  eff_bind (if retryable then prepareRetry env message else eff_return False) (\<lambda>retry.
                    if retry
                    then eff_get (\<lambda>s.
                           if rs_agentRunAbortRequested s then eff_bind finishCancelledRetry (\<lambda>_. eff_return False)
                           else eff_return True)
                    else afterRetry env message (rs_lastAssistantToolResults s)))))"

text \<open>
  The loop of \<open>_runAgentPrompt\<close>, without handlers before settling. It may go on for ever, as long as the agent's
  queues are refilled: \<open>None\<close> when the fuel runs out.
\<close>

fun promptLoop :: "nat \<Rightarrow> 'w recovery_env \<Rightarrow> (unit, 'w) run_action" where
  "promptLoop 0 env = (\<lambda>s. None)"
| "promptLoop (Suc n) env =
     eff_get (\<lambda>s.
       if rs_agentRunAbortRequested s then eff_return ()
       else eff_bind (handlePostAgentRun env) (\<lambda>again.
            eff_bind (if again then eff_return True else rs_hasQueuedMessages env) (\<lambda>continue.
              eff_get (\<lambda>s.
                if rs_agentRunAbortRequested s \<or> \<not> continue then eff_return ()
                else eff_bind (continueAgent env) (\<lambda>_. promptLoop n env)))))"

text \<open>\<open>finally\<close>\<close>

definition eff_finally :: "('a, 's) effect \<Rightarrow> (unit, 's) effect \<Rightarrow> ('a, 's) effect" where
  "eff_finally m cleanup =
     eff_bind (eff_catch m (\<lambda>err. eff_bind cleanup (\<lambda>_. eff_throw err))) (\<lambda>x. eff_bind cleanup (\<lambda>_. eff_return x))"

definition settleRun :: "'w recovery_env \<Rightarrow> (unit, 'w) run_action" where
  "settleRun env =
     eff_get (\<lambda>s.
       eff_bind (if rs_agentRunAbortRequested s then finishCancelledRetry else eff_return ()) (\<lambda>_.
       eff_bind (flushPendingCustomMessages env) (\<lambda>_. rs_emit AgentSettled)))"

definition runAgentPrompt :: "nat \<Rightarrow> 'w recovery_env \<Rightarrow> agent_message list \<Rightarrow> (unit, 'w) run_action" where
  "runAgentPrompt fuel env messages =
     eff_bind (eff_modify (\<lambda>s. s\<lparr>rs_agentRunAbortRequested := False\<rparr>)) (\<lambda>_.
       eff_finally
         (eff_bind (eff_get (\<lambda>s. runAgent env (rv_prompt env messages (rs_messages s)))) (\<lambda>_. promptLoop fuel env))
         (settleRun env))"

end
