(* ===== verification/Compaction_Session.thy ===== *)
theory Compaction_Session
  imports Session_Properties Compaction
begin

text \<open>
  Compaction across components: what the session's context is after the compaction that
  \<open>prepareCompaction\<close> chose has been appended to the session. The two sides use different mechanisms:
  the preparation cuts the projected entries at a position, the projection re-reads the raw path from the
  stored first kept id on; these lemmas show that the two agree.
\<close>

section \<open>The kept entries\<close>

text \<open>
  The entries a new compaction keeps from the raw path are the entries from the cut on in the
  projected order, up to older compactions, which contribute nothing, and system entries.
\<close>

definition keptFilter :: "session_entry \<Rightarrow> bool" where
  "keptFilter e \<longleftrightarrow> \<not> isCompaction e \<and> \<not> isSystemEntry e"

lemma isSystemEntry_compaction: "isCompaction e \<Longrightarrow> \<not> isSystemEntry e"
  by (auto simp: isCompaction_def isSystemEntry_def split: entry_data.splits)

lemma filter_keptFilter: "filter (\<lambda>e. \<not> isCompaction e) (keptBefore k False es) = filter keptFilter (startingAt k es)"
  unfolding keptBefore_fromId filter_filter keptFilter_def by (rule filter_cong) auto

lemma kept_tail_agrees:
  assumes d: "distinct (map e_id path)" and n: "0 < n" "n < length (compactPath path)"
    and k: "k = e_id (compactPath path ! n)"
  shows "filter (\<lambda>e. \<not> isCompaction e) (keptBefore k False path) = filter keptFilter (drop n (compactPath path))"
  unfolding filter_keptFilter
proof (cases rule: compactPath_cases [OF d])
  case 1
  then show "filter keptFilter (startingAt k path) = filter keptFilter (drop n (compactPath path))"
    using fromId_drop [OF d] n k by simp
next
  case (2 pre c post j)
  let ?K = "keptBefore j False pre"
  have K: "set ?K \<subseteq> set pre" by (rule keptBefore_subset)
  have dK: "distinct (map e_id (?K @ post))"
  proof -
    have "subseq (?K @ post) path"
      unfolding 2(1) keptBefore_fromId
      by (intro list_emb_append_mono list_emb_Cons subseq_order.refl)
         (meson subseq_filter_left subseq_order.trans suffix_imp_subseq suffix_dropWhile)
    then show ?thesis using d by (rule subseq_distinct_map)
  qed
  obtain m where m: "n = Suc m" using n(1) by (cases n) auto
  have lhs: "filter keptFilter (drop n (compactPath path)) = filter keptFilter (startingAt k (?K @ post))"
    using fromId_drop [OF dK, of m] n(2) k by (simp add: 2(4) m)
  have k_in: "k \<in> ids (?K @ post)" using n(2) k nth_mem [of m "?K @ post"] by (simp add: 2(4) m)
  have dp: "distinct (map e_id pre)" and c: "\<not> keptFilter c" using d 2(1,2) by (simp_all add: keptFilter_def)
  show "filter keptFilter (startingAt k path) = filter keptFilter (drop n (compactPath path))"
  proof (cases "k \<in> ids ?K")
    case True
    then have "k \<in> ids (filter (\<lambda>e. \<not> isSystemEntry e) (startingAt j pre))" by (simp only: keptBefore_fromId)
    then have kj: "k \<in> ids (startingAt j pre)" by auto
    then have kp: "k \<in> ids pre" by (auto dest!: set_dropWhileD)
    have "distinct (map e_id (startingAt j pre))"
      using dp by (rule subseq_distinct_map [OF suffix_imp_subseq [OF suffix_dropWhile]])
    then have "startingAt k ?K = filter (\<lambda>e. \<not> isSystemEntry e) (startingAt k pre)"
      using fromId_filter [of "startingAt j pre" k] fromId_fromId [OF dp kj] True by (simp add: keptBefore_fromId)
    then have "filter keptFilter (startingAt k ?K) = filter keptFilter (startingAt k pre)"
      by (auto simp: keptFilter_def intro: filter_cong)
    then show ?thesis
      unfolding lhs fromId_append_in [OF True] unfolding 2(1) fromId_append_in [OF kp] by (simp add: c)
  next
    case False
    then have post: "k \<in> ids post" using k_in by auto
    have "k \<notin> ids pre" "k \<noteq> e_id c" using post d 2(1) by (auto simp: image_iff)
    then show ?thesis
      unfolding lhs fromId_append_out [OF False] unfolding 2(1) by (simp add: fromId_append_out)
  qed
qed

section \<open>The context after a compaction\<close>

definition tailMessages :: "changes \<Rightarrow> session_entry list \<Rightarrow> agent_message list" where
  "tailMessages changes es =
     concat (map (\<lambda>e. projectContextEntry e (map_of changes (e_id e))) (filter (\<lambda>e. \<not> isCompaction e) es))"

lemma tailMessages_Cons:
  "tailMessages changes [] = []"
  "tailMessages changes (e # es) =
     (if isCompaction e then [] else projectContextEntry e (map_of changes (e_id e))) @ tailMessages changes es"
  by (simp_all add: tailMessages_def)

lemma tailMessages_filter:
  "tailMessages changes (filter (\<lambda>e. \<not> isCompaction e) es) = tailMessages changes es"
  by (simp add: tailMessages_def)

lemma projectEntries_tail:
  "concat (map pe_messages (projectEntries changes (e # es))) =
   projectContextEntry e (map_of changes (e_id e)) @ tailMessages changes es"
proof -
  have "concat (map (pe_messages \<circ> (\<lambda>e'. if isCompaction e' then \<lparr>pe_source = e', pe_messages = []\<rparr> else projectOne changes e')) es)
    = tailMessages changes es"
    by (induction es) (auto simp: tailMessages_def projectOne_def)
  then show ?thesis by (simp add: projectOne_def)
qed

lemma tailMessages_drop:
  assumes "0 < n"
  shows "concat (map pe_messages (filter (\<lambda>pe. \<not> isSystemEntry (pe_source pe)) (drop n (projectEntries changes es))))
         = tailMessages changes (filter keptFilter (drop n es))"
proof (cases es)
  case (Cons x xs)
  obtain m where m: "n = Suc m" using assms by (cases n) auto
  have "concat (map pe_messages (filter (\<lambda>pe. \<not> isSystemEntry (pe_source pe))
          (map (\<lambda>e'. if isCompaction e' then \<lparr>pe_source = e', pe_messages = []\<rparr> else projectOne changes e') ys)))
    = tailMessages changes (filter keptFilter ys)" for ys
    by (induction ys) (auto simp: tailMessages_Cons projectOne_def keptFilter_def)
  then show ?thesis using Cons m by (simp add: drop_map)
qed (simp add: tailMessages_def)

lemma length_projectEntries [simp]: "length (projectEntries changes es) = length es"
  by (metis length_map map_pe_source_projectEntries)

lemma nth_source_projectEntries: "n < length es \<Longrightarrow> pe_source (projectEntries changes es ! n) = es ! n"
  by (metis length_projectEntries map_pe_source_projectEntries nth_map)

lemma after_compaction:
  assumes e: "e_data e = CompactionEntry c" and fresh: "e_id e \<notin> ids path" and "map_of (changesOf legacy path) (e_id e) = None"
  shows "sp_messages (projectPath legacy (path @ [e])) =
         sessionEntryToContextMessages e @
         tailMessages (changesOf legacy path) (keptBefore (ce_firstKeptEntryId c) False path)"
proof -
  have "compactPath (path @ [e]) = e # keptBefore (ce_firstKeptEntryId c) False path"
    by (rule compactPath_snoc_compaction [OF _ fresh]) (simp add: e)
  moreover have "changesOf legacy (path @ [e]) = changesOf legacy path"
    using e by (simp add: applyContextEdit_plain editEffect_def)
  ultimately show ?thesis
    using assms(3) unfolding projectPath_messages projectPath_entries
    by (simp only: projectEntries_tail) (simp add: projectContextEntry_def)
qed

text \<open>The walk from the last entry of a branch, in the branch alone, returns the branch.\<close>

lemma branch_own_path:
  assumes c: "coreInv sm" and b: "getBranch None sm = Some path"
  shows "buildSessionPath path LeafUndefined None = Some path"
proof (cases "path = []")
  case False
  then obtain l where l: "leafId sm = Some l" using b by (cases "leafId sm") (auto simp: getBranch_pathTo)
  then obtain e where e: "e \<in> set (getEntries sm)" "e_id e = l" using c by (auto simp: coreInv_def leafOk_def)
  have wf: "wfEntries (getEntries sm)" using c by (rule coreInv_wf)
  have w: "walkParents (indexOf (getEntries sm)) e [] = Some path"
    using b pathTo_Some [OF c e(1)] e(2) l by (simp add: getBranch_pathTo)
  have chain: "rootChain (indexOf (getEntries sm)) path" using w by (simp add: walkParents_iff)
  obtain path' where "walkParents (indexOf (getEntries sm)) e [] = Some path'"
    "subseq path' (getEntries sm)" "distinct (map e_id path')"
    using walkParents_wf [OF wf e(1)] by metis
  with w have sub: "set path \<subseteq> set (getEntries sm)" and d: "distinct (map e_id path)"
    using subseq_set by auto
  have look: "map_of (indexOf path) i = Some x \<longleftrightarrow> x \<in> set path \<and> e_id x = i" for i x
    by (rule indexOf_lookup [OF d])
  have look': "map_of (indexOf (getEntries sm)) i = Some x \<longleftrightarrow> x \<in> set (getEntries sm) \<and> e_id x = i" for i x
    by (rule indexOf_lookup [OF wfEntries_distinct [OF wf]])
  have keep: "parentOf (indexOf path) x = Some p" if "parentOf (indexOf (getEntries sm)) x = Some p" "p \<in> set path" for x p
    using that look look' by (auto simp: parentOf_def split: option.splits if_splits)
  have none: "parentOf (indexOf path) x = None" if "parentOf (indexOf (getEntries sm)) x = None" for x
  proof (rule ccontr)
    assume "parentOf (indexOf path) x \<noteq> None"
    then obtain q p where "e_parentId x = Some q" "q \<noteq> []" "p \<in> set path" "e_id p = q"
      using look by (auto simp: parentOf_def split: option.splits if_splits)
    with that look' [of q p] sub show False by (auto simp: parentOf_def)
  qed
  have "successively (\<lambda>p x. parentOf (indexOf path) x = Some p) path"
    by (rule successively_mono [where P = "\<lambda>p x. parentOf (indexOf (getEntries sm)) x = Some p"])
       (use chain keep in \<open>auto simp: rootChain_def\<close>)
  with chain none have "rootChain (indexOf path) path" by (simp add: rootChain_def)
  then have "walkParents (indexOf path) (last path) [] = Some path" by (simp add: walkParents_iff)
  then show ?thesis using False by (simp add: buildSessionPath_def buildEntryIndex_def Let_def)
qed (simp add: buildSessionPath_def)

text \<open>
  C6 (compaction loses nothing): let \<open>p\<close> be the preparation for the active branch of a session and append a
  compaction with its first kept id. The projected entries split into an old part, whose conversation is
  exactly what \<open>p\<close> hands to the summariser, and a kept part; and the new context is the compaction's own
  messages (the current system message and the summary) followed by what the kept entries, system entries
  apart, contributed before. No message is both summarised and kept, and the kept part, as the model sees it,
  does not start with a tool result whose call was summarised.
\<close>

theorem compaction_loses_nothing:
  assumes inv: "smInv sm" and fresh: "freshWorld w sm"
    and branch: "getBranch None sm = Some path"
    and prep: "prepareCompaction path st (Some (legacyPruneChanges sm)) (getEntries sm) = Some (Some p)"
  shows "\<exists>proj proj' sm' i old kept.
      sm_buildSessionProjection sm = Some proj \<and>
      appendCompaction w summary (Some (prep_firstKeptEntryId p)) tokens details fromHook use sm = Some (Inr i, sm') \<and>
      smInv sm' \<and> sm_buildSessionProjection sm' = Some proj' \<and>
      sp_entries proj = old @ kept \<and> kept \<noteq> [] \<and>
      concat (map getMessagesFromProjectedEntryForCompaction old) =
        prep_messagesToSummarize p @ prep_turnPrefixMessages p \<and>
      sp_messages proj' =
        (case getCurrentSystemMessage (sp_messages proj) of None \<Rightarrow> [] | Some s \<Rightarrow> [System (s\<lparr>sys_timestamp := w_now w\<rparr>)]) @
        [CompactionSummary (createCompactionSummaryMessage summary tokens (w_now w))] @
        concat (map pe_messages (filter (\<lambda>pe. \<not> isSystemEntry (pe_source pe)) kept)) \<and>
      \<not> startsWithToolResult (concat (map pe_messages kept))"
proof -
  let ?l = "legacyPruneChanges sm" and ?ch = "changesOf (legacyPruneChanges sm) path"
  have c: "coreInv sm" using inv by (simp add: smInv_def)
  let ?proj = "projectPath ?l path"
  have pp: "prepareProjected ?proj path st (getEntries sm) = Some p"
    using prep branch_own_path [OF c branch]
    by (simp add: prepareCompaction_def buildSessionProjection_path split: if_splits)
  have pes: "sp_entries ?proj = projectEntries ?ch (compactPath path)" by (rule projectPath_entries)
  have "headCompaction (sp_entries ?proj)" unfolding pes by (rule headCompaction_projectEntries)
  from prepareProjected_partition [OF pp this] obtain n where n: "0 < n" "n < length (compactPath path)"
    "tailOk (sp_entries ?proj) n" and first: "prep_firstKeptEntryId p = e_id (compactPath path ! n)"
    and conv: "conversationOf (take n (sp_entries ?proj)) = prep_messagesToSummarize p @ prep_turnPrefixMessages p"
    unfolding pes by (auto simp: nth_source_projectEntries)
  have proj: "sm_buildSessionProjection sm = Some ?proj" by (simp add: projection_of_branch [OF c] branch)
  define cd where "cd = \<lparr>ce_summary = summary, ce_firstKeptEntryId = prep_firstKeptEntryId p,
      ce_firstKeptEntryIndex = None, ce_tokensBefore = tokens, ce_details = details, ce_usage = use,
      ce_fromHook = fromHook,
      ce_systemMessage = map_option (\<lambda>s. s\<lparr>sys_timestamp := w_now w\<rparr>) (getCurrentSystemMessage (sp_messages ?proj))\<rparr>"
  let ?e = "newEntry w (CompactionEntry cd) sm"
  have run: "appendCompaction w summary (Some (prep_firstKeptEntryId p)) tokens details fromHook use sm
      = Some (appendData w (CompactionEntry cd) sm)"
    by (simp add: appendCompaction_def proj cd_def Let_def)
  obtain path' sm' where sm': "appendData w (CompactionEntry cd) sm = (Inr (e_id ?e), sm')" "smInv sm'"
    "getBranch None sm = Some path'"
    "sm_buildSessionProjection sm' = Some (projectPath ?l (path' @ [?e]))"
    "map_of (changesOf ?l path') (e_id ?e) = None" "e_id ?e \<notin> ids (getEntries sm)" "set path' \<subseteq> set (getEntries sm)"
    by (rule appendData_branch [OF inv fresh, of "CompactionEntry cd"]) (simp_all add: plainData_def dataTarget_def)
  have path': "path' = path" using sm'(3) branch by simp
  have new: "sp_messages (projectPath ?l (path @ [?e])) =
      sessionEntryToContextMessages ?e @ tailMessages ?ch (keptBefore (prep_firstKeptEntryId p) False path)"
    using after_compaction [of ?e cd path ?l] sm'(5-7) by (auto simp: path' cd_def)
  have d: "distinct (map e_id path)" using getBranch_total [OF c] branch by (metis option.inject)
  have "tailMessages ?ch (keptBefore (prep_firstKeptEntryId p) False path) =
      concat (map pe_messages (filter (\<lambda>pe. \<not> isSystemEntry (pe_source pe)) (drop n (sp_entries ?proj))))"
    unfolding pes tailMessages_drop [OF n(1)] kept_tail_agrees [OF d n(1,2) first, symmetric]
    by (simp only: tailMessages_filter)
  then have "sp_messages (projectPath ?l (path @ [?e])) =
      (case getCurrentSystemMessage (sp_messages ?proj) of None \<Rightarrow> [] | Some s \<Rightarrow> [System (s\<lparr>sys_timestamp := w_now w\<rparr>)]) @
      [CompactionSummary (createCompactionSummaryMessage summary tokens (w_now w))] @
      concat (map pe_messages (filter (\<lambda>pe. \<not> isSystemEntry (pe_source pe)) (drop n (sp_entries ?proj))))"
    using new by (simp add: sessionEntryToContextMessages_def newEntry_def cd_def split: option.split)
  moreover have "\<not> startsWithToolResult (concat (map pe_messages (drop n (sp_entries ?proj))))"
    by (rule tail_no_toolResult [OF pes n(1,3)])
  moreover have "sp_entries ?proj = take n (sp_entries ?proj) @ drop n (sp_entries ?proj)" "drop n (sp_entries ?proj) \<noteq> []"
    using n(2) by (simp_all add: pes)
  ultimately show ?thesis
    using proj run sm'(1,2,4) conv unfolding path' by (intro exI conjI) (assumption | simp)+
qed

definition sampleSettings :: compaction_settings where
  "sampleSettings = \<lparr>cst_enabled = True, cst_reserveTokens = 100, cst_keepRecentTokens = 1\<rparr>"

definition sampleEntries :: "session_entry list" where
  "sampleEntries = [sampleEntry ''aaaaaaaa'' None (sampleUser ''hi''), sampleEntry ''bbbbbbbb'' (Some ''aaaaaaaa'') (sampleAssistant ''ho'')]"

lemma sample_prepared:
  "map_option (\<lambda>p. (prep_firstKeptEntryId p, prep_messagesToSummarize p, prep_turnPrefixMessages p))
     (prepareProjected (projectPath [] sampleEntries) sampleEntries sampleSettings sampleEntries)
   = Some (''bbbbbbbb'', [], [sampleUser ''hi''])"
  by code_simp

lemma sample2_prepared:
  obtains p where "prepareCompaction (getEntries sample2) sampleSettings (Some (legacyPruneChanges sample2)) (getEntries sample2)
      = Some (Some p)"
    "prep_firstKeptEntryId p = ''bbbbbbbb''" "prep_messagesToSummarize p = []" "prep_turnPrefixMessages p = [sampleUser ''hi'']"
proof -
  have c: "coreInv sample2" using sample2_run(2) by (simp add: smInv_def)
  have es: "getEntries sample2 = sampleEntries" by (simp add: sample2_run(4) sampleEntries_def)
  have l: "legacyPruneChanges sample2 = []"
    using c by (simp add: coreInv_def es sampleEntries_def recordLegacyPrune_def sampleEntry_def)
  have "\<not> isCompaction (last sampleEntries)" by (simp add: sampleEntries_def sampleEntry_def isCompaction_def)
  then have "prepareCompaction (getEntries sample2) sampleSettings (Some (legacyPruneChanges sample2)) (getEntries sample2)
      = Some (prepareProjected (projectPath [] sampleEntries) sampleEntries sampleSettings sampleEntries)"
    using branch_own_path [OF c sample2_branch]
    by (simp add: prepareCompaction_def buildSessionProjection_path l es)
  with sample_prepared that show thesis by auto
qed

theorem compaction_loses_nothing_witness:
  "\<exists>p proj proj' sm' i old kept.
      prepareCompaction (getEntries sample2) sampleSettings (Some (legacyPruneChanges sample2)) (getEntries sample2) = Some (Some p) \<and>
      sm_buildSessionProjection sample2 = Some proj \<and>
      appendCompaction (sampleWorld ''cccccccc-0'') ''sum'' (Some ''bbbbbbbb'') 9 None False None sample2 = Some (Inr i, sm') \<and>
      smInv sm' \<and> sm_buildSessionProjection sm' = Some proj' \<and>
      sp_entries proj = old @ kept \<and> kept \<noteq> [] \<and>
      concat (map getMessagesFromProjectedEntryForCompaction old) = [sampleUser ''hi''] \<and>
      sp_messages proj' =
        (case getCurrentSystemMessage (sp_messages proj) of None \<Rightarrow> [] | Some s \<Rightarrow> [System (s\<lparr>sys_timestamp := 0\<rparr>)]) @
        [CompactionSummary (createCompactionSummaryMessage ''sum'' 9 0)] @
        concat (map pe_messages (filter (\<lambda>pe. \<not> isSystemEntry (pe_source pe)) kept)) \<and>
      \<not> startsWithToolResult (concat (map pe_messages kept))"
proof -
  obtain p where p: "prepareCompaction (getEntries sample2) sampleSettings (Some (legacyPruneChanges sample2)) (getEntries sample2)
      = Some (Some p)"
    "prep_firstKeptEntryId p = ''bbbbbbbb''" "prep_messagesToSummarize p = []" "prep_turnPrefixMessages p = [sampleUser ''hi'']"
    by (rule sample2_prepared)
  from compaction_loses_nothing [OF sample2_run(2) sample2_fresh sample2_branch p(1), of "''sum''" 9 None False None]
  show ?thesis unfolding p(2-4) sampleWorld_simps append_Nil using p(1) by blast
qed

end
