(* ===== verification/Recovery_Properties.thy ===== *)
theory Recovery_Properties
  imports Recovery Compaction_Session
begin

text \<open>
  The contract of the recovery machine of the agent session: every method returns or throws in a session that
  satisfies the invariant of the manager and whose history extends the old one. The contracts are instances of
  \<open>total_effects\<close>, one lemma per method.
\<close>

section \<open>The supply of ids\<close>

text \<open>The UUIDs drawn in the future are long, new to the session and different from each other.\<close>

definition freshSupply :: "(nat \<Rightarrow> world) \<Rightarrow> nat \<Rightarrow> session_manager \<Rightarrow> bool" where
  "freshSupply ws k sm \<longleftrightarrow>
     (\<forall>n \<ge> k. uuidsOk (w_uuids (ws n)) \<and> 8 < length (w_uuids (ws n) 100) \<and> w_uuids (ws n) 100 \<notin> ids (getEntries sm)) \<and>
     inj_on (\<lambda>n. w_uuids (ws n) 100) {k..}"

definition runOk :: "'w recovery_env \<Rightarrow> 'w run_session \<Rightarrow> bool" where
  "runOk env s \<longleftrightarrow> smInv (rs_manager s) \<and> freshSupply (rv_worlds env) (rs_appends s) (rs_manager s)"

definition runStep :: "'w recovery_env \<Rightarrow> 'w run_session \<Rightarrow> 'w run_session \<Rightarrow> bool" where
  "runStep env s s' \<longleftrightarrow> runOk env s' \<and> plainStep (rs_manager s) (rs_manager s')"

lemma generateIdTry_cases: "generateIdTry uuids has n i = uuids (i + n) \<or> length (generateIdTry uuids has n i) \<le> 8"
proof (induction n arbitrary: i)
  case (Suc n)
  then show ?case using Suc.IH [of "Suc i"] by (auto simp: Let_def)
qed simp

lemma newEntry_id_cases: "e_id (newEntry w d sm) = w_uuids w 100 \<or> length (e_id (newEntry w d sm)) \<le> 8"
  using generateIdTry_cases [of "w_uuids w" "hasId sm" 100 0] by (simp add: newEntry_def generateId_def)

lemma freshSupply_now: "smInv sm \<Longrightarrow> freshSupply ws k sm \<Longrightarrow> freshWorld (ws k) sm"
  by (auto simp: freshSupply_def freshWorld_def smInv_def hasId_iff)

lemma freshSupply_append:
  assumes "freshSupply ws k sm" and "getEntries sm' = getEntries sm @ [newEntry (ws k) d sm]"
  shows "freshSupply ws (Suc k) sm'"
proof -
  have "w_uuids (ws n) 100 \<noteq> e_id (newEntry (ws k) d sm)" if "Suc k \<le> n" for n
    using newEntry_id_cases [of "ws k" d sm]
  proof
    assume e: "e_id (newEntry (ws k) d sm) = w_uuids (ws k) 100"
    have "n \<noteq> k" "n \<in> {k..}" "k \<in> {k..}" using that by auto
    then show ?thesis using assms(1) unfolding e freshSupply_def by (metis inj_on_eq_iff)
  next
    assume "length (e_id (newEntry (ws k) d sm)) \<le> 8"
    moreover have "8 < length (w_uuids (ws n) 100)" using assms(1) that unfolding freshSupply_def by (metis Suc_leD)
    ultimately show ?thesis by (metis not_le)
  qed
  moreover have "inj_on (\<lambda>n. w_uuids (ws n) 100) {Suc k..}"
    using assms(1) unfolding freshSupply_def by (meson atLeast_Suc_greaterThan greaterThan_subset_iff inj_on_subset Suc_leD atLeast_subset_iff le_SucI order_refl)
  ultimately show ?thesis using assms unfolding freshSupply_def by (auto dest: Suc_leD)
qed

lemma freshSupply_later: "freshSupply ws k sm \<Longrightarrow> freshSupply ws (Suc k) sm"
  unfolding freshSupply_def by (auto intro: inj_on_subset)

interpretation run: total_effects "runOk env" "runStep env" for env :: "'w recovery_env"
proof unfold_locales
  fix s :: "'w run_session"
  assume "runOk env s"
  then show "runStep env s s" by (simp add: runStep_def runOk_def plainStep_refl)
next
  fix s s' s'' :: "'w run_session"
  assume "runStep env s s'" "runStep env s' s''"
  then show "runStep env s s''" unfolding runStep_def using plainStep_trans by blast
next
  fix s s' :: "'w run_session"
  assume "runStep env s s'"
  then show "runOk env s'" by (simp add: runStep_def)
qed

section \<open>The methods\<close>

text \<open>An operation of the manager that throws without a change or appends one entry.\<close>

definition appendsOne :: "(world \<Rightarrow> session_manager \<Rightarrow> ('a js_result \<times> session_manager) option) \<Rightarrow> bool" where
  "appendsOne f \<longleftrightarrow>
     (\<forall>w sm. smInv sm \<longrightarrow> freshWorld w sm \<longrightarrow>
        (\<exists>r sm'. f w sm = Some (r, sm') \<and>
           (sm' = sm \<or> (\<exists>d. plainStep sm sm' \<and> getEntries sm' = getEntries sm @ [newEntry w d sm]))))"

lemma appendsOneI:
  assumes "\<And>w sm. smInv sm \<Longrightarrow> freshWorld w sm \<Longrightarrow>
      (\<exists>err. f w sm = Some (Inl err, sm)) \<or>
      (\<exists>d. f w sm = Some (appendData w d sm) \<and> plainData d \<and> set_option (dataTarget d) \<subseteq> ids (getEntries sm))"
  shows "appendsOne f"
  unfolding appendsOne_def
proof (intro allI impI)
  fix w sm
  assume ok: "smInv sm" "freshWorld w sm"
  show "\<exists>r sm'. f w sm = Some (r, sm') \<and>
      (sm' = sm \<or> (\<exists>d. plainStep sm sm' \<and> getEntries sm' = getEntries sm @ [newEntry w d sm]))"
    using assms [OF ok]
  proof (elim disjE exE conjE)
    fix d
    assume d: "f w sm = Some (appendData w d sm)" "plainData d" "set_option (dataTarget d) \<subseteq> ids (getEntries sm)"
    obtain sm' where "appendData w d sm = (Inr (e_id (newEntry w d sm)), sm')" "smInv sm'" "appended sm (newEntry w d sm) sm'"
      using appendData_inv [OF ok d(2,3)] by blast
    then show ?thesis using d(1) appended_plainStep by (auto simp: appended_def)
  qed auto
qed

lemma appendMessage_one: "appendsOne (\<lambda>w sm. Some (appendMessage w m sm))"
  by (rule appendsOneI) (auto simp: appendMessage_def plainData_def dataTarget_def intro!: exI)

lemma appendCustomMessageEntry_one: "appendsOne (\<lambda>w sm. Some (appendCustomMessageEntry w ty c disp det sm))"
  by (rule appendsOneI) (auto simp: appendCustomMessageEntry_def plainData_def dataTarget_def intro!: exI)

lemma sessionView_total:
  assumes "smInv sm"
  obtains branch where "getBranch None sm = Some branch" "set branch \<subseteq> set (getEntries sm)"
    "sm_buildSessionProjection sm = Some (projectPath (legacyPruneChanges sm) branch)"
    "sessionView sm = Some (branch, projectPath (legacyPruneChanges sm) branch)"
proof -
  have c: "coreInv sm" using assms by (simp add: smInv_def)
  obtain branch where b: "getBranch None sm = Some branch" "subseq branch (getEntries sm)" using getBranch_total [OF c] by metis
  then show thesis using that subseq_set [OF b(2)] by (simp add: projection_of_branch [OF c] sessionView_def)
qed

lemma appendCompaction_one: "appendsOne (\<lambda>w. appendCompaction w summary firstKept tokens details fromHook use)"
proof (rule appendsOneI)
  fix w sm
  assume "smInv sm"
  then obtain p where p: "sm_buildSessionProjection sm = Some p" by (rule sessionView_total) simp
  show "(\<exists>err. appendCompaction w summary firstKept tokens details fromHook use sm = Some (Inl err, sm)) \<or>
      (\<exists>d. appendCompaction w summary firstKept tokens details fromHook use sm = Some (appendData w d sm) \<and>
        plainData d \<and> set_option (dataTarget d) \<subseteq> ids (getEntries sm))"
    by (rule disjI2) (auto simp: appendCompaction_def p Let_def plainData_def dataTarget_def intro!: exI)
qed

lemma getContextEditTarget_total: "smInv sm \<Longrightarrow> getContextEditTarget t sm \<noteq> None"
  by (erule sessionView_total) (simp add: getContextEditTarget_def)

lemma appendContextEdit_one: "appendsOne (\<lambda>w. appendContextEdit w t rep cur)"
proof (rule appendsOneI)
  fix w sm
  assume inv: "smInv sm"
  then obtain v where v: "getContextEditTarget t sm = Some v" using getContextEditTarget_total by blast
  show "(\<exists>err. appendContextEdit w t rep cur sm = Some (Inl err, sm)) \<or>
      (\<exists>d. appendContextEdit w t rep cur sm = Some (appendData w d sm) \<and> plainData d \<and>
        set_option (dataTarget d) \<subseteq> ids (getEntries sm))"
  proof (cases "js_bind v (normalizeReplacement t rep cur)")
    case (Inl err)
    then show ?thesis by (simp add: appendContextEdit_def validateContextEdit_def v)
  next
    case (Inr r)
    then obtain e where e: "v = Inr e" "normalizeReplacement t rep cur e = Inr r" by auto
    then have "t \<in> ids (getEntries sm)" using editTarget_known [OF inv] v by blast
    then show ?thesis
      using e by (intro disjI2 exI [of _ "ContextEditEntry t r cur"])
        (simp add: appendContextEdit_def validateContextEdit_def v plainData_def dataTarget_def)
  qed
qed

lemma runs_store:
  assumes "appendsOne f"
  shows "runs (runOk env) (runStep env) (rs_store env f)"
proof (rule runsI)
  fix s
  assume ok: "runOk env s"
  let ?sm = "rs_manager s" and ?w = "rv_worlds env (rs_appends s)"
  have inv: "smInv ?sm" and sup: "freshSupply (rv_worlds env) (rs_appends s) ?sm" using ok by (simp_all add: runOk_def)
  obtain r sm' where f: "f ?w ?sm = Some (r, sm')"
    "sm' = ?sm \<or> (\<exists>d. plainStep ?sm sm' \<and> getEntries sm' = getEntries ?sm @ [newEntry ?w d ?sm])"
    using assms inv freshSupply_now [OF inv sup] unfolding appendsOne_def by blast
  from f(2) have "plainStep ?sm sm'" "freshSupply (rv_worlds env) (Suc (rs_appends s)) sm'"
    using plainStep_refl [OF inv] freshSupply_later [OF sup] freshSupply_append [OF sup] by auto
  then show "\<exists>r s'. rs_store env f s = Some (r, s') \<and> runStep env s s'"
    using f(1) by (simp add: rs_store_def runStep_def runOk_def plainStep_def)
qed

text \<open>Methods that change neither the manager nor the supply.\<close>

lemma runStep_same:
  "runOk env s \<Longrightarrow> rs_manager s' = rs_manager s \<Longrightarrow> rs_appends s' = rs_appends s \<Longrightarrow> runStep env s s'"
  by (simp add: runStep_def runOk_def plainStep_refl)

lemma runs_modify_same:
  "(\<And>s. rs_manager (f s) = rs_manager s \<and> rs_appends (f s) = rs_appends s) \<Longrightarrow> runs (runOk env) (runStep env) (eff_modify f)"
  by (rule run.runs_modify) (rule runStep_same, simp_all)

lemma runs_call: "runs (runOk env) (runStep env) (rs_call env' f)"
  by (rule runsI) (auto simp: rs_call_def Let_def split: prod.split intro: runStep_same)

lemma runs_emit: "runs (runOk env) (runStep env) (rs_emit ev)"
  unfolding rs_emit_def by (rule runs_modify_same) simp

lemma runs_queued: "runs (runOk env) (runStep env) (rs_hasQueuedMessages env')"
  by (rule runsI) (auto simp: rs_hasQueuedMessages_def intro: runStep_same)

lemma runs_projection: "runs (runOk env) (runStep env) (eff_query (\<lambda>s. sm_buildSessionProjection (rs_manager s)))"
  by (rule run.runs_query) (auto simp: runOk_def elim: sessionView_total)

lemma runs_branch: "runs (runOk env) (runStep env) (eff_query (\<lambda>s. getBranch None (rs_manager s)))"
  by (rule run.runs_query) (auto simp: runOk_def elim: sessionView_total)

lemma runs_view: "runs (runOk env) (runStep env) (eff_query (\<lambda>s. sessionView (rs_manager s)))"
  by (rule run.runs_query) (auto simp: runOk_def elim: sessionView_total)

lemmas runs_basic = run.runs_rules run.runs_get runs_modify_same runs_call runs_emit runs_queued runs_projection runs_branch runs_view

lemma runs_mapM: "(\<And>x. runs (runOk env) (runStep env) (f x)) \<Longrightarrow> runs (runOk env) (runStep env) (eff_mapM f xs)"
  by (induction xs) (auto intro: runs_basic)

lemma runs_refresh: "runs (runOk env) (runStep env) refreshFinalizedContext"
  unfolding refreshFinalizedContext_def by (intro runs_basic) simp

lemma runs_findPersisted: "runs (runOk env) (runStep env) (findPersistedMessageEntryId m)"
  unfolding findPersistedMessageEntryId_def by (auto intro!: runs_basic split: option.split)

lemma runs_omitEntry: "runs (runOk env) (runStep env) (omitEntry env t)"
  unfolding omitEntry_def by (auto intro!: runs_basic runs_store appendContextEdit_one split: option.split)

lemma runs_omit: "runs (runOk env) (runStep env) (omitRecoveryAttempt env m rs)"
  unfolding omitRecoveryAttempt_def Let_def
  by (auto intro!: runs_basic runs_mapM runs_findPersisted runs_omitEntry runs_refresh simp del: eff_mapM.simps)

lemma runs_finishCancelled: "runs (runOk env) (runStep env) finishCancelledRetry"
  unfolding finishCancelledRetry_def by (auto intro!: runs_basic)

lemma runs_prepareRetry: "runs (runOk env) (runStep env) (prepareRetry env m)"
  unfolding prepareRetry_def Let_def by (auto intro!: runs_basic runs_omit runs_finishCancelled)

lemma runs_throwIfAborted: "runs (runOk env) (runStep env) (throwIfAborted env)"
  unfolding throwIfAborted_def by (auto intro!: runs_basic)

lemma runs_beforeCompact: "runs (runOk env) (runStep env) (runBeforeCompact env p reason willRetry)"
  unfolding runBeforeCompact_def by (auto intro!: runs_basic split: option.split)

lemma runs_default: "runs (runOk env) (runStep env) (runDefaultCompaction env p m ci)"
  unfolding runDefaultCompaction_def by (intro runs_basic)

lemma runs_compactionSummary: "runs (runOk env) (runStep env) (compactionSummary env model p reason willRetry)"
  unfolding compactionSummary_def
  by (auto intro!: runs_basic runs_throwIfAborted runs_beforeCompact runs_default split: option.split)

lemma runs_storeCompaction: "runs (runOk env) (runStep env) (storeCompaction env c ext)"
  unfolding storeCompaction_def by (auto intro!: runs_basic runs_store appendCompaction_one runs_refresh)

lemma runs_save: "runs (runOk env) (runStep env) (saveCompaction env reason willRetry c)"
  unfolding saveCompaction_def
  by (cases c) (auto intro!: runs_basic runs_storeCompaction)

lemma runs_compactionFailed: "runs (runOk env) (runStep env) (compactionFailed env reason err)"
  unfolding compactionFailed_def Let_def by (intro runs_basic)

lemma preparedCompaction_total:
  assumes "smInv sm"
  shows "preparedCompaction env sm \<noteq> None"
proof -
  have c: "coreInv sm" using assms by (simp add: smInv_def)
  obtain branch where b: "getBranch None sm = Some branch" using assms by (rule sessionView_total)
  then show ?thesis
    using branch_own_path [OF c b] by (simp add: preparedCompaction_def prepareCompaction_def buildSessionProjection_path)
qed

lemma runs_prepared: "runs (runOk env) (runStep env) (eff_query (\<lambda>s. preparedCompaction env' (rs_manager s)))"
  by (rule run.runs_query) (simp add: runOk_def preparedCompaction_total)

lemma runs_auto: "runs (runOk env) (runStep env) (runAutoCompaction env reason willRetry)"
  unfolding runAutoCompaction_def
  by (auto intro!: runs_basic runs_prepared runs_compactionSummary runs_save runs_compactionFailed split: option.split)

lemma runs_manualSummary: "runs (runOk env) (runStep env) (manualSummary env noModel ci)"
  unfolding manualSummary_def by (auto intro!: runs_basic runs_prepared runs_beforeCompact runs_default split: option.split)

lemma runs_manualCompact: "runs (runOk env) (runStep env) (manualCompact env noModel ci)"
  unfolding manualCompact_def manualFailed_def Let_def
  by (auto intro!: runs_basic runs_manualSummary runs_storeCompaction split: prod.split)

lemma runs_recoverOverflow: "runs (runOk env) (runStep env) (recoverOverflow env m rs b)"
  unfolding recoverOverflow_def by (auto intro!: runs_basic runs_auto runs_omit)

lemma runs_checkCompaction: "runs (runOk env) (runStep env) (checkCompaction env m skip rs)"
  unfolding checkCompaction_def Let_def
  by (auto intro!: runs_basic runs_findPersisted runs_recoverOverflow runs_auto split: option.split prod.split)

lemma runs_usage: "runs (runOk env) (runStep env) (getContextUsage env)"
  unfolding getContextUsage_def Let_def by (auto intro!: runs_basic split: option.split prod.split)

lemma runs_dequeue: "runs (runOk env) (runStep env) (dequeueUserMessage t)"
  unfolding dequeueUserMessage_def emitQueueUpdate_def by (auto intro!: runs_basic)

lemma runs_flush: "runs (runOk env) (runStep env) (flushPendingCustomMessages env)"
  unfolding flushPendingCustomMessages_def appendCustomMessage_def
  by (auto intro!: runs_basic runs_store appendCustomMessageEntry_one runs_refresh)

lemma persistedAs_one: "persistedAs m = Some f \<Longrightarrow> appendsOne (\<lambda>w sm. Some (f w sm))"
  by (cases m) (auto intro: appendMessage_one appendCustomMessageEntry_one)

lemma runs_persist: "runs (runOk env) (runStep env) (persistMessage env m)"
  unfolding persistMessage_def by (auto intro!: runs_basic runs_store persistedAs_one split: option.split)

lemma runs_note: "runs (runOk env) (runStep env) (noteAssistantMessage m)"
  unfolding noteAssistantMessage_def by (auto intro!: runs_basic)

lemma runs_handleAgentEvent: "runs (runOk env) (runStep env) (handleAgentEvent env ev)"
  unfolding handleAgentEvent_def beforeForward_def forwardEvent_def afterForward_def
  by (cases ev) (auto intro!: runs_basic runs_usage runs_dequeue runs_persist runs_note runs_flush split: agent_message.split)

lemma runs_runAgent: "runs (runOk env) (runStep env) (runAgent env run)"
  unfolding runAgent_def by (auto intro!: runs_basic runs_handleAgentEvent split: prod.split)

lemma runs_continue: "runs (runOk env) (runStep env) (continueAgent env)"
  unfolding continueAgent_def by (intro runs_basic runs_runAgent)

lemma runs_afterRetry: "runs (runOk env) (runStep env) (afterRetry env m rs)"
  unfolding afterRetry_def by (auto intro!: runs_basic runs_finishCancelled runs_checkCompaction)

lemma runs_postRun: "runs (runOk env) (runStep env) (handlePostAgentRun env)"
  unfolding handlePostAgentRun_def
  by (auto intro!: runs_basic runs_finishCancelled runs_prepareRetry runs_afterRetry split: option.split)

lemma runs_settle: "runs (runOk env) (runStep env) (settleRun env)"
  unfolding settleRun_def by (auto intro!: runs_basic runs_finishCancelled runs_flush)

lemmas keeps_leaf = run.runs_return [THEN runs_keeps] run.runs_throw [THEN runs_keeps] runs_queued [THEN runs_keeps]
  runs_modify_same [THEN runs_keeps]

lemma keeps_promptLoop: "keeps (runOk env) (runStep env) (promptLoop n env)"
proof (induction n)
  case (Suc n)
  have "keeps (runOk env) (runStep env) (eff_bind (continueAgent env) (\<lambda>_. promptLoop n env))"
    by (rule run.keeps_bind [OF runs_keeps [OF runs_continue] Suc.IH])
  then show ?case
    by (auto intro!: run.keeps_get run.keeps_bind runs_keeps [OF runs_postRun] keeps_leaf)
qed (simp add: keeps_def)

lemma keeps_runAgentPrompt: "keeps (runOk env) (runStep env) (runAgentPrompt fuel env ms)"
  unfolding runAgentPrompt_def eff_finally_def
  by (auto intro!: run.keeps_bind run.keeps_catch keeps_promptLoop runs_keeps [OF runs_settle] keeps_leaf
      runs_keeps [OF run.runs_get [OF runs_runAgent]])

end
