(* ===== verification/Recovery_Runs.thy ===== *)
theory Recovery_Runs
  imports Recovery_Properties
begin

text \<open>
  Whole prompts of the agent session. A retry takes exactly the failed attempt out of the context; a run whose first
  attempts fail ends in the context of a run that succeeds at once; a provider that never recovers is given up after
  the configured number of retries; overflow recovery is attempted once; a compaction that fails leaves the session
  alone.
\<close>

section \<open>One attempt\<close>

lemmas eff_simps = eff_bind_def eff_return_def eff_modify_def eff_get_def eff_lift_def eff_query_def eff_throw_def
  rs_emit_def rs_call_def rs_hasQueuedMessages_def

fun isRetryEvent :: "session_event \<Rightarrow> bool" where
  "isRetryEvent (AutoRetryStart _ _ _ _) = True"
| "isRetryEvent (AutoRetryEnd _ _ _) = True"
| "isRetryEvent _ = False"

definition retryEvents :: "'w run_session \<Rightarrow> session_event list" where
  "retryEvents s = filter isRetryEvent (rs_events s)"

definition logMessages :: "'w run_session \<Rightarrow> agent_message list" where
  "logMessages s = List.map_filter entryMessage (getEntries (rs_manager s))"

text \<open>A quiet session whose live context and projection are both \<open>ctx\<close>.\<close>

definition inContext :: "'w recovery_env \<Rightarrow> agent_message list \<Rightarrow> 'w run_session \<Rightarrow> bool" where
  "inContext env ctx s \<longleftrightarrow>
     runOk env s \<and> map_option sp_messages (sm_buildSessionProjection (rs_manager s)) = Some ctx \<and> rs_messages s = ctx \<and>
     rs_pendingCustomMessages s = [] \<and> \<not> rs_agentRunAbortRequested s"

definition sameCore :: "'w run_session \<Rightarrow> 'w run_session \<Rightarrow> bool" where
  "sameCore s s' \<longleftrightarrow>
     rs_manager s' = rs_manager s \<and> rs_messages s' = rs_messages s \<and> rs_entryIdsByMessage s' = rs_entryIdsByMessage s \<and>
     rs_appends s' = rs_appends s \<and> rs_pendingCustomMessages s' = rs_pendingCustomMessages s \<and>
     rs_agentRunAbortRequested s' = rs_agentRunAbortRequested s \<and> rs_retryAttempt s' = rs_retryAttempt s \<and>
     rs_lastAssistantMessage s' = rs_lastAssistantMessage s \<and> rs_lastAssistantToolResults s' = rs_lastAssistantToolResults s \<and>
     rs_world s' = rs_world s \<and> retryEvents s' = retryEvents s"

lemma sameCore_refl [simp]: "sameCore s s"
  by (simp add: sameCore_def)

lemma sameCore_trans: "sameCore s s' \<Longrightarrow> sameCore s' s'' \<Longrightarrow> sameCore s s''"
  by (simp add: sameCore_def)

lemma sameCore_inContext: "sameCore s s' \<Longrightarrow> inContext env ctx s \<Longrightarrow> inContext env ctx s'"
  by (simp add: sameCore_def inContext_def runOk_def)

definition usageKnown :: "agent_message list \<Rightarrow> bool" where
  "usageKnown ms \<longleftrightarrow> (\<forall>a. Assistant a \<in> set ms \<longrightarrow> am_usage a \<noteq> None)"

lemma reportsUsage_total: "usageKnown ms \<Longrightarrow> \<exists>b. reportsUsage ms = Inr b"
  by (induction ms rule: reportsUsage.induct) (auto simp: usageKnown_def split: option.split)

lemma hasPostCompactionUsage_total:
  assumes "usageKnown (concat (map pe_messages (sp_entries projection)))"
  shows "\<exists>b. hasPostCompactionUsage branch projection c = Inr b"
proof -
  have "\<exists>b. reportsUsage (pe_messages pe) = Inr b" if "pe \<in> set (sp_entries projection)" for pe
    using assms that by (intro reportsUsage_total) (auto simp: usageKnown_def)
  then obtain g where g: "\<And>pe. pe \<in> set (sp_entries projection) \<Longrightarrow> reportsUsage (pe_messages pe) = Inr (g pe)" by metis
  have "js_map (\<lambda>pe. js_bind (reportsUsage (pe_messages pe)) (\<lambda>b. Inr (b, e_id (pe_source pe)))) (sp_entries projection)
      = Inr (map (\<lambda>pe. (g pe, e_id (pe_source pe))) (sp_entries projection))"
    by (rule js_map_total) (simp add: g)
  then show ?thesis unfolding hasPostCompactionUsage_def by simp
qed

lemma getContextUsage_total:
  assumes "runOk env s" and "map_option sp_messages (sm_buildSessionProjection (rs_manager s)) = Some ctx" and "usageKnown ctx"
  shows "\<exists>u. getContextUsage env s = Some (Inr u, s)"
proof -
  obtain branch where v: "sessionView (rs_manager s) = Some (branch, projectPath (legacyPruneChanges (rs_manager s)) branch)"
    "sm_buildSessionProjection (rs_manager s) = Some (projectPath (legacyPruneChanges (rs_manager s)) branch)"
    using assms(1) by (auto simp: runOk_def elim: sessionView_total)
  let ?p = "projectPath (legacyPruneChanges (rs_manager s)) branch"
  have "usageKnown (concat (map pe_messages (sp_entries ?p)))"
    using assms(2,3) v(2) by (simp add: projectPath_messages)
  then obtain known where "(case getLatestCompactionEntry branch of None \<Rightarrow> eff_return True
      | Some c \<Rightarrow> eff_lift (hasPostCompactionUsage branch ?p c)) s = Some (Inr known, s)"
    using hasPostCompactionUsage_total [of ?p branch] by (cases "getLatestCompactionEntry branch") (auto simp: eff_simps)
  then show ?thesis by (cases known) (simp_all add: getContextUsage_def Let_def eff_simps v(1))
qed

lemma quiet_event:
  assumes "ev = AgentStart \<or> ev = MessageStart (Assistant a)"
  shows "\<exists>s'. handleAgentEvent env ev s = Some (Inr (), s') \<and> sameCore s s'"
  using assms
  by (elim disjE) (simp_all add: handleAgentEvent_def beforeForward_def forwardEvent_def afterForward_def eff_simps sameCore_def retryEvents_def)

lemma turnStart_event:
  assumes "inContext env ctx s" and "usageKnown ctx"
  shows "\<exists>s'. handleAgentEvent env TurnStart s = Some (Inr (), s') \<and> sameCore s s'"
proof -
  have "\<exists>u. getContextUsage env (s\<lparr>rs_messages := rs_messages s\<rparr>) = Some (Inr u, s\<lparr>rs_messages := rs_messages s\<rparr>)"
    using assms by (intro getContextUsage_total) (simp_all add: inContext_def runOk_def)
  then show ?thesis
    by (auto simp: handleAgentEvent_def beforeForward_def forwardEvent_def afterForward_def eff_simps sameCore_def retryEvents_def)
qed

lemma dequeue_core: "\<exists>s'. dequeueUserMessage t s = Some (Inr (), s') \<and> sameCore s s'"
  by (simp add: dequeueUserMessage_def emitQueueUpdate_def eff_simps sameCore_def retryEvents_def)

lemma userStart_event: "\<exists>s'. handleAgentEvent env (MessageStart (User u)) s = Some (Inr (), s') \<and> sameCore s s'"
proof -
  obtain s' where s': "dequeueUserMessage (contentTextSep [] (um_content u))
      (s\<lparr>rs_messages := rs_messages s, rs_overflowRecoveryAttempted := False\<rparr>) = Some (Inr (), s')"
    "sameCore (s\<lparr>rs_messages := rs_messages s, rs_overflowRecoveryAttempted := False\<rparr>) s'"
    using dequeue_core by blast
  then show ?thesis
    by (simp add: handleAgentEvent_def beforeForward_def forwardEvent_def afterForward_def eff_simps sameCore_def retryEvents_def)
qed

lemma turnEnd_event:
  assumes "rs_pendingCustomMessages s = []"
  shows "\<exists>s'. handleAgentEvent env (TurnEnd a []) s = Some (Inr (), s') \<and>
    sameCore (s\<lparr>rs_lastAssistantToolResults := []\<rparr>) s'"
  using assms
  by (simp add: handleAgentEvent_def beforeForward_def forwardEvent_def afterForward_def flushPendingCustomMessages_def eff_simps
      sameCore_def retryEvents_def)

lemma isRetryableError_total: "am_usage a \<noteq> None \<Longrightarrow> \<exists>b. isRetryableError env a = Inr b"
  by (auto simp: isRetryableError_def isContextOverflow_def Let_def)

lemma agentEnd_event:
  assumes "am_usage a \<noteq> None"
  shows "\<exists>s'. handleAgentEvent env (AgentEnd [Assistant a]) s = Some (Inr (), s') \<and> sameCore s s'"
proof -
  obtain b where "isRetryableError env a = Inr b" using isRetryableError_total [OF assms] by blast
  then show ?thesis
    by (simp add: handleAgentEvent_def beforeForward_def forwardEvent_def afterForward_def willRetryAfterAgentEnd_def findLast_def
        eff_simps sameCore_def retryEvents_def Let_def)
qed

text \<open>What a session needs for its last stored message to be taken out again, leaving \<open>ctx\<close>.\<close>

definition omittable :: "agent_message list \<Rightarrow> agent_message \<Rightarrow> 'w run_session \<Rightarrow> bool" where
  "omittable ctx m s \<longleftrightarrow>
     (\<exists>i e p. map_of (rs_entryIdsByMessage s) m = Some i \<and> i \<noteq> [] \<and>
        getContextEditTarget i (rs_manager s) = Some (Inr e) \<and> sm_buildSessionProjection (rs_manager s) = Some p \<and>
        concat (map pe_messages (filter (\<lambda>pe. e_id (pe_source pe) \<noteq> i) (sp_entries p))) = ctx)"

lemma sameCore_omittable: "sameCore s s' \<Longrightarrow> omittable ctx m s \<Longrightarrow> omittable ctx m s'"
  by (simp add: sameCore_def omittable_def)

lemma append_omittable:
  assumes inv: "smInv sm" and fresh: "freshWorld w sm"
    and ctx: "map_option sp_messages (sm_buildSessionProjection sm) = Some ctx"
  obtains i sm' e p where "appendMessage w m sm = (Inr i, sm')" "i \<noteq> []" "smInv sm'"
    "getEntries sm' = getEntries sm @ [newEntry w (MessageEntry m False) sm]"
    "map_option sp_messages (sm_buildSessionProjection sm') = Some (ctx @ [m])"
    "getContextEditTarget i sm' = Some (Inr e)" "sm_buildSessionProjection sm' = Some p"
    "concat (map pe_messages (filter (\<lambda>pe. e_id (pe_source pe) \<noteq> i) (sp_entries p))) = ctx"
proof -
  let ?d = "MessageEntry m False" and ?l = "legacyPruneChanges sm"
  let ?e = "newEntry w ?d sm"
  have pd: "plainData ?d" "set_option (dataTarget ?d) \<subseteq> ids (getEntries sm)" by (simp_all add: plainData_def dataTarget_def)
  obtain path sm' where b: "appendData w ?d sm = (Inr (e_id ?e), sm')" "smInv sm'" "getEntries sm' = getEntries sm @ [?e]"
    "getBranch None sm' = Some (path @ [?e])" "sm_buildSessionProjection sm = Some (projectPath ?l path)"
    "sm_buildSessionProjection sm' = Some (projectPath ?l (path @ [?e]))"
    "map_of (changesOf ?l path) (e_id ?e) = None" "e_id ?e \<notin> ids (getEntries sm)" "set path \<subseteq> set (getEntries sm)"
    by (rule appendData_branch [OF inv fresh pd])
  have c: "coreInv sm'" using b(2) by (simp add: smInv_def)
  have snoc: "sp_entries (projectPath ?l (path @ [?e])) = sp_entries (projectPath ?l path) @ [projectOne (changesOf ?l path) ?e]"
    by (rule projectPath_snoc_plain) (simp_all add: isCompaction_def editEffect_def)
  have one: "projectOne (changesOf ?l path) ?e = \<lparr>pe_source = ?e, pe_messages = [m]\<rparr>"
    by (simp add: projectOne_def projectContextEntry_def b(7) sessionEntryToContextMessages_def)
  have "e_id (pe_source pe) \<noteq> e_id ?e" if "pe \<in> set (sp_entries (projectPath ?l path))" for pe
  proof -
    have "pe_source pe \<in> set path"
      using that map_pe_source_projectEntries [of "changesOf ?l path" "compactPath path"] compactPath_subset [of path]
      by (metis image_eqI list.set_map projectPath_entries subsetD)
    then show ?thesis using b(8,9) by (metis imageI subsetD)
  qed
  then have "filter (\<lambda>pe. e_id (pe_source pe) \<noteq> e_id ?e) (sp_entries (projectPath ?l path)) = sp_entries (projectPath ?l path)"
    by (simp add: filter_id_conv)
  moreover have ctx': "concat (map pe_messages (sp_entries (projectPath ?l path))) = ctx"
    using ctx b(5) by (simp add: projectPath_messages)
  ultimately have "concat (map pe_messages (filter (\<lambda>pe. e_id (pe_source pe) \<noteq> e_id ?e) (sp_entries (projectPath ?l (path @ [?e]))))) = ctx"
    by (simp add: snoc one)
  moreover have "getContextEditTarget (e_id ?e) sm' = Some (Inr ?e)"
    using b(3,9) by (intro sample_target [OF b(2,4)]) (auto simp: sessionEntryToContextMessages_def)
  moreover have "e_id ?e \<noteq> []" using fresh by (simp add: newEntry_def freshWorld_def generateId_nonempty)
  ultimately show thesis
    using that [of "e_id ?e" sm' ?e] b(1-3,6) ctx' by (simp add: appendMessage_def projectPath_messages snoc one)
qed

lemma map_filter_snoc: "List.map_filter f (xs @ [x]) = List.map_filter f xs @ (case f x of None \<Rightarrow> [] | Some y \<Rightarrow> [y])"
  by (simp add: List.map_filter_def split: option.split)

text \<open>What a handled message leaves, apart from what the session notes about assistant messages.\<close>

definition stored :: "'w recovery_env \<Rightarrow> agent_message list \<Rightarrow> agent_message \<Rightarrow> 'w run_session \<Rightarrow> 'w run_session \<Rightarrow> bool" where
  "stored env ctx m s s' \<longleftrightarrow>
     inContext env (ctx @ [m]) s' \<and> omittable ctx m s' \<and> logMessages s' = logMessages s @ [m] \<and>
     rs_lastAssistantToolResults s' = rs_lastAssistantToolResults s \<and> rs_world s' = rs_world s"

lemma persist_stored:
  assumes ctx: "inContext env ctx s" and p: "persistedAs m = Some (\<lambda>w. appendMessage w m)"
  defines "s1 \<equiv> s\<lparr>rs_messages := rs_messages s @ [m], rs_events := rs_events s @ [AgentEventSent (MessageEnd m) None]\<rparr>"
  shows "\<exists>s'. persistMessage env m s1 = Some (Inr (), s') \<and> stored env ctx m s s' \<and>
    rs_retryAttempt s' = rs_retryAttempt s \<and> rs_lastAssistantMessage s' = rs_lastAssistantMessage s \<and>
    retryEvents s' = retryEvents s"
proof -
  let ?w = "rv_worlds env (rs_appends s)" and ?sm = "rs_manager s"
  have ok: "smInv ?sm" "freshSupply (rv_worlds env) (rs_appends s) ?sm" using ctx by (simp_all add: inContext_def runOk_def)
  have c: "map_option sp_messages (sm_buildSessionProjection ?sm) = Some ctx" using ctx by (simp add: inContext_def)
  obtain i sm' e p' where a: "appendMessage ?w m ?sm = (Inr i, sm')" "i \<noteq> []" "smInv sm'"
    "getEntries sm' = getEntries ?sm @ [newEntry ?w (MessageEntry m False) ?sm]"
    "map_option sp_messages (sm_buildSessionProjection sm') = Some (ctx @ [m])"
    "getContextEditTarget i sm' = Some (Inr e)" "sm_buildSessionProjection sm' = Some p'"
    "concat (map pe_messages (filter (\<lambda>pe. e_id (pe_source pe) \<noteq> i) (sp_entries p'))) = ctx"
    by (rule append_omittable [OF ok(1) freshSupply_now [OF ok] c])
  have sup: "freshSupply (rv_worlds env) (Suc (rs_appends s)) sm'" by (rule freshSupply_append [OF ok(2) a(4)])
  let ?s' = "s1\<lparr>rs_manager := sm', rs_appends := Suc (rs_appends s), rs_entryIdsByMessage := AList.update m i (rs_entryIdsByMessage s)\<rparr>"
  have "persistMessage env m s1 = Some (Inr (), ?s')"
    using a(1,2) by (simp add: persistMessage_def p rs_store_def eff_simps s1_def)
  moreover have "inContext env (ctx @ [m]) ?s'"
    using ctx a(3,5) sup by (simp add: inContext_def runOk_def s1_def)
  moreover have "omittable ctx m ?s'"
    using a(2,6-8) by (simp add: omittable_def s1_def)
  moreover have "logMessages ?s' = logMessages s @ [m]"
    by (simp add: logMessages_def a(4) map_filter_snoc entryMessage_def)
  ultimately show ?thesis by (simp add: stored_def s1_def retryEvents_def)
qed

lemma userEnd_event:
  assumes "inContext env ctx s"
  shows "\<exists>s'. handleAgentEvent env (MessageEnd (User u)) s = Some (Inr (), s') \<and> stored env ctx (User u) s s' \<and>
    rs_retryAttempt s' = rs_retryAttempt s \<and> retryEvents s' = retryEvents s"
  using persist_stored [OF assms, of "User u"]
  by (auto simp: handleAgentEvent_def beforeForward_def forwardEvent_def afterForward_def eff_simps)

definition afterAssistant :: "assistant_message \<Rightarrow> 'w run_session \<Rightarrow> 'w run_session \<Rightarrow> bool" where
  "afterAssistant a s s' \<longleftrightarrow>
     rs_lastAssistantMessage s' = Some a \<and>
     rs_retryAttempt s' = (if am_stopReason a = StopError then rs_retryAttempt s else 0) \<and>
     retryEvents s' = retryEvents s @
       (if am_stopReason a \<noteq> StopError \<and> 0 < rs_retryAttempt s then [AutoRetryEnd True (rs_retryAttempt s) None] else [])"

lemma note_core:
  "\<exists>s'. noteAssistantMessage a s = Some (Inr (), s') \<and> afterAssistant a s s' \<and>
     rs_manager s' = rs_manager s \<and> rs_messages s' = rs_messages s \<and> rs_appends s' = rs_appends s \<and>
     rs_pendingCustomMessages s' = rs_pendingCustomMessages s \<and> rs_agentRunAbortRequested s' = rs_agentRunAbortRequested s \<and>
     rs_entryIdsByMessage s' = rs_entryIdsByMessage s \<and> rs_world s' = rs_world s \<and>
     rs_lastAssistantToolResults s' = rs_lastAssistantToolResults s"
  by (cases "am_stopReason a \<noteq> StopError \<and> 0 < rs_retryAttempt s")
     (auto simp: noteAssistantMessage_def eff_simps afterAssistant_def retryEvents_def)

lemma assistantEnd_event:
  assumes "inContext env ctx s"
  shows "\<exists>s'. handleAgentEvent env (MessageEnd (Assistant a)) s = Some (Inr (), s') \<and>
    stored env ctx (Assistant a) s s' \<and> afterAssistant a s s'"
proof -
  let ?s1 = "s\<lparr>rs_messages := rs_messages s @ [Assistant a], rs_events := rs_events s @ [AgentEventSent (MessageEnd (Assistant a)) None]\<rparr>"
  obtain s2 where s2: "persistMessage env (Assistant a) ?s1 = Some (Inr (), s2)" "stored env ctx (Assistant a) s s2"
    "rs_retryAttempt s2 = rs_retryAttempt s" "retryEvents s2 = retryEvents s"
    using persist_stored [OF assms, of "Assistant a"] by auto
  obtain s3 where s3: "noteAssistantMessage a s2 = Some (Inr (), s3)" "afterAssistant a s2 s3"
    "rs_manager s3 = rs_manager s2" "rs_messages s3 = rs_messages s2" "rs_appends s3 = rs_appends s2"
    "rs_pendingCustomMessages s3 = rs_pendingCustomMessages s2" "rs_agentRunAbortRequested s3 = rs_agentRunAbortRequested s2"
    "rs_entryIdsByMessage s3 = rs_entryIdsByMessage s2" "rs_world s3 = rs_world s2"
    "rs_lastAssistantToolResults s3 = rs_lastAssistantToolResults s2"
    using note_core by blast
  have "handleAgentEvent env (MessageEnd (Assistant a)) s = Some (Inr (), s3)"
    using s2(1) s3(1) by (simp add: handleAgentEvent_def beforeForward_def forwardEvent_def afterForward_def eff_simps)
  moreover have "stored env ctx (Assistant a) s s3"
    using s2(2) s3(3-) by (simp add: stored_def inContext_def runOk_def omittable_def logMessages_def)
  moreover have "afterAssistant a s s3" using s3(2) s2(3,4) by (simp add: afterAssistant_def)
  ultimately show ?thesis by blast
qed

definition responseEvents :: "assistant_message \<Rightarrow> agent_event list" where
  "responseEvents a = [MessageStart (Assistant a), MessageEnd (Assistant a), TurnEnd a [], AgentEnd [Assistant a]]"

definition attempted :: "'w recovery_env \<Rightarrow> agent_message list \<Rightarrow> assistant_message \<Rightarrow> 'w run_session \<Rightarrow> 'w run_session \<Rightarrow> bool" where
  "attempted env ctx a s s' \<longleftrightarrow>
     inContext env (ctx @ [Assistant a]) s' \<and> omittable ctx (Assistant a) s' \<and> afterAssistant a s s' \<and>
     rs_lastAssistantToolResults s' = [] \<and> logMessages s' = logMessages s @ [Assistant a] \<and> rs_world s' = rs_world s"

abbreviation handleAll :: "'w recovery_env \<Rightarrow> agent_event list \<Rightarrow> (unit, 'w) run_action" where
  "handleAll env evs \<equiv> eff_forEach 0 (\<lambda>_. handleAgentEvent env) evs"

lemma forEach_index: "eff_forEach i (\<lambda>_. f) xs = eff_forEach 0 (\<lambda>_. f) xs"
  by (induction xs arbitrary: i) (simp, metis eff_forEach.simps(2))

lemma handleAll_Cons: "handleAgentEvent env ev s = Some (Inr (), s1) \<Longrightarrow> handleAll env (ev # evs) s = handleAll env evs s1"
  using forEach_index [of 1 "handleAgentEvent env" evs] by (simp add: eff_bind_def)

lemma handleAll_Nil: "handleAll env [] s = Some (Inr (), s)"
  by (simp add: eff_return_def)

lemma response_run:
  assumes ctx: "inContext env ctx s" and u: "am_usage a \<noteq> None"
  shows "\<exists>s'. handleAll env (responseEvents a) s = Some (Inr (), s') \<and> attempted env ctx a s s'"
proof -
  obtain s1 where s1: "handleAgentEvent env (MessageStart (Assistant a)) s = Some (Inr (), s1)" "sameCore s s1"
    using quiet_event by blast
  obtain s2 where s2: "handleAgentEvent env (MessageEnd (Assistant a)) s1 = Some (Inr (), s2)"
    "stored env ctx (Assistant a) s1 s2" "afterAssistant a s1 s2"
    using assistantEnd_event [OF sameCore_inContext [OF s1(2) ctx]] by blast
  have "rs_pendingCustomMessages s2 = []" using s2(2) by (simp add: stored_def inContext_def)
  then obtain s3 where s3: "handleAgentEvent env (TurnEnd a []) s2 = Some (Inr (), s3)"
    "sameCore (s2\<lparr>rs_lastAssistantToolResults := []\<rparr>) s3"
    using turnEnd_event by blast
  obtain s4 where s4: "handleAgentEvent env (AgentEnd [Assistant a]) s3 = Some (Inr (), s4)" "sameCore s3 s4"
    using agentEnd_event [OF u] by blast
  have run: "handleAll env (responseEvents a) s = Some (Inr (), s4)"
    unfolding responseEvents_def
    by (simp only: handleAll_Cons [OF s1(1)] handleAll_Cons [OF s2(1)] handleAll_Cons [OF s3(1)] handleAll_Cons [OF s4(1)] handleAll_Nil)
  have core: "sameCore (s2\<lparr>rs_lastAssistantToolResults := []\<rparr>) s4" using s3(2) s4(2) sameCore_trans by blast
  have "inContext env (ctx @ [Assistant a]) (s2\<lparr>rs_lastAssistantToolResults := []\<rparr>)"
    "omittable ctx (Assistant a) (s2\<lparr>rs_lastAssistantToolResults := []\<rparr>)"
    using s2(2) by (simp_all add: stored_def inContext_def runOk_def omittable_def)
  then have "inContext env (ctx @ [Assistant a]) s4" "omittable ctx (Assistant a) s4"
    using core sameCore_inContext sameCore_omittable by blast+
  then have "attempted env ctx a s s4"
    using core s1(2) s2(2,3) by (simp add: attempted_def sameCore_def stored_def afterAssistant_def logMessages_def retryEvents_def)
  with run show ?thesis by blast
qed

section \<open>Omitting an attempt\<close>

definition sameRun :: "'w run_session \<Rightarrow> 'w run_session \<Rightarrow> bool" where
  "sameRun s s' \<longleftrightarrow>
     logMessages s' = logMessages s \<and> rs_retryAttempt s' = rs_retryAttempt s \<and> retryEvents s' = retryEvents s \<and>
     rs_world s' = rs_world s \<and> rs_lastAssistantMessage s' = rs_lastAssistantMessage s \<and>
     rs_lastAssistantToolResults s' = rs_lastAssistantToolResults s"

lemma exclude_entry:
  assumes inv: "smInv sm" and fresh: "freshWorld w sm" and t: "getContextEditTarget i sm = Some (Inr e)"
    and p: "sm_buildSessionProjection sm = Some p"
  obtains j sm' p' where "appendContextEdit w i None False sm = Some (Inr j, sm')"
    "getEntries sm' = getEntries sm @ [newEntry w (ContextEditEntry i None False) sm]"
    "sm_buildSessionProjection sm' = Some p'"
    "sp_messages p' = concat (map pe_messages (filter (\<lambda>pe. e_id (pe_source pe) \<noteq> i) (sp_entries p)))"
proof -
  let ?d = "ContextEditEntry i None False"
  have pd: "plainData ?d" "set_option (dataTarget ?d) \<subseteq> ids (getEntries sm)"
    using editTarget_known [OF inv t] by (simp_all add: plainData_def dataTarget_def)
  obtain sm' where a: "appendData w ?d sm = (Inr (e_id (newEntry w ?d sm)), sm')" "appended sm (newEntry w ?d sm) sm'"
    using appendData_inv [OF inv fresh pd] by blast
  have run: "appendContextEdit w i None False sm = Some (Inr (e_id (newEntry w ?d sm)), sm')"
    using t a(1) by (simp add: appendContextEdit_def validateContextEdit_def normalizeReplacement_def)
  obtain p' where "sm_buildSessionProjection sm' = Some p'"
    "sp_messages p' = concat (map pe_messages (filter (\<lambda>pe. e_id (pe_source pe) \<noteq> i) (sp_entries p)))"
    using exclusion_effect [OF inv fresh run] p by auto
  then show thesis using that run a(2) by (simp add: appended_def)
qed

lemma omit_run:
  assumes ctx: "inContext env ctx' s" and om: "omittable ctx (Assistant a) s"
  shows "\<exists>s'. omitRecoveryAttempt env a [] s = Some (Inr (), s') \<and> inContext env ctx s' \<and> sameRun s s'"
proof -
  let ?w = "rv_worlds env (rs_appends s)" and ?sm = "rs_manager s"
  have ok: "runOk env s" "smInv ?sm" "freshSupply (rv_worlds env) (rs_appends s) ?sm" using ctx by (simp_all add: inContext_def runOk_def)
  obtain i e p where i: "map_of (rs_entryIdsByMessage s) (Assistant a) = Some i" "i \<noteq> []"
    "getContextEditTarget i ?sm = Some (Inr e)" "sm_buildSessionProjection ?sm = Some p"
    "concat (map pe_messages (filter (\<lambda>pe. e_id (pe_source pe) \<noteq> i) (sp_entries p))) = ctx"
    using om by (auto simp: omittable_def)
  obtain j sm' p' where x: "appendContextEdit ?w i None False ?sm = Some (Inr j, sm')"
    "getEntries sm' = getEntries ?sm @ [newEntry ?w (ContextEditEntry i None False) ?sm]"
    "sm_buildSessionProjection sm' = Some p'" "sp_messages p' = ctx"
    using exclude_entry [OF ok(2) freshSupply_now [OF ok(2,3)] i(3,4)] i(5) by metis
  let ?s1 = "s\<lparr>rs_manager := sm', rs_appends := Suc (rs_appends s)\<rparr>"
  obtain evs where evs: "omitEntry env (Some i) s = Some (Inr (), ?s1\<lparr>rs_events := rs_events s @ evs\<rparr>)" "filter isRetryEvent evs = []"
  proof (cases "getEntry j sm'")
    case None
    then show thesis using that [of "[]"] i(2) x(1) by (simp add: omitEntry_def rs_store_def eff_simps)
  next
    case (Some e')
    then show thesis using that [of "[EntryAppended e']"] i(2) x(1) by (simp add: omitEntry_def rs_store_def eff_simps)
  qed
  let ?s' = "?s1\<lparr>rs_events := rs_events s @ evs, rs_entryIdsByMessage := setEntryIds (sp_entries p') (rs_entryIdsByMessage s),
    rs_messages := ctx\<rparr>"
  have "findPersistedMessageEntryId (Assistant a) s = Some (Inr (Some i), s)"
    using i(1) by (simp add: findPersistedMessageEntryId_def eff_simps)
  then have run: "omitRecoveryAttempt env a [] s = Some (Inr (), ?s')"
    using evs(1) x(3,4) by (simp add: omitRecoveryAttempt_def refreshFinalizedContext_def Let_def eff_simps)
  have "runOk env ?s'"
    using runs_omit [of env a "[]"] ok(1) run unfolding runs_def runStep_def by fastforce
  then have "inContext env ctx ?s'" using ctx x(3,4) by (simp add: inContext_def)
  moreover have "sameRun s ?s'"
    using evs(2) by (simp add: sameRun_def logMessages_def retryEvents_def x(2) map_filter_snoc entryMessage_def)
  ultimately show ?thesis using run by blast
qed

text \<open>A retry within the budget, whose backoff is not interrupted.\<close>

definition retried :: "'w recovery_env \<Rightarrow> assistant_message \<Rightarrow> 'w run_session \<Rightarrow> 'w run_session \<Rightarrow> bool" where
  "retried env a s s' \<longleftrightarrow>
     rs_retryAttempt s' = Suc (rs_retryAttempt s) \<and> logMessages s' = logMessages s \<and>
     retryEvents s' = retryEvents s @
       [AutoRetryStart (Suc (rs_retryAttempt s)) (rp_maxRetries (rv_retry env))
          (retryDelayMs (rv_retry env) (Suc (rs_retryAttempt s))) (retryError a)]"

lemma retry_run:
  assumes ctx: "inContext env ctx' s" and om: "omittable ctx (Assistant a) s"
    and en: "rp_enabled (rv_retry env)" and budget: "rs_retryAttempt s < rp_maxRetries (rv_retry env)"
    and sleep: "rv_sleep env (retryDelayMs (rv_retry env) (Suc (rs_retryAttempt s))) (rs_world s) = (False, w')"
    and noabort: "\<not> rv_abort env w'"
  shows "\<exists>s'. prepareRetry env a s = Some (Inr True, s') \<and> inContext env ctx s' \<and> retried env a s s' \<and> rs_world s' = w'"
proof -
  let ?k = "Suc (rs_retryAttempt s)"
  let ?ev = "AutoRetryStart ?k (rp_maxRetries (rv_retry env)) (retryDelayMs (rv_retry env) ?k) (retryError a)"
  let ?s1 = "s\<lparr>rs_retryAttempt := ?k, rs_events := rs_events s @ [?ev]\<rparr>"
  have "inContext env ctx' ?s1" "omittable ctx (Assistant a) ?s1"
    using ctx om by (simp_all add: inContext_def runOk_def omittable_def)
  then obtain s2 where s2: "omitRecoveryAttempt env a [] ?s1 = Some (Inr (), s2)" "inContext env ctx s2" "sameRun ?s1 s2"
    using omit_run by blast
  let ?s3 = "s2\<lparr>rs_world := w', rs_agentRunAbortRequested := rs_agentRunAbortRequested s2 \<or> rv_abort env w'\<rparr>"
  have "prepareRetry env a s = Some (Inr True, ?s3)"
    using en budget s2(1,3) sleep by (simp add: prepareRetry_def Let_def eff_simps sameRun_def)
  moreover have "inContext env ctx ?s3" using s2(2) noabort by (simp add: inContext_def runOk_def)
  moreover have "retried env a s ?s3"
    using s2(3) by (simp add: retried_def sameRun_def logMessages_def retryEvents_def)
  ultimately show ?thesis by auto
qed

section \<open>A provider that fails now and then\<close>

text \<open>
  A provider whose responses are a function of the world, without tool calls, and a user who neither interrupts nor
  queues anything.
\<close>

definition scripted :: "'w recovery_env \<Rightarrow> ('w \<Rightarrow> assistant_message) \<Rightarrow> ('w \<Rightarrow> 'w) \<Rightarrow> bool" where
  "scripted env resp next \<longleftrightarrow>
     (\<forall>ms w. rv_continue env ms w = (AgentStart # TurnStart # responseEvents (resp w), Inr (), next w)) \<and>
     (\<forall>u ms w. rv_prompt env [User u] ms w =
        (AgentStart # TurnStart # MessageStart (User u) # MessageEnd (User u) # responseEvents (resp w), Inr (), next w)) \<and>
     (\<forall>d w. rv_sleep env d w = (False, w)) \<and> (\<forall>w. \<not> rv_abort env w) \<and> (\<forall>w. \<not> rv_hasQueuedMessages env w) \<and>
     (\<forall>w. am_usage (resp w) \<noteq> None)"

definition answered :: "'w recovery_env \<Rightarrow> agent_message list \<Rightarrow> assistant_message \<Rightarrow> 'w run_session \<Rightarrow> bool" where
  "answered env ctx a s \<longleftrightarrow>
     inContext env (ctx @ [Assistant a]) s \<and> omittable ctx (Assistant a) s \<and>
     rs_lastAssistantMessage s = Some a \<and> rs_lastAssistantToolResults s = []"

lemma retryable_error: "isRetryableError env a = Inr True \<Longrightarrow> am_stopReason a = StopError"
  by (auto simp: isRetryableError_def isRetryableAssistantError_def split: option.splits)

lemma not_retryable: "am_usage a \<noteq> None \<Longrightarrow> am_stopReason a \<noteq> StopError \<Longrightarrow> isRetryableError env a = Inr False"
  using isRetryableError_total [of a env] retryable_error [of env a] by (metis (full_types))

lemma start_run:
  assumes "inContext env ctx s" and "usageKnown ctx"
  shows "\<exists>s'. handleAll env (AgentStart # TurnStart # evs) s = handleAll env evs s' \<and> sameCore s s'"
proof -
  obtain s1 where s1: "handleAgentEvent env AgentStart s = Some (Inr (), s1)" "sameCore s s1" using quiet_event by blast
  obtain s2 where s2: "handleAgentEvent env TurnStart s1 = Some (Inr (), s2)" "sameCore s1 s2"
    using turnStart_event [OF sameCore_inContext [OF s1(2) assms(1)] assms(2)] by blast
  have "handleAll env (AgentStart # TurnStart # evs) s = handleAll env evs s2"
    by (simp only: handleAll_Cons [OF s1(1)] handleAll_Cons [OF s2(1)])
  then show ?thesis using s1(2) s2(2) sameCore_trans by blast
qed

lemma attempted_answered: "attempted env ctx a s s' \<Longrightarrow> answered env ctx a s'"
  by (simp add: attempted_def answered_def afterAssistant_def)

lemma attempted_core: "sameCore s s1 \<Longrightarrow> attempted env ctx a s1 s' \<Longrightarrow> attempted env ctx a s s'"
  by (simp add: attempted_def sameCore_def afterAssistant_def logMessages_def)

lemma continue_run:
  assumes p: "scripted env resp next" and ctx: "inContext env ctx s" and u: "usageKnown ctx"
  shows "\<exists>s'. continueAgent env s = Some (Inr (), s') \<and>
    attempted env ctx (resp (rs_world s)) (s\<lparr>rs_world := next (rs_world s)\<rparr>) s'"
proof -
  let ?a = "resp (rs_world s)" and ?s0 = "s\<lparr>rs_world := next (rs_world s), rs_agentRunAbortRequested := False\<rparr>"
  have c: "inContext env ctx ?s0" using ctx by (simp add: inContext_def runOk_def)
  obtain s1 where s1: "handleAll env (AgentStart # TurnStart # responseEvents ?a) ?s0 = handleAll env (responseEvents ?a) s1" "sameCore ?s0 s1"
    using start_run [OF c u] by blast
  have ua: "am_usage ?a \<noteq> None" using p by (simp add: scripted_def)
  obtain s2 where s2: "handleAll env (responseEvents ?a) s1 = Some (Inr (), s2)" "attempted env ctx ?a s1 s2"
    using response_run [OF sameCore_inContext [OF s1(2) c] ua] by blast
  have na: "\<not> rs_agentRunAbortRequested s" using ctx by (simp add: inContext_def)
  have "continueAgent env s = Some (Inr (), s2)"
    using p s1(1) s2(1) na by (simp add: continueAgent_def runAgent_def eff_simps scripted_def del: eff_forEach.simps)
  moreover have "attempted env ctx ?a (s\<lparr>rs_world := next (rs_world s)\<rparr>) s2"
    using attempted_core [OF s1(2) s2(2)] by (simp add: attempted_def afterAssistant_def logMessages_def retryEvents_def)
  ultimately show ?thesis by blast
qed

lemma post_retry:
  assumes p: "scripted env resp next" and ans: "answered env ctx a s" and r: "isRetryableError env a = Inr True"
    and en: "rp_enabled (rv_retry env)" and budget: "rs_retryAttempt s < rp_maxRetries (rv_retry env)"
  shows "\<exists>s'. handlePostAgentRun env s = Some (Inr True, s') \<and> inContext env ctx s' \<and> retried env a s s' \<and> rs_world s' = rs_world s"
proof -
  let ?s0 = "s\<lparr>rs_lastAssistantMessage := None, rs_lastAssistantToolResults := []\<rparr>"
  have c: "inContext env (ctx @ [Assistant a]) ?s0" "omittable ctx (Assistant a) ?s0"
    using ans by (simp_all add: answered_def inContext_def runOk_def omittable_def)
  obtain s1 where s1: "prepareRetry env a ?s0 = Some (Inr True, s1)" "inContext env ctx s1" "retried env a ?s0 s1"
    "rs_world s1 = rs_world s"
    using retry_run [OF c en, of "rs_world s"] budget p by (auto simp: scripted_def)
  have "handlePostAgentRun env s = Some (Inr True, s1)"
    using ans r s1(1,2) by (simp add: handlePostAgentRun_def eff_simps answered_def inContext_def)
  moreover have "retried env a s s1" using s1(3) by (simp add: retried_def logMessages_def retryEvents_def)
  ultimately show ?thesis using s1(2,4) by blast
qed

lemma loop_retry:
  assumes p: "scripted env resp next" and ans: "answered env ctx a s" and u: "usageKnown ctx"
    and r: "isRetryableError env a = Inr True"
    and en: "rp_enabled (rv_retry env)" and budget: "rs_retryAttempt s < rp_maxRetries (rv_retry env)"
  shows "\<exists>s1 s'. promptLoop (Suc n) env s = promptLoop n env s' \<and> retried env a s s1 \<and>
    attempted env ctx (resp (rs_world s)) s1 s' \<and> rs_world s1 = next (rs_world s)"
proof -
  obtain s1 where s1: "handlePostAgentRun env s = Some (Inr True, s1)" "inContext env ctx s1" "retried env a s s1" "rs_world s1 = rs_world s"
    using post_retry [OF p ans r en budget] by blast
  obtain s2 where s2: "continueAgent env s1 = Some (Inr (), s2)"
    "attempted env ctx (resp (rs_world s)) (s1\<lparr>rs_world := next (rs_world s)\<rparr>) s2"
    using continue_run [OF p s1(2) u] s1(4) by auto
  have "\<not> rs_agentRunAbortRequested s" "\<not> rs_agentRunAbortRequested s1"
    using ans s1(2) by (simp_all add: answered_def inContext_def)
  then have "promptLoop (Suc n) env s = promptLoop n env s2" using s1(1) s2(1) by (simp add: eff_simps)
  moreover have "retried env a s (s1\<lparr>rs_world := next (rs_world s)\<rparr>)"
    using s1(3) by (simp add: retried_def logMessages_def retryEvents_def)
  ultimately show ?thesis using s2(2) by (intro exI conjI) auto
qed

text \<open>The responses of the provider, from a world on.\<close>

definition attempt :: "('w \<Rightarrow> assistant_message) \<Rightarrow> ('w \<Rightarrow> 'w) \<Rightarrow> 'w \<Rightarrow> nat \<Rightarrow> assistant_message" where
  "attempt resp next w i = resp ((next ^^ i) w)"

definition retryStarts :: "'w recovery_env \<Rightarrow> (nat \<Rightarrow> assistant_message) \<Rightarrow> nat \<Rightarrow> session_event list" where
  "retryStarts env f k =
     map (\<lambda>i. AutoRetryStart (Suc i) (rp_maxRetries (rv_retry env)) (retryDelayMs (rv_retry env) (Suc i)) (retryError (f i))) [0..<k]"

definition retryEnd :: "assistant_message \<Rightarrow> nat \<Rightarrow> session_event list" where
  "retryEnd a k = (if am_stopReason a \<noteq> StopError \<and> 0 < k then [AutoRetryEnd True k None] else [])"

lemma loop_retries:
  assumes p: "scripted env resp next" and u: "usageKnown ctx" and en: "rp_enabled (rv_retry env)"
    and ans: "answered env ctx (f 0) s" and f: "\<And>i. f (Suc i) = resp ((next ^^ i) (rs_world s))"
    and z: "rs_retryAttempt s = 0"
    and fails: "\<forall>i < k. isRetryableError env (f i) = Inr True" and k: "k \<le> rp_maxRetries (rv_retry env)"
  shows "\<exists>s'. promptLoop (k + n) env s = promptLoop n env s' \<and> answered env ctx (f k) s' \<and>
    rs_world s' = (next ^^ k) (rs_world s) \<and>
    rs_retryAttempt s' = (if am_stopReason (f k) = StopError then k else 0) \<and>
    logMessages s' = logMessages s @ map (\<lambda>i. Assistant (f i)) [1..<Suc k] \<and>
    retryEvents s' = retryEvents s @ retryStarts env f k @ retryEnd (f k) k"
  using fails k
proof (induction k arbitrary: n)
  case 0
  then show ?case using ans z by (intro exI [of _ s]) (simp add: retryStarts_def retryEnd_def)
next
  case (Suc k)
  obtain s1 where s1: "promptLoop (k + Suc n) env s = promptLoop (Suc n) env s1" "answered env ctx (f k) s1"
    "rs_world s1 = (next ^^ k) (rs_world s)" "rs_retryAttempt s1 = (if am_stopReason (f k) = StopError then k else 0)"
    "logMessages s1 = logMessages s @ map (\<lambda>i. Assistant (f i)) [1..<Suc k]"
    "retryEvents s1 = retryEvents s @ retryStarts env f k @ retryEnd (f k) k"
    using Suc.IH [of "Suc n"] Suc.prems by auto
  have r: "isRetryableError env (f k) = Inr True" using Suc.prems(1) by simp
  have e: "am_stopReason (f k) = StopError" by (rule retryable_error [OF r])
  have b: "rs_retryAttempt s1 < rp_maxRetries (rv_retry env)" using s1(4) e Suc.prems(2) by simp
  obtain s2 s3 where s3: "promptLoop (Suc n) env s1 = promptLoop n env s3" "retried env (f k) s1 s2"
    "attempted env ctx (f (Suc k)) s2 s3" "rs_world s2 = next (rs_world s1)"
    using loop_retry [OF p s1(2) u r en b, of n] unfolding f s1(3) by blast
  have "promptLoop (Suc k + n) env s = promptLoop n env s3" using s1(1) s3(1) by simp
  moreover have "rs_world s3 = (next ^^ Suc k) (rs_world s)" using s3(3,4) s1(3) by (simp add: attempted_def)
  moreover have "rs_retryAttempt s3 = (if am_stopReason (f (Suc k)) = StopError then Suc k else 0)"
    "logMessages s3 = logMessages s @ map (\<lambda>i. Assistant (f i)) [1..<Suc (Suc k)]"
    "retryEvents s3 = retryEvents s @ retryStarts env f (Suc k) @ retryEnd (f (Suc k)) (Suc k)"
    using s3(2,3) s1(4-6) e by (simp_all add: retried_def attempted_def afterAssistant_def retryStarts_def retryEnd_def)
  ultimately show ?case using attempted_answered [OF s3(3)] by blast
qed

lemma loop_stop:
  assumes p: "scripted env resp next" and ans: "answered env ctx a s" and u: "am_usage a \<noteq> None"
    and off: "\<not> cst_enabled (rv_compaction env)"
    and stop: "am_stopReason a \<noteq> StopError \<or> rp_enabled (rv_retry env) \<and> rs_retryAttempt s = rp_maxRetries (rv_retry env)"
  shows "\<exists>s'. promptLoop (Suc n) env s = Some (Inr (), s') \<and> inContext env (ctx @ [Assistant a]) s' \<and>
    logMessages s' = logMessages s \<and> rs_retryAttempt s' = (if am_stopReason a = StopError then 0 else rs_retryAttempt s) \<and>
    retryEvents s' = retryEvents s @
      (if am_stopReason a = StopError \<and> 0 < rs_retryAttempt s then [AutoRetryEnd False (rs_retryAttempt s) (am_errorMessage a)] else [])"
proof -
  let ?s0 = "s\<lparr>rs_lastAssistantMessage := None, rs_lastAssistantToolResults := []\<rparr>"
  have na: "\<not> rs_agentRunAbortRequested s" "rs_lastAssistantMessage s = Some a" "rs_lastAssistantToolResults s = []"
    and c: "inContext env (ctx @ [Assistant a]) ?s0"
    using ans by (simp_all add: answered_def inContext_def runOk_def)
  obtain b where b: "isRetryableError env a = Inr b" using isRetryableError_total [OF u] by blast
  have q: "\<not> rv_hasQueuedMessages env (rs_world s)" using p by (simp add: scripted_def)
  have noretry: "(if b then prepareRetry env a else eff_return False) ?s0 = Some (Inr False, ?s0)"
  proof (cases b)
    case True
    then have "am_stopReason a = StopError" using b retryable_error [of env a] by simp
    then show ?thesis using stop True by (simp add: prepareRetry_def Let_def eff_simps)
  qed (simp add: eff_simps)
  let ?s1 = "if am_stopReason a = StopError \<and> 0 < rs_retryAttempt s
      then ?s0\<lparr>rs_events := rs_events s @ [AutoRetryEnd False (rs_retryAttempt s) (am_errorMessage a)], rs_retryAttempt := 0\<rparr> else ?s0"
  have "afterRetry env a [] ?s0 = Some (Inr False, ?s1)"
    using na(1) off q by (simp add: afterRetry_def checkCompaction_def eff_simps)
  then have "handlePostAgentRun env s = Some (Inr False, ?s1)"
    using na b noretry by (simp add: handlePostAgentRun_def eff_bind_def eff_get_def eff_modify_def eff_lift_def)
  then have "promptLoop (Suc n) env s = Some (Inr (), ?s1)"
    using na(1) q by (simp add: eff_simps)
  moreover have "inContext env (ctx @ [Assistant a]) ?s1" using c by (simp add: inContext_def runOk_def)
  ultimately show ?thesis by (intro exI [of _ ?s1]) (simp add: logMessages_def retryEvents_def)
qed

lemma prompt_run:
  assumes p: "scripted env resp next" and ctx: "inContext env ctx s" and u: "usageKnown ctx"
  shows "\<exists>s'. runAgent env (rv_prompt env [User u'] (rs_messages s)) s = Some (Inr (), s') \<and>
    answered env (ctx @ [User u']) (resp (rs_world s)) s' \<and> rs_world s' = next (rs_world s) \<and>
    rs_retryAttempt s' = (if am_stopReason (resp (rs_world s)) = StopError then rs_retryAttempt s else 0) \<and>
    logMessages s' = logMessages s @ [User u', Assistant (resp (rs_world s))] \<and>
    (rs_retryAttempt s = 0 \<longrightarrow> retryEvents s' = retryEvents s)"
proof -
  let ?a = "resp (rs_world s)" and ?s0 = "s\<lparr>rs_world := next (rs_world s), rs_agentRunAbortRequested := False\<rparr>"
  let ?evs = "MessageStart (User u') # MessageEnd (User u') # responseEvents ?a"
  have c: "inContext env ctx ?s0" using ctx by (simp add: inContext_def runOk_def)
  obtain s1 where s1: "handleAll env (AgentStart # TurnStart # ?evs) ?s0 = handleAll env ?evs s1" "sameCore ?s0 s1"
    using start_run [OF c u] by blast
  obtain s2 where s2: "handleAgentEvent env (MessageStart (User u')) s1 = Some (Inr (), s2)" "sameCore s1 s2"
    using userStart_event by blast
  have core: "sameCore ?s0 s2" using s1(2) s2(2) sameCore_trans by blast
  obtain s3 where s3: "handleAgentEvent env (MessageEnd (User u')) s2 = Some (Inr (), s3)" "stored env ctx (User u') s2 s3"
    "rs_retryAttempt s3 = rs_retryAttempt s2" "retryEvents s3 = retryEvents s2"
    using userEnd_event [OF sameCore_inContext [OF core c]] by blast
  have ua: "am_usage ?a \<noteq> None" using p by (simp add: scripted_def)
  have c3: "inContext env (ctx @ [User u']) s3" using s3(2) by (simp add: stored_def)
  obtain s4 where s4: "handleAll env (responseEvents ?a) s3 = Some (Inr (), s4)" "attempted env (ctx @ [User u']) ?a s3 s4"
    using response_run [OF c3 ua] by blast
  have "handleAll env (AgentStart # TurnStart # ?evs) ?s0 = Some (Inr (), s4)"
    by (simp only: s1(1) handleAll_Cons [OF s2(1)] handleAll_Cons [OF s3(1)] s4(1))
  moreover have "\<not> rs_agentRunAbortRequested s" using ctx by (simp add: inContext_def)
  ultimately have run: "runAgent env (rv_prompt env [User u'] (rs_messages s)) s = Some (Inr (), s4)"
    using p by (simp add: runAgent_def eff_simps scripted_def del: eff_forEach.simps)
  have "logMessages s2 = logMessages s" "retryEvents s2 = retryEvents s" "rs_retryAttempt s2 = rs_retryAttempt s"
    "rs_world s2 = next (rs_world s)"
    using core by (simp_all add: sameCore_def logMessages_def retryEvents_def)
  then have "rs_world s4 = next (rs_world s)" "logMessages s4 = logMessages s @ [User u', Assistant ?a]"
    "rs_retryAttempt s4 = (if am_stopReason ?a = StopError then rs_retryAttempt s else 0)"
    "rs_retryAttempt s = 0 \<longrightarrow> retryEvents s4 = retryEvents s"
    using s3(2-4) s4(2) by (simp_all add: stored_def attempted_def afterAssistant_def)
  then show ?thesis using run attempted_answered [OF s4(2)] by (intro exI [of _ s4] conjI)
qed

lemma settle_run:
  assumes "inContext env ctx s"
  shows "\<exists>s'. settleRun env s = Some (Inr (), s') \<and> sameCore s s'"
  using assms by (simp add: settleRun_def flushPendingCustomMessages_def eff_simps inContext_def sameCore_def retryEvents_def)

lemma retried_prompt:
  assumes p: "scripted env resp next" and ctx: "inContext env ctx s" and u: "usageKnown ctx" and z: "rs_retryAttempt s = 0"
    and en: "rp_enabled (rv_retry env)" and off: "\<not> cst_enabled (rv_compaction env)"
    and fails: "\<forall>i < k. isRetryableError env (attempt resp next (rs_world s) i) = Inr True"
    and k: "k \<le> rp_maxRetries (rv_retry env)"
    and stop: "am_stopReason (attempt resp next (rs_world s) k) \<noteq> StopError \<or> k = rp_maxRetries (rv_retry env)"
  defines "f \<equiv> attempt resp next (rs_world s)"
  shows "\<exists>s'. runAgentPrompt (Suc k) env [User u'] s = Some (Inr (), s') \<and>
    inContext env (ctx @ [User u', Assistant (f k)]) s' \<and> rs_retryAttempt s' = 0 \<and>
    logMessages s' = logMessages s @ User u' # map (\<lambda>i. Assistant (f i)) [0..<Suc k] \<and>
    retryEvents s' = retryEvents s @ retryStarts env f k @ retryEnd (f k) k @
      (if am_stopReason (f k) = StopError \<and> 0 < k then [AutoRetryEnd False k (am_errorMessage (f k))] else [])"
proof -
  let ?s0 = "s\<lparr>rs_agentRunAbortRequested := False\<rparr>" and ?ctx = "ctx @ [User u']"
  have c: "inContext env ctx ?s0" using ctx by (simp add: inContext_def runOk_def)
  obtain s1 where s1: "runAgent env (rv_prompt env [User u'] (rs_messages ?s0)) ?s0 = Some (Inr (), s1)"
    "answered env ?ctx (resp (rs_world ?s0)) s1" "rs_world s1 = next (rs_world ?s0)"
    "rs_retryAttempt s1 = (if am_stopReason (resp (rs_world ?s0)) = StopError then rs_retryAttempt ?s0 else 0)"
    "logMessages s1 = logMessages ?s0 @ [User u', Assistant (resp (rs_world ?s0))]"
    "rs_retryAttempt ?s0 = 0 \<longrightarrow> retryEvents s1 = retryEvents ?s0"
    using prompt_run [OF p c u, where u' = u'] by (elim exE conjE) (rule that, assumption+)
  have f0: "resp (rs_world s) = f 0" by (simp add: f_def attempt_def)
  have u1: "usageKnown ?ctx" using u by (auto simp: usageKnown_def)
  have fs: "f (Suc i) = resp ((next ^^ i) (rs_world s1))" for i
    using s1(3) by (simp add: f_def attempt_def funpow_swap1)
  have a1: "answered env ?ctx (f 0) s1" "rs_retryAttempt s1 = 0" using s1(2,4) z f0 by simp_all
  obtain s2 where s2: "promptLoop (k + 1) env s1 = promptLoop 1 env s2" "answered env ?ctx (f k) s2"
    "rs_retryAttempt s2 = (if am_stopReason (f k) = StopError then k else 0)"
    "logMessages s2 = logMessages s1 @ map (\<lambda>i. Assistant (f i)) [1..<Suc k]"
    "retryEvents s2 = retryEvents s1 @ retryStarts env f k @ retryEnd (f k) k"
    using loop_retries [OF p u1 en a1(1) fs a1(2), of k 1] fails k by (auto simp: f_def)
  have uk: "am_usage (f k) \<noteq> None" using p by (simp add: f_def attempt_def scripted_def)
  have st: "am_stopReason (f k) \<noteq> StopError \<or> rp_enabled (rv_retry env) \<and> rs_retryAttempt s2 = rp_maxRetries (rv_retry env)"
    using stop s2(3) en by (auto simp: f_def)
  obtain s3 where s3: "promptLoop (Suc 0) env s2 = Some (Inr (), s3)" "inContext env (?ctx @ [Assistant (f k)]) s3"
    "logMessages s3 = logMessages s2" "rs_retryAttempt s3 = (if am_stopReason (f k) = StopError then 0 else rs_retryAttempt s2)"
    "retryEvents s3 = retryEvents s2 @
      (if am_stopReason (f k) = StopError \<and> 0 < rs_retryAttempt s2 then [AutoRetryEnd False (rs_retryAttempt s2) (am_errorMessage (f k))] else [])"
    using loop_stop [OF p s2(2) uk off st] by blast
  obtain s4 where s4: "settleRun env s3 = Some (Inr (), s4)" "sameCore s3 s4" using settle_run [OF s3(2)] by blast
  have "promptLoop (Suc k) env s1 = Some (Inr (), s3)" using s2(1) s3(1) by simp
  then have "runAgentPrompt (Suc k) env [User u'] s = Some (Inr (), s4)"
    using s1(1) s4(1) by (simp add: runAgentPrompt_def eff_finally_def eff_catch_def eff_simps del: promptLoop.simps)
  moreover have "inContext env (ctx @ [User u', Assistant (f k)]) s4" using sameCore_inContext [OF s4(2) s3(2)] by simp
  moreover have "logMessages s4 = logMessages s3" "retryEvents s4 = retryEvents s3" "rs_retryAttempt s4 = rs_retryAttempt s3"
    using s4(2) by (simp_all add: sameCore_def logMessages_def retryEvents_def)
  moreover have "logMessages s3 = logMessages s @ User u' # map (\<lambda>i. Assistant (f i)) [0..<Suc k]"
    using s3(3) s2(4) s1(5) f0 by (simp add: logMessages_def upt_rec [of 0 "Suc k"] del: upt_Suc)
  ultimately show ?thesis
    using s3(4,5) s2(3,5) s1(6) z by (intro exI [of _ s4]) (simp add: retryEvents_def)
qed

text \<open>
  C4 (retries leave no trace in the context): automatic compaction is switched off and retries are switched on; the
  provider is scripted: its responses are a function of the world, they report usage and call no tool, and the
  user neither aborts, also not during a backoff, nor queues a message. When the prompt's first \<open>k\<close>
  responses are then retryable errors, within the budget, and the next one is not an error, the prompt ends after
  \<open>k\<close> retries with the context a provider that answers at once would have left: the old context, the user
  message and the good response. The failed responses stay in the history, each retry waits for its own backoff,
  and the counter is back at zero. (With automatic compaction on, a compaction may follow a response and change the
  context.)
\<close>

theorem retries_transparent:
  assumes "scripted env resp next" and "inContext env ctx s" and "usageKnown ctx" and "rs_retryAttempt s = 0"
    and "rp_enabled (rv_retry env)" and "\<not> cst_enabled (rv_compaction env)"
    and "\<forall>i < k. isRetryableError env (attempt resp next (rs_world s) i) = Inr True"
    and "k \<le> rp_maxRetries (rv_retry env)" and ok: "am_stopReason (attempt resp next (rs_world s) k) \<noteq> StopError"
  shows "\<exists>s'. runAgentPrompt (Suc k) env [User u] s = Some (Inr (), s') \<and>
    inContext env (ctx @ [User u, Assistant (attempt resp next (rs_world s) k)]) s' \<and> rs_retryAttempt s' = 0 \<and>
    logMessages s' = logMessages s @ User u # map (\<lambda>i. Assistant (attempt resp next (rs_world s) i)) [0..<Suc k] \<and>
    retryEvents s' = retryEvents s @ retryStarts env (attempt resp next (rs_world s)) k @
      (if 0 < k then [AutoRetryEnd True k None] else [])"
  using retried_prompt [OF assms(1-8), of u] ok by (simp add: retryEnd_def)

text \<open>
  C32 (the retry budget): under the same conditions (automatic compaction off, retries on, a scripted provider
  without tool calls, no aborts and no queued messages), when every response is a retryable error, the prompt still
  ends: after exactly \<open>maxRetries\<close> retries the last error is reported and left in the context, without the errors
  before it.
\<close>

theorem retries_exhausted:
  assumes "scripted env resp next" and "inContext env ctx s" and "usageKnown ctx" and "rs_retryAttempt s = 0"
    and "rp_enabled (rv_retry env)" and "\<not> cst_enabled (rv_compaction env)"
    and fails: "\<forall>i. isRetryableError env (attempt resp next (rs_world s) i) = Inr True"
  shows "\<exists>s'. runAgentPrompt (Suc (rp_maxRetries (rv_retry env))) env [User u] s = Some (Inr (), s') \<and>
    inContext env (ctx @ [User u, Assistant (attempt resp next (rs_world s) (rp_maxRetries (rv_retry env)))]) s' \<and>
    rs_retryAttempt s' = 0 \<and>
    retryEvents s' = retryEvents s @ retryStarts env (attempt resp next (rs_world s)) (rp_maxRetries (rv_retry env)) @
      (if 0 < rp_maxRetries (rv_retry env)
       then [AutoRetryEnd False (rp_maxRetries (rv_retry env))
               (am_errorMessage (attempt resp next (rs_world s) (rp_maxRetries (rv_retry env))))] else [])"
proof -
  let ?k = "rp_maxRetries (rv_retry env)"
  have e: "am_stopReason (attempt resp next (rs_world s) ?k) = StopError" using fails by (intro retryable_error) blast
  have "\<forall>i < ?k. isRetryableError env (attempt resp next (rs_world s) i) = Inr True" using fails by blast
  from retried_prompt [OF assms(1-6) this, of u] e show ?thesis by (auto simp: retryEnd_def)
qed

section \<open>A sample session\<close>

definition longId :: "nat \<Rightarrow> string" where
  "longId n = replicate (n + 9) (CHR ''x'')"

definition zeroUsage :: usage where
  "zeroUsage = \<lparr>u_input = 0, u_output = 0, u_cacheRead = 0, u_cacheWrite = 0, u_cacheWrite1h = None, u_reasoning = None,
     u_totalTokens = 0, u_cost = \<lparr>co_input = 0, co_output = 0, co_cacheRead = 0, co_cacheWrite = 0, co_total = 0\<rparr>\<rparr>"

text \<open>The world counts the failures still to come.\<close>

definition flakyResponse :: "nat \<Rightarrow> assistant_message" where
  "flakyResponse n =
     (if n = 0 then failingResponse\<lparr>am_usage := Some zeroUsage, am_stopReason := Stop, am_errorMessage := None\<rparr>
      else failingResponse\<lparr>am_usage := Some zeroUsage\<rparr>)"

definition deadResponse :: "nat \<Rightarrow> assistant_message" where
  "deadResponse n = failingResponse\<lparr>am_usage := Some zeroUsage\<rparr>"

definition sampleRecovery :: "(nat \<Rightarrow> assistant_message) \<Rightarrow> (nat \<Rightarrow> nat) \<Rightarrow> bool \<Rightarrow> nat recovery_env" where
  "sampleRecovery resp succ compacting =
     \<lparr>rv_model = Some \<lparr>so_provider = ''p'', so_id = ''m'',
        so_info = \<lparr>mi_reasoning = False, mi_maxTokens = 1000, mi_contextWindow = 100000\<rparr>\<rparr>,
      rv_retry = samplePolicy,
      rv_compaction = \<lparr>cst_enabled = compacting, cst_reserveTokens = 16384, cst_keepRecentTokens = 20000\<rparr>,
      rv_thinkingLevel = ''off'',
      rv_summarizer = \<lparr>sz_call = (\<lambda>_ w. (Inl (JsError ''offline''), w)), sz_sleep = (\<lambda>_ w. (False, w)),
        sz_retry = None, sz_now = 0\<rparr>,
      rv_auth = (\<lambda>m w. (Inr m, w)), rv_beforeCompact = None, rv_sleep = (\<lambda>_ w. (False, w)), rv_abort = (\<lambda>_. False),
      rv_compactionAborted = (\<lambda>_. False), rv_hasQueuedMessages = (\<lambda>_. False),
      rv_worlds = (\<lambda>n. sampleWorld (longId n)),
      rv_prompt = (\<lambda>ms _ w. (AgentStart # TurnStart # concat (map (\<lambda>m. [MessageStart m, MessageEnd m]) ms) @ responseEvents (resp w),
        Inr (), succ w)),
      rv_continue = (\<lambda>_ w. (AgentStart # TurnStart # responseEvents (resp w), Inr (), succ w))\<rparr>"

definition sampleRun :: "nat run_session" where
  "sampleRun =
     \<lparr>rs_manager = sample0, rs_messages = [], rs_entryIdsByMessage = [], rs_lastAssistantMessage = None,
      rs_lastAssistantToolResults = [], rs_retryAttempt = 0, rs_overflowRecoveryAttempted = False,
      rs_agentRunAbortRequested = False, rs_cancelledByExtension = False, rs_contextStatusLastPercent = None,
      rs_contextStatusTurnStartPercent = None, rs_contextStatusForceNext = False, rs_pruneSkipNextCompactionCheck = False,
      rs_steeringMessages = [], rs_followUpMessages = [], rs_pendingCustomMessages = [], rs_events = [], rs_appends = 0,
      rs_world = 2\<rparr>"

lemma longId_supply: "freshSupply (\<lambda>n. sampleWorld (longId n)) 0 sample0"
  by (auto simp: freshSupply_def uuidsOk_def sample0_entries longId_def intro!: inj_onI)

lemma sample0_context: "map_option sp_messages (sm_buildSessionProjection sample0) = Some []"
proof -
  have c: "coreInv sample0" using sample0_inv by (simp add: smInv_def)
  have "leafId sample0 = None" by (simp add: sample0_def newSession_def Let_def)
  then show ?thesis
    by (simp add: projection_of_branch [OF c] getBranch_pathTo projectPath_messages projectPath_entries compactPath_def findLast_def)
qed

lemma sampleRun_ok: "inContext (sampleRecovery resp succ b) [] sampleRun"
  using sample0_context sample0_inv longId_supply
  by (simp add: inContext_def runOk_def sampleRun_def sampleRecovery_def)

lemma sample_scripted: "(\<And>w. am_usage (resp w) \<noteq> None) \<Longrightarrow> scripted (sampleRecovery resp succ b) resp succ"
  by (simp add: scripted_def sampleRecovery_def)

lemma failing_error: "isRetryableError env (failingResponse\<lparr>am_usage := Some zeroUsage\<rparr>) = Inr True"
proof -
  have "isRetryableAssistantError (failingResponse\<lparr>am_usage := Some zeroUsage\<rparr>)"
    using failing_retryable by (simp add: isRetryableAssistantError_def failingResponse_def)
  moreover have "\<not> errorOverflow (failingResponse\<lparr>am_usage := Some zeroUsage\<rparr>)" by code_simp
  ultimately show ?thesis by (simp add: isRetryableError_def isContextOverflow_def failingResponse_def)
qed

text \<open>
  C3 (recovery keeps the history): from a session that satisfies the invariant, with ids left to draw, handling an event
  of the agent and the decision after a run always return or throw, and they leave a session that satisfies the
  invariant again and whose entries extend the old ones; so does a whole prompt with all its retries and
  compactions, whenever it comes to an end.
\<close>

theorem recovery_keeps_history:
  assumes "runOk env s"
  shows "(\<exists>r s'. handleAgentEvent env ev s = Some (r, s') \<and> runStep env s s') \<and>
         (\<exists>r s'. handlePostAgentRun env s = Some (r, s') \<and> runStep env s s') \<and>
         (\<forall>fuel ms r s'. runAgentPrompt fuel env ms s = Some (r, s') \<longrightarrow> runStep env s s')"
  using assms runs_handleAgentEvent [of env ev] runs_postRun [of env] keeps_runAgentPrompt [of env]
  unfolding runs_def keeps_def by blast

theorem recovery_keeps_history_witness:
  "\<exists>r s'. handlePostAgentRun (sampleRecovery flakyResponse (\<lambda>n. n - 1) True) sampleRun = Some (r, s') \<and>
     runStep (sampleRecovery flakyResponse (\<lambda>n. n - 1) True) sampleRun s'"
proof -
  have "runOk (sampleRecovery flakyResponse (\<lambda>n. n - 1) True) sampleRun" using sampleRun_ok by (simp add: inContext_def)
  from recovery_keeps_history [OF this] show ?thesis by blast
qed

theorem retries_transparent_witness:
  "\<exists>s'. runAgentPrompt 3 (sampleRecovery flakyResponse (\<lambda>n. n - 1) False) [sampleUser ''hi''] sampleRun = Some (Inr (), s') \<and>
     inContext (sampleRecovery flakyResponse (\<lambda>n. n - 1) False) [sampleUser ''hi'', Assistant (flakyResponse 0)] s' \<and>
     logMessages s' = [sampleUser ''hi'', Assistant (flakyResponse 2), Assistant (flakyResponse 1), Assistant (flakyResponse 0)]"
proof -
  let ?env = "sampleRecovery flakyResponse (\<lambda>n. n - 1) False" and ?f = "attempt flakyResponse (\<lambda>n. n - 1) (rs_world sampleRun)"
  have sc: "scripted ?env flakyResponse (\<lambda>n. n - 1)" by (rule sample_scripted) (simp add: flakyResponse_def)
  have f: "?f 0 = flakyResponse 2" "?f 1 = flakyResponse 1" "?f 2 = flakyResponse 0"
    by (simp_all add: attempt_def sampleRun_def numeral_2_eq_2)
  have fails: "\<forall>i < 2. isRetryableError ?env (?f i) = Inr True"
    using f failing_error by (auto simp: less_2_cases_iff flakyResponse_def)
  have "\<exists>s'. runAgentPrompt (Suc 2) ?env [User \<lparr>um_content = ContentString ''hi'', um_timestamp = 0\<rparr>] sampleRun = Some (Inr (), s') \<and>
      inContext ?env ([] @ [User \<lparr>um_content = ContentString ''hi'', um_timestamp = 0\<rparr>, Assistant (?f 2)]) s' \<and> rs_retryAttempt s' = 0 \<and>
      logMessages s' = logMessages sampleRun @ User \<lparr>um_content = ContentString ''hi'', um_timestamp = 0\<rparr> # map (\<lambda>i. Assistant (?f i)) [0..<Suc 2] \<and>
      retryEvents s' = retryEvents sampleRun @ retryStarts ?env ?f 2 @ (if (0::nat) < 2 then [AutoRetryEnd True 2 None] else [])"
    by (rule retries_transparent [OF sc sampleRun_ok _ _ _ _ fails])
       (simp_all add: usageKnown_def sampleRun_def sampleRecovery_def samplePolicy_def f flakyResponse_def
          attempt_def numeral_2_eq_2)
  moreover have "logMessages sampleRun = []" by (simp add: logMessages_def sampleRun_def sample0_entries)
  moreover have "[0..<Suc 2] = [0, 1, 2]" by (simp add: numeral_2_eq_2)
  ultimately show ?thesis using f by (simp add: sampleUser_def numeral_3_eq_3 numeral_2_eq_2) blast
qed

theorem retries_exhausted_witness:
  "\<exists>s'. runAgentPrompt 4 (sampleRecovery deadResponse id False) [sampleUser ''hi''] sampleRun = Some (Inr (), s') \<and>
     inContext (sampleRecovery deadResponse id False) [sampleUser ''hi'', Assistant (deadResponse 2)] s' \<and>
     last (retryEvents s') = AutoRetryEnd False 3 (Some ''429'')"
proof -
  let ?env = "sampleRecovery deadResponse id False" and ?f = "attempt deadResponse id (rs_world sampleRun)"
  have sc: "scripted ?env deadResponse id" by (rule sample_scripted) (simp add: deadResponse_def)
  have f: "?f i = deadResponse 2" for i by (simp add: attempt_def deadResponse_def)
  have fails: "\<forall>i. isRetryableError ?env (?f i) = Inr True" using f failing_error by (simp add: deadResponse_def)
  have r: "rp_maxRetries (rv_retry ?env) = 3" by (simp add: sampleRecovery_def samplePolicy_def)
  have "rp_enabled (rv_retry ?env)" "\<not> cst_enabled (rv_compaction ?env)" "usageKnown []" "rs_retryAttempt sampleRun = 0"
    by (simp_all add: usageKnown_def sampleRun_def sampleRecovery_def samplePolicy_def)
  from retries_exhausted [OF sc sampleRun_ok this(3,4,1,2) fails, of "\<lparr>um_content = ContentString ''hi'', um_timestamp = 0\<rparr>"]
  show ?thesis unfolding r f by (auto simp: sampleUser_def deadResponse_def failingResponse_def)
qed

end

