(* ===== verification/Recovery_Overflow.thy ===== *)
theory Recovery_Overflow
  imports Recovery_Runs
begin

text \<open>
  Compaction as part of the recovery. Once overflow recovery has been attempted only a user message or a good
  response allows another attempt, so a provider whose every answer is an error that is no reason to retry is given
  up after at most one continuation. An automatic compaction never throws: it appends one compaction entry, and the
  live context is the new projection, or it changes nothing but the events.
\<close>

section \<open>The overflow flag\<close>

definition lastSatisfies :: "(assistant_message \<Rightarrow> bool) \<Rightarrow> 'w run_session \<Rightarrow> bool" where
  "lastSatisfies Q s \<longleftrightarrow> pred_option Q (rs_lastAssistantMessage s)"

text \<open>The flag, if it is watched, stays set, and the last response keeps satisfying \<open>Q\<close>.\<close>

definition flagStep :: "bool \<Rightarrow> (assistant_message \<Rightarrow> bool) \<Rightarrow> 'w run_session \<Rightarrow> 'w run_session \<Rightarrow> bool" where
  "flagStep watched Q s s' \<longleftrightarrow>
     (watched \<longrightarrow> rs_overflowRecoveryAttempted s \<longrightarrow> rs_overflowRecoveryAttempted s') \<and>
     (lastSatisfies Q s \<longrightarrow> lastSatisfies Q s')"

interpretation flag: total_effects "\<lambda>_. True" "flagStep watched Q" for watched Q
  by unfold_locales (auto simp: flagStep_def)

abbreviation keepsFlag :: "bool \<Rightarrow> (assistant_message \<Rightarrow> bool) \<Rightarrow> ('a, 'w) run_action \<Rightarrow> bool" where
  "keepsFlag watched Q m \<equiv> keeps (\<lambda>_. True) (flagStep watched Q) m"

lemma flag_modify:
  "(\<And>s. rs_overflowRecoveryAttempted (f s) = rs_overflowRecoveryAttempted s \<and>
        rs_lastAssistantMessage (f s) = rs_lastAssistantMessage s) \<Longrightarrow> keepsFlag watched Q (eff_modify f)"
  by (rule flag.keeps_modify) (simp add: flagStep_def lastSatisfies_def)

lemma flag_emit: "keepsFlag watched Q (rs_emit ev)"
  unfolding rs_emit_def by (rule flag_modify) simp

lemma flag_store: "keepsFlag watched Q (rs_store env f)"
  by (auto simp: keeps_def rs_store_def flagStep_def lastSatisfies_def)

lemma flag_call: "keepsFlag watched Q (rs_call env f)"
  by (auto simp: keeps_def rs_call_def flagStep_def lastSatisfies_def Let_def split: prod.splits)

lemma flag_queued: "keepsFlag watched Q (rs_hasQueuedMessages env)"
  by (auto simp: keeps_def rs_hasQueuedMessages_def flagStep_def)

lemmas flag_basic = flag.keeps_rules(1-7,9) flag_modify flag_emit flag_store flag_call flag_queued

lemma flag_mapM: "(\<And>x. keepsFlag watched Q (f x)) \<Longrightarrow> keepsFlag watched Q (eff_mapM f xs)"
  by (induction xs) (auto intro: flag_basic)

lemma flag_refresh: "keepsFlag watched Q refreshFinalizedContext"
  unfolding refreshFinalizedContext_def by (intro flag_basic) simp

lemma flag_findPersisted: "keepsFlag watched Q (findPersistedMessageEntryId m)"
  unfolding findPersistedMessageEntryId_def by (auto intro!: flag_basic split: option.split)

lemma flag_omit: "keepsFlag watched Q (omitRecoveryAttempt env m rs)"
  unfolding omitRecoveryAttempt_def Let_def omitEntry_def
  by (auto intro!: flag_basic flag_mapM flag_findPersisted flag_refresh split: option.split simp del: eff_mapM.simps)

lemma flag_auto: "keepsFlag watched Q (runAutoCompaction env reason willRetry)"
  unfolding runAutoCompaction_def compactionSummary_def throwIfAborted_def runBeforeCompact_def runDefaultCompaction_def
    saveCompaction_def storeCompaction_def compactionFailed_def Let_def
  by (auto intro!: flag_basic flag_refresh split: option.split prod.split)

lemma flag_usage: "keepsFlag watched Q (getContextUsage env)"
  unfolding getContextUsage_def Let_def by (auto intro!: flag_basic split: option.split prod.split)

lemma flag_flush: "keepsFlag watched Q (flushPendingCustomMessages env)"
  unfolding flushPendingCustomMessages_def appendCustomMessage_def by (auto intro!: flag_basic flag_refresh)

lemma flag_persist: "keepsFlag watched Q (persistMessage env m)"
  unfolding persistMessage_def by (auto intro!: flag_basic split: option.split)

lemma flag_note:
  assumes "am_stopReason a = StopError" and "Q a"
  shows "keepsFlag watched Q (noteAssistantMessage a)"
  unfolding noteAssistantMessage_def
  by (rule flag.keeps_bind [OF flag.keeps_modify])
     (auto intro!: flag_basic simp: flagStep_def lastSatisfies_def assms)

lemma flag_dequeue: "keepsFlag watched Q (dequeueUserMessage t)"
  unfolding dequeueUserMessage_def emitQueueUpdate_def by (auto intro!: flag_basic)

lemma flag_reset: "keepsFlag False Q (eff_modify (\<lambda>s. s\<lparr>rs_overflowRecoveryAttempted := False\<rparr>))"
  by (rule flag.keeps_modify) (simp add: flagStep_def lastSatisfies_def)

lemma flag_event:
  assumes "\<And>u. ev = MessageStart (User u) \<Longrightarrow> \<not> watched"
    and "\<And>a. ev = MessageEnd (Assistant a) \<Longrightarrow> am_stopReason a = StopError \<and> Q a"
  shows "keepsFlag watched Q (handleAgentEvent env ev)"
proof -
  have "keepsFlag watched Q (beforeForward env ev)"
  proof (cases "\<exists>u. ev = MessageStart (User u)")
    case True
    then have "\<not> watched" using assms(1) by blast
    then show ?thesis
      using True flag.keeps_bind [OF flag_reset flag_dequeue] by (auto simp: beforeForward_def)
  next
    case False
    then show ?thesis
      unfolding beforeForward_def by (cases ev) (auto intro!: flag_basic flag_usage split: agent_message.split)
  qed
  moreover have "keepsFlag watched Q (afterForward env ev)"
    unfolding afterForward_def using assms(2)
    by (cases ev) (auto intro!: flag_basic flag_persist flag_note flag_flush split: agent_message.split)
  moreover have "keepsFlag watched Q (forwardEvent env ev)"
    unfolding forwardEvent_def by (cases ev) (auto intro!: flag_basic)
  ultimately show ?thesis unfolding handleAgentEvent_def by (auto intro!: flag_basic)
qed

lemma flag_events:
  assumes "\<And>u. MessageStart (User u) \<in> set evs \<Longrightarrow> \<not> watched"
    and "\<And>a. MessageEnd (Assistant a) \<in> set evs \<Longrightarrow> am_stopReason a = StopError \<and> Q a"
  shows "keepsFlag watched Q (eff_forEach i (\<lambda>_. handleAgentEvent env) evs)"
  using assms
proof (induction evs arbitrary: i)
  case (Cons ev evs)
  have "keepsFlag watched Q (handleAgentEvent env ev)" using Cons.prems by (intro flag_event) auto
  moreover have "keepsFlag watched Q (eff_forEach (Suc i) (\<lambda>_. handleAgentEvent env) evs)" using Cons.prems by (intro Cons.IH) auto
  ultimately show ?case by (auto intro: flag.keeps_bind)
qed (simp add: flag.keeps_rules(1))

section \<open>When a compaction asks to go on\<close>

lemma auto_yields:
  assumes "\<And>w. \<not> rv_hasQueuedMessages env w"
  shows "yields (\<lambda>b. b \<longrightarrow> willRetry) (runAutoCompaction env reason willRetry)"
proof -
  have "yields (\<lambda>b. b \<longrightarrow> willRetry) (rs_hasQueuedMessages env)" using assms by (simp add: yields_def rs_hasQueuedMessages_def)
  then show ?thesis
    unfolding runAutoCompaction_def saveCompaction_def compactionFailed_def Let_def
    by (auto intro!: yields_rules split: option.split prod.split)
qed

text \<open>A continuation is granted by a method that finds the flag down and leaves it up.\<close>

definition grants :: "(bool, 'w) run_action \<Rightarrow> bool" where
  "grants m \<longleftrightarrow>
     (\<forall>s s'. m s = Some (Inr True, s') \<longrightarrow> \<not> rs_overflowRecoveryAttempted s \<and> rs_overflowRecoveryAttempted s')"

lemma grants_never: "yields (\<lambda>b. \<not> b) m \<Longrightarrow> grants m"
  by (auto simp: grants_def yields_def)

lemma grants_bind:
  assumes "keepsFlag True (\<lambda>_. True) m" and "\<And>x. grants (f x)"
  shows "grants (eff_bind m f)"
  using assms unfolding grants_def eff_bind_Some keeps_def flagStep_def by blast

lemma grants_get: "(\<And>s. grants (f s)) \<Longrightarrow> grants (eff_get f)"
  by (simp add: grants_def eff_get_def)

lemma grants_recoverOverflow:
  assumes q: "\<And>w. \<not> rv_hasQueuedMessages env w"
  shows "grants (recoverOverflow env m rs b)"
proof (cases "am_stopReason m = Stop")
  case True
  then show ?thesis using auto_yields [OF q, of False OverflowReason] q by (simp add: recoverOverflow_def grants_never)
next
  case False
  show ?thesis
    unfolding grants_def
  proof (intro allI impI)
    fix s s'
    assume run: "recoverOverflow env m rs b s = Some (Inr True, s')"
    then have down: "\<not> rs_overflowRecoveryAttempted s"
      using False by (auto simp: recoverOverflow_def eff_simps split: if_splits)
    let ?go = "eff_bind (omitRecoveryAttempt env m rs) (\<lambda>_. runAutoCompaction env OverflowReason True)"
    have "?go (s\<lparr>rs_overflowRecoveryAttempted := True\<rparr>) = Some (Inr True, s')"
      using run False down by (simp add: recoverOverflow_def eff_get_def eff_modify_def eff_bind_def)
    moreover have "keepsFlag True (\<lambda>_. True) ?go" by (intro flag.keeps_bind flag_omit flag_auto)
    ultimately have "rs_overflowRecoveryAttempted s'" unfolding keeps_def flagStep_def by fastforce
    then show "\<not> rs_overflowRecoveryAttempted s \<and> rs_overflowRecoveryAttempted s'" using down by blast
  qed
qed

lemma grants_checkCompaction:
  assumes q: "\<And>w. \<not> rv_hasQueuedMessages env w"
  shows "grants (checkCompaction env m skip rs)"
proof -
  have t: "grants (runAutoCompaction env ThresholdReason False)"
    using auto_yields [OF q, of False ThresholdReason] q by (simp add: grants_never)
  have n: "grants (eff_return False)" by (rule grants_never) (simp add: yields_return)
  show ?thesis
    unfolding checkCompaction_def Let_def
    by (auto intro!: grants_bind grants_get flag_basic flag_findPersisted grants_recoverOverflow [OF q] t n
        split: option.split prod.split)
qed

section \<open>A provider without hope\<close>

definition hopeless :: "'w recovery_env \<Rightarrow> assistant_message \<Rightarrow> bool" where
  "hopeless env a \<longleftrightarrow> am_stopReason a = StopError \<and> isRetryableError env a = Inr False"

lemma flag_raise: "keepsFlag watched Q (eff_modify (\<lambda>s. s\<lparr>rs_overflowRecoveryAttempted := True\<rparr>))"
  by (rule flag.keeps_modify) (simp add: flagStep_def lastSatisfies_def)

lemma flag_recoverOverflow: "keepsFlag watched Q (recoverOverflow env m rs b)"
  unfolding recoverOverflow_def by (auto intro!: flag.keeps_rules(1,5,7) flag_emit flag_auto flag_omit flag_raise)

lemma flag_checkCompaction: "keepsFlag watched Q (checkCompaction env m skip rs)"
  unfolding checkCompaction_def Let_def
  by (auto intro!: flag_basic flag_findPersisted flag_recoverOverflow flag_auto split: option.split prod.split)

lemma flag_finishCancelled: "keepsFlag watched Q finishCancelledRetry"
  unfolding finishCancelledRetry_def by (auto intro!: flag_basic)

lemma flag_afterRetry: "keepsFlag watched Q (afterRetry env m rs)"
  unfolding afterRetry_def by (auto intro!: flag_basic flag_finishCancelled flag_checkCompaction)

lemma flag_prepareRetry: "keepsFlag watched Q (prepareRetry env m)"
  unfolding prepareRetry_def Let_def by (auto intro!: flag_basic flag_omit flag_finishCancelled)

lemma flag_postRun: "keepsFlag watched Q (handlePostAgentRun env)"
proof -
  have "keepsFlag watched Q (eff_modify (\<lambda>s. s\<lparr>rs_lastAssistantMessage := None, rs_lastAssistantToolResults := []\<rparr>))"
    by (rule flag.keeps_modify) (simp add: flagStep_def lastSatisfies_def)
  then show ?thesis
    unfolding handlePostAgentRun_def
    by (auto intro!: flag.keeps_get flag.keeps_bind flag.keeps_rules(1,3) flag_queued flag_finishCancelled flag_prepareRetry
        flag_afterRetry split: option.split)
qed

lemma afterRetry_grants:
  assumes q: "\<And>w. \<not> rv_hasQueuedMessages env w" and run: "afterRetry env m rs s = Some (Inr True, s')"
  shows "\<not> rs_overflowRecoveryAttempted s \<and> rs_overflowRecoveryAttempted s'"
proof -
  let ?first = "if am_stopReason m = StopError \<and> 0 < rs_retryAttempt s
      then eff_bind (rs_emit (AutoRetryEnd False (rs_retryAttempt s) (am_errorMessage m))) (\<lambda>_. eff_modify (\<lambda>s. s\<lparr>rs_retryAttempt := 0\<rparr>))
      else eff_return ()"
  have "\<not> rs_agentRunAbortRequested s"
    using run by (auto simp: afterRetry_def finishCancelledRetry_def eff_simps split: if_splits)
  then obtain s1 b s2 where 1: "?first s = Some (Inr (), s1)" and 2: "checkCompaction env m True rs s1 = Some (Inr b, s2)"
    and 3: "(if b then eff_return (\<not> rs_agentRunAbortRequested s2)
             else if rs_agentRunAbortRequested s2 then eff_return False else rs_hasQueuedMessages env) s2 = Some (Inr True, s')"
    using run by (auto simp: afterRetry_def eff_get_def eff_bind_Some)
  have "b" "s' = s2" using 3 q by (auto simp: eff_return_def rs_hasQueuedMessages_def split: if_splits)
  then have "\<not> rs_overflowRecoveryAttempted s1 \<and> rs_overflowRecoveryAttempted s'"
    using grants_checkCompaction [OF q, of m True rs] 2 by (auto simp: grants_def)
  moreover have "rs_overflowRecoveryAttempted s1 = rs_overflowRecoveryAttempted s"
    using 1 by (auto simp: eff_simps split: if_splits)
  ultimately show ?thesis by simp
qed

lemma postRun_grants:
  assumes q: "\<And>w. \<not> rv_hasQueuedMessages env w" and h: "lastSatisfies (hopeless env) s"
    and run: "handlePostAgentRun env s = Some (Inr True, s')"
  shows "\<not> rs_overflowRecoveryAttempted s \<and> rs_overflowRecoveryAttempted s'"
proof -
  let ?s0 = "s\<lparr>rs_lastAssistantMessage := None, rs_lastAssistantToolResults := []\<rparr>"
  have na: "\<not> rs_agentRunAbortRequested s"
    using run by (auto simp: handlePostAgentRun_def finishCancelledRetry_def eff_simps split: if_splits)
  obtain a where a: "rs_lastAssistantMessage s = Some a" "hopeless env a"
    using run q na h
    by (cases "rs_lastAssistantMessage s") (auto simp: handlePostAgentRun_def eff_simps lastSatisfies_def)
  have "afterRetry env a (rs_lastAssistantToolResults s) ?s0 = Some (Inr True, s')"
    using run na a
    by (simp add: handlePostAgentRun_def hopeless_def eff_get_def eff_bind_def eff_modify_def eff_lift_def eff_return_def)
  from afterRetry_grants [OF q this] show ?thesis by simp
qed

lemma loop_after_post:
  assumes q: "\<And>w. \<not> rv_hasQueuedMessages env w" and post: "handlePostAgentRun env s = Some (r, s1)" and no: "r \<noteq> Inr True"
  shows "\<exists>r s'. promptLoop (Suc n) env s = Some (r, s')"
proof (cases r)
  case (Inr b)
  then show ?thesis using post no q by (simp add: eff_simps)
qed (use post in \<open>simp add: eff_simps\<close>)

lemma loop_flagged:
  assumes q: "\<And>w. \<not> rv_hasQueuedMessages env w" and "runOk env s" and "lastSatisfies (hopeless env) s"
    and "rs_overflowRecoveryAttempted s"
  shows "\<exists>r s'. promptLoop (Suc n) env s = Some (r, s')"
proof -
  obtain r s1 where "handlePostAgentRun env s = Some (r, s1)" using runs_postRun assms(2) by (rule runsE)
  moreover have "r \<noteq> Inr True" using postRun_grants [OF q assms(3)] calculation assms(4) by blast
  ultimately show ?thesis using loop_after_post [OF q] by blast
qed

lemma hopeless_run:
  assumes "\<And>w. hopeless env (resp w)" and p: "scripted env resp next"
  shows "keepsFlag True (hopeless env) (continueAgent env)"
    and "keepsFlag False (hopeless env) (eff_get (\<lambda>s. runAgent env (rv_prompt env [User u] (rs_messages s))))"
proof -
  let ?evs = "\<lambda>w. AgentStart # TurnStart # responseEvents (resp w)"
  let ?pevs = "\<lambda>w. AgentStart # TurnStart # MessageStart (User u) # MessageEnd (User u) # responseEvents (resp w)"
  have run: "keepsFlag watched (hopeless env) (runAgent env run)"
    if shape: "\<And>w. run w = (evs w, Inr (), next w)"
      and e: "\<And>w. keepsFlag watched (hopeless env) (eff_forEach 0 (\<lambda>_. handleAgentEvent env) (evs w))" for run evs watched
    unfolding keeps_def
  proof (intro allI impI)
    fix s r s'
    assume "runAgent env run s = Some (r, s')"
    then have "(eff_bind (eff_forEach 0 (\<lambda>_. handleAgentEvent env) (evs (rs_world s))) (\<lambda>_. eff_lift (Inr ())))
        (s\<lparr>rs_world := next (rs_world s),
            rs_agentRunAbortRequested := rs_agentRunAbortRequested s \<or> rv_abort env (next (rs_world s))\<rparr>) = Some (r, s')"
      by (simp add: runAgent_def rs_call_def shape eff_bind_def)
    moreover have "keepsFlag watched (hopeless env)
        (eff_bind (eff_forEach 0 (\<lambda>_. handleAgentEvent env) (evs (rs_world s))) (\<lambda>_. eff_lift (Inr ())))"
      by (intro flag.keeps_bind e flag.keeps_rules(3))
    ultimately show "flagStep watched (hopeless env) s s'"
      unfolding keeps_def flagStep_def lastSatisfies_def by fastforce
  qed
  have h: "am_stopReason (resp w) = StopError" for w using assms(1) [of w] by (simp add: hopeless_def)
  have "keepsFlag True (hopeless env) (eff_forEach 0 (\<lambda>_. handleAgentEvent env) (?evs w))" for w
    by (rule flag_events) (auto simp: responseEvents_def h assms(1))
  then show "keepsFlag True (hopeless env) (continueAgent env)"
    unfolding continueAgent_def using p by (intro flag.keeps_get run) (auto simp: scripted_def)
  have "keepsFlag False (hopeless env) (eff_forEach 0 (\<lambda>_. handleAgentEvent env) (?pevs w))" for w
    by (rule flag_events) (auto simp: responseEvents_def h assms(1))
  then show "keepsFlag False (hopeless env) (eff_get (\<lambda>s. runAgent env (rv_prompt env [User u] (rs_messages s))))"
    using p by (intro flag.keeps_get run) (auto simp: scripted_def)
qed

lemma hopeless_loop:
  assumes p: "scripted env resp next" and h: "\<And>w. hopeless env (resp w)"
    and ok: "runOk env s" and l: "lastSatisfies (hopeless env) s"
  shows "\<exists>r s'. promptLoop (Suc (Suc n)) env s = Some (r, s')"
proof -
  have q: "\<not> rv_hasQueuedMessages env w" for w using p by (simp add: scripted_def)
  obtain r s1 where s1: "handlePostAgentRun env s = Some (r, s1)" "runStep env s s1" using runs_postRun ok by (rule runsE)
  show ?thesis
  proof (cases "r = Inr True")
    case True
    then have f1: "rs_overflowRecoveryAttempted s1" using postRun_grants [OF q l] s1(1) by simp
    have l1: "lastSatisfies (hopeless env) s1"
      using flag_postRun [of False "hopeless env" env] s1(1) l unfolding keeps_def flagStep_def by blast
    have ok1: "runOk env s1" using s1(2) by (simp add: runStep_def)
    obtain r2 s2 where s2: "continueAgent env s1 = Some (r2, s2)" "runStep env s1 s2" using runs_continue ok1 by (rule runsE)
    have f2: "rs_overflowRecoveryAttempted s2" and l2: "lastSatisfies (hopeless env) s2"
      using hopeless_run(1) [OF h p] s2(1) f1 l1 unfolding keeps_def flagStep_def by blast+
    have ok2: "runOk env s2" using s2(2) by (simp add: runStep_def)
    have "\<exists>r s'. eff_bind (continueAgent env) (\<lambda>_. promptLoop (Suc n) env) s1 = Some (r, s')"
      using s2(1) loop_flagged [OF q ok2 l2 f2, of n] by (cases r2) (simp_all add: eff_bind_def del: promptLoop.simps)
    then show ?thesis
      using s1(1) True by (simp add: eff_bind_def eff_get_def eff_return_def promptLoop.simps(2) [of "Suc n"] del: promptLoop.simps)
  next
    case False
    then show ?thesis using loop_after_post [OF q s1(1)] by blast
  qed
qed

text \<open>
  C8 (no endless recovery): a provider whose every response is an error that is no reason to retry, such as a context
  overflow, is given up after at most one continuation: whatever the compactions do, the prompt ends within two turns
  of its loop, and the history is kept.
\<close>

theorem hopeless_provider_given_up:
  assumes p: "scripted env resp next" and h: "\<forall>w. hopeless env (resp w)"
    and ok: "runOk env s" and l: "rs_lastAssistantMessage s = None"
  shows "\<exists>r s'. runAgentPrompt 2 env [User u] s = Some (r, s') \<and> runStep env s s'"
proof -
  let ?s0 = "s\<lparr>rs_agentRunAbortRequested := False\<rparr>"
  let ?run = "eff_get (\<lambda>s. runAgent env (rv_prompt env [User u] (rs_messages s)))"
  have h': "hopeless env (resp w)" for w using h by blast
  have ok0: "runOk env ?s0" using ok by (simp add: runOk_def)
  have total: "runs (runOk env) (runStep env) ?run" by (intro run.runs_get runs_runAgent)
  obtain r1 s1 where s1: "?run ?s0 = Some (r1, s1)" "runStep env ?s0 s1" by (rule runsE [OF total ok0])
  have "lastSatisfies (hopeless env) ?s0" using l by (simp add: lastSatisfies_def)
  then have l1: "lastSatisfies (hopeless env) s1"
    using hopeless_run(2) [of env resp "next" u, OF h' p] s1(1) unfolding keeps_def flagStep_def by blast
  have ok1: "runOk env s1" using s1(2) by (simp add: runStep_def)
  obtain r2 s2 where s2: "promptLoop 2 env s1 = Some (r2, s2)"
    using hopeless_loop [OF p h' ok1 l1, of 0] by (auto simp: numeral_2_eq_2)
  have ok2: "runOk env s2" using keeps_promptLoop [of env 2] ok1 s2 unfolding keeps_def runStep_def by blast
  have "\<exists>r s'. settleRun env s1 = Some (r, s')" "\<exists>r s'. settleRun env s2 = Some (r, s')"
    using runs_settle [of env] ok1 ok2 unfolding runs_def by blast+
  then have "\<exists>r s'. runAgentPrompt 2 env [User u] s = Some (r, s')"
    using s1(1) s2 unfolding runAgentPrompt_def eff_finally_def
    by (cases r1; cases r2) (auto simp: eff_bind_def eff_modify_def eff_catch_def eff_throw_def eff_return_def split: sum.split)
  then show ?thesis using keeps_runAgentPrompt [of env 2 "[User u]"] ok unfolding keeps_def by blast
qed

definition overflowResponse :: "nat \<Rightarrow> assistant_message" where
  "overflowResponse n = failingResponse\<lparr>am_usage := Some zeroUsage, am_errorMessage := Some ''prompt is too long''\<rparr>"

theorem hopeless_provider_given_up_witness:
  "\<exists>r s'. runAgentPrompt 2 (sampleRecovery overflowResponse id True) [sampleUser ''hi''] sampleRun = Some (r, s') \<and>
     runStep (sampleRecovery overflowResponse id True) sampleRun s'"
proof -
  let ?env = "sampleRecovery overflowResponse id True"
  have sc: "scripted ?env overflowResponse id" by (rule sample_scripted) (simp add: overflowResponse_def)
  have "errorOverflow (overflowResponse 0)" by code_simp
  then have "hopeless ?env (overflowResponse w)" for w
    by (simp add: hopeless_def isRetryableError_def isContextOverflow_def overflowResponse_def failingResponse_def)
  then have h: "\<forall>w. hopeless ?env (overflowResponse w)" by blast
  have "runOk ?env sampleRun" using sampleRun_ok by (simp add: inContext_def)
  from hopeless_provider_given_up [OF sc h this, of "\<lparr>um_content = ContentString ''hi'', um_timestamp = 0\<rparr>"]
  show ?thesis by (simp add: sampleRun_def sampleUser_def)
qed

section \<open>Compaction is all or nothing\<close>

definition sameStore :: "'w run_session \<Rightarrow> 'w run_session \<Rightarrow> bool" where
  "sameStore s s' \<longleftrightarrow> rs_manager s' = rs_manager s \<and> rs_messages s' = rs_messages s \<and> rs_appends s' = rs_appends s"

interpretation quiet: total_effects "\<lambda>_. True" sameStore
  by unfold_locales (auto simp: sameStore_def)

abbreviation keepsStore :: "('a, 'w) run_action \<Rightarrow> bool" where
  "keepsStore m \<equiv> keeps (\<lambda>_. True) sameStore m"

lemma store_modify:
  "(\<And>s. rs_manager (f s) = rs_manager s \<and> rs_messages (f s) = rs_messages s \<and> rs_appends (f s) = rs_appends s) \<Longrightarrow>
   keepsStore (eff_modify f)"
  by (rule quiet.keeps_modify) (simp add: sameStore_def)

lemma store_call: "keepsStore (rs_call env f)"
  by (auto simp: keeps_def rs_call_def sameStore_def Let_def split: prod.splits)

lemma store_emit: "keepsStore (rs_emit ev)"
  unfolding rs_emit_def by (rule store_modify) simp

lemma store_summary: "keepsStore (compactionSummary env model p reason willRetry)"
  unfolding compactionSummary_def throwIfAborted_def runBeforeCompact_def runDefaultCompaction_def
  by (auto intro!: quiet.keeps_rules(1-7) store_modify store_call split: option.split)

lemma sameStore_ok: "sameStore s s' \<Longrightarrow> runOk env s \<Longrightarrow> runOk env s'"
  by (simp add: sameStore_def runOk_def)

lemma failed_run: "\<exists>s'. compactionFailed env reason err s = Some (Inr False, s') \<and> sameStore s s'"
  unfolding compactionFailed_def Let_def eff_get_def by (auto simp: eff_simps sameStore_def)

text \<open>What a successful compaction leaves.\<close>

definition compactedWith :: "compaction_outcome \<Rightarrow> compaction_reason \<Rightarrow> bool \<Rightarrow> 'w run_session \<Rightarrow> 'w run_session \<Rightarrow> bool" where
  "compactedWith oc reason willRetry s s' \<longleftrightarrow>
     (\<exists>e c. getEntries (rs_manager s') = getEntries (rs_manager s) @ [e] \<and> e_data e = CompactionEntry c \<and>
        ce_summary c = oc_summary oc \<and> ce_firstKeptEntryId c = oc_firstKeptEntryId oc) \<and>
     map_option sp_messages (sm_buildSessionProjection (rs_manager s')) = Some (rs_messages s') \<and>
     (\<exists>n. last (rs_events s') = CompactionEnd reason (Some (oc, n)) False willRetry None)"

lemma store_run:
  assumes ok: "runOk env s"
  shows "\<exists>n s'. storeCompaction env oc ext s = Some (Inr n, s') \<and>
    (\<forall>ev. compactedWith oc reason willRetry s (s'\<lparr>rs_events := ev @ [CompactionEnd reason (Some (oc, n)) False willRetry None]\<rparr>))"
proof -
  let ?sm = "rs_manager s" and ?w = "rv_worlds env (rs_appends s)"
  have inv: "smInv ?sm" and fresh: "freshWorld ?w ?sm"
    using ok freshSupply_now by (simp_all add: runOk_def)
  obtain p where p: "sm_buildSessionProjection ?sm = Some p" using inv by (rule sessionView_total) simp
  obtain c where run: "appendCompaction ?w (oc_summary oc) (Some (oc_firstKeptEntryId oc)) (oc_tokensBefore oc) (oc_details oc) ext
      (oc_usage oc) ?sm = Some (appendData ?w (CompactionEntry c) ?sm)"
    and c: "ce_summary c = oc_summary oc" "ce_firstKeptEntryId c = oc_firstKeptEntryId oc"
    by (simp add: appendCompaction_def p Let_def)
  have d: "plainData (CompactionEntry c)" "set_option (dataTarget (CompactionEntry c)) \<subseteq> ids (getEntries ?sm)"
    by (simp_all add: plainData_def dataTarget_def)
  obtain sm' where sm': "appendData ?w (CompactionEntry c) ?sm = (Inr (e_id (newEntry ?w (CompactionEntry c) ?sm)), sm')" "smInv sm'"
    "appended ?sm (newEntry ?w (CompactionEntry c) ?sm) sm'"
    using appendData_inv [OF inv fresh d] by blast
  obtain p' where p': "sm_buildSessionProjection sm' = Some p'" using sm'(2) by (rule sessionView_total) simp
  obtain s' where s': "storeCompaction env oc ext s = Some (Inr (estimateMessagesTokens (sp_messages p')), s')"
    "rs_manager s' = sm'" "rs_messages s' = sp_messages p'"
    using run sm'(1) p' by (simp add: storeCompaction_def rs_store_def refreshFinalizedContext_def eff_simps)
  then show ?thesis
    unfolding compactedWith_def using sm'(3) p' c by (fastforce simp: appended_def)
qed

lemma save_run:
  assumes ok: "runOk env s"
  shows "\<exists>b s'. saveCompaction env reason willRetry (oc, ext) s = Some (Inr b, s') \<and> (willRetry \<longrightarrow> b) \<and>
    compactedWith oc reason willRetry s s'"
proof -
  obtain n s1 where s1: "storeCompaction env oc ext s = Some (Inr n, s1)"
    "\<And>ev. compactedWith oc reason willRetry s (s1\<lparr>rs_events := ev @ [CompactionEnd reason (Some (oc, n)) False willRetry None]\<rparr>)"
    using store_run [OF ok, of oc ext reason willRetry] by blast
  let ?s' = "s1\<lparr>rs_events := rs_events s1 @ [CompactionEnd reason (Some (oc, n)) False willRetry None]\<rparr>"
  have "\<exists>b. saveCompaction env reason willRetry (oc, ext) s = Some (Inr b, ?s') \<and> (willRetry \<longrightarrow> b)"
    using s1(1) by (intro exI [of _ "willRetry \<or> rv_hasQueuedMessages env (rs_world s1)"])
      (cases willRetry; simp add: saveCompaction_def eff_simps)
  then show ?thesis using s1(2) by blast
qed

text \<open>
  C7 (an automatic compaction is all or nothing): it never throws. Either a compaction entry with the summary and the
  first kept id that was decided on is the only addition to the history, the live context is the projection of the
  new history, and the last event reports the result; or the session's history and live context are untouched and
  no continuation is asked for, whatever the summariser, the extension or the user did.
\<close>

theorem auto_compaction_atomic:
  assumes ok: "runOk env s"
  shows "\<exists>b s'. runAutoCompaction env reason willRetry s = Some (Inr b, s') \<and> runStep env s s' \<and>
    (rs_manager s' = rs_manager s \<and> rs_messages s' = rs_messages s \<and> \<not> b \<or>
     (willRetry \<longrightarrow> b) \<and> (\<exists>oc. compactedWith oc reason willRetry s s'))"
proof -
  have total: "\<exists>r s'. runAutoCompaction env reason willRetry s = Some (r, s') \<and> runStep env s s'"
    using runs_auto [of env reason willRetry] ok by (simp add: runs_def)
  have "\<exists>b s'. runAutoCompaction env reason willRetry s = Some (Inr b, s') \<and>
    (rs_manager s' = rs_manager s \<and> rs_messages s' = rs_messages s \<and> \<not> b \<or>
     (willRetry \<longrightarrow> b) \<and> (\<exists>oc. compactedWith oc reason willRetry s s'))"
  proof (cases "rv_model env")
    case (Some model)
    have inv: "smInv (rs_manager s)" using ok by (simp add: runOk_def)
    then obtain prepared where prep: "preparedCompaction env (rs_manager s) = Some prepared" using preparedCompaction_total by blast
    show ?thesis
    proof (cases prepared)
      case None
      then show ?thesis using Some prep by (simp add: runAutoCompaction_def eff_simps) blast
    next
      case (Some p)
      let ?s0 = "s\<lparr>rs_cancelledByExtension := False, rs_events := rs_events s @ [CompactionStart reason]\<rparr>"
      have ok0: "runOk env ?s0" using ok by (simp add: runOk_def)
      have run: "runAutoCompaction env reason willRetry s =
          eff_catch (eff_bind (compactionSummary env model p reason willRetry) (saveCompaction env reason willRetry))
            (compactionFailed env reason) ?s0"
        using \<open>rv_model env = Some model\<close> prep Some by (simp add: runAutoCompaction_def eff_simps)
      obtain r s1 where s1: "compactionSummary env model p reason willRetry ?s0 = Some (r, s1)"
        using runsE [OF runs_compactionSummary ok0] by metis
      have same: "sameStore ?s0 s1" using store_summary s1 unfolding keeps_def by blast
      show ?thesis
      proof (cases r)
        case (Inl err)
        obtain s2 where s2: "compactionFailed env reason err s1 = Some (Inr False, s2)" "sameStore s1 s2"
          using failed_run by blast
        have "runAutoCompaction env reason willRetry s = Some (Inr False, s2)"
          using run s1 Inl s2(1) by (simp add: eff_catch_def eff_bind_def)
        moreover have "rs_manager s2 = rs_manager s" "rs_messages s2 = rs_messages s"
          using same s2(2) by (simp_all add: sameStore_def)
        ultimately show ?thesis by blast
      next
        case (Inr oc)
        obtain b s2 where s2: "saveCompaction env reason willRetry oc s1 = Some (Inr b, s2)" "willRetry \<longrightarrow> b"
          "compactedWith (fst oc) reason willRetry s1 s2"
          using save_run [OF sameStore_ok [OF same ok0], of reason willRetry "fst oc" "snd oc"] by auto
        have "runAutoCompaction env reason willRetry s = Some (Inr b, s2)"
          using run s1 Inr s2(1) by (simp add: eff_catch_def eff_bind_def)
        moreover have "compactedWith (fst oc) reason willRetry s s2"
          using s2(3) same by (simp add: compactedWith_def sameStore_def)
        ultimately show ?thesis using s2(2) by blast
      qed
    qed
  qed (simp add: runAutoCompaction_def eff_simps, blast)
  then obtain b s' where x: "runAutoCompaction env reason willRetry s = Some (Inr b, s')"
    "rs_manager s' = rs_manager s \<and> rs_messages s' = rs_messages s \<and> \<not> b \<or>
     (willRetry \<longrightarrow> b) \<and> (\<exists>oc. compactedWith oc reason willRetry s s')"
    by blast
  moreover have "runStep env s s'" using total x(1) by simp
  ultimately show ?thesis by blast
qed

theorem auto_compaction_atomic_witness:
  "\<exists>b s'. runAutoCompaction (sampleRecovery overflowResponse id True) OverflowReason True sampleRun = Some (Inr b, s') \<and>
    runStep (sampleRecovery overflowResponse id True) sampleRun s' \<and>
    (rs_manager s' = rs_manager sampleRun \<and> rs_messages s' = rs_messages sampleRun \<and> \<not> b \<or>
     (True \<longrightarrow> b) \<and> (\<exists>oc. compactedWith oc OverflowReason True sampleRun s'))"
proof -
  have "runOk (sampleRecovery overflowResponse id True) sampleRun" using sampleRun_ok by (simp add: inContext_def)
  then show ?thesis by (rule auto_compaction_atomic)
qed

lemma store_manual: "keepsStore (manualSummary env noModel ci)"
  unfolding manualSummary_def runBeforeCompact_def runDefaultCompaction_def
  by (auto intro!: quiet.keeps_rules(1-7) store_modify store_call split: option.split)

text \<open>
  A manual compaction is all or nothing: it either returns its result, which is then the only addition to the
  history and already in the live context, or it throws, after an event that says so, with history and live context
  untouched.
\<close>

theorem manual_compaction_atomic:
  assumes ok: "runOk env s"
  shows "(\<exists>oc n s'. manualCompact env noModel ci s = Some (Inr (oc, n), s') \<and> runStep env s s' \<and>
            compactedWith oc ManualReason False s s' \<and> last (rs_events s') = CompactionEnd ManualReason (Some (oc, n)) False False None) \<or>
         (\<exists>err aborted m s'. manualCompact env noModel ci s = Some (Inl err, s') \<and> runStep env s s' \<and>
            rs_manager s' = rs_manager s \<and> rs_messages s' = rs_messages s \<and>
            last (rs_events s') = CompactionEnd ManualReason None aborted False m \<and> (aborted \<longleftrightarrow> m = None))"
proof -
  let ?s0 = "s\<lparr>rs_cancelledByExtension := False, rs_events := rs_events s @ [CompactionStart ManualReason]\<rparr>"
  have ok0: "runOk env ?s0" using ok by (simp add: runOk_def)
  have step: "runStep env s s'" if "manualCompact env noModel ci s = Some (r, s')" for r s'
    using runs_manualCompact [of env noModel ci] ok that by (auto simp: runs_def)
  obtain r s1 where s1: "manualSummary env noModel ci ?s0 = Some (r, s1)" using runsE [OF runs_manualSummary ok0] by metis
  have same: "sameStore ?s0 s1" using store_manual s1 unfolding keeps_def by blast
  show ?thesis
  proof (cases r)
    case (Inl err)
    define aborted where "aborted = (rv_compactionAborted env (rs_world s1) \<or> rs_cancelledByExtension s1)"
    define m where "m = (if aborted then None else Some (''Compaction failed: '' @ errorText err))"
    define s' where "s' = s1\<lparr>rs_events := rs_events s1 @ [CompactionEnd ManualReason None aborted False m]\<rparr>"
    have run: "manualCompact env noModel ci s = Some (Inl err, s')"
      using s1 Inl by (simp add: manualCompact_def manualFailed_def eff_catch_def Let_def eff_simps s'_def m_def aborted_def)
    have "rs_manager s' = rs_manager s" "rs_messages s' = rs_messages s" using same by (simp_all add: sameStore_def s'_def)
    moreover have "last (rs_events s') = CompactionEnd ManualReason None aborted False m" "aborted \<longleftrightarrow> m = None"
      by (simp_all add: s'_def m_def)
    ultimately show ?thesis using run step [OF run] by (intro disjI2 exI conjI)
  next
    case (Inr c)
    obtain oc ext where c: "c = (oc, ext)" by (cases c)
    obtain n s2 where s2: "storeCompaction env oc ext s1 = Some (Inr n, s2)"
      "\<And>ev. compactedWith oc ManualReason False s1 (s2\<lparr>rs_events := ev @ [CompactionEnd ManualReason (Some (oc, n)) False False None]\<rparr>)"
      using store_run [OF sameStore_ok [OF same ok0], of oc ext ManualReason False] by blast
    let ?s' = "s2\<lparr>rs_events := rs_events s2 @ [CompactionEnd ManualReason (Some (oc, n)) False False None]\<rparr>"
    have run: "manualCompact env noModel ci s = Some (Inr (oc, n), ?s')"
      using s1 Inr c s2(1) by (simp add: manualCompact_def eff_catch_def eff_simps)
    have "compactedWith oc ManualReason False s ?s'"
      using s2(2) [of "rs_events s2"] same by (simp add: compactedWith_def sameStore_def)
    moreover have "last (rs_events ?s') = CompactionEnd ManualReason (Some (oc, n)) False False None" by simp
    ultimately show ?thesis using run step [OF run] by blast
  qed
qed

theorem manual_compaction_atomic_witness:
  "let env = sampleRecovery overflowResponse id True in
   (\<exists>oc n s'. manualCompact env [] None sampleRun = Some (Inr (oc, n), s') \<and> runStep env sampleRun s' \<and>
      compactedWith oc ManualReason False sampleRun s' \<and> last (rs_events s') = CompactionEnd ManualReason (Some (oc, n)) False False None) \<or>
   (\<exists>err aborted m s'. manualCompact env [] None sampleRun = Some (Inl err, s') \<and> runStep env sampleRun s' \<and>
      rs_manager s' = rs_manager sampleRun \<and> rs_messages s' = rs_messages sampleRun \<and>
      last (rs_events s') = CompactionEnd ManualReason None aborted False m \<and> (aborted \<longleftrightarrow> m = None))"
proof -
  have "runOk (sampleRecovery overflowResponse id True) sampleRun" using sampleRun_ok by (simp add: inContext_def)
  from manual_compaction_atomic [OF this, of "[]" None] show ?thesis unfolding Let_def .
qed

end
