(* ===== verification/Prune_Blocks.thy ===== *)
theory Prune_Blocks
  imports Summarization
begin

text \<open>
  Atomic context blocks and their summaries: \<open>packages/coding-agent/src/core/prune.ts\<close> and
  \<open>block-summarization.ts\<close>. Both work on raw session entries, whose stored content may be null: the
  functions that read it throw then, which is the error branch \<open>Inl TypeError\<close>.
\<close>

section \<open>Blocks\<close>

record prune_block =
  pb_entryIds :: "string list"
  pb_entries :: "session_entry list"
  pb_messages :: "agent_message list option"

definition MAX_PROTECTED_RECENT_BLOCKS :: nat where
  "MAX_PROTECTED_RECENT_BLOCKS = 8"

definition MAX_PROTECTED_RECENT_TOKENS :: nat where
  "MAX_PROTECTED_RECENT_TOKENS = 8192"

definition getBlockMessages :: "prune_block \<Rightarrow> agent_message list" where
  "getBlockMessages b =
     (case pb_messages b of Some ms \<Rightarrow> ms | None \<Rightarrow> concat (map sessionEntryToContextMessages (pb_entries b)))"

text \<open>The backwards loop, on the reversed list of blocks: the ids in the order they are added.\<close>

fun protectFrom :: "nat \<Rightarrow> nat \<Rightarrow> prune_block list \<Rightarrow> string list" where
  "protectFrom protectedBlocks protectedTokens [] = []"
| "protectFrom protectedBlocks protectedTokens (b # bs) =
     (let blocks = Suc protectedBlocks; tokens = protectedTokens + sumTokens (getBlockMessages b)
      in hd (pb_entryIds b) #
         (if MAX_PROTECTED_RECENT_BLOCKS \<le> blocks \<or> MAX_PROTECTED_RECENT_TOKENS \<le> tokens then []
          else protectFrom blocks tokens bs))"

definition getProtectedRecentBlockIds :: "prune_block list \<Rightarrow> string list" where
  "getProtectedRecentBlockIds blocks = fold setAdd (protectFrom 0 0 (rev blocks)) []"

text \<open>\<open>message.content.some(\<dots>)\<close> throws when the stored content is null.\<close>

definition hasToolCalls :: "agent_message \<Rightarrow> bool \<Rightarrow> bool js_result" where
  "hasToolCalls m contentNull =
     (case m of
        Assistant a \<Rightarrow> if contentNull then Inl TypeError else Inr (toolCallsOf (am_content a) \<noteq> [])
      | _ \<Rightarrow> Inr False)"

definition isToolExchange :: "prune_block \<Rightarrow> bool js_result" where
  "isToolExchange b =
     (case pb_entries b of
        [] \<Rightarrow> Inr False
      | e # _ \<Rightarrow> (case e_data e of MessageEntry m contentNull \<Rightarrow> hasToolCalls m contentNull | _ \<Rightarrow> Inr False))"

definition isToolResultEntry :: "session_entry \<Rightarrow> bool" where
  "isToolResultEntry e = (case e_data e of MessageEntry m _ \<Rightarrow> isToolResult m | _ \<Rightarrow> False)"

definition singleBlock :: "session_entry \<Rightarrow> prune_block" where
  "singleBlock e = \<lparr>pb_entryIds = [e_id e], pb_entries = [e], pb_messages = None\<rparr>"

definition extendBlock :: "session_entry \<Rightarrow> prune_block \<Rightarrow> prune_block" where
  "extendBlock e b = b\<lparr>pb_entryIds := pb_entryIds b @ [e_id e], pb_entries := pb_entries b @ [e]\<rparr>"

definition visibleEntry :: "session_entry \<Rightarrow> bool" where
  "visibleEntry e \<longleftrightarrow> sessionEntryToContextMessages e \<noteq> []"

text \<open>The body of the loop over the entries.\<close>

definition addToBlocks :: "session_entry \<Rightarrow> prune_block list \<Rightarrow> prune_block list js_result" where
  "addToBlocks e blocks =
     (if \<not> visibleEntry e then Inr blocks
      else if isToolResultEntry e \<and> blocks \<noteq> []
      then js_bind (isToolExchange (last blocks)) (\<lambda>exchange.
             Inr (if exchange then butlast blocks @ [extendBlock e (last blocks)] else blocks @ [singleBlock e]))
      else Inr (blocks @ [singleBlock e]))"

fun groupFrom :: "prune_block list \<Rightarrow> session_entry list \<Rightarrow> prune_block list js_result" where
  "groupFrom blocks [] = Inr blocks"
| "groupFrom blocks (e # es) = js_bind (addToBlocks e blocks) (\<lambda>blocks'. groupFrom blocks' es)"

definition groupPruneBlocks :: "session_entry list \<Rightarrow> prune_block list js_result" where
  "groupPruneBlocks entries = groupFrom [] entries"

section \<open>Previews\<close>

fun firstNonEmpty :: "string list \<Rightarrow> string" where
  "firstNonEmpty [] = []"
| "firstNonEmpty (l # ls) = (if trim l \<noteq> [] then trim l else firstNonEmpty ls)"

definition firstLine :: "string \<Rightarrow> string" where
  "firstLine t = firstNonEmpty (splitOn (CHR 0x0A) t)"

definition str :: "json option \<Rightarrow> string" where
  "str value = (case value of Some (JStr s) \<Rightarrow> s | _ \<Rightarrow> [])"

definition joinDetail :: "string \<Rightarrow> string \<Rightarrow> string \<Rightarrow> string" where
  "joinDetail name target content =
     name @ (if target \<noteq> [] then '' '' @ target else [])
     @ (if content \<noteq> [] then '': '' @ [CHR 0x22] @ content @ [CHR 0x22] else [])"

fun roleName :: "agent_message \<Rightarrow> string" where
  "roleName (System _) = ''system''"
| "roleName (User _) = ''user''"
| "roleName (Assistant _) = ''assistant''"
| "roleName (ToolResult _) = ''toolResult''"
| "roleName (BashExecution _) = ''bashExecution''"
| "roleName (Custom _) = ''custom''"
| "roleName (BranchSummary _) = ''branchSummary''"
| "roleName (CompactionSummary _) = ''compactionSummary''"
| "roleName (ContextStatus _) = ''contextStatus''"
| "roleName (HookMessage _) = ''hookMessage''"
| "roleName (UnknownRole r _) = r"

text \<open>Reading content that may be null.\<close>

definition nonNull :: "bool \<Rightarrow> string \<Rightarrow> string js_result" where
  "nonNull contentNull t = (if contentNull then Inl TypeError else Inr t)"

definition previewMessage :: "agent_message \<Rightarrow> bool \<Rightarrow> string js_result" where
  "previewMessage m contentNull =
     (case m of
        User u \<Rightarrow> nonNull contentNull (''user: '' @ firstLine (contentText (um_content u)))
      | Assistant a \<Rightarrow>
          nonNull contentNull
            (if toolCallsOf (am_content a) \<noteq> []
             then ''assistant: '' @ join '', '' (map tc_name (toolCallsOf (am_content a)))
             else ''assistant: '' @ firstLine (contentText (ContentBlocks (am_content a))))
      | ToolResult t \<Rightarrow> Inr (''tool: '' @ tr_toolName t)
      | ContextStatus c \<Rightarrow> nonNull contentNull (''context: '' @ firstLine (cs_content c))
      | Custom c \<Rightarrow> nonNull contentNull (''custom: '' @ firstLine (contentText (cm_content c)))
      | BashExecution b \<Rightarrow> Inr (''bash: '' @ firstLine (be_command b))
      | _ \<Rightarrow> Inr (roleName m))"

fun entryType :: "entry_data \<Rightarrow> string" where
  "entryType (MessageEntry _ _) = ''message''"
| "entryType (ThinkingLevelChangeEntry _) = ''thinking_level_change''"
| "entryType (ModelChangeEntry _ _) = ''model_change''"
| "entryType (UsageEntry _ _ _ _ _) = ''usage''"
| "entryType (CompactionEntry _) = ''compaction''"
| "entryType (BranchSummaryEntry _ _ _ _ _) = ''branch_summary''"
| "entryType (CustomEntry _ _) = ''custom''"
| "entryType (CustomMessageEntry _ _ _ _) = ''custom_message''"
| "entryType (ContextEditEntry _ _ _) = ''context_edit''"
| "entryType (ContextEditCancelEntry _) = ''context_edit_cancel''"
| "entryType (LabelEntry _ _) = ''label''"
| "entryType (PruneEntry _ _ _) = ''prune''"
| "entryType (SessionInfoEntry _) = ''session_info''"

definition previewLine :: "session_entry option \<Rightarrow> string js_result" where
  "previewLine entry =
     (case entry of
        None \<Rightarrow> Inr []
      | Some e \<Rightarrow>
          (case e_data e of
             MessageEntry m contentNull \<Rightarrow> previewMessage m contentNull
           | CompactionEntry c \<Rightarrow> Inr (''compaction: '' @ firstLine (ce_summary c))
           | BranchSummaryEntry _ summary _ _ _ \<Rightarrow> Inr (''branch: '' @ firstLine summary)
           | CustomMessageEntry _ (Some c) _ _ \<Rightarrow> Inr (''custom: '' @ firstLine (contentText c))
           | CustomMessageEntry _ None _ _ \<Rightarrow> Inl TypeError
           | d \<Rightarrow> Inr (entryType d)))"

definition resultText :: "(tool_result_message \<times> bool) option \<Rightarrow> string" where
  "resultText r =
     (case r of
        None \<Rightarrow> []
      | Some (t, contentNull) \<Rightarrow> if contentNull then [] else contentText (ContentBlocks (tr_content t)))"

text \<open>\<open>edits.length > 0 ? str(edits[0].newText) : ""\<close>\<close>

definition firstNewText :: "json option \<Rightarrow> string js_result" where
  "firstNewText edits =
     (case edits of
        Some (JArr (JNull # _)) \<Rightarrow> Inl TypeError
      | Some (JArr (JObj kvs # _)) \<Rightarrow> Inr (str (map_of kvs ''newText''))
      | _ \<Rightarrow> Inr [])"

definition detailLine ::
  "string \<Rightarrow> (string \<times> json) list \<Rightarrow> (tool_result_message \<times> bool) option \<Rightarrow> string js_result" where
  "detailLine name args result =
     (if name = ''read'' then Inr (joinDetail name (str (map_of args ''path'')) (firstLine (resultText result)))
      else if name = ''write''
      then Inr (joinDetail name (str (map_of args ''path'')) (firstLine (str (map_of args ''content''))))
      else if name = ''edit''
      then js_bind (firstNewText (map_of args ''edits'')) (\<lambda>t.
             Inr (joinDetail name (str (map_of args ''path'')) (firstLine t)))
      else if name = ''bash''
      then Inr (joinDetail name (str (map_of args ''command'')) (firstLine (resultText result)))
      else Inr name)"

definition recordResult ::
  "session_entry \<Rightarrow> (string \<times> (tool_result_message \<times> bool)) list \<Rightarrow> (string \<times> (tool_result_message \<times> bool)) list" where
  "recordResult e m =
     (case e_data e of
        MessageEntry (ToolResult t) contentNull \<Rightarrow> AList.update (tr_toolCallId t) (t, contentNull) m
      | _ \<Rightarrow> m)"

definition detailLines :: "prune_block \<Rightarrow> string list js_result" where
  "detailLines b =
     (case pb_entries b of
        [] \<Rightarrow> Inr []
      | first # rest \<Rightarrow>
          (case e_data first of
             MessageEntry (Assistant a) contentNull \<Rightarrow>
               if contentNull then Inl TypeError
               else let calls = toolCallsOf (am_content a); results = fold recordResult rest []
                    in js_map (\<lambda>call. detailLine (tc_name call) (tc_arguments call) (map_of results (tc_id call))) calls
           | _ \<Rightarrow> Inr []))"

record block_preview =
  bp_line :: string
  bp_detail :: "string list"

definition previewBlock :: "prune_block \<Rightarrow> block_preview js_result" where
  "previewBlock b =
     js_bind (previewLine (case pb_entries b of [] \<Rightarrow> None | e # _ \<Rightarrow> Some e)) (\<lambda>line.
       js_bind (detailLines b) (\<lambda>detail. Inr \<lparr>bp_line = line, bp_detail = detail\<rparr>))"

section \<open>Summaries of blocks\<close>

definition BLOCK_SUMMARY_SYSTEM_PROMPT :: string where
  "BLOCK_SUMMARY_SYSTEM_PROMPT =
     join newline
      [''You create a concise factual replacement for one prior context block in an agent session.'',
       [],
       ''Preserve decisions, concrete results, file paths, identifiers, commands, errors, and unfinished work that may matter later. Omit routine tool noise, superseded intermediate work, and reasoning that no longer changes future decisions. Do not continue the task, give advice, or call tools. Keep the replacement summary within half the length of the original block, or 128 tokens for a short block. Return only the replacement summary.'']"

definition MIN_BLOCK_SUMMARY_TOKENS :: nat where
  "MIN_BLOCK_SUMMARY_TOKENS = 128"

text \<open>\<open>Math.floor(originalTokens * MAX_BLOCK_SUMMARY_RATIO)\<close> with the ratio one half.\<close>

definition summaryLimit :: "nat \<Rightarrow> nat" where
  "summaryLimit originalTokens = max MIN_BLOCK_SUMMARY_TOKENS (originalTokens div 2)"

fun stopName :: "stop_reason \<Rightarrow> string" where
  "stopName Pending = ''pending''"
| "stopName Stop = ''stop''"
| "stopName Length = ''length''"
| "stopName ToolUse = ''toolUse''"
| "stopName StopError = ''error''"
| "stopName StopAborted = ''aborted''"
| "stopName Deferred = ''deferred''"

fun blockType :: "content_block \<Rightarrow> string" where
  "blockType (TextBlock _ _) = ''text''"
| "blockType (ThinkingBlock _ _ _) = ''thinking''"
| "blockType (ImageBlock _ _) = ''image''"
| "blockType (ToolCallBlock _) = ''toolCall''"

definition responseDetails :: "assistant_message \<Rightarrow> string js_result" where
  "responseDetails m =
     (case am_usage m of
        None \<Rightarrow> Inl TypeError
      | Some u \<Rightarrow>
          (let types = join '','' (map blockType (am_content m))
           in Inr (''stopReason='' @ stopName (am_stopReason m) @ '', outputTokens='' @ showNat (u_output u)
                   @ '', reasoningTokens=''
                   @ (case u_reasoning u of Some n \<Rightarrow> showNat n | None \<Rightarrow> ''unreported'')
                   @ '', contentTypes='' @ (if types = [] then ''none'' else types))))"

text \<open>The checks on the response, in the order of the code.\<close>

definition acceptBlockSummary :: "nat \<Rightarrow> assistant_message \<Rightarrow> string js_result" where
  "acceptBlockSummary originalTokens response =
     js_bind (responseDetails response) (\<lambda>details.
       case getSummarizationFailure response ''Block summarization'' of
         Some failure \<Rightarrow> Inl (JsError (failure @ '' ('' @ details @ '')''))
       | None \<Rightarrow>
           if toolCallsOf (am_content response) \<noteq> []
           then Inl (JsError ''Block summarization attempted to call a tool'')
           else let summary = trim (contentText (ContentBlocks (am_content response)))
                in if summary = []
                   then Inl (JsError (''Block summarization returned no text ('' @ details @ '')''))
                   else if summaryLimit originalTokens < estimateTextTokens summary
                   then Inl (JsError (''Block summary exceeds ~'' @ showNat (summaryLimit originalTokens)
                          @ '' allowed text tokens: ~'' @ showNat (estimateTextTokens summary)
                          @ '' summary tokens for ~'' @ showNat originalTokens @ '' original block tokens''))
                   else Inr summary)"

definition blockPrompt :: "agent_message list \<Rightarrow> string" where
  "blockPrompt llmMessages =
     ''<context-block>'' @ newline @ serializeConversation llmMessages @ newline @ ''</context-block>''"

definition contextReserve :: "int \<Rightarrow> int" where
  "contextReserve contextWindow = max (min 2048 (contextWindow div 5)) (contextWindow div 10)"

definition availableOutputTokens :: "model_info \<Rightarrow> agent_message list \<Rightarrow> int" where
  "availableOutputTokens model llmMessages =
     mi_contextWindow model
     - int (estimateTextTokens BLOCK_SUMMARY_SYSTEM_PROMPT + estimateTextTokens (blockPrompt llmMessages))
     - contextReserve (mi_contextWindow model)"

definition blockRequest :: "model_info \<Rightarrow> int \<Rightarrow> agent_message list \<Rightarrow> summary_request" where
  "blockRequest model now llmMessages =
     \<lparr>rq_messages = normalizeContext (Some BLOCK_SUMMARY_SYSTEM_PROMPT) [userText (blockPrompt llmMessages) now] None,
      rq_maxTokens =
        (let available = availableOutputTokens model llmMessages
         in min (if 0 < mi_maxTokens model then mi_maxTokens model else available) available),
      rq_reasoning = None\<rparr>"

definition summarizeBlock ::
  "'w summarizer \<Rightarrow> model_info \<Rightarrow> prune_block \<Rightarrow> 'w \<Rightarrow> string js_result \<times> 'w" where
  "summarizeBlock sz model block w =
     (let messages = getBlockMessages block
      in if messages = [] then (Inl (JsError ''Cannot summarize a block with no context messages''), w)
         else let llmMessages = convertToLlm messages;
                  originalTokens = sum_list (map estimateMessageTokens llmMessages)
              in if availableOutputTokens model llmMessages \<le> 0
                 then (Inl (JsError (''Block is too large to summarize within the model'' @ [CHR 0x27] @ ''s context window'')), w)
                 else let (response, w) = completeSummarization sz (blockRequest model (sz_now sz) llmMessages) w
                      in (js_bind response (acceptBlockSummary originalTokens), w))"

section \<open>Grouping\<close>

definition blockOk :: "prune_block \<Rightarrow> bool" where
  "blockOk b \<longleftrightarrow>
     pb_entryIds b = map e_id (pb_entries b) \<and> pb_entries b \<noteq> [] \<and> pb_messages b = None \<and>
     list_all visibleEntry (pb_entries b) \<and> list_all isToolResultEntry (tl (pb_entries b)) \<and>
     (tl (pb_entries b) = [] \<or> isToolExchange b = Inr True)"

text \<open>A tool result that directly follows a tool exchange belongs to its block.\<close>

definition separated :: "prune_block \<Rightarrow> prune_block \<Rightarrow> bool" where
  "separated b b' \<longleftrightarrow> \<not> (isToolExchange b = Inr True \<and> isToolResultEntry (hd (pb_entries b')))"

definition nullAssistant :: "session_entry \<Rightarrow> bool" where
  "nullAssistant e = (case e_data e of MessageEntry (Assistant _) contentNull \<Rightarrow> contentNull | _ \<Rightarrow> False)"

definition blocksOk :: "prune_block list \<Rightarrow> bool" where
  "blocksOk bs \<longleftrightarrow> list_all blockOk bs \<and> successively separated bs"

lemma isToolExchange_head: "pb_entries b \<noteq> [] \<Longrightarrow> isToolExchange (extendBlock e b) = isToolExchange b"
  by (auto simp: isToolExchange_def extendBlock_def split: list.splits)

lemma isToolExchange_Inl:
  "isToolExchange b = Inl err \<Longrightarrow> err = TypeError \<and> (\<exists>e \<in> set (pb_entries b). nullAssistant e)"
  by (auto simp: isToolExchange_def hasToolCalls_def nullAssistant_def
      split: list.splits entry_data.splits agent_message.splits if_splits)

lemma blockOk_single: "visibleEntry e \<Longrightarrow> blockOk (singleBlock e)"
  by (simp add: blockOk_def singleBlock_def)

lemma blockOk_extend:
  "blockOk b \<Longrightarrow> visibleEntry e \<Longrightarrow> isToolResultEntry e \<Longrightarrow> isToolExchange b = Inr True \<Longrightarrow> blockOk (extendBlock e b)"
  by (auto simp: blockOk_def isToolExchange_head) (auto simp: extendBlock_def)

lemma separated_head: "pb_entries b' \<noteq> [] \<Longrightarrow> separated b (extendBlock e b') = separated b b'"
  by (simp add: separated_def extendBlock_def)

lemma blocksOk_snoc: "blocksOk (bs @ [b]) \<longleftrightarrow> blocksOk bs \<and> blockOk b \<and> (bs = [] \<or> separated (last bs) b)"
  by (auto simp: blocksOk_def successively_append_iff)

lemma separated_single: "separated b (singleBlock e) \<longleftrightarrow> \<not> (isToolExchange b = Inr True \<and> isToolResultEntry e)"
  by (simp add: separated_def singleBlock_def)

lemma addToBlocks_ok:
  assumes "blocksOk bs" and "addToBlocks e bs = Inr bs'"
  shows "blocksOk bs' \<and> concat (map pb_entries bs') = concat (map pb_entries bs) @ filter visibleEntry [e]"
proof (cases "visibleEntry e \<and> isToolResultEntry e \<and> bs \<noteq> [] \<and> isToolExchange (last bs) = Inr True")
  case True
  then obtain cs b where bs: "bs = cs @ [b]" by (metis append_butlast_last_id)
  with True assms(2) have bs': "bs' = cs @ [extendBlock e b]" by (simp add: addToBlocks_def)
  have b: "blockOk b" "blocksOk cs" "cs = [] \<or> separated (last cs) b" using assms(1) by (simp_all add: bs blocksOk_snoc)
  have "pb_entries b \<noteq> []" using b(1) by (simp add: blockOk_def)
  then show ?thesis
    using b True blockOk_extend [OF b(1)] by (auto simp: bs bs' blocksOk_snoc separated_head) (simp_all add: extendBlock_def)
next
  case False
  show ?thesis
  proof (cases "visibleEntry e")
    case True
    with False assms(2) have "bs' = bs @ [singleBlock e]" "bs = [] \<or> separated (last bs) (singleBlock e)"
      by (auto simp: addToBlocks_def separated_single split: if_splits)
    with True assms(1) show ?thesis by (simp add: blocksOk_snoc blockOk_single) (simp add: singleBlock_def)
  qed (use assms in \<open>simp add: addToBlocks_def\<close>)
qed

lemma addToBlocks_error:
  assumes "addToBlocks e bs = Inl err"
  shows "err = TypeError \<and> (\<exists>x \<in> set (concat (map pb_entries bs)). nullAssistant x)"
proof -
  have "bs \<noteq> []" and "isToolExchange (last bs) = Inl err"
    using assms by (auto simp: addToBlocks_def js_bind_Inl_iff split: if_splits)
  with isToolExchange_Inl [OF this(2)] show ?thesis by (auto intro!: bexI [of _ "last bs"])
qed

lemma groupFrom_ok:
  assumes "blocksOk bs"
  shows "case groupFrom bs es of
      Inl err \<Rightarrow> err = TypeError \<and> (\<exists>x \<in> set (concat (map pb_entries bs) @ es). nullAssistant x)
    | Inr bs' \<Rightarrow> blocksOk bs' \<and> concat (map pb_entries bs') = concat (map pb_entries bs) @ filter visibleEntry es"
  using assms
proof (induction es arbitrary: bs)
  case (Cons e es)
  show ?case
  proof (cases "addToBlocks e bs")
    case (Inl err)
    then show ?thesis using addToBlocks_error [OF Inl] by auto
  next
    case (Inr bs1)
    have ok: "blocksOk bs1" and c: "concat (map pb_entries bs1) = concat (map pb_entries bs) @ filter visibleEntry [e]"
      using addToBlocks_ok [OF Cons.prems Inr] by simp_all
    have sub: "set (concat (map pb_entries bs1)) \<subseteq> insert e (set (concat (map pb_entries bs)))" unfolding c by auto
    show ?thesis
    proof (cases "groupFrom bs1 es")
      case (Inl err)
      then show ?thesis using Inr Cons.IH [OF ok] sub by (auto 4 3 simp: subset_iff)
    next
      case (Inr bs2)
      then show ?thesis using \<open>addToBlocks e bs = Inr bs1\<close> Cons.IH [OF ok] c by simp
    qed
  qed
qed simp

text \<open>
  Grouping keeps every entry that contributes to the context, once and in order. Each block is one
  entry, or an assistant message with tool calls followed by tool results only, and a tool result right after a
  tool exchange is never split from it; so dropping whole blocks never leaves a tool result without its call in
  the block. Grouping fails only on an assistant message whose stored content is null.
\<close>

theorem groupPruneBlocks_partition:
  "case groupPruneBlocks es of
     Inl err \<Rightarrow> err = TypeError \<and> list_ex nullAssistant es
   | Inr bs \<Rightarrow> concat (map pb_entries bs) = filter visibleEntry es \<and>
               list_all blockOk bs \<and> successively separated bs"
  using groupFrom_ok [of "[]" es]
  by (auto simp: groupPruneBlocks_def blocksOk_def list_ex_iff split: sum.splits)

text \<open>The failure is real: a tool result after an assistant message with null content.\<close>

lemma groupPruneBlocks_null_content:
  assumes "e_data a = MessageEntry (Assistant m) True" and "e_data r = MessageEntry (ToolResult t) False"
  shows "groupPruneBlocks [a, r] = Inl TypeError"
  using assms
  by (simp add: groupPruneBlocks_def addToBlocks_def visibleEntry_def sessionEntryToContextMessages_def
      isToolResultEntry_def isToolExchange_def hasToolCalls_def singleBlock_def)

section \<open>The protected tail\<close>

abbreviation blockTokens :: "prune_block list \<Rightarrow> nat" where
  "blockTokens bs \<equiv> sum_list (map (\<lambda>b. sumTokens (getBlockMessages b)) bs)"

lemma protectFrom_take:
  "n < MAX_PROTECTED_RECENT_BLOCKS \<Longrightarrow> t < MAX_PROTECTED_RECENT_TOKENS \<Longrightarrow>
   \<exists>k. protectFrom n t bs = map (hd \<circ> pb_entryIds) (take k bs) \<and> k \<le> length bs \<and> n + k \<le> MAX_PROTECTED_RECENT_BLOCKS \<and>
       (bs = [] \<or> 0 < k) \<and> t + blockTokens (take (k - 1) bs) < MAX_PROTECTED_RECENT_TOKENS \<and>
       (k = length bs \<or> n + k = MAX_PROTECTED_RECENT_BLOCKS \<or> MAX_PROTECTED_RECENT_TOKENS \<le> t + blockTokens (take k bs))"
proof (induction bs arbitrary: n t)
  case (Cons b bs)
  let ?t = "t + sumTokens (getBlockMessages b)"
  show ?case
  proof (cases "MAX_PROTECTED_RECENT_BLOCKS \<le> Suc n \<or> MAX_PROTECTED_RECENT_TOKENS \<le> ?t")
    case True
    with Cons.prems show ?thesis by (intro exI [of _ 1]) auto
  next
    case False
    from Cons.IH [of "Suc n" ?t] False obtain k where k:
      "protectFrom (Suc n) ?t bs = map (hd \<circ> pb_entryIds) (take k bs)" "k \<le> length bs"
      "Suc n + k \<le> MAX_PROTECTED_RECENT_BLOCKS" "bs = [] \<or> 0 < k"
      "?t + blockTokens (take (k - 1) bs) < MAX_PROTECTED_RECENT_TOKENS"
      "k = length bs \<or> Suc n + k = MAX_PROTECTED_RECENT_BLOCKS \<or> MAX_PROTECTED_RECENT_TOKENS \<le> ?t + blockTokens (take k bs)"
      by (metis linorder_not_le)
    then show ?thesis using False Cons.prems
      by (intro exI [of _ "Suc k"]) (cases k, auto simp: Let_def add.assoc)
  qed
qed simp

text \<open>
  C36 (protected tail): the protected ids are those of the last \<open>k\<close> blocks, newest first. At least one block is
  protected when there is any, at most eight are, and the blocks newer than the oldest protected one stay below
  8192 tokens. The tail ends at the oldest protected block for one of three reasons: it is the first block of
  all, eight blocks are protected, or the protected blocks have reached 8192 tokens.
\<close>

theorem protected_tail_bounds:
  "\<exists>k. getProtectedRecentBlockIds bs = fold setAdd (map (hd \<circ> pb_entryIds) (take k (rev bs))) [] \<and>
       k \<le> length bs \<and> k \<le> 8 \<and> (bs = [] \<or> 1 \<le> k) \<and>
       blockTokens (take (k - 1) (rev bs)) < 8192 \<and>
       (k = length bs \<or> k = 8 \<or> 8192 \<le> blockTokens (take k (rev bs)))"
proof -
  have "(0::nat) < 8" and "(0::nat) < 8192" by simp_all
  from protectFrom_take [of 0 0 "rev bs", unfolded MAX_PROTECTED_RECENT_BLOCKS_def MAX_PROTECTED_RECENT_TOKENS_def,
      OF this] obtain k where
    "protectFrom 0 0 (rev bs) = map (hd \<circ> pb_entryIds) (take k (rev bs))" "k \<le> length bs" "k \<le> 8" "bs = [] \<or> 0 < k"
    "blockTokens (take (k - 1) (rev bs)) < 8192"
    "k = length bs \<or> k = 8 \<or> 8192 \<le> blockTokens (take k (rev bs))"
    by (simp only: length_rev rev_is_Nil_conv add_0) blast
  then show ?thesis unfolding getProtectedRecentBlockIds_def by (intro exI [of _ k]) (simp add: Suc_le_eq)
qed

text \<open>Nine blocks of an empty message each: the limit of eight blocks decides.\<close>

definition tinyBlock :: "string \<Rightarrow> prune_block" where
  "tinyBlock i = \<lparr>pb_entryIds = [i], pb_entries = [], pb_messages = Some []\<rparr>"

lemma tiny_tokens: "blockTokens (map tinyBlock is) = 0"
  by (induction "is") (simp_all add: tinyBlock_def getBlockMessages_def)

theorem protected_tail_bounds_witness:
  "getProtectedRecentBlockIds (map tinyBlock [''a'', ''b'', ''c'', ''d'', ''e'', ''f'', ''g'', ''h'', ''i'']) =
   [''i'', ''h'', ''g'', ''f'', ''e'', ''d'', ''c'', ''b'']"
proof -
  let ?ids = "[''a'', ''b'', ''c'', ''d'', ''e'', ''f'', ''g'', ''h'', ''i'']"
  obtain k where k: "getProtectedRecentBlockIds (map tinyBlock ?ids) = fold setAdd (map (hd \<circ> pb_entryIds) (take k (rev (map tinyBlock ?ids)))) []"
    "k \<le> 8" "k = length (map tinyBlock ?ids) \<or> k = 8 \<or> 8192 \<le> blockTokens (take k (rev (map tinyBlock ?ids)))"
    using protected_tail_bounds [of "map tinyBlock ?ids"] by blast
  have "blockTokens (take k (rev (map tinyBlock ?ids))) = 0" by (simp only: rev_map take_map tiny_tokens)
  then have "k = 8" using k(2,3) by (simp only: length_map) simp
  then show ?thesis using k(1) by (simp add: tinyBlock_def setAdd_def)
qed

section \<open>The size of a block summary\<close>

lemma acceptBlockSummary_Inr:
  "acceptBlockSummary n m = Inr t \<Longrightarrow>
   t \<noteq> [] \<and> t = trim (contentText (ContentBlocks (am_content m))) \<and> estimateTextTokens t \<le> max 128 (n div 2) \<and> completeSummary m"
  by (auto simp: acceptBlockSummary_def getSummarizationFailure_def completeSummary_def summaryLimit_def
      MIN_BLOCK_SUMMARY_TOKENS_def Let_def split: if_splits option.splits)

text \<open>
  C38 (block summary): a summary that is returned is non-empty, comes from a complete response without tool
  calls, and has at most half the estimated tokens of the block, or 128; and the request leaves room for the
  prompt, the reserve and the output in the model's window.
\<close>

theorem summarizeBlock_bounded:
  assumes "fst (summarizeBlock sz model block w) = Inr summary"
  shows "summary \<noteq> [] \<and>
         estimateTextTokens summary \<le> max 128 (sum_list (map estimateMessageTokens (convertToLlm (getBlockMessages block))) div 2) \<and>
         (\<exists>m. completeSummary m \<and> summary = trim (contentText (ContentBlocks (am_content m)))) \<and>
         0 < rq_maxTokens (blockRequest model (sz_now sz) (convertToLlm (getBlockMessages block))) \<and>
         rq_maxTokens (blockRequest model (sz_now sz) (convertToLlm (getBlockMessages block)))
           + int (estimateTextTokens BLOCK_SUMMARY_SYSTEM_PROMPT)
           + int (estimateTextTokens (blockPrompt (convertToLlm (getBlockMessages block))))
           + contextReserve (mi_contextWindow model) \<le> mi_contextWindow model"
proof -
  let ?ms = "convertToLlm (getBlockMessages block)"
  have pos: "0 < availableOutputTokens model ?ms"
    and acc: "\<exists>m. acceptBlockSummary (sum_list (map estimateMessageTokens ?ms)) m = Inr summary"
    using assms by (auto simp: summarizeBlock_def Let_def split: if_splits prod.splits)
  from acc obtain m where m: "acceptBlockSummary (sum_list (map estimateMessageTokens ?ms)) m = Inr summary" by blast
  have "rq_maxTokens (blockRequest model (sz_now sz) ?ms) \<le> availableOutputTokens model ?ms"
    "0 < rq_maxTokens (blockRequest model (sz_now sz) ?ms)"
    using pos by (auto simp: blockRequest_def Let_def)
  with acceptBlockSummary_Inr [OF m] show ?thesis
    unfolding availableOutputTokens_def by auto
qed

definition sampleBlock :: prune_block where
  "sampleBlock = \<lparr>pb_entryIds = [''b''], pb_entries = [], pb_messages = Some [userText ''hello'' 0]\<rparr>"

definition usageSummarizer :: "unit summarizer" where
  "usageSummarizer = \<lparr>sz_call = (\<lambda>_ w. (Inr \<lparr>am_content = [plainText ''ok''], am_api = ''a'', am_provider = ''p'',
      am_model = ''m'', am_usage = Some \<lparr>u_input = 1, u_output = 1, u_cacheRead = 0, u_cacheWrite = 0, u_cacheWrite1h = None,
        u_reasoning = None, u_totalTokens = 2, u_cost = \<lparr>co_input = 0, co_output = 0, co_cacheRead = 0, co_cacheWrite = 0, co_total = 0\<rparr>\<rparr>,
      am_stopReason = Stop, am_errorMessage = None, am_timestamp = 0, am_rest = []\<rparr>, w)),
     sz_sleep = (\<lambda>_ w. (False, w)), sz_retry = None, sz_now = 0\<rparr>"

definition wideModel :: model_info where
  "wideModel = \<lparr>mi_reasoning = False, mi_maxTokens = 1000, mi_contextWindow = 100000\<rparr>"

lemma blockPrompt_small: "estimateTextTokens (blockPrompt (convertToLlm (getBlockMessages sampleBlock))) = 12"
  by code_simp

lemma blockSystemPrompt_length: "length BLOCK_SUMMARY_SYSTEM_PROMPT \<le> 1000"
  by code_simp

lemma sampleBlock_fits: "0 < availableOutputTokens wideModel (convertToLlm (getBlockMessages sampleBlock))"
proof -
  have "estimateTextTokens BLOCK_SUMMARY_SYSTEM_PROMPT \<le> 1000"
    using blockSystemPrompt_length by (simp add: estimateTextTokens_def ceilDiv_def)
  then show ?thesis
    unfolding availableOutputTokens_def blockPrompt_small
    by (simp add: wideModel_def contextReserve_def)
qed

lemma sampleBlock_summary: "fst (summarizeBlock usageSummarizer wideModel sampleBlock ()) = Inr ''ok''"
proof -
  have ne: "getBlockMessages sampleBlock \<noteq> []" by (simp add: getBlockMessages_def sampleBlock_def)
  have "acceptBlockSummary n \<lparr>am_content = [plainText ''ok''], am_api = ''a'', am_provider = ''p'',
      am_model = ''m'', am_usage = Some \<lparr>u_input = 1, u_output = 1, u_cacheRead = 0, u_cacheWrite = 0, u_cacheWrite1h = None,
        u_reasoning = None, u_totalTokens = 2, u_cost = \<lparr>co_input = 0, co_output = 0, co_cacheRead = 0, co_cacheWrite = 0, co_total = 0\<rparr>\<rparr>,
      am_stopReason = Stop, am_errorMessage = None, am_timestamp = 0, am_rest = []\<rparr> = Inr ''ok''" for n
    by (simp add: acceptBlockSummary_def responseDetails_def getSummarizationFailure_def List.map_filter_def trim_def
        isSpace_def summaryLimit_def MIN_BLOCK_SUMMARY_TOKENS_def estimateTextTokens_def ceilDiv_def Let_def)
  then show ?thesis
    using sampleBlock_fits ne
    by (simp add: summarizeBlock_def Let_def completeSummarization_def usageSummarizer_def retryAssistantCall_def
        maxAttemptsOf_def retryLoop.simps)
qed

theorem summarizeBlock_bounded_witness:
  "estimateTextTokens ''ok'' \<le> max 128 (sum_list (map estimateMessageTokens (convertToLlm (getBlockMessages sampleBlock))) div 2) \<and>
   (\<exists>m. completeSummary m \<and> ''ok'' = trim (contentText (ContentBlocks (am_content m))))"
  using summarizeBlock_bounded [OF sampleBlock_summary] by blast

end
