(* ===== verification/Context_Curation.thy ===== *)
theory Context_Curation
  imports Session_Properties Prune_Blocks Effects
begin

text \<open>
  The context tools of the agent session, \<open>packages/coding-agent/src/core/agent-session.ts\<close>: \<open>list_context\<close>,
  \<open>prune_context\<close> and \<open>summarize_context\<close> over the session manager and the prune blocks. The state is the part of
  \<open>AgentSession\<close> the tools use, and an abstract world of the model calls. While a summary is awaited other code may
  run, such as curation by the user: \<open>ci_await\<close> is what happens to the session meanwhile. The outer option is the
  walk along parent links. The tools start from an array of strings: the check of the raw arguments is not
  modelled.
\<close>

section \<open>State\<close>

record 'w curated_session =
  cur_manager :: session_manager
  cur_messages :: "agent_message list" \<comment> \<open>\<open>agent.state.messages\<close>\<close>
  cur_pruneHappenedThisTurn :: bool
  cur_pruneSkipNextCompactionCheck :: bool
  cur_contextStatusLastPercent :: "rat option"
  cur_contextStatusForceNext :: bool
  cur_world :: 'w

type_synonym ('a, 'w) curation = "('a, 'w curated_session) effect"

text \<open>A method of the session manager.\<close>

definition cur_manage :: "(session_manager \<Rightarrow> ('a js_result \<times> session_manager) option) \<Rightarrow> ('a, 'w) curation" where
  "cur_manage f s = map_option (\<lambda>(r, sm'). (r, s\<lparr>cur_manager := sm'\<rparr>)) (f (cur_manager s))"

section \<open>Inventory\<close>

type_synonym inventory = "prune_block list \<times> string list"

definition jsMapGet :: "('k \<times> 'v) list \<Rightarrow> 'k \<Rightarrow> 'v option" where
  "jsMapGet pairs = map_of (rev pairs)"

definition effectiveEntry :: "(string \<Rightarrow> agent_message list option) \<Rightarrow> session_entry \<Rightarrow> session_entry" where
  "effectiveEntry messagesById e =
     (case (e_data e, messagesById (e_id e)) of
        (MessageEntry _ _, Some (m # _)) \<Rightarrow> e\<lparr>e_data := MessageEntry m False\<rparr>
      | _ \<Rightarrow> e)"

definition effectiveBlock :: "(string \<Rightarrow> agent_message list option) \<Rightarrow> prune_block \<Rightarrow> prune_block" where
  "effectiveBlock messagesById b =
     b\<lparr>pb_messages := Some (concat (map (\<lambda>i. case messagesById i of Some ms \<Rightarrow> ms | None \<Rightarrow> []) (pb_entryIds b))),
       pb_entries := map (effectiveEntry messagesById) (pb_entries b)\<rparr>"

abbreviation blockId :: "prune_block \<Rightarrow> string" where
  "blockId b \<equiv> hd (pb_entryIds b)"

definition inventoryOf :: "prune_block list \<Rightarrow> session_entry list \<Rightarrow> inventory" where
  "inventoryOf visibleBlocks selectable =
     (let allProtectedIds = getProtectedRecentBlockIds visibleBlocks;
          blocks = filter (\<lambda>b. blockId b \<in> e_id ` set selectable) visibleBlocks
      in (blocks, fold setAdd (map blockId (filter (\<lambda>b. blockId b \<in> set allProtectedIds) blocks)) []))"

definition getContextBlockInventory :: "session_manager \<Rightarrow> (inventory js_result \<times> session_manager) option" where
  "getContextBlockInventory sm =
     do {
       projection \<leftarrow> sm_buildSessionProjection sm;
       let messagesById = jsMapGet (map (\<lambda>pe. (e_id (pe_source pe), pe_messages pe)) (sp_entries projection));
       case groupPruneBlocks (map pe_source (filter (\<lambda>pe. pe_messages pe \<noteq> []) (sp_entries projection))) of
         Inl err \<Rightarrow> Some (Inl err, sm)
       | Inr blocks \<Rightarrow> do {
           (selectable, sm') \<leftarrow> sm_buildContextEntries sm;
           Some (Inr (inventoryOf (map (effectiveBlock messagesById) blocks) selectable), sm')
         }
     }"

section \<open>Selection\<close>

record context_block_selection =
  sl_blocks :: "prune_block list"
  sl_protectedIds :: "string list"
  sl_eligible :: "prune_block list"
  sl_protectedBlocks :: "prune_block list"
  sl_staleBlocks :: "prune_block list"
  sl_unknown :: "string list"

definition blocksById :: "prune_block list \<Rightarrow> string \<Rightarrow> prune_block option" where
  "blocksById blocks = jsMapGet (map (\<lambda>b. (blockId b, b)) blocks)"

text \<open>The loop over the requested ids.\<close>

fun selectIds :: "string list \<Rightarrow> string list \<Rightarrow> context_block_selection \<Rightarrow> context_block_selection" where
  "selectIds seen [] sel = sel"
| "selectIds seen (rawId # rawIds) sel =
     (let i = trim rawId
      in if i = [] \<or> i \<in> set seen then selectIds seen rawIds sel
         else selectIds (i # seen) rawIds
                (case blocksById (sl_blocks sel) i of
                   None \<Rightarrow> sel\<lparr>sl_unknown := sl_unknown sel @ [i]\<rparr>
                 | Some b \<Rightarrow>
                     if i \<in> set (sl_protectedIds sel) then sel\<lparr>sl_protectedBlocks := sl_protectedBlocks sel @ [b]\<rparr>
                     else sel\<lparr>sl_eligible := sl_eligible sel @ [b]\<rparr>))"

definition startSelection :: "inventory \<Rightarrow> context_block_selection" where
  "startSelection iv =
     \<lparr>sl_blocks = fst iv, sl_protectedIds = snd iv, sl_eligible = [], sl_protectedBlocks = [], sl_staleBlocks = [],
      sl_unknown = []\<rparr>"

definition noMatchError :: "string list \<Rightarrow> js_error" where
  "noMatchError unknown =
     JsError (''Error: No current context blocks matched.''
       @ (if unknown \<noteq> [] then '' Unknown id(s): '' @ join '', '' unknown @ ''.'' else [])
       @ '' Call list_context with no parameters to list the current blocks.'')"

definition selectContextBlocks :: "string list \<Rightarrow> (context_block_selection, 'w) curation" where
  "selectContextBlocks rawIds =
     eff_bind (cur_manage getContextBlockInventory) (\<lambda>iv.
       let sel = selectIds [] rawIds (startSelection iv)
       in if sl_eligible sel = [] \<and> sl_protectedBlocks sel = [] then eff_throw (noMatchError (sl_unknown sel))
          else eff_return sel)"

definition refreshBlock :: "prune_block \<Rightarrow> context_block_selection \<Rightarrow> context_block_selection" where
  "refreshBlock block sel =
     (let i = blockId block
      in case blocksById (sl_blocks sel) i of
           None \<Rightarrow> sel\<lparr>sl_unknown := sl_unknown sel @ [i]\<rparr>
         | Some current \<Rightarrow>
             if i \<in> set (sl_protectedIds sel) then sel\<lparr>sl_protectedBlocks := sl_protectedBlocks sel @ [current]\<rparr>
             else sel\<lparr>sl_eligible := sl_eligible sel @ [current]\<rparr>)"

definition refreshContextBlockSelection :: "context_block_selection \<Rightarrow> (context_block_selection, 'w) curation" where
  "refreshContextBlockSelection sel =
     eff_bind (cur_manage getContextBlockInventory) (\<lambda>iv.
       eff_return (fold refreshBlock (sl_eligible sel) (sel\<lparr>sl_blocks := fst iv, sl_protectedIds := snd iv, sl_eligible := []\<rparr>)))"

section \<open>Changing the session\<close>

definition contextChanged :: "(unit, 'w) curation" where
  "contextChanged s =
     map_option (\<lambda>ctx. (Inr (), s\<lparr>cur_messages := sc_messages ctx, cur_pruneHappenedThisTurn := True,
                                 cur_pruneSkipNextCompactionCheck := True\<rparr>))
       (sm_buildSessionContext (cur_manager s))"

definition excludeChanges :: "string list \<Rightarrow> prune_state \<Rightarrow> context_change list" where
  "excludeChanges entryIds state = map (\<lambda>t. \<lparr>cc_targetId = t, cc_state = state, cc_summary = None\<rparr>) entryIds"

definition setPruneState :: "(nat \<Rightarrow> world) \<Rightarrow> string list \<Rightarrow> prune_state \<Rightarrow> (unit, 'w) curation" where
  "setPruneState w entryIds state =
     (if entryIds = [] then eff_return ()
      else eff_bind (cur_manage (appendContextChanges w (excludeChanges entryIds state))) (\<lambda>_. contextChanged))"

definition summaryChanges :: "string list \<Rightarrow> string \<Rightarrow> context_change list" where
  "summaryChanges entryIds summary =
     map (\<lambda>(i, t). \<lparr>cc_targetId = t, cc_state = Summarized, cc_summary = (if i = 0 then Some summary else None)\<rparr>)
       (enumerate 0 entryIds)"

definition setBlockSummary :: "(nat \<Rightarrow> world) \<Rightarrow> string list \<Rightarrow> string \<Rightarrow> (unit, 'w) curation" where
  "setBlockSummary w entryIds summary =
     (if entryIds = [] then eff_return ()
      else eff_bind (cur_manage (appendContextChanges w (summaryChanges entryIds summary))) (\<lambda>_. contextChanged))"

definition resetStatus :: "(unit, 'w) curation" where
  "resetStatus s = Some (Inr (), s\<lparr>cur_contextStatusLastPercent := None, cur_contextStatusForceNext := True\<rparr>)"

section \<open>Texts\<close>

datatype curation_action = Pruned | SummarizedAction

fun actionName :: "curation_action \<Rightarrow> string" where
  "actionName Pruned = ''pruned''"
| "actionName SummarizedAction = ''summarized''"

fun actionLabel :: "curation_action \<Rightarrow> string" where
  "actionLabel Pruned = ''Pruned''"
| "actionLabel SummarizedAction = ''Summarized''"

definition truncatePreviewLine :: "string \<Rightarrow> string" where
  "truncatePreviewLine t = (if 120 < length t then take 117 t @ ''...'' else t)"

definition blockNames :: "prune_block list \<Rightarrow> string" where
  "blockNames bs = join '', '' (map blockId bs)"

definition protectedLines :: "curation_action \<Rightarrow> context_block_selection \<Rightarrow> string list" where
  "protectedLines action sel =
     (if sl_protectedBlocks sel = [] then []
      else [[],
            ''Kept '' @ showNat (length (sl_protectedBlocks sel)) @ '' protected recent block(s): ''
              @ blockNames (sl_protectedBlocks sel) @ ''.'',
            ''Recent-history protection preserves your latest actions and results. These IDs were skipped; any other eligible requested blocks were processed.'',
            ''This is a normal protection outcome, not a tool failure. The protection does not itself require compaction.'',
            (let olderRemaining = int (length (sl_blocks sel)) - int (length (sl_protectedIds sel))
                                  - (if action = Pruned then int (length (sl_eligible sel)) else 0)
             in if 0 < olderRemaining
                then ''Continue curation: call list_context, select older blocks without [protected: recent], and retry without the protected IDs.''
                else ''No older unprotected blocks remain eligible. Continue the task; do not retry the same protected selection now.'')])"

definition staleLines :: "context_block_selection \<Rightarrow> string list" where
  "staleLines sel =
     (if sl_staleBlocks sel = [] then []
      else [[],
            ''Kept changed source block(s): '' @ blockNames (sl_staleBlocks sel) @ ''.'',
            ''Their current content differs from what the summary model saw. No stale summaries were applied. Call list_context to review these blocks and retry if their current content still needs summarization.''])"

definition unknownLines :: "context_block_selection \<Rightarrow> string list" where
  "unknownLines sel =
     (if sl_unknown sel = [] then []
      else [[],
            ''Unknown id(s): '' @ join '', '' (sl_unknown sel)
              @ ''. These IDs are not selectable in the current context. Call list_context to refresh current block IDs.''])"

definition formatContextCurationResult :: "curation_action \<Rightarrow> context_block_selection \<Rightarrow> string js_result" where
  "formatContextCurationResult action sel =
     (let changed = length (sl_eligible sel)
      in js_bind (js_map previewBlock (sl_eligible sel)) (\<lambda>previews.
           Inr (join newline
             ([if 0 < changed then actionLabel action @ '' '' @ showNat changed @ '' block(s).''
               else ''Nothing '' @ actionName action @ ''.'']
              @ map (\<lambda>p. ''  - '' @ truncatePreviewLine (bp_line p)) previews
              @ protectedLines action sel @ staleLines sel @ unknownLines sel
              @ (if action = Pruned
                 then [[], showInt (int (length (sl_blocks sel)) - int changed) @ '' block(s) remain.'']
                 else [])))))"

text \<open>The em dash of the listing, in UTF-8.\<close>

definition emDash :: string where
  "emDash = [CHR 0xE2, CHR 0x80, CHR 0x94]"

definition listLines :: "string list \<Rightarrow> prune_block \<Rightarrow> string list js_result" where
  "listLines protectedIds b =
     js_bind (previewBlock b) (\<lambda>p.
       Inr ((blockId b @ ''  '' @ (if blockId b \<in> set protectedIds then ''[protected: recent] '' else [])
             @ truncatePreviewLine (bp_line p))
            # map (\<lambda>d. ''          '' @ truncatePreviewLine d) (bp_detail p)))"

definition listText :: "inventory \<Rightarrow> string list \<Rightarrow> string" where
  "listText iv lines =
     (if lines = [] then ''No context blocks to list.''
      else join newline
        [''Current context blocks ('' @ showNat (length (fst iv)) @ '') '' @ emDash @ '' ''
           @ showInt (int (length (fst iv)) - int (length (snd iv))) @ '' eligible, '' @ showNat (length (snd iv)) @ '' protected:'',
         ''Recent blocks are protected from automatic pruning and summarization: the shorter trailing span of 8 blocks or approximately 8192 tokens, rounded to whole blocks.'',
         join newline lines,
         [],
         ''Listing is read-only. Use IDs without [protected: recent]: exclude with prune_context {'' @ [CHR 0x22] @ ''ids'' @ [CHR 0x22] @ '': [...]}, or summarize with summarize_context {'' @ [CHR 0x22] @ ''ids'' @ [CHR 0x22] @ '': [...]}. Protected IDs are skipped, not errors; other eligible IDs still work.''])"

definition listContext :: "(string, 'w) curation" where
  "listContext =
     eff_bind (cur_manage getContextBlockInventory) (\<lambda>iv.
       eff_bind (eff_lift (js_map (listLines (snd iv)) (fst iv))) (\<lambda>lines. eff_return (listText iv (concat lines))))"

section \<open>Pruning\<close>

definition pruneContext :: "(nat \<Rightarrow> nat \<Rightarrow> world) \<Rightarrow> string list \<Rightarrow> (string, 'w) curation" where
  "pruneContext w rawIds =
     eff_bind (selectContextBlocks rawIds) (\<lambda>sel.
       eff_bind (eff_forEach 0 (\<lambda>i b. setPruneState (w i) (pb_entryIds b) Excluded) (sl_eligible sel)) (\<lambda>_.
         eff_bind (if sl_eligible sel \<noteq> [] then resetStatus else eff_return ()) (\<lambda>_.
           eff_lift (formatContextCurationResult Pruned sel))))"

section \<open>Summarising\<close>

record 'w curation_env =
  ci_summarizer :: "'w summarizer"
  ci_model :: "model_info js_result" \<comment> \<open>the configured model, or the error that there is none\<close>
  ci_auth :: "model_info \<Rightarrow> 'w \<Rightarrow> model_info js_result \<times> 'w"
  ci_await :: "'w curated_session \<Rightarrow> 'w curated_session"
  ci_worlds :: "nat \<Rightarrow> nat \<Rightarrow> world"

definition snapshotContextBlock :: "prune_block \<Rightarrow> string list \<times> agent_message list option" where
  "snapshotContextBlock b = (pb_entryIds b, pb_messages b)"

record generated_summary =
  gs_block :: prune_block
  gs_sourceSnapshot :: "string list \<times> agent_message list option"
  gs_summary :: string

text \<open>A call of the model: it may change the world, and the session while it is awaited.\<close>

definition awaitCall :: "('w curated_session \<Rightarrow> 'w curated_session) \<Rightarrow> ('w \<Rightarrow> 'a js_result \<times> 'w) \<Rightarrow> ('a, 'w) curation" where
  "awaitCall interfere call s = (let (r, w) = call (cur_world s) in Some (r, interfere (s\<lparr>cur_world := w\<rparr>)))"

fun summarizeCandidates ::
  "'w curation_env \<Rightarrow> model_info \<Rightarrow> prune_block list \<Rightarrow> context_block_selection
   \<Rightarrow> (context_block_selection \<times> generated_summary list, 'w) curation" where
  "summarizeCandidates env model [] sel = eff_return (sel, [])"
| "summarizeCandidates env model (candidate # cs) sel =
     eff_bind (refreshContextBlockSelection sel) (\<lambda>sel1.
       case List.find (\<lambda>b. blockId b = blockId candidate) (sl_eligible sel1) of
         None \<Rightarrow> summarizeCandidates env model cs sel1
       | Some block \<Rightarrow>
           eff_bind (awaitCall (ci_await env) (summarizeBlock (ci_summarizer env) model block)) (\<lambda>summary.
             eff_bind (summarizeCandidates env model cs sel1) (\<lambda>(sel2, rest).
               eff_return (sel2,
                 \<lparr>gs_block = block, gs_sourceSnapshot = snapshotContextBlock block, gs_summary = summary\<rparr> # rest))))"

definition summaryFor :: "generated_summary list \<Rightarrow> prune_block \<Rightarrow> generated_summary option" where
  "summaryFor summaries b = jsMapGet (map (\<lambda>g. (blockId (gs_block g), g)) summaries) (blockId b)"

definition isCurrent :: "generated_summary list \<Rightarrow> prune_block \<Rightarrow> bool" where
  "isCurrent summaries b =
     (case summaryFor summaries b of Some g \<Rightarrow> gs_sourceSnapshot g = snapshotContextBlock b | None \<Rightarrow> False)"

definition keepCurrent :: "generated_summary list \<Rightarrow> context_block_selection \<Rightarrow> context_block_selection" where
  "keepCurrent summaries sel =
     sel\<lparr>sl_eligible := filter (isCurrent summaries) (sl_eligible sel),
         sl_staleBlocks := sl_staleBlocks sel @ filter (\<lambda>b. \<not> isCurrent summaries b) (sl_eligible sel)\<rparr>"

definition applySummary :: "(nat \<Rightarrow> nat \<Rightarrow> world) \<Rightarrow> generated_summary list \<Rightarrow> nat \<Rightarrow> prune_block \<Rightarrow> (unit, 'w) curation" where
  "applySummary w summaries i b =
     setBlockSummary (w i) (pb_entryIds b) (case summaryFor summaries b of Some g \<Rightarrow> gs_summary g | None \<Rightarrow> [])"

text \<open>The body of the \<open>try\<close>.\<close>

definition summarizeSelection ::
  "'w curation_env \<Rightarrow> model_info \<Rightarrow> context_block_selection \<Rightarrow> (context_block_selection, 'w) curation" where
  "summarizeSelection env model sel =
     eff_bind (awaitCall (ci_await env) (ci_auth env model)) (\<lambda>requestModel.
       eff_bind (summarizeCandidates env requestModel (sl_eligible sel) sel) (\<lambda>(sel1, summaries).
         eff_bind (refreshContextBlockSelection sel1) (\<lambda>sel2.
           let sel3 = keepCurrent summaries sel2
           in eff_bind (eff_forEach 0 (applySummary (ci_worlds env) summaries) (sl_eligible sel3)) (\<lambda>_.
                eff_return sel3))))"

definition catchSummarization :: "('a, 'w) curation \<Rightarrow> ('a, 'w) curation" where
  "catchSummarization m s =
     map_option (\<lambda>(r, s'). (case r of
          Inl err \<Rightarrow> Inl (JsError (''Block summarization failed; no blocks were changed: '' @ errorText err))
        | Inr x \<Rightarrow> Inr x, s'))
       (m s)"

definition summarizeContext :: "'w curation_env \<Rightarrow> string list \<Rightarrow> (string, 'w) curation" where
  "summarizeContext env rawIds =
     eff_bind (selectContextBlocks rawIds) (\<lambda>sel.
       if sl_eligible sel = [] then eff_lift (formatContextCurationResult SummarizedAction sel)
       else eff_bind (eff_lift (ci_model env)) (\<lambda>model.
              eff_bind (catchSummarization (summarizeSelection env model sel)) (\<lambda>sel'.
                eff_bind (if sl_eligible sel' \<noteq> [] then resetStatus else eff_return ()) (\<lambda>_.
                  eff_lift (formatContextCurationResult SummarizedAction sel')))))"

end
