(* ===== verification/Curation_Properties.thy ===== *)
theory Curation_Properties
  imports Context_Curation Compaction_Session
begin

text \<open>
  What the context tools do to the session: which entries they change, that nothing else of the context changes,
  and that recent blocks are protected.
\<close>

section \<open>The projection after a batch of edits\<close>

definition isEdit :: "session_entry \<Rightarrow> bool" where
  "isEdit e \<longleftrightarrow> (\<exists>t r c. e_data e = ContextEditEntry t r c)"

definition targetsOf :: "session_entry list \<Rightarrow> string set" where
  "targetsOf es = (\<Union>e \<in> set es. set_option (dataTarget (e_data e)))"

lemma targetsOf_simps [simp]:
  "targetsOf [] = {}" "targetsOf (es @ es') = targetsOf es \<union> targetsOf es'"
  "targetsOf (e # es) = set_option (dataTarget (e_data e)) \<union> targetsOf es"
  by (auto simp: targetsOf_def)

lemma compactPath_edits: "list_all isEdit new \<Longrightarrow> compactPath (path @ new) = compactPath path @ new"
proof (induction new rule: rev_induct)
  case (snoc e new)
  then have "\<not> isCompaction e" by (auto simp: isEdit_def isCompaction_def)
  then show ?case using snoc compactPath_snoc [of e "path @ new"] by simp
qed simp

lemma projectEntries_edits: "list_all isEdit new \<Longrightarrow> projectEntries c (es @ new) = projectEntries c es @ map (projectOne c) new"
proof (induction new rule: rev_induct)
  case (snoc e new)
  then have "\<not> isCompaction e" by (auto simp: isEdit_def isCompaction_def)
  then show ?case using snoc projectEntries_snoc [of e c "es @ new"] by simp
qed simp

lemma edits_other: "t \<notin> targetsOf new \<Longrightarrow> map_of (fold applyContextEdit new c) t = map_of c t"
  by (induction new arbitrary: c)
     (auto simp: applyContextEdit_def dataTarget_def update_conv' delete_conv' split: entry_data.splits)

lemma edits_target:
  "list_all isEdit new \<Longrightarrow> t \<in> targetsOf new \<Longrightarrow>
   \<exists>e \<in> set new. map_of (fold applyContextEdit new c) t = Some e \<and> dataTarget (e_data e) = Some t"
proof (induction new rule: rev_induct)
  case (snoc e new)
  then obtain t' r cu where e: "e_data e = ContextEditEntry t' r cu" by (auto simp: isEdit_def)
  show ?case
  proof (cases "t = t'")
    case False
    then have "t \<in> targetsOf new" using snoc.prems e by (simp add: dataTarget_def)
    then show ?thesis using snoc False e by (auto simp: applyContextEdit_def update_conv')
  qed (auto simp: e applyContextEdit_def update_conv' dataTarget_def)
qed simp

lemma projectPath_edits:
  assumes "list_all isEdit new" and "\<forall>e \<in> set new. e_id e \<notin> targetsOf new \<and> map_of (changesOf l path) (e_id e) = None"
  shows "sp_entries (projectPath l (path @ new)) =
         projectEntries (changesOf l (path @ new)) (compactPath path) @ map (\<lambda>e. \<lparr>pe_source = e, pe_messages = []\<rparr>) new"
proof -
  have "projectOne (changesOf l (path @ new)) e = \<lparr>pe_source = e, pe_messages = []\<rparr>" if "e \<in> set new" for e
  proof -
    have "isEdit e" using assms(1) that by (simp add: list_all_iff)
    then show ?thesis using assms(2) that edits_other [of "e_id e" new]
      by (auto simp: projectOne_def projectContextEntry_def isEdit_def sessionEntryToContextMessages_def)
  qed
  then show ?thesis by (simp add: projectPath_entries compactPath_edits [OF assms(1)] projectEntries_edits [OF assms(1)])
qed

text \<open>Entries outside a set of targets keep what they contribute.\<close>

definition sameOutside :: "string set \<Rightarrow> projected_entry list \<Rightarrow> projected_entry list \<Rightarrow> bool" where
  "sameOutside T pes pes' \<longleftrightarrow>
     list_all2 (\<lambda>pe pe'. pe_source pe = pe_source pe' \<and> (e_id (pe_source pe) \<notin> T \<longrightarrow> pe = pe')) pes pes'"

lemma projectEntries_sameOutside:
  assumes "\<And>k. k \<notin> T \<Longrightarrow> map_of c k = map_of c' k"
  shows "sameOutside T (projectEntries c es) (projectEntries c' es)"
  using assms by (cases es) (auto simp: sameOutside_def projectOne_def list.rel_map intro!: list.rel_refl)

lemma sameOutside_silent:
  assumes "sameOutside T pes pes'" and "\<And>pe. pe \<in> set pes' \<Longrightarrow> e_id (pe_source pe) \<in> T \<Longrightarrow> pe_messages pe = []"
  shows "concat (map pe_messages pes') = concat (map pe_messages (filter (\<lambda>pe. e_id (pe_source pe) \<notin> T) pes))"
  using assms unfolding sameOutside_def
proof (induction pes pes' rule: list_all2_induct)
  case (Cons pe pes pe' pes')
  then have "concat (map pe_messages pes') = concat (map pe_messages (filter (\<lambda>pe. e_id (pe_source pe) \<notin> T) pes))" by simp
  then show ?case using Cons.hyps(1) Cons.prems [of pe'] by (cases "e_id (pe_source pe) \<in> T") simp_all
qed simp

definition isExclusion :: "session_entry \<Rightarrow> bool" where
  "isExclusion e \<longleftrightarrow> (\<exists>t c. e_data e = ContextEditEntry t None c)"

lemma exclusions_project:
  assumes "list_all isExclusion new" and "\<forall>e \<in> set new. e_id e \<notin> targetsOf new \<and> map_of (changesOf l path) (e_id e) = None"
  shows "sp_messages (projectPath l (path @ new)) =
         concat (map pe_messages (filter (\<lambda>pe. e_id (pe_source pe) \<notin> targetsOf new) (sp_entries (projectPath l path))))"
proof -
  let ?c' = "changesOf l (path @ new)" and ?es = "compactPath path"
  have ed: "list_all isEdit new" using assms(1) by (auto simp: list_all_iff isExclusion_def isEdit_def)
  have "pe_messages pe = []" if m: "pe \<in> set (projectEntries ?c' ?es)" and t: "e_id (pe_source pe) \<in> targetsOf new" for pe
  proof -
    obtain e where e: "e \<in> set new" "map_of ?c' (e_id (pe_source pe)) = Some e"
      using edits_target [OF ed t, of "changesOf l path"] by auto
    then have "isExclusion e" using assms(1) by (simp add: list_all_iff)
    then have "projectContextEntry (pe_source pe) (map_of ?c' (e_id (pe_source pe))) = []"
      unfolding e(2) by (auto simp: isExclusion_def projectContextEntry_def Let_def)
    moreover have "pe_messages pe = [] \<or> pe_messages pe = projectContextEntry (pe_source pe) (map_of ?c' (e_id (pe_source pe)))"
      using projectEntries_member [OF m] by (metis projectOne_def projected_entry.select_convs(2))
    ultimately show ?thesis by auto
  qed
  moreover have "sameOutside (targetsOf new) (projectEntries (changesOf l path) ?es) (projectEntries ?c' ?es)"
    by (rule projectEntries_sameOutside) (simp add: edits_other)
  ultimately have "concat (map pe_messages (projectEntries ?c' ?es)) =
        concat (map pe_messages (filter (\<lambda>pe. e_id (pe_source pe) \<notin> targetsOf new) (projectEntries (changesOf l path) ?es)))"
    by (intro sameOutside_silent) blast+
  then show ?thesis unfolding projectPath_messages projectPath_edits [OF ed assms(2)] by (simp add: projectPath_entries comp_def)
qed

section \<open>Changing blocks\<close>

text \<open>The entry a change appends.\<close>

definition changeOf :: "context_change \<Rightarrow> entry_data \<Rightarrow> bool" where
  "changeOf ch d \<longleftrightarrow>
     (\<exists>r. d = ContextEditEntry (cc_targetId ch) r (cc_state ch = Summarized) \<and> (cc_summary ch = None \<longrightarrow> r = None))"

definition changeable :: "session_entry list \<Rightarrow> context_change \<Rightarrow> bool" where
  "changeable path ch \<longleftrightarrow>
     cc_state ch \<noteq> Included \<and> (\<exists>e \<in> set path. e_id e = cc_targetId ch \<and> visibleEntry e)"

lemma changeable_mono: "changeable path ch \<Longrightarrow> changeable (path @ new) ch"
  by (auto simp: changeable_def)

lemma target_on_branch:
  assumes inv: "smInv sm" and b: "getBranch None sm = Some path" and e: "e \<in> set path" "visibleEntry e"
  shows "contextEditTargetOn (e_id e) (map e_id path) sm = Inr e"
proof -
  have c: "coreInv sm" using inv by (simp add: smInv_def)
  have "set path \<subseteq> set (getEntries sm)" using getBranch_total [OF c] b by (metis option.inject subseq_set)
  from sample_target [OF inv b e(1) this] e(2) have "getContextEditTarget (e_id e) sm = Some (Inr e)" by (simp add: visibleEntry_def)
  then show ?thesis using b by (simp add: getContextEditTarget_def split: if_splits)
qed

lemma validate_changeable:
  assumes "smInv sm" and "getBranch None sm = Some path" and "changeable path ch"
  shows "\<exists>d. validateChange (map e_id path) sm ch = Inr d \<and> changeOf ch d"
proof -
  obtain e where e: "e \<in> set path" "e_id e = cc_targetId ch" "visibleEntry e" using assms(3) by (auto simp: changeable_def)
  have t: "contextEditTargetOn (cc_targetId ch) (map e_id path) sm = Inr e"
    using target_on_branch [OF assms(1,2) e(1,3)] by (simp add: e(2))
  show ?thesis using assms(3)
    by (cases "cc_state ch"; cases "cc_summary ch")
       (auto simp: validateChange_def t changeable_def changeOf_def normalizeReplacement_def Let_def)
qed

lemma validate_all:
  assumes "smInv sm" and "getBranch None sm = Some path" and "\<forall>ch \<in> set chs. changeable path ch"
  obtains ds where "js_map (validateChange (map e_id path) sm) chs = Inr ds" "list_all2 changeOf chs ds"
proof -
  have "\<exists>ds. js_map (validateChange (map e_id path) sm) chs = Inr ds \<and> list_all2 changeOf chs ds"
    using assms(3)
  proof (induction chs)
    case (Cons ch chs)
    then obtain ds where ds: "js_map (validateChange (map e_id path) sm) chs = Inr ds" "list_all2 changeOf chs ds" by auto
    obtain d where "validateChange (map e_id path) sm ch = Inr d" "changeOf ch d"
      using validate_changeable [OF assms(1,2)] Cons.prems by auto
    with ds show ?case by (intro exI [of _ "d # ds"]) simp
  qed simp
  with that show thesis by blast
qed

lemma batch_run:
  assumes inv: "smInv sm" and b: "getBranch None sm = Some path" and ne: "chs \<noteq> []"
    and ok: "\<forall>ch \<in> set chs. changeable path ch" and fresh: "freshBatch w chs sm"
  obtains new sm' where "appendContextChanges w chs sm = Some (Inr (map e_id new), sm')" "plainStep sm sm'"
    "getEntries sm' = getEntries sm @ new" "getBranch None sm' = Some (path @ new)" "list_all2 changeOf chs (map e_data new)"
proof -
  have c: "coreInv sm" using inv by (simp add: smInv_def)
  obtain ds where ds: "js_map (validateChange (map e_id path) sm) chs = Inr ds" "list_all2 changeOf chs ds"
    by (rule validate_all [OF inv b ok])
  have "freshRun w 0 ds sm" using fresh b ds(1) by (simp add: freshBatch_def)
  from appendValidated_run [OF inv validated_plain [OF c ds(1)] this] obtain new sm' where
    "appendValidated w 0 ds sm = (Inr (map e_id new), sm')" "plainStep sm sm'" "getEntries sm' = getEntries sm @ new"
    "map e_data new = ds" "getBranch None sm' = map_option (\<lambda>p. p @ new) (getBranch None sm)" by blast
  then show thesis using that [of new sm'] ne b ds by (simp add: appendContextChanges_def)
qed

definition changeBlock :: "(nat \<Rightarrow> world) \<Rightarrow> context_change list \<Rightarrow> (unit, 'w) curation" where
  "changeBlock w chs = eff_bind (cur_manage (appendContextChanges w chs)) (\<lambda>_. contextChanged)"

fun freshLoop :: "(nat \<Rightarrow> nat \<Rightarrow> world) \<Rightarrow> nat \<Rightarrow> context_change list list \<Rightarrow> session_manager \<Rightarrow> bool" where
  "freshLoop w i [] sm \<longleftrightarrow> True"
| "freshLoop w i (chs # css) sm \<longleftrightarrow>
     freshBatch (w i) chs sm \<and>
     (case appendContextChanges (w i) chs sm of Some (_, sm') \<Rightarrow> freshLoop w (Suc i) css sm' | None \<Rightarrow> True)"

lemma session_messages:
  assumes "smInv sm" and "getBranch None sm = Some path"
  shows "\<exists>ctx. sm_buildSessionContext sm = Some ctx \<and> sc_messages ctx = sp_messages (projectPath (legacyPruneChanges sm) path)"
proof -
  have "coreInv sm" using assms(1) by (simp add: smInv_def)
  then have "sm_buildSessionProjection sm = Some (projectPath (legacyPruneChanges sm) path)"
    using assms(2) by (simp add: projection_of_branch)
  then show ?thesis by (auto simp: sm_buildSessionContext_def buildSessionContext_def sm_buildSessionProjection_def)
qed

text \<open>What a loop over blocks leaves: the branch with the edits behind it, and the agent's messages up to date.\<close>

definition changedBy :: "context_change list \<Rightarrow> 'w curated_session \<Rightarrow> 'w curated_session \<Rightarrow> bool" where
  "changedBy chs s s' \<longleftrightarrow>
     (\<exists>path new. plainStep (cur_manager s) (cur_manager s') \<and>
        getEntries (cur_manager s') = getEntries (cur_manager s) @ new \<and>
        getBranch None (cur_manager s) = Some path \<and> getBranch None (cur_manager s') = Some (path @ new) \<and>
        list_all2 changeOf chs (map e_data new) \<and>
        cur_messages s' = (if chs = [] then cur_messages s
                           else sp_messages (projectPath (legacyPruneChanges (cur_manager s)) (path @ new))))"

lemma changeBlock_run:
  assumes inv: "smInv (cur_manager s)" and b: "getBranch None (cur_manager s) = Some path" and ne: "chs \<noteq> []"
    and ok: "\<forall>ch \<in> set chs. changeable path ch" and fresh: "freshBatch w chs (cur_manager s)"
  obtains s' where "changeBlock w chs s = Some (Inr (), s')" "changedBy chs s s'"
    "\<exists>r. appendContextChanges w chs (cur_manager s) = Some (r, cur_manager s')"
proof -
  obtain new sm' where sm': "appendContextChanges w chs (cur_manager s) = Some (Inr (map e_id new), sm')"
    "plainStep (cur_manager s) sm'" "getEntries sm' = getEntries (cur_manager s) @ new"
    "getBranch None sm' = Some (path @ new)" "list_all2 changeOf chs (map e_data new)"
    by (rule batch_run [OF inv b ne ok fresh])
  have p: "smInv sm'" "legacyPruneChanges sm' = legacyPruneChanges (cur_manager s)" using sm'(2) by (simp_all add: plainStep_def)
  obtain ctx where ctx: "sm_buildSessionContext sm' = Some ctx"
    "sc_messages ctx = sp_messages (projectPath (legacyPruneChanges (cur_manager s)) (path @ new))"
    using session_messages [OF p(1) sm'(4)] by (auto simp: p(2))
  let ?s = "s\<lparr>cur_manager := sm', cur_messages := sc_messages ctx, cur_pruneHappenedThisTurn := True,
              cur_pruneSkipNextCompactionCheck := True\<rparr>"
  have "changedBy chs s ?s" unfolding changedBy_def using sm'(2-) b ctx(2) ne by (intro exI [of _ path] exI [of _ new]) simp
  moreover have "changeBlock w chs s = Some (Inr (), ?s)"
    by (simp add: changeBlock_def eff_bind_def cur_manage_def sm'(1) contextChanged_def ctx(1))
  ultimately show thesis using that [of ?s] sm'(1) by simp
qed

lemma changedBy_append:
  assumes "changedBy chs s s1" and "changedBy chs' s1 s2"
  shows "changedBy (chs @ chs') s s2"
proof -
  obtain path new where 1: "plainStep (cur_manager s) (cur_manager s1)"
    "getEntries (cur_manager s1) = getEntries (cur_manager s) @ new" "getBranch None (cur_manager s) = Some path"
    "getBranch None (cur_manager s1) = Some (path @ new)" "list_all2 changeOf chs (map e_data new)"
    "cur_messages s1 = (if chs = [] then cur_messages s
       else sp_messages (projectPath (legacyPruneChanges (cur_manager s)) (path @ new)))"
    using assms(1) by (auto simp: changedBy_def)
  obtain new' where 2: "plainStep (cur_manager s1) (cur_manager s2)"
    "getEntries (cur_manager s2) = getEntries (cur_manager s1) @ new'"
    "getBranch None (cur_manager s2) = Some ((path @ new) @ new')" "list_all2 changeOf chs' (map e_data new')"
    "cur_messages s2 = (if chs' = [] then cur_messages s1
       else sp_messages (projectPath (legacyPruneChanges (cur_manager s1)) ((path @ new) @ new')))"
    using assms(2) 1(4) by (auto simp: changedBy_def)
  have "legacyPruneChanges (cur_manager s1) = legacyPruneChanges (cur_manager s)" using 1(1) by (simp add: plainStep_def)
  moreover have "chs' = [] \<Longrightarrow> new' = []" using 2(4) by simp
  moreover have "plainStep (cur_manager s) (cur_manager s2)" using plainStep_trans [OF 1(1) 2(1)] .
  ultimately show ?thesis unfolding changedBy_def using 1 2
    by (intro exI [of _ path] exI [of _ "new @ new'"]) (auto intro: list_all2_appendI)
qed

lemma changedBy_refl: "smInv (cur_manager s) \<Longrightarrow> getBranch None (cur_manager s) = Some path \<Longrightarrow> changedBy [] s s"
  by (auto simp: changedBy_def plainStep_refl)

lemma forEach_run:
  assumes "smInv (cur_manager s)" and "getBranch None (cur_manager s) = Some path"
    and "\<forall>b \<in> set bs. chs b \<noteq> [] \<and> (\<forall>ch \<in> set (chs b). changeable path ch)"
    and "freshLoop w i (map chs bs) (cur_manager s)"
  shows "\<exists>s'. eff_forEach i (\<lambda>i b. changeBlock (w i) (chs b)) bs s = Some (Inr (), s') \<and> changedBy (concat (map chs bs)) s s'"
  using assms
proof (induction bs arbitrary: i s path)
  case Nil
  then show ?case using changedBy_refl [OF Nil.prems(1,2)] by (simp add: eff_return_def)
next
  case (Cons b bs)
  obtain s1 where s1: "changeBlock (w i) (chs b) s = Some (Inr (), s1)" "changedBy (chs b) s s1"
    "\<exists>r. appendContextChanges (w i) (chs b) (cur_manager s) = Some (r, cur_manager s1)"
    by (rule changeBlock_run [OF Cons.prems(1,2), of "chs b" "w i"]) (use Cons.prems in simp_all)
  from s1(2) Cons.prems(2) obtain new where n: "plainStep (cur_manager s) (cur_manager s1)" "getBranch None (cur_manager s1) = Some (path @ new)"
    by (auto simp: changedBy_def)
  have "\<exists>s'. eff_forEach (Suc i) (\<lambda>i b. changeBlock (w i) (chs b)) bs s1 = Some (Inr (), s') \<and> changedBy (concat (map chs bs)) s1 s'"
  proof (rule Cons.IH [OF _ n(2)])
    show "smInv (cur_manager s1)" using n(1) by (simp add: plainStep_def)
    show "\<forall>b \<in> set bs. chs b \<noteq> [] \<and> (\<forall>ch \<in> set (chs b). changeable (path @ new) ch)"
      using Cons.prems(3) by (auto intro: changeable_mono)
    show "freshLoop w (Suc i) (map chs bs) (cur_manager s1)" using Cons.prems(4) s1(3) by auto
  qed
  then show ?case using s1(1) changedBy_append [OF s1(2)] by (auto simp: eff_bind_def)
qed

section \<open>The inventory\<close>

lemma keptBefore_subseq: "subseq (keptBefore k b es) es"
  by (induction es arbitrary: b) (auto simp: Let_def)

lemma compactPath_distinct:
  assumes "distinct (map e_id path)"
  shows "distinct (map e_id (compactPath path))"
  using assms
proof (cases rule: compactPath_cases)
  case (compacted pre c post k)
  have "subseq (keptBefore k False pre @ post) (pre @ post)" by (intro list_emb_append_mono keptBefore_subseq) simp
  moreover have d: "distinct (map e_id (pre @ post))" "e_id c \<notin> ids (pre @ post)" using assms compacted(1) by auto
  ultimately have "distinct (map e_id (keptBefore k False pre @ post))" by (metis subseq_distinct_map)
  then show ?thesis using d(2) keptBefore_subset [of k False pre] by (auto simp: compacted(4))
qed (use assms in simp)

lemma distinct_concat_filter: "distinct (concat (map f xs)) \<Longrightarrow> distinct (concat (map f (filter P xs)))"
  by (induction xs) auto

lemma distinct_map_hd: "distinct (concat (map f xs)) \<Longrightarrow> \<forall>x \<in> set xs. f x \<noteq> [] \<Longrightarrow> distinct (map (\<lambda>x. hd (f x)) xs)"
proof (induction xs)
  case (Cons x xs)
  have "hd (f y) \<in> set (f y)" if "y \<in> set (x # xs)" for y using Cons.prems(2) that by auto
  then have "hd (f x) \<in> set (f x)" "hd (f y) \<in> set (f y)" if "y \<in> set xs" for y using that by simp_all
  then have "hd (f x) \<noteq> hd (f y)" if "y \<in> set xs" for y using Cons.prems(1) that by (fastforce simp: disjoint_iff)
  then show ?case using Cons by auto
qed simp

lemma effectiveBlock_ids [simp]: "pb_entryIds (effectiveBlock f b) = pb_entryIds b"
  by (simp add: effectiveBlock_def)

definition inventoryOk :: "session_entry list \<Rightarrow> inventory \<Rightarrow> bool" where
  "inventoryOk path iv \<longleftrightarrow>
     distinct (concat (map pb_entryIds (fst iv))) \<and> set (snd iv) \<subseteq> blockId ` set (fst iv) \<and>
     (\<forall>b \<in> set (fst iv). pb_entryIds b \<noteq> [] \<and> (\<forall>t \<in> set (pb_entryIds b). t \<noteq> [] \<and> (\<exists>e \<in> set path. e_id e = t \<and> visibleEntry e)))"

lemma inventoryOf_parts:
  "set (fst (inventoryOf vs es)) \<subseteq> set vs" "\<exists>P. fst (inventoryOf vs es) = filter P vs"
  "set (snd (inventoryOf vs es)) \<subseteq> blockId ` set (fst (inventoryOf vs es))"
proof -
  have "set (fold setAdd xs ys) = set xs \<union> set ys" for xs ys :: "string list" by (induction xs arbitrary: ys) auto
  then show "set (snd (inventoryOf vs es)) \<subseteq> blockId ` set (fst (inventoryOf vs es))" by (auto simp: inventoryOf_def Let_def)
qed (auto simp: inventoryOf_def Let_def)

lemma inventory_run:
  assumes inv: "smInv sm" and b: "getBranch None sm = Some path"
    and run: "getContextBlockInventory sm = Some (r, sm1)"
  shows "smInv sm1" "sm1 = sm\<lparr>contextChangesCache := contextChangesCache sm1\<rparr>" "r = Inr iv \<Longrightarrow> inventoryOk path iv"
proof -
  let ?pes = "sp_entries (projectPath (legacyPruneChanges sm) path)"
  let ?es = "map pe_source (filter (\<lambda>pe. pe_messages pe \<noteq> []) ?pes)"
  have c: "coreInv sm" using inv by (simp add: smInv_def)
  have proj: "sm_buildSessionProjection sm = Some (projectPath (legacyPruneChanges sm) path)"
    by (simp add: projection_of_branch [OF c] b)
  obtain path' sm' where q: "getContextChanges sm = Some (changesOf (legacyPruneChanges sm) path', sm')" "smInv sm'"
    "sm' = sm\<lparr>contextChangesCache := contextChangesCache sm'\<rparr>" by (rule getContextChanges_correct [OF inv])
  show "smInv sm1" "sm1 = sm\<lparr>contextChangesCache := contextChangesCache sm1\<rparr>"
    using run inv q proj
    by (auto simp: getContextBlockInventory_def Let_def sm_buildContextEntries_def bind_eq_Some_conv split: sum.splits)
  assume "r = Inr iv"
  then obtain bs f es where bs: "groupPruneBlocks ?es = Inr bs" and iv: "iv = inventoryOf (map (effectiveBlock f) bs) es"
    using run proj by (auto simp: getContextBlockInventory_def Let_def bind_eq_Some_conv split: sum.splits)
  have g: "blocksOk bs" "concat (map pb_entries bs) = filter visibleEntry ?es"
    using groupFrom_ok [of "[]" ?es] bs by (auto simp: groupPruneBlocks_def blocksOk_def split: sum.splits)
  have bo: "pb_entryIds x = map e_id (pb_entries x)" "pb_entries x \<noteq> []" if "x \<in> set bs" for x
    using g(1) that by (auto simp: blocksOk_def blockOk_def list_all_iff)
  have path: "distinct (map e_id path)" "set path \<subseteq> set (getEntries sm)"
    using getBranch_total [OF c] b by (metis option.inject, metis option.inject subseq_set)
  have sub: "subseq (filter visibleEntry ?es) (compactPath path)"
  proof -
    have "subseq ?es (map pe_source ?pes)" by (intro subseq_map subseq_filter_left)
    then have "subseq ?es (compactPath path)" by (simp add: projectPath_entries)
    then show ?thesis by (metis subseq_filter_left subseq_order.trans)
  qed
  have ids: "concat (map pb_entryIds bs) = map e_id (concat (map pb_entries bs))"
    using bo(1) by (induction bs) auto
  then have "distinct (concat (map pb_entryIds bs))"
    unfolding g(2) using subseq_distinct_map [OF sub compactPath_distinct [OF path(1)]] by simp
  then have d: "distinct (concat (map pb_entryIds (map (effectiveBlock f) bs)))" by (simp add: comp_def)
  obtain P where P: "fst iv = filter P (map (effectiveBlock f) bs)" using inventoryOf_parts(2) iv by metis
  have tgt: "t \<noteq> [] \<and> (\<exists>e \<in> set path. e_id e = t \<and> visibleEntry e)" if x: "x \<in> set bs" and t: "t \<in> set (pb_entryIds x)" for x t
  proof -
    obtain e where e: "e \<in> set (pb_entries x)" "t = e_id e" using bo(1) [OF x] t by auto
    then have "e \<in> set (filter visibleEntry ?es)" using g(2) x by (metis (no_types, lifting) UN_I set_concat set_map image_eqI)
    then have "e \<in> set (compactPath path)" "visibleEntry e" using subseq_set [OF sub] by auto
    then have "e \<in> set path" using compactPath_subset by blast
    moreover have "e_id e \<noteq> []" using \<open>e \<in> set path\<close> path(2) wfEntries_id_nonempty [OF coreInv_wf [OF c]] by blast
    ultimately show ?thesis using \<open>visibleEntry e\<close> e(2) by auto
  qed
  have blocks: "pb_entryIds x \<noteq> [] \<and> (\<forall>t \<in> set (pb_entryIds x). t \<noteq> [] \<and> (\<exists>e \<in> set path. e_id e = t \<and> visibleEntry e))"
    if "x \<in> set (fst iv)" for x
  proof -
    from that obtain y where y: "y \<in> set bs" "x = effectiveBlock f y" by (auto simp: P)
    have "pb_entryIds y \<noteq> []" using bo [OF y(1)] by simp
    then show ?thesis using tgt [OF y(1)] by (simp only: y(2) effectiveBlock_ids) blast
  qed
  have "distinct (concat (map pb_entryIds (fst iv)))" using distinct_concat_filter [OF d, of P] by (simp only: P)
  moreover have "set (snd iv) \<subseteq> blockId ` set (fst iv)" using inventoryOf_parts(3) iv by simp
  ultimately show "inventoryOk path iv" unfolding inventoryOk_def using blocks by simp
qed

section \<open>The selection\<close>

lemma blocksById_iff:
  assumes "inventoryOk path iv"
  shows "blocksById (fst iv) i = Some b \<longleftrightarrow> b \<in> set (fst iv) \<and> blockId b = i"
proof -
  have "distinct (map blockId (fst iv))"
    by (rule distinct_map_hd) (use assms in \<open>auto simp: inventoryOk_def\<close>)
  then have "distinct (map fst (rev (map (\<lambda>b. (blockId b, b)) (fst iv))))" by (simp add: rev_map [symmetric] comp_def)
  from map_of_eq_Some_iff [OF this] show ?thesis by (auto simp: blocksById_def jsMapGet_def)
qed

lemma selectIds_fixed:
  "sl_blocks (selectIds seen rs sel) = sl_blocks sel" "sl_protectedIds (selectIds seen rs sel) = sl_protectedIds sel"
  by (induction seen rs sel rule: selectIds.induct) (auto simp: Let_def split: option.splits)

lemma selectIds_eligible:
  "set (sl_eligible (selectIds seen rs sel)) =
     set (sl_eligible sel) \<union>
     {b. \<exists>i \<in> trim ` set rs. i \<noteq> [] \<and> i \<notin> set seen \<and> blocksById (sl_blocks sel) i = Some b \<and> i \<notin> set (sl_protectedIds sel)}"
proof (induction seen rs sel rule: selectIds.induct)
  case (2 seen r rs sel)
  show ?case
  proof (cases "trim r = [] \<or> trim r \<in> set seen")
    case True
    then show ?thesis using 2(1) by (auto simp: Let_def)
  next
    case False
    let ?sel = "case blocksById (sl_blocks sel) (trim r) of
        None \<Rightarrow> sel\<lparr>sl_unknown := sl_unknown sel @ [trim r]\<rparr>
      | Some b \<Rightarrow> if trim r \<in> set (sl_protectedIds sel) then sel\<lparr>sl_protectedBlocks := sl_protectedBlocks sel @ [b]\<rparr>
                  else sel\<lparr>sl_eligible := sl_eligible sel @ [b]\<rparr>"
    have f: "sl_blocks ?sel = sl_blocks sel" "sl_protectedIds ?sel = sl_protectedIds sel" by (auto split: option.splits)
    have e: "set (sl_eligible ?sel) = set (sl_eligible sel) \<union>
        {b. blocksById (sl_blocks sel) (trim r) = Some b \<and> trim r \<notin> set (sl_protectedIds sel)}" by (auto split: option.splits)
    have "selectIds seen (r # rs) sel = selectIds (trim r # seen) rs ?sel" using False by (simp add: Let_def)
    moreover have "set (sl_eligible (selectIds (trim r # seen) rs ?sel)) = set (sl_eligible ?sel) \<union>
      {b. \<exists>i \<in> trim ` set rs. i \<noteq> [] \<and> i \<notin> set (trim r # seen) \<and> blocksById (sl_blocks sel) i = Some b \<and> i \<notin> set (sl_protectedIds sel)}"
      using 2(2) [OF refl False] by (simp only: f)
    ultimately show ?thesis using False e by auto
  qed
qed auto

abbreviation selection :: "string list \<Rightarrow> inventory \<Rightarrow> context_block_selection" where
  "selection rawIds iv \<equiv> selectIds [] rawIds (startSelection iv)"

text \<open>The entries of the requested blocks that are not protected.\<close>

definition requestedIds :: "string list \<Rightarrow> inventory \<Rightarrow> string set" where
  "requestedIds rawIds iv =
     {t. \<exists>b \<in> set (fst iv). blockId b \<in> trim ` set rawIds \<and> blockId b \<notin> set (snd iv) \<and> t \<in> set (pb_entryIds b)}"

lemma selection_eligible:
  assumes "inventoryOk path iv"
  shows "set (sl_eligible (selection rawIds iv)) =
           {b \<in> set (fst iv). blockId b \<in> trim ` set rawIds \<and> blockId b \<notin> set (snd iv)}"
proof -
  have "blockId b \<noteq> []" if "b \<in> set (fst iv)" for b
    using assms that hd_in_set [of "pb_entryIds b"] by (auto simp: inventoryOk_def)
  then have "blockId b = trim r \<Longrightarrow> b \<in> set (fst iv) \<Longrightarrow> trim r \<noteq> []" for b r by metis
  then show ?thesis
    using blocksById_iff [OF assms] by (auto simp: selectIds_eligible startSelection_def) blast
qed

lemma selection_ids:
  assumes "inventoryOk path iv"
  shows "(\<Union>b \<in> set (sl_eligible (selection rawIds iv)). set (pb_entryIds b)) = requestedIds rawIds iv"
  by (auto simp: selection_eligible [OF assms] requestedIds_def)

lemma requested_unprotected:
  assumes "inventoryOk path iv" and "b \<in> set (fst iv)" and "blockId b \<in> set (snd iv)"
  shows "requestedIds rawIds iv \<inter> set (pb_entryIds b) = {}"
proof -
  have "set (pb_entryIds b') \<inter> set (pb_entryIds b) = {}" if "b' \<in> set (fst iv)" "b' \<noteq> b" for b'
  proof -
    have d: "distinct (concat (map pb_entryIds (fst iv)))" using assms(1) by (simp add: inventoryOk_def)
    have "pb_entryIds b \<noteq> pb_entryIds b'"
      using that assms(2) blocksById_iff [OF assms(1)] by (metis option.inject)
    then show ?thesis using d that(1) assms(2) by (force simp: distinct_concat_iff)
  qed
  then show ?thesis using assms(3) by (fastforce simp: requestedIds_def)
qed

section \<open>Pruning\<close>

lemma cache_irrelevant [simp]:
  "getBranch j (sm\<lparr>contextChangesCache := c\<rparr>) = getBranch j sm"
  "sm_buildSessionProjection (sm\<lparr>contextChangesCache := c\<rparr>) = sm_buildSessionProjection sm"
  "getEntries (sm\<lparr>contextChangesCache := c\<rparr>) = getEntries sm"
  by (simp_all add: getBranch_def sm_buildSessionProjection_def getEntries_def Let_def cong: option.case_cong if_cong)

lemma changedBy_targets: "list_all2 changeOf chs (map e_data new) \<Longrightarrow> targetsOf new = cc_targetId ` set chs \<and> list_all isEdit new"
proof (induction chs arbitrary: new)
  case (Cons ch chs)
  then obtain e new' where n: "new = e # new'" "changeOf ch (e_data e)" "list_all2 changeOf chs (map e_data new')"
    by (auto simp: list_all2_Cons1)
  from Cons.IH [OF n(3)] n(2) show ?case unfolding n(1) by (auto simp: changeOf_def dataTarget_def isEdit_def)
qed simp

lemma changed_projection:
  assumes inv: "smInv (cur_manager s)" and ch: "changedBy chs s s'" and t: "cc_targetId ` set chs \<subseteq> ids (getEntries (cur_manager s))"
  obtains path new where "getBranch None (cur_manager s) = Some path" "list_all2 changeOf chs (map e_data new)"
    "sm_buildSessionProjection (cur_manager s) = Some (projectPath (legacyPruneChanges (cur_manager s)) path)"
    "sm_buildSessionProjection (cur_manager s') = Some (projectPath (legacyPruneChanges (cur_manager s)) (path @ new))"
    "\<forall>e \<in> set new. e_id e \<notin> targetsOf new \<and> map_of (changesOf (legacyPruneChanges (cur_manager s)) path) (e_id e) = None"
    "cur_messages s' = (if chs = [] then cur_messages s
                        else sp_messages (projectPath (legacyPruneChanges (cur_manager s)) (path @ new)))"
    "smInv (cur_manager s')" "getEntries (cur_manager s') = getEntries (cur_manager s) @ new"
proof -
  obtain path new where c: "plainStep (cur_manager s) (cur_manager s')"
    "getEntries (cur_manager s') = getEntries (cur_manager s) @ new" "getBranch None (cur_manager s) = Some path"
    "getBranch None (cur_manager s') = Some (path @ new)" "list_all2 changeOf chs (map e_data new)"
    "cur_messages s' = (if chs = [] then cur_messages s
                        else sp_messages (projectPath (legacyPruneChanges (cur_manager s)) (path @ new)))"
    using ch by (auto simp: changedBy_def)
  have i': "smInv (cur_manager s')" "legacyPruneChanges (cur_manager s') = legacyPruneChanges (cur_manager s)"
    using c(1) by (simp_all add: plainStep_def)
  have co: "coreInv (cur_manager s)" "coreInv (cur_manager s')" "targetsOk (getEntries (cur_manager s))"
    using inv i'(1) by (simp_all add: smInv_def)
  have sub: "set path \<subseteq> set (getEntries (cur_manager s))"
    using getBranch_total [OF co(1)] c(3) by (metis option.inject subseq_set)
  have fr: "e_id e \<notin> ids (getEntries (cur_manager s))" if "e \<in> set new" for e
    using wfEntries_distinct [OF coreInv_wf [OF co(2)]] that unfolding c(2) by auto
  have "\<forall>e \<in> set new. e_id e \<notin> targetsOf new \<and> map_of (changesOf (legacyPruneChanges (cur_manager s)) path) (e_id e) = None"
  proof
    fix e assume "e \<in> set new"
    note f = fr [OF this]
    have "targetsOf new = cc_targetId ` set chs" using changedBy_targets [OF c(5)] by simp
    then have "e_id e \<notin> targetsOf new" using f t by auto
    with changes_target_known [OF co(1,3) sub f]
    show "e_id e \<notin> targetsOf new \<and> map_of (changesOf (legacyPruneChanges (cur_manager s)) path) (e_id e) = None" by simp
  qed
  then show thesis
    using that [of path new] c i' by (simp add: projection_of_branch [OF co(1)] projection_of_branch [OF co(2)])
qed

definition excludeBlock :: "prune_block \<Rightarrow> context_change list" where
  "excludeBlock b = excludeChanges (pb_entryIds b) Excluded"

lemma excludeBlock_ids [simp]: "cc_targetId ` set (excludeBlock b) = set (pb_entryIds b)"
  by (simp add: excludeBlock_def excludeChanges_def image_image)

lemma excludeBlock_nonempty [simp]: "excludeBlock b = [] \<longleftrightarrow> pb_entryIds b = []"
  by (simp add: excludeBlock_def excludeChanges_def)

lemma exclusions_of_changes:
  "list_all2 changeOf chs (map e_data new) \<Longrightarrow> \<forall>ch \<in> set chs. cc_summary ch = None \<Longrightarrow> list_all isExclusion new"
proof (induction chs arbitrary: new)
  case (Cons ch chs)
  then obtain e new' where n: "new = e # new'" "changeOf ch (e_data e)" "list_all2 changeOf chs (map e_data new')"
    by (auto simp: list_all2_Cons1)
  from Cons.IH [OF n(3)] n(2) Cons.prems(2) show ?case unfolding n(1) by (auto simp: changeOf_def isExclusion_def)
qed simp

lemma pruneLoop:
  assumes "\<forall>b \<in> set bs. pb_entryIds b \<noteq> []"
  shows "eff_forEach i (\<lambda>i b. setPruneState (w i) (pb_entryIds b) Excluded) bs =
         eff_forEach i (\<lambda>i b. changeBlock (w i) (excludeBlock b)) bs"
  by (rule eff_forEach_cong) (use assms in \<open>simp add: setPruneState_def changeBlock_def excludeBlock_def\<close>)

lemma eligible_changeable:
  assumes iv: "inventoryOk path iv" and b: "b \<in> set (sl_eligible (selection rawIds iv))"
    and ch: "ch \<in> set chs" "cc_targetId ` set chs \<subseteq> set (pb_entryIds b)" "cc_state ch \<noteq> Included"
  shows "changeable path ch"
proof -
  have "b \<in> set (fst iv)" using b by (simp add: selection_eligible [OF iv])
  moreover have "cc_targetId ch \<in> set (pb_entryIds b)" using ch by auto
  ultimately show ?thesis using iv ch(3) by (auto simp: inventoryOk_def changeable_def)
qed

lemma prune_run:
  assumes inv: "smInv (cur_manager s)" and b: "getBranch None (cur_manager s) = Some path"
    and iv: "getContextBlockInventory (cur_manager s) = Some (Inr iv, sm1)"
    and fresh: "freshLoop w 0 (map excludeBlock (sl_eligible (selection rawIds iv))) sm1"
  obtains r s' s2 where "pruneContext w rawIds s = Some (r, s')"
    "changedBy (concat (map excludeBlock (sl_eligible (selection rawIds iv)))) (s\<lparr>cur_manager := sm1\<rparr>) s2"
    "cur_manager s' = cur_manager s2" "cur_messages s' = cur_messages s2"
proof -
  let ?sel = "selection rawIds iv" and ?s1 = "s\<lparr>cur_manager := sm1\<rparr>"
  note run = inventory_run [OF inv b iv]
  have ok: "inventoryOk path iv" using run(3) by simp
  have b1: "smInv (cur_manager ?s1)" "getBranch None (cur_manager ?s1) = Some path"
    using run(1) b by (simp, subst run(2), simp)
  have sel: "cur_manage getContextBlockInventory s = Some (Inr iv, ?s1)" by (simp add: cur_manage_def iv)
  have ne: "\<forall>b \<in> set (sl_eligible ?sel). pb_entryIds b \<noteq> []"
    using ok by (auto simp: selection_eligible [OF ok] inventoryOk_def)
  have ch: "\<forall>b \<in> set (sl_eligible ?sel). excludeBlock b \<noteq> [] \<and> (\<forall>ch \<in> set (excludeBlock b). changeable path ch)"
  proof (intro ballI conjI)
    fix b ch assume m: "b \<in> set (sl_eligible ?sel)" "ch \<in> set (excludeBlock b)"
    show "changeable path ch"
      by (rule eligible_changeable [OF ok m]) (use m(2) in \<open>auto simp: excludeBlock_def excludeChanges_def\<close>)
  qed (use ne in simp)
  show thesis
  proof (cases "sl_eligible ?sel = [] \<and> sl_protectedBlocks ?sel = []")
    case True
    then have "pruneContext w rawIds s = Some (Inl (noMatchError (sl_unknown ?sel)), ?s1)"
      by (simp add: pruneContext_def selectContextBlocks_def eff_bind_def sel Let_def eff_throw_def)
    then show thesis using that [of _ ?s1 ?s1] True changedBy_refl [OF b1] by simp
  next
    case False
    obtain s2 where s2: "eff_forEach 0 (\<lambda>i b. changeBlock (w i) (excludeBlock b)) (sl_eligible ?sel) ?s1 = Some (Inr (), s2)"
      "changedBy (concat (map excludeBlock (sl_eligible ?sel))) ?s1 s2"
      using forEach_run [OF b1 ch, of w 0] fresh by auto
    have "\<exists>s'. (if sl_eligible ?sel \<noteq> [] then resetStatus else eff_return ()) s2 = Some (Inr (), s') \<and>
        cur_manager s' = cur_manager s2 \<and> cur_messages s' = cur_messages s2" by (simp add: resetStatus_def eff_return_def)
    then obtain s' where s': "(if sl_eligible ?sel \<noteq> [] then resetStatus else eff_return ()) s2 = Some (Inr (), s')"
      "cur_manager s' = cur_manager s2" "cur_messages s' = cur_messages s2" by blast
    have "selectContextBlocks rawIds s = Some (Inr ?sel, ?s1)"
      using False by (auto simp: selectContextBlocks_def eff_bind_def sel Let_def eff_return_def)
    then have "pruneContext w rawIds s = Some (formatContextCurationResult Pruned ?sel, s')"
      using s2(1) s'(1) by (simp add: pruneContext_def eff_bind_def pruneLoop [OF ne] eff_lift_def)
    then show thesis using that s2(2) s'(2,3) by blast
  qed
qed

text \<open>
  C11 (pruning): the prune tool removes from the model context exactly the entries of the requested blocks that
  are selectable and not protected, whole blocks at a time; what every other entry contributes, and the order,
  stay the same. No entry of a protected recent block is touched, whatever ids the model asks for. The log is
  only extended, and the messages of the running agent are those of the new context.
\<close>

theorem prune_context_effect:
  assumes inv: "smInv (cur_manager s)"
    and iv: "getContextBlockInventory (cur_manager s) = Some (Inr iv, sm1)"
    and fresh: "freshLoop w 0 (map excludeBlock (sl_eligible (selection rawIds iv))) sm1"
  shows "\<exists>r s' p p'. pruneContext w rawIds s = Some (r, s') \<and> smInv (cur_manager s') \<and>
           prefix (getEntries (cur_manager s)) (getEntries (cur_manager s')) \<and>
           sm_buildSessionProjection (cur_manager s) = Some p \<and> sm_buildSessionProjection (cur_manager s') = Some p' \<and>
           sp_messages p' = concat (map pe_messages (filter (\<lambda>pe. e_id (pe_source pe) \<notin> requestedIds rawIds iv) (sp_entries p))) \<and>
           (\<forall>b \<in> set (fst iv). blockId b \<in> set (snd iv) \<longrightarrow> requestedIds rawIds iv \<inter> set (pb_entryIds b) = {}) \<and>
           (requestedIds rawIds iv = {} \<or> cur_messages s' = sp_messages p')"
proof -
  have c: "coreInv (cur_manager s)" using inv by (simp add: smInv_def)
  obtain path where b: "getBranch None (cur_manager s) = Some path" "set path \<subseteq> set (getEntries (cur_manager s))"
    using getBranch_total [OF c] by (metis subseq_set)
  note run = inventory_run [OF inv b(1) iv]
  have ok: "inventoryOk path iv" using run(3) by simp
  let ?bs = "sl_eligible (selection rawIds iv)" and ?s1 = "s\<lparr>cur_manager := sm1\<rparr>"
  let ?chs = "concat (map excludeBlock ?bs)"
  obtain r s' s2 where p: "pruneContext w rawIds s = Some (r, s')" "changedBy ?chs ?s1 s2"
    "cur_manager s' = cur_manager s2" "cur_messages s' = cur_messages s2" by (rule prune_run [OF inv b(1) iv fresh])
  have tg: "cc_targetId ` set ?chs = requestedIds rawIds iv"
    unfolding selection_ids [OF ok, symmetric] by (simp add: image_UN)
  have sm1: "getEntries sm1 = getEntries (cur_manager s)" "sm_buildSessionProjection sm1 = sm_buildSessionProjection (cur_manager s)"
    "getBranch None sm1 = Some path" by (subst run(2), simp add: b(1))+
  have "requestedIds rawIds iv \<subseteq> ids (getEntries sm1)"
  proof
    fix t assume "t \<in> requestedIds rawIds iv"
    then obtain e where "e \<in> set path" "e_id e = t" using ok unfolding requestedIds_def inventoryOk_def by blast
    then show "t \<in> ids (getEntries sm1)" using b(2) by (auto simp: sm1(1))
  qed
  then have "cc_targetId ` set ?chs \<subseteq> ids (getEntries (cur_manager ?s1))" by (simp only: tg) simp
  moreover have "smInv (cur_manager ?s1)" using run(1) by simp
  ultimately obtain path' new where q: "getBranch None (cur_manager ?s1) = Some path'"
    "list_all2 changeOf ?chs (map e_data new)"
    "sm_buildSessionProjection (cur_manager ?s1) = Some (projectPath (legacyPruneChanges (cur_manager ?s1)) path')"
    "sm_buildSessionProjection (cur_manager s2) = Some (projectPath (legacyPruneChanges (cur_manager ?s1)) (path' @ new))"
    "\<forall>e \<in> set new. e_id e \<notin> targetsOf new \<and> map_of (changesOf (legacyPruneChanges (cur_manager ?s1)) path') (e_id e) = None"
    "cur_messages s2 = (if ?chs = [] then cur_messages ?s1
       else sp_messages (projectPath (legacyPruneChanges (cur_manager ?s1)) (path' @ new)))"
    "smInv (cur_manager s2)" "getEntries (cur_manager s2) = getEntries (cur_manager ?s1) @ new"
    using changed_projection [OF _ p(2)] by metis
  have "list_all isExclusion new"
    by (rule exclusions_of_changes [OF q(2)]) (auto simp: excludeBlock_def excludeChanges_def)
  from exclusions_project [OF this q(5)] have "sp_messages (projectPath (legacyPruneChanges sm1) (path' @ new)) =
      concat (map pe_messages (filter (\<lambda>pe. e_id (pe_source pe) \<notin> requestedIds rawIds iv) (sp_entries (projectPath (legacyPruneChanges sm1) path'))))"
    using changedBy_targets [OF q(2)] tg by simp
  note msgs = this
  have "?chs = [] \<Longrightarrow> requestedIds rawIds iv = {}" using tg by (simp only: list.set image_empty)
  then have m: "requestedIds rawIds iv = {} \<or> cur_messages s' = sp_messages (projectPath (legacyPruneChanges sm1) (path' @ new))"
    using q(6) p(4) by (cases "?chs = []") (blast, simp)
  have "sm_buildSessionProjection (cur_manager s) = Some (projectPath (legacyPruneChanges sm1) path')"
    "sm_buildSessionProjection (cur_manager s') = Some (projectPath (legacyPruneChanges sm1) (path' @ new))"
    "smInv (cur_manager s')" "prefix (getEntries (cur_manager s)) (getEntries (cur_manager s'))"
    using q(3,4,7,8) p(3) sm1 by (simp_all add: prefix_def)
  then show ?thesis using p(1) msgs m requested_unprotected [OF ok] by blast
qed

text \<open>A session whose second message alone fills the protected budget.\<close>

definition bigText :: string where
  "bigText = replicate 32768 (CHR ''a'')"

definition bigSample :: session_manager where
  "bigSample = sampleNext (sampleUser bigText)"

definition bigEntries :: "session_entry list" where
  "bigEntries = [sampleEntry ''aaaaaaaa'' None (sampleUser ''hi''), sampleEntry ''bbbbbbbb'' (Some ''aaaaaaaa'') (sampleUser bigText)]"

definition bigBlocks :: "prune_block list" where
  "bigBlocks =
     [\<lparr>pb_entryIds = [''aaaaaaaa''], pb_entries = [hd bigEntries], pb_messages = Some [sampleUser ''hi'']\<rparr>,
      \<lparr>pb_entryIds = [''bbbbbbbb''], pb_entries = [last bigEntries], pb_messages = Some [sampleUser bigText]\<rparr>]"

lemmas big_run = sampleNext_run [of "sampleUser bigText", folded bigSample_def bigEntries_def]

lemma big_branch: "getBranch None bigSample = Some bigEntries"
  using sampleNext_branch [of "sampleUser bigText", folded bigSample_def] by (simp add: big_run(4))

lemma big_legacy: "legacyPruneChanges bigSample = []"
  using big_run(2) by (simp add: smInv_def coreInv_def big_run(4) bigEntries_def sampleEntry_def recordLegacyPrune_def)

lemma big_compact: "compactPath bigEntries = bigEntries"
proof -
  have "findLast isCompaction bigEntries = None"
    by (simp add: findLast_None_iff) (simp add: bigEntries_def sampleEntry_def isCompaction_def)
  then show ?thesis by (simp add: compactPath_def)
qed

lemma big_projection:
  "sm_buildSessionProjection bigSample = Some (projectPath [] bigEntries)"
  "sp_entries (projectPath [] bigEntries) =
     [\<lparr>pe_source = hd bigEntries, pe_messages = [sampleUser ''hi'']\<rparr>, \<lparr>pe_source = last bigEntries, pe_messages = [sampleUser bigText]\<rparr>]"
proof -
  show "sm_buildSessionProjection bigSample = Some (projectPath [] bigEntries)"
    using big_run(2) by (simp add: projection_of_branch smInv_def big_branch big_legacy)
  show "sp_entries (projectPath [] bigEntries) =
     [\<lparr>pe_source = hd bigEntries, pe_messages = [sampleUser ''hi'']\<rparr>, \<lparr>pe_source = last bigEntries, pe_messages = [sampleUser bigText]\<rparr>]"
    by (simp add: projectPath_entries big_compact) (simp add: bigEntries_def sampleEntry_def isCompaction_def projectOne_def applyContextEdit_def
        projectContextEntry_def sessionEntryToContextMessages_def)
qed

lemma big_tokens: "estimateTokens (sampleUser bigText) = 8192"
  by (simp add: sumTokens_def estimateTokens_def sampleUser_def bigText_def ceilDiv_def)

text \<open>The inventory of the sample, whatever its cache holds.\<close>

lemma big_inventory_cached:
  assumes inv: "smInv sm" and sm: "sm = bigSample\<lparr>contextChangesCache := cache\<rparr>"
  obtains sm1 where "getContextBlockInventory sm = Some (Inr (bigBlocks, [''bbbbbbbb'']), sm1)" "smInv sm1"
    "sm1 = bigSample\<lparr>contextChangesCache := contextChangesCache sm1\<rparr>"
proof -
  have c: "coreInv sm" using inv by (simp add: smInv_def)
  have b: "getBranch None sm = Some bigEntries" "legacyPruneChanges sm = []" "leafId sm = leafId bigSample" "byId sm = byId bigSample"
    "getEntries sm = bigEntries" "sm_buildSessionProjection sm = sm_buildSessionProjection bigSample"
    by (simp_all add: sm big_branch big_legacy big_run(4))
  obtain sm1 where sm1: "getContextChanges sm = Some (changesOf [] bigEntries, sm1)" "smInv sm1"
    "sm1 = sm\<lparr>contextChangesCache := contextChangesCache sm1\<rparr>"
    using getContextChanges_correct [OF inv] b(1,2) by (metis option.inject)
  have e: "changesOf [] bigEntries = []" by (simp add: bigEntries_def sampleEntry_def applyContextEdit_def)
  have es: "sm_buildContextEntries sm = Some (bigEntries, sm1)"
  proof -
    have "buildSessionPath bigEntries (leafArg (leafId sm)) (Some (byId sm)) = Some bigEntries"
      using buildSessionPath_leaf [OF c] by (simp only: b)
    then show ?thesis using sm1(1)
      by (simp add: e sm_buildContextEntries_def buildContextEntries_def b(5) big_compact hiddenState_def contextChangeState_def)
  qed
  let ?f = "jsMapGet (map (\<lambda>pe. (e_id (pe_source pe), pe_messages pe)) (sp_entries (projectPath [] bigEntries)))"
  have g: "groupPruneBlocks [hd bigEntries, last bigEntries] = Inr [singleBlock (hd bigEntries), singleBlock (last bigEntries)]"
    by (simp add: groupPruneBlocks_def addToBlocks_def visibleEntry_def isToolResultEntry_def bigEntries_def sampleEntry_def
        sessionEntryToContextMessages_def sampleUser_def)
  have bl: "[effectiveBlock ?f (singleBlock (hd bigEntries)), effectiveBlock ?f (singleBlock (last bigEntries))] = bigBlocks"
    by (simp add: bigBlocks_def effectiveBlock_def singleBlock_def big_projection jsMapGet_def)
       (simp add: bigEntries_def sampleEntry_def effectiveEntry_def sampleUser_def)
  have "e_id ` set bigEntries = {''aaaaaaaa'', ''bbbbbbbb''}" by (simp add: bigEntries_def sampleEntry_def)
  then have io: "inventoryOf bigBlocks bigEntries = (bigBlocks, [''bbbbbbbb''])"
    by (simp add: inventoryOf_def getProtectedRecentBlockIds_def bigBlocks_def getBlockMessages_def big_tokens setAdd_def
        MAX_PROTECTED_RECENT_TOKENS_def Let_def)
  have "getContextBlockInventory sm = Some (Inr (bigBlocks, [''bbbbbbbb'']), sm1)"
    using g bl io by (simp add: getContextBlockInventory_def b(6) big_projection es Let_def)
  moreover have "sm1 = bigSample\<lparr>contextChangesCache := contextChangesCache sm1\<rparr>" by (subst sm1(3)) (simp add: sm)
  ultimately show thesis using that sm1(2) by blast
qed

lemma big_inventory:
  obtains sm1 where "getContextBlockInventory bigSample = Some (Inr (bigBlocks, [''bbbbbbbb'']), sm1)" "smInv sm1"
    "getEntries sm1 = bigEntries" "getBranch None sm1 = Some bigEntries" "sm1 = bigSample\<lparr>contextChangesCache := contextChangesCache sm1\<rparr>"
proof -
  obtain sm1 where sm1: "getContextBlockInventory bigSample = Some (Inr (bigBlocks, [''bbbbbbbb'']), sm1)" "smInv sm1"
    "sm1 = bigSample\<lparr>contextChangesCache := contextChangesCache sm1\<rparr>"
    by (rule big_inventory_cached [OF big_run(2), of "contextChangesCache bigSample"]) simp_all
  have "getEntries sm1 = bigEntries" "getBranch None sm1 = Some bigEntries" by (subst sm1(3), simp add: big_run(4) big_branch)+
  with sm1 show thesis using that by blast
qed

lemma freshBatch_single:
  assumes "length chs = 1" and "freshWorld (w 0) sm"
  shows "freshBatch w chs sm"
proof -
  have "freshRun w 0 ds sm" if "js_map (validateChange b sm) chs = Inr ds" for b ds
    using js_map_length [OF that] assms by (cases ds) auto
  then show ?thesis by (auto simp: freshBatch_def split: option.splits sum.splits)
qed

lemma big_selection:
  "sl_eligible (selection [''aaaaaaaa'', ''bbbbbbbb''] (bigBlocks, [''bbbbbbbb''])) = [hd bigBlocks]"
  by (simp add: startSelection_def blocksById_def jsMapGet_def bigBlocks_def trim_def isSpace_def Let_def)

definition bigSession :: "unit curated_session" where
  "bigSession = \<lparr>cur_manager = bigSample, cur_messages = [], cur_pruneHappenedThisTurn = False,
     cur_pruneSkipNextCompactionCheck = False, cur_contextStatusLastPercent = None, cur_contextStatusForceNext = False, cur_world = ()\<rparr>"

theorem prune_context_effect_witness:
  "\<exists>r s' p p'. pruneContext (\<lambda>_ _. sampleWorld ''cccccccc-0'') [''aaaaaaaa'', ''bbbbbbbb''] bigSession = Some (r, s') \<and>
     sm_buildSessionProjection bigSample = Some p \<and> length (sp_messages p) = 2 \<and>
     sm_buildSessionProjection (cur_manager s') = Some p' \<and> sp_messages p' = [sampleUser bigText]"
proof -
  let ?ids = "[''aaaaaaaa'', ''bbbbbbbb'']" and ?iv = "(bigBlocks, [''bbbbbbbb''])"
  obtain sm1 where sm1: "getContextBlockInventory bigSample = Some (Inr ?iv, sm1)" "smInv sm1" "getEntries sm1 = bigEntries"
    by (rule big_inventory)
  have "freshWorld (sampleWorld ''cccccccc-0'') sm1"
    using sm1(2,3) by (intro freshWorld_sample) (simp_all add: smInv_def bigEntries_def sampleEntry_def)
  then have "freshLoop (\<lambda>_ _. sampleWorld ''cccccccc-0'') 0 (map excludeBlock (sl_eligible (selection ?ids ?iv))) sm1"
    unfolding big_selection
    by (auto simp: excludeBlock_def excludeChanges_def bigBlocks_def intro: freshBatch_single split: option.splits)
  from prune_context_effect [of bigSession, OF _ _ this] obtain r s' p p' where
    x: "pruneContext (\<lambda>_ _. sampleWorld ''cccccccc-0'') ?ids bigSession = Some (r, s')"
    "sm_buildSessionProjection bigSample = Some p" "sm_buildSessionProjection (cur_manager s') = Some p'"
    "sp_messages p' = concat (map pe_messages (filter (\<lambda>pe. e_id (pe_source pe) \<notin> requestedIds ?ids ?iv) (sp_entries p)))"
    using sm1(1) big_run(2) unfolding bigSession_def by auto
  have "requestedIds ?ids ?iv = {''aaaaaaaa''}"
    by (auto simp: requestedIds_def bigBlocks_def trim_def isSpace_def)
  moreover have "p = projectPath [] bigEntries" using x(2) big_projection(1) by simp
  ultimately have "sp_messages p' = [sampleUser bigText]" "length (sp_messages p) = 2"
    using x(4) by (simp_all add: big_projection(2) projectPath_messages) (simp add: bigEntries_def sampleEntry_def)
  with x show ?thesis by blast
qed

section \<open>Summarising\<close>

lemma inventory_shape:
  assumes "getContextBlockInventory sm = Some (Inr iv, sm1)"
  obtains f bs es where "iv = inventoryOf (map (effectiveBlock f) bs) es"
proof -
  obtain p where p: "sm_buildSessionProjection sm = Some p" using assms by (auto simp: getContextBlockInventory_def bind_eq_Some_conv)
  then obtain bs where "groupPruneBlocks (map pe_source (filter (\<lambda>pe. pe_messages pe \<noteq> []) (sp_entries p))) = Inr bs"
    using assms by (auto simp: getContextBlockInventory_def Let_def bind_eq_Some_conv split: sum.splits)
  then show thesis using that assms p by (auto simp: getContextBlockInventory_def Let_def bind_eq_Some_conv)
qed

lemma inventory_blocks_effective:
  assumes "getContextBlockInventory sm = Some (Inr iv, sm1)" and "b \<in> set (fst iv)"
  shows "pb_messages b \<noteq> None"
proof -
  obtain f bs es where "iv = inventoryOf (map (effectiveBlock f) bs) es" by (rule inventory_shape [OF assms(1)])
  then have "b \<in> set (map (effectiveBlock f) bs)" using assms(2) inventoryOf_parts(1) by blast
  then show ?thesis by (auto simp: effectiveBlock_def)
qed

lemma inventory_inv:
  assumes "smInv sm" and "getContextBlockInventory sm = Some (r, sm1)"
  shows "smInv sm1"
proof -
  obtain path where "getBranch None sm = Some path"
    using assms(1) getBranch_total [of sm] by (metis smInv_def)
  from inventory_run(1) [OF assms(1) this assms(2)] show ?thesis .
qed

lemma blocksById_Some: "blocksById bs i = Some b \<Longrightarrow> b \<in> set bs \<and> blockId b = i"
  unfolding blocksById_def jsMapGet_def by (drule map_of_SomeD) auto

lemma refresh_fold:
  "sl_blocks (fold refreshBlock bs sel) = sl_blocks sel \<and> sl_protectedIds (fold refreshBlock bs sel) = sl_protectedIds sel \<and>
   set (sl_eligible (fold refreshBlock bs sel)) \<subseteq>
     set (sl_eligible sel) \<union> {b \<in> set (sl_blocks sel). blockId b \<notin> set (sl_protectedIds sel)}"
proof (induction bs arbitrary: sel)
  case (Cons b bs)
  have "sl_blocks (refreshBlock b sel) = sl_blocks sel \<and> sl_protectedIds (refreshBlock b sel) = sl_protectedIds sel \<and>
    set (sl_eligible (refreshBlock b sel)) \<subseteq> set (sl_eligible sel) \<union> {b \<in> set (sl_blocks sel). blockId b \<notin> set (sl_protectedIds sel)}"
    by (auto simp: refreshBlock_def Let_def dest: blocksById_Some split: option.splits)
  then show ?case using Cons.IH [of "refreshBlock b sel"] by (simp only: fold_Cons comp_apply) blast
qed simp

lemma refresh_run:
  assumes "refreshContextBlockSelection sel s = Some (Inr sel', s')"
  obtains iv sm1 where "getContextBlockInventory (cur_manager s) = Some (Inr iv, sm1)" "s' = s\<lparr>cur_manager := sm1\<rparr>"
    "\<forall>b \<in> set (sl_eligible sel'). b \<in> set (fst iv) \<and> blockId b \<notin> set (snd iv)"
proof -
  obtain iv sm1 where iv: "getContextBlockInventory (cur_manager s) = Some (Inr iv, sm1)" "s' = s\<lparr>cur_manager := sm1\<rparr>"
    "sel' = fold refreshBlock (sl_eligible sel) (sel\<lparr>sl_blocks := fst iv, sl_protectedIds := snd iv, sl_eligible := []\<rparr>)"
    using assms by (auto simp: refreshContextBlockSelection_def eff_bind_Some cur_manage_def eff_return_def)
  then show thesis using that refresh_fold [of "sl_eligible sel" "sel\<lparr>sl_blocks := fst iv, sl_protectedIds := snd iv, sl_eligible := []\<rparr>"]
    by auto
qed

text \<open>The model produced \<open>t\<close> from a block with the content of \<open>b\<close>.\<close>

definition summarisedAs :: "'w summarizer \<Rightarrow> prune_block \<Rightarrow> string \<Rightarrow> bool" where
  "summarisedAs sz b t \<longleftrightarrow>
     (\<exists>model block w w'. summarizeBlock sz model block w = (Inr t, w') \<and> pb_entryIds block = pb_entryIds b \<and>
        getBlockMessages block = getBlockMessages b)"

definition generatedOk :: "'w summarizer \<Rightarrow> generated_summary \<Rightarrow> bool" where
  "generatedOk sz g \<longleftrightarrow>
     gs_sourceSnapshot g = snapshotContextBlock (gs_block g) \<and>
     (\<exists>model w w'. summarizeBlock sz model (gs_block g) w = (Inr (gs_summary g), w'))"

lemma awaitCall_run:
  "awaitCall f call s = Some (Inr x, s') \<Longrightarrow> \<exists>w w'. call w = (Inr x, w') \<and> s' = f (s\<lparr>cur_world := w'\<rparr>)"
  by (cases "call (cur_world s)") (auto simp: awaitCall_def Let_def)

lemma summarizeCandidates_run:
  assumes await: "\<And>s. smInv (cur_manager s) \<Longrightarrow> smInv (cur_manager (ci_await env s))"
  shows "summarizeCandidates env model cs sel s = Some (Inr (sel', gs), s') \<Longrightarrow> smInv (cur_manager s) \<Longrightarrow>
    smInv (cur_manager s') \<and> list_all (generatedOk (ci_summarizer env)) gs"
proof (induction cs arbitrary: sel s sel' gs)
  case Nil
  then show ?case by (simp add: eff_return_def)
next
  case (Cons c cs)
  obtain sel1 s1 where r: "refreshContextBlockSelection sel s = Some (Inr sel1, s1)"
    and k: "(case List.find (\<lambda>b. blockId b = blockId c) (sl_eligible sel1) of
         None \<Rightarrow> summarizeCandidates env model cs sel1
       | Some block \<Rightarrow>
           eff_bind (awaitCall (ci_await env) (summarizeBlock (ci_summarizer env) model block)) (\<lambda>summary.
             eff_bind (summarizeCandidates env model cs sel1) (\<lambda>(sel2, rest).
               eff_return (sel2,
                 \<lparr>gs_block = block, gs_sourceSnapshot = snapshotContextBlock block, gs_summary = summary\<rparr> # rest)))) s1
        = Some (Inr (sel', gs), s')"
    using Cons.prems(1) by (auto simp: eff_bind_Some)
  have i1: "smInv (cur_manager s1)" using refresh_run [OF r] inventory_inv [OF Cons.prems(2)] by (metis curated_session.select_convs(1) curated_session.surjective curated_session.update_convs(1))
  show ?case
  proof (cases "List.find (\<lambda>b. blockId b = blockId c) (sl_eligible sel1)")
    case None
    then show ?thesis using k Cons.IH i1 by auto
  next
    case (Some block)
    with k obtain t s2 sel2 rest where t: "awaitCall (ci_await env) (summarizeBlock (ci_summarizer env) model block) s1 = Some (Inr t, s2)"
      "summarizeCandidates env model cs sel1 s2 = Some (Inr (sel2, rest), s')"
      "gs = \<lparr>gs_block = block, gs_sourceSnapshot = snapshotContextBlock block, gs_summary = t\<rparr> # rest"
      by (auto simp: eff_bind_Some eff_return_def)
    obtain w w' where w: "summarizeBlock (ci_summarizer env) model block w = (Inr t, w')" "s2 = ci_await env (s1\<lparr>cur_world := w'\<rparr>)"
      using awaitCall_run [OF t(1)] by blast
    have "smInv (cur_manager s2)" unfolding w(2) by (rule await) (simp add: i1)
    from Cons.IH [OF t(2) this] show ?thesis using w(1) by (auto simp: t(3) generatedOk_def)
  qed
qed

abbreviation summaryBlock :: "(prune_block \<Rightarrow> string) \<Rightarrow> prune_block \<Rightarrow> context_change list" where
  "summaryBlock summary b \<equiv> summaryChanges (pb_entryIds b) (summary b)"

lemma summaryChanges_ids: "cc_targetId ` set (summaryChanges is t) = set is"
proof -
  have "map cc_targetId (summaryChanges is t) = is"
    by (simp add: summaryChanges_def comp_def split_beta)
  then show ?thesis by (metis set_map)
qed

lemma summaryChanges_nonempty: "summaryChanges is t = [] \<longleftrightarrow> is = []"
  by (simp add: summaryChanges_def enumerate_eq_zip)

text \<open>Context entries outside the blocks contribute what they did before.\<close>

definition onlyChanged :: "string set \<Rightarrow> session_manager \<Rightarrow> session_manager \<Rightarrow> bool" where
  "onlyChanged T sm sm' \<longleftrightarrow>
     (\<exists>p p' pes new. sm_buildSessionProjection sm = Some p \<and> sm_buildSessionProjection sm' = Some p' \<and>
        sp_entries p' = pes @ new \<and> sameOutside T (sp_entries p) pes \<and> (\<forall>pe \<in> set new. pe_messages pe = []))"

lemma changedBy_onlyChanged:
  assumes "smInv (cur_manager s)" and "changedBy chs s s'" and "cc_targetId ` set chs \<subseteq> ids (getEntries (cur_manager s))"
  shows "onlyChanged (cc_targetId ` set chs) (cur_manager s) (cur_manager s')"
proof -
  let ?l = "legacyPruneChanges (cur_manager s)"
  obtain path new where q: "list_all2 changeOf chs (map e_data new)"
    "sm_buildSessionProjection (cur_manager s) = Some (projectPath ?l path)"
    "sm_buildSessionProjection (cur_manager s') = Some (projectPath ?l (path @ new))"
    "\<forall>e \<in> set new. e_id e \<notin> targetsOf new \<and> map_of (changesOf ?l path) (e_id e) = None"
    using changed_projection [OF assms] by metis
  have t: "targetsOf new = cc_targetId ` set chs" "list_all isEdit new" using changedBy_targets [OF q(1)] by simp_all
  let ?pes = "projectEntries (changesOf ?l (path @ new)) (compactPath path)"
  have "sameOutside (cc_targetId ` set chs) (sp_entries (projectPath ?l path)) ?pes"
    unfolding projectPath_entries by (rule projectEntries_sameOutside) (simp add: edits_other t(1))
  then show ?thesis unfolding onlyChanged_def using q(2,3) projectPath_edits [OF t(2) q(4)] by fastforce
qed

lemma summaryLoop:
  assumes "\<forall>b \<in> set bs. pb_entryIds b \<noteq> []"
  shows "eff_forEach i (\<lambda>i b. setBlockSummary (w i) (pb_entryIds b) (t b)) bs =
         eff_forEach i (\<lambda>i b. changeBlock (w i) (summaryBlock t b)) bs"
  by (rule eff_forEach_cong) (use assms in \<open>simp add: setBlockSummary_def changeBlock_def\<close>)

lemma summaries_effect:
  assumes inv: "smInv (cur_manager s)" and iv: "getContextBlockInventory (cur_manager s) = Some (Inr iv, sm1)"
    and bs: "\<forall>b \<in> set bs. b \<in> set (fst iv)" and fresh: "freshLoop w 0 (map (summaryBlock t) bs) sm1"
    and run: "eff_forEach 0 (\<lambda>i b. setBlockSummary (w i) (pb_entryIds b) (t b)) bs (s\<lparr>cur_manager := sm1\<rparr>) = Some (r, s')"
  shows "onlyChanged (\<Union>b \<in> set bs. set (pb_entryIds b)) (cur_manager s) (cur_manager s')"
proof -
  have c: "coreInv (cur_manager s)" using inv by (simp add: smInv_def)
  obtain path where b: "getBranch None (cur_manager s) = Some path" "set path \<subseteq> set (getEntries (cur_manager s))"
    using getBranch_total [OF c] by (metis subseq_set)
  note ir = inventory_run [OF inv b(1) iv]
  have ok: "inventoryOk path iv" using ir(3) by simp
  let ?s1 = "s\<lparr>cur_manager := sm1\<rparr>" and ?chs = "concat (map (summaryBlock t) bs)"
  have sm1: "getEntries sm1 = getEntries (cur_manager s)" "sm_buildSessionProjection sm1 = sm_buildSessionProjection (cur_manager s)"
    "getBranch None sm1 = Some path" by (subst ir(2), simp add: b(1))+
  have ne: "\<forall>b \<in> set bs. pb_entryIds b \<noteq> []" using bs ok by (auto simp: inventoryOk_def)
  have tgt: "\<exists>e \<in> set path. e_id e = u \<and> visibleEntry e" if "b \<in> set bs" "u \<in> set (pb_entryIds b)" for b u
    using that bs ok unfolding inventoryOk_def by blast
  have ch: "\<forall>b \<in> set bs. summaryBlock t b \<noteq> [] \<and> (\<forall>ch \<in> set (summaryBlock t b). changeable path ch)"
  proof (intro ballI conjI)
    fix b ch assume m: "b \<in> set bs" "ch \<in> set (summaryBlock t b)"
    then have "cc_targetId ch \<in> set (pb_entryIds b)" using summaryChanges_ids by blast
    moreover have "cc_state ch = Summarized" using m(2) by (auto simp: summaryChanges_def)
    ultimately show "changeable path ch" using tgt [OF m(1)] by (auto simp: changeable_def)
  qed (use ne in \<open>simp add: summaryChanges_nonempty\<close>)
  have i1: "smInv (cur_manager ?s1)" "getBranch None (cur_manager ?s1) = Some path" using ir(1) sm1(3) by simp_all
  have "changedBy ?chs ?s1 s'"
    using forEach_run [OF i1 ch, of w 0] fresh run by (auto simp: summaryLoop [OF ne])
  moreover have T: "cc_targetId ` set ?chs = (\<Union>b \<in> set bs. set (pb_entryIds b))"
    by (simp add: image_UN summaryChanges_ids)
  moreover have "(\<Union>b \<in> set bs. set (pb_entryIds b)) \<subseteq> ids (getEntries (cur_manager ?s1))"
  proof
    fix u assume "u \<in> (\<Union>b \<in> set bs. set (pb_entryIds b))"
    then obtain e where "e \<in> set path" "e_id e = u" using tgt by blast
    then show "u \<in> ids (getEntries (cur_manager ?s1))" using b(2) by (auto simp: sm1(1))
  qed
  ultimately have "onlyChanged (cc_targetId ` set ?chs) (cur_manager ?s1) (cur_manager s')"
    by (intro changedBy_onlyChanged i1) simp_all
  then show ?thesis using sm1(2) unfolding T by (simp add: onlyChanged_def)
qed

lemma applySummary_eq:
  "applySummary w gs =
     (\<lambda>i b. setBlockSummary (w i) (pb_entryIds b) (case summaryFor gs b of Some g \<Rightarrow> gs_summary g | None \<Rightarrow> []))"
  by (simp add: applySummary_def fun_eq_iff)

text \<open>
  C14 (no stale summaries): other code may change the session in any way while the model writes the summaries. When
  the summarise tool succeeds, it applies its summaries in one go to a state \<open>s3\<close>; every block it changes is in
  the inventory of that very state, is not protected there, and has exactly the entries and messages the model
  was shown when it wrote the summary that is applied. With fresh ids nothing but these blocks changes.
\<close>

theorem summarize_applies_current_only:
  assumes inv: "smInv (cur_manager s)"
    and await: "\<forall>s. smInv (cur_manager s) \<longrightarrow> smInv (cur_manager (ci_await env s))"
    and run: "summarizeSelection env model sel s = Some (Inr sel', s')"
  shows "\<exists>s3 iv sm3 summary. smInv (cur_manager s3) \<and> getContextBlockInventory (cur_manager s3) = Some (Inr iv, sm3) \<and>
           (\<forall>b \<in> set (sl_eligible sel'). b \<in> set (fst iv) \<and> blockId b \<notin> set (snd iv) \<and>
              summarisedAs (ci_summarizer env) b (summary b)) \<and>
           eff_forEach 0 (\<lambda>i b. setBlockSummary (ci_worlds env i) (pb_entryIds b) (summary b)) (sl_eligible sel')
             (s3\<lparr>cur_manager := sm3\<rparr>) = Some (Inr (), s') \<and>
           (freshLoop (ci_worlds env) 0 (map (summaryBlock summary) (sl_eligible sel')) sm3 \<longrightarrow>
              onlyChanged (\<Union>b \<in> set (sl_eligible sel'). set (pb_entryIds b)) (cur_manager s3) (cur_manager s'))"
proof -
  obtain m s1 sel1 gs s2 sel2 s3' where a: "awaitCall (ci_await env) (ci_auth env model) s = Some (Inr m, s1)"
    and c: "summarizeCandidates env m (sl_eligible sel) sel s1 = Some (Inr (sel1, gs), s2)"
    and r: "refreshContextBlockSelection sel1 s2 = Some (Inr sel2, s3')"
    and f: "eff_forEach 0 (applySummary (ci_worlds env) gs) (sl_eligible (keepCurrent gs sel2)) s3' = Some (Inr (), s')"
    and sel': "sel' = keepCurrent gs sel2"
    using run by (auto simp: summarizeSelection_def eff_bind_Some Let_def eff_return_def)
  have "smInv (cur_manager s1)" using awaitCall_run [OF a] await inv by fastforce
  from summarizeCandidates_run [OF await [rule_format] c this] have i2: "smInv (cur_manager s2)" and g: "list_all (generatedOk (ci_summarizer env)) gs" by simp_all
  obtain iv sm3 where iv: "getContextBlockInventory (cur_manager s2) = Some (Inr iv, sm3)" "s3' = s2\<lparr>cur_manager := sm3\<rparr>"
    "\<forall>b \<in> set (sl_eligible sel2). b \<in> set (fst iv) \<and> blockId b \<notin> set (snd iv)" by (rule refresh_run [OF r])
  define summary where "summary b = (case summaryFor gs b of Some g \<Rightarrow> gs_summary g | None \<Rightarrow> [])" for b
  have el: "b \<in> set (sl_eligible sel2) \<and> isCurrent gs b" if "b \<in> set (sl_eligible sel')" for b
    using that by (simp add: sel' keepCurrent_def)
  have ok: "b \<in> set (fst iv) \<and> blockId b \<notin> set (snd iv) \<and> summarisedAs (ci_summarizer env) b (summary b)"
    if m: "b \<in> set (sl_eligible sel')" for b
  proof -
    obtain x where x: "summaryFor gs b = Some x" "gs_sourceSnapshot x = snapshotContextBlock b"
      using el [OF m] by (auto simp: isCurrent_def split: option.splits)
    have "x \<in> set gs" using x(1) unfolding summaryFor_def jsMapGet_def by (auto dest!: map_of_SomeD)
    then have gx: "generatedOk (ci_summarizer env) x" using g by (simp add: list_all_iff)
    have b: "b \<in> set (fst iv)" "blockId b \<notin> set (snd iv)" using el [OF m] iv(3) by simp_all
    have "pb_messages b \<noteq> None" using inventory_blocks_effective [OF iv(1) b(1)] .
    moreover have "pb_entryIds (gs_block x) = pb_entryIds b" "pb_messages (gs_block x) = pb_messages b"
      using gx x(2) by (simp_all add: generatedOk_def snapshotContextBlock_def)
    ultimately have "summarisedAs (ci_summarizer env) b (gs_summary x)"
      using gx unfolding summarisedAs_def generatedOk_def getBlockMessages_def by (metis not_None_eq option.simps(5))
    then show ?thesis using b x(1) by (simp add: summary_def)
  qed
  have fe: "eff_forEach 0 (\<lambda>i b. setBlockSummary (ci_worlds env i) (pb_entryIds b) (summary b)) (sl_eligible sel')
      (s2\<lparr>cur_manager := sm3\<rparr>) = Some (Inr (), s')" using f by (simp only: applySummary_eq summary_def sel' iv(2))
  show ?thesis
    using i2 iv(1) ok fe summaries_effect [OF i2 iv(1) _ _ fe]
    by (intro exI [of _ s2] exI [of _ iv] exI [of _ sm3] exI [of _ summary]) blast
qed

subsection \<open>A run\<close>

definition bigEnv :: "unit curation_env" where
  "bigEnv = \<lparr>ci_summarizer = usageSummarizer, ci_model = Inr wideModel, ci_auth = (\<lambda>m w. (Inr m, w)), ci_await = id,
     ci_worlds = (\<lambda>_ _. sampleWorld ''cccccccc-0'')\<rparr>"

definition bigSelection :: context_block_selection where
  "bigSelection = selection [''aaaaaaaa''] (bigBlocks, [''bbbbbbbb''])"

lemma bigSelection_eligible: "sl_eligible bigSelection = [hd bigBlocks]" "sl_staleBlocks bigSelection = []"
  by (simp_all add: bigSelection_def startSelection_def blocksById_def jsMapGet_def bigBlocks_def trim_def isSpace_def Let_def)

lemma usageSummarizer_ok:
  assumes "getBlockMessages b \<noteq> []" and "0 < availableOutputTokens wideModel (convertToLlm (getBlockMessages b))"
  shows "summarizeBlock usageSummarizer wideModel b () = (Inr ''ok'', ())"
  using assms
  by (simp add: summarizeBlock_def Let_def completeSummarization_def usageSummarizer_def retryAssistantCall_def
      maxAttemptsOf_def retryLoop.simps acceptBlockSummary_def responseDetails_def getSummarizationFailure_def List.map_filter_def
      trim_def isSpace_def summaryLimit_def MIN_BLOCK_SUMMARY_TOKENS_def estimateTextTokens_def ceilDiv_def)

lemma big_first: "hd bigBlocks = \<lparr>pb_entryIds = [''aaaaaaaa''], pb_entries = [hd bigEntries], pb_messages = Some [sampleUser ''hi'']\<rparr>"
  by (simp add: bigBlocks_def)

lemma big_first_fits: "0 < availableOutputTokens wideModel (convertToLlm [sampleUser ''hi''])"
proof -
  have "length (blockPrompt (convertToLlm [sampleUser ''hi''])) \<le> 1000" by code_simp
  then have "estimateTextTokens (blockPrompt (convertToLlm [sampleUser ''hi''])) \<le> 1000"
    by (simp add: estimateTextTokens_def ceilDiv_def)
  moreover have "estimateTextTokens BLOCK_SUMMARY_SYSTEM_PROMPT \<le> 1000"
    using blockSystemPrompt_length by (simp add: estimateTextTokens_def ceilDiv_def)
  ultimately show ?thesis unfolding availableOutputTokens_def by (simp add: wideModel_def contextReserve_def)
qed

lemma big_summary: "summarizeBlock usageSummarizer wideModel (hd bigBlocks) () = (Inr ''ok'', ())"
  by (rule usageSummarizer_ok) (simp_all add: big_first getBlockMessages_def big_first_fits)

lemma big_refresh:
  assumes "smInv sm" and "sm = bigSample\<lparr>contextChangesCache := cache\<rparr>" and "sl_eligible sel = [hd bigBlocks]"
  obtains sm1 sel1 where "refreshContextBlockSelection sel (bigSession\<lparr>cur_manager := sm\<rparr>) = Some (Inr sel1, bigSession\<lparr>cur_manager := sm1\<rparr>)"
    "sl_eligible sel1 = [hd bigBlocks]" "smInv sm1" "sm1 = bigSample\<lparr>contextChangesCache := contextChangesCache sm1\<rparr>"
proof -
  obtain sm1 where sm1: "getContextBlockInventory sm = Some (Inr (bigBlocks, [''bbbbbbbb'']), sm1)" "smInv sm1"
    "sm1 = bigSample\<lparr>contextChangesCache := contextChangesCache sm1\<rparr>"
    by (rule big_inventory_cached [OF assms(1,2)])
  show thesis
  proof (rule that [OF _ _ sm1(2,3)])
    show "refreshContextBlockSelection sel (bigSession\<lparr>cur_manager := sm\<rparr>) =
        Some (Inr (refreshBlock (hd bigBlocks) (sel\<lparr>sl_blocks := bigBlocks, sl_protectedIds := [''bbbbbbbb''], sl_eligible := []\<rparr>)),
          bigSession\<lparr>cur_manager := sm1\<rparr>)"
      using sm1(1) assms(3) by (simp add: refreshContextBlockSelection_def eff_bind_def cur_manage_def eff_return_def)
  qed (simp add: refreshBlock_def blocksById_def jsMapGet_def bigBlocks_def Let_def)
qed

lemma big_apply:
  assumes "smInv sm" and "sm = bigSample\<lparr>contextChangesCache := contextChangesCache sm\<rparr>"
  obtains s' where "eff_forEach 0 (\<lambda>i b. setBlockSummary (ci_worlds bigEnv i) (pb_entryIds b) (t b)) [hd bigBlocks]
      (bigSession\<lparr>cur_manager := sm\<rparr>) = Some (Inr (), s')"
proof -
  let ?s = "bigSession\<lparr>cur_manager := sm\<rparr>"
  have b: "getBranch None sm = Some bigEntries" "getEntries sm = bigEntries"
    by (subst assms(2), simp add: big_run(4) big_branch)+
  have "freshWorld (sampleWorld ''cccccccc-0'') sm"
    using assms(1) b(2) by (intro freshWorld_sample) (simp_all add: smInv_def bigEntries_def sampleEntry_def)
  then have "freshLoop (ci_worlds bigEnv) 0 (map (summaryBlock t) [hd bigBlocks]) sm"
    by (auto simp: summaryChanges_def bigEnv_def big_first intro: freshBatch_single split: option.splits)
  moreover have "\<forall>b \<in> set [hd bigBlocks]. summaryBlock t b \<noteq> [] \<and> (\<forall>ch \<in> set (summaryBlock t b). changeable bigEntries ch)"
    by (simp add: big_first summaryChanges_def changeable_def)
       (simp add: bigEntries_def sampleEntry_def visibleEntry_def sessionEntryToContextMessages_def sampleUser_def)
  ultimately obtain s' where "eff_forEach 0 (\<lambda>i b. changeBlock (ci_worlds bigEnv i) (summaryBlock t b)) [hd bigBlocks] ?s = Some (Inr (), s')"
    using forEach_run [of ?s bigEntries "[hd bigBlocks]" "summaryBlock t" "ci_worlds bigEnv" 0] assms(1) b(1) by auto
  moreover have ne: "\<forall>b \<in> set [hd bigBlocks]. pb_entryIds b \<noteq> []" by (simp add: big_first)
  ultimately show thesis using that by (simp only: summaryLoop [OF ne])
qed

lemma big_summarize:
  obtains sel' s' where "summarizeSelection bigEnv wideModel bigSelection bigSession = Some (Inr sel', s')" "sl_eligible sel' = [hd bigBlocks]"
proof -
  let ?g = "\<lparr>gs_block = hd bigBlocks, gs_sourceSnapshot = snapshotContextBlock (hd bigBlocks), gs_summary = ''ok''\<rparr>"
  have env: "ci_await bigEnv = id" "ci_auth bigEnv = (\<lambda>m w. (Inr m, w))" "ci_summarizer bigEnv = usageSummarizer" by (simp_all add: bigEnv_def)
  have s0: "bigSession = bigSession\<lparr>cur_manager := bigSample\<rparr>" by (simp add: bigSession_def)
  have s2: "bigSession\<lparr>cur_world := ()\<rparr> = bigSession" by (simp add: bigSession_def)
  have s1: "bigSample = bigSample\<lparr>contextChangesCache := contextChangesCache bigSample\<rparr>" by simp
  obtain sm1 sel1 where 1: "refreshContextBlockSelection bigSelection bigSession = Some (Inr sel1, bigSession\<lparr>cur_manager := sm1\<rparr>)"
    "sl_eligible sel1 = [hd bigBlocks]" "smInv sm1" "sm1 = bigSample\<lparr>contextChangesCache := contextChangesCache sm1\<rparr>"
    by (rule big_refresh [OF big_run(2) s1 bigSelection_eligible(1), folded s0])
  obtain sm2 sel2 where 2: "refreshContextBlockSelection sel1 (bigSession\<lparr>cur_manager := sm1\<rparr>) = Some (Inr sel2, bigSession\<lparr>cur_manager := sm2\<rparr>)"
    "sl_eligible sel2 = [hd bigBlocks]" "smInv sm2" "sm2 = bigSample\<lparr>contextChangesCache := contextChangesCache sm2\<rparr>"
    by (rule big_refresh [OF 1(3,4,2)])
  have k: "sl_eligible (keepCurrent [?g] sel2) = [hd bigBlocks]"
    by (simp add: keepCurrent_def 2(2) isCurrent_def summaryFor_def jsMapGet_def)
  obtain s' where f: "eff_forEach 0 (applySummary (ci_worlds bigEnv) [?g]) [hd bigBlocks] (bigSession\<lparr>cur_manager := sm2\<rparr>) = Some (Inr (), s')"
    unfolding applySummary_eq by (rule big_apply [OF 2(3,4)])
  have c: "summarizeCandidates bigEnv wideModel [hd bigBlocks] bigSelection bigSession = Some (Inr (sel1, [?g]), bigSession\<lparr>cur_manager := sm1\<rparr>)"
    by (simp add: eff_bind_def 1(1,2) awaitCall_def env big_summary eff_return_def)
  have "summarizeSelection bigEnv wideModel bigSelection bigSession = Some (Inr (keepCurrent [?g] sel2), s')"
    by (simp add: summarizeSelection_def eff_bind_def awaitCall_def env bigSelection_eligible s2 c 2(1) k f Let_def eff_return_def
        del: summarizeCandidates.simps eff_forEach.simps)
  then show thesis using that k by blast
qed

theorem summarize_applies_current_only_witness:
  "\<exists>sel' s' (s3 :: unit curated_session) iv sm3 t. summarizeSelection bigEnv wideModel bigSelection bigSession = Some (Inr sel', s') \<and>
     getContextBlockInventory (cur_manager s3) = Some (Inr iv, sm3) \<and> hd bigBlocks \<in> set (fst iv) \<and>
     ''aaaaaaaa'' \<notin> set (snd iv) \<and> summarisedAs usageSummarizer (hd bigBlocks) t"
proof -
  obtain sel' s' where r: "summarizeSelection bigEnv wideModel bigSelection bigSession = Some (Inr sel', s')" "sl_eligible sel' = [hd bigBlocks]"
    by (rule big_summarize)
  have i: "smInv (cur_manager bigSession)" by (simp add: bigSession_def big_run(2))
  have aw: "\<forall>s. smInv (cur_manager s) \<longrightarrow> smInv (cur_manager (ci_await bigEnv s))" by (simp add: bigEnv_def)
  from summarize_applies_current_only [OF i aw r(1)] obtain s3 iv sm3 summary where
    "getContextBlockInventory (cur_manager (s3 :: unit curated_session)) = Some (Inr iv, sm3)"
    "\<forall>b \<in> set (sl_eligible sel'). b \<in> set (fst iv) \<and> blockId b \<notin> set (snd iv) \<and> summarisedAs (ci_summarizer bigEnv) b (summary b)"
    by (elim exE conjE) (rule that, assumption+)
  moreover have "ci_summarizer bigEnv = usageSummarizer" "blockId (hd bigBlocks) = ''aaaaaaaa''" by (simp_all add: bigEnv_def big_first)
  ultimately show ?thesis using r by (intro exI conjI) auto
qed

end
