(* ===== verification/Session_Branching.thy ===== *)
theory Session_Branching
  imports Session_Properties
begin

text \<open>
  The methods of \<open>SessionManager\<close> that start a session from another one: \<open>createBranchedSession\<close> extracts the path to
  a leaf, \<open>forkFrom\<close> copies a session file. The path is copied without its label and prune entries, which are written
  again at its end; parent links and compaction boundaries that named a dropped entry are redirected. The main result
  is that none of this changes the context of the model.
\<close>

section \<open>Extracting a path\<close>

definition dropped :: "session_entry \<Rightarrow> bool" where
  "dropped e = (case e_data e of LabelEntry _ _ \<Rightarrow> True | PruneEntry _ _ _ \<Rightarrow> True | _ \<Rightarrow> False)"

text \<open>The copy of one entry, with its new parent and the redirections collected so far.\<close>

definition rechain :: "string option \<Rightarrow> (string \<times> string) list \<Rightarrow> session_entry \<Rightarrow> session_entry" where
  "rechain pathParentId replacementByDroppedId e =
     (case e_data e of
        CompactionEntry c \<Rightarrow>
          e\<lparr>e_parentId := pathParentId,
            e_data := CompactionEntry (c\<lparr>ce_firstKeptEntryId :=
              (case map_of replacementByDroppedId (ce_firstKeptEntryId c) of Some r \<Rightarrow> r | None \<Rightarrow> ce_firstKeptEntryId c)\<rparr>)\<rparr>
      | _ \<Rightarrow> e\<lparr>e_parentId := pathParentId\<rparr>)"

fun retainPath :: "string option \<Rightarrow> string list \<Rightarrow> (string \<times> string) list \<Rightarrow> session_entry list \<Rightarrow> session_entry list" where
  "retainPath pathParentId pending repl [] = []"
| "retainPath pathParentId pending repl (e # es) =
     (if dropped e then retainPath pathParentId (pending @ [e_id e]) repl es
      else let repl' = fold (\<lambda>d. AList.update d (e_id e)) pending repl
           in rechain pathParentId repl' e # retainPath (Some (e_id e)) [] repl' es)"

text \<open>A label without a time stamp does not occur (lemma \<open>labels_stamped\<close>).\<close>

definition labelsToWrite :: "string list \<Rightarrow> session_manager \<Rightarrow> (string \<times> string \<times> int) list" where
  "labelsToWrite pathEntryIds sm =
     map (\<lambda>(t, l). (t, l, case map_of (labelTimestampsById sm) t of Some ts \<Rightarrow> ts | None \<Rightarrow> 0))
       (filter (\<lambda>(t, l). t \<in> set pathEntryIds) (labelsById sm))"

definition prunesToWrite :: "string list \<Rightarrow> session_manager \<Rightarrow> session_entry list" where
  "prunesToWrite pathEntryIds sm =
     filter (\<lambda>e. case e_data e of PruneEntry t _ _ \<Rightarrow> t \<in> set pathEntryIds | _ \<Rightarrow> False) (map snd (legacyPruneChanges sm))"

fun copyLabels ::
  "(nat \<Rightarrow> nat \<Rightarrow> string) \<Rightarrow> nat \<Rightarrow> string list \<Rightarrow> string option \<Rightarrow> (string \<times> string \<times> int) list \<Rightarrow> session_entry list" where
  "copyLabels uuids i taken parentId [] = []"
| "copyLabels uuids i taken parentId ((targetId, label, stamp) # ls) =
     (let newId = generateId (uuids i) (\<lambda>x. x \<in> set taken)
      in \<lparr>e_id = newId, e_parentId = parentId, e_timestamp = stamp, e_data = LabelEntry targetId (Some label)\<rparr>
         # copyLabels uuids (Suc i) (taken @ [newId]) (Some newId) ls)"

fun copyPrunes :: "string option \<Rightarrow> session_entry list \<Rightarrow> session_entry list" where
  "copyPrunes parentId [] = []"
| "copyPrunes parentId (e # es) = e\<lparr>e_parentId := parentId\<rparr> # copyPrunes (Some (e_id e)) es"

definition lastId :: "string option \<Rightarrow> session_entry list \<Rightarrow> string option" where
  "lastId parentId es = (if es = [] then parentId else Some (e_id (last es)))"

text \<open>The entries of the new session; the code builds them in the same way with and without a file.\<close>

definition branchedEntries :: "(nat \<Rightarrow> nat \<Rightarrow> string) \<Rightarrow> session_entry list \<Rightarrow> session_manager \<Rightarrow> session_entry list" where
  "branchedEntries uuids path sm =
     (let retained = retainPath None [] [] path;
          pathEntryIds = map e_id retained;
          prunes = prunesToWrite pathEntryIds sm;
          labels = copyLabels uuids 0 (pathEntryIds @ map e_id prunes) (lastId None retained) (labelsToWrite pathEntryIds sm)
      in retained @ labels @ copyPrunes (lastId (lastId None retained) labels) prunes)"

definition createBranchedSession ::
  "world \<Rightarrow> (nat \<Rightarrow> nat \<Rightarrow> string) \<Rightarrow> string \<Rightarrow> session_manager \<Rightarrow> (string option js_result \<times> session_manager) option" where
  "createBranchedSession w uuids leaf sm =
     map_option (\<lambda>path.
       if path = [] then (Inl (JsError (''Entry '' @ leaf @ '' not found'')), sm)
       else let header = \<lparr>h_version = Some CURRENT_SESSION_VERSION, h_id = w_sessionId w, h_timestamp = w_now w, h_cwd = sm_cwd sm,
                          h_parentSession = (if sm_persist sm then sessionFile sm else None)\<rparr>;
                sm1 = sm\<lparr>fileEntries := Header header # map Entry (branchedEntries uuids path sm), sessionId := w_sessionId w\<rparr>
            in if sm_persist sm
               then let sm2 = buildIndex (sm1\<lparr>sessionFile := Some (w_fileName w)\<rparr>)
                    in (Inr (Some (w_fileName w)),
                        if hasAssistant sm2 then (rewriteFile sm2)\<lparr>flushed := True\<rparr> else sm2\<lparr>flushed := False\<rparr>)
               else (Inr None, buildIndex sm1))
       (getBranch (Some leaf) sm)"

section \<open>Forking a file\<close>

definition loadEntriesFromFile :: "disk \<Rightarrow> string \<Rightarrow> file_entry list" where
  "loadEntriesFromFile disk f = (case disk f of None \<Rightarrow> [] | Some content \<Rightarrow> validSessionEntries content)"

text \<open>On resolved paths: \<open>w_fileName w\<close> is the new file in the session directory.\<close>

definition forkFrom ::
  "string \<Rightarrow> string \<Rightarrow> string \<Rightarrow> string option \<Rightarrow> (nat \<Rightarrow> nat \<Rightarrow> string) \<Rightarrow> world \<Rightarrow> disk \<Rightarrow> session_manager js_result \<times> disk" where
  "forkFrom sourcePath targetCwd dir optionId uuids w disk =
     (let sourceEntries = loadEntriesFromFile disk sourcePath
      in if sourceEntries = []
         then (Inl (JsError (''Cannot fork: source session file is empty or invalid: '' @ sourcePath)), disk)
         else if findHeader sourceEntries = None
         then (Inl (JsError (''Cannot fork: source session has no header: '' @ sourcePath)), disk)
         else case (case optionId of None \<Rightarrow> Inr () | Some i \<Rightarrow> assertValidSessionId i) of
           Inl err \<Rightarrow> (Inl err, disk)
         | Inr _ \<Rightarrow>
             (let newHeader = \<lparr>h_version = Some CURRENT_SESSION_VERSION,
                               h_id = (case optionId of Some i \<Rightarrow> i | None \<Rightarrow> w_sessionId w), h_timestamp = w_now w,
                               h_cwd = targetCwd, h_parentSession = Some sourcePath\<rparr>;
                  newFile = w_fileName w
              in if disk newFile \<noteq> None then (Inl (FsError ''EEXIST''), disk)
                 else let disk' = disk(newFile := Some (Header newHeader # map Entry (entriesOf sourceEntries)));
                          (r, sm) = constructManager targetCwd dir (Some newFile) True None None False uuids w disk'
                      in (map_sum id (\<lambda>_. sm) r, sm_disk sm)))"

section \<open>Copies of entries\<close>

abbreviation retained :: "session_entry list \<Rightarrow> session_entry list" where
  "retained es \<equiv> filter (\<lambda>e. \<not> dropped e) es"

text \<open>Equal up to the parent link and the boundary of a compaction.\<close>

definition sameData :: "entry_data \<Rightarrow> entry_data \<Rightarrow> bool" where
  "sameData d d' \<longleftrightarrow> d' = d \<or> (\<exists>c k. d = CompactionEntry c \<and> d' = CompactionEntry (c\<lparr>ce_firstKeptEntryId := k\<rparr>))"

definition sameEntry :: "session_entry \<Rightarrow> session_entry \<Rightarrow> bool" where
  "sameEntry e e' \<longleftrightarrow> e_id e' = e_id e \<and> e_timestamp e' = e_timestamp e \<and> sameData (e_data e) (e_data e')"

lemma rechain_same: "sameEntry e (rechain p r e)"
  by (cases "e_data e") (auto simp: sameEntry_def sameData_def rechain_def)

lemma retain_same: "list_all2 sameEntry (retained es) (retainPath p pend repl es)"
  by (induction p pend repl es rule: retainPath.induct) (auto simp: Let_def rechain_same)

lemma retain_ids: "map e_id (retainPath p pend repl es) = map e_id (retained es)"
  using retain_same [of es p pend repl] by (induction rule: list_all2_induct) (auto simp: sameEntry_def)

lemma retain_linear: "linearFrom p (retainPath p pend repl es)"
proof (induction p pend repl es rule: retainPath.induct)
  case (2 p pend repl e es)
  have "e_parentId (rechain p r e) = p" "e_id (rechain p r e) = e_id e" for r
    by (cases "e_data e"; simp add: rechain_def)+
  with 2 show ?case by (simp add: Let_def)
qed simp

lemma sameEntry_simps:
  assumes "sameEntry e e'"
  shows "e_id e' = e_id e" "isCompaction e' = isCompaction e" "isSystemEntry e' = isSystemEntry e" "applySetting e' s = applySetting e s"
    "editEffect e' = map_option (map_prod id (map_option (\<lambda>_. e'))) (editEffect e)" "dropped e' = dropped e"
    "dataTarget (e_data e') = dataTarget (e_data e)" "recordLegacyPrune e' m = (case e_data e of PruneEntry t _ _ \<Rightarrow> AList.update t e' m | _ \<Rightarrow> m)"
    "applyLabel e' ls = applyLabel e ls"
  using assms
  by (cases s; cases "e_data e"; auto simp: sameEntry_def sameData_def isCompaction_def isSystemEntry_def editEffect_def dropped_def
      dataTarget_def recordLegacyPrune_def applyLabel_def)+

lemma projectContextEntry_same:
  assumes "sameEntry e e'" and "rel_option (\<lambda>a b. e_data b = e_data a) ch ch'"
  shows "projectContextEntry e' ch' = projectContextEntry e ch"
proof -
  have m: "sessionEntryToContextMessages e' = sessionEntryToContextMessages e"
    using assms(1) by (cases "e_data e") (auto simp: sameEntry_def sameData_def sessionEntryToContextMessages_def)
  have s: "contextSummary t e' = contextSummary t e" for t using assms(1) by (simp add: contextSummary_def sameEntry_def)
  have c: "map_option ce_systemMessage (compactionOf e') = map_option ce_systemMessage (compactionOf e)"
    using assms(1) by (cases "e_data e") (auto simp: sameEntry_def sameData_def)
  have r: "replaceContent e' x cur msg = replaceContent e x cur msg" for x cur msg
  proof (cases msg)
    case (System sys)
    then show ?thesis using assms(1) s by (cases "e_data e") (auto simp: sameEntry_def sameData_def)
  qed (simp_all add: s)
  have cs: "(case compactionOf e' of Some c \<Rightarrow> (case ce_systemMessage c of Some sm \<Rightarrow> f sm | None \<Rightarrow> z) | None \<Rightarrow> z) =
    (case compactionOf e of Some c \<Rightarrow> (case ce_systemMessage c of Some sm \<Rightarrow> f sm | None \<Rightarrow> z) | None \<Rightarrow> z)" for f :: "system_message \<Rightarrow> agent_message list" and z
    using c by (cases "compactionOf e"; cases "compactionOf e'") simp_all
  show ?thesis using assms(2)
    by (cases ch; cases ch')
       (simp_all add: projectContextEntry_def m s r cs Let_def del: compactionOf.simps split: entry_data.split option.split)
qed

section \<open>Redirected boundaries\<close>

text \<open>The first entry that is kept from a given id on.\<close>

definition nextKept :: "string \<Rightarrow> session_entry list \<Rightarrow> string option" where
  "nextKept k es = map_option e_id (List.find (\<lambda>e. \<not> dropped e) (startingAt k es))"

definition scanStep :: "session_entry \<Rightarrow> string list \<times> (string \<times> string) list \<Rightarrow> string list \<times> (string \<times> string) list" where
  "scanStep e s = (if dropped e then (fst s @ [e_id e], snd s) else ([], fold (\<lambda>d. AList.update d (e_id e)) (fst s) (snd s)))"

lemma retain_append:
  "retainPath p (fst s) (snd s) (xs @ ys) =
     retainPath p (fst s) (snd s) xs
     @ retainPath (lastId p (retained xs)) (fst (fold scanStep xs s)) (snd (fold scanStep xs s)) ys"
proof (induction xs arbitrary: p s)
  case (Cons x xs)
  have l: "lastId p (x # zs) = lastId (Some (e_id x)) zs" for zs by (simp add: lastId_def)
  show ?case
  proof (cases "dropped x")
    case True
    then show ?thesis using Cons [of p "(fst s @ [e_id x], snd s)"] by (simp add: scanStep_def)
  next
    case False
    then show ?thesis using Cons [of "Some (e_id x)" "([], fold (\<lambda>d. AList.update d (e_id x)) (fst s) (snd s))"]
      by (simp add: scanStep_def Let_def l)
  qed
qed (simp add: lastId_def)

lemma map_of_redirected:
  "map_of (fold (\<lambda>d. AList.update d v) ds m) k = (if k \<in> set ds then Some v else map_of m k)"
  by (induction ds arbitrary: m) auto

lemma nextKept_snoc:
  assumes "k \<in> ids xs"
  shows "nextKept k (xs @ [x]) = (case nextKept k xs of Some r \<Rightarrow> Some r | None \<Rightarrow> if dropped x then None else Some (e_id x))"
  using assms by (simp add: nextKept_def fromId_append_in find_append split: option.split)

lemma scan_spec:
  assumes "distinct (map e_id xs)"
  shows "(k \<in> set (fst (fold scanStep xs ([], []))) \<longleftrightarrow> k \<in> ids (filter dropped xs) \<and> nextKept k xs = None) \<and>
         map_of (snd (fold scanStep xs ([], []))) k = (if k \<in> ids (filter dropped xs) then nextKept k xs else None)"
  using assms
proof (induction xs rule: rev_induct)
  case (snoc x xs)
  let ?s = "fold scanStep xs ([], [])"
  have d: "distinct (map e_id xs)" and x: "e_id x \<notin> ids xs" using snoc.prems by (auto simp: image_iff)
  have IH: "k \<in> set (fst ?s) \<longleftrightarrow> k \<in> ids (filter dropped xs) \<and> nextKept k xs = None"
    "map_of (snd ?s) k = (if k \<in> ids (filter dropped xs) then nextKept k xs else None)" using snoc.IH [OF d] by blast+
  have sub: "k \<in> ids (filter dropped xs) \<Longrightarrow> k \<in> ids xs" by auto
  show ?case
  proof (cases "k = e_id x")
    case True
    then have kx: "k \<notin> ids xs" using x by simp
    then have out: "k \<notin> ids (filter dropped xs)" using sub by blast
    have "startingAt k (xs @ [x]) = [x]" using True fromId_append_out [OF kx, of "[x]"] by simp
    then have "nextKept k (xs @ [x]) = (if dropped x then None else Some k)" using True by (simp add: nextKept_def)
    moreover have "k \<in> ids (filter dropped (xs @ [x])) \<longleftrightarrow> dropped x" using True out by auto
    moreover have "k \<notin> set (fst ?s)" "map_of (snd ?s) k = None" using IH out by simp_all
    ultimately show ?thesis by (simp add: scanStep_def [of x] map_of_redirected True [symmetric] del: set_filter filter_append)
  next
    case False
    then have "k \<in> ids (filter dropped (xs @ [x])) \<longleftrightarrow> k \<in> ids (filter dropped xs)" by auto
    then show ?thesis using IH nextKept_snoc [of k xs x] sub False
      by (cases "k \<in> ids (filter dropped xs)") (auto simp: scanStep_def [of x] map_of_redirected split: option.splits)
  qed
qed simp

lemma startingAt_out: "k \<notin> ids xs \<Longrightarrow> startingAt k xs = []"
  by (induction xs) auto

lemma distinct_map_startingAt: "distinct (map e_id xs) \<Longrightarrow> distinct (map e_id (startingAt k xs))"
  by (meson subseq_distinct_map suffix_dropWhile suffix_imp_subseq)

lemma find_startingAt:
  "distinct (map e_id ys) \<Longrightarrow> List.find P ys = Some f \<Longrightarrow> filter P (startingAt (e_id f) ys) = filter P ys \<and> f \<in> set (filter P ys)"
proof (induction ys)
  case (Cons y ys)
  show ?case
  proof (cases "P y")
    case False
    then have f: "List.find P ys = Some f" using Cons.prems(2) by simp
    then have "f \<in> set ys" using Cons by auto
    then have "e_id y \<noteq> e_id f" using Cons.prems(1) by (auto simp: image_iff)
    then show ?thesis using Cons f False by simp
  qed (use Cons.prems in auto)
qed simp

text \<open>The entries kept from the old boundary on are the ones from the redirected boundary on.\<close>

lemma redirected_boundary:
  assumes d: "distinct (map e_id (pre @ [c]))" and c: "\<not> dropped c"
    and k': "k' = (case (if k \<in> ids (filter dropped pre) then nextKept k (pre @ [c]) else None) of Some r \<Rightarrow> r | None \<Rightarrow> k)"
  shows "startingAt k' (retained pre) = retained (startingAt k pre)"
proof -
  have dp: "distinct (map e_id pre)" and cp: "e_id c \<notin> ids pre" using d by (auto simp: image_iff)
  consider (dropped) "k \<in> ids (filter dropped pre)" | (kept) "k \<in> ids (retained pre)" | (out) "k \<notin> ids pre" by auto
  then show ?thesis
  proof cases
    case dropped
    then have kp: "k \<in> ids pre" by auto
    note nk = nextKept_snoc [OF kp, of c]
    have ds: "distinct (map e_id (startingAt k pre))" using dp by (simp add: distinct_map_startingAt)
    show ?thesis
    proof (cases "List.find (\<lambda>e. \<not> dropped e) (startingAt k pre)")
      case None
      then have "k' = e_id c" using dropped c nk by (simp add: k' nextKept_def [of k pre])
      moreover have "retained (startingAt k pre) = []" using None by (simp add: find_None_iff filter_empty_conv)
      ultimately show ?thesis using cp startingAt_out [of "e_id c" "retained pre"] by auto
    next
      case (Some f)
      then have k: "k' = e_id f" using dropped nk by (simp add: k' nextKept_def [of k pre])
      from find_startingAt [OF ds Some] have f: "retained (startingAt (e_id f) (startingAt k pre)) = retained (startingAt k pre)"
        "f \<in> set (startingAt k pre)" "\<not> dropped f" by auto
      have "f \<in> set pre" using f(2) set_dropWhileD by metis
      then have "startingAt (e_id f) (retained pre) = retained (startingAt (e_id f) pre)" using f(3) by (intro fromId_filter [OF dp]) auto
      then show ?thesis using fromId_fromId [OF dp, of "e_id f" k] f(1,2) by (simp add: k)
    qed
  next
    case kept
    then have "k \<notin> ids (filter dropped pre)" using dp by (auto simp: distinct_map inj_on_def)
    then show ?thesis using kept by (simp add: k' fromId_filter [OF dp])
  next
    case out
    then have "k' = k" "k \<notin> ids (retained pre)" by (auto simp: k')
    then show ?thesis using out by (simp add: startingAt_out)
  qed
qed

section \<open>Changes of the copied path\<close>

abbreviation sameChange :: "session_entry option \<Rightarrow> session_entry option \<Rightarrow> bool" where
  "sameChange \<equiv> rel_option (\<lambda>a b. e_data b = e_data a)"

lemma dropped_plain:
  assumes "dropped e"
  shows "editEffect e = None" "\<not> isCompaction e" "sessionEntryToContextMessages e = []" "applySetting e s = s" "\<not> isSystemEntry e"
  using assms by (cases s; cases "e_data e"; simp add: dropped_def editEffect_def isCompaction_def sessionEntryToContextMessages_def isSystemEntry_def)+

lemma edits_retained: "fold applyContextEdit es c = fold applyContextEdit (retained es) c"
  by (induction es arbitrary: c) (auto simp: applyContextEdit_plain dropped_plain)

lemma edits_same:
  "list_all2 sameEntry es es' \<Longrightarrow> (\<And>k. k \<in> K \<Longrightarrow> sameChange (map_of c k) (map_of c' k)) \<Longrightarrow> k \<in> K \<Longrightarrow>
   sameChange (map_of (fold applyContextEdit es c) k) (map_of (fold applyContextEdit es' c') k)"
proof (induction es es' arbitrary: c c' rule: list_all2_induct)
  case (Cons e es e' es')
  have eff: "editEffect e' = map_option (map_prod id (map_option (\<lambda>_. e'))) (editEffect e)" by (rule sameEntry_simps(5) [OF Cons.hyps(1)])
  have "sameChange (map_of (applyContextEdit e c) k) (map_of (applyContextEdit e' c') k)" if "k \<in> K" for k
  proof (cases "editEffect e")
    case None
    then show ?thesis using eff Cons.prems(1) [OF that] by (simp add: edit_log.look_upd)
  next
    case (Some tv)
    moreover have "e_data e' = e_data e"
      using Cons.hyps(1) Some by (auto simp: sameEntry_def sameData_def editEffect_def)
    moreover have "snd tv = None \<or> snd tv = Some e" using Some by (auto simp: editEffect_def split: entry_data.splits)
    ultimately show ?thesis using eff Cons.prems(1) [OF that] by (cases tv) (auto simp: edit_log.look_upd)
  qed
  then show ?case using Cons.IH [of "applyContextEdit e c" "applyContextEdit e' c'"] Cons.prems(2) by simp
qed simp

text \<open>A legacy record is filed under its target.\<close>

definition legacyOk :: "changes \<Rightarrow> bool" where
  "legacyOk legacy \<longleftrightarrow> distinct (map fst legacy) \<and> (\<forall>(t, e) \<in> set legacy. \<exists>st sm. e_data e = PruneEntry t st sm)"

lemma legacyOk_fold: "legacyOk m \<Longrightarrow> legacyOk (fold recordLegacyPrune es m)"
proof (induction es arbitrary: m)
  case (Cons e es)
  have "legacyOk (recordLegacyPrune e m)"
  proof (cases "e_data e")
    case (PruneEntry t st sm)
    have "set (AList.update t e m) \<subseteq> insert (t, e) (set m)" by (induction m) auto
    then show ?thesis using Cons.prems PruneEntry
      by (auto simp: legacyOk_def recordLegacyPrune_def distinct_update)
  qed (use Cons.prems in \<open>simp_all add: recordLegacyPrune_def\<close>)
  then show ?case using Cons.IH by simp
qed simp

lemma legacy_of_manager: "coreInv sm \<Longrightarrow> legacyOk (legacyPruneChanges sm)"
  using legacyOk_fold [of "[]" "getEntries sm"] by (simp add: coreInv_def legacyOk_def)

lemma prunes_by_key:
  assumes "legacyOk (legacyPruneChanges sm)"
  shows "prunesToWrite K sm = map snd (filter (\<lambda>(t, e). t \<in> set K) (legacyPruneChanges sm))"
proof -
  have "filter (\<lambda>e. case e_data e of PruneEntry t _ _ \<Rightarrow> t \<in> set K | _ \<Rightarrow> False) (map snd L) = map snd (filter (\<lambda>(t, e). t \<in> set K) L)"
    if "\<forall>(t, e) \<in> set L. \<exists>st sm. e_data e = PruneEntry t st sm" for L
    using that by (induction L) auto
  from this [of "legacyPruneChanges sm"] assms show ?thesis unfolding prunesToWrite_def legacyOk_def by blast
qed

lemma copied_prunes:
  "\<forall>(t, e) \<in> set L. \<exists>st sm. e_data e = PruneEntry t st sm \<Longrightarrow> sameChange (map_of m k) (map_of m' k) \<Longrightarrow>
   sameChange (map_of (fold (\<lambda>(t, e). AList.update t e) L m) k) (map_of (fold recordLegacyPrune (copyPrunes p (map snd L)) m') k)"
proof (induction L arbitrary: m m' p)
  case (Cons te L)
  obtain t e where te: "te = (t, e)" by force
  then obtain st su where "e_data e = PruneEntry t st su" using Cons.prems(1) by auto
  then show ?case using te Cons.prems
      Cons.IH [of "AList.update t e m" "AList.update t (e\<lparr>e_parentId := p\<rparr>) m'" "Some (e_id e)"]
    by (auto simp: recordLegacyPrune_def)
qed simp

lemma map_of_fold_updates: "map_of (fold (\<lambda>(t, e). AList.update t e) L m) = map_of m ++ map_of (rev L)"
  by (induction L arbitrary: m) (auto simp: fun_eq_iff map_add_def split: option.split)

definition isPrune :: "session_entry \<Rightarrow> bool" where
  "isPrune e = (case e_data e of PruneEntry _ _ _ \<Rightarrow> True | _ \<Rightarrow> False)"

lemma prune_dropped: "isPrune e \<Longrightarrow> dropped e"
  by (simp add: isPrune_def dropped_def split: entry_data.splits)

lemma unrecorded: "\<forall>e \<in> set es. \<not> isPrune e \<Longrightarrow> fold recordLegacyPrune es m = m"
  by (induction es arbitrary: m) (auto simp: recordLegacyPrune_def isPrune_def split: entry_data.splits)

lemma map_of_rev_distinct: "distinct (map fst L) \<Longrightarrow> map_of (rev L) = map_of L"
proof -
  assume d: "distinct (map fst L)"
  then have "distinct (map fst (rev L))" by (simp add: rev_map [symmetric])
  with d show ?thesis by (intro ext) (metis map_of_eq_Some_iff set_rev not_None_eq)
qed

text \<open>The legacy baseline of the copy.\<close>

lemma legacy_copied:
  assumes "legacyOk (legacyPruneChanges sm)" and "k \<in> set K"
  shows "sameChange (map_of (legacyPruneChanges sm) k) (map_of (fold recordLegacyPrune (copyPrunes p (prunesToWrite K sm)) []) k)"
proof -
  let ?L = "filter (\<lambda>(t, e). t \<in> set K) (legacyPruneChanges sm)"
  have d: "distinct (map fst ?L)" using assms(1) by (simp add: legacyOk_def distinct_map_filter)
  have pr: "\<forall>(t, e) \<in> set ?L. \<exists>st sm. e_data e = PruneEntry t st sm" using assms(1) by (auto simp: legacyOk_def)
  have "map_of (legacyPruneChanges sm) k = map_of ?L k"
  proof -
    have "map_of L k = map_of (filter (\<lambda>(t, e). t \<in> set K) L) k" for L :: changes using assms(2) by (induction L) auto
    then show ?thesis .
  qed
  then have e: "map_of (fold (\<lambda>(t, e). AList.update t e) ?L []) k = map_of (legacyPruneChanges sm) k"
    using d by (simp add: map_of_fold_updates map_of_rev_distinct)
  then show ?thesis using copied_prunes [OF pr, of "[]" k "[]" p] unfolding prunes_by_key [OF assms(1)] e by simp
qed

section \<open>Messages of the copied path\<close>

definition contribution :: "changes \<Rightarrow> session_entry \<Rightarrow> agent_message list" where
  "contribution ch e = (if isCompaction e then [] else projectContextEntry e (map_of ch (e_id e)))"

abbreviation contributions :: "changes \<Rightarrow> session_entry list \<Rightarrow> agent_message list" where
  "contributions ch es \<equiv> concat (map (contribution ch) es)"

abbreviation projectedMessages :: "changes \<Rightarrow> session_entry list \<Rightarrow> agent_message list" where
  "projectedMessages ch es \<equiv> concat (map pe_messages (projectEntries ch es))"

lemma projected_Cons: "projectedMessages ch (e # es) = projectContextEntry e (map_of ch (e_id e)) @ contributions ch es"
  by (auto simp: projectOne_def contribution_def comp_def intro!: arg_cong [of _ _ concat])

lemma projected_plain: "\<forall>e \<in> set es. \<not> isCompaction e \<Longrightarrow> projectedMessages ch es = contributions ch es"
  by (cases es) (simp_all add: projected_Cons contribution_def del: projectEntries.simps(2))

lemma contribution_dropped: "dropped e \<Longrightarrow> map_of ch (e_id e) = None \<Longrightarrow> contribution ch e = []"
  by (simp add: contribution_def projectContextEntry_def dropped_plain)

lemma contributions_retained:
  "\<forall>e \<in> set es. dropped e \<longrightarrow> map_of ch (e_id e) = None \<Longrightarrow> contributions ch es = contributions ch (retained es)"
  by (induction es) (auto simp: contribution_dropped)

lemma contributions_same:
  "list_all2 sameEntry es es' \<Longrightarrow> \<forall>e \<in> set es. sameChange (map_of ch (e_id e)) (map_of ch' (e_id e)) \<Longrightarrow>
   contributions ch' es' = contributions ch es"
proof (induction es es' rule: list_all2_induct)
  case (Cons e es e' es')
  then have "contribution ch' e' = contribution ch e"
    using projectContextEntry_same [OF Cons.hyps(1)] by (simp add: contribution_def sameEntry_simps(1,2) [OF Cons.hyps(1)])
  with Cons show ?case by simp
qed simp

lemma keptBefore_same: "list_all2 sameEntry es es' \<Longrightarrow> list_all2 sameEntry (keptBefore k b es) (keptBefore k b es')"
  by (induction es es' arbitrary: b rule: list_all2_induct) (auto simp: Let_def sameEntry_simps)

lemma list_all2_plain: "list_all2 sameEntry es es' \<Longrightarrow> \<forall>e \<in> set es. \<not> isCompaction e \<Longrightarrow> \<forall>e \<in> set es'. \<not> isCompaction e"
  by (induction es es' rule: list_all2_induct) (auto simp: sameEntry_simps(2))

lemma keptBefore_redirected:
  assumes "distinct (map e_id (pre @ [c]))" and "\<not> dropped c"
    and "k' = (case (if k \<in> ids (filter dropped pre) then nextKept k (pre @ [c]) else None) of Some r \<Rightarrow> r | None \<Rightarrow> k)"
  shows "keptBefore k' False (retained pre) = retained (keptBefore k False pre)"
  unfolding keptBefore_fromId redirected_boundary [OF assms] filter_filter by (rule filter_cong) auto

lemma retain_compaction:
  assumes d: "distinct (map e_id (pre @ c # post))" and c: "compactionOf c = Some cd"
  obtains c' post' k' where "retainPath None [] [] (pre @ c # post) = retainPath None [] [] pre @ c' # post'"
    "sameEntry c c'" "list_all2 sameEntry (retained post) post'" "compactionOf c' = Some (cd\<lparr>ce_firstKeptEntryId := k'\<rparr>)"
    "keptBefore k' False (retained pre) = retained (keptBefore (ce_firstKeptEntryId cd) False pre)"
proof -
  have nd: "\<not> dropped c" using c by (auto simp: dropped_def split: entry_data.splits)
  have d': "distinct (map e_id (pre @ [c]))" using d by simp
  let ?s = "fold scanStep pre ([], [])" and ?k = "ce_firstKeptEntryId cd"
  let ?repl = "snd (fold scanStep (pre @ [c]) ([], []))"
  have r: "fold (\<lambda>d. AList.update d (e_id c)) (fst ?s) (snd ?s) = ?repl" using nd by (simp add: scanStep_def [of c])
  let ?k' = "case map_of ?repl ?k of Some r \<Rightarrow> r | None \<Rightarrow> ?k"
  have "map_of ?repl ?k = (if ?k \<in> ids (filter dropped pre) then nextKept ?k (pre @ [c]) else None)"
    using scan_spec [OF d', of ?k] nd by simp
  then have kb: "keptBefore ?k' False (retained pre) = retained (keptBefore ?k False pre)"
    by (intro keptBefore_redirected [OF d' nd]) simp
  have eq: "retainPath None [] [] (pre @ c # post) = retainPath None [] [] pre
      @ rechain (lastId None (retained pre)) ?repl c # retainPath (Some (e_id c)) [] ?repl post"
    using retain_append [of None "([], [])" pre "c # post"] nd r by (simp add: Let_def)
  have "compactionOf (rechain q ?repl c) = Some (cd\<lparr>ce_firstKeptEntryId := ?k'\<rparr>)" for q
    using c by (auto simp: rechain_def split: entry_data.splits)
  then show thesis by (rule that [OF eq rechain_same retain_same _ kb])
qed

lemma contributions_copy:
  assumes "list_all2 sameEntry (retained es) es'" and "set es \<subseteq> set path"
    and "\<forall>e \<in> set path. dropped e \<longrightarrow> map_of ch (e_id e) = None"
    and "\<forall>e \<in> set (retained path). sameChange (map_of ch (e_id e)) (map_of ch' (e_id e))"
  shows "contributions ch' es' = contributions ch es"
proof -
  have "contributions ch' es' = contributions ch (retained es)"
    by (rule contributions_same [OF assms(1)]) (use assms(2,4) in auto)
  also have "\<dots> = contributions ch es" by (rule contributions_retained [symmetric]) (use assms(2,3) in auto)
  finally show ?thesis .
qed

lemma copied_messages:
  assumes d: "distinct (map e_id path)" and d': "distinct (map e_id (retainPath None [] [] path @ tl'))"
    and T: "\<forall>e \<in> set tl'. dropped e \<and> map_of ch' (e_id e) = None"
    and old: "\<forall>e \<in> set path. dropped e \<longrightarrow> map_of ch (e_id e) = None"
    and same: "\<forall>e \<in> set (retained path). sameChange (map_of ch (e_id e)) (map_of ch' (e_id e))"
  shows "projectedMessages ch' (compactPath (retainPath None [] [] path @ tl')) = projectedMessages ch (compactPath path)"
proof -
  let ?R = "retainPath None [] [] path"
  have tail: "contributions ch' tl' = []" "\<forall>e \<in> set tl'. \<not> isCompaction e"
    using T by (auto simp: contribution_dropped dropped_plain)
  show ?thesis
  proof (cases "\<exists>e \<in> set path. isCompaction e")
    case False
    then have p: "\<forall>e \<in> set path. \<not> isCompaction e" by blast
    then have "\<forall>e \<in> set (retained path). \<not> isCompaction e" by simp
    then have "\<forall>e \<in> set ?R. \<not> isCompaction e" by (rule list_all2_plain [OF retain_same])
    then have R: "\<forall>e \<in> set (?R @ tl'). \<not> isCompaction e" using tail(2) by auto
    have "contributions ch' ?R = contributions ch path" by (rule contributions_copy [OF retain_same subset_refl old same])
    then show ?thesis using p R tail(1) by (simp add: compactPath_plain projected_plain)
  next
    case True
    obtain pre c post where x: "path = pre @ c # post" "isCompaction c" "\<forall>e \<in> set post. \<not> isCompaction e"
    proof -
      have "findLast isCompaction path \<noteq> None" using True by (simp add: findLast_None_iff)
      then show thesis using findLast_split [of isCompaction path] that by blast
    qed
    then obtain cd where cd: "compactionOf c = Some cd" by (auto simp: isCompaction_def)
    then have nd: "\<not> dropped c" by (auto simp: dropped_def split: entry_data.splits)
    let ?k = "ce_firstKeptEntryId cd"
    obtain c' post' k' where y: "?R = retainPath None [] [] pre @ c' # post'" "sameEntry c c'" "list_all2 sameEntry (retained post) post'"
      "compactionOf c' = Some (cd\<lparr>ce_firstKeptEntryId := k'\<rparr>)" "keptBefore k' False (retained pre) = retained (keptBefore ?k False pre)"
      unfolding x(1) by (rule retain_compaction [OF d [unfolded x(1)] cd])
    have "\<forall>e \<in> set (retained post). \<not> isCompaction e" using x(3) by simp
    then have "\<forall>e \<in> set post'. \<not> isCompaction e" by (rule list_all2_plain [OF y(3)])
    then have post': "\<forall>e \<in> set (post' @ tl'). \<not> isCompaction e" using tail(2) by auto
    have new: "compactPath (?R @ tl') = c' # keptBefore k' False (retainPath None [] [] pre) @ post' @ tl'"
      using compactPath_at [OF _ y(4) post'] d' unfolding y(1) by simp
    have kb: "list_all2 sameEntry (retained (keptBefore ?k False pre)) (keptBefore k' False (retainPath None [] [] pre))"
      using keptBefore_same [OF retain_same [of pre None "[]" "[]"], of k' False] unfolding y(5) .
    have sub: "set (keptBefore ?k False pre) \<subseteq> set path" "set post \<subseteq> set path" using keptBefore_subset [of ?k False pre] by (auto simp: x(1))
    have "contributions ch' (keptBefore k' False (retainPath None [] [] pre)) = contributions ch (keptBefore ?k False pre)"
      by (rule contributions_copy [OF kb sub(1) old same])
    moreover have "contributions ch' post' = contributions ch post"
      by (rule contributions_copy [OF y(3) sub(2) old same])
    moreover have "projectContextEntry c' (map_of ch' (e_id c')) = projectContextEntry c (map_of ch (e_id c))"
    proof (rule projectContextEntry_same [OF y(2)])
      have "c \<in> set (retained path)" using nd by (simp add: x(1))
      then show "sameChange (map_of ch (e_id c)) (map_of ch' (e_id c'))" using same sameEntry_simps(1) [OF y(2)] by simp
    qed
    moreover have "compactPath path = c # keptBefore ?k False pre @ post"
      using compactPath_at [OF d [unfolded x(1)] cd x(3)] by (simp add: x(1))
    ultimately show ?thesis using tail(1) by (simp only: new projected_Cons map_append concat_append append_Nil2)
  qed
qed

lemma settings_same: "list_all2 sameEntry es es' \<Longrightarrow> fold applySetting es' s = fold applySetting es s"
  by (induction es es' arbitrary: s rule: list_all2_induct) (auto simp: sameEntry_simps(4))

lemma settings_retained: "fold applySetting es s = fold applySetting (retained es) s"
  by (induction es arbitrary: s) (auto simp: dropped_plain(4))

lemma copied_settings:
  assumes "\<forall>e \<in> set tl'. dropped e"
  shows "getSessionContextSettings (retainPath None [] [] path @ tl') = getSessionContextSettings path"
proof -
  have "fold applySetting tl' s = s" for s using settings_retained [of tl' s] assms by (simp add: filter_False)
  then show ?thesis
    using settings_same [OF retain_same [of path None "[]" "[]"]] settings_retained [of path]
    by (simp add: getSessionContextSettings_def)
qed

section \<open>Ids of the copy\<close>

fun freshCopies :: "(nat \<Rightarrow> nat \<Rightarrow> string) \<Rightarrow> nat \<Rightarrow> string list \<Rightarrow> 'a list \<Rightarrow> bool" where
  "freshCopies uuids i taken [] = True"
| "freshCopies uuids i taken (l # ls) =
     (uuidsOk (uuids i) \<and> uuids i 100 \<notin> set taken \<and>
      freshCopies uuids (Suc i) (taken @ [generateId (uuids i) (\<lambda>x. x \<in> set taken)]) ls)"

lemma copyLabels_ids:
  "freshCopies uuids i taken ls \<Longrightarrow> distinct taken \<Longrightarrow>
   distinct (taken @ map e_id (copyLabels uuids i taken p ls)) \<and> (\<forall>e \<in> set (copyLabels uuids i taken p ls). e_id e \<noteq> [] \<and> dropped e)
   \<and> linearFrom p (copyLabels uuids i taken p ls)"
proof (induction uuids i taken p ls rule: copyLabels.induct)
  case (2 uuids i taken p t l ts ls)
  let ?n = "generateId (uuids i) (\<lambda>x. x \<in> set taken)"
  have n: "?n \<notin> set taken" "?n \<noteq> []"
    using 2(2) generateId_fresh [of "\<lambda>x. x \<in> set taken" "uuids i"] generateId_nonempty [of "uuids i"] by auto
  then show ?case using 2 by (auto simp: Let_def dropped_def)
qed simp

lemma copyPrunes_linear: "linearFrom p (copyPrunes p ps)" "map e_id (copyPrunes p ps) = map e_id ps" "map e_data (copyPrunes p ps) = map e_data ps"
  by (induction ps arbitrary: p) auto

lemma linearFrom_append: "linearFrom p (xs @ ys) \<longleftrightarrow> linearFrom p xs \<and> linearFrom (lastId p xs) ys"
  by (induction xs arbitrary: p) (auto simp: lastId_def)

lemma legacy_values: "(t, e) \<in> set (fold recordLegacyPrune es m) \<Longrightarrow> (t, e) \<in> set m \<or> e \<in> set es"
proof (induction es arbitrary: m)
  case (Cons x es)
  have u: "(t, e) \<in> set (AList.update k v m) \<Longrightarrow> (t, e) \<in> set m \<or> e = v" for k v by (induction m) (auto split: if_splits)
  have "(t, e) \<in> set (recordLegacyPrune x m) \<Longrightarrow> (t, e) \<in> set m \<or> e = x"
    using u by (auto simp: recordLegacyPrune_def split: entry_data.splits)
  then show ?case using Cons by auto
qed simp

lemma prunes_written:
  assumes "smInv sm"
  shows "set (prunesToWrite K sm) \<subseteq> set (getEntries sm)" "distinct (map e_id (prunesToWrite K sm))"
    "\<forall>e \<in> set (prunesToWrite K sm). \<exists>t st su. e_data e = PruneEntry t st su \<and> t \<in> set K"
proof -
  have c: "coreInv sm" using assms by (simp add: smInv_def)
  note l = legacy_of_manager [OF c]
  show sub: "set (prunesToWrite K sm) \<subseteq> set (getEntries sm)"
  proof
    fix e assume "e \<in> set (prunesToWrite K sm)"
    then obtain t where "(t, e) \<in> set (legacyPruneChanges sm)" by (auto simp: prunesToWrite_def)
    then show "e \<in> set (getEntries sm)" using legacy_values [of t e "getEntries sm" "[]"] c by (simp add: coreInv_def)
  qed
  have t: "\<exists>st su. e_data e = PruneEntry t st su" if "(t, e) \<in> set (legacyPruneChanges sm)" for t e
    using l that by (auto simp: legacyOk_def)
  have "inj_on snd (set (legacyPruneChanges sm))"
  proof (rule inj_onI)
    fix x y assume m: "x \<in> set (legacyPruneChanges sm)" "y \<in> set (legacyPruneChanges sm)" "snd x = snd y"
    then have "\<exists>st su. e_data (snd x) = PruneEntry (fst x) st su" "\<exists>st su. e_data (snd x) = PruneEntry (fst y) st su"
      using t by (metis prod.collapse)+
    then have "fst x = fst y" by auto
    then show "x = y" using m(3) by (rule prod_eqI)
  qed
  moreover have "distinct (legacyPruneChanges sm)" using l by (simp add: legacyOk_def distinct_map)
  ultimately have "distinct (prunesToWrite K sm)" unfolding prunesToWrite_def by (simp add: distinct_map)
  moreover have "inj_on e_id (set (prunesToWrite K sm))"
    using wfEntries_distinct [OF coreInv_wf [OF c]] sub by (meson distinct_map inj_on_subset)
  ultimately show "distinct (map e_id (prunesToWrite K sm))" by (simp add: distinct_map)
  show "\<forall>e \<in> set (prunesToWrite K sm). \<exists>t st su. e_data e = PruneEntry t st su \<and> t \<in> set K"
    by (auto simp: prunesToWrite_def split: entry_data.splits)
qed

text \<open>
  What the copy relies on, and what the methods that write edits check: edits name entries of the path that are
  copied, and no record is about a label or prune entry.
\<close>

definition editsVisible :: "changes \<Rightarrow> session_entry list \<Rightarrow> bool" where
  "editsVisible legacy path \<longleftrightarrow>
     (\<forall>e \<in> set (retained path). set_option (dataTarget (e_data e)) \<subseteq> ids (retained path)) \<and>
     (\<forall>e \<in> set path. dropped e \<longrightarrow> map_of legacy (e_id e) = None)"

abbreviation pathIds :: "session_entry list \<Rightarrow> string list" where
  "pathIds path \<equiv> map e_id (retained path)"

abbreviation copyIsFresh :: "(nat \<Rightarrow> nat \<Rightarrow> string) \<Rightarrow> session_entry list \<Rightarrow> session_manager \<Rightarrow> bool" where
  "copyIsFresh uuids path sm \<equiv>
     freshCopies uuids 0 (pathIds path @ map e_id (prunesToWrite (pathIds path) sm)) (labelsToWrite (pathIds path) sm)"

lemma branched_shape:
  assumes inv: "smInv sm" and sub: "set path \<subseteq> set (getEntries sm)" and d: "distinct (map e_id path)"
    and fresh: "copyIsFresh uuids path sm"
  obtains L C p where "branchedEntries uuids path sm = retainPath None [] [] path @ L @ C"
    "L = copyLabels uuids 0 (pathIds path @ map e_id (prunesToWrite (pathIds path) sm)) (lastId None (retainPath None [] [] path))
           (labelsToWrite (pathIds path) sm)"
    "C = copyPrunes p (prunesToWrite (pathIds path) sm)"
    "linearFrom None (branchedEntries uuids path sm)" "distinct (map e_id (branchedEntries uuids path sm))"
    "\<forall>e \<in> set (branchedEntries uuids path sm). e_id e \<noteq> []" "\<forall>e \<in> set (L @ C). dropped e"
proof -
  let ?R = "retainPath None [] [] path" and ?K = "pathIds path"
  let ?P = "prunesToWrite ?K sm"
  define L where "L = copyLabels uuids 0 (?K @ map e_id ?P) (lastId None ?R) (labelsToWrite ?K sm)"
  define C where "C = copyPrunes (lastId (lastId None ?R) L) ?P"
  have K: "map e_id ?R = ?K" by (rule retain_ids)
  have eq: "branchedEntries uuids path sm = ?R @ L @ C" by (simp add: branchedEntries_def Let_def K L_def C_def)
  have wf: "wfEntries (getEntries sm)" using inv by (simp add: smInv_def coreInv_def)
  note pr = prunes_written [OF inv, of ?K]
  have inj: "inj_on e_id (set (getEntries sm))" using wfEntries_distinct [OF wf] by (simp add: distinct_map)
  have "set (retained path) \<inter> set ?P = {}" using pr(3) by (auto simp: dropped_def)
  then have "ids (retained path) \<inter> ids ?P = {}" using inj_on_image_Int [OF inj, of "set (retained path)" "set ?P"] sub pr(1) by auto
  then have dt: "distinct (?K @ map e_id ?P)" using pr(2) d by (simp add: distinct_map_filter)
  from copyLabels_ids [OF fresh dt, of "lastId None ?R", folded L_def]
  have L: "distinct ((?K @ map e_id ?P) @ map e_id L)" "\<forall>e \<in> set L. e_id e \<noteq> [] \<and> dropped e" "linearFrom (lastId None ?R) L" by blast+
  have C: "map e_id C = map e_id ?P" "linearFrom (lastId (lastId None ?R) L) C" by (simp_all add: C_def copyPrunes_linear)
  have "e_data ` set C = e_data ` set ?P" unfolding C_def by (metis copyPrunes_linear(3) set_map)
  moreover have "\<forall>d \<in> e_data ` set ?P. \<exists>t st su. d = PruneEntry t st su" using pr(3) by blast
  ultimately have "\<forall>e \<in> set C. \<exists>t st su. e_data e = PruneEntry t st su" by (metis imageI)
  then have Cd: "\<forall>e \<in> set C. dropped e" by (auto simp: dropped_def)
  have ne: "\<forall>i \<in> set (map e_id (?R @ L @ C)). i \<noteq> []"
  proof -
    have "\<forall>e \<in> set (getEntries sm). e_id e \<noteq> []" using wfEntries_id_nonempty [OF wf] by blast
    then have "\<forall>e \<in> set path \<union> set ?P. e_id e \<noteq> []" using sub pr(1) by blast
    then show ?thesis using L(2) unfolding map_append K C(1) by (simp add: ball_Un)
  qed
  show thesis
  proof (rule that [of L C])
    show "linearFrom None (branchedEntries uuids path sm)"
      using L(3) C(2) by (simp add: eq linearFrom_append retain_linear)
    show "distinct (map e_id (branchedEntries uuids path sm))" using L(1) unfolding eq map_append K C(1) by auto
    show "\<forall>e \<in> set (branchedEntries uuids path sm). e_id e \<noteq> []" using ne unfolding eq by (simp add: ball_Un)
    show "\<forall>e \<in> set (L @ C). dropped e" using L(2) Cd by auto
  qed (simp_all add: eq L_def C_def)
qed

section \<open>Labels of the copy\<close>

definition labelMapOk :: "(string \<times> string) list \<Rightarrow> bool" where
  "labelMapOk ls \<longleftrightarrow> distinct (map fst ls) \<and> (\<forall>(t, l) \<in> set ls. l \<noteq> [])"

lemma labelMapOk_fold: "labelMapOk m \<Longrightarrow> labelMapOk (fold applyLabel es m)"
proof (induction es arbitrary: m)
  case (Cons e es)
  have u: "set (AList.update t l m) \<subseteq> insert (t, l) (set m)" for t l by (induction m) auto
  have "set (AList.delete t m) \<subseteq> set m" for t by (auto simp: AList.delete_eq)
  then have "labelMapOk (applyLabel e m)" using Cons.prems u
    by (cases "e_data e") (fastforce simp: labelMapOk_def applyLabel_def distinct_update distinct_delete split: option.splits)+
  then show ?case using Cons.IH by simp
qed simp

lemma stamps_fold:
  "dom (map_of m) = dom (map_of s) \<Longrightarrow> dom (map_of (fold applyLabel es m)) = dom (map_of (fold applyLabelTimestamp es s))"
proof (induction es arbitrary: m s)
  case (Cons e es)
  have "dom (map_of (applyLabel e m)) = dom (map_of (applyLabelTimestamp e s))"
    using Cons.prems
    by (cases "e_data e") (auto simp: applyLabel_def applyLabelTimestamp_def delete_conv' restrict_map_def dom_def split: option.splits if_splits)
  then show ?case using Cons.IH by simp
qed simp

lemma labels_stamped: "labelsOk sm \<Longrightarrow> map_of (labelsById sm) t \<noteq> None \<Longrightarrow> map_of (labelTimestampsById sm) t \<noteq> None"
  using stamps_fold [of "[]" "[]" "getEntries sm"] by (auto simp: labelsOk_def)

lemma copied_labels:
  "\<forall>(t, l, ts) \<in> set ls. l \<noteq> [] \<Longrightarrow>
   fold applyLabel (copyLabels uuids i taken p ls) m = fold (\<lambda>(t, l). AList.update t l) (map (\<lambda>(t, l, ts). (t, l)) ls) m"
  by (induction uuids i taken p ls arbitrary: m rule: copyLabels.induct) (auto simp: Let_def applyLabel_def)

lemma unlabelled: "\<forall>e \<in> set es. \<not> dropped e \<or> isPrune e \<Longrightarrow> fold applyLabel es m = m"
  by (induction es arbitrary: m) (auto simp: applyLabel_def dropped_def isPrune_def split: entry_data.splits)

lemma labels_of_copy:
  assumes "labelsOk sm" and "k \<in> set K"
  shows "map_of (fold applyLabel (copyLabels uuids i taken p (labelsToWrite K sm)) []) k = map_of (labelsById sm) k"
proof -
  let ?L = "filter (\<lambda>(t, l). t \<in> set K) (labelsById sm)"
  have ok: "labelMapOk (labelsById sm)" using assms(1) labelMapOk_fold [of "[]" "getEntries sm"] by (simp add: labelsOk_def labelMapOk_def)
  have w: "map (\<lambda>(t, l, ts). (t, l)) (labelsToWrite K sm) = ?L" by (auto simp: labelsToWrite_def comp_def intro!: map_idI)
  have "\<forall>(t, l, ts) \<in> set (labelsToWrite K sm). l \<noteq> []" using ok by (auto simp: labelsToWrite_def labelMapOk_def)
  from copied_labels [OF this] have "fold applyLabel (copyLabels uuids i taken p (labelsToWrite K sm)) [] = fold (\<lambda>(t, l). AList.update t l) ?L []"
    by (simp add: w)
  moreover have "distinct (map fst ?L)" using ok by (simp add: labelMapOk_def distinct_map_filter)
  moreover have "map_of (filter (\<lambda>(t, l). t \<in> set K) L) k = map_of L k" for L :: "(string \<times> string) list"
    using assms(2) by (induction L) auto
  ultimately show ?thesis by (simp add: map_of_fold_updates map_of_rev_distinct)
qed

section \<open>The branched session\<close>

lemma createBranched_run:
  assumes b: "getBranch (Some l) sm = Some path" "path \<noteq> []"
    and wf: "wfEntries (branchedEntries uuids path sm)" "targetsOk (branchedEntries uuids path sm)"
    and disk: "sm_persist sm \<Longrightarrow> sm_disk sm (w_fileName w) = None"
  obtains f sm' where "createBranchedSession w uuids l sm = Some (Inr f, sm')" "smInv sm'"
    "getEntries sm' = branchedEntries uuids path sm"
    "leafId sm' = (if branchedEntries uuids path sm = [] then None else Some (e_id (last (branchedEntries uuids path sm))))"
proof -
  let ?es = "branchedEntries uuids path sm"
  let ?h = "\<lparr>h_version = Some CURRENT_SESSION_VERSION, h_id = w_sessionId w, h_timestamp = w_now w, h_cwd = sm_cwd sm,
             h_parentSession = (if sm_persist sm then sessionFile sm else None)\<rparr>"
  let ?x = "sm\<lparr>fileEntries := Header ?h # map Entry ?es, sessionId := w_sessionId w\<rparr>"
  note fin = that
  have goal: thesis if g: "createBranchedSession w uuids l sm = Some (Inr f, buildIndex y)" "fileEntries y = Header ?h # map Entry ?es" "diskOk y" for f y
    using g(1) buildIndex_inv [OF g(2) wf(1) g(3) wf(2)] by (rule fin)
  show thesis
  proof (cases "sm_persist sm")
    case False
    then have "diskOk ?x" by (simp add: diskOk_def fileOf_def split: option.split)
    then show thesis using False b by (intro goal [of None ?x]) (simp_all add: createBranchedSession_def Let_def)
  next
    case True
    define y where "y = ?x\<lparr>sessionFile := Some (w_fileName w)\<rparr>"
    have y: "fileEntries y = Header ?h # map Entry ?es" "sm_persist y" "sessionFile y = Some (w_fileName w)" "sm_disk y = sm_disk sm"
      using True by (simp_all add: y_def)
    define A where "A = hasAssistant (buildIndex y)"
    have A: "A \<longleftrightarrow> hasAssistant y" by (simp add: A_def hasAssistant_def buildIndex_def indexFold y(1))
    define d where "d = (if A \<and> w_fileName w \<noteq> [] then (sm_disk sm)(w_fileName w := Some (fileEntries y)) else sm_disk sm)"
    have "createBranchedSession w uuids l sm = Some (Inr (Some (w_fileName w)),
        if A then (rewriteFile (buildIndex y))\<lparr>flushed := True\<rparr> else (buildIndex y)\<lparr>flushed := False\<rparr>)"
      using True b by (simp add: createBranchedSession_def Let_def A_def y_def)
    moreover have "(if A then (rewriteFile (buildIndex y))\<lparr>flushed := True\<rparr> else (buildIndex y)\<lparr>flushed := False\<rparr>) =
        buildIndex (y\<lparr>sm_disk := d, flushed := A\<rparr>)"
      by (simp add: d_def rewriteFile_def fileOf_def buildIndex_def indexFold y)
    ultimately have r: "createBranchedSession w uuids l sm = Some (Inr (Some (w_fileName w)), buildIndex (y\<lparr>sm_disk := d, flushed := A\<rparr>))"
      by simp
    have "diskOk (y\<lparr>sm_disk := d, flushed := A\<rparr>)"
      using disk [OF True] A y by (simp add: diskOk_def fileOf_def d_def hasAssistant_def)
    then show thesis by (intro goal [OF r]) (simp_all add: y(1))
  qed
qed

lemma linear_branch:
  assumes c: "coreInv sm" and l: "linearFrom None (getEntries sm)"
    and leaf: "leafId sm = (if getEntries sm = [] then None else Some (e_id (last (getEntries sm))))"
  shows "getBranch None sm = Some (getEntries sm)"
proof (cases "getEntries sm = []")
  case True
  then show ?thesis using leaf by (simp add: getBranch_pathTo)
next
  case False
  have wf: "wfEntries (getEntries sm)" by (rule coreInv_wf [OF c])
  have "buildSessionPath (getEntries sm) LeafUndefined None = Some (getEntries sm)"
    by (rule linear_path [OF l wfEntries_distinct [OF wf]]) (use wfEntries_id_nonempty [OF wf] in blast)
  moreover have "getBranch None sm = walkParents (indexOf (getEntries sm)) (last (getEntries sm)) []"
    using pathTo_Some [OF c last_in_set [OF False]] leaf False by (simp add: getBranch_pathTo)
  ultimately show ?thesis using False by (simp add: buildSessionPath_def buildEntryIndex_def)
qed

lemma copyLabels_data: "e \<in> set (copyLabels uuids i taken p ls) \<Longrightarrow> \<exists>t l. e_data e = LabelEntry t l"
  by (induction uuids i taken p ls rule: copyLabels.induct) (auto simp: Let_def)

lemma copyPrunes_data:
  assumes "smInv sm" and "e \<in> set (copyPrunes p (prunesToWrite K sm))"
  shows "\<exists>t st su. e_data e = PruneEntry t st su \<and> t \<in> set K"
proof -
  have "e_data e \<in> e_data ` set (prunesToWrite K sm)" using assms(2) by (metis copyPrunes_linear(3) imageI set_map)
  then show ?thesis using prunes_written(3) [OF assms(1), of K] by auto
qed

lemma retain_member:
  assumes "e' \<in> set (retainPath p pend repl path)"
  obtains e where "e \<in> set (retained path)" "sameEntry e e'"
  using retain_same [of path p pend repl] assms by (metis in_set_conv_nth list_all2_conv_all_nth)

lemma branched_changes:
  assumes inv: "smInv sm" and sub: "set path \<subseteq> set (getEntries sm)" and d: "distinct (map e_id path)"
    and vis: "editsVisible (legacyPruneChanges sm) path"
    and T: "\<forall>e \<in> set L. \<exists>t l. e_data e = LabelEntry t l" "C = copyPrunes p (prunesToWrite (pathIds path) sm)"
    and es: "es = retainPath None [] [] path @ L @ C"
    and ch: "ch = changesOf (legacyPruneChanges sm) path" "ch' = changesOf (fold recordLegacyPrune es []) es"
  shows "k \<in> set (pathIds path) \<Longrightarrow> sameChange (map_of ch k) (map_of ch' k)"
    and "k \<notin> set (pathIds path) \<Longrightarrow> map_of ch' k = None"
    and "\<forall>e \<in> set path. dropped e \<longrightarrow> map_of ch (e_id e) = None"
    and "targetsOk es"
proof -
  let ?R = "retainPath None [] [] path" and ?K = "pathIds path"
  have Cd: "\<exists>t st su. e_data e = PruneEntry t st su \<and> t \<in> set ?K" if "e \<in> set C" for e
    using copyPrunes_data [OF inv] that unfolding T(2) by blast
  have Rt: "\<not> dropped e \<and> set_option (dataTarget (e_data e)) \<subseteq> set ?K" if m: "e \<in> set ?R" for e
  proof -
    obtain x where x: "x \<in> set (retained path)" "sameEntry x e" by (rule retain_member [OF m])
    have "set_option (dataTarget (e_data x)) \<subseteq> ids (retained path)" using vis x(1) unfolding editsVisible_def by blast
    then show ?thesis using x sameEntry_simps(6,7) [OF x(2)] by simp
  qed
  have "\<forall>e \<in> set (L @ C). dropped e" using T(1) Cd by (fastforce simp: dropped_def)
  then have "retained (L @ C) = []" by (simp only: filter_empty_conv not_not)
  then have tail: "fold applyContextEdit (L @ C) c = c" for c using edits_retained [of "L @ C" c] by (simp only: fold_simps id_apply)
  have legacy': "fold recordLegacyPrune es [] = fold recordLegacyPrune C []"
  proof -
    have "\<forall>e \<in> set ?R. \<not> isPrune e" using Rt prune_dropped by blast
    moreover have "\<forall>e \<in> set L. \<not> isPrune e" using T(1) by (auto simp: isPrune_def)
    ultimately have "\<forall>e \<in> set (?R @ L). \<not> isPrune e" by auto
    from unrecorded [OF this] show ?thesis by (simp add: es)
  qed
  have ch'R: "ch' = changesOf (fold recordLegacyPrune C []) ?R" using tail unfolding ch(2) legacy' by (simp add: es)
  show "sameChange (map_of ch k) (map_of ch' k)" if "k \<in> set ?K"
    unfolding ch(1) ch'R edits_retained [of path] T(2)
    by (rule edits_same [OF retain_same _ that]) (use legacy_copied [OF legacy_of_manager] inv in \<open>simp add: smInv_def\<close>)
  show "map_of ch' k = None" if k: "k \<notin> set ?K"
  proof -
    have "\<forall>e \<in> set ?R. \<not> edit_log.writes k e" using Rt k editEffect_target by fastforce
    moreover have "map_of (fold recordLegacyPrune C []) k = None"
    proof (rule ccontr)
      assume "map_of (fold recordLegacyPrune C []) k \<noteq> None"
      then obtain e where "e \<in> set C" "dataTarget (e_data e) = Some k" using recordLegacyPrune_key [of C "[]" k] by auto
      then show False using Cd [of e] k by (auto simp: dataTarget_def)
    qed
    ultimately show ?thesis unfolding ch'R by (simp add: edit_log.untouched)
  qed
  show "\<forall>e \<in> set path. dropped e \<longrightarrow> map_of ch (e_id e) = None"
  proof (intro ballI impI)
    fix e assume e: "e \<in> set path" "dropped e"
    have out: "e_id e \<notin> ids (retained path)" using d e by (auto simp: distinct_map inj_on_def)
    have "\<forall>x \<in> set (retained path). \<not> edit_log.writes (e_id e) x"
      using vis out editEffect_target [of "e_id e"] unfolding editsVisible_def by fastforce
    then show "map_of ch (e_id e) = None"
      using vis e unfolding ch(1) edits_retained [of path] by (simp add: edit_log.untouched editsVisible_def)
  qed
  have "set ?K = set (map e_id ?R)" by (simp only: retain_ids)
  then have K: "set ?K \<subseteq> ids es" unfolding es by auto
  have "set_option (dataTarget (e_data e)) \<subseteq> set ?K" if m: "e \<in> set es" for e
  proof -
    consider "e \<in> set ?R" | "e \<in> set L" | "e \<in> set C" using m unfolding es by auto
    then show ?thesis
    proof cases
      case 1
      then show ?thesis using Rt by blast
    next
      case 2
      then obtain t l where "e_data e = LabelEntry t l" using T(1) by blast
      then show ?thesis by (simp add: dataTarget_def)
    next
      case 3
      then obtain t st su where "e_data e = PruneEntry t st su" "t \<in> set ?K" using Cd by blast
      then show ?thesis by (simp add: dataTarget_def)
    qed
  qed
  then show "targetsOk es" using K unfolding targetsOk_def by blast
qed

lemma branched_labels:
  assumes "smInv sm" and "smInv sm'" and "getEntries sm' = es" and "es = retainPath None [] [] path @ L @ C"
    and "L = copyLabels uuids 0 taken p (labelsToWrite K sm)" and "C = copyPrunes q (prunesToWrite K sm)" and "k \<in> set K"
  shows "getLabel k sm' = getLabel k sm"
proof -
  have "\<not> dropped x" if "x \<in> set (retainPath None [] [] path)" for x
    by (rule retain_member [OF that]) (auto dest: sameEntry_simps(6))
  then have R: "fold applyLabel (retainPath None [] [] path) m = m" for m by (intro unlabelled) blast
  have "\<forall>e \<in> set C. isPrune e" using copyPrunes_data [OF assms(1)] unfolding assms(6) isPrune_def by fastforce
  then have C: "fold applyLabel C m = m" for m by (intro unlabelled) blast
  have "labelsById sm' = fold applyLabel L []" using assms(2-4) R C by (simp add: smInv_def labelsOk_def)
  then show ?thesis using labels_of_copy [of sm k K] assms(1,5,7) by (simp add: getLabel_def smInv_def)
qed

text \<open>
  C25 (extracting a branch): in every valid state, extracting the path to a leaf succeeds and leaves a valid session
  that shows the model the same messages with the same thinking level and model as the old session at that leaf,
  and in which every copied entry has its label; although label and prune entries are dropped and written
  again, parent links change and compaction boundaries are redirected. The ids drawn for the labels are fresh,
  the file is new, and edits name entries that are copied.
\<close>

theorem branched_session_keeps_context:
  assumes inv: "smInv sm" and b: "getBranch (Some l) sm = Some path" "path \<noteq> []"
    and vis: "editsVisible (legacyPruneChanges sm) path" and fresh: "copyIsFresh uuids path sm"
    and disk: "sm_persist sm \<longrightarrow> sm_disk sm (w_fileName w) = None"
  shows "\<exists>f sm' p p'. createBranchedSession w uuids l sm = Some (Inr f, sm') \<and> smInv sm' \<and>
           sm_buildSessionProjection (sm\<lparr>leafId := Some l\<rparr>) = Some p \<and> sm_buildSessionProjection sm' = Some p' \<and>
           sp_messages p' = sp_messages p \<and> sp_thinkingLevel p' = sp_thinkingLevel p \<and> sp_model p' = sp_model p \<and>
           (\<forall>e \<in> set path. \<not> dropped e \<longrightarrow> getLabel (e_id e) sm' = getLabel (e_id e) sm)"
proof -
  have c: "coreInv sm" using inv by (simp add: smInv_def)
  have l: "l \<in> ids (getEntries sm)"
    using b c indexOf_None [of "getEntries sm" l] by (auto simp: getBranch_def coreInv_def split: option.splits if_splits)
  obtain path' where "pathTo (Some l) sm = Some path'" "subseq path' (getEntries sm)" "distinct (map e_id path')"
    using pathTo_total [OF c l] by metis
  then have path: "pathTo (Some l) sm = Some path" "set path \<subseteq> set (getEntries sm)" "distinct (map e_id path)"
    using b(1) subseq_set by (auto simp: getBranch_Some_pathTo)
  let ?es = "branchedEntries uuids path sm" and ?R = "retainPath None [] [] path" and ?K = "pathIds path"
  obtain L C q where sh: "?es = ?R @ L @ C"
    "L = copyLabels uuids 0 (?K @ map e_id (prunesToWrite ?K sm)) (lastId None ?R) (labelsToWrite ?K sm)"
    "C = copyPrunes q (prunesToWrite ?K sm)" "linearFrom None ?es" "distinct (map e_id ?es)" "\<forall>e \<in> set ?es. e_id e \<noteq> []"
    "\<forall>e \<in> set (L @ C). dropped e"
    by (rule branched_shape [OF inv path(2,3) fresh])
  have Ld: "\<forall>e \<in> set L. \<exists>t l. e_data e = LabelEntry t l" using copyLabels_data unfolding sh(2) by blast
  define ch where "ch = changesOf (legacyPruneChanges sm) path"
  define ch' where "ch' = changesOf (fold recordLegacyPrune ?es []) ?es"
  note chs = branched_changes [OF inv path(2,3) vis Ld sh(3,1) ch_def ch'_def]
  have wf: "wfEntries ?es" by (rule linearFrom_wf [OF sh(4,5)]) (use sh(6) in auto)
  obtain f sm' where r: "createBranchedSession w uuids l sm = Some (Inr f, sm')" "smInv sm'" "getEntries sm' = ?es"
    "leafId sm' = (if ?es = [] then None else Some (e_id (last ?es)))"
    by (rule createBranched_run [OF b wf chs(4)]) (use disk in blast)
  have c': "coreInv sm'" using r(2) by (simp add: smInv_def)
  have p': "sm_buildSessionProjection sm' = Some (projectPath (fold recordLegacyPrune ?es []) ?es)"
    using projection_of_branch [OF c'] linear_branch [OF c'] r(3,4) sh(4) c' by (simp add: coreInv_def)
  have "coreInv (sm\<lparr>leafId := Some l\<rparr>)" using coreInv_move_leaf [OF c] l by simp
  then have p: "sm_buildSessionProjection (sm\<lparr>leafId := Some l\<rparr>) = Some (projectPath (legacyPruneChanges sm) path)"
    using path(1) pathTo_cong [of "sm\<lparr>leafId := Some l\<rparr>" sm "Some l"] by (simp add: projection_of_branch getBranch_pathTo)
  have T: "\<forall>e \<in> set (L @ C). dropped e \<and> map_of ch' (e_id e) = None"
  proof
    fix e assume e: "e \<in> set (L @ C)"
    then have "e_id e \<notin> set (map e_id ?R)" using sh(5) unfolding sh(1) by auto
    then show "dropped e \<and> map_of ch' (e_id e) = None" using chs(2) sh(7) e by (simp only: retain_ids) blast
  qed
  have "projectedMessages ch' (compactPath ?es) = projectedMessages ch (compactPath path)"
    unfolding sh(1) by (rule copied_messages [OF path(3) sh(5) [unfolded sh(1)] T chs(3)]) (simp add: chs(1))
  then have m: "sp_messages (projectPath (fold recordLegacyPrune ?es []) ?es) = sp_messages (projectPath (legacyPruneChanges sm) path)"
    unfolding projectPath_messages projectPath_entries ch_def ch'_def .
  have s: "getSessionContextSettings ?es = getSessionContextSettings path" unfolding sh(1) by (rule copied_settings) (use sh(7) in blast)
  have lab: "getLabel (e_id e) sm' = getLabel (e_id e) sm" if "e \<in> set path" "\<not> dropped e" for e
    using branched_labels [OF inv r(2,3) sh(1-3)] that by simp
  show ?thesis using r(1,2) p p' m s lab
    by (intro exI [of _ f] exI [of _ sm'] exI [of _ "projectPath (legacyPruneChanges sm) path"]
        exI [of _ "projectPath (fold recordLegacyPrune ?es []) ?es"]) (simp add: projectPath_def Let_def)
qed

text \<open>A session with a label in the middle of the path and a compaction whose boundary is that label.\<close>

definition labelledEntries :: "session_entry list" where
  "labelledEntries =
     [sampleEntry ''a'' None (sampleUser ''hi''),
      \<lparr>e_id = ''l'', e_parentId = Some ''a'', e_timestamp = 0, e_data = LabelEntry ''a'' (Some ''x'')\<rparr>,
      sampleEntry ''b'' (Some ''l'') (sampleUser ''ho''),
      \<lparr>e_id = ''c'', e_parentId = Some ''b'', e_timestamp = 0,
       e_data = CompactionEntry \<lparr>ce_summary = ''s'', ce_firstKeptEntryId = ''l'', ce_firstKeptEntryIndex = None, ce_tokensBefore = 1,
         ce_details = None, ce_usage = None, ce_fromHook = False, ce_systemMessage = None\<rparr>\<rparr>]"

definition labelledSession :: session_manager where
  "labelledSession = buildIndex ((emptyManager ''/w'' [] False (\<lambda>_. None))\<lparr>fileEntries := Header sampleHeader # map Entry labelledEntries\<rparr>)"

lemma labelled_inv: "smInv labelledSession" "getEntries labelledSession = labelledEntries" "leafId labelledSession = Some ''c''"
proof -
  let ?y = "(emptyManager ''/w'' [] False (\<lambda>_. None))\<lparr>fileEntries := Header sampleHeader # map Entry labelledEntries\<rparr>"
  have "wfEntries labelledEntries" "targetsOk labelledEntries" "diskOk ?y"
    by (simp_all add: labelledEntries_def sampleEntry_def entryOk_def targetsOk_def dataTarget_def diskOk_def fileOf_def emptyManager_def)
  from buildIndex_inv [OF _ this(1,3,2), of sampleHeader]
  show "smInv labelledSession" "getEntries labelledSession = labelledEntries" "leafId labelledSession = Some ''c''"
    by (simp_all add: labelledSession_def labelledEntries_def)
qed

lemma labelled_branch: "getBranch (Some ''c'') labelledSession = Some labelledEntries"
proof -
  have "getBranch None labelledSession = Some labelledEntries"
    using linear_branch [of labelledSession] labelled_inv by (simp add: smInv_def labelledEntries_def sampleEntry_def)
  then show ?thesis using labelled_inv(3) by (simp add: getBranch_pathTo getBranch_Some_pathTo)
qed

lemma labelled_projection:
  "sp_messages (projectPath [] labelledEntries) =
     [CompactionSummary (createCompactionSummaryMessage ''s'' 1 0), sampleUser ''ho'']"
proof -
  have "compactPath labelledEntries = [labelledEntries ! 3, labelledEntries ! 1, labelledEntries ! 2]"
    by (simp add: compactPath_def labelledEntries_def sampleEntry_def findLast_Cons isCompaction_def isSystemEntry_def sampleUser_def)
  then show ?thesis
    by (simp add: projectPath_messages projectPath_entries)
       (simp add: labelledEntries_def sampleEntry_def isCompaction_def projectOne_def applyContextEdit_def projectContextEntry_def
        sessionEntryToContextMessages_def)
qed

theorem branched_session_keeps_context_witness:
  "\<exists>f sm' p'. createBranchedSession (sampleWorld ''s'') (\<lambda>_ _. ''dddddddd-0'') ''c'' labelledSession = Some (Inr f, sm') \<and>
     sm_buildSessionProjection sm' = Some p' \<and>
     sp_messages p' = [CompactionSummary (createCompactionSummaryMessage ''s'' 1 0), sampleUser ''ho''] \<and> getLabel ''a'' sm' = Some ''x''"
proof -
  have legacy: "legacyPruneChanges labelledSession = []" and labels: "labelsById labelledSession = [(''a'', ''x'')]"
    using labelled_inv(1,2) by (simp_all add: smInv_def coreInv_def labelsOk_def)
       (simp_all add: labelledEntries_def sampleEntry_def recordLegacyPrune_def applyLabel_def)
  have ret: "retained labelledEntries = [labelledEntries ! 0, labelledEntries ! 2, labelledEntries ! 3]"
    by (simp add: labelledEntries_def sampleEntry_def dropped_def)
  have vis: "editsVisible (legacyPruneChanges labelledSession) labelledEntries"
    unfolding editsVisible_def ret legacy by (simp add: labelledEntries_def sampleEntry_def dataTarget_def)
  have ids: "pathIds labelledEntries = [''a'', ''b'', ''c'']" by (simp add: ret) (simp add: labelledEntries_def sampleEntry_def)
  have "prunesToWrite K labelledSession = []" for K by (simp add: prunesToWrite_def legacy)
  moreover have "length (labelsToWrite [''a'', ''b'', ''c''] labelledSession) = 1" by (simp add: labelsToWrite_def labels)
  then obtain lt where "labelsToWrite [''a'', ''b'', ''c''] labelledSession = [lt]" by (auto simp: length_Suc_conv)
  ultimately have fresh: "copyIsFresh (\<lambda>_ _. ''dddddddd-0'') labelledEntries labelledSession"
    unfolding ids by (simp add: uuidsOk_def)
  have "sm_persist labelledSession \<longrightarrow> sm_disk labelledSession f = None" for f
    by (simp add: labelledSession_def buildIndex_def indexFold emptyManager_def)
  moreover have ne: "labelledEntries \<noteq> []" by (simp add: labelledEntries_def)
  ultimately obtain f sm' p p' where
    x: "createBranchedSession (sampleWorld ''s'') (\<lambda>_ _. ''dddddddd-0'') ''c'' labelledSession = Some (Inr f, sm')"
    "sm_buildSessionProjection (labelledSession\<lparr>leafId := Some ''c''\<rparr>) = Some p" "sm_buildSessionProjection sm' = Some p'"
    "sp_messages p' = sp_messages p" "\<forall>e \<in> set labelledEntries. \<not> dropped e \<longrightarrow> getLabel (e_id e) sm' = getLabel (e_id e) labelledSession"
    using branched_session_keeps_context [OF labelled_inv(1) labelled_branch ne vis fresh, of "sampleWorld ''s''"] by blast
  have "labelledSession\<lparr>leafId := Some ''c''\<rparr> = labelledSession" by (simp add: labelled_inv(3) [symmetric])
  then have "sm_buildSessionProjection labelledSession = Some p" using x(2) by (simp only:)
  then have "p = projectPath [] labelledEntries"
    using projection_of_branch [of labelledSession] labelled_inv labelled_branch legacy
    by (simp add: smInv_def getBranch_pathTo getBranch_Some_pathTo)
  moreover have "getLabel ''a'' sm' = Some ''x''"
    using x(5) by (simp add: labelledEntries_def sampleEntry_def dropped_def getLabel_def labels)
  ultimately show ?thesis using x(1,3,4) labelled_projection by auto
qed

section \<open>Forked sessions\<close>

definition forkHeader :: "string \<Rightarrow> string \<Rightarrow> string option \<Rightarrow> world \<Rightarrow> session_header" where
  "forkHeader src cwd optionId w =
     \<lparr>h_version = Some CURRENT_SESSION_VERSION, h_id = (case optionId of Some i \<Rightarrow> i | None \<Rightarrow> w_sessionId w),
      h_timestamp = w_now w, h_cwd = cwd, h_parentSession = Some src\<rparr>"

definition forkBase :: "string \<Rightarrow> string \<Rightarrow> string \<Rightarrow> string option \<Rightarrow> world \<Rightarrow> disk \<Rightarrow> session_entry list \<Rightarrow> session_manager" where
  "forkBase src cwd dir optionId w disk es =
     (emptyManager cwd dir True (disk(w_fileName w := Some (Header (forkHeader src cwd optionId w) # map Entry es))))
       \<lparr>sessionFile := Some (w_fileName w), fileEntries := Header (forkHeader src cwd optionId w) # map Entry es,
        sessionId := h_id (forkHeader src cwd optionId w), flushed := True\<rparr>"

text \<open>A fork copies the entries as they are under a header of the current version.\<close>

lemma forkFrom_run:
  assumes "disk src = Some (Header h # map Entry es)" and "disk (w_fileName w) = None" and "w_fileName w \<noteq> []"
    and "optionId = None \<or> assertValidSessionId (the optionId) = Inr ()"
  shows "\<exists>disk'. forkFrom src cwd dir optionId uuids w disk = (Inr (buildIndex (forkBase src cwd dir optionId w disk es)), disk')"
proof -
  let ?h = "forkHeader src cwd optionId w"
  let ?disk = "disk(w_fileName w := Some (Header ?h # map Entry es))"
  let ?b = "(emptyManager cwd dir True ?disk)\<lparr>sessionFile := Some (w_fileName w), fileEntries := Header ?h # map Entry es, sessionId := h_id ?h\<rparr>"
  have fh: "findHeader (Header k # xs) = Some k" for k xs by (simp add: findHeader_def)
  have mig: "migrateToCurrentVersion uuids (Header ?h # map Entry es) = (False, Header ?h # map Entry es)"
    by (simp add: migrateToCurrentVersion_def sessionVersion_def fh) (simp add: forkHeader_def)
  have "constructManager cwd dir (Some (w_fileName w)) True None None False uuids w ?disk = (Inr (), (buildIndex ?b)\<lparr>flushed := True\<rparr>)"
    using assms(3) mig by (simp add: constructManager_def setSessionFile_def loadEntries_def Let_def validSessionEntries_def fh emptyManager_def)
  moreover have "(buildIndex ?b)\<lparr>flushed := True\<rparr> = buildIndex (?b\<lparr>flushed := True\<rparr>)" by (rule buildIndex_flushed) simp
  ultimately have c: "constructManager cwd dir (Some (w_fileName w)) True None None False uuids w ?disk =
      (Inr (), buildIndex (forkBase src cwd dir optionId w disk es))" by (simp add: forkBase_def)
  have "(case optionId of None \<Rightarrow> Inr () | Some i \<Rightarrow> assertValidSessionId i) = Inr ()" using assms(4) by (auto split: option.split)
  then show ?thesis using assms(1,2) c
    by (auto simp: forkFrom_def loadEntriesFromFile_def validSessionEntries_def Let_def fh forkHeader_def)
qed

text \<open>
  Forking the file of a session of the current version gives a valid session in the target directory with the same
  entries, in which every leaf has the path and the context it has in the source. The header names the source as parent.
\<close>

lemma forkFrom_keeps_history:
  assumes "smInv sm" and "fileOf sm = Some src" and "flushed sm" and "disk = sm_disk sm"
    and new: "disk (w_fileName w) = None" "w_fileName w \<noteq> []" and "optionId = None \<or> assertValidSessionId (the optionId) = Inr ()"
  shows "\<exists>sm' disk' h. forkFrom src cwd dir optionId uuids w disk = (Inr sm', disk') \<and> smInv sm' \<and> getEntries sm' = getEntries sm \<and>
           contextAt l sm' = contextAt l sm \<and> getHeader sm' = Some h \<and> h_parentSession h = Some src \<and> h_cwd h = cwd"
proof -
  have c: "coreInv sm" using assms(1) by (simp add: smInv_def)
  obtain h where h: "fileEntries sm = Header h # map Entry (getEntries sm)" using c by (auto simp: coreInv_def)
  have d: "disk src = Some (Header h # map Entry (getEntries sm))" using c assms(2-4) h by (simp add: coreInv_def diskOk_def)
  let ?b = "forkBase src cwd dir optionId w disk (getEntries sm)"
  obtain disk' where r: "forkFrom src cwd dir optionId uuids w disk = (Inr (buildIndex ?b), disk')"
    using forkFrom_run [OF d new assms(7)] by blast
  have fe: "fileEntries ?b = Header (forkHeader src cwd optionId w) # map Entry (getEntries sm)" by (simp add: forkBase_def)
  have "diskOk ?b" using new(2) by (simp add: diskOk_def fileOf_def forkBase_def emptyManager_def)
  then have i: "smInv (buildIndex ?b)" "getEntries (buildIndex ?b) = getEntries sm"
    using buildIndex_inv [OF fe coreInv_wf [OF c]] assms(1) by (simp_all add: smInv_def)
  then have same: "legacyPruneChanges (buildIndex ?b) = legacyPruneChanges sm" "byId (buildIndex ?b) = byId sm"
    using c by (simp_all add: smInv_def coreInv_def)
  have "contextAt l (buildIndex ?b) = contextAt l sm" using same pathTo_cong [of "buildIndex ?b" sm l] by (simp add: contextAt_def)
  moreover have "getHeader (buildIndex ?b) = Some (forkHeader src cwd optionId w)"
    by (simp add: getHeader_def buildIndex_def fe indexFold findHeader_def)
  ultimately show ?thesis using r i by (auto simp: forkHeader_def)
qed

text \<open>
  C29 (forking an old file): the entries of a version 1 file have no ids and no parents. Opening the file migrates it;
  forking it does not, because the copy has a header of the current version. The forked session therefore shows the
  model the last entry of the file only.
\<close>

theorem forkFrom_loses_old_history:
  assumes "disk src = Some (Header h # map Entry es)" and "es \<noteq> []" and old: "\<forall>e \<in> set es. e_id e = [] \<and> e_parentId e = None"
    and "disk (w_fileName w) = None" "w_fileName w \<noteq> []" and "optionId = None \<or> assertValidSessionId (the optionId) = Inr ()"
  shows "\<exists>sm' disk' p. forkFrom src cwd dir optionId uuids w disk = (Inr sm', disk') \<and>
           sm_buildSessionProjection sm' = Some p \<and> map pe_source (sp_entries p) = [last es]"
proof -
  let ?sm = "buildIndex (forkBase src cwd dir optionId w disk es)"
  obtain disk' where r: "forkFrom src cwd dir optionId uuids w disk = (Inr ?sm, disk')" using forkFrom_run [OF assms(1,4,5,6)] by blast
  have l: "last es \<in> set es" using assms(2) by simp
  have eq: "getEntries ?sm = es" "leafId ?sm = Some []"
    using assms(2) old l by (simp_all add: buildIndex_def forkBase_def indexFold getEntries_def)
  have "walkParents (byId ?sm) (last es) [] = Some [last es]" using old l by (intro walkParents_root) blast
  then have "buildSessionPath es (LeafId []) (Some (byId ?sm)) = Some [last es]"
    using assms(2) by (simp add: buildSessionPath_def buildEntryIndex_def)
  then have p: "sm_buildSessionProjection ?sm = Some (projectPath (legacyPruneChanges ?sm) [last es])"
    by (simp add: sm_buildSessionProjection_def buildSessionProjection_path eq)
  have "compactPath [last es] = [last es]" by (simp add: compactPath_def findLast_Cons split: option.split)
  then have "map pe_source (sp_entries (projectPath (legacyPruneChanges ?sm) [last es])) = [last es]"
    by (simp only: projectPath_entries map_pe_source_projectEntries)
  with r p show ?thesis by (intro exI conjI)
qed

definition oldFile :: "session_entry list" where
  "oldFile = [sampleEntry [] None (sampleUser ''hi''), sampleEntry [] None (sampleUser ''ho'')]"

theorem forkFrom_loses_old_history_witness:
  "\<exists>sm' disk' p. forkFrom ''/old'' ''/w'' ''/s'' None (\<lambda>_ _. ''u'') (sampleWorld ''s'')
       ((\<lambda>_. None)(''/old'' := Some (Header sampleHeader # map Entry oldFile))) = (Inr sm', disk') \<and>
     sm_buildSessionProjection sm' = Some p \<and> map pe_source (sp_entries p) = [sampleEntry [] None (sampleUser ''ho'')]"
  using forkFrom_loses_old_history [of "(\<lambda>_. None)(''/old'' := Some (Header sampleHeader # map Entry oldFile))" "''/old''" sampleHeader oldFile
      "sampleWorld ''s''" None "''/w''" "''/s''" "\<lambda>_ _. ''u''"]
  by (simp add: oldFile_def sampleEntry_def sampleWorld_def)

end
