(* ===== verification/Session_Refinement.thy ===== *)
theory Session_Refinement
  imports Session_Branching
begin

text \<open>
  What a session is to its clients: a tree of conversations. The abstract state has the conversation that leads to each
  entry and the current conversation; its two operations extend the current conversation by an entry and go to another
  one. The session manager, with its log, parent links, indexes, cache and file, implements it.
\<close>

section \<open>The abstract specification\<close>

record conversation_tree =
  ct_paths :: "string \<rightharpoonup> session_entry list"
  ct_current :: "session_entry list"

definition say :: "session_entry \<Rightarrow> conversation_tree \<Rightarrow> conversation_tree" where
  "say e t = \<lparr>ct_paths = (ct_paths t)(e_id e \<mapsto> ct_current t @ [e]), ct_current = ct_current t @ [e]\<rparr>"

definition goto :: "string option \<Rightarrow> conversation_tree \<Rightarrow> conversation_tree" where
  "goto i t = t\<lparr>ct_current := (case i of None \<Rightarrow> [] | Some j \<Rightarrow> the (ct_paths t j))\<rparr>"

inductive treeStep :: "conversation_tree \<Rightarrow> conversation_tree \<Rightarrow> bool" where
  "e_id e \<notin> dom (ct_paths t) \<Longrightarrow> treeStep t (say e t)"
| "set_option i \<subseteq> dom (ct_paths t) \<Longrightarrow> treeStep t (goto i t)"

definition treeOf :: "session_manager \<Rightarrow> conversation_tree" where
  "treeOf sm =
     \<lparr>ct_paths = (\<lambda>i. if i \<in> ids (getEntries sm) then pathTo (Some i) sm else None),
      ct_current = (case getBranch None sm of Some path \<Rightarrow> path | None \<Rightarrow> [])\<rparr>"

section \<open>Operations\<close>

lemma treeOf_dom: "coreInv sm \<Longrightarrow> dom (ct_paths (treeOf sm)) = ids (getEntries sm)"
proof -
  assume c: "coreInv sm"
  have "pathTo (Some i) sm \<noteq> None" if "i \<in> ids (getEntries sm)" for i using pathTo_total [OF c that] by (metis option.distinct(1))
  then show ?thesis by (auto simp: treeOf_def split: if_splits)
qed

lemma pathTo_irrelevant [simp]:
  "pathTo x (sm\<lparr>leafId := l\<rparr>) = pathTo x sm" "pathTo x (sm\<lparr>contextChangesCache := c\<rparr>) = pathTo x sm"
  by (rule pathTo_cong, simp)+

lemma treeOf_move: "coreInv sm \<Longrightarrow> set_option l \<subseteq> ids (getEntries sm) \<Longrightarrow> treeOf (sm\<lparr>leafId := l\<rparr>) = goto l (treeOf sm)"
proof -
  assume c: "coreInv sm" and l: "set_option l \<subseteq> ids (getEntries sm)"
  show ?thesis
  proof (cases l)
    case (Some i)
    then have i: "i \<in> ids (getEntries sm)" using l by simp
    obtain path where "pathTo (Some i) sm = Some path" using pathTo_total [OF c i] by metis
    then show ?thesis using Some i by (simp add: treeOf_def goto_def getBranch_pathTo cong: if_cong)
  qed (simp add: treeOf_def goto_def getBranch_pathTo cong: if_cong)
qed

lemma treeOf_appended:
  assumes c: "coreInv sm" "coreInv sm'" and a: "appended sm e sm'" and p: "e_parentId e = leafId sm"
  shows "treeOf sm' = say e (treeOf sm)"
proof -
  have es: "getEntries sm' = getEntries sm @ [e]" "leafId sm' = Some (e_id e)" using a by (simp_all add: appended_def)
  obtain path where path: "getBranch None sm = Some path" using getBranch_total [OF c(1)] by metis
  then have b: "getBranch None sm' = Some (path @ [e])" using getBranch_appended [OF c a p] by simp
  have new: "pathTo (Some (e_id e)) sm' = Some (path @ [e])" using b es(2) by (simp add: getBranch_pathTo)
  have old: "pathTo (Some i) sm' = pathTo (Some i) sm" if "i \<in> ids (getEntries sm)" for i
    using pathTo_appended [OF c es(1), of "Some i"] that by simp
  have "ct_paths (treeOf sm') = (ct_paths (treeOf sm))(e_id e \<mapsto> path @ [e])"
    using new old unfolding treeOf_def es(1) by (auto simp: fun_eq_iff)
  then show ?thesis using path b by (simp add: treeOf_def say_def)
qed

lemma treeOf_cache: "treeOf (sm\<lparr>contextChangesCache := c\<rparr>) = treeOf sm"
  by (simp add: treeOf_def getBranch_pathTo cong: if_cong)

lemma treeOf_appendData:
  assumes "smInv sm" and "freshWorld w sm" and "plainData d" and "set_option (dataTarget d) \<subseteq> ids (getEntries sm)"
  shows "treeOf (snd (appendData w d sm)) = say (newEntry w d sm) (treeOf sm)"
proof -
  obtain sm' where "appendData w d sm = (Inr (e_id (newEntry w d sm)), sm')" "smInv sm'" "appended sm (newEntry w d sm) sm'"
    using appendData_inv [OF assms] by blast
  then show ?thesis using treeOf_appended [of sm sm' "newEntry w d sm"] assms(1) by (simp add: smInv_def)
qed

section \<open>Simulation\<close>

text \<open>Whatever a step appends is reached in the tree by going to the parent of each new entry and extending there.\<close>

definition conversationPaths :: "session_entry list \<Rightarrow> string \<rightharpoonup> session_entry list" where
  "conversationPaths es i = (case map_of (indexOf es) i of None \<Rightarrow> None | Some e \<Rightarrow> walkParents (indexOf es) e [])"

lemma treeOf_paths: "coreInv sm \<Longrightarrow> ct_paths (treeOf sm) = conversationPaths (getEntries sm)"
proof
  fix i assume c: "coreInv sm"
  show "ct_paths (treeOf sm) i = conversationPaths (getEntries sm) i"
  proof (cases "map_of (indexOf (getEntries sm)) i")
    case None
    then show ?thesis using indexOf_None [of "getEntries sm" i] by (simp add: treeOf_def conversationPaths_def)
  next
    case (Some e)
    then have e: "e \<in> set (getEntries sm)" "e_id e = i"
      using indexOf_lookup [OF wfEntries_distinct [OF coreInv_wf [OF c]]] by blast+
    then show ?thesis using Some pathTo_Some [OF c e(1)] by (auto simp: treeOf_def conversationPaths_def)
  qed
qed

lemma conversationPaths_dom: "wfEntries es \<Longrightarrow> dom (conversationPaths es) = ids es"
proof -
  assume wf: "wfEntries es"
  have "conversationPaths es i \<noteq> None" if i: "i \<in> ids es" for i
  proof -
    obtain e where e: "map_of (indexOf es) i = Some e" using i indexOf_dom [of i es] by blast
    then have m: "e \<in> set es" using indexOf_lookup [OF wfEntries_distinct [OF wf]] by blast
    obtain path where "walkParents (indexOf es) e [] = Some path" using walkParents_wf [OF wf m] by metis
    then show ?thesis by (simp add: conversationPaths_def e)
  qed
  moreover have "conversationPaths es i \<noteq> None \<longrightarrow> i \<in> ids es" for i
    using indexOf_None [of es i] by (cases "map_of (indexOf es) i") (auto simp: conversationPaths_def)
  ultimately show ?thesis unfolding dom_def by (intro equalityI subsetI CollectI) simp_all
qed

lemma conversationPaths_known:
  "wfEntries es \<Longrightarrow> e \<in> set es \<Longrightarrow> conversationPaths es (e_id e) = walkParents (indexOf es) e []"
  using indexOf_lookup [OF wfEntries_distinct, of es "e_id e" e] by (simp add: conversationPaths_def)

lemma conversationPaths_snoc:
  assumes wf: "wfEntries (es @ [e])" and t: "ct_paths t = conversationPaths es"
  shows "ct_paths (say e (goto (e_parentId e) t)) = conversationPaths (es @ [e])"
proof
  fix i
  have w: "wfEntries es" "entryOk (ids es) e" using wf by (simp_all add: wfEntries_snoc)
  let ?cur = "ct_current (goto (e_parentId e) t)"
  have new: "conversationPaths (es @ [e]) (e_id e) = Some (?cur @ [e])"
  proof (cases "e_parentId e")
    case None
    then show ?thesis using conversationPaths_known [OF wf, of e] walkParents_root [OF None] by (simp add: goto_def)
  next
    case (Some q)
    then have "q \<in> ids es" using w(2) by (simp add: entryOk_def)
    then obtain x where x: "x \<in> set es" "e_id x = q" by auto
    obtain path where "walkParents (indexOf es) x [] = Some path" using walkParents_wf [OF w(1) x(1)] by metis
    then show ?thesis
      using walkParents_child [OF wf _ x(1)] conversationPaths_known [OF wf, of e] conversationPaths_known [OF w(1) x(1)] x(2) Some t by (simp add: goto_def)
  qed
  have old: "conversationPaths (es @ [e]) i = conversationPaths es i" if i: "i \<noteq> e_id e" for i
  proof (cases "i \<in> ids es")
    case True
    then obtain x where x: "x \<in> set es" "e_id x = i" by auto
    then have "x \<in> set (es @ [e])" by simp
    then show ?thesis using conversationPaths_known [OF wf] conversationPaths_known [OF w(1) x(1)] walkParents_snoc [OF wf x(1)] x(2) by metis
  next
    case False
    then have "i \<notin> ids (es @ [e])" using i by auto
    then show ?thesis using False indexOf_None [of es i] indexOf_None [of "es @ [e]" i] by (simp add: conversationPaths_def)
  qed
  show "ct_paths (say e (goto (e_parentId e) t)) i = conversationPaths (es @ [e]) i"
    using new old t by (auto simp: say_def goto_def)
qed

lemma tree_log:
  "wfEntries (es @ new) \<Longrightarrow> ct_paths t = conversationPaths es \<Longrightarrow> \<exists>t'. treeStep\<^sup>*\<^sup>* t t' \<and> ct_paths t' = conversationPaths (es @ new)"
proof (induction new rule: rev_induct)
  case (snoc e new)
  have wf: "wfEntries ((es @ new) @ [e])" using snoc.prems(1) by simp
  obtain t1 where t1: "treeStep\<^sup>*\<^sup>* t t1" "ct_paths t1 = conversationPaths (es @ new)"
    using snoc.IH [OF wfEntries_prefix [OF wf] snoc.prems(2)] by blast
  have d: "dom (ct_paths t1) = ids (es @ new)" using conversationPaths_dom [OF wfEntries_prefix [OF wf]] t1(2) by simp
  have ok: "entryOk (ids (es @ new)) e" using wf by (simp only: wfEntries_snoc)
  let ?t2 = "goto (e_parentId e) t1"
  have "set_option (e_parentId e) \<subseteq> dom (ct_paths t1)" using ok unfolding d entryOk_def by (auto split: option.splits)
  then have "treeStep t1 ?t2" by (rule treeStep.intros(2))
  moreover have "dom (ct_paths ?t2) = ids (es @ new)" using d by (simp add: goto_def)
  then have "treeStep ?t2 (say e ?t2)" using ok unfolding entryOk_def by (intro treeStep.intros(1)) blast
  moreover have "ct_paths (say e ?t2) = conversationPaths (es @ new @ [e])" using conversationPaths_snoc [OF wf t1(2)] by simp
  ultimately show ?case using t1(1) by (meson rtranclp.rtrancl_into_rtrancl)
qed auto

lemma step_simulated:
  assumes inv: "smInv sm" and "storeStep sm sm'"
  shows "treeStep\<^sup>*\<^sup>* (treeOf sm) (treeOf sm')"
proof -
  have p: "plainStep sm sm'" using storeStep_plain [OF assms(2,1)] .
  then obtain new where es: "getEntries sm' = getEntries sm @ new" by (auto simp: plainStep_def)
  have c: "coreInv sm" "coreInv sm'" using inv p by (simp_all add: smInv_def plainStep_def)
  have "wfEntries (getEntries sm @ new)" using coreInv_wf [OF c(2)] es by simp
  from tree_log [OF this treeOf_paths [OF c(1)]] obtain t' where
    t': "treeStep\<^sup>*\<^sup>* (treeOf sm) t'" "ct_paths t' = ct_paths (treeOf sm')" using treeOf_paths [OF c(2)] es by auto
  have l: "set_option (leafId sm') \<subseteq> ids (getEntries sm')" using c(2) by (simp add: coreInv_def leafOk_def)
  then have "treeStep t' (goto (leafId sm') t')" using treeOf_dom [OF c(2)] t'(2) by (intro treeStep.intros(2)) simp
  moreover have "goto (leafId sm') t' = goto (leafId sm') (treeOf sm')" using t'(2) by (cases t'; cases "treeOf sm'") (simp add: goto_def split: option.split)
  moreover have "\<dots> = treeOf sm'" using treeOf_move [OF c(2) l] by simp
  ultimately show ?thesis using t'(1) by (metis rtranclp.rtrancl_into_rtrancl)
qed

text \<open>
  C5 (a session is a tree of conversations): in every valid state, appending a message extends the current conversation
  by one entry and adds it to the tree, branching goes to the conversation of an entry, resetting goes to the empty one, and
  branching with a summary goes there and extends it; reading a branch and projecting the context read the abstract
  tree. Every step of the manager is a sequence of such moves.
\<close>

theorem session_refines_tree:
  assumes inv: "smInv sm" and fresh: "freshWorld w sm"
  shows "treeOf (snd (appendMessage w m sm)) = say (newEntry w (MessageEntry m False) sm) (treeOf sm) \<and>
         (i \<in> dom (ct_paths (treeOf sm)) \<longrightarrow> treeOf (snd (branchTo i sm)) = goto (Some i) (treeOf sm)) \<and>
         treeOf (resetLeaf sm) = goto None (treeOf sm) \<and>
         (i \<in> dom (ct_paths (treeOf sm)) \<longrightarrow>
            (\<exists>e. sessionEntryToContextMessages e = (if s = [] then [] else [BranchSummary (createBranchSummaryMessage s (case leafId sm of Some l \<Rightarrow> l | None \<Rightarrow> ''root'') (w_now w))]) \<and>
                 treeOf (snd (branchWithSummary w (Some i) s det fh u sm)) = say e (goto (Some i) (treeOf sm)))) \<and>
         getBranch (Some i) sm = Some (case ct_paths (treeOf sm) i of Some path \<Rightarrow> path | None \<Rightarrow> []) \<and>
         sm_buildSessionProjection sm = Some (projectPath (legacyPruneChanges sm) (ct_current (treeOf sm))) \<and>
         (\<forall>sm'. storeStep sm sm' \<longrightarrow> treeStep\<^sup>*\<^sup>* (treeOf sm) (treeOf sm'))"
proof -
  have c: "coreInv sm" using inv by (simp add: smInv_def)
  note dom = treeOf_dom [OF c]
  have 1: "treeOf (snd (appendMessage w m sm)) = say (newEntry w (MessageEntry m False) sm) (treeOf sm)"
    unfolding appendMessage_def using inv fresh by (intro treeOf_appendData) (simp_all add: plainData_def dataTarget_def)
  have move: "treeOf (sm\<lparr>leafId := Some i\<rparr>) = goto (Some i) (treeOf sm)" if "i \<in> ids (getEntries sm)"
    using treeOf_move [OF c, of "Some i"] that by simp
  have 2: "i \<in> dom (ct_paths (treeOf sm)) \<longrightarrow> treeOf (snd (branchTo i sm)) = goto (Some i) (treeOf sm)"
    using move unfolding dom by (simp add: branchTo_def hasId_iff [OF c])
  have 3: "treeOf (resetLeaf sm) = goto None (treeOf sm)" using treeOf_move [OF c, of None] by (simp add: resetLeaf_def)
  have 4: "\<exists>e. sessionEntryToContextMessages e = (if s = [] then [] else [BranchSummary (createBranchSummaryMessage s (case leafId sm of Some l \<Rightarrow> l | None \<Rightarrow> ''root'') (w_now w))]) \<and>
      treeOf (snd (branchWithSummary w (Some i) s det fh u sm)) = say e (goto (Some i) (treeOf sm))"
    if i: "i \<in> dom (ct_paths (treeOf sm))"
  proof -
    let ?d = "BranchSummaryEntry (case leafId sm of Some l \<Rightarrow> l | None \<Rightarrow> ''root'') s det u fh" and ?sm = "sm\<lparr>leafId := Some i\<rparr>"
    have k: "i \<in> ids (getEntries sm)" using i unfolding dom .
    have "treeOf (snd (appendData w ?d ?sm)) = say (newEntry w ?d ?sm) (treeOf ?sm)"
      using smInv_move_leaf [OF inv, of "Some i"] k fresh by (intro treeOf_appendData) (simp_all add: plainData_def dataTarget_def)
    moreover have "branchWithSummary w (Some i) s det fh u sm = appendData w ?d ?sm"
      using k by (simp add: branchWithSummary_def hasId_iff [OF c])
    ultimately show ?thesis using move [OF k]
      by (intro exI [of _ "newEntry w ?d ?sm"]) (simp add: sessionEntryToContextMessages_def newEntry_def)
  qed
  have 5: "getBranch (Some i) sm = Some (case ct_paths (treeOf sm) i of Some path \<Rightarrow> path | None \<Rightarrow> [])"
  proof (cases "i \<in> ids (getEntries sm)")
    case True
    then obtain path where "pathTo (Some i) sm = Some path" using pathTo_total [OF c True] by metis
    then show ?thesis using True by (simp add: getBranch_Some_pathTo treeOf_def)
  next
    case False
    then have "map_of (byId sm) i = None" using c indexOf_None [of "getEntries sm" i] by (simp add: coreInv_def)
    then show ?thesis using False by (simp add: getBranch_def treeOf_def)
  qed
  obtain path where b: "getBranch None sm = Some path" using getBranch_total [OF c] by metis
  have 6: "sm_buildSessionProjection sm = Some (projectPath (legacyPruneChanges sm) (ct_current (treeOf sm)))"
    by (simp add: projection_of_branch [OF c] b treeOf_def)
  show ?thesis using 1 2 3 4 5 6 step_simulated [OF inv] by blast
qed

theorem session_refines_tree_witness:
  "ct_current (treeOf (snd (appendMessage (sampleWorld ''cccccccc-0'') (sampleUser ''x'') sample2))) =
     ct_current (treeOf sample2) @ [newEntry (sampleWorld ''cccccccc-0'') (MessageEntry (sampleUser ''x'') False) sample2] \<and>
   treeOf (resetLeaf sample2) = goto None (treeOf sample2)"
proof -
  note x = session_refines_tree [OF sample2_run(2) sample2_fresh, of "sampleUser ''x''"]
  show ?thesis using x by (simp add: say_def)
qed

end
