(* ===== verification/Transform_Messages.thy ===== *)
theory Transform_Messages
  imports Messages "HOL-Library.Sublist"
begin

text \<open>
  Replaying a transcript to a provider: \<open>packages/ai/src/api/transform-messages.ts\<close>. The first pass adapts each
  message to the target model (images, thinking blocks, tool call ids), the second one closes tool calls that
  have no result. The map of renamed ids that the code updates while it maps over the messages is threaded
  through. The content of a message is never null in the message model, so the normalisation of null content has
  nothing to do here.
\<close>

section \<open>Images\<close>

definition NON_VISION_USER_IMAGE_PLACEHOLDER :: string where
  "NON_VISION_USER_IMAGE_PLACEHOLDER = ''(image omitted: model does not support images)''"

definition NON_VISION_TOOL_IMAGE_PLACEHOLDER :: string where
  "NON_VISION_TOOL_IMAGE_PLACEHOLDER = ''(tool image omitted: model does not support images)''"

fun replaceImagesFrom :: "string \<Rightarrow> bool \<Rightarrow> content_block list \<Rightarrow> content_block list" where
  "replaceImagesFrom placeholder previousWasPlaceholder [] = []"
| "replaceImagesFrom placeholder previousWasPlaceholder (ImageBlock d m # bs) =
     (if previousWasPlaceholder then [] else [plainText placeholder]) @ replaceImagesFrom placeholder True bs"
| "replaceImagesFrom placeholder previousWasPlaceholder (b # bs) =
     b # replaceImagesFrom placeholder (blockText b = Some placeholder) bs"

definition replaceImagesWithPlaceholder :: "content_block list \<Rightarrow> string \<Rightarrow> content_block list" where
  "replaceImagesWithPlaceholder content placeholder = replaceImagesFrom placeholder False content"

record replay_model =
  rm_provider :: string
  rm_api :: string
  rm_id :: string
  rm_images :: bool \<comment> \<open>\<open>model.input.includes("image")\<close>\<close>

fun downgradeMessage :: "agent_message \<Rightarrow> agent_message" where
  "downgradeMessage (User m) =
     User (case um_content m of
        ContentBlocks bs \<Rightarrow> m\<lparr>um_content := ContentBlocks (replaceImagesWithPlaceholder bs NON_VISION_USER_IMAGE_PLACEHOLDER)\<rparr>
      | ContentString _ \<Rightarrow> m)"
| "downgradeMessage (ToolResult m) =
     ToolResult (m\<lparr>tr_content := replaceImagesWithPlaceholder (tr_content m) NON_VISION_TOOL_IMAGE_PLACEHOLDER\<rparr>)"
| "downgradeMessage m = m"

definition downgradeUnsupportedImages :: "replay_model \<Rightarrow> agent_message list \<Rightarrow> agent_message list" where
  "downgradeUnsupportedImages model messages = (if rm_images model then messages else map downgradeMessage messages)"

section \<open>First pass\<close>

type_synonym id_map = "(string \<times> string) list"

type_synonym id_normalizer = "(string \<Rightarrow> assistant_message \<Rightarrow> string) option"

definition isSameModel :: "replay_model \<Rightarrow> assistant_message \<Rightarrow> bool" where
  "isSameModel model am \<longleftrightarrow> am_provider am = rm_provider model \<and> am_api am = rm_api model \<and> am_model am = rm_id model"

definition present :: "string option \<Rightarrow> bool" where
  "present s \<longleftrightarrow> s \<noteq> None \<and> s \<noteq> Some []"

definition transformToolCall ::
  "bool \<Rightarrow> id_normalizer \<Rightarrow> assistant_message \<Rightarrow> tool_call \<Rightarrow> id_map \<Rightarrow> tool_call \<times> id_map" where
  "transformToolCall same rename am toolCall ids =
     (let call = (if \<not> same \<and> present (tc_thoughtSignature toolCall) then toolCall\<lparr>tc_thoughtSignature := None\<rparr> else toolCall)
      in case rename of
           Some f \<Rightarrow>
             (let normalizedId = f (tc_id toolCall) am
              in if \<not> same \<and> normalizedId \<noteq> tc_id toolCall
                 then (call\<lparr>tc_id := normalizedId\<rparr>, AList.update (tc_id toolCall) normalizedId ids)
                 else (call, ids))
         | None \<Rightarrow> (call, ids))"

fun transformBlock ::
  "bool \<Rightarrow> id_normalizer \<Rightarrow> assistant_message \<Rightarrow> content_block \<Rightarrow> id_map \<Rightarrow> content_block list \<times> id_map" where
  "transformBlock same rename am (ThinkingBlock t sig redacted) ids =
     ((if redacted then (if same then [ThinkingBlock t sig redacted] else [])
       else if same \<and> present sig then [ThinkingBlock t sig redacted]
       else if t = [] \<or> trim t = [] then []
       else if same then [ThinkingBlock t sig redacted]
       else [plainText t]), ids)"
| "transformBlock same rename am (TextBlock t sig) ids = ([if same then TextBlock t sig else plainText t], ids)"
| "transformBlock same rename am (ToolCallBlock tc) ids =
     (let (tc', ids') = transformToolCall same rename am tc ids in ([ToolCallBlock tc'], ids'))"
| "transformBlock same rename am b ids = ([b], ids)"

fun transformBlocks ::
  "bool \<Rightarrow> id_normalizer \<Rightarrow> assistant_message \<Rightarrow> content_block list \<Rightarrow> id_map \<Rightarrow> content_block list \<times> id_map" where
  "transformBlocks same rename am [] ids = ([], ids)"
| "transformBlocks same rename am (b # bs) ids =
     (let (out, ids1) = transformBlock same rename am b ids; (outs, ids2) = transformBlocks same rename am bs ids1
      in (out @ outs, ids2))"

fun transformMessage :: "replay_model \<Rightarrow> id_normalizer \<Rightarrow> agent_message \<Rightarrow> id_map \<Rightarrow> agent_message \<times> id_map" where
  "transformMessage model rename (ToolResult m) ids =
     (case map_of ids (tr_toolCallId m) of
        Some normalizedId \<Rightarrow>
          if normalizedId \<noteq> [] \<and> normalizedId \<noteq> tr_toolCallId m
          then (ToolResult (m\<lparr>tr_toolCallId := normalizedId\<rparr>), ids) else (ToolResult m, ids)
      | None \<Rightarrow> (ToolResult m, ids))"
| "transformMessage model rename (Assistant am) ids =
     (let (content, ids') = transformBlocks (isSameModel model am) rename am (am_content am) ids
      in (Assistant (am\<lparr>am_content := content\<rparr>), ids'))"
| "transformMessage model rename m ids = (m, ids)"

fun transformAll :: "replay_model \<Rightarrow> id_normalizer \<Rightarrow> agent_message list \<Rightarrow> id_map \<Rightarrow> agent_message list" where
  "transformAll model rename [] ids = []"
| "transformAll model rename (m # ms) ids =
     (let (m', ids') = transformMessage model rename m ids in m' # transformAll model rename ms ids')"

section \<open>Second pass\<close>

record close_state =
  cl_result :: "agent_message list"
  cl_pendingToolCalls :: "tool_call list"
  cl_existingToolResultIds :: "string list"
  cl_heldSystemMessages :: "agent_message list"

definition syntheticResult :: "int \<Rightarrow> tool_call \<Rightarrow> agent_message" where
  "syntheticResult now tc =
     ToolResult \<lparr>tr_toolCallId = tc_id tc, tr_toolName = tc_name tc, tr_content = [plainText ''No result provided''],
                 tr_details = None, tr_usage = None, tr_isError = True, tr_timestamp = now\<rparr>"

definition synthesize :: "int \<Rightarrow> string list \<Rightarrow> tool_call list \<Rightarrow> agent_message list" where
  "synthesize now existing calls = map (syntheticResult now) (filter (\<lambda>tc. tc_id tc \<notin> set existing) calls)"

text \<open>With no pending calls nothing is synthesised, and the set of ids keeps its value.\<close>

definition closePendingToolCalls :: "int \<Rightarrow> close_state \<Rightarrow> close_state" where
  "closePendingToolCalls now st =
     st\<lparr>cl_result := cl_result st @ synthesize now (cl_existingToolResultIds st) (cl_pendingToolCalls st) @ cl_heldSystemMessages st,
        cl_pendingToolCalls := [],
        cl_existingToolResultIds := (if cl_pendingToolCalls st = [] then cl_existingToolResultIds st else []),
        cl_heldSystemMessages := []\<rparr>"

definition pushResult :: "agent_message \<Rightarrow> close_state \<Rightarrow> close_state" where
  "pushResult m st = st\<lparr>cl_result := cl_result st @ [m]\<rparr>"

definition failedMessage :: "assistant_message \<Rightarrow> bool" where
  "failedMessage am \<longleftrightarrow> am_stopReason am = StopError \<or> am_stopReason am = StopAborted"

definition trackToolCalls :: "tool_call list \<Rightarrow> close_state \<Rightarrow> close_state" where
  "trackToolCalls calls st =
     (if calls = [] then st else st\<lparr>cl_pendingToolCalls := calls, cl_existingToolResultIds := []\<rparr>)"

fun closeStep :: "int \<Rightarrow> agent_message \<Rightarrow> close_state \<Rightarrow> close_state" where
  "closeStep now (Assistant am) st =
     (let st1 = closePendingToolCalls now st
      in if failedMessage am then st1
         else pushResult (Assistant am) (trackToolCalls (toolCallsOf (am_content am)) st1))"
| "closeStep now (ToolResult m) st =
     pushResult (ToolResult m) (st\<lparr>cl_existingToolResultIds := cl_existingToolResultIds st @ [tr_toolCallId m]\<rparr>)"
| "closeStep now (System m) st =
     (if cl_pendingToolCalls st \<noteq> [] then st\<lparr>cl_heldSystemMessages := cl_heldSystemMessages st @ [System m]\<rparr>
      else pushResult (System m) st)"
| "closeStep now (User m) st = pushResult (User m) (closePendingToolCalls now st)"
| "closeStep now m st = pushResult m st"

definition emptyClose :: close_state where
  "emptyClose = \<lparr>cl_result = [], cl_pendingToolCalls = [], cl_existingToolResultIds = [], cl_heldSystemMessages = []\<rparr>"

definition closeToolCalls :: "int \<Rightarrow> agent_message list \<Rightarrow> agent_message list" where
  "closeToolCalls now messages = cl_result (closePendingToolCalls now (fold (closeStep now) messages emptyClose))"

definition transformMessages :: "int \<Rightarrow> replay_model \<Rightarrow> id_normalizer \<Rightarrow> agent_message list \<Rightarrow> agent_message list" where
  "transformMessages now model rename messages =
     closeToolCalls now (transformAll model rename (downgradeUnsupportedImages model messages) [])"

section \<open>The second pass by turns\<close>

text \<open>The reference: the messages up to the next user or assistant message belong to the turn.\<close>

fun isOpener :: "agent_message \<Rightarrow> bool" where
  "isOpener (User _) \<longleftrightarrow> True"
| "isOpener (Assistant _) \<longleftrightarrow> True"
| "isOpener _ \<longleftrightarrow> False"

fun resultId :: "agent_message \<Rightarrow> string option" where
  "resultId (ToolResult m) = Some (tr_toolCallId m)"
| "resultId _ = None"

abbreviation resultIds :: "agent_message list \<Rightarrow> string list" where
  "resultIds ms \<equiv> List.map_filter resultId ms"

abbreviation turnTail :: "agent_message list \<Rightarrow> agent_message list" where
  "turnTail ms \<equiv> takeWhile (\<lambda>m. \<not> isOpener m) ms"

abbreviation afterTurn :: "agent_message list \<Rightarrow> agent_message list" where
  "afterTurn ms \<equiv> dropWhile (\<lambda>m. \<not> isOpener m) ms"

definition closedTail :: "int \<Rightarrow> tool_call list \<Rightarrow> agent_message list \<Rightarrow> agent_message list" where
  "closedTail now calls tail = filter isToolResult tail @ synthesize now (resultIds tail) calls @ filter isSystem tail"

function closedTurns :: "int \<Rightarrow> agent_message list \<Rightarrow> agent_message list" where
  "closedTurns now [] = []"
| "closedTurns now (m # ms) =
     (case m of
        Assistant am \<Rightarrow>
          if failedMessage am then closedTurns now ms
          else if toolCallsOf (am_content am) = [] then m # closedTurns now ms
          else m # closedTail now (toolCallsOf (am_content am)) (turnTail ms) @ closedTurns now (afterTurn ms)
      | _ \<Rightarrow> m # closedTurns now ms)"
  by pat_completeness auto
termination by (relation "measure (\<lambda>(_, ms). length ms)") (auto simp: length_dropWhile_le le_imp_less_Suc)

definition finished :: "int \<Rightarrow> agent_message list \<Rightarrow> close_state \<Rightarrow> agent_message list" where
  "finished now ms st = cl_result (closePendingToolCalls now (fold (closeStep now) ms st))"

lemmas close_defs = closePendingToolCalls_def pushResult_def trackToolCalls_def synthesize_def

definition openTurn :: "int \<Rightarrow> agent_message list \<Rightarrow> close_state \<Rightarrow> agent_message list" where
  "openTurn now ms st =
     cl_result st @ filter isToolResult (turnTail ms) @
     synthesize now (cl_existingToolResultIds st @ resultIds (turnTail ms)) (cl_pendingToolCalls st) @
     cl_heldSystemMessages st @ filter isSystem (turnTail ms) @ closedTurns now (afterTurn ms)"

lemma finished_step: "finished now (m # ms) st = finished now ms (closeStep now m st)"
  by (simp add: finished_def)

lemma finished_closed:
  assumes "list_all isLlmMessage ms"
  shows "(cl_pendingToolCalls st = [] \<and> cl_heldSystemMessages st = [] \<longrightarrow> finished now ms st = cl_result st @ closedTurns now ms) \<and>
         (cl_pendingToolCalls st \<noteq> [] \<longrightarrow> finished now ms st = openTurn now ms st)"
  using assms
proof (induction ms arbitrary: st)
  case Nil
  then show ?case by (simp add: finished_def openTurn_def close_defs List.map_filter_def)
next
  case (Cons m ms)
  then have IH: "cl_pendingToolCalls st' = [] \<Longrightarrow> cl_heldSystemMessages st' = [] \<Longrightarrow> finished now ms st' = cl_result st' @ closedTurns now ms"
    "cl_pendingToolCalls st' \<noteq> [] \<Longrightarrow> finished now ms st' = openTurn now ms st'" for st' by simp_all
  show ?case
  proof (cases m)
    case (Assistant am)
    then show ?thesis
      by (cases "failedMessage am"; cases "toolCallsOf (am_content am)")
         (auto simp: finished_step IH openTurn_def close_defs closedTail_def)
  next
    case (User u)
    then show ?thesis by (auto simp: finished_step IH openTurn_def close_defs List.map_filter_def)
  next
    case (System x)
    then show ?thesis by (auto simp: finished_step IH openTurn_def close_defs List.map_filter_def)
  next
    case (ToolResult r)
    then show ?thesis by (auto simp: finished_step IH openTurn_def close_defs List.map_filter_def)
  qed (use Cons.prems in simp_all)
qed

lemma closeToolCalls_closed: "list_all isLlmMessage ms \<Longrightarrow> closeToolCalls now ms = closedTurns now ms"
  using finished_closed [of ms emptyClose now] by (simp add: closeToolCalls_def finished_def emptyClose_def)

section \<open>What a provider receives\<close>

fun isUser :: "agent_message \<Rightarrow> bool" where
  "isUser (User _) \<longleftrightarrow> True"
| "isUser _ \<longleftrightarrow> False"

text \<open>The tool results right after an assistant message answer all its calls.\<close>

fun answered :: "agent_message \<Rightarrow> agent_message list \<Rightarrow> bool" where
  "answered (Assistant am) ms \<longleftrightarrow>
     tc_id ` set (toolCallsOf (am_content am)) \<subseteq> set (resultIds (takeWhile isToolResult ms))"
| "answered _ ms \<longleftrightarrow> True"

fun paired :: "agent_message list \<Rightarrow> bool" where
  "paired [] \<longleftrightarrow> True"
| "paired (m # ms) \<longleftrightarrow> answered m ms \<and> paired ms"

fun healthy :: "agent_message \<Rightarrow> bool" where
  "healthy (Assistant am) \<longleftrightarrow> \<not> failedMessage am"
| "healthy _ \<longleftrightarrow> True"

lemma answered_noAssistant [simp]: "\<not> isAssistant m \<Longrightarrow> answered m ms"
  by (cases m) auto

lemma paired_append: "\<forall>m \<in> set xs. \<not> isAssistant m \<Longrightarrow> paired (xs @ ys) \<longleftrightarrow> paired ys"
  by (induction xs) auto

lemma role_exclusive [simp]:
  "isToolResult m \<Longrightarrow> \<not> isAssistant m" "isSystem m \<Longrightarrow> \<not> isAssistant m" "isSystem m \<Longrightarrow> \<not> isToolResult m"
  "isSystem m \<Longrightarrow> \<not> isUser m" "isToolResult m \<Longrightarrow> \<not> isUser m" "\<not> isOpener m \<Longrightarrow> \<not> isUser m" "isToolResult m \<Longrightarrow> \<not> isSystem m"
  "isToolResult m \<Longrightarrow> healthy m" "isSystem m \<Longrightarrow> healthy m"
  by (cases m; simp)+

lemma synthesize_toolResult: "m \<in> set (synthesize now ids calls) \<Longrightarrow> isToolResult m"
  by (auto simp: synthesize_def syntheticResult_def)

lemma synthesize_ids: "set (resultIds (synthesize now ids calls)) = tc_id ` {tc \<in> set calls. tc_id tc \<notin> set ids}"
  by (auto simp: synthesize_def syntheticResult_def List.map_filter_def image_iff)

lemma resultIds_filter: "resultIds (filter isToolResult ms) = resultIds ms"
  by (induction ms) (auto simp: List.map_filter_def elim: isToolResult.elims)

lemma closedTail_answers:
  "tc_id ` set calls \<subseteq> set (resultIds (takeWhile isToolResult (closedTail now calls tail @ ys)))"
proof -
  let ?r = "filter isToolResult tail @ synthesize now (resultIds tail) calls"
  have "takeWhile isToolResult (?r @ zs) = ?r @ takeWhile isToolResult zs" for zs
    by (rule takeWhile_append2) (auto dest: synthesize_toolResult)
  then have "set (resultIds ?r) \<subseteq> set (resultIds (takeWhile isToolResult (closedTail now calls tail @ ys)))"
    by (auto simp: closedTail_def List.map_filter_def)
  moreover have "set (resultIds ?r) = set (resultIds tail) \<union> tc_id ` {tc \<in> set calls. tc_id tc \<notin> set (resultIds tail)}"
    using synthesize_ids [of now "resultIds tail" calls] resultIds_filter [of tail] by (simp add: List.map_filter_def)
  ultimately show ?thesis by auto
qed

lemma closedTail_noAssistant: "\<forall>m \<in> set (closedTail now calls tail). \<not> isAssistant m \<and> \<not> isUser m \<and> healthy m"
  by (auto simp: closedTail_def dest: synthesize_toolResult)

lemma filter_by_turn: "filter P ms = filter P (turnTail ms) @ filter P (afterTurn ms)"
  by (metis filter_append takeWhile_dropWhile_id)

lemma turnTail_noUser: "filter isUser (turnTail ms) = []"
  by (auto simp: filter_empty_conv dest: set_takeWhileD)

lemma closed_paired: "paired (closedTurns now ms)"
proof (induction now ms rule: closedTurns.induct)
  case (2 now m ms)
  show ?case
  proof (cases m)
    case (Assistant am)
    then show ?thesis using 2 closedTail_answers closedTail_noAssistant
      by (auto simp: paired_append List.map_filter_def)
  qed (use 2 in auto)
qed simp

lemma closed_healthy: "list_all healthy (closedTurns now ms)"
proof (induction now ms rule: closedTurns.induct)
  case (2 now m ms)
  show ?case
  proof (cases m)
    case (Assistant am)
    then show ?thesis using 2 closedTail_noAssistant by (auto simp: list_all_iff)
  qed (use 2 in auto)
qed simp

lemma filter_closedTail:
  "filter isUser (closedTail now calls tail) = []" "filter isSystem (closedTail now calls tail) = filter isSystem tail"
  by (auto simp: closedTail_def filter_empty_conv dest: synthesize_toolResult)

lemma closed_users: "filter isUser (closedTurns now ms) = filter isUser ms"
proof (induction now ms rule: closedTurns.induct)
  case (2 now m ms)
  show ?case
  proof (cases m)
    case (Assistant am)
    then show ?thesis using 2 filter_by_turn [of isUser ms] by (auto simp: filter_closedTail turnTail_noUser)
  qed (use 2 in auto)
qed simp

lemma closed_systems: "filter isSystem (closedTurns now ms) = filter isSystem ms"
proof (induction now ms rule: closedTurns.induct)
  case (2 now m ms)
  show ?case
  proof (cases m)
    case (Assistant am)
    then show ?thesis using 2 filter_by_turn [of isSystem ms] by (auto simp: filter_closedTail)
  qed (use 2 in auto)
qed simp

lemma closed_results: "subseq (filter isToolResult ms) (closedTurns now ms)"
proof (induction now ms rule: closedTurns.induct)
  case (2 now m ms)
  show ?case
  proof (cases m)
    case (Assistant am)
    have "subseq (filter isToolResult (turnTail ms)) (closedTail now calls (turnTail ms))" for calls
      unfolding closedTail_def by (rule list_emb_prefix) simp
    then have "\<not> failedMessage am \<Longrightarrow> toolCallsOf (am_content am) \<noteq> [] \<Longrightarrow>
      subseq (filter isToolResult (turnTail ms) @ filter isToolResult (afterTurn ms))
        (closedTail now (toolCallsOf (am_content am)) (turnTail ms) @ closedTurns now (afterTurn ms))"
      using 2 Assistant by (intro list_emb_append_mono) simp_all
    then show ?thesis using 2 Assistant filter_by_turn [of isToolResult ms] by auto
  qed (use 2 in auto)
qed simp

text \<open>The first pass changes assistant messages and ids of tool results only.\<close>

lemma transformMessage_roles:
  "isLlmMessage (fst (transformMessage model rename m ids)) = isLlmMessage m"
  "isUser (fst (transformMessage model rename m ids)) = isUser m"
  "isSystem (fst (transformMessage model rename m ids)) = isSystem m"
  "isToolResult (fst (transformMessage model rename m ids)) = isToolResult m"
  "isUser m \<or> isSystem m \<Longrightarrow> fst (transformMessage model rename m ids) = m"
  by (cases m; auto split: option.splits prod.splits)+

fun resultContent :: "agent_message \<Rightarrow> content_block list option" where
  "resultContent (ToolResult m) = Some (tr_content m)"
| "resultContent _ = None"

lemma transformMessage_content: "resultContent (fst (transformMessage model rename m ids)) = resultContent m"
  by (cases m) (auto split: option.splits prod.splits)

lemma transformAll_llm: "list_all isLlmMessage (transformAll model rename ms ids) = list_all isLlmMessage ms"
  by (induction ms arbitrary: ids) (auto simp: split_beta transformMessage_roles)

lemma transformAll_users: "filter isUser (transformAll model rename ms ids) = filter isUser ms"
  by (induction ms arbitrary: ids) (auto simp: split_beta transformMessage_roles)

lemma transformAll_systems: "filter isSystem (transformAll model rename ms ids) = filter isSystem ms"
  by (induction ms arbitrary: ids) (auto simp: split_beta transformMessage_roles)

lemma transformAll_contents:
  "map resultContent (filter isToolResult (transformAll model rename ms ids)) = map resultContent (filter isToolResult ms)"
  by (induction ms arbitrary: ids) (auto simp: split_beta transformMessage_roles transformMessage_content)

lemma downgrade_roles:
  "isLlmMessage (downgradeMessage m) = isLlmMessage m" "isSystem (downgradeMessage m) = isSystem m"
  "isSystem m \<Longrightarrow> downgradeMessage m = m"
  by (cases m; simp)+

lemma downgrade_llm: "list_all isLlmMessage (downgradeUnsupportedImages model ms) = list_all isLlmMessage ms"
  by (simp add: downgradeUnsupportedImages_def list_all_iff downgrade_roles)

lemma downgrade_systems: "filter isSystem (downgradeUnsupportedImages model ms) = filter isSystem ms"
  by (induction ms) (auto simp: downgradeUnsupportedImages_def downgrade_roles)

fun isImage :: "content_block \<Rightarrow> bool" where
  "isImage (ImageBlock _ _) \<longleftrightarrow> True"
| "isImage _ \<longleftrightarrow> False"

fun noImages :: "agent_message \<Rightarrow> bool" where
  "noImages (User m) \<longleftrightarrow> (case um_content m of ContentBlocks bs \<Rightarrow> \<not> list_ex isImage bs | ContentString _ \<Rightarrow> True)"
| "noImages (ToolResult m) \<longleftrightarrow> \<not> list_ex isImage (tr_content m)"
| "noImages _ \<longleftrightarrow> True"

lemma replaceImages_none: "\<not> list_ex isImage (replaceImagesFrom p b bs)"
  by (induction p b bs rule: replaceImagesFrom.induct) auto

lemma downgrade_noImages: "noImages (downgradeMessage m)"
  by (cases m) (auto simp: replaceImagesWithPlaceholder_def replaceImages_none split: content.splits)

lemma transformMessage_noImages: "noImages m \<Longrightarrow> noImages (fst (transformMessage model rename m ids))"
  by (cases m) (auto split: option.splits prod.splits)

lemma transformAll_noImages: "list_all noImages ms \<Longrightarrow> list_all noImages (transformAll model rename ms ids)"
  by (induction ms arbitrary: ids) (auto simp: split_beta transformMessage_noImages)

lemma synthesize_noImages: "m \<in> set (synthesize now ids calls) \<Longrightarrow> noImages m"
  by (auto simp: synthesize_def syntheticResult_def)

lemma closed_noImages: "list_all noImages ms \<Longrightarrow> list_all noImages (closedTurns now ms)"
proof (induction now ms rule: closedTurns.induct)
  case (2 now m ms)
  show ?case
  proof (cases m)
    case (Assistant am)
    have "list_all noImages (turnTail ms)" "list_all noImages (afterTurn ms)"
      using "2.prems" by (auto simp: list_all_iff dest: set_takeWhileD set_dropWhileD)
    then have "list_all noImages (closedTail now calls (turnTail ms))" for calls
      by (auto simp: closedTail_def list_all_iff dest: synthesize_noImages)
    with \<open>list_all noImages (afterTurn ms)\<close> show ?thesis using 2 Assistant by auto
  qed (use 2 in auto)
qed simp

text \<open>
  C13 (replay): whatever transcript of provider messages is replayed to whatever model, the result is well formed
  for a provider: the tool results right after an assistant message answer every call it makes, no failed or
  aborted response is replayed, and a model without image input gets no image. User and system messages are all
  there in their order, and so are all tool results with their content; the only messages added are results for
  calls the transcript leaves unanswered.
\<close>

theorem transformMessages_wire_format:
  assumes "list_all isLlmMessage ms"
  shows "paired (transformMessages now model rename ms) \<and>
         list_all healthy (transformMessages now model rename ms) \<and>
         (rm_images model \<or> list_all noImages (transformMessages now model rename ms)) \<and>
         filter isUser (transformMessages now model rename ms) = filter isUser (downgradeUnsupportedImages model ms) \<and>
         filter isSystem (transformMessages now model rename ms) = filter isSystem ms \<and>
         subseq (map resultContent (filter isToolResult (downgradeUnsupportedImages model ms)))
                (map resultContent (transformMessages now model rename ms)) \<and>
         transformMessages now model rename ms = closedTurns now (transformAll model rename (downgradeUnsupportedImages model ms) [])"
proof -
  let ?d = "downgradeUnsupportedImages model ms"
  let ?t = "transformAll model rename ?d []"
  have out: "transformMessages now model rename ms = closedTurns now ?t"
    unfolding transformMessages_def by (rule closeToolCalls_closed) (simp add: transformAll_llm downgrade_llm assms)
  have "subseq (map resultContent (filter isToolResult ?t)) (map resultContent (closedTurns now ?t))"
    by (rule subseq_map [OF closed_results])
  then have r: "subseq (map resultContent (filter isToolResult ?d)) (map resultContent (closedTurns now ?t))"
    by (simp only: transformAll_contents)
  have i: "rm_images model \<or> list_all noImages (closedTurns now ?t)"
  proof (cases "rm_images model")
    case False
    then have "list_all noImages ?d" by (simp add: downgradeUnsupportedImages_def list_all_iff downgrade_noImages)
    then show ?thesis by (intro disjI2 closed_noImages transformAll_noImages)
  qed simp
  have u: "filter isUser (closedTurns now ?t) = filter isUser ?d" by (simp only: closed_users transformAll_users)
  have s: "filter isSystem (closedTurns now ?t) = filter isSystem ms"
    by (simp only: closed_systems transformAll_systems downgrade_systems)
  show ?thesis unfolding out by (intro conjI closed_paired closed_healthy i u s r refl)
qed

definition sampleCall :: agent_message where
  "sampleCall =
     Assistant \<lparr>am_content = [ToolCallBlock \<lparr>tc_id = ''c|1'', tc_name = ''read'', tc_arguments = [], tc_thoughtSignature = None,
                                             tc_namespace = None\<rparr>],
                am_api = ''a'', am_provider = ''p'', am_model = ''m'', am_usage = None, am_stopReason = ToolUse,
                am_errorMessage = None, am_timestamp = 0, am_rest = []\<rparr>"

definition sampleModel :: replay_model where
  "sampleModel = \<lparr>rm_provider = ''q'', rm_api = ''b'', rm_id = ''n'', rm_images = False\<rparr>"

theorem transformMessages_wire_format_witness:
  "paired (transformMessages 0 sampleModel (Some (\<lambda>i _. ''c1'')) [sampleCall]) \<and>
   length (transformMessages 0 sampleModel (Some (\<lambda>i _. ''c1'')) [sampleCall]) = 2"
proof
  show "paired (transformMessages 0 sampleModel (Some (\<lambda>i _. ''c1'')) [sampleCall])"
    by (rule conjunct1 [OF transformMessages_wire_format]) (simp add: sampleCall_def)
  show "length (transformMessages 0 sampleModel (Some (\<lambda>i _. ''c1'')) [sampleCall]) = 2" by code_simp
qed

end
