(* ===== verification/Truncate.thy ===== *)
theory Truncate
  imports Messages
begin

text \<open>
  Truncation of tool output: \<open>packages/coding-agent/src/core/tools/truncate.ts\<close>. A text is the list of its
  Unicode scalar values, so that byte counts are those of UTF-8; lone surrogates are outside the model. The
  cut inside a line works on the encoded bytes as the code does, and decodes what is left.
\<close>

type_synonym utext = "nat list"

definition validText :: "utext \<Rightarrow> bool" where
  "validText t \<longleftrightarrow> list_all (\<lambda>c. c < 0x110000 \<and> \<not> (0xD800 \<le> c \<and> c < 0xE000)) t"

abbreviation LF :: nat where
  "LF \<equiv> 10"

section \<open>UTF-8\<close>

definition continuation :: "nat \<Rightarrow> nat" where
  "continuation n = 0x80 + n mod 64"

definition utf8Char :: "nat \<Rightarrow> nat list" where
  "utf8Char c =
     (if c < 0x80 then [c]
      else if c < 0x800 then [0xC0 + c div 64, continuation c]
      else if c < 0x10000 then [0xE0 + c div 4096, continuation (c div 64), continuation c]
      else [0xF0 + c div 262144, continuation (c div 4096), continuation (c div 64), continuation c])"

definition utf8 :: "utext \<Rightarrow> nat list" where
  "utf8 t = concat (map utf8Char t)"

text \<open>\<open>Buffer.byteLength(content, "utf-8")\<close>\<close>

definition byteLength :: "utext \<Rightarrow> nat" where
  "byteLength t = length (utf8 t)"

definition isContinuation :: "nat \<Rightarrow> bool" where
  "isContinuation b \<longleftrightarrow> b div 64 = 2"

text \<open>
  \<open>buffer.toString("utf-8")\<close>. It is applied to tails of encoded texts only; a byte that does not start a
  sequence of the right length decodes to U+FFFD.
\<close>

fun utf8Decode :: "nat list \<Rightarrow> utext" where
  "utf8Decode [] = []"
| "utf8Decode (b # bs) =
     (if b < 0x80 then b # utf8Decode bs
      else case bs of
        b1 # bs1 \<Rightarrow>
          if 0xC2 \<le> b \<and> b < 0xE0 \<and> isContinuation b1
          then ((b - 0xC0) * 64 + (b1 - 0x80)) # utf8Decode bs1
          else (case bs1 of
            b2 # bs2 \<Rightarrow>
              if 0xE0 \<le> b \<and> b < 0xF0 \<and> isContinuation b1 \<and> isContinuation b2
              then ((b - 0xE0) * 4096 + (b1 - 0x80) * 64 + (b2 - 0x80)) # utf8Decode bs2
              else (case bs2 of
                b3 # bs3 \<Rightarrow>
                  if 0xF0 \<le> b \<and> b < 0xF5 \<and> isContinuation b1 \<and> isContinuation b2 \<and> isContinuation b3
                  then ((b - 0xF0) * 262144 + (b1 - 0x80) * 4096 + (b2 - 0x80) * 64 + (b3 - 0x80)) # utf8Decode bs3
                  else 0xFFFD # utf8Decode bs
              | [] \<Rightarrow> 0xFFFD # utf8Decode bs)
          | [] \<Rightarrow> 0xFFFD # utf8Decode bs)
      | [] \<Rightarrow> [0xFFFD])"

section \<open>The truncation functions\<close>

definition DEFAULT_MAX_LINES :: nat where
  "DEFAULT_MAX_LINES = 2000"

definition DEFAULT_MAX_BYTES :: nat where
  "DEFAULT_MAX_BYTES = 50 * 1024"

datatype truncated_by = ByLines | ByBytes

record truncation_result =
  tres_content :: utext
  tres_truncated :: bool
  tres_truncatedBy :: "truncated_by option"
  tres_totalLines :: nat
  tres_totalBytes :: nat
  tres_outputLines :: nat
  tres_outputBytes :: nat
  tres_lastLinePartial :: bool
  tres_firstLineExceedsLimit :: bool
  tres_maxLines :: nat
  tres_maxBytes :: nat

definition splitLinesForCounting :: "utext \<Rightarrow> utext list" where
  "splitLinesForCounting content =
     (if content = [] then []
      else let lines = splitOn LF content in if last content = LF then butlast lines else lines)"

definition untruncated :: "utext \<Rightarrow> nat \<Rightarrow> nat \<Rightarrow> nat \<Rightarrow> nat \<Rightarrow> truncation_result" where
  "untruncated content totalLines totalBytes maxLines maxBytes =
     \<lparr>tres_content = content, tres_truncated = False, tres_truncatedBy = None, tres_totalLines = totalLines,
      tres_totalBytes = totalBytes, tres_outputLines = totalLines, tres_outputBytes = totalBytes,
      tres_lastLinePartial = False, tres_firstLineExceedsLimit = False, tres_maxLines = maxLines, tres_maxBytes = maxBytes\<rparr>"

definition formatSize :: "nat \<Rightarrow> string" where
  "formatSize bytes =
     (if bytes < 1024 then showNat bytes @ ''B''
      else if bytes < 1024 * 1024 then toFixed1 (of_nat bytes / 1024) @ ''KB''
      else toFixed1 (of_nat bytes / (1024 * 1024)) @ ''MB'')"

text \<open>The loop of \<open>truncateHead\<close> from line \<open>i\<close> on: the lines collected, their byte count, and \<open>truncatedBy === "bytes"\<close>.\<close>

fun headLoop :: "nat \<Rightarrow> nat \<Rightarrow> nat \<Rightarrow> nat \<Rightarrow> utext list \<Rightarrow> utext list \<times> nat \<times> bool" where
  "headLoop maxLines maxBytes i bytes [] = ([], bytes, False)"
| "headLoop maxLines maxBytes i bytes (line # lines) =
     (if i < maxLines then
        let lineBytes = byteLength line + (if 0 < i then 1 else 0) in
        if maxBytes < bytes + lineBytes then ([], bytes, True)
        else let (out, bytes', hit) = headLoop maxLines maxBytes (Suc i) (bytes + lineBytes) lines
             in (line # out, bytes', hit)
      else ([], bytes, False))"

definition limitHit :: "nat \<Rightarrow> nat \<Rightarrow> nat \<Rightarrow> nat \<Rightarrow> bool \<Rightarrow> truncated_by" where
  "limitHit maxLines maxBytes count bytes hitBytes =
     (if maxLines \<le> count \<and> bytes \<le> maxBytes then ByLines else if hitBytes then ByBytes else ByLines)"

definition truncateHead :: "utext \<Rightarrow> nat option \<Rightarrow> nat option \<Rightarrow> truncation_result" where
  "truncateHead content maxLinesOpt maxBytesOpt =
     (let maxLines = (case maxLinesOpt of Some n \<Rightarrow> n | None \<Rightarrow> DEFAULT_MAX_LINES);
          maxBytes = (case maxBytesOpt of Some n \<Rightarrow> n | None \<Rightarrow> DEFAULT_MAX_BYTES);
          totalBytes = byteLength content;
          lines = splitLinesForCounting content;
          totalLines = length lines
      in if totalLines \<le> maxLines \<and> totalBytes \<le> maxBytes
         then untruncated content totalLines totalBytes maxLines maxBytes
         else if maxBytes < byteLength (hd lines)
         then \<lparr>tres_content = [], tres_truncated = True, tres_truncatedBy = Some ByBytes, tres_totalLines = totalLines,
               tres_totalBytes = totalBytes, tres_outputLines = 0, tres_outputBytes = 0, tres_lastLinePartial = False,
               tres_firstLineExceedsLimit = True, tres_maxLines = maxLines, tres_maxBytes = maxBytes\<rparr>
         else let (out, bytes, hit) = headLoop maxLines maxBytes 0 0 lines;
                  outputContent = join [LF] out
              in \<lparr>tres_content = outputContent, tres_truncated = True,
                  tres_truncatedBy = Some (limitHit maxLines maxBytes (length out) bytes hit),
                  tres_totalLines = totalLines, tres_totalBytes = totalBytes, tres_outputLines = length out,
                  tres_outputBytes = byteLength outputContent, tres_lastLinePartial = False,
                  tres_firstLineExceedsLimit = False, tres_maxLines = maxLines, tres_maxBytes = maxBytes\<rparr>)"

definition truncateStringToBytesFromEnd :: "utext \<Rightarrow> nat \<Rightarrow> utext" where
  "truncateStringToBytesFromEnd str maxBytes =
     (let buf = utf8 str
      in if length buf \<le> maxBytes then str
         else utf8Decode (dropWhile isContinuation (drop (length buf - maxBytes) buf)))"

text \<open>
  The loop of \<open>truncateTail\<close> over the lines from the last to the first: the collected lines, their byte count,
  \<open>truncatedBy === "bytes"\<close> and \<open>lastLinePartial\<close>.
\<close>

fun tailLoop :: "nat \<Rightarrow> nat \<Rightarrow> utext list \<Rightarrow> nat \<Rightarrow> utext list \<Rightarrow> utext list \<times> nat \<times> bool \<times> bool" where
  "tailLoop maxLines maxBytes out bytes [] = (out, bytes, False, False)"
| "tailLoop maxLines maxBytes out bytes (line # lines) =
     (if length out < maxLines then
        let lineBytes = byteLength line + (if out \<noteq> [] then 1 else 0) in
        if maxBytes < bytes + lineBytes
        then (if out = []
              then let truncatedLine = truncateStringToBytesFromEnd line maxBytes
                   in ([truncatedLine], byteLength truncatedLine, True, True)
              else (out, bytes, True, False))
        else tailLoop maxLines maxBytes (line # out) (bytes + lineBytes) lines
      else (out, bytes, False, False))"

definition truncateTail :: "utext \<Rightarrow> nat option \<Rightarrow> nat option \<Rightarrow> truncation_result" where
  "truncateTail content maxLinesOpt maxBytesOpt =
     (let maxLines = (case maxLinesOpt of Some n \<Rightarrow> n | None \<Rightarrow> DEFAULT_MAX_LINES);
          maxBytes = (case maxBytesOpt of Some n \<Rightarrow> n | None \<Rightarrow> DEFAULT_MAX_BYTES);
          totalBytes = byteLength content;
          lines = splitLinesForCounting content;
          totalLines = length lines
      in if totalLines \<le> maxLines \<and> totalBytes \<le> maxBytes
         then untruncated content totalLines totalBytes maxLines maxBytes
         else let (out, bytes, hit, lastLinePartial) = tailLoop maxLines maxBytes [] 0 (rev lines);
                  outputContent = join [LF] out
              in \<lparr>tres_content = outputContent, tres_truncated = True,
                  tres_truncatedBy = Some (limitHit maxLines maxBytes (length out) bytes hit),
                  tres_totalLines = totalLines, tres_totalBytes = totalBytes, tres_outputLines = length out,
                  tres_outputBytes = byteLength outputContent, tres_lastLinePartial = lastLinePartial,
                  tres_firstLineExceedsLimit = False, tres_maxLines = maxLines, tres_maxBytes = maxBytes\<rparr>)"

text \<open>\<open>truncateLine\<close> counts UTF-16 code units; its texts are strings.\<close>

definition truncateLine :: "string \<Rightarrow> nat \<Rightarrow> string \<times> bool" where
  "truncateLine line maxChars =
     (if length line \<le> maxChars then (line, False) else (take maxChars line @ ''... [truncated]'', True))"

section \<open>UTF-8 lemmas\<close>

lemma isContinuation_continuation [simp]: "isContinuation (continuation n)"
  by (simp add: isContinuation_def continuation_def div_add1_eq)

lemma continuation_bounds: "0x80 \<le> continuation n" "continuation n - 0x80 = n mod 64"
  by (simp_all add: continuation_def)

lemma utf8_simps [simp]: "utf8 [] = []" "utf8 (c # t) = utf8Char c @ utf8 t" "utf8 (t @ u) = utf8 t @ utf8 u"
  by (simp_all add: utf8_def)

lemma byteLength_simps [simp]:
  "byteLength [] = 0" "byteLength (c # t) = length (utf8Char c) + byteLength t"
  "byteLength (t @ u) = byteLength t + byteLength u"
  by (simp_all add: byteLength_def)

lemma utf8Char_LF [simp]: "utf8Char LF = [LF]"
  by (simp add: utf8Char_def)

lemma lead_byte: "0xC0 \<le> k \<Longrightarrow> \<not> isContinuation (k + n)" "c < 0x80 \<Longrightarrow> \<not> isContinuation c"
proof -
  assume "0xC0 \<le> k"
  then have "192 div 64 \<le> (k + n) div 64" by (intro div_le_mono) simp
  then show "\<not> isContinuation (k + n)" by (simp add: isContinuation_def)
next
  assume "c < 0x80"
  then have "c div 64 \<le> 127 div 64" by (intro div_le_mono) simp
  then show "\<not> isContinuation c" by (simp add: isContinuation_def)
qed

lemma utf8Char_head:
  "\<exists>b bs. utf8Char c = b # bs \<and> \<not> isContinuation b \<and> list_all isContinuation bs"
  by (simp add: utf8Char_def lead_byte)

lemma digits3: "(c div 4096) * 4096 + (c div 64) mod 64 * 64 + c mod 64 = (c::nat)"
proof -
  have "c div 4096 = (c div 64) div 64" by (simp add: div_mult2_eq [symmetric])
  moreover have "(c div 64) div 64 * 4096 + (c div 64) mod 64 * 64 = (c div 64) * 64"
    using div_mult_mod_eq [of "c div 64" 64] by linarith
  ultimately show ?thesis using div_mult_mod_eq [of c 64] by linarith
qed

lemma digits4: "(c div 262144) * 262144 + (c div 4096) mod 64 * 4096 + (c div 64) mod 64 * 64 + c mod 64 = (c::nat)"
proof -
  have "c div 262144 = (c div 4096) div 64" by (simp add: div_mult2_eq [symmetric])
  then have "(c div 262144) * 262144 + (c div 4096) mod 64 * 4096 = (c div 4096) * 4096"
    using div_mult_mod_eq [of "c div 4096" 64] by linarith
  then show ?thesis using digits3 [of c] by linarith
qed

lemma utf8Decode_char:
  assumes "c < 0x110000"
  shows "utf8Decode (utf8Char c @ bs) = c # utf8Decode bs"
proof -
  consider "c < 0x80" | "0x80 \<le> c" "c < 0x800" | "0x800 \<le> c" "c < 0x10000" | "0x10000 \<le> c" by linarith
  then show ?thesis
  proof cases
    case 1
    then show ?thesis by (simp add: utf8Char_def)
  next
    case 2
    then have "2 \<le> c div 64" "c div 64 < 32" by (auto simp: less_eq_div_iff_mult_less_eq less_mult_imp_div_less)
    with 2 show ?thesis by (simp add: utf8Char_def continuation_bounds)
  next
    case 3
    then have "c div 4096 < 16" by (auto simp: less_mult_imp_div_less)
    with 3 show ?thesis using digits3 [of c] by (simp add: utf8Char_def continuation_bounds)
  next
    case 4
    then have "c div 262144 < 5" using assms by (auto simp: less_mult_imp_div_less)
    with 4 show ?thesis using digits4 [of c] by (simp add: utf8Char_def continuation_bounds)
  qed
qed

lemma utf8Decode_utf8: "validText t \<Longrightarrow> utf8Decode (utf8 t) = t"
  by (induction t) (simp_all add: validText_def utf8Decode_char)

lemma dropWhile_continuation_utf8:
  assumes "validText t"
  shows "dropWhile isContinuation (utf8 t) = utf8 t"
proof (cases t)
  case (Cons c cs)
  with assms obtain b bs where "utf8Char c = b # bs" "\<not> isContinuation b"
    using utf8Char_head [of c] by auto
  with Cons show ?thesis by simp
qed simp

text \<open>Skipping continuation bytes from any position lands on the next character boundary.\<close>

lemma align_boundary:
  "validText t \<Longrightarrow> n \<le> byteLength t \<Longrightarrow>
   \<exists>k \<le> length t. dropWhile isContinuation (drop n (utf8 t)) = utf8 (drop k t) \<and>
      n \<le> byteLength (take k t) \<and> (k = 0 \<or> byteLength (take (k - 1) t) < n)"
proof (induction t arbitrary: n)
  case (Cons c t)
  have t: "validText t" and c: "c < 0x110000" using Cons.prems(1) by (simp_all add: validText_def)
  obtain b bs where u: "utf8Char c = b # bs" "list_all isContinuation bs" using utf8Char_head [of c] by metis
  show ?case
  proof (cases "n = 0")
    case True
    then show ?thesis using dropWhile_continuation_utf8 [OF Cons.prems(1)] by (intro exI [of _ 0]) simp
  next
    case n: False
    show ?thesis
    proof (cases "n \<le> length (utf8Char c)")
      case True
      have "drop n (utf8 (c # t)) = drop (n - 1) bs @ utf8 t" using True n u(1) by (cases n) auto
      moreover have "list_all isContinuation (drop (n - 1) bs)" using u(2) by (auto simp: list_all_iff dest: in_set_dropD)
      ultimately have "dropWhile isContinuation (drop n (utf8 (c # t))) = utf8 t"
        using dropWhile_continuation_utf8 [OF t] by (simp add: dropWhile_append list_all_iff)
      with True n show ?thesis by (intro exI [of _ 1]) simp
    next
      case False
      then have "n - length (utf8Char c) \<le> byteLength t" using Cons.prems(2) by simp
      from Cons.IH [OF t this] obtain k where k: "k \<le> length t"
        "dropWhile isContinuation (drop (n - length (utf8Char c)) (utf8 t)) = utf8 (drop k t)"
        "n - length (utf8Char c) \<le> byteLength (take k t)"
        "k = 0 \<or> byteLength (take (k - 1) t) < n - length (utf8Char c)" by blast
      have "0 < k" using k(3) False by (cases k) auto
      with k False show ?thesis by (intro exI [of _ "Suc k"]) (cases k, auto)
    qed
  qed
qed simp

lemma truncateStringToBytesFromEnd_suffix:
  assumes "validText t"
  shows "\<exists>k \<le> length t. truncateStringToBytesFromEnd t maxBytes = drop k t \<and>
           byteLength (drop k t) \<le> maxBytes \<and> (k = 0 \<or> maxBytes < byteLength (drop (k - 1) t))"
proof (cases "byteLength t \<le> maxBytes")
  case True
  then show ?thesis by (intro exI [of _ 0]) (simp add: truncateStringToBytesFromEnd_def byteLength_def Let_def)
next
  case False
  let ?n = "byteLength t - maxBytes"
  obtain k where k: "k \<le> length t" "dropWhile isContinuation (drop ?n (utf8 t)) = utf8 (drop k t)"
    "?n \<le> byteLength (take k t)" "k = 0 \<or> byteLength (take (k - 1) t) < ?n"
    using align_boundary [OF assms, of ?n] by auto
  have split: "byteLength (take j t) + byteLength (drop j t) = byteLength t" for j
    by (metis append_take_drop_id byteLength_simps(3))
  have "validText (drop k t)" using assms by (auto simp: validText_def list_all_iff dest: in_set_dropD)
  then have "truncateStringToBytesFromEnd t maxBytes = drop k t"
    using False k(2) by (simp add: truncateStringToBytesFromEnd_def byteLength_def Let_def utf8Decode_utf8)
  moreover have "byteLength (drop k t) \<le> maxBytes" using k(3) split [of k] False by linarith
  moreover have "k = 0 \<or> maxBytes < byteLength (drop (k - 1) t)" using k(4) split [of "k - 1"] by linarith
  ultimately show ?thesis using k(1) by blast
qed

section \<open>What is kept\<close>

abbreviation joinBytes :: "utext list \<Rightarrow> nat" where
  "joinBytes ls \<equiv> byteLength (join [LF] ls)"

lemma joinBytes_Cons: "joinBytes (l # ls) = byteLength l + (if ls = [] then 0 else 1) + joinBytes ls"
  by (cases ls) simp_all

lemma joinBytes_snoc: "joinBytes (ls @ [l]) = joinBytes ls + (if ls = [] then 0 else 1) + byteLength l"
  by (induction ls) (simp_all add: joinBytes_Cons)

lemma headLoop_spec:
  assumes "headLoop maxLines maxBytes (length pre) (joinBytes pre) lines = (out, bytes, hit)"
    and "joinBytes pre \<le> maxBytes" and "length pre \<le> maxLines"
  shows "\<exists>k \<le> length lines. out = take k lines \<and> bytes = joinBytes (pre @ out) \<and> bytes \<le> maxBytes \<and>
           length pre + k \<le> maxLines \<and>
           (if hit then maxBytes < joinBytes (pre @ take (Suc k) lines) else k = length lines \<or> length pre + k = maxLines)"
  using assms
proof (induction lines arbitrary: pre out)
  case (Cons line lines)
  let ?lb = "byteLength line + (if 0 < length pre then 1 else 0)"
  have jb: "joinBytes (pre @ [line]) = joinBytes pre + ?lb" by (simp add: joinBytes_snoc)
  consider (full) "length pre = maxLines" | (over) "length pre < maxLines" "maxBytes < joinBytes pre + ?lb"
    | (fits) "length pre < maxLines" "joinBytes pre + ?lb \<le> maxBytes"
    using Cons.prems(3) by linarith
  then show ?case
  proof cases
    case full
    with Cons.prems show ?thesis by (intro exI [of _ 0]) auto
  next
    case over
    with Cons.prems show ?thesis by (intro exI [of _ 0]) (auto simp: jb Let_def)
  next
    case fits
    obtain out' bytes' hit' where r: "headLoop maxLines maxBytes (Suc (length pre)) (joinBytes pre + ?lb) lines = (out', bytes', hit')"
      by (cases "headLoop maxLines maxBytes (Suc (length pre)) (joinBytes pre + ?lb) lines")
    have o: "out = line # out'" "bytes = bytes'" "hit = hit'" using Cons.prems(1) fits r by (auto simp: Let_def)
    have "headLoop maxLines maxBytes (length (pre @ [line])) (joinBytes (pre @ [line])) lines = (out', bytes, hit)"
      using r o(2,3) by (simp add: jb)
    from Cons.IH [OF this] fits obtain k where "k \<le> length lines" "out' = take k lines"
      "bytes = joinBytes ((pre @ [line]) @ out')" "bytes \<le> maxBytes" "length (pre @ [line]) + k \<le> maxLines"
      "if hit then maxBytes < joinBytes ((pre @ [line]) @ take (Suc k) lines) else k = length lines \<or> length (pre @ [line]) + k = maxLines"
      by (auto simp: jb)
    then show ?thesis using o(1) by (intro exI [of _ "Suc k"]) (simp split: if_splits)
  qed
qed (auto simp: Let_def)

lemma splitLines_nonempty: "content \<noteq> [] \<Longrightarrow> splitLinesForCounting content \<noteq> []"
proof
  assume c: "content \<noteq> []" and n: "splitLinesForCounting content = []"
  then have l: "last content = LF" "butlast (splitOn LF content) = []"
    by (auto simp: splitLinesForCounting_def Let_def split: if_splits)
  have "length (splitOn x (ys @ [x])) \<ge> 2" for x :: nat and ys
    by (induction ys) (auto split: list.splits simp: Suc_le_eq)
  then have "2 \<le> length (splitOn LF content)" using c l(1) by (metis append_butlast_last_id)
  with l(2) show False by (cases "splitOn LF content" rule: rev_cases) auto
qed

definition lineLimit :: "nat option \<Rightarrow> nat" where
  "lineLimit m = (case m of Some n \<Rightarrow> n | None \<Rightarrow> DEFAULT_MAX_LINES)"

definition byteLimit :: "nat option \<Rightarrow> nat" where
  "byteLimit m = (case m of Some n \<Rightarrow> n | None \<Rightarrow> DEFAULT_MAX_BYTES)"

text \<open>
  Head truncation: the output respects both limits and its reported sizes are its sizes. Either nothing was
  cut, or the output consists of the first \<open>k\<close> lines, whole, and one more line would exceed a limit (or there is
  none: only a trailing newline was dropped).
\<close>

theorem truncateHead_bounds:
  "let r = truncateHead content ml mb; lines = splitLinesForCounting content; k = tres_outputLines r in
   k \<le> lineLimit ml \<and> tres_outputBytes r \<le> byteLimit mb \<and> tres_outputBytes r = byteLength (tres_content r) \<and>
   (if tres_truncated r
    then tres_content r = join [LF] (take k lines) \<and>
         (k = length lines \<or> k = lineLimit ml \<or> byteLimit mb < byteLength (join [LF] (take (Suc k) lines)))
    else tres_content r = content)"
proof -
  let ?ls = "splitLinesForCounting content" and ?L = "lineLimit ml" and ?B = "byteLimit mb"
  consider (fits) "length ?ls \<le> ?L" "byteLength content \<le> ?B"
    | (first) "\<not> (length ?ls \<le> ?L \<and> byteLength content \<le> ?B)" "?B < byteLength (hd ?ls)"
    | (cut) "\<not> (length ?ls \<le> ?L \<and> byteLength content \<le> ?B)" "byteLength (hd ?ls) \<le> ?B" by linarith
  then show ?thesis
  proof cases
    case fits
    then show ?thesis
      by (simp add: truncateHead_def untruncated_def Let_def lineLimit_def [symmetric] byteLimit_def [symmetric])
  next
    case first
    then have "content \<noteq> []" by (auto simp: splitLinesForCounting_def)
    then have "?ls \<noteq> []" by (rule splitLines_nonempty)
    then have "join [LF] (take (Suc 0) ?ls) = hd ?ls" by (cases ?ls) auto
    then show ?thesis using first
      by (auto simp: truncateHead_def Let_def lineLimit_def [symmetric] byteLimit_def [symmetric])
  next
    case cut
    obtain out bytes hit where h: "headLoop ?L ?B 0 0 ?ls = (out, bytes, hit)" by (cases "headLoop ?L ?B 0 0 ?ls")
    from headLoop_spec [of ?L ?B "[]" ?ls out bytes hit] h obtain k where k: "k \<le> length ?ls" "out = take k ?ls"
      "joinBytes out \<le> ?B" "k \<le> ?L"
      "k = length ?ls \<or> k = ?L \<or> ?B < joinBytes (take (Suc k) ?ls)"
      by (auto split: if_splits)
    have "tres_outputLines (truncateHead content ml mb) = k"
      "tres_outputBytes (truncateHead content ml mb) = joinBytes (take k ?ls)"
      "tres_content (truncateHead content ml mb) = join [LF] (take k ?ls)"
      "tres_truncated (truncateHead content ml mb)"
      using cut h k(1,2)
      by (auto simp: truncateHead_def Let_def lineLimit_def [symmetric] byteLimit_def [symmetric])
    with k show ?thesis by (simp add: Let_def)
  qed
qed

lemma tailLoop_spec:
  assumes "tailLoop maxLines maxBytes out bytes (rev pre) = (out', bytes', hit, partial)"
    and "bytes = joinBytes out" and "bytes \<le> maxBytes" and "length out \<le> maxLines" and "list_all validText pre"
  shows "bytes' = joinBytes out' \<and> bytes' \<le> maxBytes \<and> length out' \<le> maxLines \<and>
     (if partial
      then out = [] \<and> pre \<noteq> [] \<and>
           (\<exists>j \<le> length (last pre). out' = [drop j (last pre)] \<and> 0 < j \<and> maxBytes < byteLength (drop (j - 1) (last pre)))
      else \<exists>k \<le> length pre. out' = drop (length pre - k) pre @ out \<and>
           (k = length pre \<or> length out' = maxLines \<or> maxBytes < joinBytes (drop (length pre - Suc k) pre @ out)))"
  using assms
proof (induction pre arbitrary: out bytes rule: rev_induct)
  case Nil
  then show ?case by auto
next
  case (snoc line pre)
  let ?lb = "byteLength line + (if out \<noteq> [] then 1 else 0)"
  have jb: "joinBytes (line # out) = bytes + ?lb" using snoc.prems(2) by (simp add: joinBytes_Cons)
  have v: "validText line" "list_all validText pre" using snoc.prems(5) by simp_all
  consider (full) "length out = maxLines" | (over) "length out < maxLines" "maxBytes < bytes + ?lb"
    | (fits) "length out < maxLines" "bytes + ?lb \<le> maxBytes"
    using snoc.prems(4) by linarith
  then show ?case
  proof cases
    case full
    with snoc.prems show ?thesis by (auto intro!: exI [of _ 0])
  next
    case over
    show ?thesis
    proof (cases "out = []")
      case True
      obtain j where j: "j \<le> length line" "truncateStringToBytesFromEnd line maxBytes = drop j line"
        "byteLength (drop j line) \<le> maxBytes" "j = 0 \<or> maxBytes < byteLength (drop (j - 1) line)"
        using truncateStringToBytesFromEnd_suffix [OF v(1)] by blast
      have "0 < j" using j(3) over(2) True snoc.prems(2) by (cases j) auto
      with j over True snoc.prems(1) show ?thesis by (auto simp: Let_def)
    next
      case False
      with over snoc.prems jb show ?thesis by (auto simp: Let_def intro!: exI [of _ 0])
    qed
  next
    case fits
    have "tailLoop maxLines maxBytes (line # out) (bytes + ?lb) (rev pre) = (out', bytes', hit, partial)"
      using snoc.prems(1) fits by (auto simp: Let_def)
    from snoc.IH [OF this jb [symmetric]] fits v(2) have IH: "bytes' = joinBytes out'" "bytes' \<le> maxBytes" "length out' \<le> maxLines"
      "\<not> partial" "\<exists>k \<le> length pre. out' = drop (length pre - k) pre @ line # out \<and>
           (k = length pre \<or> length out' = maxLines \<or> maxBytes < joinBytes (drop (length pre - Suc k) pre @ line # out))"
      by (auto split: if_splits)
    from IH(5) obtain k where "k \<le> length pre" "out' = drop (length pre - k) pre @ line # out"
      "k = length pre \<or> length out' = maxLines \<or> maxBytes < joinBytes (drop (length pre - Suc k) pre @ line # out)" by blast
    then show ?thesis using IH(1-4) by (auto intro!: exI [of _ "Suc k"])
  qed
qed

lemma validText_lines: "validText content \<Longrightarrow> list_all validText (splitLinesForCounting content)"
proof -
  assume v: "validText content"
  have "w \<in> set (splitOn x ys) \<Longrightarrow> set w \<subseteq> set ys" for x :: nat and ys w
  proof (induction ys arbitrary: w)
    case (Cons y ys)
    then show ?case by (cases "splitOn x ys") (fastforce split: if_splits)+
  qed simp
  moreover have "set (splitLinesForCounting content) \<subseteq> set (splitOn LF content)"
    by (auto simp: splitLinesForCounting_def Let_def dest: in_set_butlastD)
  ultimately show ?thesis using v by (auto simp: validText_def list_all_iff) blast+
qed

text \<open>
  For every text the output respects both limits and its reported sizes are its sizes.
  Either nothing was cut, or the output is the last \<open>k\<close> lines, whole, with one more line exceeding a limit; or
  the last line alone is too long, and the output is the longest tail of whole characters that fits, never a
  broken UTF-8 sequence.
\<close>

theorem truncateTail_bounds:
  assumes "validText content"
  shows "let r = truncateTail content ml mb; lines = splitLinesForCounting content; k = tres_outputLines r in
    k \<le> lineLimit ml \<and> tres_outputBytes r \<le> byteLimit mb \<and> tres_outputBytes r = byteLength (tres_content r) \<and>
    (if \<not> tres_truncated r then tres_content r = content
     else if tres_lastLinePartial r
     then \<exists>j. 0 < j \<and> j \<le> length (last lines) \<and> tres_content r = drop j (last lines) \<and>
              byteLimit mb < byteLength (drop (j - 1) (last lines))
     else tres_content r = join [LF] (drop (length lines - k) lines) \<and>
          (k = length lines \<or> k = lineLimit ml \<or> byteLimit mb < byteLength (join [LF] (drop (length lines - Suc k) lines))))"
proof -
  let ?ls = "splitLinesForCounting content" and ?L = "lineLimit ml" and ?B = "byteLimit mb"
  show ?thesis
  proof (cases "length ?ls \<le> ?L \<and> byteLength content \<le> ?B")
    case True
    then show ?thesis
      by (simp add: truncateTail_def untruncated_def Let_def lineLimit_def [symmetric] byteLimit_def [symmetric])
  next
    case False
    obtain out bytes hit partial where t: "tailLoop ?L ?B [] 0 (rev ?ls) = (out, bytes, hit, partial)"
      by (cases "tailLoop ?L ?B [] 0 (rev ?ls)")
    have r: "tres_outputLines (truncateTail content ml mb) = length out"
      "tres_outputBytes (truncateTail content ml mb) = joinBytes out"
      "tres_content (truncateTail content ml mb) = join [LF] out"
      "tres_truncated (truncateTail content ml mb)" "tres_lastLinePartial (truncateTail content ml mb) = partial"
      using False t by (auto simp: truncateTail_def Let_def lineLimit_def [symmetric] byteLimit_def [symmetric])
    from tailLoop_spec [OF t _ _ _ validText_lines [OF assms]] show ?thesis
      unfolding r Let_def by (auto simp: r split: if_splits)
  qed
qed

theorem truncateTail_bounds_witness:
  "let r = truncateTail [233, 233, 233] None (Some 3) in
   tres_outputBytes r \<le> 3 \<and> tres_outputBytes r = byteLength (tres_content r)"
  using truncateTail_bounds [of "[233, 233, 233]" None "Some 3"]
  by (simp add: validText_def Let_def byteLimit_def)

text \<open>
  A text that exceeds the byte limit only by its trailing newline is reported as cut by the line limit, although
  the line limit was not reached and every line is kept.
\<close>

lemma truncateHead_trailing_newline:
  "let r = truncateHead [97, 97, 97, LF] None (Some 3) in
   tres_truncatedBy r = Some ByLines \<and> tres_outputLines r = tres_totalLines r \<and> tres_outputLines r < lineLimit None"
  by (simp add: truncateHead_def splitLinesForCounting_def byteLength_def utf8_def utf8Char_def limitHit_def
      DEFAULT_MAX_LINES_def lineLimit_def Let_def)

end
