(* ===== verification/Edit_Diff.thy ===== *)
theory Edit_Diff
  imports Truncate "HOL-Library.Multiset" "HOL-Library.Sublist"
begin

text \<open>
  Text replacement of the edit tool: \<open>packages/coding-agent/src/core/tools/edit-diff.ts\<close> and the content part of
  \<open>edit.ts\<close>. A text is the list of its UTF-16 code units, so offsets and lengths are those of the code. Unicode
  normalisation (\<open>String.prototype.normalize("NFKC")\<close>) is a parameter; nothing is assumed of it.
\<close>

abbreviation CR :: nat where
  "CR \<equiv> 13"

section \<open>Strings\<close>

definition startsAt :: "utext \<Rightarrow> utext \<Rightarrow> nat \<Rightarrow> bool" where
  "startsAt content pat i \<longleftrightarrow> take (length pat) (drop i content) = pat"

text \<open>\<open>content.indexOf(pat)\<close>\<close>

definition jsIndexOf :: "utext \<Rightarrow> utext \<Rightarrow> nat option" where
  "jsIndexOf content pat =
     List.find (\<lambda>i. startsAt content pat i) [0..<Suc (length content)]"

text \<open>\<open>content.split(sep).length\<close> for a non-empty separator; \<open>skip\<close> counts the units of a match still to pass.\<close>

fun pieces :: "utext \<Rightarrow> nat \<Rightarrow> utext \<Rightarrow> nat" where
  "pieces sep skip [] = 1"
| "pieces sep 0 (c # cs) =
     (if take (length sep) (c # cs) = sep then Suc (pieces sep (length sep - 1) cs) else pieces sep 0 cs)"
| "pieces sep (Suc n) (c # cs) = pieces sep n cs"

section \<open>Line endings\<close>

datatype line_ending = LfEnding | CrlfEnding

definition detectLineEnding :: "utext \<Rightarrow> line_ending" where
  "detectLineEnding content =
     (case (jsIndexOf content [LF], jsIndexOf content [CR, LF]) of
        (Some lf, Some crlf) \<Rightarrow> if crlf < lf then CrlfEnding else LfEnding
      | _ \<Rightarrow> LfEnding)"

fun crlfToLf :: "utext \<Rightarrow> utext" where
  "crlfToLf [] = []"
| "crlfToLf [c] = [c]"
| "crlfToLf (c # d # t) = (if c = CR \<and> d = LF then LF # crlfToLf t else c # crlfToLf (d # t))"

definition normalizeToLF :: "utext \<Rightarrow> utext" where
  "normalizeToLF t = map (\<lambda>c. if c = CR then LF else c) (crlfToLf t)"

definition restoreLineEndings :: "utext \<Rightarrow> line_ending \<Rightarrow> utext" where
  "restoreLineEndings t ending =
     (case ending of
        CrlfEnding \<Rightarrow> concat (map (\<lambda>c. if c = LF then [CR, LF] else [c]) t)
      | LfEnding \<Rightarrow> t)"

section \<open>Normalisation for fuzzy matching\<close>

definition isTrimSpace :: "nat \<Rightarrow> bool" where
  "isTrimSpace c \<longleftrightarrow>
     c \<in> {9, 10, 11, 12, 13, 32, 0xA0, 0x1680, 0x2028, 0x2029, 0x202F, 0x205F, 0x3000, 0xFEFF} \<or>
     (0x2000 \<le> c \<and> c \<le> 0x200A)"

definition trimEnd :: "utext \<Rightarrow> utext" where
  "trimEnd t = rev (dropWhile isTrimSpace (rev t))"

definition fuzzyChar :: "nat \<Rightarrow> nat" where
  "fuzzyChar c =
     (if c \<in> {0x2018, 0x2019, 0x201A, 0x201B} then 0x27
      else if c \<in> {0x201C, 0x201D, 0x201E, 0x201F} then 0x22
      else if c \<in> {0x2010, 0x2011, 0x2012, 0x2013, 0x2014, 0x2015, 0x2212} then 0x2D
      else if c \<in> {0xA0, 0x202F, 0x205F, 0x3000} \<or> (0x2002 \<le> c \<and> c \<le> 0x200A) then 0x20
      else c)"

definition normalizeForFuzzyMatch :: "(utext \<Rightarrow> utext) \<Rightarrow> utext \<Rightarrow> utext" where
  "normalizeForFuzzyMatch nfkc t = map fuzzyChar (join [LF] (map trimEnd (splitOn LF (nfkc t))))"

section \<open>Lines and replacements\<close>

text \<open>The matches of \<open>/[^\\n]*\\n|[^\\n]+/g\<close>: lines with their newline; \<open>cur\<close> is the line read so far, reversed.\<close>

fun linesFrom :: "utext \<Rightarrow> utext \<Rightarrow> utext list" where
  "linesFrom cur [] = (if cur = [] then [] else [rev cur])"
| "linesFrom cur (c # cs) = (if c = LF then rev (LF # cur) # linesFrom [] cs else linesFrom (c # cur) cs)"

definition splitLinesWithEndings :: "utext \<Rightarrow> utext list" where
  "splitLinesWithEndings content = linesFrom [] content"

fun spansFrom :: "nat \<Rightarrow> utext list \<Rightarrow> (nat \<times> nat) list" where
  "spansFrom offset [] = []"
| "spansFrom offset (l # ls) = (offset, offset + length l) # spansFrom (offset + length l) ls"

definition getLineSpans :: "utext \<Rightarrow> (nat \<times> nat) list" where
  "getLineSpans content = spansFrom 0 (splitLinesWithEndings content)"

record matched_edit =
  me_editIndex :: nat
  me_matchIndex :: nat
  me_matchLength :: nat
  me_newText :: utext

definition outsideError :: js_error where
  "outsideError = JsError ''Replacement range is outside the base content.''"

text \<open>The line that holds the start of a replacement, and the first line from there on that ends at or after its end.\<close>

definition getReplacementLineRange :: "(nat \<times> nat) list \<Rightarrow> matched_edit \<Rightarrow> (nat \<times> nat) js_result" where
  "getReplacementLineRange lines r =
     (let replacementStart = me_matchIndex r; replacementEnd = me_matchIndex r + me_matchLength r
      in case findIndex (\<lambda>(s, e). s \<le> replacementStart \<and> replacementStart < e) lines of
           None \<Rightarrow> Inl outsideError
         | Some startLine \<Rightarrow>
             (case findIndex (\<lambda>(s, e). replacementEnd \<le> e) (drop startLine lines) of
                None \<Rightarrow> Inl outsideError
              | Some n \<Rightarrow> Inr (startLine, Suc (startLine + n))))"

definition applyOne :: "nat \<Rightarrow> matched_edit \<Rightarrow> utext \<Rightarrow> utext" where
  "applyOne offset r result =
     (let matchIndex = me_matchIndex r - offset
      in take matchIndex result @ me_newText r @ drop (matchIndex + me_matchLength r) result)"

definition applyReplacements :: "utext \<Rightarrow> matched_edit list \<Rightarrow> nat \<Rightarrow> utext" where
  "applyReplacements content replacements offset = foldr (applyOne offset) replacements content"

record line_group =
  lg_startLine :: nat
  lg_endLine :: nat
  lg_replacements :: "matched_edit list"

text \<open>The body of the grouping loop; the groups are built in order.\<close>

definition addToGroups :: "(nat \<times> nat) list \<Rightarrow> matched_edit \<Rightarrow> line_group list \<Rightarrow> line_group list js_result" where
  "addToGroups baseLines r groups =
     js_bind (getReplacementLineRange baseLines r) (\<lambda>(startLine, endLine).
       if groups \<noteq> [] \<and> startLine < lg_endLine (last groups)
       then Inr (butlast groups @ [(last groups)\<lparr>lg_endLine := max (lg_endLine (last groups)) endLine,
                                                 lg_replacements := lg_replacements (last groups) @ [r]\<rparr>])
       else Inr (groups @ [\<lparr>lg_startLine = startLine, lg_endLine = endLine, lg_replacements = [r]\<rparr>]))"

fun groupReplacements :: "(nat \<times> nat) list \<Rightarrow> line_group list \<Rightarrow> matched_edit list \<Rightarrow> line_group list js_result" where
  "groupReplacements baseLines groups [] = Inr groups"
| "groupReplacements baseLines groups (r # rs) =
     js_bind (addToGroups baseLines r groups) (\<lambda>groups'. groupReplacements baseLines groups' rs)"

definition rewriteGroup :: "utext \<Rightarrow> (nat \<times> nat) list \<Rightarrow> line_group \<Rightarrow> utext" where
  "rewriteGroup baseContent baseLines g =
     (let groupStartOffset = fst (baseLines ! lg_startLine g); groupEndOffset = snd (baseLines ! (lg_endLine g - 1))
      in applyReplacements (take (groupEndOffset - groupStartOffset) (drop groupStartOffset baseContent))
           (lg_replacements g) groupStartOffset)"

fun overlayGroups :: "utext list \<Rightarrow> (line_group \<Rightarrow> utext) \<Rightarrow> nat \<Rightarrow> line_group list \<Rightarrow> utext" where
  "overlayGroups originalLines rewrite originalLineIndex [] = concat (drop originalLineIndex originalLines)"
| "overlayGroups originalLines rewrite originalLineIndex (g # gs) =
     concat (take (lg_startLine g - originalLineIndex) (drop originalLineIndex originalLines))
     @ rewrite g @ overlayGroups originalLines rewrite (lg_endLine g) gs"

definition applyReplacementsPreservingUnchangedLines ::
  "utext \<Rightarrow> utext \<Rightarrow> matched_edit list \<Rightarrow> utext js_result" where
  "applyReplacementsPreservingUnchangedLines originalContent baseContent replacements =
     (let originalLines = splitLinesWithEndings originalContent; baseLines = getLineSpans baseContent
      in if length originalLines \<noteq> length baseLines
         then Inl (JsError ''Cannot preserve unchanged lines because the base content has a different line count.'')
         else js_bind (groupReplacements baseLines [] (sort_key me_matchIndex replacements)) (\<lambda>groups.
                Inr (overlayGroups originalLines (rewriteGroup baseContent baseLines) 0 groups)))"

section \<open>Matching\<close>

record fuzzy_match =
  fm_index :: nat
  fm_matchLength :: nat
  fm_usedFuzzyMatch :: bool

text \<open>\<open>None\<close> is \<open>found: false\<close>.\<close>

definition fuzzyFindText :: "(utext \<Rightarrow> utext) \<Rightarrow> utext \<Rightarrow> utext \<Rightarrow> fuzzy_match option" where
  "fuzzyFindText nfkc content oldText =
     (case jsIndexOf content oldText of
        Some i \<Rightarrow> Some \<lparr>fm_index = i, fm_matchLength = length oldText, fm_usedFuzzyMatch = False\<rparr>
      | None \<Rightarrow>
          (let fuzzyOldText = normalizeForFuzzyMatch nfkc oldText
           in map_option (\<lambda>i. \<lparr>fm_index = i, fm_matchLength = length fuzzyOldText, fm_usedFuzzyMatch = True\<rparr>)
                (jsIndexOf (normalizeForFuzzyMatch nfkc content) fuzzyOldText)))"

text \<open>Splitting by the empty string gives one piece per code unit.\<close>

definition countOccurrences :: "(utext \<Rightarrow> utext) \<Rightarrow> utext \<Rightarrow> utext \<Rightarrow> int" where
  "countOccurrences nfkc content oldText =
     (let fuzzyContent = normalizeForFuzzyMatch nfkc content; fuzzyOldText = normalizeForFuzzyMatch nfkc oldText
      in (if fuzzyOldText = [] then int (length fuzzyContent) else int (pieces fuzzyOldText 0 fuzzyContent)) - 1)"

record edit =
  ed_oldText :: utext
  ed_newText :: utext

definition editName :: "nat \<Rightarrow> string" where
  "editName i = ''edits['' @ showNat i @ '']''"

definition getNotFoundError :: "string \<Rightarrow> nat \<Rightarrow> nat \<Rightarrow> js_error" where
  "getNotFoundError path editIndex totalEdits =
     JsError (if totalEdits = 1
       then ''Could not find the exact text in '' @ path @ ''. The old text must match exactly including all whitespace and newlines.''
       else ''Could not find '' @ editName editIndex @ '' in '' @ path
            @ ''. The oldText must match exactly including all whitespace and newlines.'')"

definition getDuplicateError :: "string \<Rightarrow> nat \<Rightarrow> nat \<Rightarrow> int \<Rightarrow> js_error" where
  "getDuplicateError path editIndex totalEdits occurrences =
     JsError (if totalEdits = 1
       then ''Found '' @ showInt occurrences @ '' occurrences of the text in '' @ path
            @ ''. The text must be unique. Please provide more context to make it unique.''
       else ''Found '' @ showInt occurrences @ '' occurrences of '' @ editName editIndex @ '' in '' @ path
            @ ''. Each oldText must be unique. Please provide more context to make it unique.'')"

definition getEmptyOldTextError :: "string \<Rightarrow> nat \<Rightarrow> nat \<Rightarrow> js_error" where
  "getEmptyOldTextError path editIndex totalEdits =
     JsError (if totalEdits = 1 then ''oldText must not be empty in '' @ path @ ''.''
              else editName editIndex @ ''.oldText must not be empty in '' @ path @ ''.'')"

definition getNoChangeError :: "string \<Rightarrow> nat \<Rightarrow> js_error" where
  "getNoChangeError path totalEdits =
     JsError (if totalEdits = 1
       then ''No changes made to '' @ path @ ''. The replacement produced identical content. This might indicate an issue with special characters or the text not existing as expected.''
       else ''No changes made to '' @ path @ ''. The replacements produced identical content.'')"

definition overlapError :: "string \<Rightarrow> matched_edit \<Rightarrow> matched_edit \<Rightarrow> js_error" where
  "overlapError path previous current =
     JsError (editName (me_editIndex previous) @ '' and '' @ editName (me_editIndex current) @ '' overlap in '' @ path
       @ ''. Merge them into one edit or target disjoint regions.'')"

definition normalizeEdit :: "edit \<Rightarrow> edit" where
  "normalizeEdit e = \<lparr>ed_oldText = normalizeToLF (ed_oldText e), ed_newText = normalizeToLF (ed_newText e)\<rparr>"

fun matchEdits ::
  "(utext \<Rightarrow> utext) \<Rightarrow> utext \<Rightarrow> string \<Rightarrow> nat \<Rightarrow> nat \<Rightarrow> edit list \<Rightarrow> matched_edit list js_result" where
  "matchEdits nfkc base path totalEdits i [] = Inr []"
| "matchEdits nfkc base path totalEdits i (e # es) =
     (case fuzzyFindText nfkc base (ed_oldText e) of
        None \<Rightarrow> Inl (getNotFoundError path i totalEdits)
      | Some m \<Rightarrow>
          (let occurrences = countOccurrences nfkc base (ed_oldText e)
           in if 1 < occurrences then Inl (getDuplicateError path i totalEdits occurrences)
              else js_bind (matchEdits nfkc base path totalEdits (Suc i) es) (\<lambda>ms.
                     Inr (\<lparr>me_editIndex = i, me_matchIndex = fm_index m, me_matchLength = fm_matchLength m,
                           me_newText = ed_newText e\<rparr> # ms))))"

fun findOverlap :: "matched_edit list \<Rightarrow> (matched_edit \<times> matched_edit) option" where
  "findOverlap (p # c # ms) =
     (if me_matchIndex c < me_matchIndex p + me_matchLength p then Some (p, c) else findOverlap (c # ms))"
| "findOverlap _ = None"

definition applyEditsToNormalizedContent ::
  "(utext \<Rightarrow> utext) \<Rightarrow> utext \<Rightarrow> edit list \<Rightarrow> string \<Rightarrow> (utext \<times> utext) js_result" where
  "applyEditsToNormalizedContent nfkc normalizedContent edits path =
     (let normalizedEdits = map normalizeEdit edits; totalEdits = length normalizedEdits
      in case findIndex (\<lambda>e. ed_oldText e = []) normalizedEdits of
           Some i \<Rightarrow> Inl (getEmptyOldTextError path i totalEdits)
         | None \<Rightarrow>
             (let initialMatches = map (\<lambda>e. fuzzyFindText nfkc normalizedContent (ed_oldText e)) normalizedEdits;
                  usedFuzzyMatch = list_ex (\<lambda>m. case m of Some r \<Rightarrow> fm_usedFuzzyMatch r | None \<Rightarrow> False) initialMatches;
                  base = (if usedFuzzyMatch then normalizeForFuzzyMatch nfkc normalizedContent else normalizedContent)
              in js_bind (matchEdits nfkc base path totalEdits 0 normalizedEdits) (\<lambda>matched.
                   let ordered = sort_key me_matchIndex matched
                   in case findOverlap ordered of
                        Some (p, c) \<Rightarrow> Inl (overlapError path p c)
                      | None \<Rightarrow>
                          js_bind (if usedFuzzyMatch
                                   then applyReplacementsPreservingUnchangedLines normalizedContent base ordered
                                   else Inr (applyReplacements base ordered 0)) (\<lambda>newContent.
                            if normalizedContent = newContent then Inl (getNoChangeError path totalEdits)
                            else Inr (normalizedContent, newContent)))))"

section \<open>The file\<close>

definition splitBom :: "utext \<Rightarrow> utext \<times> utext" where
  "splitBom content = (case content of c # t \<Rightarrow> if c = 0xFEFF then ([c], t) else ([], content) | [] \<Rightarrow> ([], []))"

text \<open>From the decoded file to the text written back.\<close>

definition editContent :: "(utext \<Rightarrow> utext) \<Rightarrow> utext \<Rightarrow> edit list \<Rightarrow> string \<Rightarrow> utext js_result" where
  "editContent nfkc rawContent edits path =
     (let (bom, content) = splitBom rawContent;
          originalEnding = detectLineEnding content
      in js_bind (applyEditsToNormalizedContent nfkc (normalizeToLF content) edits path) (\<lambda>(_, newContent).
           Inr (bom @ restoreLineEndings newContent originalEnding)))"

section \<open>Replacing is interleaving\<close>

text \<open>The reference: texts alternate with the gaps between them.\<close>

fun weave :: "'a list list \<Rightarrow> 'a list list \<Rightarrow> 'a list" where
  "weave [] ts = []"
| "weave (g # gs) [] = g"
| "weave (g # gs) (t # ts) = g @ t @ weave gs ts"

fun disjointFrom :: "nat \<Rightarrow> nat \<Rightarrow> matched_edit list \<Rightarrow> bool" where
  "disjointFrom p n [] \<longleftrightarrow> p \<le> n"
| "disjointFrom p n (r # rs) \<longleftrightarrow> p \<le> me_matchIndex r \<and> disjointFrom (me_matchIndex r + me_matchLength r) n rs"

fun gapsFrom :: "utext \<Rightarrow> nat \<Rightarrow> matched_edit list \<Rightarrow> utext list" where
  "gapsFrom c p [] = [drop p c]"
| "gapsFrom c p (r # rs) = take (me_matchIndex r - p) (drop p c) # gapsFrom c (me_matchIndex r + me_matchLength r) rs"

lemma disjointFrom_le: "disjointFrom p n rs \<Longrightarrow> p \<le> n"
  by (induction rs arbitrary: p) fastforce+

lemma applyReplacements_weave:
  "disjointFrom p (length c) rs \<Longrightarrow>
   foldr (applyOne 0) rs c = take p c @ weave (gapsFrom c p rs) (map me_newText rs)"
proof (induction rs arbitrary: p)
  case (Cons r rs)
  let ?i = "me_matchIndex r" and ?e = "me_matchIndex r + me_matchLength r"
  have d: "p \<le> ?i" "disjointFrom ?e (length c) rs" using Cons.prems by simp_all
  have e: "?e \<le> length c" by (rule disjointFrom_le [OF d(2)])
  have IH: "foldr (applyOne 0) rs c = take ?e c @ weave (gapsFrom c ?e rs) (map me_newText rs)" by (rule Cons.IH [OF d(2)])
  have "take ?i c = take p c @ take (?i - p) (drop p c)" by (metis d(1) le_add_diff_inverse take_add)
  moreover have "applyOne 0 r (take ?e c @ X) = take ?i c @ me_newText r @ X" for X
    using e by (simp add: applyOne_def min_def)
  ultimately show ?case by (simp only: foldr.simps comp_apply IH) simp
qed simp

lemma content_weave:
  assumes "disjointFrom p (length c) rs"
  shows "drop p c = weave (gapsFrom c p rs) (map (\<lambda>r. take (me_matchLength r) (drop (me_matchIndex r) c)) rs)"
  using assms
proof (induction rs arbitrary: p)
  case (Cons r rs)
  let ?i = "me_matchIndex r" and ?e = "me_matchIndex r + me_matchLength r"
  have d: "p \<le> ?i" "disjointFrom ?e (length c) rs" using Cons.prems by simp_all
  have "drop p c = take (?i - p) (drop p c) @ drop ?i c" using d(1) by (metis append_take_drop_id drop_drop le_add_diff_inverse2)
  also have "drop ?i c = take (me_matchLength r) (drop ?i c) @ drop ?e c" by (metis append_take_drop_id drop_drop add.commute)
  finally show ?case using Cons.IH [OF d(2)] by simp
qed simp

lemma length_gapsFrom [simp]: "length (gapsFrom c p rs) = Suc (length rs)"
  by (induction rs arbitrary: p) auto

section \<open>Matched edits\<close>

lemma jsIndexOf_Some:
  assumes "jsIndexOf content pat = Some i"
  shows "startsAt content pat i" "i + length pat \<le> length content"
proof -
  have m: "startsAt content pat i" "i \<le> length content"
    using assms unfolding jsIndexOf_def by (auto simp: find_Some_iff less_Suc_eq_le nth_append split: if_splits)
  then have "length pat = length (take (length pat) (drop i content))" by (simp add: startsAt_def)
  with m show "startsAt content pat i" "i + length pat \<le> length content" by auto
qed

definition matchFor :: "(utext \<Rightarrow> utext) \<Rightarrow> utext \<Rightarrow> edit list \<Rightarrow> matched_edit \<Rightarrow> bool" where
  "matchFor nfkc base es m \<longleftrightarrow>
     me_editIndex m < length es \<and> me_newText m = ed_newText (es ! me_editIndex m) \<and>
     countOccurrences nfkc base (ed_oldText (es ! me_editIndex m)) \<le> 1 \<and>
     (\<exists>f. fuzzyFindText nfkc base (ed_oldText (es ! me_editIndex m)) = Some f \<and>
          me_matchIndex m = fm_index f \<and> me_matchLength m = fm_matchLength f)"

lemma matchEdits_spec:
  "matchEdits nfkc base path n (length pre) es = Inr ms \<Longrightarrow>
   list_all (matchFor nfkc base (pre @ es)) ms \<and> map me_editIndex ms = [length pre..<length pre + length es]"
proof (induction es arbitrary: pre ms)
  case (Cons e es)
  then obtain f ms' where f: "fuzzyFindText nfkc base (ed_oldText e) = Some f"
    "countOccurrences nfkc base (ed_oldText e) \<le> 1"
    "matchEdits nfkc base path n (length (pre @ [e])) es = Inr ms'"
    "ms = \<lparr>me_editIndex = length pre, me_matchIndex = fm_index f, me_matchLength = fm_matchLength f,
           me_newText = ed_newText e\<rparr> # ms'"
    by (auto simp: Let_def split: option.splits if_splits)
  from Cons.IH [OF f(3)] f show ?case by (simp add: matchFor_def upt_rec)
qed simp

lemma matchEdits_edits:
  assumes "matchEdits nfkc base path n 0 es = Inr ms"
  shows "list_all (matchFor nfkc base es) ms" "map (\<lambda>m. es ! me_editIndex m) ms = es"
proof -
  from matchEdits_spec [of nfkc base path n "[]" es ms] assms
  have *: "list_all (matchFor nfkc base es) ms" "map me_editIndex ms = [0..<length es]" by simp_all
  from *(1) show "list_all (matchFor nfkc base es) ms" .
  have "map (\<lambda>m. es ! me_editIndex m) ms = map ((!) es) (map me_editIndex ms)" by simp
  also have "\<dots> = es" unfolding *(2) by (simp add: map_nth)
  finally show "map (\<lambda>m. es ! me_editIndex m) ms = es" .
qed

lemma findOverlap_None:
  "findOverlap ms = None \<Longrightarrow> list_all (\<lambda>m. me_matchIndex m + me_matchLength m \<le> n) ms \<Longrightarrow>
   ms = [] \<or> p \<le> me_matchIndex (hd ms) \<Longrightarrow> p \<le> n \<Longrightarrow> disjointFrom p n ms"
proof (induction ms arbitrary: p rule: findOverlap.induct)
  case (1 a b ms)
  then show ?case by (auto split: if_splits)
qed auto

definition exactEdits :: "utext \<Rightarrow> edit list \<Rightarrow> bool" where
  "exactEdits content edits \<longleftrightarrow> list_all (\<lambda>e. jsIndexOf content (ed_oldText (normalizeEdit e)) \<noteq> None) edits"

lemma exact_find:
  "jsIndexOf content t = Some i \<Longrightarrow>
   fuzzyFindText nfkc content t = Some \<lparr>fm_index = i, fm_matchLength = length t, fm_usedFuzzyMatch = False\<rparr>"
  by (simp add: fuzzyFindText_def)

lemma exactEdits_noFuzzy:
  "exactEdits content edits \<Longrightarrow>
   \<not> list_ex (\<lambda>m. case m of Some r \<Rightarrow> fm_usedFuzzyMatch r | None \<Rightarrow> False)
       (map (\<lambda>e. fuzzyFindText nfkc content (ed_oldText e)) (map normalizeEdit edits))"
  by (auto simp: exactEdits_def list_ex_iff list_all_iff fuzzyFindText_def split: option.splits)

text \<open>
  C23 (edits): when every old text occurs literally, a successful edit cuts the content into gaps and the old
  texts of the edits, in the order they occur, and returns the same gaps with the new texts in between: each edit
  is applied exactly once, at its own place, whatever the order of the edits, and nothing else changes. No old
  text occurs twice, and the result differs from the content.
\<close>

theorem applyEdits_replaces_each_once:
  assumes run: "applyEditsToNormalizedContent nfkc content edits path = Inr (base, new)"
    and exact: "exactEdits content edits"
  shows "base = content \<and> new \<noteq> content \<and>
         (\<exists>es gaps. mset es = mset (map normalizeEdit edits) \<and> length gaps = Suc (length es) \<and>
            content = weave gaps (map ed_oldText es) \<and> new = weave gaps (map ed_newText es) \<and>
            list_all (\<lambda>e. ed_oldText e \<noteq> [] \<and> countOccurrences nfkc content (ed_oldText e) \<le> 1) es)"
proof -
  let ?es = "map normalizeEdit edits"
  obtain ms where ms: "matchEdits nfkc content path (length ?es) 0 ?es = Inr ms"
    and none: "findOverlap (sort_key me_matchIndex ms) = None" and ne: "\<forall>e \<in> set ?es. ed_oldText e \<noteq> []"
    and res: "base = content" "new = applyReplacements content (sort_key me_matchIndex ms) 0" "new \<noteq> content"
    using run unfolding applyEditsToNormalizedContent_def Let_def if_not_P [OF exactEdits_noFuzzy [OF exact, of nfkc]]
    by (auto simp: findIndex_None_iff split: option.splits if_splits) (metis not_None_eq surj_pair)
  let ?rs = "sort_key me_matchIndex ms"
  define ed where "ed = (\<lambda>m::matched_edit. ?es ! me_editIndex m)"
  note spec = matchEdits_edits [OF ms]
  have m: "me_newText r = ed_newText (ed r) \<and> ed r \<in> set ?es \<and> countOccurrences nfkc content (ed_oldText (ed r)) \<le> 1 \<and>
      take (me_matchLength r) (drop (me_matchIndex r) content) = ed_oldText (ed r) \<and>
      me_matchIndex r + me_matchLength r \<le> length content" if "r \<in> set ms" for r
  proof -
    have f: "matchFor nfkc content ?es r" using spec(1) that by (simp add: list_all_iff)
    then have "ed r \<in> set ?es" by (simp add: matchFor_def ed_def)
    moreover from this obtain i where i: "jsIndexOf content (ed_oldText (ed r)) = Some i"
      using exact by (auto simp: exactEdits_def list_all_iff)
    ultimately show ?thesis
      using f exact_find [OF i, of nfkc] jsIndexOf_Some [OF i] by (auto simp: matchFor_def ed_def startsAt_def)
  qed
  have d: "disjointFrom 0 (length content) ?rs"
    by (rule findOverlap_None [OF none]) (use m in \<open>auto simp: list_all_iff\<close>)
  have o: "map (\<lambda>r. take (me_matchLength r) (drop (me_matchIndex r) content)) ?rs = map ed_oldText (map ed ?rs)"
    and n: "map me_newText ?rs = map ed_newText (map ed ?rs)" using m by simp_all
  have "content = weave (gapsFrom content 0 ?rs) (map ed_oldText (map ed ?rs))"
    using content_weave [OF d] unfolding o by (simp only: drop_0)
  moreover have "new = weave (gapsFrom content 0 ?rs) (map ed_newText (map ed ?rs))"
    using applyReplacements_weave [OF d] unfolding res(2) applyReplacements_def n by simp
  moreover have "mset (map ed ?rs) = mset ?es" using spec(2) by (simp add: ed_def) (metis mset_map)
  moreover have "list_all (\<lambda>e. ed_oldText e \<noteq> [] \<and> countOccurrences nfkc content (ed_oldText e) \<le> 1) (map ed ?rs)"
    using m ne unfolding list_all_iff set_map set_sort by blast
  ultimately show ?thesis
    using res by (intro conjI exI [of _ "map ed ?rs"] exI [of _ "gapsFrom content 0 ?rs"]) simp_all
qed

definition sampleEdits :: "edit list" where
  "sampleEdits = [\<lparr>ed_oldText = [99], ed_newText = [120]\<rparr>, \<lparr>ed_oldText = [97], ed_newText = []\<rparr>]"

lemma sampleEdits_run: "applyEditsToNormalizedContent id [97, 98, 99] sampleEdits ''f'' = Inr ([97, 98, 99], [98, 120])"
  by (simp add: applyEditsToNormalizedContent_def sampleEdits_def normalizeEdit_def normalizeToLF_def fuzzyFindText_def
      jsIndexOf_def startsAt_def countOccurrences_def normalizeForFuzzyMatch_def trimEnd_def isTrimSpace_def fuzzyChar_def
      applyReplacements_def applyOne_def Let_def upt_conv_Cons)

lemma sampleEdits_exact: "exactEdits [97, 98, 99] sampleEdits"
  by (simp add: exactEdits_def sampleEdits_def normalizeEdit_def normalizeToLF_def jsIndexOf_def startsAt_def upt_conv_Cons)

theorem applyEdits_replaces_each_once_witness:
  "\<exists>es gaps. mset es = mset (map normalizeEdit sampleEdits) \<and>
     [97, 98, 99] = weave gaps (map ed_oldText es) \<and> [98, 120] = weave gaps (map ed_newText es)"
  using applyEdits_replaces_each_once [OF sampleEdits_run sampleEdits_exact] by blast

section \<open>Unchanged lines\<close>

lemma concat_linesFrom: "concat (linesFrom cur cs) = rev cur @ cs"
  by (induction cur cs rule: linesFrom.induct) auto

lemma concat_splitLines [simp]: "concat (splitLinesWithEndings c) = c"
  by (simp add: splitLinesWithEndings_def concat_linesFrom)

lemma length_spansFrom [simp]: "length (spansFrom p ls) = length ls"
  by (induction ls arbitrary: p) auto

lemma spansFrom_nth:
  "i < length ls \<Longrightarrow> spansFrom p ls ! i = (p + length (concat (take i ls)), p + length (concat (take (Suc i) ls)))"
  by (induction ls arbitrary: p i) (auto simp: nth_Cons split: nat.splits)

lemma length_concat_take_mono: "i \<le> j \<Longrightarrow> length (concat (take i ls)) \<le> length (concat (take j ls))"
  by (metis concat_append le_add1 le_add_diff_inverse length_append take_add)

lemmas span_simps = getLineSpans_def spansFrom_nth

lemma span_mono:
  assumes "i \<le> j" "j < length (getLineSpans c)"
  shows "fst (getLineSpans c ! i) \<le> fst (getLineSpans c ! j)" "snd (getLineSpans c ! i) \<le> snd (getLineSpans c ! j)"
  using assms length_concat_take_mono [of i j] length_concat_take_mono [of "Suc i" "Suc j"] by (simp_all add: span_simps)

lemma span_next: "i < j \<Longrightarrow> j < length (getLineSpans c) \<Longrightarrow> snd (getLineSpans c ! i) \<le> fst (getLineSpans c ! j)"
  using length_concat_take_mono [of "Suc i" j] by (simp add: span_simps)

lemma drop_concat: "drop (length (concat (take i ls))) (concat ls) = concat (drop i ls)"
  by (metis append_eq_conv_conj append_take_drop_id concat_append)

lemma take_concat: "take (length (concat (take i ls))) (concat ls) = concat (take i ls)"
  by (metis append_eq_conv_conj append_take_drop_id concat_append)

lemma spans_text:
  assumes "i < j" "j \<le> length (splitLinesWithEndings c)"
  shows "take (snd (getLineSpans c ! (j - 1)) - fst (getLineSpans c ! i)) (drop (fst (getLineSpans c ! i)) c)
         = concat (take (j - i) (drop i (splitLinesWithEndings c)))"
proof -
  let ?ls = "splitLinesWithEndings c"
  have a: "fst (getLineSpans c ! i) = length (concat (take i ?ls))" using assms by (simp add: span_simps)
  have "snd (getLineSpans c ! (j - 1)) = length (concat (take j ?ls))" using assms by (simp add: span_simps)
  moreover have "take j ?ls = take i ?ls @ take (j - i) (drop i ?ls)" using assms(1) by (metis less_imp_le le_add_diff_inverse take_add)
  ultimately have "snd (getLineSpans c ! (j - 1)) - fst (getLineSpans c ! i) = length (concat (take (j - i) (drop i ?ls)))"
    using a by simp
  moreover have "drop (fst (getLineSpans c ! i)) c = concat (drop i ?ls)" using a drop_concat [of i ?ls] by simp
  ultimately show ?thesis by (simp add: take_concat)
qed

text \<open>The lines of the range the code computes for a replacement.\<close>

definition rangeLines :: "(nat \<times> nat) list \<Rightarrow> matched_edit \<Rightarrow> nat set" where
  "rangeLines lines r = (case getReplacementLineRange lines r of Inr (s, e) \<Rightarrow> {s..<e} | Inl _ \<Rightarrow> {})"

lemma lineRange_spec:
  assumes "getReplacementLineRange lines r = Inr (s, e)"
  shows "s < e" "e \<le> length lines" "fst (lines ! s) \<le> me_matchIndex r" "me_matchIndex r < snd (lines ! s)"
    "me_matchIndex r + me_matchLength r \<le> snd (lines ! (e - 1))" "rangeLines lines r = {s..<e}"
proof -
  from assms obtain n where s: "findIndex (\<lambda>(a, b). a \<le> me_matchIndex r \<and> me_matchIndex r < b) lines = Some s"
    and n: "findIndex (\<lambda>(a, b). me_matchIndex r + me_matchLength r \<le> b) (drop s lines) = Some n" and e: "e = Suc (s + n)"
    by (auto simp: getReplacementLineRange_def Let_def split: option.splits)
  from findIndex_Some [OF s] findIndex_Some [OF n]
  show "s < e" "e \<le> length lines" "fst (lines ! s) \<le> me_matchIndex r" "me_matchIndex r < snd (lines ! s)"
    "me_matchIndex r + me_matchLength r \<le> snd (lines ! (e - 1))" by (auto simp: e split_beta)
  show "rangeLines lines r = {s..<e}" using assms by (simp add: rangeLines_def)
qed

text \<open>
  The lines a replacement touches, stated on the text: line \<open>j\<close> holds the units from \<open>lineStart c j\<close> up to
  \<open>lineStart c (Suc j)\<close>; it is touched when one of them is replaced, or, for an insertion, when the insertion
  point is one of them.
\<close>

definition lineStart :: "utext \<Rightarrow> nat \<Rightarrow> nat" where
  "lineStart c j = length (concat (take j (splitLinesWithEndings c)))"

definition isTouched :: "utext \<Rightarrow> matched_edit \<Rightarrow> nat \<Rightarrow> bool" where
  "isTouched c r j \<longleftrightarrow>
     j < length (splitLinesWithEndings c) \<and>
     ((\<exists>u. me_matchIndex r \<le> u \<and> u < me_matchIndex r + me_matchLength r \<and> lineStart c j \<le> u \<and> u < lineStart c (Suc j)) \<or>
      me_matchLength r = 0 \<and> lineStart c j \<le> me_matchIndex r \<and> me_matchIndex r < lineStart c (Suc j))"

lemma isTouched_overlap:
  "isTouched c r j \<longleftrightarrow>
     j < length (splitLinesWithEndings c) \<and> me_matchIndex r < lineStart c (Suc j) \<and>
     (lineStart c j \<le> me_matchIndex r \<or> lineStart c j < me_matchIndex r + me_matchLength r \<and> lineStart c j < lineStart c (Suc j))"
  (is "?L \<longleftrightarrow> ?R")
proof
  assume ?R
  then show ?L
  proof (cases "lineStart c j \<le> me_matchIndex r")
    case True
    then show ?L using \<open>?R\<close> unfolding isTouched_def by (cases "me_matchLength r = 0") auto
  next
    case False
    then show ?L using \<open>?R\<close> unfolding isTouched_def by (intro conjI disjI1 exI [of _ "lineStart c j"]) auto
  qed
qed (auto simp: isTouched_def)

lemma linesFrom_nonempty: "l \<in> set (linesFrom cur cs) \<Longrightarrow> l \<noteq> []"
  by (induction cur cs rule: linesFrom.induct) (auto split: if_splits)

lemma lineStart_mono: "i \<le> j \<Longrightarrow> lineStart c i \<le> lineStart c j"
  by (simp add: lineStart_def length_concat_take_mono)

lemma lineStart_less:
  assumes "j < length (splitLinesWithEndings c)"
  shows "lineStart c j < lineStart c (Suc j)"
proof -
  have "splitLinesWithEndings c ! j \<noteq> []"
    using assms linesFrom_nonempty [of "splitLinesWithEndings c ! j" "[]" c] by (simp add: splitLinesWithEndings_def)
  then show ?thesis using assms by (simp add: lineStart_def take_Suc_conv_app_nth)
qed

lemma span_lineStart:
  "j < length (splitLinesWithEndings c) \<Longrightarrow> getLineSpans c ! j = (lineStart c j, lineStart c (Suc j))"
  by (simp add: span_simps lineStart_def)

text \<open>The computed range holds exactly the touched lines.\<close>

lemma lineRange_touched:
  assumes "getReplacementLineRange (getLineSpans c) r = Inr (s, e)"
  shows "isTouched c r j \<longleftrightarrow> s \<le> j \<and> j < e"
proof -
  let ?stop = "me_matchIndex r + me_matchLength r" and ?n = "length (splitLinesWithEndings c)"
  from assms obtain n where st: "findIndex (\<lambda>(a, b). a \<le> me_matchIndex r \<and> me_matchIndex r < b) (getLineSpans c) = Some s"
    and n: "findIndex (\<lambda>(a, b). ?stop \<le> b) (drop s (getLineSpans c)) = Some n" and e: "e = Suc (s + n)"
    by (auto simp: getReplacementLineRange_def Let_def split: option.splits)
  have len: "length (getLineSpans c) = ?n" by (simp add: getLineSpans_def)
  have sn: "s < ?n" and en: "e \<le> ?n" using lineRange_spec(1,2) [OF assms] len by simp_all
  have s: "lineStart c s \<le> me_matchIndex r" "me_matchIndex r < lineStart c (Suc s)"
    using findIndex_Some [OF st] span_lineStart [OF sn] by auto
  have last: "?stop \<le> lineStart c e" using lineRange_spec(5) [OF assms] span_lineStart [of "e - 1" c] e en by simp
  have before: "lineStart c (Suc k) < ?stop" if "s \<le> k" "Suc k < e" for k
  proof -
    have "\<not> (case drop s (getLineSpans c) ! (k - s) of (a, b) \<Rightarrow> ?stop \<le> b)" using findIndex_Some [OF n] that e by simp
    then show ?thesis using that en len span_lineStart [of k c] by simp
  qed
  show ?thesis
  proof
    assume t: "isTouched c r j"
    then have t: "me_matchIndex r < lineStart c (Suc j)" "lineStart c j \<le> me_matchIndex r \<or> lineStart c j < ?stop"
      by (auto simp: isTouched_overlap)
    have "s \<le> j" using t(1) s(1) lineStart_mono [of "Suc j" s c] by (cases "s \<le> j") auto
    moreover have "j < e" using t(2) last s(2) lineStart_mono [of e j c] lineStart_mono [of "Suc s" j c] e by (cases "j < e") auto
    ultimately show "s \<le> j \<and> j < e" by simp
  next
    assume j: "s \<le> j \<and> j < e"
    then have "me_matchIndex r < lineStart c (Suc j)" using s(2) lineStart_mono [of "Suc s" "Suc j" c] by simp
    moreover have "lineStart c j \<le> me_matchIndex r \<or> lineStart c j < ?stop"
    proof (cases "j = s")
      case False
      then have "s \<le> j - 1" "Suc (j - 1) = j" using j by linarith+
      then show ?thesis using before [of "j - 1"] j by metis
    qed (simp add: s(1))
    ultimately show "isTouched c r j" using j en lineStart_less [of j c] by (auto simp: isTouched_overlap)
  qed
qed

lemma rangeLines_touched:
  assumes "getReplacementLineRange (getLineSpans c) r = Inr v"
  shows "rangeLines (getLineSpans c) r = {j. isTouched c r j}"
proof -
  obtain s e where v: "v = (s, e)" by force
  have "rangeLines (getLineSpans c) r = {s..<e}" using assms by (simp add: rangeLines_def v)
  moreover have "{j. isTouched c r j} = {s..<e}"
    by (simp only: lineRange_touched [OF assms [unfolded v]] set_eq_iff mem_Collect_eq atLeastLessThan_iff simp_thms)
  ultimately show ?thesis by simp
qed

lemma lineRange_mono:
  assumes "getReplacementLineRange (getLineSpans c) r = Inr (s, e)" "getReplacementLineRange (getLineSpans c) r' = Inr (s', e')"
    and "me_matchIndex r \<le> me_matchIndex r'"
  shows "s \<le> s'"
proof (rule ccontr)
  assume "\<not> s \<le> s'"
  then have "snd (getLineSpans c ! s') \<le> fst (getLineSpans c ! s)"
    using lineRange_spec(1,2) [OF assms(1)] by (intro span_next) auto
  then show False using lineRange_spec(3) [OF assms(1)] lineRange_spec(4) [OF assms(2)] assms(3) by simp
qed

text \<open>Groups follow one another inside \<open>n\<close> lines.\<close>

fun rangesFrom :: "nat \<Rightarrow> nat \<Rightarrow> line_group list \<Rightarrow> bool" where
  "rangesFrom p n [] \<longleftrightarrow> p \<le> n"
| "rangesFrom p n (g # gs) \<longleftrightarrow> p \<le> lg_startLine g \<and> lg_startLine g < lg_endLine g \<and> rangesFrom (lg_endLine g) n gs"

lemma rangesFrom_snoc:
  "rangesFrom p n (gs @ [g]) \<longleftrightarrow>
     rangesFrom p (lg_startLine g) gs \<and> lg_startLine g < lg_endLine g \<and> lg_endLine g \<le> n"
  by (induction gs arbitrary: p) auto

lemma rangesFrom_last: "rangesFrom p n gs \<Longrightarrow> gs = [] \<or> lg_endLine (last gs) \<le> m \<Longrightarrow> p \<le> m \<Longrightarrow> rangesFrom p m gs"
  by (cases gs rule: rev_cases) (auto simp: rangesFrom_snoc)

lemma rangesFrom_mem: "rangesFrom p n gs \<Longrightarrow> g \<in> set gs \<Longrightarrow> lg_startLine g < lg_endLine g \<and> lg_endLine g \<le> n"
proof (induction gs arbitrary: p)
  case (Cons h gs)
  have "rangesFrom q n gs \<Longrightarrow> q \<le> n" for q gs by (induction gs arbitrary: q) fastforce+
  with Cons show ?case by auto
qed simp

definition coversGroup :: "(nat \<times> nat) list \<Rightarrow> line_group \<Rightarrow> bool" where
  "coversGroup lines g \<longleftrightarrow>
     lg_replacements g \<noteq> [] \<and> (\<forall>r \<in> set (lg_replacements g). \<exists>v. getReplacementLineRange lines r = Inr v) \<and>
     {lg_startLine g..<lg_endLine g} = (\<Union>r \<in> set (lg_replacements g). rangeLines lines r)"

lemma coversGroup_touched:
  assumes "coversGroup (getLineSpans c) g"
  shows "{lg_startLine g..<lg_endLine g} = (\<Union>r \<in> set (lg_replacements g). {j. isTouched c r j})"
proof -
  have "rangeLines (getLineSpans c) r = {j. isTouched c r j}" if "r \<in> set (lg_replacements g)" for r
    using assms that rangeLines_touched unfolding coversGroup_def by blast
  then show ?thesis using assms unfolding coversGroup_def by simp
qed

lemma coversGroup_mem:
  assumes "coversGroup lines g" "r \<in> set (lg_replacements g)" "getReplacementLineRange lines r = Inr (s, e)"
  shows "lg_startLine g \<le> s" "e \<le> lg_endLine g"
proof -
  have "{s..<e} \<subseteq> {lg_startLine g..<lg_endLine g}" using assms lineRange_spec(6) [OF assms(3)] by (auto simp: coversGroup_def)
  then show "lg_startLine g \<le> s" "e \<le> lg_endLine g" using lineRange_spec(1) [OF assms(3)] by auto
qed

definition groupsOk :: "(nat \<times> nat) list \<Rightarrow> matched_edit list \<Rightarrow> line_group list \<Rightarrow> bool" where
  "groupsOk lines rs gs \<longleftrightarrow>
     rangesFrom 0 (length lines) gs \<and> list_all (coversGroup lines) gs \<and> concat (map lg_replacements gs) = rs"

lemma addToGroups_ok:
  assumes add: "addToGroups (getLineSpans c) r gs = Inr gs'" and ok: "groupsOk (getLineSpans c) rs gs"
    and ord: "\<forall>r' \<in> set rs. me_matchIndex r' \<le> me_matchIndex r"
  shows "groupsOk (getLineSpans c) (rs @ [r]) gs'"
proof -
  let ?L = "getLineSpans c"
  from add obtain s e where se: "getReplacementLineRange ?L r = Inr (s, e)"
    by (cases "getReplacementLineRange ?L r") (auto simp: addToGroups_def)
  note sp = lineRange_spec [OF se]
  show ?thesis
  proof (cases "gs \<noteq> [] \<and> s < lg_endLine (last gs)")
    case True
    then obtain hs g where gs: "gs = hs @ [g]" by (metis rev_exhaust)
    have g: "coversGroup ?L g" "rangesFrom 0 (lg_startLine g) hs" "lg_startLine g < lg_endLine g" "lg_endLine g \<le> length ?L"
      "list_all (coversGroup ?L) hs" "concat (map lg_replacements hs) @ lg_replacements g = rs"
      using ok by (auto simp: groupsOk_def gs rangesFrom_snoc)
    obtain r0 s0 e0 where r0: "r0 \<in> set (lg_replacements g)" "getReplacementLineRange ?L r0 = Inr (s0, e0)"
      using g(1) unfolding coversGroup_def by (metis list.set_sel(1) surj_pair)
    have "me_matchIndex r0 \<le> me_matchIndex r" using ord r0(1) g(6) by auto
    then have le: "lg_startLine g \<le> s"
      using coversGroup_mem(1) [OF g(1) r0] lineRange_mono [OF r0(2) se] by simp
    let ?g = "g\<lparr>lg_endLine := max (lg_endLine g) e, lg_replacements := lg_replacements g @ [r]\<rparr>"
    have gs': "gs' = hs @ [?g]" using add se True by (simp add: addToGroups_def gs)
    have "{lg_startLine g..<max (lg_endLine g) e} = {lg_startLine g..<lg_endLine g} \<union> {s..<e}"
      using le True sp(1) g(3) by (auto simp: gs)
    then have "coversGroup ?L ?g" using g(1) se sp(6) by (auto simp: coversGroup_def)
    then show ?thesis using g sp by (auto simp: groupsOk_def gs' rangesFrom_snoc)
  next
    case False
    let ?g = "\<lparr>lg_startLine = s, lg_endLine = e, lg_replacements = [r]\<rparr>"
    have gs': "gs' = gs @ [?g]" using add se False by (auto simp: addToGroups_def)
    have "rangesFrom 0 s gs" using ok False by (auto simp: groupsOk_def not_less intro: rangesFrom_last)
    then show ?thesis using ok se sp by (auto simp: groupsOk_def gs' rangesFrom_snoc coversGroup_def)
  qed
qed

lemma groupReplacements_ok:
  "groupReplacements (getLineSpans c) gs rs = Inr gs' \<Longrightarrow> groupsOk (getLineSpans c) done gs \<Longrightarrow>
   sorted (map me_matchIndex (done @ rs)) \<Longrightarrow> groupsOk (getLineSpans c) (done @ rs) gs'"
proof (induction rs arbitrary: gs "done")
  case (Cons r rs)
  from Cons.prems(1) obtain hs where hs: "addToGroups (getLineSpans c) r gs = Inr hs" "groupReplacements (getLineSpans c) hs rs = Inr gs'"
    by (cases "addToGroups (getLineSpans c) r gs") auto
  have "groupsOk (getLineSpans c) (done @ [r]) hs"
    by (rule addToGroups_ok [OF hs(1) Cons.prems(2)]) (use Cons.prems(3) in \<open>auto simp: sorted_append\<close>)
  from Cons.IH [OF hs(2) this] Cons.prems(3) show ?case by simp
qed simp

text \<open>The lines between the groups and the lines of a group.\<close>

fun keptLines :: "'a list \<Rightarrow> nat \<Rightarrow> line_group list \<Rightarrow> 'a list list" where
  "keptLines ls p [] = [drop p ls]"
| "keptLines ls p (g # gs) = take (lg_startLine g - p) (drop p ls) # keptLines ls (lg_endLine g) gs"

definition touchedLines :: "'a list \<Rightarrow> line_group \<Rightarrow> 'a list" where
  "touchedLines ls g = take (lg_endLine g - lg_startLine g) (drop (lg_startLine g) ls)"

lemma kept_touched: "rangesFrom p n gs \<Longrightarrow> drop p ls = weave (keptLines ls p gs) (map (touchedLines ls) gs)"
proof (induction gs arbitrary: p)
  case (Cons g gs)
  have r: "p \<le> lg_startLine g" "lg_startLine g \<le> lg_endLine g" "rangesFrom (lg_endLine g) n gs" using Cons.prems by auto
  have "drop p ls = take (lg_startLine g - p) (drop p ls) @ drop (lg_startLine g) ls"
    using r(1) by (metis append_take_drop_id drop_drop le_add_diff_inverse2)
  also have "drop (lg_startLine g) ls = touchedLines ls g @ drop (lg_endLine g) ls"
    unfolding touchedLines_def using r(2) by (metis append_take_drop_id drop_drop le_add_diff_inverse2)
  finally show ?case using Cons.IH [OF r(3)] by simp
qed simp

lemma overlayGroups_weave:
  "overlayGroups ls f p gs = weave (map concat (keptLines ls p gs)) (map f gs)"
  by (induction gs arbitrary: p) auto

text \<open>Replacements inside a piece of the content.\<close>

abbreviation shifted :: "nat \<Rightarrow> matched_edit \<Rightarrow> matched_edit" where
  "shifted k r \<equiv> r\<lparr>me_matchIndex := me_matchIndex r - k\<rparr>"

lemma foldr_applyOne_shift: "foldr (applyOne k) rs c = foldr (applyOne 0) (map (shifted k) rs) c"
  by (induction rs) (auto simp: applyOne_def)

lemma disjointFrom_shift:
  "k \<le> p \<Longrightarrow> disjointFrom p n rs \<Longrightarrow> disjointFrom (p - k) (n - k) (map (shifted k) rs)"
proof (induction rs arbitrary: p)
  case (Cons r rs)
  then have r: "p \<le> me_matchIndex r" "disjointFrom (me_matchIndex r + me_matchLength r) n rs" by simp_all
  have "disjointFrom (me_matchIndex r + me_matchLength r - k) (n - k) (map (shifted k) rs)"
    by (rule Cons.IH) (use Cons.prems(1) r in simp_all)
  with r Cons.prems(1) show ?case by simp
qed simp

text \<open>\<open>t\<close> is the text of the lines of \<open>g\<close> in which each matched range is replaced.\<close>

definition rewritesLines :: "utext \<Rightarrow> line_group \<Rightarrow> utext \<Rightarrow> bool" where
  "rewritesLines base g t \<longleftrightarrow>
     (\<exists>gaps. length gaps = Suc (length (lg_replacements g)) \<and>
        concat (touchedLines (splitLinesWithEndings base) g)
          = weave gaps (map (\<lambda>r. take (me_matchLength r) (drop (me_matchIndex r) base)) (lg_replacements g)) \<and>
        t = weave gaps (map me_newText (lg_replacements g)))"

lemma findOverlap_successively:
  "findOverlap ms = None \<longleftrightarrow> successively (\<lambda>p c. me_matchIndex p + me_matchLength p \<le> me_matchIndex c) ms"
  by (induction ms rule: findOverlap.induct) auto

lemma findOverlap_group:
  assumes "findOverlap (concat (map lg_replacements gs)) = None" "g \<in> set gs"
  shows "findOverlap (lg_replacements g) = None"
proof -
  obtain hs ks where "gs = hs @ g # ks" using split_list [OF assms(2)] by blast
  with assms(1) show ?thesis by (auto simp: findOverlap_successively successively_append_iff)
qed

lemma group_disjoint:
  assumes ok: "groupsOk (getLineSpans base) rs gs" and no: "findOverlap rs = None" and g: "g \<in> set gs"
  shows "disjointFrom (fst (getLineSpans base ! lg_startLine g)) (snd (getLineSpans base ! (lg_endLine g - 1))) (lg_replacements g)"
    (is "disjointFrom ?a ?b _")
proof -
  let ?L = "getLineSpans base"
  have cov: "coversGroup ?L g" and rg: "lg_startLine g < lg_endLine g" "lg_endLine g \<le> length ?L"
    using ok g rangesFrom_mem by (auto simp: groupsOk_def list_all_iff)
  have r: "?a \<le> me_matchIndex r \<and> me_matchIndex r + me_matchLength r \<le> ?b" if m: "r \<in> set (lg_replacements g)" for r
  proof -
    obtain s e where se: "getReplacementLineRange ?L r = Inr (s, e)" using cov m unfolding coversGroup_def by (metis surj_pair)
    note sp = lineRange_spec [OF se] and in_g = coversGroup_mem [OF cov m se]
    have "?a \<le> fst (?L ! s)" "snd (?L ! (e - 1)) \<le> ?b" using span_mono sp(1,2) in_g rg by auto
    with sp show ?thesis by simp
  qed
  show ?thesis
  proof (rule findOverlap_None)
    show "findOverlap (lg_replacements g) = None"
      by (rule findOverlap_group [OF _ g]) (use ok no in \<open>simp add: groupsOk_def\<close>)
    show "list_all (\<lambda>m. me_matchIndex m + me_matchLength m \<le> ?b) (lg_replacements g)" using r by (simp add: list_all_iff)
    show "lg_replacements g = [] \<or> ?a \<le> me_matchIndex (hd (lg_replacements g))" using r by (cases "lg_replacements g") auto
    have "hd (lg_replacements g) \<in> set (lg_replacements g)" using cov by (simp add: coversGroup_def)
    from r [OF this] show "?a \<le> ?b" by simp
  qed
qed

lemma disjointFrom_mem: "disjointFrom p n rs \<Longrightarrow> r \<in> set rs \<Longrightarrow> p \<le> me_matchIndex r \<and> me_matchIndex r + me_matchLength r \<le> n"
proof (induction rs arbitrary: p)
  case (Cons r' rs)
  then show ?case using disjointFrom_le [of "me_matchIndex r' + me_matchLength r'" n rs] by fastforce
qed simp

lemma rewriteGroup_rewrites:
  assumes ok: "groupsOk (getLineSpans base) rs gs" and no: "findOverlap rs = None" and g: "g \<in> set gs"
  shows "rewritesLines base g (rewriteGroup base (getLineSpans base) g)"
proof -
  let ?L = "getLineSpans base" and ?R = "lg_replacements g"
  define a b where "a = fst (?L ! lg_startLine g)" and "b = snd (?L ! (lg_endLine g - 1))"
  define c where "c = take (b - a) (drop a base)"
  let ?S = "map (shifted a) ?R"
  have rg: "lg_startLine g < lg_endLine g" "lg_endLine g \<le> length (splitLinesWithEndings base)"
    using ok g rangesFrom_mem by (fastforce simp: groupsOk_def getLineSpans_def)+
  have c: "c = concat (touchedLines (splitLinesWithEndings base) g)"
    unfolding c_def a_def b_def touchedLines_def by (rule spans_text [OF rg])
  have "b \<le> length base"
    unfolding b_def using rg length_concat_take_mono [of "lg_endLine g" "length (splitLinesWithEndings base)" "splitLinesWithEndings base"]
    by (simp add: span_simps)
  then have len: "length c = b - a" by (simp add: c_def)
  have d: "disjointFrom a b ?R" unfolding a_def b_def by (rule group_disjoint [OF ok no g])
  then have d0: "disjointFrom 0 (length c) ?S" using disjointFrom_shift [of a a b ?R] len by simp
  have "take (me_matchLength r) (drop (me_matchIndex r - a) c) = take (me_matchLength r) (drop (me_matchIndex r) base)"
    if "r \<in> set ?R" for r using disjointFrom_mem [OF d that] by (auto simp: c_def drop_take min_def)
  then have old: "map (\<lambda>r. take (me_matchLength r) (drop (me_matchIndex r) c)) ?S
      = map (\<lambda>r. take (me_matchLength r) (drop (me_matchIndex r) base)) ?R" by simp
  have "rewriteGroup base ?L g = foldr (applyOne a) ?R c"
    by (simp add: rewriteGroup_def applyReplacements_def c_def a_def b_def Let_def)
  also have "\<dots> = weave (gapsFrom c 0 ?S) (map me_newText ?S)"
    unfolding foldr_applyOne_shift [of a] applyReplacements_weave [OF d0] by simp
  also have "map me_newText ?S = map me_newText ?R" by simp
  finally have new: "rewriteGroup base ?L g = weave (gapsFrom c 0 ?S) (map me_newText ?R)" .
  have "c = weave (gapsFrom c 0 ?S) (map (\<lambda>r. take (me_matchLength r) (drop (me_matchIndex r) base)) ?R)"
    using content_weave [OF d0] unfolding old by (simp only: drop_0)
  with new show ?thesis unfolding rewritesLines_def c [symmetric]
    by (intro exI [of _ "gapsFrom c 0 ?S"] conjI) simp_all
qed

text \<open>
  C24 (untouched lines): when replacements matched in a normalised view are written back, every line that no
  replacement touches is copied from the original text, in place. A line is touched when one of its units is
  replaced, or holds the point of an insertion. The touched lines form groups; a group is
  exactly the union of the lines its replacements touch, and it is replaced by the normalised text of these lines
  with each matched range exchanged for its new text.
\<close>

theorem unchanged_lines_preserved:
  assumes run: "applyReplacementsPreservingUnchangedLines original base rs = Inr new"
    and no: "findOverlap (sort_key me_matchIndex rs) = None"
  shows "\<exists>gs ts. concat (map lg_replacements gs) = sort_key me_matchIndex rs \<and>
           (\<forall>g \<in> set gs. {lg_startLine g..<lg_endLine g} = (\<Union>r \<in> set (lg_replacements g). {j. isTouched base r j})) \<and>
           splitLinesWithEndings original
             = weave (keptLines (splitLinesWithEndings original) 0 gs) (map (touchedLines (splitLinesWithEndings original)) gs) \<and>
           list_all2 (rewritesLines base) gs ts \<and>
           new = weave (map concat (keptLines (splitLinesWithEndings original) 0 gs)) ts"
proof -
  let ?L = "getLineSpans base" and ?rs = "sort_key me_matchIndex rs" and ?ls = "splitLinesWithEndings original"
  obtain gs where gs: "groupReplacements ?L [] ?rs = Inr gs" and new: "new = overlayGroups ?ls (rewriteGroup base ?L) 0 gs"
    using run by (cases "groupReplacements ?L [] ?rs") (auto simp: applyReplacementsPreservingUnchangedLines_def Let_def split: if_splits)
  have "groupsOk ?L ([] @ ?rs) gs" by (rule groupReplacements_ok [OF gs]) (simp_all add: groupsOk_def)
  then have ok: "groupsOk ?L ?rs gs" by simp
  have "list_all2 (rewritesLines base) gs (map (rewriteGroup base ?L) gs)"
    using rewriteGroup_rewrites [OF ok no] by (simp add: list_all2_conv_all_nth)
  moreover have "?ls = weave (keptLines ?ls 0 gs) (map (touchedLines ?ls) gs)"
    using ok kept_touched [of 0 "length ?L" gs ?ls] by (simp add: groupsOk_def)
  moreover have "{lg_startLine g..<lg_endLine g} = (\<Union>r \<in> set (lg_replacements g). {j. isTouched base r j})" if "g \<in> set gs" for g
    using ok that by (intro coversGroup_touched) (simp add: groupsOk_def list_all_iff)
  ultimately show ?thesis
    using ok new by (intro exI [of _ gs] exI [of _ "map (rewriteGroup base ?L) gs"])
      (auto simp: groupsOk_def overlayGroups_weave)
qed

definition sampleReplacement :: matched_edit where
  "sampleReplacement = \<lparr>me_editIndex = 0, me_matchIndex = 2, me_matchLength = 1, me_newText = [120]\<rparr>"

lemma sampleReplacement_run:
  "applyReplacementsPreservingUnchangedLines [97, 32, 10, 98, 32] [97, 10, 98] [sampleReplacement] = Inr [97, 32, 10, 120]"
  by (simp add: applyReplacementsPreservingUnchangedLines_def splitLinesWithEndings_def getLineSpans_def sampleReplacement_def
      addToGroups_def getReplacementLineRange_def rewriteGroup_def applyReplacements_def applyOne_def Let_def)

theorem unchanged_lines_preserved_witness:
  "\<exists>gs ts. concat (map lg_replacements gs) = [sampleReplacement] \<and> list_all2 (rewritesLines [97, 10, 98]) gs ts \<and>
     [97, 32, 10, 120] = weave (map concat (keptLines (splitLinesWithEndings [97, 32, 10, 98, 32]) 0 gs)) ts"
  using unchanged_lines_preserved [OF sampleReplacement_run] by auto

section \<open>Line endings and byte order mark\<close>

lemma crlfToLf_Cons: "c \<noteq> CR \<Longrightarrow> crlfToLf (c # t) = c # crlfToLf t"
  by (cases t) auto

lemma crlfToLf_restore: "CR \<notin> set u \<Longrightarrow> crlfToLf (restoreLineEndings u e) = u"
  by (induction u) (auto simp: restoreLineEndings_def crlfToLf_Cons split: line_ending.splits)

lemma normalizeToLF_restore: "CR \<notin> set u \<Longrightarrow> normalizeToLF (restoreLineEndings u e) = u"
  by (auto simp: normalizeToLF_def crlfToLf_restore intro: map_idI)

lemma jsIndexOf_first:
  assumes "startsAt c p i" "i \<le> length c" "\<And>j. j < i \<Longrightarrow> \<not> startsAt c p j"
  shows "jsIndexOf c p = Some i"
proof -
  have "[0..<Suc (length c)] = [0..<i] @ i # [Suc i..<Suc (length c)]"
    using assms(2) upt_add_eq_append [of 0 i "Suc (length c) - i"] by (simp add: upt_conv_Cons del: upt_Suc)
  moreover have "List.find (startsAt c p) [0..<i] = None" using assms(3) by (simp add: find_None_iff)
  ultimately show ?thesis unfolding jsIndexOf_def using assms(1)
    by (simp add: find_append del: upt_Suc)
qed

lemma jsIndexOf_None_iff: "jsIndexOf c p = None \<longleftrightarrow> (\<forall>i \<le> length c. \<not> startsAt c p i)"
  unfolding jsIndexOf_def find_None_iff set_upt by (auto simp: less_Suc_eq_le)

lemma startsAt_mem: "startsAt c p i \<Longrightarrow> set p \<subseteq> set c"
  unfolding startsAt_def by (metis set_drop_subset set_take_subset subset_trans)

lemma startsAt_before: "j < length a \<Longrightarrow> x \<notin> set a \<Longrightarrow> \<not> startsAt (a @ b) (x # p) j"
  using nth_mem [of j a] by (auto simp: startsAt_def drop_append Cons_nth_drop_Suc [symmetric])

lemma restore_without_LF: "LF \<notin> set u \<Longrightarrow> restoreLineEndings u e = u"
  by (induction u) (auto simp: restoreLineEndings_def split: line_ending.splits)

lemma detect_restore:
  assumes "CR \<notin> set u"
  shows "detectLineEnding (restoreLineEndings u e) = (if LF \<in> set u then e else LfEnding)"
proof (cases "e = CrlfEnding \<and> LF \<in> set u")
  case True
  then obtain a b where u: "u = a @ LF # b" and a: "LF \<notin> set a" by (metis split_list_first)
  have pre: "concat (map (\<lambda>c. if c = LF then [CR, LF] else [c]) a) = a"
    using restore_without_LF [OF a, of CrlfEnding] by (simp add: restoreLineEndings_def)
  define c where "c = restoreLineEndings u e"
  have c: "c = a @ CR # LF # restoreLineEndings b e" using True pre by (simp add: c_def u restoreLineEndings_def)
  have "jsIndexOf c [CR, LF] = Some (length a)"
  proof (rule jsIndexOf_first)
    show "\<not> startsAt c [CR, LF] j" if "j < length a" for j unfolding c by (rule startsAt_before [OF that]) (use assms u in simp)
  qed (simp_all add: startsAt_def c)
  moreover have "jsIndexOf c [LF] = Some (Suc (length a))"
  proof (rule jsIndexOf_first)
    fix j assume j: "j < Suc (length a)"
    have "\<not> startsAt ((a @ [CR]) @ LF # restoreLineEndings b e) [LF] j" by (rule startsAt_before) (use j a in simp_all)
    then show "\<not> startsAt c [LF] j" by (simp add: c)
  qed (simp_all add: startsAt_def c)
  ultimately show ?thesis using True unfolding c_def by (simp add: detectLineEnding_def)
next
  case False
  then have r: "restoreLineEndings u e = u \<and> (LF \<in> set u \<longrightarrow> e = LfEnding)"
    by (cases e) (auto simp: restoreLineEndings_def intro: restore_without_LF [of u CrlfEnding, unfolded restoreLineEndings_def, simplified])
  have "jsIndexOf u [CR, LF] = None" using assms startsAt_mem [of u "[CR, LF]"] by (auto simp: jsIndexOf_None_iff)
  with r show ?thesis by (auto simp: detectLineEnding_def split: option.splits)
qed

text \<open>
  C40 (line endings): editing a file with uniform line endings is editing its text with plain newlines: the byte
  order mark and the line endings are taken off before the edits are applied and put back afterwards, on the new
  lines too. A file without any newline is written with plain newlines.
\<close>

theorem editContent_line_endings:
  assumes "CR \<notin> set u" and "bom = [0xFEFF] \<or> bom = [] \<and> (u = [] \<or> hd u \<noteq> 0xFEFF)"
  shows "editContent nfkc (bom @ restoreLineEndings u e) edits path =
         js_bind (applyEditsToNormalizedContent nfkc u edits path)
           (\<lambda>(_, new). Inr (bom @ restoreLineEndings new (if LF \<in> set u then e else LfEnding)))"
proof -
  have "splitBom (bom @ restoreLineEndings u e) = (bom, restoreLineEndings u e)"
    using assms(2) by (cases u; cases e) (auto simp: splitBom_def restoreLineEndings_def)
  then show ?thesis by (simp add: editContent_def normalizeToLF_restore [OF assms(1)] detect_restore [OF assms(1)])
qed

lemma sampleEdits_crlf_text: "restoreLineEndings [97, 98, 10, 99] CrlfEnding = [97, 98, 13, 10, 99]"
  by (simp add: restoreLineEndings_def)

theorem editContent_line_endings_witness:
  "editContent id [0xFEFF, 97, 98, 13, 10, 99] sampleEdits ''f'' = Inr [0xFEFF, 98, 13, 10, 120]"
proof -
  have "applyEditsToNormalizedContent id [97, 98, 10, 99] sampleEdits ''f'' = Inr ([97, 98, 10, 99], [98, 10, 120])"
    by (simp add: applyEditsToNormalizedContent_def sampleEdits_def normalizeEdit_def normalizeToLF_def fuzzyFindText_def
        jsIndexOf_def startsAt_def countOccurrences_def normalizeForFuzzyMatch_def trimEnd_def isTrimSpace_def fuzzyChar_def
        applyReplacements_def applyOne_def Let_def upt_conv_Cons)
  then show ?thesis
    using editContent_line_endings [of "[97, 98, 10, 99]" "[0xFEFF]" id CrlfEnding sampleEdits "''f''"]
    by (simp add: sampleEdits_crlf_text) (simp add: restoreLineEndings_def)
qed

end
