(* ===== verification/Agent_Loop.thy ===== *)
theory Agent_Loop
  imports Tool_Execution
begin

text \<open>
  The agent loop of \<open>packages/agent/src/agent-loop.ts\<close>: declaration of tool changes, streaming of an
  assistant response, one iteration of the inner loop, and the loop itself. The loop may run for
  ever (a model that always calls tools), so it is a partial function; \<open>None\<close> is a run that does not
  return. The hooks are fields of \<open>loop_config\<close>, which extends the environment of theory
  \<open>Tool_Execution\<close>; by their documented contract they do not throw. An absent hook is one that
  returns nothing. Contexts are values: that the source shares the message array of the context
  between the loop and its caller is not modelled.
\<close>

section \<open>Declaring tool changes\<close>

definition withToolChanges :: "system_message \<Rightarrow> tool list \<times> string list \<Rightarrow> system_message" where
  "withToolChanges m changes =
     m\<lparr>sys_toolsAdded := (if fst changes = [] then None else Some (fst changes)),
       sys_toolsRemoved := (if snd changes = [] then None else Some (snd changes))\<rparr>"

text \<open>The index of the last system message, as the backwards scan finds it.\<close>

fun lastSystemIndex :: "agent_message list \<Rightarrow> nat option" where
  "lastSystemIndex [] = None"
| "lastSystemIndex (m # ms) =
     (case lastSystemIndex ms of Some i \<Rightarrow> Some (Suc i) | None \<Rightarrow> if isSystem m then Some 0 else None)"

definition declareToolChanges :: "agent_context \<Rightarrow> agent_message list \<Rightarrow> int \<Rightarrow> agent_message list" where
  "declareToolChanges ctx pendingMessages now =
     (let systemIndex = lastSystemIndex pendingMessages;
          pending = Option.bind systemIndex (\<lambda>i. asSystem (pendingMessages ! i));
          baseline = (case (systemIndex, pending) of
                        (Some i, Some p) \<Rightarrow> pendingMessages[i := System (withToolChanges p ([], []))]
                      | _ \<Rightarrow> pendingMessages);
          changes = getToolStateChanges (getCurrentTools (ctx_messages ctx @ baseline))
                      (map toToolDeclaration (listOf (ctx_tools ctx)));
          unchanged = (fst changes = [] \<and> snd changes = [])
      in case (systemIndex, pending) of
           (Some i, Some p) \<Rightarrow>
             if unchanged \<and> listOf (sys_toolsAdded p) = [] \<and> listOf (sys_toolsRemoved p) = [] then pendingMessages
             else baseline[i := System (withToolChanges p changes)]
         | _ \<Rightarrow>
             if unchanged then pendingMessages
             else let update = withToolChanges \<lparr>sys_content = ContentString [], sys_sections = None, sys_toolsAdded = None,
                                 sys_toolsRemoved = None, sys_timestamp = now\<rparr> changes;
                      index = (case findIndex (\<lambda>m. \<not> isSystem m) pendingMessages of
                                 None \<Rightarrow> length pendingMessages | Some i \<Rightarrow> i)
                  in take index pendingMessages @ [System update] @ drop index pendingMessages)"

section \<open>Configuration\<close>

record turn =
  tu_message :: assistant_message
  tu_toolResults :: "tool_result_message list"
  tu_context :: agent_context
  tu_newMessages :: "agent_message list"
  tu_terminated :: bool

datatype turn_decision = ContinueTurn | EndRun

record turn_update =
  up_context :: "agent_context option"
  up_messages :: "agent_message list option"
  up_model :: "string option"
  up_thinkingLevel :: "string option"

text \<open>What a provider stream delivers; \<open>SPartial\<close> stands for the nine delta events.\<close>

datatype stream_event = SStart assistant_message | SPartial assistant_message | SDone | SFailed

record 'w loop_config = "'w loop_env" +
  cfg_transformContext :: "agent_message list \<Rightarrow> 'w \<Rightarrow> agent_message list \<times> 'w"
  cfg_convertToLlm :: "agent_message list \<Rightarrow> agent_message list"
  cfg_stream :: "string \<Rightarrow> string option \<Rightarrow> agent_message list \<Rightarrow> 'w \<Rightarrow> (stream_event list \<times> assistant_message) \<times> 'w"
  cfg_getSteeringMessages :: "'w \<Rightarrow> agent_message list \<times> 'w"
  cfg_getFollowUpMessages :: "'w \<Rightarrow> agent_message list \<times> 'w"
  cfg_getContextStatusMessages :: "turn \<Rightarrow> 'w \<Rightarrow> agent_message list \<times> 'w"
  cfg_prepareNextTurn :: "turn \<Rightarrow> 'w \<Rightarrow> turn_update option \<times> 'w"
  cfg_prepareRequest :: "agent_context \<Rightarrow> string \<Rightarrow> string \<Rightarrow> 'w \<Rightarrow> turn_update option \<times> 'w"
  cfg_finishTurn :: "turn \<Rightarrow> 'w \<Rightarrow> turn_decision option \<times> 'w"

section \<open>Streaming a response\<close>

definition setLast :: "agent_message \<Rightarrow> agent_context \<Rightarrow> agent_context" where
  "setLast m ctx = ctx\<lparr>ctx_messages := butlast (ctx_messages ctx) @ [m]\<rparr>"

definition pushMessage :: "agent_message \<Rightarrow> agent_context \<Rightarrow> agent_context" where
  "pushMessage m ctx = ctx\<lparr>ctx_messages := ctx_messages ctx @ [m]\<rparr>"

definition finishResponse ::
  "('w, 'x) loop_env_scheme \<Rightarrow> assistant_message \<Rightarrow> bool \<Rightarrow> agent_context \<Rightarrow> 'w loop_state \<Rightarrow> agent_context \<times> 'w loop_state" where
  "finishResponse env final addedPartial ctx s =
     (let ctx' = (if addedPartial then setLast (Assistant final) ctx else pushMessage (Assistant final) ctx);
          s' = (if addedPartial then s else emit env (MessageStart (Assistant final)) s)
      in (ctx', emit env (MessageEnd (Assistant final)) s'))"

fun consumeStream ::
  "('w, 'x) loop_env_scheme \<Rightarrow> assistant_message \<Rightarrow> stream_event list \<Rightarrow> bool \<Rightarrow> agent_context \<Rightarrow> 'w loop_state
   \<Rightarrow> agent_context \<times> 'w loop_state" where
  "consumeStream env final [] addedPartial ctx s = finishResponse env final addedPartial ctx s"
| "consumeStream env final (SStart p # evs) addedPartial ctx s =
     consumeStream env final evs True (pushMessage (Assistant p) ctx) (emit env (MessageStart (Assistant p)) s)"
| "consumeStream env final (SPartial p # evs) addedPartial ctx s =
     (if addedPartial
      then consumeStream env final evs True (setLast (Assistant p) ctx) (emit env (MessageUpdate (Assistant p)) s)
      else consumeStream env final evs False ctx s)"
| "consumeStream env final (SDone # evs) addedPartial ctx s = finishResponse env final addedPartial ctx s"
| "consumeStream env final (SFailed # evs) addedPartial ctx s = finishResponse env final addedPartial ctx s"

definition streamAssistantResponse ::
  "('w, 'x) loop_config_scheme \<Rightarrow> string \<Rightarrow> string option \<Rightarrow> agent_context \<Rightarrow> 'w loop_state
   \<Rightarrow> assistant_message \<times> agent_context \<times> 'w loop_state" where
  "streamAssistantResponse cfg model reasoning ctx s =
     (let (messages, w1) = cfg_transformContext cfg (ctx_messages ctx) (ls_world s);
          llmMessages = cfg_convertToLlm cfg messages;
          llmContext = normalizeContext None llmMessages None;
          ((evs, final), w2) = cfg_stream cfg model reasoning llmContext w1;
          (ctx', s') = consumeStream cfg final evs False ctx (s\<lparr>ls_world := w2\<rparr>)
      in (final, ctx', s'))"

section \<open>One iteration\<close>

record 'w loop_vars =
  lv_context :: agent_context
  lv_newMessages :: "agent_message list"
  lv_model :: string
  lv_reasoning :: "string option"
  lv_lastCompletedTurn :: "turn option"
  lv_explicitContinuation :: bool
  lv_pendingMessages :: "agent_message list"
  lv_pendingContextStatus :: "agent_message list"
  lv_hasMoreToolCalls :: bool
  lv_state :: "'w loop_state"

definition hook :: "('w \<Rightarrow> 'a \<times> 'w) \<Rightarrow> 'w loop_vars \<Rightarrow> 'a \<times> 'w loop_vars" where
  "hook f v = (let (x, w) = f (ls_world (lv_state v)) in (x, v\<lparr>lv_state := (lv_state v)\<lparr>ls_world := w\<rparr>\<rparr>))"

definition emitV :: "('w, 'x) loop_env_scheme \<Rightarrow> agent_event \<Rightarrow> 'w loop_vars \<Rightarrow> 'w loop_vars" where
  "emitV env ev v = v\<lparr>lv_state := emit env ev (lv_state v)\<rparr>"

definition applyThinking :: "string option \<Rightarrow> string option \<Rightarrow> string option" where
  "applyThinking update reasoning =
     (case update of None \<Rightarrow> reasoning | Some t \<Rightarrow> if t = ''off'' then None else Some t)"

definition applyUpdate :: "turn_update \<Rightarrow> 'w loop_vars \<Rightarrow> 'w loop_vars" where
  "applyUpdate u v =
     v\<lparr>lv_context := (case up_context u of Some c \<Rightarrow> c | None \<Rightarrow> lv_context v),
       lv_model := (case up_model u of Some m \<Rightarrow> m | None \<Rightarrow> lv_model v),
       lv_reasoning := applyThinking (up_thinkingLevel u) (lv_reasoning v)\<rparr>"

text \<open>The block \<open>if (lastCompletedTurn)\<close>: prepared messages, the second steering poll, status notes.\<close>

definition beginTurn :: "('w, 'x) loop_config_scheme \<Rightarrow> 'w loop_vars \<Rightarrow> agent_message list \<times> 'w loop_vars" where
  "beginTurn cfg v =
     (case lv_lastCompletedTurn v of
        None \<Rightarrow> ([], v)
      | Some t \<Rightarrow>
          (let (snapshot, v1) = hook (cfg_prepareNextTurn cfg t) v;
               prepared = (case snapshot of None \<Rightarrow> [] | Some u \<Rightarrow> listOf (up_messages u));
               v2 = (case snapshot of None \<Rightarrow> v1 | Some u \<Rightarrow> applyUpdate u v1);
               v3 = (if lv_pendingMessages v2 = []
                     then let (ms, v') = hook (cfg_getSteeringMessages cfg) v2 in v'\<lparr>lv_pendingMessages := ms\<rparr>
                     else v2);
               v4 = (if lv_pendingContextStatus v3 \<noteq> []
                     then v3\<lparr>lv_pendingMessages := lv_pendingMessages v3 @ lv_pendingContextStatus v3, lv_pendingContextStatus := []\<rparr>
                     else v3)
           in (prepared, emitV cfg TurnStart v4)))"

definition deliver :: "('w, 'x) loop_env_scheme \<Rightarrow> agent_message \<Rightarrow> 'w loop_vars \<Rightarrow> 'w loop_vars" where
  "deliver env m v =
     (let v' = emitV env (MessageEnd m) (emitV env (MessageStart m) v)
      in v'\<lparr>lv_context := pushMessage m (lv_context v'), lv_newMessages := lv_newMessages v' @ [m]\<rparr>)"

definition injectPending :: "('w, 'x) loop_config_scheme \<Rightarrow> agent_message list \<Rightarrow> 'w loop_vars \<Rightarrow> 'w loop_vars" where
  "injectPending cfg prepared v =
     (fold (deliver cfg)
        (declareToolChanges (lv_context v) (prepared @ lv_pendingMessages v) (env_now cfg (ls_world (lv_state v)))) v)
     \<lparr>lv_pendingMessages := []\<rparr>"

definition prepareRequestStep :: "('w, 'x) loop_config_scheme \<Rightarrow> 'w loop_vars \<Rightarrow> 'w loop_vars" where
  "prepareRequestStep cfg v =
     (let (u, v') = hook (cfg_prepareRequest cfg (lv_context v) (lv_model v)
                            (case lv_reasoning v of Some r \<Rightarrow> r | None \<Rightarrow> ''off'')) v
      in case u of None \<Rightarrow> v' | Some u' \<Rightarrow> applyUpdate u' v')"

definition respond :: "('w, 'x) loop_config_scheme \<Rightarrow> 'w loop_vars \<Rightarrow> assistant_message \<times> 'w loop_vars" where
  "respond cfg v =
     (let (m, ctx, s) = streamAssistantResponse cfg (lv_model v) (lv_reasoning v) (lv_context v) (lv_state v)
      in (m, v\<lparr>lv_context := ctx, lv_state := s, lv_newMessages := lv_newMessages v @ [Assistant m]\<rparr>))"

text \<open>The tool calls of a response: no calls, a truncated response, or execution.\<close>

definition runTools ::
  "('w, 'x) loop_config_scheme \<Rightarrow> assistant_message \<Rightarrow> 'w loop_vars \<Rightarrow> (executed_batch \<times> 'w loop_vars) option" where
  "runTools cfg m v =
     (let calls = toolCallsOf (am_content m) in
      if calls = [] then Some (\<lparr>eb_messages = [], eb_terminate = False\<rparr>, v\<lparr>lv_hasMoreToolCalls := False\<rparr>)
      else map_option (\<lambda>(b, s).
             let results = map ToolResult (eb_messages b) in
             (b, v\<lparr>lv_state := s, lv_hasMoreToolCalls := \<not> eb_terminate b,
                   lv_context := (lv_context v)\<lparr>ctx_messages := ctx_messages (lv_context v) @ results\<rparr>,
                   lv_newMessages := lv_newMessages v @ results\<rparr>))
           (if am_stopReason m = Length
            then Some (failToolCallsFromTruncatedMessage cfg calls (lv_state v))
            else executeToolCalls cfg (lv_context v) m (lv_state v)))"

definition turnOf :: "assistant_message \<Rightarrow> tool_result_message list \<Rightarrow> bool \<Rightarrow> 'w loop_vars \<Rightarrow> turn" where
  "turnOf m results terminated v =
     \<lparr>tu_message = m, tu_toolResults = results, tu_context = lv_context v, tu_newMessages = lv_newMessages v,
      tu_terminated = terminated\<rparr>"

definition endRun :: "('w, 'x) loop_env_scheme \<Rightarrow> 'w loop_vars \<Rightarrow> 'w loop_vars" where
  "endRun env v = emitV env (AgentEnd (lv_newMessages v)) v"

definition finishTurnStep ::
  "('w, 'x) loop_config_scheme \<Rightarrow> assistant_message \<Rightarrow> tool_result_message list \<Rightarrow> bool \<Rightarrow> 'w loop_vars
   \<Rightarrow> turn_decision option \<times> 'w loop_vars" where
  "finishTurnStep cfg m results terminated v =
     (let t = turnOf m results terminated v;
          (decision, v1) = hook (cfg_finishTurn cfg t) (v\<lparr>lv_lastCompletedTurn := Some t\<rparr>)
      in (decision, emitV cfg (TurnEnd m results) v1))"

text \<open>Polling after a turn that did not end the run.\<close>

definition pollQueues :: "('w, 'x) loop_config_scheme \<Rightarrow> turn \<Rightarrow> bool \<Rightarrow> 'w loop_vars \<Rightarrow> 'w loop_vars" where
  "pollQueues cfg t explicit v =
     (let (pending, v1) = hook (cfg_getSteeringMessages cfg) (v\<lparr>lv_explicitContinuation := explicit\<rparr>);
          v2 = v1\<lparr>lv_pendingMessages := pending\<rparr>;
          (status, v3) = hook (cfg_getContextStatusMessages cfg t) v2;
          v4 = (if status \<noteq> [] then v3\<lparr>lv_pendingContextStatus := status\<rparr> else v3)
      in if lv_hasMoreToolCalls v4 \<or> lv_pendingMessages v4 \<noteq> [] then v4\<lparr>lv_explicitContinuation := False\<rparr> else v4)"

text \<open>One pass of the inner loop: \<open>Inl\<close> is a return from \<open>runLoop\<close>, \<open>Inr\<close> goes on.\<close>

definition iteration :: "('w, 'x) loop_config_scheme \<Rightarrow> 'w loop_vars \<Rightarrow> ('w loop_vars + 'w loop_vars) option" where
  "iteration cfg v =
     (let (prepared, v1) = beginTurn cfg v;
          v2 = prepareRequestStep cfg (injectPending cfg prepared v1);
          (m, v3) = respond cfg v2
      in if am_stopReason m = StopError \<or> am_stopReason m = StopAborted
         then Some (Inl (endRun cfg (snd (finishTurnStep cfg m [] False v3))))
         else map_option (\<lambda>(b, v4).
                let t = turnOf m (eb_messages b) (eb_terminate b) v4;
                    (decision, v5) = finishTurnStep cfg m (eb_messages b) (eb_terminate b) v4
                in if decision = Some EndRun then Inl (endRun cfg v5)
                   else Inr (pollQueues cfg t (decision = Some ContinueTurn) v5))
              (runTools cfg m v3))"

section \<open>The loop\<close>

partial_function (option) runLoop :: "('w, 'x) loop_config_scheme \<Rightarrow> 'w loop_vars \<Rightarrow> 'w loop_vars option" where
  "runLoop cfg v =
     (if lv_hasMoreToolCalls v \<or> lv_pendingMessages v \<noteq> [] then
        (case iteration cfg v of
           None \<Rightarrow> None
         | Some r \<Rightarrow> (case r of Inl v' \<Rightarrow> Some v' | Inr v' \<Rightarrow> runLoop cfg v'))
      else
        (let (followUp, v1) = hook (cfg_getFollowUpMessages cfg) v in
         if followUp \<noteq> []
         then runLoop cfg (v1\<lparr>lv_explicitContinuation := False, lv_pendingMessages := followUp, lv_hasMoreToolCalls := True\<rparr>)
         else if lv_explicitContinuation v1
         then runLoop cfg (v1\<lparr>lv_explicitContinuation := False, lv_hasMoreToolCalls := True\<rparr>)
         else Some (endRun cfg v1)))"

definition initialVars ::
  "agent_context \<Rightarrow> agent_message list \<Rightarrow> string \<Rightarrow> string option \<Rightarrow> 'w loop_state \<Rightarrow> 'w loop_vars" where
  "initialVars ctx new model reasoning s =
     \<lparr>lv_context = ctx, lv_newMessages = new, lv_model = model, lv_reasoning = reasoning, lv_lastCompletedTurn = None,
      lv_explicitContinuation = False, lv_pendingMessages = [], lv_pendingContextStatus = [], lv_hasMoreToolCalls = True,
      lv_state = s\<rparr>"

text \<open>The first statements of \<open>runLoop\<close>: the initial steering poll.\<close>

definition startLoop :: "('w, 'x) loop_config_scheme \<Rightarrow> 'w loop_vars \<Rightarrow> 'w loop_vars option" where
  "startLoop cfg v =
     (let (pending, v1) = hook (cfg_getSteeringMessages cfg) v in runLoop cfg (v1\<lparr>lv_pendingMessages := pending\<rparr>))"

definition announce :: "('w, 'x) loop_env_scheme \<Rightarrow> agent_message \<Rightarrow> 'w loop_state \<Rightarrow> 'w loop_state" where
  "announce env m s = emit env (MessageEnd m) (emit env (MessageStart m) s)"

definition runAgentLoop ::
  "('w, 'x) loop_config_scheme \<Rightarrow> agent_message list \<Rightarrow> agent_context \<Rightarrow> string \<Rightarrow> string option \<Rightarrow> 'w loop_state
   \<Rightarrow> 'w loop_vars option" where
  "runAgentLoop cfg prompts ctx model reasoning s =
     (let initialMessages = declareToolChanges ctx prompts (env_now cfg (ls_world s));
          ctx' = ctx\<lparr>ctx_messages := ctx_messages ctx @ initialMessages\<rparr>;
          s1 = fold (announce cfg) initialMessages (emit cfg TurnStart (emit cfg AgentStart s))
      in startLoop cfg (initialVars ctx' initialMessages model reasoning s1))"

definition runAgentLoopContinue ::
  "('w, 'x) loop_config_scheme \<Rightarrow> agent_context \<Rightarrow> string \<Rightarrow> string option \<Rightarrow> 'w loop_state
   \<Rightarrow> 'w loop_vars js_result option" where
  "runAgentLoopContinue cfg ctx model reasoning s =
     (if ctx_messages ctx = [] then Some (Inl (JsError ''Cannot continue: no messages in context''))
      else if isAssistant (last (ctx_messages ctx)) then Some (Inl (JsError ''Cannot continue from message role: assistant''))
      else map_option Inr (startLoop cfg (initialVars ctx [] model reasoning (emit cfg TurnStart (emit cfg AgentStart s)))))"

section \<open>Tool declarations\<close>

lemma lastSystemIndex_None: "lastSystemIndex ms = None \<longleftrightarrow> (\<forall>m \<in> set ms. \<not> isSystem m)"
  by (induction ms) (auto split: option.splits if_splits)

lemma lastSystemIndex_Some:
  "lastSystemIndex ms = Some i \<Longrightarrow>
   \<exists>pre p post. ms = pre @ System p # post \<and> length pre = i \<and> (\<forall>m \<in> set post. \<not> isSystem m)"
proof (induction ms arbitrary: i)
  case (Cons m ms)
  show ?case
  proof (cases "lastSystemIndex ms")
    case None
    then have "isSystem m" "i = 0" using Cons.prems by (auto split: if_splits)
    then show ?thesis using None lastSystemIndex_None [of ms]
      by (cases m) (auto intro!: exI [of _ "[]"])
  next
    case (Some j)
    from Cons.IH [OF this] obtain pre p post where "ms = pre @ System p # post" "length pre = j" "\<forall>m \<in> set post. \<not> isSystem m" by blast
    then show ?thesis using Cons.prems Some by (intro exI [of _ "m # pre"]) auto
  qed
qed simp

lemma getCurrentTools_cong: "systemsOf ms = systemsOf ms' \<Longrightarrow> getCurrentTools ms = getCurrentTools ms'"
  by (simp add: getCurrentTools_def)

lemma getCurrentTools_no_delta:
  assumes "listOf (sys_toolsAdded p) = []" and "listOf (sys_toolsRemoved p) = []"
  shows "getCurrentTools (ms @ [System p]) = getCurrentTools ms"
  using assms by (simp add: getCurrentTools_def applyToolDelta_def)

lemma listOf_withToolChanges [simp]:
  "listOf (sys_toolsAdded (withToolChanges p changes)) = fst changes"
  "listOf (sys_toolsRemoved (withToolChanges p changes)) = snd changes"
  by (simp_all add: withToolChanges_def)

lemma declared_replay:
  assumes "distinct (map t_name cur)" and "getToolStateChanges (getCurrentTools ms) cur = changes"
    and "systemsOf ms' = systemsOf ms @ [withToolChanges p changes]"
  shows "sameTools (getCurrentTools ms') cur"
proof -
  have "sameTools (getCurrentTools (ms @ [System (withToolChanges p changes)])) cur"
    using assms(2) by (intro tool_changes_replay [OF assms(1), of ms "fst changes" "snd changes"]) simp_all
  moreover have "getCurrentTools ms' = getCurrentTools (ms @ [System (withToolChanges p changes)])"
    by (rule getCurrentTools_cong) (simp add: assms(3))
  ultimately show ?thesis by simp
qed

lemma declare_without_system:
  assumes "distinct (map t_name (listOf (ctx_tools ctx)))" and None: "lastSystemIndex pending = None"
  shows "sameTools (getCurrentTools (ctx_messages ctx @ declareToolChanges ctx pending now))
           (map toToolDeclaration (listOf (ctx_tools ctx))) \<and>
         filter (\<lambda>m. \<not> isSystem m) (declareToolChanges ctx pending now) = filter (\<lambda>m. \<not> isSystem m) pending"
proof -
  let ?cur = "map toToolDeclaration (listOf (ctx_tools ctx)) :: tool list" and ?ms = "ctx_messages ctx"
  have d: "distinct (map t_name ?cur)" using assms(1) by (simp add: comp_def toToolDeclaration_def)
  have ns: "\<forall>m \<in> set pending. \<not> isSystem m" using None by (simp add: lastSystemIndex_None)
  then have sp: "systemsOf pending = []" by (rule systemsOf_nonsystem)
  let ?ch = "getToolStateChanges (getCurrentTools (?ms @ pending)) ?cur"
  let ?e = "\<lparr>sys_content = ContentString [], sys_sections = None, sys_toolsAdded = None, sys_toolsRemoved = None, sys_timestamp = now\<rparr>"
  have same: "sameTools (getCurrentTools ms') ?cur" if "systemsOf ms' = systemsOf (?ms @ pending) @ [withToolChanges ?e ?ch]" for ms'
    by (rule declared_replay [OF d refl that])
  show ?thesis
  proof (cases "fst ?ch = [] \<and> snd ?ch = []")
    case True
    have "getCurrentTools ((?ms @ pending) @ [System (withToolChanges ?e ?ch)]) = getCurrentTools (?ms @ pending)"
      by (rule getCurrentTools_no_delta) (simp_all add: True)
    then show ?thesis using None True same [of "(?ms @ pending) @ [System (withToolChanges ?e ?ch)]"]
      by (simp add: declareToolChanges_def)
  next
    case False
    have "declareToolChanges ctx pending now = System (withToolChanges ?e ?ch) # pending"
      using None False ns by (cases pending) (auto simp: declareToolChanges_def Let_def)
    then show ?thesis using same [of "?ms @ System (withToolChanges ?e ?ch) # pending"] sp by simp
  qed
qed

lemma declare_with_system:
  assumes "distinct (map t_name (listOf (ctx_tools ctx)))" and Some: "lastSystemIndex pending = Some i"
  shows "sameTools (getCurrentTools (ctx_messages ctx @ declareToolChanges ctx pending now))
           (map toToolDeclaration (listOf (ctx_tools ctx))) \<and>
         filter (\<lambda>m. \<not> isSystem m) (declareToolChanges ctx pending now) = filter (\<lambda>m. \<not> isSystem m) pending"
proof -
  let ?cur = "map toToolDeclaration (listOf (ctx_tools ctx)) :: tool list" and ?ms = "ctx_messages ctx"
  have d: "distinct (map t_name ?cur)" using assms(1) by (simp add: comp_def toToolDeclaration_def)
  obtain pre p post where p: "pending = pre @ System p # post" "length pre = i" "\<forall>m \<in> set post. \<not> isSystem m"
    using lastSystemIndex_Some [OF Some] by blast
  have sp: "systemsOf post = []" by (rule systemsOf_nonsystem [OF p(3)])
  let ?base = "pre @ System (withToolChanges p ([], [])) # post"
  have base: "getCurrentTools (?ms @ ?base) = getCurrentTools (?ms @ pre)"
    using getCurrentTools_no_delta [of "withToolChanges p ([], [])" "?ms @ pre"]
      getCurrentTools_cong [of "?ms @ ?base" "(?ms @ pre) @ [System (withToolChanges p ([], []))]"] sp by simp
  let ?ch = "getToolStateChanges (getCurrentTools (?ms @ pre)) ?cur"
  have dec: "declareToolChanges ctx pending now =
      (if (fst ?ch = [] \<and> snd ?ch = []) \<and> listOf (sys_toolsAdded p) = [] \<and> listOf (sys_toolsRemoved p) = [] then pending
       else pre @ System (withToolChanges p ?ch) # post)"
    using Some p(2) base unfolding p(1) declareToolChanges_def by (auto simp: Let_def list_update_append nth_append)
  have same: "sameTools (getCurrentTools (?ms @ pre @ System (withToolChanges p ?ch) # post)) ?cur"
    by (rule declared_replay [OF d refl, of _ "?ms @ pre"]) (simp add: sp)
  have keep: "sameTools (getCurrentTools (?ms @ pending)) ?cur"
    if "fst ?ch = [] \<and> snd ?ch = []" "listOf (sys_toolsAdded p) = []" "listOf (sys_toolsRemoved p) = []"
  proof -
    have "getCurrentTools (?ms @ pending) = getCurrentTools ((?ms @ pre) @ [System p])"
      by (rule getCurrentTools_cong) (simp add: p(1) sp)
    also have "\<dots> = getCurrentTools (?ms @ pre)" by (rule getCurrentTools_no_delta [OF that(2,3)])
    also have "\<dots> = getCurrentTools ((?ms @ pre) @ [System (withToolChanges p ?ch)])"
      by (rule getCurrentTools_no_delta [symmetric]) (simp_all add: that(1))
    also have "\<dots> = getCurrentTools (?ms @ pre @ System (withToolChanges p ?ch) # post)"
      by (rule getCurrentTools_cong) (simp add: sp)
    finally show ?thesis using same by simp
  qed
  show ?thesis unfolding dec using same keep by (simp add: p(1))
qed

text \<open>
  Before a request, the pending messages returned by \<open>declareToolChanges\<close>
  make the transcript declare exactly the executable tools, and no message other than a system
  message is added, dropped or changed.
\<close>

theorem declareToolChanges_exact:
  assumes "distinct (map t_name (listOf (ctx_tools ctx)))"
  shows "sameTools (getCurrentTools (ctx_messages ctx @ declareToolChanges ctx pending now))
           (map toToolDeclaration (listOf (ctx_tools ctx))) \<and>
         filter (\<lambda>m. \<not> isSystem m) (declareToolChanges ctx pending now) = filter (\<lambda>m. \<not> isSystem m) pending"
  using declare_without_system [OF assms] declare_with_system [OF assms] by (cases "lastSystemIndex pending") blast+

theorem declareToolChanges_exact_witness:
  "sameTools (getCurrentTools (ctx_messages echoContext @ declareToolChanges echoContext [] 0)) (map toToolDeclaration [echoTool]) \<and>
   filter (\<lambda>m. \<not> isSystem m) (declareToolChanges echoContext [] 0) = []"
  using declareToolChanges_exact [of echoContext "[]" 0] by (simp add: echoContext_def)

section \<open>The event protocol of a run\<close>

text \<open>A sequence of complete turns.\<close>

inductive turns :: "agent_event list \<Rightarrow> bool" where
  none: "turns []"
| more: "turns rs \<Longrightarrow> turns (rs @ [TurnStart, TurnEnd m results])"

text \<open>What the listeners have been told about the run so far, and what it will return.\<close>

definition observed :: "'w loop_vars \<Rightarrow> agent_message list \<times> agent_event list" where
  "observed v = (messageEnds (lv_state v), runEvents (lv_state v))"

lemma hook_frame: "hook f v = (x, v') \<Longrightarrow> \<exists>w. v' = v\<lparr>lv_state := (lv_state v)\<lparr>ls_world := w\<rparr>\<rparr>"
  by (auto simp: hook_def split: prod.splits)

lemma observed_world [simp]: "observed (v\<lparr>lv_state := (lv_state v)\<lparr>ls_world := w\<rparr>\<rparr>) = observed v"
  by (simp add: observed_def event_simps)

lemma observed_update [simp]:
  "observed (v\<lparr>lv_context := c\<rparr>) = observed v" "observed (v\<lparr>lv_newMessages := n\<rparr>) = observed v"
  "observed (v\<lparr>lv_pendingMessages := ms\<rparr>) = observed v" "observed (v\<lparr>lv_pendingContextStatus := ms\<rparr>) = observed v"
  "observed (v\<lparr>lv_lastCompletedTurn := t\<rparr>) = observed v" "observed (v\<lparr>lv_explicitContinuation := b\<rparr>) = observed v"
  "observed (v\<lparr>lv_hasMoreToolCalls := b\<rparr>) = observed v" "observed (applyUpdate u v) = observed v"
  by (simp_all add: observed_def applyUpdate_def)

lemma applyUpdate_fields [simp]:
  "lv_newMessages (applyUpdate u v) = lv_newMessages v" "lv_lastCompletedTurn (applyUpdate u v) = lv_lastCompletedTurn v"
  "lv_pendingMessages (applyUpdate u v) = lv_pendingMessages v"
  by (simp_all add: applyUpdate_def)

lemma emitV_facts [simp]:
  "observed (emitV env ev v) =
     (fst (observed v) @ (case messageEnd ev of None \<Rightarrow> [] | Some m \<Rightarrow> [m]), snd (observed v) @ (if isRunEvent ev then [ev] else []))"
  "lv_newMessages (emitV env ev v) = lv_newMessages v" "lv_lastCompletedTurn (emitV env ev v) = lv_lastCompletedTurn v"
  by (simp_all add: emitV_def observed_def event_simps)

lemma beginTurn_facts:
  assumes "beginTurn cfg v = (prepared, v')"
  shows "observed v' = (fst (observed v), snd (observed v) @ (if lv_lastCompletedTurn v = None then [] else [TurnStart]))"
    "lv_newMessages v' = lv_newMessages v" "lv_lastCompletedTurn v' = lv_lastCompletedTurn v"
  using assms
  by (auto simp: beginTurn_def Let_def observed_def emitV_def applyUpdate_def event_simps split: option.splits prod.splits if_splits dest!: hook_frame)

lemma deliver_facts:
  "observed (deliver env m v) = (fst (observed v) @ [m], snd (observed v))"
  "lv_newMessages (deliver env m v) = lv_newMessages v @ [m]" "lv_lastCompletedTurn (deliver env m v) = lv_lastCompletedTurn v"
  by (simp_all add: deliver_def Let_def)

lemma fold_deliver_facts:
  "observed (fold (deliver env) ms v) = (fst (observed v) @ ms, snd (observed v)) \<and>
   lv_newMessages (fold (deliver env) ms v) = lv_newMessages v @ ms \<and>
   lv_lastCompletedTurn (fold (deliver env) ms v) = lv_lastCompletedTurn v"
  by (induction ms arbitrary: v) (simp_all add: deliver_facts)

text \<open>Messages told to the listeners and messages to return grow by the same list.\<close>

definition grows :: "'w loop_vars \<Rightarrow> 'w loop_vars \<Rightarrow> bool" where
  "grows v v' \<longleftrightarrow>
     (\<exists>ms. fst (observed v') = fst (observed v) @ ms \<and> lv_newMessages v' = lv_newMessages v @ ms) \<and>
     snd (observed v') = snd (observed v) \<and> lv_lastCompletedTurn v' = lv_lastCompletedTurn v"

lemma grows_trans: "grows v v' \<Longrightarrow> grows v' v'' \<Longrightarrow> grows v v''"
  by (auto simp: grows_def)

lemma grows_inject: "grows v (injectPending cfg prepared v)"
  using fold_deliver_facts by (auto simp: grows_def injectPending_def)

lemma grows_request: "grows v (prepareRequestStep cfg v)"
  by (auto simp: grows_def prepareRequestStep_def Let_def observed_def applyUpdate_def event_simps split: prod.splits option.splits dest!: hook_frame)

lemma consumeStream_facts:
  "messageEnds (snd (consumeStream env final evs b ctx s)) = messageEnds s @ [Assistant final] \<and>
   runEvents (snd (consumeStream env final evs b ctx s)) = runEvents s"
  by (induction env final evs b ctx s rule: consumeStream.induct) (simp_all add: finishResponse_def Let_def event_simps)

lemma grows_respond: "respond cfg v = (m, v') \<Longrightarrow> grows v v'"
proof -
  assume r: "respond cfg v = (m, v')"
  obtain ctx s where st: "streamAssistantResponse cfg (lv_model v) (lv_reasoning v) (lv_context v) (lv_state v) = (m, ctx, s)"
    and v': "v' = v\<lparr>lv_context := ctx, lv_state := s, lv_newMessages := lv_newMessages v @ [Assistant m]\<rparr>"
    using r by (auto simp: respond_def split: prod.splits)
  have "messageEnds s = messageEnds (lv_state v) @ [Assistant m] \<and> runEvents s = runEvents (lv_state v)"
  proof -
    obtain evs w2 where "consumeStream cfg m evs False (lv_context v) ((lv_state v)\<lparr>ls_world := w2\<rparr>) = (ctx, s)"
      using st by (auto simp: streamAssistantResponse_def Let_def split: prod.splits)
    then show ?thesis
      using consumeStream_facts [of cfg m evs False "lv_context v" "(lv_state v)\<lparr>ls_world := w2\<rparr>"] by (simp add: event_simps)
  qed
  then show ?thesis by (simp add: grows_def v' observed_def)
qed

lemma grows_tools: "runTools cfg m v = Some (b, v') \<Longrightarrow> grows v v'"
proof -
  assume r: "runTools cfg m v = Some (b, v')"
  let ?calls = "toolCallsOf (am_content m)"
  show ?thesis
  proof (cases "?calls = []")
    case True
    then show ?thesis using r by (auto simp: runTools_def grows_def)
  next
    case False
    obtain s where s: "(if am_stopReason m = Length then Some (failToolCallsFromTruncatedMessage cfg ?calls (lv_state v))
            else executeToolCalls cfg (lv_context v) m (lv_state v)) = Some (b, s)"
      and v': "lv_state v' = s" "lv_newMessages v' = lv_newMessages v @ map ToolResult (eb_messages b)"
        "lv_lastCompletedTurn v' = lv_lastCompletedTurn v"
      using r False by (auto simp: runTools_def Let_def)
    have "messageEnds s = messageEnds (lv_state v) @ map ToolResult (eb_messages b) \<and> runEvents s = runEvents (lv_state v)"
      using s truncated_facts [of cfg ?calls "lv_state v" b s] executeToolCalls_run [of cfg "lv_context v" m "lv_state v" b s]
        executeToolCalls_facts [of cfg "lv_context v" m "lv_state v" b s]
      by (auto split: if_splits)
    then show ?thesis using v' by (simp add: grows_def observed_def)
  qed
qed

lemma finishTurnStep_facts:
  assumes "finishTurnStep cfg m rs b v = (d, v')"
  shows "observed v' = (fst (observed v), snd (observed v) @ [TurnEnd m rs])" "lv_newMessages v' = lv_newMessages v"
    "lv_lastCompletedTurn v' \<noteq> None"
  using assms by (auto simp: finishTurnStep_def Let_def observed_def emitV_def event_simps split: prod.splits dest!: hook_frame)

lemma pollQueues_facts:
  "observed (pollQueues cfg t b v) = observed v \<and> lv_newMessages (pollQueues cfg t b v) = lv_newMessages v \<and>
   lv_lastCompletedTurn (pollQueues cfg t b v) = lv_lastCompletedTurn v"
  by (auto simp: pollQueues_def Let_def observed_def event_simps split: prod.splits dest!: hook_frame)

text \<open>The loop invariant: a prefix of complete turns, and one open turn before the first iteration.\<close>

definition loopInv :: "agent_message list \<Rightarrow> agent_event list \<Rightarrow> 'w loop_vars \<Rightarrow> bool" where
  "loopInv M B v \<longleftrightarrow>
     fst (observed v) = M @ lv_newMessages v \<and>
     (if lv_lastCompletedTurn v = None then snd (observed v) = B @ [TurnStart]
      else (\<exists>rs. snd (observed v) = B @ rs \<and> turns rs \<and> rs \<noteq> []))"

definition loopDone :: "agent_message list \<Rightarrow> agent_event list \<Rightarrow> 'w loop_vars \<Rightarrow> bool" where
  "loopDone M B v \<longleftrightarrow>
     fst (observed v) = M @ lv_newMessages v \<and>
     (\<exists>es. ls_events (lv_state v) = es @ [AgentEnd (lv_newMessages v)]) \<and>
     (\<exists>rs. snd (observed v) = B @ rs @ [AgentEnd (lv_newMessages v)] \<and> turns rs \<and> rs \<noteq> [])"

lemma loopInv_cong:
  "observed v = observed v' \<Longrightarrow> lv_newMessages v = lv_newMessages v' \<Longrightarrow> lv_lastCompletedTurn v = lv_lastCompletedTurn v' \<Longrightarrow>
   loopInv M B v = loopInv M B v'"
  by (simp add: loopInv_def)

lemma iteration_turn:
  assumes inv: "loopInv M B v" and b: "beginTurn cfg v = (prepared, v1)" and "grows v1 v4"
    and f: "finishTurnStep cfg m rs t v4 = (d, v5)"
  shows "loopInv M B v5" "lv_lastCompletedTurn v5 \<noteq> None"
proof -
  note fb = beginTurn_facts [OF b] and ff = finishTurnStep_facts [OF f]
  show last: "lv_lastCompletedTurn v5 \<noteq> None" by (rule ff(3))
  obtain ms where ms: "fst (observed v4) = fst (observed v1) @ ms" "lv_newMessages v4 = lv_newMessages v1 @ ms"
    "snd (observed v4) = snd (observed v1)" using assms(3) by (auto simp: grows_def)
  have "\<exists>rs'. snd (observed v1) = B @ rs' @ [TurnStart] \<and> turns rs'"
    using inv fb(1) turns.none by (auto simp: loopInv_def split: if_splits)
  then obtain rs' where "snd (observed v5) = B @ (rs' @ [TurnStart, TurnEnd m rs])" "turns rs'"
    using ff(1) ms(3) by auto
  then show "loopInv M B v5"
    using inv last fb ff ms turns.more [of rs' m rs] by (auto simp: loopInv_def)
qed

lemma endRun_done: "loopInv M B v \<Longrightarrow> lv_lastCompletedTurn v \<noteq> None \<Longrightarrow> loopDone M B (endRun cfg v)"
proof -
  have "\<exists>es. ls_events (lv_state (endRun cfg v)) = es @ [AgentEnd (lv_newMessages (endRun cfg v))]"
    by (simp add: endRun_def emitV_def emit_def)
  then show "loopInv M B v \<Longrightarrow> lv_lastCompletedTurn v \<noteq> None \<Longrightarrow> loopDone M B (endRun cfg v)"
    by (auto simp: loopInv_def loopDone_def endRun_def)
qed

lemma iteration_inv:
  assumes "loopInv M B v" and "iteration cfg v = Some r"
  shows "case r of Inl v' \<Rightarrow> loopDone M B v' | Inr v' \<Rightarrow> loopInv M B v' \<and> lv_lastCompletedTurn v' \<noteq> None"
proof -
  obtain prepared v1 where b: "beginTurn cfg v = (prepared, v1)" by force
  let ?v2 = "prepareRequestStep cfg (injectPending cfg prepared v1)"
  obtain m v3 where m: "respond cfg ?v2 = (m, v3)" by force
  have g3: "grows v1 v3" using grows_trans [OF grows_trans [OF grows_inject grows_request] grows_respond [OF m]] .
  show ?thesis
  proof (cases "am_stopReason m = StopError \<or> am_stopReason m = StopAborted")
    case True
    obtain d v5 where f: "finishTurnStep cfg m [] False v3 = (d, v5)" by force
    have "r = Inl (endRun cfg v5)" using assms(2) b m True f by (simp add: iteration_def Let_def)
    then show ?thesis using endRun_done [OF iteration_turn [OF assms(1) b g3 f], of cfg] by simp
  next
    case False
    obtain bt v4 where t: "runTools cfg m v3 = Some (bt, v4)"
      using assms(2) b m False by (auto simp: iteration_def)
    obtain d v5 where f: "finishTurnStep cfg m (eb_messages bt) (eb_terminate bt) v4 = (d, v5)" by force
    have g4: "grows v1 v4" using grows_trans [OF g3 grows_tools [OF t]] .
    have r: "r = (if d = Some EndRun then Inl (endRun cfg v5)
                  else Inr (pollQueues cfg (turnOf m (eb_messages bt) (eb_terminate bt) v4) (d = Some ContinueTurn) v5))"
      using assms(2) b m False t f by (simp add: iteration_def Let_def)
    note it = iteration_turn [OF assms(1) b g4 f]
    let ?v6 = "pollQueues cfg (turnOf m (eb_messages bt) (eb_terminate bt) v4) (d = Some ContinueTurn) v5"
    have "loopInv M B ?v6" "lv_lastCompletedTurn ?v6 \<noteq> None"
      using it loopInv_cong [of ?v6 v5] by (simp_all add: pollQueues_facts)
    then show ?thesis using r it endRun_done [OF it, of cfg] by simp
  qed
qed

text \<open>
  The first pass always happens (\<open>hasMoreToolCalls\<close> starts true), so a run that reaches the exit test
  has completed a turn.
\<close>

lemma runLoop_done:
  assumes "runLoop cfg v = Some v'"
  shows "loopInv M B v \<longrightarrow> (lv_hasMoreToolCalls v \<or> lv_pendingMessages v \<noteq> [] \<or> lv_lastCompletedTurn v \<noteq> None) \<longrightarrow> loopDone M B v'"
proof (rule runLoop.raw_induct [where P = "\<lambda>cfg v v'. loopInv M B v \<longrightarrow>
    (lv_hasMoreToolCalls v \<or> lv_pendingMessages v \<noteq> [] \<or> lv_lastCompletedTurn v \<noteq> None) \<longrightarrow> loopDone M B v'", OF _ assms], intro impI)
  fix f and cfg :: "('a, 'b) loop_config_scheme" and v v'
  assume IH: "\<And>cfg v v'. f cfg v = Some v' \<Longrightarrow> loopInv M B v \<longrightarrow>
      (lv_hasMoreToolCalls v \<or> lv_pendingMessages v \<noteq> [] \<or> lv_lastCompletedTurn v \<noteq> None) \<longrightarrow> loopDone M B v'"
    and eq: "(if lv_hasMoreToolCalls v \<or> lv_pendingMessages v \<noteq> [] then
        (case iteration cfg v of None \<Rightarrow> None | Some r \<Rightarrow> (case r of Inl v' \<Rightarrow> Some v' | Inr v' \<Rightarrow> f cfg v'))
      else
        (let (followUp, v1) = hook (cfg_getFollowUpMessages cfg) v in
         if followUp \<noteq> []
         then f cfg (v1\<lparr>lv_explicitContinuation := False, lv_pendingMessages := followUp, lv_hasMoreToolCalls := True\<rparr>)
         else if lv_explicitContinuation v1
         then f cfg (v1\<lparr>lv_explicitContinuation := False, lv_hasMoreToolCalls := True\<rparr>)
         else Some (endRun cfg v1))) = Some v'"
    and inv: "loopInv M B v" and go: "lv_hasMoreToolCalls v \<or> lv_pendingMessages v \<noteq> [] \<or> lv_lastCompletedTurn v \<noteq> None"
  show "loopDone M B v'"
  proof (cases "lv_hasMoreToolCalls v \<or> lv_pendingMessages v \<noteq> []")
    case True
    then obtain r where r: "iteration cfg v = Some r" "(case r of Inl v' \<Rightarrow> Some v' | Inr v' \<Rightarrow> f cfg v') = Some v'"
      using eq by (auto split: option.splits)
    then show ?thesis using iteration_inv [OF inv r(1)] IH by (cases r) auto
  next
    case False
    obtain fu v1 where h: "hook (cfg_getFollowUpMessages cfg) v = (fu, v1)" by force
    from hook_frame [OF h] obtain w where w: "v1 = v\<lparr>lv_state := (lv_state v)\<lparr>ls_world := w\<rparr>\<rparr>" by auto
    have same: "observed (v1\<lparr>lv_explicitContinuation := False, lv_pendingMessages := ms, lv_hasMoreToolCalls := True\<rparr>) = observed v"
      "observed (v1\<lparr>lv_explicitContinuation := False, lv_hasMoreToolCalls := True\<rparr>) = observed v" "observed v1 = observed v" for ms
      by (simp_all add: w observed_def event_simps)
    have inv1: "loopInv M B (v1\<lparr>lv_explicitContinuation := False, lv_pendingMessages := ms, lv_hasMoreToolCalls := True\<rparr>)"
      "loopInv M B (v1\<lparr>lv_explicitContinuation := False, lv_hasMoreToolCalls := True\<rparr>)" "loopInv M B v1" for ms
      using inv same by (simp_all add: loopInv_def w)
    have "lv_lastCompletedTurn v1 \<noteq> None" using False go by (simp add: w)
    then show ?thesis
      using eq False h IH inv1 endRun_done [OF inv1(3), of cfg] by (auto split: if_splits)
  qed
qed

lemma startLoop_done:
  assumes "startLoop cfg (initialVars ctx new model reasoning s) = Some v"
    and "messageEnds s = M @ new" and "runEvents s = B @ [TurnStart]"
  shows "loopDone M B v"
proof -
  let ?v = "initialVars ctx new model reasoning s"
  obtain p v1 where h: "hook (cfg_getSteeringMessages cfg) ?v = (p, v1)" by force
  from hook_frame [OF h] obtain w where w: "v1 = ?v\<lparr>lv_state := (lv_state ?v)\<lparr>ls_world := w\<rparr>\<rparr>" by auto
  have r: "runLoop cfg (v1\<lparr>lv_pendingMessages := p\<rparr>) = Some v" using assms(1) h by (simp add: startLoop_def)
  have "loopInv M B (v1\<lparr>lv_pendingMessages := p\<rparr>)"
    using assms(2,3) by (simp add: loopInv_def w initialVars_def observed_def event_simps)
  then show ?thesis using runLoop_done [OF r, of M B] by (simp add: w initialVars_def)
qed

lemma fold_announce:
  "messageEnds (fold (announce env) ms s) = messageEnds s @ ms \<and> runEvents (fold (announce env) ms s) = runEvents s"
  by (induction ms arbitrary: s) (simp_all add: announce_def event_simps)

lemma runAgentLoop_done:
  assumes "runAgentLoop cfg prompts ctx model reasoning s = Some v"
  shows "loopDone (messageEnds s) (runEvents s @ [AgentStart]) v"
proof (rule startLoop_done)
  let ?init = "declareToolChanges ctx prompts (env_now cfg (ls_world s))"
  let ?s1 = "fold (announce cfg) ?init (emit cfg TurnStart (emit cfg AgentStart s))"
  show "startLoop cfg (initialVars (ctx\<lparr>ctx_messages := ctx_messages ctx @ ?init\<rparr>) ?init model reasoning ?s1) = Some v"
    using assms by (simp add: runAgentLoop_def Let_def)
  show "messageEnds ?s1 = messageEnds s @ ?init" "runEvents ?s1 = (runEvents s @ [AgentStart]) @ [TurnStart]"
    by (simp_all add: fold_announce event_simps)
qed

section \<open>The order of the events of a run\<close>

text \<open>
  The providers' contract: the event stream of a response starts a message at most once. (The loop
  announces a second one as a second message.)
\<close>

fun isStart :: "stream_event \<Rightarrow> bool" where
  "isStart (SStart p) = True"
| "isStart _ = False"

definition startsOnce :: "('w, 'x) loop_config_scheme \<Rightarrow> bool" where
  "startsOnce cfg \<longleftrightarrow> (\<forall>model reasoning ms w. length (filter isStart (fst (fst (cfg_stream cfg model reasoning ms w)))) \<le> 1)"

lemma phase_consumeStream:
  "(if b then (\<exists>p. phaseOf s = Some (InMessage (Assistant p))) \<and> filter isStart evs = []
    else phaseOf s = Some InTurn \<and> length (filter isStart evs) \<le> 1) \<Longrightarrow>
   phaseOf (snd (consumeStream env final evs b ctx s)) = Some InTurn"
  by (induction env final evs b ctx s rule: consumeStream.induct)
    (auto simp: finishResponse_def Let_def event_simps split: if_splits)

definition expectedPhase :: "'w loop_vars \<Rightarrow> phase" where
  "expectedPhase v = (if lv_lastCompletedTurn v = None then InTurn else BetweenTurns)"

abbreviation phaseV :: "'w loop_vars \<Rightarrow> phase option" where
  "phaseV v \<equiv> phaseOf (lv_state v)"

lemma phase_beginTurn:
  assumes "beginTurn cfg v = (prepared, v')" and "phaseV v = Some (expectedPhase v)"
  shows "phaseV v' = Some InTurn"
  using assms
  by (auto simp: beginTurn_def Let_def emitV_def applyUpdate_def event_simps expectedPhase_def
      split: option.splits prod.splits if_splits dest!: hook_frame)

lemma phase_injectPending: "phaseV v = Some InTurn \<Longrightarrow> phaseV (injectPending cfg prepared v) = Some InTurn"
proof -
  have "phaseV v = Some InTurn \<Longrightarrow> phaseV (fold (deliver cfg) ms v) = Some InTurn" for ms v
    by (induction ms arbitrary: v) (simp_all add: deliver_def emitV_def event_simps Let_def)
  then show "phaseV v = Some InTurn \<Longrightarrow> phaseV (injectPending cfg prepared v) = Some InTurn" by (simp add: injectPending_def)
qed

lemma phase_prepareRequest: "phaseV (prepareRequestStep cfg v) = phaseV v"
  by (auto simp: prepareRequestStep_def Let_def applyUpdate_def split: prod.splits option.splits dest!: hook_frame)

lemma phase_respond:
  assumes "startsOnce cfg" and "respond cfg v = (m, v')" and "phaseV v = Some InTurn"
  shows "phaseV v' = Some InTurn"
proof -
  obtain messages w1 where tr: "cfg_transformContext cfg (ctx_messages (lv_context v)) (ls_world (lv_state v)) = (messages, w1)" by force
  obtain evs final w2 where st: "cfg_stream cfg (lv_model v) (lv_reasoning v)
      (normalizeContext None (cfg_convertToLlm cfg messages) None) w1 = ((evs, final), w2)" by (metis prod.exhaust)
  have "length (filter isStart evs) \<le> 1" using assms(1) st unfolding startsOnce_def by (metis fst_conv)
  then have "phaseOf (snd (consumeStream cfg final evs False (lv_context v) ((lv_state v)\<lparr>ls_world := w2\<rparr>))) = Some InTurn"
    using assms(3) by (intro phase_consumeStream) simp
  then show ?thesis using assms(2) tr st by (auto simp: respond_def streamAssistantResponse_def Let_def split: prod.splits)
qed

lemma phase_runTools:
  assumes "runTools cfg m v = Some (b, v')" and "phaseV v = Some InTurn"
  shows "phaseV v' = Some InTurn"
  using assms phase_truncated [OF assms(2), of cfg "toolCallsOf (am_content m)"] phase_executeToolCalls [of cfg "lv_context v" m "lv_state v"]
  by (auto simp: runTools_def Let_def split: if_splits)

lemma phase_finishTurn:
  assumes "finishTurnStep cfg m rs b v = (d, v')" and "phaseV v = Some InTurn"
  shows "phaseV v' = Some BetweenTurns"
  using assms by (auto simp: finishTurnStep_def Let_def emitV_def event_simps split: prod.splits dest!: hook_frame)

lemma phase_pollQueues: "phaseV (pollQueues cfg t b v) = phaseV v"
  by (auto simp: pollQueues_def Let_def split: prod.splits dest!: hook_frame)

lemma phase_endRun: "phaseV v = Some BetweenTurns \<Longrightarrow> phaseV (endRun cfg v) = Some Ended"
  by (simp add: endRun_def emitV_def event_simps)

lemma phase_iteration:
  assumes once: "startsOnce cfg" and p: "phaseV v = Some (expectedPhase v)" and it: "iteration cfg v = Some r"
  shows "case r of Inl v' \<Rightarrow> phaseV v' = Some Ended | Inr v' \<Rightarrow> phaseV v' = Some (expectedPhase v') \<and> lv_lastCompletedTurn v' \<noteq> None"
proof -
  obtain prepared v1 where b: "beginTurn cfg v = (prepared, v1)" by force
  let ?v2 = "prepareRequestStep cfg (injectPending cfg prepared v1)"
  obtain m v3 where m: "respond cfg ?v2 = (m, v3)" by force
  have "phaseV ?v2 = Some InTurn"
    using phase_injectPending [OF phase_beginTurn [OF b p], of cfg prepared] by (simp add: phase_prepareRequest)
  then have p3: "phaseV v3 = Some InTurn" by (rule phase_respond [OF once m])
  show ?thesis
  proof (cases "am_stopReason m = StopError \<or> am_stopReason m = StopAborted")
    case True
    obtain d v5 where f: "finishTurnStep cfg m [] False v3 = (d, v5)" by force
    have "r = Inl (endRun cfg v5)" using it b m True f by (simp add: iteration_def Let_def)
    then show ?thesis using phase_endRun [OF phase_finishTurn [OF f p3], of cfg] by simp
  next
    case False
    obtain bt v4 where t: "runTools cfg m v3 = Some (bt, v4)" using it b m False by (auto simp: iteration_def)
    obtain d v5 where f: "finishTurnStep cfg m (eb_messages bt) (eb_terminate bt) v4 = (d, v5)" by force
    have p5: "phaseV v5 = Some BetweenTurns" by (rule phase_finishTurn [OF f phase_runTools [OF t p3]])
    let ?v6 = "pollQueues cfg (turnOf m (eb_messages bt) (eb_terminate bt) v4) (d = Some ContinueTurn) v5"
    have r: "r = (if d = Some EndRun then Inl (endRun cfg v5) else Inr ?v6)"
      using it b m False t f by (simp add: iteration_def Let_def)
    have "lv_lastCompletedTurn ?v6 \<noteq> None" using finishTurnStep_facts(3) [OF f] by (simp add: pollQueues_facts)
    then show ?thesis using r p5 phase_endRun [OF p5, of cfg] by (auto simp: phase_pollQueues expectedPhase_def)
  qed
qed

lemma phase_runLoop:
  assumes "runLoop cfg v = Some v'"
  shows "startsOnce cfg \<longrightarrow> phaseV v = Some (expectedPhase v) \<longrightarrow>
    (lv_hasMoreToolCalls v \<or> lv_pendingMessages v \<noteq> [] \<or> lv_lastCompletedTurn v \<noteq> None) \<longrightarrow> phaseV v' = Some Ended"
proof (rule runLoop.raw_induct [where P = "\<lambda>cfg v v'. startsOnce cfg \<longrightarrow> phaseV v = Some (expectedPhase v) \<longrightarrow>
    (lv_hasMoreToolCalls v \<or> lv_pendingMessages v \<noteq> [] \<or> lv_lastCompletedTurn v \<noteq> None) \<longrightarrow> phaseV v' = Some Ended",
    OF _ assms], intro impI)
  fix f and cfg :: "('a, 'b) loop_config_scheme" and v v'
  assume IH: "\<And>cfg v v'. f cfg v = Some v' \<Longrightarrow> startsOnce cfg \<longrightarrow> phaseV v = Some (expectedPhase v) \<longrightarrow>
      (lv_hasMoreToolCalls v \<or> lv_pendingMessages v \<noteq> [] \<or> lv_lastCompletedTurn v \<noteq> None) \<longrightarrow> phaseV v' = Some Ended"
    and eq: "(if lv_hasMoreToolCalls v \<or> lv_pendingMessages v \<noteq> [] then
        (case iteration cfg v of None \<Rightarrow> None | Some r \<Rightarrow> (case r of Inl v' \<Rightarrow> Some v' | Inr v' \<Rightarrow> f cfg v'))
      else
        (let (followUp, v1) = hook (cfg_getFollowUpMessages cfg) v in
         if followUp \<noteq> []
         then f cfg (v1\<lparr>lv_explicitContinuation := False, lv_pendingMessages := followUp, lv_hasMoreToolCalls := True\<rparr>)
         else if lv_explicitContinuation v1
         then f cfg (v1\<lparr>lv_explicitContinuation := False, lv_hasMoreToolCalls := True\<rparr>)
         else Some (endRun cfg v1))) = Some v'"
    and once: "startsOnce cfg" and p: "phaseV v = Some (expectedPhase v)"
    and go: "lv_hasMoreToolCalls v \<or> lv_pendingMessages v \<noteq> [] \<or> lv_lastCompletedTurn v \<noteq> None"
  show "phaseV v' = Some Ended"
  proof (cases "lv_hasMoreToolCalls v \<or> lv_pendingMessages v \<noteq> []")
    case True
    then obtain r where r: "iteration cfg v = Some r" "(case r of Inl v' \<Rightarrow> Some v' | Inr v' \<Rightarrow> f cfg v') = Some v'"
      using eq by (auto split: option.splits)
    then show ?thesis using phase_iteration [OF once p r(1)] IH [of cfg] once by (cases r) auto
  next
    case False
    obtain fu v1 where h: "hook (cfg_getFollowUpMessages cfg) v = (fu, v1)" by force
    from hook_frame [OF h] obtain w where w: "v1 = v\<lparr>lv_state := (lv_state v)\<lparr>ls_world := w\<rparr>\<rparr>" by auto
    have last: "lv_lastCompletedTurn v \<noteq> None" using False go by simp
    then have p1: "phaseV v1 = Some BetweenTurns" using p by (simp add: w expectedPhase_def)
    consider (loop) v2 where "f cfg v2 = Some v'" "phaseV v2 = Some (expectedPhase v2)" "lv_hasMoreToolCalls v2"
      | (stop) "v' = endRun cfg v1"
    proof (cases "fu \<noteq> [] \<or> lv_explicitContinuation v1")
      case True
      let ?v2 = "if fu \<noteq> [] then v1\<lparr>lv_explicitContinuation := False, lv_pendingMessages := fu, lv_hasMoreToolCalls := True\<rparr>
        else v1\<lparr>lv_explicitContinuation := False, lv_hasMoreToolCalls := True\<rparr>"
      have "f cfg ?v2 = Some v'" using eq False h True by (simp split: if_splits)
      moreover have "phaseV ?v2 = Some (expectedPhase ?v2)" "lv_hasMoreToolCalls ?v2"
        using p1 last by (simp_all add: w expectedPhase_def)
      ultimately show thesis using loop by blast
    qed (use eq False h stop in \<open>auto split: if_splits\<close>)
    then show ?thesis
    proof cases
      case loop
      then show ?thesis using IH [OF loop(1)] once by simp
    qed (simp add: phase_endRun [OF p1])
  qed
qed

lemma phase_announce: "phaseOf s = Some InTurn \<Longrightarrow> phaseOf (fold (announce env) ms s) = Some InTurn"
  by (induction ms arbitrary: s) (simp_all add: announce_def event_simps)

lemma runAgentLoop_ended:
  assumes "runAgentLoop cfg prompts ctx model reasoning s = Some v" and "startsOnce cfg" and "ls_events s = []"
  shows "phaseV v = Some Ended"
proof -
  let ?init = "declareToolChanges ctx prompts (env_now cfg (ls_world s))"
  let ?s1 = "fold (announce cfg) ?init (emit cfg TurnStart (emit cfg AgentStart s))"
  let ?v = "initialVars (ctx\<lparr>ctx_messages := ctx_messages ctx @ ?init\<rparr>) ?init model reasoning ?s1"
  obtain p v1 where h: "hook (cfg_getSteeringMessages cfg) ?v = (p, v1)" by force
  from hook_frame [OF h] obtain w where w: "v1 = ?v\<lparr>lv_state := (lv_state ?v)\<lparr>ls_world := w\<rparr>\<rparr>" by auto
  have r: "runLoop cfg (v1\<lparr>lv_pendingMessages := p\<rparr>) = Some v"
    using assms(1) h by (simp add: runAgentLoop_def startLoop_def Let_def)
  have "phaseOf (emit cfg TurnStart (emit cfg AgentStart s)) = Some InTurn"
    using assms(3) by (simp add: event_simps phaseAfter_def [of "[]"])
  then have "phaseOf ?s1 = Some InTurn" by (rule phase_announce)
  then show ?thesis using phase_runLoop [OF r] assms(2) by (simp add: w initialVars_def expectedPhase_def)
qed

text \<open>
  C10 (event protocol): a run that returns has told its listeners exactly the messages it returns, in
  order; its run events are one start, at least one turn, every turn bracketed, and one end that carries
  the returned messages. When the provider starts each response at most once, the whole event sequence
  follows the protocol of \<open>advance\<close>: every message is started exactly once before it is ended, only its own
  updates come in between, and messages and tool executions lie inside a turn.
\<close>

theorem agent_run_protocol:
  assumes "runAgentLoop cfg prompts ctx model reasoning s = Some v"
  shows "messageEnds (lv_state v) = messageEnds s @ lv_newMessages v \<and>
         (\<exists>rs. runEvents (lv_state v) = runEvents s @ [AgentStart] @ rs @ [AgentEnd (lv_newMessages v)] \<and> turns rs \<and> rs \<noteq> []) \<and>
         (startsOnce cfg \<and> ls_events s = [] \<longrightarrow> phaseAfter (ls_events (lv_state v)) = Some Ended)"
  using runAgentLoop_done [OF assms] runAgentLoop_ended [OF assms] by (auto simp: loopDone_def observed_def)

text \<open>A configuration over the unit world whose model answers once, with text.\<close>

definition answer :: assistant_message where
  "answer = echoAssistant\<lparr>am_content := [plainText ''done''], am_stopReason := Stop\<rparr>"

definition answerConfig :: "unit loop_config" where
  "answerConfig = loop_env.extend echoEnv
     \<lparr>cfg_transformContext = (\<lambda>ms w. (ms, w)), cfg_convertToLlm = convertToLlm,
      cfg_stream = (\<lambda>_ _ _ w. (([SStart answer, SPartial answer, SDone], answer), w)),
      cfg_getSteeringMessages = (\<lambda>w. ([], w)), cfg_getFollowUpMessages = (\<lambda>w. ([], w)),
      cfg_getContextStatusMessages = (\<lambda>_ w. ([], w)), cfg_prepareNextTurn = (\<lambda>_ w. (None, w)),
      cfg_prepareRequest = (\<lambda>_ _ _ w. (None, w)), cfg_finishTurn = (\<lambda>_ w. (None, w))\<rparr>"

lemma answer_iteration:
  "lv_hasMoreToolCalls v \<Longrightarrow> lv_lastCompletedTurn v = None \<Longrightarrow>
   \<exists>v'. iteration answerConfig v = Some (Inr v') \<and> \<not> lv_hasMoreToolCalls v' \<and> lv_pendingMessages v' = [] \<and> \<not> lv_explicitContinuation v'"
  by (auto simp: iteration_def beginTurn_def prepareRequestStep_def respond_def streamAssistantResponse_def runTools_def
      finishTurnStep_def pollQueues_def hook_def emitV_def answerConfig_def loop_env.defs answer_def Let_def
      split: prod.splits)

lemma answer_returns: "\<exists>v. runAgentLoop answerConfig prompts ctx model reasoning s = Some v"
proof -
  obtain v0 where v0: "runAgentLoop answerConfig prompts ctx model reasoning s = runLoop answerConfig v0"
    "lv_hasMoreToolCalls v0" "lv_lastCompletedTurn v0 = None"
  proof -
    let ?init = "declareToolChanges ctx prompts (env_now answerConfig (ls_world s))"
    let ?v = "initialVars (ctx\<lparr>ctx_messages := ctx_messages ctx @ ?init\<rparr>) ?init model reasoning
        (fold (announce answerConfig) ?init (emit answerConfig TurnStart (emit answerConfig AgentStart s)))"
    obtain p v1 where h: "hook (cfg_getSteeringMessages answerConfig) ?v = (p, v1)" by force
    from hook_frame [OF h] obtain w where "v1 = ?v\<lparr>lv_state := (lv_state ?v)\<lparr>ls_world := w\<rparr>\<rparr>" by auto
    then show thesis
      using that [of "v1\<lparr>lv_pendingMessages := p\<rparr>"] h by (simp add: runAgentLoop_def startLoop_def Let_def initialVars_def)
  qed
  obtain v1 where v1: "iteration answerConfig v0 = Some (Inr v1)" "\<not> lv_hasMoreToolCalls v1" "lv_pendingMessages v1 = []"
    "\<not> lv_explicitContinuation v1" using answer_iteration [OF v0(2,3)] by blast
  have "runLoop answerConfig v0 = runLoop answerConfig v1" using v0(2) v1(1) by (subst runLoop.simps) simp
  also have "\<dots> = Some (endRun answerConfig (snd (hook (cfg_getFollowUpMessages answerConfig) v1)))"
    using v1 by (subst runLoop.simps) (simp add: hook_def answerConfig_def loop_env.defs Let_def)
  finally show ?thesis using v0(1) by simp
qed

theorem agent_run_protocol_witness:
  "\<exists>v rs. runAgentLoop answerConfig [] echoContext ''m'' None \<lparr>ls_world = (), ls_events = []\<rparr> = Some v \<and>
     messageEnds (lv_state v) = lv_newMessages v \<and>
     runEvents (lv_state v) = [AgentStart] @ rs @ [AgentEnd (lv_newMessages v)] \<and> turns rs \<and> rs \<noteq> [] \<and>
     phaseAfter (ls_events (lv_state v)) = Some Ended"
proof -
  let ?s = "\<lparr>ls_world = (), ls_events = []\<rparr>"
  obtain v where v: "runAgentLoop answerConfig [] echoContext ''m'' None ?s = Some v" using answer_returns by blast
  moreover have "messageEnds ?s = []" "runEvents ?s = []" by (simp_all add: messageEnds_def runEvents_def List.map_filter_def)
  moreover have "startsOnce answerConfig" by (simp add: startsOnce_def answerConfig_def loop_env.defs)
  ultimately show ?thesis using agent_run_protocol [OF v] by auto
qed

section \<open>Truncated responses\<close>

lemma truncated_env:
  "failToolCallsFromTruncatedMessage (env\<lparr>env_execute := ex, env_beforeToolCall := bf, env_afterToolCall := af\<rparr>) tcs s =
   failToolCallsFromTruncatedMessage env tcs s"
  by (induction tcs arbitrary: s) (simp_all add: emits emit_def Let_def)

text \<open>
  Truncated responses: when the output limit cut a response off, none of its tool calls runs
  (the outcome is the same whatever the tools and the tool hooks would do), each call is answered
  by an error result in order, and the loop goes on.
\<close>

theorem truncated_response_runs_no_tool:
  assumes "am_stopReason m = Length" and "toolCallsOf (am_content m) \<noteq> []"
  shows "\<exists>b v'. runTools cfg m v = Some (b, v') \<and>
           runTools (cfg\<lparr>env_execute := ex, env_beforeToolCall := bf, env_afterToolCall := af\<rparr>) m v = Some (b, v') \<and>
           map tr_toolCallId (eb_messages b) = map tc_id (toolCallsOf (am_content m)) \<and>
           list_all tr_isError (eb_messages b) \<and> lv_hasMoreToolCalls v' \<and>
           lv_newMessages v' = lv_newMessages v @ map ToolResult (eb_messages b)"
proof -
  obtain b s where f: "failToolCallsFromTruncatedMessage cfg (toolCallsOf (am_content m)) (lv_state v) = (b, s)" by force
  show ?thesis
    using assms f truncated_facts [OF f] truncated_env [where env = cfg and ex = ex and bf = bf and af = af]
    by (simp add: runTools_def Let_def)
qed

theorem truncated_response_runs_no_tool_witness:
  "\<exists>b v'. runTools answerConfig (echoAssistant\<lparr>am_stopReason := Length\<rparr>) (initialVars echoContext [] ''m'' None \<lparr>ls_world = (), ls_events = []\<rparr>) = Some (b, v') \<and>
     map tr_toolCallId (eb_messages b) = [''a'', ''b''] \<and> list_all tr_isError (eb_messages b)"
proof -
  let ?m = "echoAssistant\<lparr>am_stopReason := Length\<rparr>"
  have c: "am_stopReason ?m = Length" "toolCallsOf (am_content ?m) \<noteq> []" "map tc_id (toolCallsOf (am_content ?m)) = [''a'', ''b'']"
    by (simp_all add: echoAssistant_def echoCall_def)
  let ?v = "initialVars echoContext [] ''m'' None \<lparr>ls_world = (), ls_events = []\<rparr>"
  obtain b v' where "runTools answerConfig ?m ?v = Some (b, v')" "map tr_toolCallId (eb_messages b) = [''a'', ''b'']"
    "list_all tr_isError (eb_messages b)"
    using truncated_response_runs_no_tool [OF c(1,2), where cfg = answerConfig and v = ?v
        and ex = "env_execute answerConfig" and bf = None and af = None]
    unfolding c(3) by (elim exE conjE)
  then show ?thesis by (intro exI conjI)
qed

end
