(* ===== verification/Event_Stream.thy ===== *)
theory Event_Stream
  imports Prelude "HOL-Library.Multiset"
begin

text \<open>
  Queues and event streams: \<open>FifoQueue\<close> and \<open>EventStream\<close> of \<open>packages/ai/src/utils/event-stream.ts\<close>
  and \<open>PendingMessageQueue\<close> of \<open>packages/agent/src/agent.ts\<close>. The locale \<open>fifo\<close> is the contract of
  a first-in first-out queue; the two-stack queue and the pending-message queue in one-at-a-time
  mode both satisfy it. The stream is a state machine whose steps are a producer's \<open>push\<close> and
  \<open>end\<close> and a consumer's request for the next event.
\<close>

section \<open>The contract of a queue\<close>

locale fifo =
  fixes enq :: "'a \<Rightarrow> 'q \<Rightarrow> 'q" and deq :: "'q \<Rightarrow> 'a option \<times> 'q" and items :: "'q \<Rightarrow> 'a list"
  assumes items_enq: "items (enq x q) = items q @ [x]"
    and deq_empty: "items q = [] \<Longrightarrow> fst (deq q) = None \<and> items (snd (deq q)) = []"
    and deq_head: "items q = y # ys \<Longrightarrow> fst (deq q) = Some y \<and> items (snd (deq q)) = ys"
begin

fun deqMany :: "nat \<Rightarrow> 'q \<Rightarrow> 'a list \<times> 'q" where
  "deqMany 0 q = ([], q)"
| "deqMany (Suc n) q =
     (case deq q of (None, q') \<Rightarrow> ([], q') | (Some x, q') \<Rightarrow> (let (xs, q'') = deqMany n q' in (x # xs, q'')))"

lemma deqMany_items: "fst (deqMany n q) = take n (items q) \<and> items (snd (deqMany n q)) = drop n (items q)"
proof (induction n arbitrary: q)
  case (Suc n)
  show ?case
  proof (cases "items q")
    case Nil
    with deq_empty [OF Nil] show ?thesis by (cases "deq q") simp
  next
    case (Cons y ys)
    with deq_head [OF Cons] Suc [of "snd (deq q)"] show ?thesis by (cases "deq q") (auto split: prod.split)
  qed
qed simp

text \<open>What goes in comes out, in order, however enqueuing and dequeuing are interleaved.\<close>

lemma enq_all: "items (fold enq xs q) = items q @ xs"
  by (induction xs arbitrary: q) (simp_all add: items_enq)

lemma transfer: "fst (deqMany (length (items q) + length xs) (fold enq xs q)) = items q @ xs"
  using deqMany_items [of "length (items q) + length xs" "fold enq xs q"] by (simp add: enq_all)

end

section \<open>\<open>FifoQueue\<close>\<close>

text \<open>Both stacks are arrays with the top at the end.\<close>

record 'a fifo_queue =
  incoming :: "'a list"
  outgoing :: "'a list"

definition fq_length :: "'a fifo_queue \<Rightarrow> nat" where
  "fq_length q = length (incoming q) + length (outgoing q)"

definition enqueue :: "'a \<Rightarrow> 'a fifo_queue \<Rightarrow> 'a fifo_queue" where
  "enqueue x q = q\<lparr>incoming := incoming q @ [x]\<rparr>"

text \<open>\<open>while (incoming.length > 0) outgoing.push(incoming.pop())\<close>\<close>

function refill :: "'a fifo_queue \<Rightarrow> 'a fifo_queue" where
  "refill q =
     (if incoming q = [] then q
      else refill \<lparr>incoming = butlast (incoming q), outgoing = outgoing q @ [last (incoming q)]\<rparr>)"
  by auto
termination by (relation "measure (\<lambda>q. length (incoming q))") auto

declare refill.simps [simp del]

definition dequeue :: "'a fifo_queue \<Rightarrow> 'a option \<times> 'a fifo_queue" where
  "dequeue q =
     (let q' = (if outgoing q = [] then refill q else q)
      in if outgoing q' = [] then (None, q')
         else (Some (last (outgoing q')), q'\<lparr>outgoing := butlast (outgoing q')\<rparr>))"

definition queued :: "'a fifo_queue \<Rightarrow> 'a list" where
  "queued q = rev (outgoing q) @ incoming q"

lemma refill_result: "refill q = \<lparr>incoming = [], outgoing = outgoing q @ rev (incoming q)\<rparr>"
proof (induction q rule: refill.induct)
  case (1 q)
  show ?case
  proof (cases "incoming q = []")
    case True
    then show ?thesis by (simp add: refill.simps [of q])
  next
    case False
    then obtain xs x where "incoming q = xs @ [x]" by (cases "incoming q" rule: rev_cases) auto
    then show ?thesis using 1 [OF False] by (simp add: refill.simps [of q])
  qed
qed

interpretation two_stack: fifo enqueue dequeue queued
proof unfold_locales
  fix x :: 'a and q
  show "queued (enqueue x q) = queued q @ [x]" by (simp add: queued_def enqueue_def)
next
  fix q :: "'a fifo_queue"
  assume "queued q = []"
  then show "fst (dequeue q) = None \<and> queued (snd (dequeue q)) = []"
    by (simp add: queued_def dequeue_def refill_result)
next
  fix q :: "'a fifo_queue" and y ys
  assume q: "queued q = y # ys"
  show "fst (dequeue q) = Some y \<and> queued (snd (dequeue q)) = ys"
  proof (cases "outgoing q" rule: rev_cases)
    case Nil
    then show ?thesis using q by (simp add: queued_def dequeue_def refill_result)
  next
    case (snoc xs x)
    then show ?thesis using q by (simp add: queued_def dequeue_def)
  qed
qed

lemma fq_length_queued: "fq_length q = length (queued q)"
  by (simp add: fq_length_def queued_def)

section \<open>\<open>EventStream\<close>\<close>

text \<open>
  A waiting consumer is the number of its request. \<open>es_settled\<close> records what each request was
  resolved with (\<open>None\<close> is \<open>{done: true}\<close>), \<open>es_result\<close> the first value the final-result promise was
  resolved with: later resolutions of a promise have no effect.
\<close>

record ('t, 'r) event_stream =
  es_queue :: "'t fifo_queue"
  es_waiting :: "nat fifo_queue"
  es_done :: bool
  es_result :: "'r option"
  es_settled :: "(nat \<times> 't option) list"

definition newStream :: "('t, 'r) event_stream" where
  "newStream = \<lparr>es_queue = \<lparr>incoming = [], outgoing = []\<rparr>, es_waiting = \<lparr>incoming = [], outgoing = []\<rparr>,
     es_done = False, es_result = None, es_settled = []\<rparr>"

definition resolveFinalResult :: "'r \<Rightarrow> ('t, 'r) event_stream \<Rightarrow> ('t, 'r) event_stream" where
  "resolveFinalResult r es = (if es_result es = None then es\<lparr>es_result := Some r\<rparr> else es)"

definition es_push :: "('t \<Rightarrow> bool) \<Rightarrow> ('t \<Rightarrow> 'r) \<Rightarrow> 't \<Rightarrow> ('t, 'r) event_stream \<Rightarrow> ('t, 'r) event_stream" where
  "es_push isComplete extractResult ev es =
     (if es_done es then es
      else let es1 = (if isComplete ev then resolveFinalResult (extractResult ev) (es\<lparr>es_done := True\<rparr>) else es);
               (waiter, ws) = dequeue (es_waiting es1)
           in case waiter of
                Some i \<Rightarrow> es1\<lparr>es_waiting := ws, es_settled := es_settled es1 @ [(i, Some ev)]\<rparr>
              | None \<Rightarrow> es1\<lparr>es_waiting := ws, es_queue := enqueue ev (es_queue es1)\<rparr>)"

text \<open>The loop of \<open>end\<close> that wakes every waiting consumer.\<close>

fun releaseAll :: "nat \<Rightarrow> ('t, 'r) event_stream \<Rightarrow> ('t, 'r) event_stream" where
  "releaseAll 0 es = es"
| "releaseAll (Suc n) es =
     (case dequeue (es_waiting es) of
        (Some i, ws) \<Rightarrow> releaseAll n (es\<lparr>es_waiting := ws, es_settled := es_settled es @ [(i, None)]\<rparr>)
      | (None, ws) \<Rightarrow> es\<lparr>es_waiting := ws\<rparr>)"

definition es_end :: "'r option \<Rightarrow> ('t, 'r) event_stream \<Rightarrow> ('t, 'r) event_stream" where
  "es_end result es =
     (let es1 = es\<lparr>es_done := True\<rparr>;
          es2 = (case result of None \<Rightarrow> es1 | Some r \<Rightarrow> resolveFinalResult r es1)
      in releaseAll (fq_length (es_waiting es2)) es2)"

text \<open>One request of the async iterator.\<close>

definition es_next :: "nat \<Rightarrow> ('t, 'r) event_stream \<Rightarrow> ('t, 'r) event_stream" where
  "es_next i es =
     (if 0 < fq_length (es_queue es)
      then let (ev, q) = dequeue (es_queue es) in es\<lparr>es_queue := q, es_settled := es_settled es @ [(i, ev)]\<rparr>
      else if es_done es then es\<lparr>es_settled := es_settled es @ [(i, None)]\<rparr>
      else es\<lparr>es_waiting := enqueue i (es_waiting es)\<rparr>)"

datatype ('t, 'r) stream_op = Push 't | End "'r option" | Next nat

fun streamStep :: "('t \<Rightarrow> bool) \<Rightarrow> ('t \<Rightarrow> 'r) \<Rightarrow> ('t, 'r) stream_op \<Rightarrow> ('t, 'r) event_stream \<Rightarrow> ('t, 'r) event_stream" where
  "streamStep c x (Push ev) es = es_push c x ev es"
| "streamStep c x (End r) es = es_end r es"
| "streamStep c x (Next i) es = es_next i es"

abbreviation runStream where
  "runStream c x ops \<equiv> fold (streamStep c x) ops newStream"

text \<open>The events a sequence of operations offers before the stream is done, the completing one included.\<close>

fun accepted :: "('t \<Rightarrow> bool) \<Rightarrow> ('t, 'r) stream_op list \<Rightarrow> 't list" where
  "accepted c [] = []"
| "accepted c (Push ev # ops) = (if c ev then [ev] else ev # accepted c ops)"
| "accepted c (End r # ops) = []"
| "accepted c (Next i # ops) = accepted c ops"

text \<open>The requests the consumers make, in order, and whether a sequence of operations finishes the stream.\<close>

fun requests :: "('t, 'r) stream_op list \<Rightarrow> nat list" where
  "requests [] = []"
| "requests (Next i # ops) = i # requests ops"
| "requests (Push ev # ops) = requests ops"
| "requests (End r # ops) = requests ops"

fun isEnd :: "('t, 'r) stream_op \<Rightarrow> bool" where
  "isEnd (End r) = True"
| "isEnd (Push ev) = False"
| "isEnd (Next i) = False"

fun finishes :: "('t \<Rightarrow> bool) \<Rightarrow> ('t, 'r) stream_op \<Rightarrow> bool" where
  "finishes c (End r) = True"
| "finishes c (Push ev) = c ev"
| "finishes c (Next i) = False"

text \<open>The value the final-result promise is resolved with: a push after the stream is done does not resolve it, an \<open>end\<close> with a value does.\<close>

fun finalResult :: "('t \<Rightarrow> bool) \<Rightarrow> ('t \<Rightarrow> 'r) \<Rightarrow> bool \<Rightarrow> ('t, 'r) stream_op list \<Rightarrow> 'r option" where
  "finalResult c x fin [] = None"
| "finalResult c x fin (Push ev # ops) =
     (if fin then finalResult c x fin ops else if c ev then Some (x ev) else finalResult c x fin ops)"
| "finalResult c x fin (End r # ops) = (case r of Some v \<Rightarrow> Some v | None \<Rightarrow> finalResult c x True ops)"
| "finalResult c x fin (Next i # ops) = finalResult c x fin ops"

text \<open>What the requests were resolved with: an event, or the end of the stream.\<close>

abbreviation withEvent :: "('t, 'r) event_stream \<Rightarrow> (nat \<times> 't option) list" where
  "withEvent es \<equiv> filter (\<lambda>p. snd p \<noteq> None) (es_settled es)"

abbreviation withEnd :: "('t, 'r) event_stream \<Rightarrow> nat list" where
  "withEnd es \<equiv> map fst (filter (\<lambda>p. snd p = None) (es_settled es))"

section \<open>Lemmas\<close>

text \<open>
  The invariant of a run that offered the events \<open>acc\<close> to the requests \<open>reqs\<close>: the first requests
  have the first events, the other events are queued, the other requests wait or were told the end.
\<close>

definition streamInv :: "nat list \<Rightarrow> 't list \<Rightarrow> ('t, 'r) event_stream \<Rightarrow> bool" where
  "streamInv reqs acc es \<longleftrightarrow>
     (let n = min (length reqs) (length acc)
      in withEvent es = zip (take n reqs) (map Some (take n acc)) \<and>
         queued (es_queue es) = drop n acc \<and>
         mset (withEnd es) + mset (queued (es_waiting es)) = mset (drop n reqs) \<and>
         (es_done es \<or> withEnd es = [] \<and> queued (es_waiting es) = drop n reqs))"

lemma zip_snoc:
  "length xs = length ys \<Longrightarrow> zip (xs @ [a]) (map Some (ys @ [b])) = zip xs (map Some ys) @ [(a, Some b)]"
  by simp

lemma streamInv_push_waiting:
  assumes i: "streamInv reqs acc es" and open_: "\<not> es_done es" and w: "queued (es_waiting es) = i # rest"
    and e: "es_settled es' = es_settled es @ [(i, Some ev)]" "es_queue es' = es_queue es" "queued (es_waiting es') = rest"
  shows "streamInv reqs (acc @ [ev]) es'"
proof -
  let ?n = "min (length reqs) (length acc)"
  have d: "drop ?n reqs = i # rest" "withEnd es = []" using i open_ w by (simp_all add: streamInv_def Let_def)
  then have lt: "length acc < length reqs" by (cases "length acc < length reqs") simp_all
  then have n: "?n = length acc" "min (length reqs) (length (acc @ [ev])) = Suc (length acc)" by simp_all
  have r: "take (Suc (length acc)) reqs = take (length acc) reqs @ [i]" "drop (Suc (length acc)) reqs = rest"
    using d n lt by (simp_all add: take_Suc_conv_app_nth Cons_nth_drop_Suc [symmetric])
  have s: "withEvent es = zip (take (length acc) reqs) (map Some acc)" "queued (es_queue es) = []"
    using i n by (simp_all add: streamInv_def Let_def)
  have "withEvent es' = zip (take (length acc) reqs @ [i]) (map Some (acc @ [ev]))" using s lt by (simp add: e)
  then show ?thesis using d(2) s unfolding streamInv_def Let_def n r by (simp add: e)
qed

lemma streamInv_push_queued:
  assumes i: "streamInv reqs acc es" and open_: "\<not> es_done es" and w: "queued (es_waiting es) = []"
    and e: "es_settled es' = es_settled es" "queued (es_queue es') = queued (es_queue es) @ [ev]" "queued (es_waiting es') = []"
  shows "streamInv reqs (acc @ [ev]) es'"
proof -
  have "drop (min (length reqs) (length acc)) reqs = []" using i open_ w by (simp add: streamInv_def Let_def)
  then have le: "length reqs \<le> length acc" by simp
  then have n: "min (length reqs) (length acc) = length reqs" "min (length reqs) (length (acc @ [ev])) = length reqs" by simp_all
  show ?thesis using i le w open_ unfolding streamInv_def Let_def n by (simp add: e)
qed

lemma streamInv_push:
  assumes i: "streamInv reqs acc es"
  shows "streamInv reqs (acc @ (if es_done es then [] else [ev])) (es_push c x ev es)"
    "es_done (es_push c x ev es) = (es_done es \<or> c ev)"
    "es_result (es_push c x ev es) =
       (if es_result es \<noteq> None \<or> es_done es \<or> \<not> c ev then es_result es else Some (x ev))"
proof -
  define es1 where "es1 = (if c ev then resolveFinalResult (x ev) (es\<lparr>es_done := True\<rparr>) else es)"
  have e1: "es_queue es1 = es_queue es" "es_waiting es1 = es_waiting es" "es_settled es1 = es_settled es"
    "es_done es1 = (es_done es \<or> c ev)" "es_result es1 = (if es_result es \<noteq> None \<or> \<not> c ev then es_result es else Some (x ev))"
    by (simp_all add: es1_def resolveFinalResult_def)
  obtain waiter ws where d: "dequeue (es_waiting es1) = (waiter, ws)" by force
  have p: "es_push c x ev es = (if es_done es then es
      else case waiter of Some i \<Rightarrow> es1\<lparr>es_waiting := ws, es_settled := es_settled es1 @ [(i, Some ev)]\<rparr>
           | None \<Rightarrow> es1\<lparr>es_waiting := ws, es_queue := enqueue ev (es_queue es1)\<rparr>)"
    using d unfolding es_push_def Let_def es1_def [symmetric] by simp
  show "es_done (es_push c x ev es) = (es_done es \<or> c ev)" by (simp add: p e1 split: option.split)
  show "es_result (es_push c x ev es) = (if es_result es \<noteq> None \<or> es_done es \<or> \<not> c ev then es_result es else Some (x ev))"
    by (simp add: p e1 split: option.split)
  show "streamInv reqs (acc @ (if es_done es then [] else [ev])) (es_push c x ev es)"
  proof (cases "es_done es")
    case True
    then show ?thesis using i by (simp add: p)
  next
    case False
    show ?thesis
    proof (cases "queued (es_waiting es)")
      case Nil
      then have "waiter = None" "queued ws = []" using two_stack.deq_empty [of "es_waiting es1"] d e1 by simp_all
      then have "streamInv reqs (acc @ [ev]) (es_push c x ev es)" using False
        by (intro streamInv_push_queued [OF i False Nil]) (simp_all add: p e1 two_stack.items_enq)
      then show ?thesis using False by simp
    next
      case (Cons j rest)
      then have "waiter = Some j" "queued ws = rest" using two_stack.deq_head [of "es_waiting es1" j rest] d e1 by simp_all
      then have "streamInv reqs (acc @ [ev]) (es_push c x ev es)" using False
        by (intro streamInv_push_waiting [OF i False Cons]) (simp_all add: p e1)
      then show ?thesis using False by simp
    qed
  qed
qed

lemma releaseAll_effect:
  "n = length (queued (es_waiting es)) \<Longrightarrow>
   es_settled (releaseAll n es) = es_settled es @ map (\<lambda>i. (i, None)) (queued (es_waiting es)) \<and>
   queued (es_waiting (releaseAll n es)) = [] \<and> es_queue (releaseAll n es) = es_queue es \<and>
   es_done (releaseAll n es) = es_done es \<and> es_result (releaseAll n es) = es_result es"
proof (induction n arbitrary: es)
  case (Suc n)
  then obtain i "is" where w: "queued (es_waiting es) = i # is" by (metis Suc_length_conv)
  obtain wt ws where d: "dequeue (es_waiting es) = (wt, ws)" by force
  have "wt = Some i" "queued ws = is" using two_stack.deq_head [OF w] d by simp_all
  then show ?case
    using Suc.IH [of "es\<lparr>es_waiting := ws, es_settled := es_settled es @ [(i, None)]\<rparr>"] Suc.prems w d
    by simp
qed simp

lemma es_end_effect:
  "es_settled (es_end r es) = es_settled es @ map (\<lambda>i. (i, None)) (queued (es_waiting es))"
  "queued (es_waiting (es_end r es)) = []" "es_queue (es_end r es) = es_queue es" "es_done (es_end r es)"
  "es_result (es_end r es) = (if es_result es = None then r else es_result es)"
proof -
  let ?es2 = "case r of None \<Rightarrow> es\<lparr>es_done := True\<rparr> | Some r' \<Rightarrow> resolveFinalResult r' (es\<lparr>es_done := True\<rparr>)"
  have e: "es_settled ?es2 = es_settled es" "es_waiting ?es2 = es_waiting es" "es_queue ?es2 = es_queue es" "es_done ?es2"
    "es_result ?es2 = (if es_result es = None then r else es_result es)"
    by (simp_all add: resolveFinalResult_def split: option.split)
  show "es_settled (es_end r es) = es_settled es @ map (\<lambda>i. (i, None)) (queued (es_waiting es))"
    "queued (es_waiting (es_end r es)) = []" "es_queue (es_end r es) = es_queue es" "es_done (es_end r es)"
    "es_result (es_end r es) = (if es_result es = None then r else es_result es)"
    using releaseAll_effect [of "fq_length (es_waiting ?es2)" ?es2] by (simp_all add: es_end_def Let_def fq_length_queued e)
qed

lemma filter_released:
  "filter (\<lambda>p. snd p \<noteq> None) (map (\<lambda>i. (i, None)) xs) = []"
  "map fst (filter (\<lambda>p. snd p = None) (map (\<lambda>i. (i, None)) xs)) = xs"
  by (induction xs) simp_all

lemma streamInv_end:
  assumes "streamInv reqs acc es"
  shows "streamInv reqs acc (es_end r es)"
  using assms unfolding streamInv_def Let_def
  by (simp add: es_end_effect filter_released comp_def del: filter_map)

lemma streamInv_next_queued:
  assumes i: "streamInv reqs acc es" and q: "queued (es_queue es) = ev # evs"
    and e: "es_settled es' = es_settled es @ [(j, Some ev)]" "queued (es_queue es') = evs"
      "es_waiting es' = es_waiting es" "es_done es' = es_done es"
  shows "streamInv (reqs @ [j]) acc es'"
proof -
  let ?n = "min (length reqs) (length acc)"
  have d: "drop ?n acc = ev # evs" using i q by (simp add: streamInv_def Let_def)
  then have lt: "length reqs < length acc" by (cases "length reqs < length acc") simp_all
  then have n: "?n = length reqs" "min (length (reqs @ [j])) (length acc) = Suc (length reqs)" by simp_all
  have r: "take (Suc (length reqs)) acc = take (length reqs) acc @ [ev]" "drop (Suc (length reqs)) acc = evs"
    using d n lt by (simp_all add: take_Suc_conv_app_nth Cons_nth_drop_Suc [symmetric])
  have s1: "withEvent es = zip reqs (map Some (take (length reqs) acc))" using i n by (simp add: streamInv_def Let_def)
  have "mset (withEnd es) + mset (queued (es_waiting es)) = mset []" using i unfolding streamInv_def Let_def n by simp
  then have s2: "withEnd es = []" "queued (es_waiting es) = []" by (simp_all del: mset_map mset_filter)
  note s = s1 s2
  have "withEvent es' = zip (reqs @ [j]) (map Some (take (length reqs) acc @ [ev]))" using s lt by (simp add: e)
  then show ?thesis using s unfolding streamInv_def Let_def n r by (simp add: e)
qed

lemma streamInv_next:
  assumes i: "streamInv reqs acc es"
  shows "streamInv (reqs @ [j]) acc (es_next j es)" "es_done (es_next j es) = es_done es" "es_result (es_next j es) = es_result es"
proof -
  show "es_done (es_next j es) = es_done es" "es_result (es_next j es) = es_result es"
    by (simp_all add: es_next_def Let_def split: prod.split)
  show "streamInv (reqs @ [j]) acc (es_next j es)"
  proof (cases "queued (es_queue es)")
    case Nil
    then have le: "length acc \<le> length reqs" using i by (simp add: streamInv_def Let_def)
    then have n: "min (length reqs) (length acc) = length acc" "min (length (reqs @ [j])) (length acc) = length acc" by simp_all
    show ?thesis using i Nil le unfolding streamInv_def Let_def n
      by (cases "es_done es") (simp_all add: es_next_def fq_length_queued two_stack.items_enq)
  next
    case (Cons ev evs)
    obtain v q where d: "dequeue (es_queue es) = (v, q)" by force
    then have "v = Some ev" "queued q = evs" using two_stack.deq_head [OF Cons] by simp_all
    then show ?thesis using streamInv_next_queued [OF i Cons, of "es_next j es" j] d Cons
      by (simp add: es_next_def fq_length_queued)
  qed
qed

lemma accepted_snoc:
  "accepted c (ops @ [op]) =
   accepted c ops @ (case op of Push ev \<Rightarrow> if list_ex (finishes c) ops then [] else [ev] | _ \<Rightarrow> [])"
  by (induction c ops rule: accepted.induct) (auto split: stream_op.splits)

lemma requests_snoc: "requests (ops @ [op]) = requests ops @ (case op of Next i \<Rightarrow> [i] | _ \<Rightarrow> [])"
  by (induction ops rule: requests.induct) (simp_all split: stream_op.splits)

lemma finalResult_snoc:
  "finalResult c x fin (ops @ [op]) =
   (case finalResult c x fin ops of
      Some r \<Rightarrow> Some r
    | None \<Rightarrow> (case op of Push ev \<Rightarrow> if fin \<or> list_ex (finishes c) ops \<or> \<not> c ev then None else Some (x ev)
              | End r \<Rightarrow> r | Next i \<Rightarrow> None))"
  by (induction c x fin ops rule: finalResult.induct) (auto split: stream_op.splits option.splits)

lemma finished_done:
  "streamInv (requests ops) (accepted c ops) (runStream c x ops) \<and>
   es_done (runStream c x ops) = list_ex (finishes c) ops \<and>
   es_result (runStream c x ops) = finalResult c x False ops"
proof (induction ops rule: rev_induct)
  case Nil
  show ?case by (simp add: newStream_def streamInv_def queued_def)
next
  case (snoc op ops)
  let ?es = "runStream c x ops"
  have i: "streamInv (requests ops) (accepted c ops) ?es" and d: "es_done ?es = list_ex (finishes c) ops"
    and r: "es_result ?es = finalResult c x False ops" using snoc.IH by simp_all
  show ?case
  proof (cases op)
    case (Push ev)
    then show ?thesis using streamInv_push [OF i, where ev = ev and c = c and x = x] d r
      by (auto simp: accepted_snoc requests_snoc finalResult_snoc split: option.splits)
  next
    case (End v)
    then show ?thesis using streamInv_end [OF i, of v] d r
      by (auto simp: accepted_snoc requests_snoc finalResult_snoc es_end_effect split: option.splits)
  next
    case (Next j)
    then show ?thesis using streamInv_next [OF i, of j] d r
      by (auto simp: accepted_snoc requests_snoc finalResult_snoc split: option.splits)
  qed
qed

text \<open>Once the producer has called \<open>end\<close> nobody waits any more, whatever comes after.\<close>

lemma push_none_waiting: "es_done es \<Longrightarrow> es_push c x ev es = es"
  by (simp add: es_push_def)

lemma next_none_waiting:
  assumes "es_done es"
  shows "es_waiting (es_next j es) = es_waiting es"
  using assms by (simp add: es_next_def Let_def split: prod.split)

lemma ended_none_waiting:
  "list_ex isEnd ops \<Longrightarrow> queued (es_waiting (runStream c x ops)) = []"
proof (induction ops rule: rev_induct)
  case (snoc op ops)
  show ?case
  proof (cases "list_ex isEnd ops")
    case True
    then have "list_ex (finishes c) ops" by (induction ops rule: requests.induct) auto
    then have d: "es_done (runStream c x ops)" using finished_done [of ops c x] by simp
    show ?thesis using snoc.IH [OF True] d
      by (cases op) (simp_all add: push_none_waiting next_none_waiting es_end_effect)
  next
    case False
    then obtain r where "op = End r" using snoc.prems by (cases op) simp_all
    then show ?thesis by (simp add: es_end_effect)
  qed
qed simp

lemma stream_run:
  "let es = runStream c x ops; n = min (length (requests ops)) (length (accepted c ops))
   in withEvent es = zip (take n (requests ops)) (map Some (take n (accepted c ops))) \<and>
      queued (es_queue es) = drop n (accepted c ops) \<and>
      mset (withEnd es) + mset (queued (es_waiting es)) = mset (drop n (requests ops)) \<and>
      (\<not> list_ex (finishes c) ops \<longrightarrow> withEnd es = [] \<and> queued (es_waiting es) = drop n (requests ops)) \<and>
      (list_ex isEnd ops \<longrightarrow> queued (es_waiting es) = []) \<and>
      es_result es = finalResult c x False ops"
  using finished_done [of ops c x] ended_none_waiting [of ops c x]
  unfolding streamInv_def Let_def by blast

text \<open>
  C33 (event streams): whatever the interleaving of a producer and its consumers, the \<open>k\<close>-th request
  is resolved with the \<open>k\<close>-th accepted event (those pushed up to and including the first completing
  one), as soon as both exist and also after the stream is done; the events nobody has asked for yet
  are queued. Of the remaining requests none is told that the stream is over before it is, each is
  told so at most once, and when the producer has called \<open>end\<close> none of them still waits. The
  final-result promise has the value of the first completing event or of the first \<open>end\<close> with a value.
\<close>

theorem event_stream_delivers_in_order:
  "let es = runStream c x ops; n = min (length (requests ops)) (length (accepted c ops))
   in withEvent es = zip (take n (requests ops)) (map Some (take n (accepted c ops))) \<and>
      queued (es_queue es) = drop n (accepted c ops) \<and>
      mset (withEnd es) + mset (queued (es_waiting es)) = mset (drop n (requests ops)) \<and>
      (\<not> list_ex (finishes c) ops \<longrightarrow> withEnd es = [] \<and> queued (es_waiting es) = drop n (requests ops)) \<and>
      (list_ex isEnd ops \<longrightarrow> queued (es_waiting es) = []) \<and>
      es_result es = finalResult c x False ops"
  by (rule stream_run)

text \<open>
  Three readers, a producer that pushes \<open>1\<close>, \<open>2\<close> and the completing \<open>9\<close>, then a late reader and \<open>end\<close>.
\<close>

theorem event_stream_delivers_in_order_witness:
  "let ops = [Next 0, Push 1, Push 2, Push (9 :: nat), Push 5, Next 1, Next 2, Next 7, End None];
       es = runStream (\<lambda>e. e = 9) (\<lambda>e. e) ops
   in withEvent es = [(0, Some 1), (1, Some 2), (2, Some 9)] \<and> queued (es_waiting es) = [] \<and> es_result es = Some 9 \<and>
      mset (withEnd es) = mset [7]"
proof -
  let ?ops = "[Next 0, Push 1, Push 2, Push (9 :: nat), Push 5, Next 1, Next 2, Next 7, End None]"
  let ?es = "runStream (\<lambda>e. e = 9) (\<lambda>e. e) ?ops"
  have e: "requests ?ops = [0, 1, 2, 7]" "accepted (\<lambda>e. e = 9) ?ops = [1, 2, 9]" "list_ex isEnd ?ops"
    "finalResult (\<lambda>e. e = 9) (\<lambda>e. e) False ?ops = Some 9" by simp_all
  have n: "min (length [0, 1, 2, 7 :: nat]) (length [1, 2, 9 :: nat]) = Suc (Suc (Suc 0))" by simp
  note t = event_stream_delivers_in_order [of "\<lambda>e. e = 9" "\<lambda>e. e" ?ops, unfolded Let_def e n]
  have w: "queued (es_waiting ?es) = []" and r: "es_result ?es = Some 9" using t e by blast+
  have "withEvent ?es = [(0, Some 1), (1, Some 2), (2, Some 9)]" using t [THEN conjunct1] by simp
  moreover have "mset (withEnd ?es) = mset [7]"
    using t [THEN conjunct2, THEN conjunct2, THEN conjunct1] unfolding w by simp
  ultimately show ?thesis using w r unfolding Let_def by blast
qed

text \<open>
  A completing push wakes one reader only: a second reader that was already waiting learns of the end
  when the producer calls \<open>end\<close>, not before.
\<close>

lemma completing_push_wakes_one:
  "let es = runStream (\<lambda>e. e = 9) (\<lambda>e. e) [Next 0, Next 1, Push (9 :: nat)]
   in es_done es \<and> queued (es_waiting es) = [1] \<and> withEvent es = [(0, Some 9)] \<and> withEnd es = []"
  by (simp add: newStream_def es_next_def es_push_def resolveFinalResult_def fq_length_def enqueue_def dequeue_def
      refill.simps queued_def Let_def)

section \<open>\<open>PendingMessageQueue\<close>\<close>

datatype queue_mode = QueueAll | OneAtATime

record 'm pending_queue =
  pq_messages :: "'m list"
  pq_mode :: queue_mode

definition pq_enqueue :: "'m \<Rightarrow> 'm pending_queue \<Rightarrow> 'm pending_queue" where
  "pq_enqueue m q = q\<lparr>pq_messages := pq_messages q @ [m]\<rparr>"

definition pq_hasItems :: "'m pending_queue \<Rightarrow> bool" where
  "pq_hasItems q \<longleftrightarrow> 0 < length (pq_messages q)"

definition pq_peek :: "'m pending_queue \<Rightarrow> 'm list" where
  "pq_peek q =
     (if pq_mode q = QueueAll then pq_messages q
      else (case pq_messages q of [] \<Rightarrow> [] | m # _ \<Rightarrow> [m]))"

definition pq_drain :: "'m pending_queue \<Rightarrow> 'm list \<times> 'm pending_queue" where
  "pq_drain q = (let drained = pq_peek q in (drained, q\<lparr>pq_messages := drop (length drained) (pq_messages q)\<rparr>))"

definition pq_clear :: "'m pending_queue \<Rightarrow> 'm pending_queue" where
  "pq_clear q = q\<lparr>pq_messages := []\<rparr>"

text \<open>A drain never loses, duplicates or reorders: the drained messages and the rest are the queue.\<close>

lemma pq_drain_split:
  assumes "pq_drain q = (ms, q')"
  shows "ms @ pq_messages q' = pq_messages q" "pq_mode q' = pq_mode q"
    "pq_mode q = OneAtATime \<Longrightarrow> length ms \<le> 1" "pq_messages q \<noteq> [] \<Longrightarrow> ms \<noteq> []"
  using assms by (auto simp: pq_drain_def pq_peek_def Let_def split: list.splits if_splits)

text \<open>In one-at-a-time mode a drain is a dequeue.\<close>

definition pq_drainOne :: "'m pending_queue \<Rightarrow> 'm option \<times> 'm pending_queue" where
  "pq_drainOne q =
     (let (ms, q') = pq_drain (q\<lparr>pq_mode := OneAtATime\<rparr>) in (case ms of [] \<Rightarrow> None | m # _ \<Rightarrow> Some m, q'))"

interpretation pending: fifo pq_enqueue pq_drainOne pq_messages
  by unfold_locales (auto simp: pq_enqueue_def pq_drainOne_def pq_drain_def pq_peek_def Let_def)

end
