(* ===== verification/Agent.thy ===== *)
theory Agent
  imports Agent_Loop Event_Stream
begin

text \<open>
  The class \<open>Agent\<close> of \<open>packages/agent/src/agent.ts\<close>: its state, the reduction of loop events, the
  message queues and the life cycle of a run. The loop runs over a world that holds the agent, the
  flag of the skipped steering poll and whatever the embedding program keeps; \<open>createLoopConfig\<close>
  overrides, in a configuration that supplies the remaining hooks, exactly the fields the class
  defines itself. Listeners belong to the embedding program: they are the \<open>env_emit\<close> of that
  configuration. \<open>None\<close> is a run that does not return.
\<close>

section \<open>State\<close>

record model_ref =
  mo_api :: string
  mo_provider :: string
  mo_id :: string

record agent =
  ag_messages :: "agent_message list"
  ag_tools :: "agent_tool list"
  ag_model :: model_ref
  ag_thinkingLevel :: string
  ag_isStreaming :: bool
  ag_streamingMessage :: "agent_message option"
  ag_pendingToolCalls :: "string list"
  ag_errorMessage :: "string option"
  ag_steeringQueue :: "agent_message pending_queue"
  ag_followUpQueue :: "agent_message pending_queue"
  ag_activeRun :: "bool option" \<comment> \<open>the aborted flag of the active run\<close>

definition createAgent ::
  "string option \<Rightarrow> agent_tool list \<Rightarrow> agent_message list \<Rightarrow> model_ref \<Rightarrow> string option \<Rightarrow> queue_mode \<Rightarrow> queue_mode \<Rightarrow> agent" where
  "createAgent systemPrompt tools messages model thinkingLevel steeringMode followUpMode =
     (let initialMessage = createInitialSystemMessage systemPrompt (Some (map toToolDeclaration tools));
          messages' = (case (getInitialSystemMessage messages, initialMessage) of
                         (None, Some m) \<Rightarrow> System m # messages | _ \<Rightarrow> messages)
      in \<lparr>ag_messages = messages', ag_tools = tools, ag_model = model,
          ag_thinkingLevel = (case thinkingLevel of None \<Rightarrow> ''off'' | Some l \<Rightarrow> l),
          ag_isStreaming = False, ag_streamingMessage = None, ag_pendingToolCalls = [], ag_errorMessage = None,
          ag_steeringQueue = \<lparr>pq_messages = [], pq_mode = steeringMode\<rparr>,
          ag_followUpQueue = \<lparr>pq_messages = [], pq_mode = followUpMode\<rparr>, ag_activeRun = None\<rparr>)"

section \<open>Queues\<close>

definition steer :: "agent_message \<Rightarrow> agent \<Rightarrow> agent" where
  "steer m a = a\<lparr>ag_steeringQueue := pq_enqueue m (ag_steeringQueue a)\<rparr>"

definition followUp :: "agent_message \<Rightarrow> agent \<Rightarrow> agent" where
  "followUp m a = a\<lparr>ag_followUpQueue := pq_enqueue m (ag_followUpQueue a)\<rparr>"

definition clearAllQueues :: "agent \<Rightarrow> agent" where
  "clearAllQueues a =
     a\<lparr>ag_steeringQueue := pq_clear (ag_steeringQueue a), ag_followUpQueue := pq_clear (ag_followUpQueue a)\<rparr>"

definition hasQueuedMessages :: "agent \<Rightarrow> bool" where
  "hasQueuedMessages a \<longleftrightarrow> pq_hasItems (ag_steeringQueue a) \<or> pq_hasItems (ag_followUpQueue a)"

definition peekQueuedMessages :: "agent \<Rightarrow> agent_message list" where
  "peekQueuedMessages a =
     (let steering = pq_peek (ag_steeringQueue a)
      in if 0 < length steering then steering else pq_peek (ag_followUpQueue a))"

definition abortRun :: "agent \<Rightarrow> agent" where
  "abortRun a = a\<lparr>ag_activeRun := map_option (\<lambda>_. True) (ag_activeRun a)\<rparr>"

definition resetAgent :: "agent \<Rightarrow> agent js_result" where
  "resetAgent a =
     (if ag_activeRun a \<noteq> None
      then Inl (JsError ''Agent is already processing. Wait for completion before resetting.'')
      else Inr (clearAllQueues
             (a\<lparr>ag_messages := (case getCurrentSystemMessage (ag_messages a) of None \<Rightarrow> [] | Some b \<Rightarrow> [System b]),
                ag_isStreaming := False, ag_streamingMessage := None, ag_pendingToolCalls := [], ag_errorMessage := None\<rparr>)))"

section \<open>Events\<close>

text \<open>The \<open>switch\<close> of \<open>processEvents\<close>.\<close>

fun reduceEvent :: "agent_event \<Rightarrow> agent \<Rightarrow> agent" where
  "reduceEvent (MessageStart m) a = a\<lparr>ag_streamingMessage := Some m\<rparr>"
| "reduceEvent (MessageUpdate m) a = a\<lparr>ag_streamingMessage := Some m\<rparr>"
| "reduceEvent (MessageEnd m) a = a\<lparr>ag_streamingMessage := None, ag_messages := ag_messages a @ [m]\<rparr>"
| "reduceEvent (ToolExecutionStart i _ _) a = a\<lparr>ag_pendingToolCalls := List.insert i (ag_pendingToolCalls a)\<rparr>"
| "reduceEvent (ToolExecutionEnd i _ _ _) a = a\<lparr>ag_pendingToolCalls := removeAll i (ag_pendingToolCalls a)\<rparr>"
| "reduceEvent (TurnEnd m _) a =
     (case am_errorMessage m of
        None \<Rightarrow> a | Some e \<Rightarrow> if e = [] then a else a\<lparr>ag_errorMessage := Some e\<rparr>)"
| "reduceEvent (AgentEnd _) a = a\<lparr>ag_streamingMessage := None\<rparr>"
| "reduceEvent _ a = a"

section \<open>Runs\<close>

record 'u agent_world =
  aw_agent :: agent
  aw_skipInitialSteeringPoll :: bool
  aw_user :: 'u

definition onAgent :: "(agent \<Rightarrow> 'a \<times> agent) \<Rightarrow> 'u agent_world \<Rightarrow> 'a \<times> 'u agent_world" where
  "onAgent f w = (let (x, a) = f (aw_agent w) in (x, w\<lparr>aw_agent := a\<rparr>))"

definition drainSteering :: "agent \<Rightarrow> agent_message list \<times> agent" where
  "drainSteering a = (let (ms, q) = pq_drain (ag_steeringQueue a) in (ms, a\<lparr>ag_steeringQueue := q\<rparr>))"

definition drainFollowUps :: "agent \<Rightarrow> agent_message list \<times> agent" where
  "drainFollowUps a = (let (ms, q) = pq_drain (ag_followUpQueue a) in (ms, a\<lparr>ag_followUpQueue := q\<rparr>))"

definition createLoopConfig ::
  "('u agent_world, 'x) loop_config_scheme \<Rightarrow> ('u agent_world, 'x) loop_config_scheme" where
  "createLoopConfig base =
     base\<lparr>env_emit := (\<lambda>ev w. env_emit base ev (w\<lparr>aw_agent := reduceEvent ev (aw_agent w)\<rparr>)),
          env_aborted := (\<lambda>w. ag_activeRun (aw_agent w) = Some True),
          cfg_getSteeringMessages := (\<lambda>w.
            if aw_skipInitialSteeringPoll w then ([], w\<lparr>aw_skipInitialSteeringPoll := False\<rparr>)
            else onAgent drainSteering w),
          cfg_getFollowUpMessages := onAgent drainFollowUps\<rparr>"

definition createContextSnapshot :: "agent \<Rightarrow> agent_context" where
  "createContextSnapshot a = \<lparr>ctx_messages = ag_messages a, ctx_tools = Some (ag_tools a)\<rparr>"

definition reasoningOf :: "agent \<Rightarrow> string option" where
  "reasoningOf a = (if ag_thinkingLevel a = ''off'' then None else Some (ag_thinkingLevel a))"

definition emptyUsage :: usage where
  "emptyUsage = \<lparr>u_input = 0, u_output = 0, u_cacheRead = 0, u_cacheWrite = 0, u_cacheWrite1h = None, u_reasoning = None,
     u_totalTokens = 0, u_cost = \<lparr>co_input = 0, co_output = 0, co_cacheRead = 0, co_cacheWrite = 0, co_total = 0\<rparr>\<rparr>"

definition failureMessage :: "js_error \<Rightarrow> bool \<Rightarrow> agent \<Rightarrow> int \<Rightarrow> assistant_message" where
  "failureMessage err aborted a now =
     \<lparr>am_content = [plainText []], am_api = mo_api (ag_model a), am_provider = mo_provider (ag_model a),
      am_model = mo_id (ag_model a), am_usage = Some emptyUsage,
      am_stopReason = (if aborted then StopAborted else StopError), am_errorMessage = Some (errorText err),
      am_timestamp = now, am_rest = []\<rparr>"

text \<open>\<open>handleRunFailure\<close>: the events a failed run still owes its listeners.\<close>

definition failureEvents :: "assistant_message \<Rightarrow> agent_event list" where
  "failureEvents m = [MessageStart (Assistant m), MessageEnd (Assistant m), TurnEnd m [], AgentEnd [Assistant m]]"

definition handleRunFailure ::
  "('u agent_world, 'x) loop_config_scheme \<Rightarrow> js_error \<Rightarrow> 'u agent_world \<Rightarrow> 'u agent_world" where
  "handleRunFailure base err w =
     (let m = failureMessage err (ag_activeRun (aw_agent w) = Some True) (aw_agent w) (env_now base w)
      in fold (env_emit (createLoopConfig base)) (failureEvents m) w)"

definition finishRun :: "agent \<Rightarrow> agent" where
  "finishRun a = a\<lparr>ag_isStreaming := False, ag_streamingMessage := None, ag_pendingToolCalls := [], ag_activeRun := None\<rparr>"

definition beginRun :: "agent \<Rightarrow> agent" where
  "beginRun a = a\<lparr>ag_activeRun := Some False, ag_isStreaming := True, ag_streamingMessage := None, ag_errorMessage := None\<rparr>"

definition runWithLifecycle ::
  "('u agent_world, 'x) loop_config_scheme \<Rightarrow> ('u agent_world \<Rightarrow> (unit js_result \<times> 'u agent_world) option)
   \<Rightarrow> 'u agent_world \<Rightarrow> (unit js_result \<times> 'u agent_world) option" where
  "runWithLifecycle base executor w =
     (if ag_activeRun (aw_agent w) \<noteq> None then Some (Inl (JsError ''Agent is already processing.''), w)
      else map_option (\<lambda>(r, w1).
             let w2 = (case r of Inr _ \<Rightarrow> w1 | Inl err \<Rightarrow> handleRunFailure base err w1)
             in (Inr (), w2\<lparr>aw_agent := finishRun (aw_agent w2)\<rparr>))
           (executor (w\<lparr>aw_agent := beginRun (aw_agent w)\<rparr>)))"

definition runPromptMessages ::
  "('u agent_world, 'x) loop_config_scheme \<Rightarrow> agent_message list \<Rightarrow> bool \<Rightarrow> 'u agent_world \<Rightarrow> (unit js_result \<times> 'u agent_world) option" where
  "runPromptMessages base messages skip w =
     runWithLifecycle base (\<lambda>w1.
         map_option (\<lambda>v. (Inr (), ls_world (lv_state v)))
           (runAgentLoop (createLoopConfig base) messages (createContextSnapshot (aw_agent w1)) (mo_id (ag_model (aw_agent w1)))
              (reasoningOf (aw_agent w1)) \<lparr>ls_world = w1\<lparr>aw_skipInitialSteeringPoll := skip\<rparr>, ls_events = []\<rparr>)) w"

definition runContinuation ::
  "('u agent_world, 'x) loop_config_scheme \<Rightarrow> 'u agent_world \<Rightarrow> (unit js_result \<times> 'u agent_world) option" where
  "runContinuation base w =
     runWithLifecycle base (\<lambda>w1.
         map_option (\<lambda>r. case r of Inl err \<Rightarrow> (Inl err, w1) | Inr v \<Rightarrow> (Inr (), ls_world (lv_state v)))
           (runAgentLoopContinue (createLoopConfig base) (createContextSnapshot (aw_agent w1)) (mo_id (ag_model (aw_agent w1)))
              (reasoningOf (aw_agent w1)) \<lparr>ls_world = w1\<lparr>aw_skipInitialSteeringPoll := False\<rparr>, ls_events = []\<rparr>)) w"

datatype prompt_input = PromptText string "content_block list" | PromptMessage agent_message | PromptMessages "agent_message list"

fun normalizePromptInput :: "prompt_input \<Rightarrow> int \<Rightarrow> agent_message list" where
  "normalizePromptInput (PromptMessages ms) now = ms"
| "normalizePromptInput (PromptMessage m) now = [m]"
| "normalizePromptInput (PromptText t images) now =
     [User \<lparr>um_content = ContentBlocks (plainText t # images), um_timestamp = now\<rparr>]"

definition prompt ::
  "('u agent_world, 'x) loop_config_scheme \<Rightarrow> prompt_input \<Rightarrow> 'u agent_world \<Rightarrow> (unit js_result \<times> 'u agent_world) option" where
  "prompt base input w =
     (if ag_activeRun (aw_agent w) \<noteq> None
      then Some (Inl (JsError ''Agent is already processing a prompt. Use steer() or followUp() to queue messages, or wait for completion.''), w)
      else runPromptMessages base (normalizePromptInput input (env_now base w)) False w)"

definition continueRun ::
  "('u agent_world, 'x) loop_config_scheme \<Rightarrow> 'u agent_world \<Rightarrow> (unit js_result \<times> 'u agent_world) option" where
  "continueRun base w =
     (let a = aw_agent w in
      if ag_activeRun a \<noteq> None
      then Some (Inl (JsError ''Agent is already processing. Wait for completion before continuing.''), w)
      else if ag_messages a = [] \<or> list_all isSystem (ag_messages a)
      then Some (Inl (JsError ''No messages to continue from''), w)
      else if isAssistant (last (ag_messages a)) then
        (let (steering, a1) = drainSteering a; w1 = w\<lparr>aw_agent := a1\<rparr> in
         if 0 < length steering then runPromptMessages base steering True w1
         else let (followUps, a2) = drainFollowUps a1; w2 = w1\<lparr>aw_agent := a2\<rparr> in
              if 0 < length followUps then runPromptMessages base followUps False w2
              else Some (Inl (JsError ''Cannot continue from message role: assistant''), w2))
      else runContinuation base w)"

section \<open>What the hooks of a run leave alone\<close>

text \<open>
  \<open>tracks cfg g step\<close>: a listener changes the part \<open>g\<close> of the world by \<open>step\<close>, every other hook leaves it
  alone. Then \<open>g\<close> is, at every moment of a run, the fold of \<open>step\<close> over the events emitted so far.
\<close>

definition tracksTools :: "('w, 'x) loop_env_scheme \<Rightarrow> ('w \<Rightarrow> 'a) \<Rightarrow> (agent_event \<Rightarrow> 'a \<Rightarrow> 'a) \<Rightarrow> bool" where
  "tracksTools env g step \<longleftrightarrow>
     (\<forall>ev w. g (env_emit env ev w) = step ev (g w)) \<and>
     (\<forall>t i args w. g (snd (env_execute env t i args w)) = g w) \<and>
     (\<forall>f. env_beforeToolCall env = Some f \<longrightarrow> (\<forall>am tc args ctx w. g (snd (f am tc args ctx w)) = g w)) \<and>
     (\<forall>f. env_afterToolCall env = Some f \<longrightarrow> (\<forall>am tc args r b ctx w. g (snd (f am tc args r b ctx w)) = g w))"

definition tracks :: "('w, 'x) loop_config_scheme \<Rightarrow> ('w \<Rightarrow> 'a) \<Rightarrow> (agent_event \<Rightarrow> 'a \<Rightarrow> 'a) \<Rightarrow> bool" where
  "tracks cfg g step \<longleftrightarrow>
     tracksTools cfg g step \<and>
     (\<forall>ms w. g (snd (cfg_transformContext cfg ms w)) = g w) \<and>
     (\<forall>m r ms w. g (snd (cfg_stream cfg m r ms w)) = g w) \<and>
     (\<forall>w. g (snd (cfg_getSteeringMessages cfg w)) = g w) \<and>
     (\<forall>w. g (snd (cfg_getFollowUpMessages cfg w)) = g w) \<and>
     (\<forall>t w. g (snd (cfg_getContextStatusMessages cfg t w)) = g w) \<and>
     (\<forall>t w. g (snd (cfg_prepareNextTurn cfg t w)) = g w) \<and>
     (\<forall>ctx m r w. g (snd (cfg_prepareRequest cfg ctx m r w)) = g w) \<and>
     (\<forall>t w. g (snd (cfg_finishTurn cfg t w)) = g w)"

abbreviation agrees :: "('w \<Rightarrow> 'a) \<Rightarrow> (agent_event \<Rightarrow> 'a \<Rightarrow> 'a) \<Rightarrow> 'a \<Rightarrow> 'w loop_state \<Rightarrow> bool" where
  "agrees g step x s \<equiv> g (ls_world s) = fold step (ls_events s) x"

lemma agrees_emit: "tracksTools env g step \<Longrightarrow> agrees g step x s \<Longrightarrow> agrees g step x (emit env ev s)"
  by (simp add: emit_def tracksTools_def)

lemma agrees_emits:
  assumes "tracksTools env g step" and "agrees g step x s"
  shows "agrees g step x (emitToolExecutionStart env tc s)" "agrees g step x (emitToolExecutionEnd env f s)"
    "agrees g step x (emitUpdate env tc r s)" "agrees g step x (emitToolResultMessage env m s)"
  using agrees_emit [OF assms(1)] assms(2) by (simp_all add: emits)

lemma agrees_updates:
  assumes "tracksTools env g step"
  shows "agrees g step x s \<Longrightarrow> agrees g step x (fold (emitUpdate env tc) us s)"
  by (induction us arbitrary: s) (simp_all add: agrees_emits [OF assms])

lemma hooks_world:
  assumes "tracksTools env g step"
  shows "g (snd (env_execute env t i args w)) = g w"
    "g (snd (prepareToolCall env ctx am tc w)) = g w"
    "g (snd (finalizeExecutedToolCall env ctx am tc args executed w)) = g w"
proof -
  note h = assms [unfolded tracksTools_def]
  show "g (snd (env_execute env t i args w)) = g w" using h by blast
  have b: "g w' = g w" if "env_beforeToolCall env = Some f" "f am tc' args' ctx w = (x, w')" for f tc' args' x w'
    using h that by (metis snd_conv)
  show "g (snd (prepareToolCall env ctx am tc w)) = g w"
    by (auto simp: prepareToolCall_def split: option.splits sum.splits prod.splits dest: b)
  have a: "g w' = g w" if "env_afterToolCall env = Some f" "f am tc args r e ctx w = (x, w')" for f r e x w'
    using h that by (metis snd_conv)
  show "g (snd (finalizeExecutedToolCall env ctx am tc args executed w)) = g w"
    by (auto simp: finalizeExecutedToolCall_def Let_def split: option.splits sum.splits prod.splits dest: a)
qed

lemma agrees_truncated:
  assumes "tracksTools env g step"
  shows "agrees g step x s \<Longrightarrow> agrees g step x (snd (failToolCallsFromTruncatedMessage env tcs s))"
  by (induction tcs arbitrary: s) (simp_all add: Let_def case_prod_beta agrees_emits [OF assms])

lemma agrees_runOne:
  assumes "tracksTools env g step" and "agrees g step x s"
  shows "agrees g step x (snd (runOneSequential env ctx am tc s))"
proof -
  let ?s1 = "emitToolExecutionStart env tc s"
  obtain prep w where p: "prepareToolCall env ctx am tc (ls_world ?s1) = (prep, w)" by force
  have 2: "agrees g step x (?s1\<lparr>ls_world := w\<rparr>)"
    using agrees_emits(1) [OF assms] hooks_world(2) [OF assms(1), of ctx am tc "ls_world ?s1"] p by simp
  show ?thesis
  proof (cases prep)
    case (Immediate r b)
    then show ?thesis using p 2 by (simp add: runOneSequential_def Let_def)
  next
    case (Prepared tc' tool args)
    obtain run w2 where e: "env_execute env tool (tc_id tc') args w = (run, w2)" by force
    let ?s3 = "fold (emitUpdate env tc') (tn_updates run) (?s1\<lparr>ls_world := w2\<rparr>)"
    have "g w2 = g w" using hooks_world(1) [OF assms(1), of tool "tc_id tc'" args w] e by simp
    then have "agrees g step x (?s1\<lparr>ls_world := w2\<rparr>)" using 2 by simp
    then have "agrees g step x ?s3" by (rule agrees_updates [OF assms(1)])
    then show ?thesis using p e Prepared hooks_world(3) [OF assms(1), of ctx am tc' args "executedOutcome run" "ls_world ?s3"]
      by (simp add: runOneSequential_def executePreparedToolCall_def Let_def case_prod_beta)
  qed
qed

lemma agrees_sequentialLoop:
  assumes "tracksTools env g step"
  shows "agrees g step x s \<Longrightarrow> agrees g step x (snd (sequentialLoop env ctx am tcs s))"
proof (induction tcs arbitrary: s)
  case (Cons tc tcs)
  have "agrees g step x (snd (runOneSequential env ctx am tc s))" by (rule agrees_runOne [OF assms Cons.prems])
  then show ?case using Cons.IH by (simp add: Let_def case_prod_beta agrees_emits [OF assms])
qed simp

lemma agrees_parallelPrepare:
  assumes "tracksTools env g step"
  shows "agrees g step x s \<Longrightarrow> agrees g step x (snd (parallelPrepare env ctx am tcs s))"
proof (induction tcs arbitrary: s)
  case (Cons tc tcs)
  let ?s1 = "emitToolExecutionStart env tc s"
  obtain prep w where p: "prepareToolCall env ctx am tc (ls_world ?s1) = (prep, w)" by force
  have 2: "agrees g step x (?s1\<lparr>ls_world := w\<rparr>)"
    using agrees_emits(1) [OF assms Cons.prems] hooks_world(2) [OF assms, of ctx am tc "ls_world ?s1"] p by simp
  show ?case using p 2 agrees_emits(2) [OF assms 2] Cons.IH
    by (cases prep) (simp_all add: Let_def case_prod_beta)
qed simp

lemma agrees_taskStep:
  assumes "tracksTools env g step" and "agrees g step x s"
  shows "agrees g step x (snd (taskStep env ctx am t s))"
proof (cases "(env, ctx, am, t, s)" rule: taskStep.cases)
  case (2 env' ctx' am' tc tool args s')
  then show ?thesis using assms hooks_world(1) [OF assms(1), of tool "tc_id tc" args "ls_world s"]
    by (simp add: Let_def case_prod_beta agrees_emits)
next
  case (4 env' ctx' am' tc args executed s')
  let ?fw = "finalizeExecutedToolCall env ctx am tc args executed (ls_world s)"
  have "agrees g step x (s\<lparr>ls_world := snd ?fw\<rparr>)" using assms hooks_world(3) [OF assms(1)] by simp
  then show ?thesis using 4 agrees_emits(2) [OF assms(1)] by (simp add: Let_def case_prod_beta)
qed (use assms agrees_emits in simp_all)

lemma agrees_runSchedule:
  assumes "tracksTools env g step"
  shows "agrees g step x s \<Longrightarrow> agrees g step x (snd (runSchedule env ctx am is ts s))"
proof (induction "is" arbitrary: ts s)
  case (Cons i "is")
  then show ?case using Cons.IH [OF agrees_taskStep [OF assms Cons.prems, of ctx am "ts ! i"]] Cons.IH [OF Cons.prems]
    by (simp add: case_prod_beta)
qed simp

lemma agrees_emitResults:
  assumes "tracksTools env g step"
  shows "agrees g step x s \<Longrightarrow> agrees g step x (snd (emitResults env fs s))"
  by (induction fs arbitrary: s) (simp_all add: Let_def case_prod_beta agrees_emits [OF assms])

lemma agrees_executeToolCalls:
  assumes t: "tracksTools env g step" and a: "agrees g step x s" and "executeToolCalls env ctx am s = Some (b, s')"
  shows "agrees g step x s'"
proof -
  let ?tcs = "toolCallsOf (am_content am)"
  consider "executeToolCallsSequential env ctx am ?tcs s = (b, s')" | "executeToolCallsParallel env ctx am ?tcs s = Some (b, s')"
    using assms(3) by (auto simp: executeToolCalls_def Let_def split: if_splits)
  then show ?thesis
  proof cases
    case 1
    then show ?thesis using agrees_sequentialLoop [OF t a, of ctx am ?tcs] by (auto simp: executeToolCallsSequential_def split: prod.splits)
  next
    case 2
    obtain ts s1 where p: "parallelPrepare env ctx am ?tcs s = (ts, s1)" by force
    obtain ts' s2 where r: "runSchedule env ctx am (env_schedule env (ls_world s1)) ts s1 = (ts', s2)" by force
    obtain fs where f: "allSettled ts' = Some fs" using 2 p r by (auto simp: executeToolCallsParallel_def split: option.splits)
    have "agrees g step x s1" using agrees_parallelPrepare [OF t a, of ctx am ?tcs] p by simp
    then have "agrees g step x s2" using agrees_runSchedule [OF t, where s = s1 and ctx = ctx and am = am and ts = ts] r by (metis snd_conv)
    then have "agrees g step x (snd (emitResults env fs s2))" by (rule agrees_emitResults [OF t])
    then show ?thesis using 2 p r f by (auto simp: executeToolCallsParallel_def split: prod.splits)
  qed
qed

text \<open>The steps of the loop.\<close>

abbreviation agreesV :: "('w \<Rightarrow> 'a) \<Rightarrow> (agent_event \<Rightarrow> 'a \<Rightarrow> 'a) \<Rightarrow> 'a \<Rightarrow> 'w loop_vars \<Rightarrow> bool" where
  "agreesV g step x v \<equiv> agrees g step x (lv_state v)"

lemma tracks_tools: "tracks cfg g step \<Longrightarrow> tracksTools cfg g step"
  by (simp add: tracks_def)

lemma agrees_hook: "(\<And>w. g (snd (f w)) = g w) \<Longrightarrow> agreesV g step x v \<Longrightarrow> agreesV g step x (snd (hook f v))"
  by (simp add: hook_def case_prod_beta)

lemma tracks_hooks:
  assumes "tracks cfg g step"
  shows "g (snd (cfg_transformContext cfg ms w)) = g w" "g (snd (cfg_stream cfg m r ms w)) = g w"
    "g (snd (cfg_getSteeringMessages cfg w)) = g w" "g (snd (cfg_getFollowUpMessages cfg w)) = g w"
    "g (snd (cfg_getContextStatusMessages cfg t w)) = g w" "g (snd (cfg_prepareNextTurn cfg t w)) = g w"
    "g (snd (cfg_prepareRequest cfg ctx mo re w)) = g w" "g (snd (cfg_finishTurn cfg t w)) = g w"
  using assms unfolding tracks_def by blast+

lemma agrees_emitV: "tracks cfg g step \<Longrightarrow> agreesV g step x v \<Longrightarrow> agreesV g step x (emitV cfg ev v)"
  using agrees_emit [OF tracks_tools] by (simp add: emitV_def)

lemma applyUpdate_state [simp]: "lv_state (applyUpdate u v) = lv_state v"
  by (simp add: applyUpdate_def)

lemma agrees_beginTurn:
  assumes t: "tracks cfg g step" and a: "agreesV g step x v"
  shows "agreesV g step x (snd (beginTurn cfg v))"
proof (cases "lv_lastCompletedTurn v")
  case None
  then show ?thesis using a by (simp add: beginTurn_def)
next
  case (Some tn)
  let ?h = "hook (cfg_prepareNextTurn cfg tn) v"
  define v2 where "v2 = (case fst ?h of None \<Rightarrow> snd ?h | Some u \<Rightarrow> applyUpdate u (snd ?h))"
  have 2: "agreesV g step x v2"
    using agrees_hook [OF tracks_hooks(6) [OF t] a] by (simp add: v2_def split: option.split)
  define v3 where "v3 = (if lv_pendingMessages v2 = []
      then let (ms, v') = hook (cfg_getSteeringMessages cfg) v2 in v'\<lparr>lv_pendingMessages := ms\<rparr> else v2)"
  have 3: "agreesV g step x v3"
    using agrees_hook [OF tracks_hooks(3) [OF t] 2] 2 by (simp add: v3_def case_prod_beta)
  have "snd (beginTurn cfg v) = emitV cfg TurnStart (if lv_pendingContextStatus v3 \<noteq> []
      then v3\<lparr>lv_pendingMessages := lv_pendingMessages v3 @ lv_pendingContextStatus v3, lv_pendingContextStatus := []\<rparr> else v3)"
    using Some unfolding beginTurn_def v3_def v2_def by (simp add: Let_def case_prod_beta)
  then show ?thesis using agrees_emitV [OF t] 3 by simp
qed

lemma agrees_inject:
  assumes t: "tracks cfg g step" and a: "agreesV g step x v"
  shows "agreesV g step x (injectPending cfg prepared v)"
proof -
  have "agreesV g step x v \<Longrightarrow> agreesV g step x (fold (deliver cfg) ms v)" for ms v
    by (induction ms arbitrary: v) (simp_all add: deliver_def Let_def agrees_emitV [OF t])
  from this [OF a] show ?thesis by (simp add: injectPending_def)
qed

lemma agrees_request:
  assumes t: "tracks cfg g step" and a: "agreesV g step x v"
  shows "agreesV g step x (prepareRequestStep cfg v)"
  using agrees_hook [OF tracks_hooks(7) [OF t] a]
  by (simp add: prepareRequestStep_def Let_def case_prod_beta split: option.split)

lemma agrees_consumeStream:
  assumes "tracksTools env g step"
  shows "agrees g step x s \<Longrightarrow> agrees g step x (snd (consumeStream env final evs b ctx s))"
  using assms
  by (induction env final evs b ctx s rule: consumeStream.induct) (simp_all add: finishResponse_def Let_def agrees_emit)

lemma agrees_respond:
  assumes t: "tracks cfg g step" and a: "agreesV g step x v"
  shows "agreesV g step x (snd (respond cfg v))"
proof -
  obtain ms w1 where 1: "cfg_transformContext cfg (ctx_messages (lv_context v)) (ls_world (lv_state v)) = (ms, w1)" by force
  obtain evs final w2 where 2: "cfg_stream cfg (lv_model v) (lv_reasoning v) (normalizeContext None (cfg_convertToLlm cfg ms) None) w1
      = ((evs, final), w2)" by (metis prod.exhaust)
  have "g w2 = g (ls_world (lv_state v))" using tracks_hooks(1,2) [OF t] 1 2 by (metis snd_conv)
  then have "agrees g step x ((lv_state v)\<lparr>ls_world := w2\<rparr>)" using a by simp
  from agrees_consumeStream [OF tracks_tools [OF t] this, of final evs False "lv_context v"]
  show ?thesis using 1 2 by (simp add: respond_def streamAssistantResponse_def Let_def case_prod_beta)
qed

lemma agrees_runTools:
  assumes t: "tracks cfg g step" and a: "agreesV g step x v" and r: "runTools cfg m v = Some (b, v')"
  shows "agreesV g step x v'"
proof (cases "toolCallsOf (am_content m) = [] \<or> am_stopReason m = Length")
  case True
  then show ?thesis using r a agrees_truncated [OF tracks_tools [OF t] a, of "toolCallsOf (am_content m)"]
    by (auto simp: runTools_def Let_def split: if_splits prod.splits)
next
  case False
  obtain s where "executeToolCalls cfg (lv_context v) m (lv_state v) = Some (b, s)" "lv_state v' = s"
    using r False by (auto simp: runTools_def Let_def)
  then show ?thesis using agrees_executeToolCalls [OF tracks_tools [OF t] a] by simp
qed

lemma agrees_finishTurn:
  assumes t: "tracks cfg g step" and a: "agreesV g step x v"
  shows "agreesV g step x (snd (finishTurnStep cfg m rs b v))"
proof -
  let ?t = "turnOf m rs b v"
  have "agreesV g step x (v\<lparr>lv_lastCompletedTurn := Some ?t\<rparr>)" using a by simp
  from agrees_emitV [OF t agrees_hook [OF tracks_hooks(8) [OF t] this]] show ?thesis
    by (simp add: finishTurnStep_def Let_def case_prod_beta)
qed

lemma agrees_pollQueues:
  assumes t: "tracks cfg g step" and a: "agreesV g step x v"
  shows "agreesV g step x (pollQueues cfg tn b v)"
proof -
  let ?h = "hook (cfg_getSteeringMessages cfg) (v\<lparr>lv_explicitContinuation := b\<rparr>)"
  have "agreesV g step x (v\<lparr>lv_explicitContinuation := b\<rparr>)" using a by simp
  from agrees_hook [OF tracks_hooks(3) [OF t] this]
  have "agreesV g step x ((snd ?h)\<lparr>lv_pendingMessages := fst ?h\<rparr>)" by simp
  from agrees_hook [OF tracks_hooks(5) [OF t, of tn] this] show ?thesis
    by (simp add: pollQueues_def Let_def case_prod_beta)
qed

lemma agrees_iteration:
  assumes t: "tracks cfg g step" and a: "agreesV g step x v" and it: "iteration cfg v = Some r"
  shows "agreesV g step x (case r of Inl v' \<Rightarrow> v' | Inr v' \<Rightarrow> v')"
proof -
  obtain prepared v1 where b: "beginTurn cfg v = (prepared, v1)" by force
  let ?v2 = "prepareRequestStep cfg (injectPending cfg prepared v1)"
  obtain m v3 where m: "respond cfg ?v2 = (m, v3)" by force
  have "agreesV g step x v1" using agrees_beginTurn [OF t a] b by simp
  then have "agreesV g step x ?v2" by (intro agrees_request [OF t] agrees_inject [OF t])
  from agrees_respond [OF t this] have 3: "agreesV g step x v3" unfolding m by simp
  have endRun: "agreesV g step x (endRun cfg v')" if "agreesV g step x v'" for v'
    unfolding endRun_def by (rule agrees_emitV [OF t that])
  show ?thesis
  proof (cases "am_stopReason m = StopError \<or> am_stopReason m = StopAborted")
    case True
    then have "r = Inl (endRun cfg (snd (finishTurnStep cfg m [] False v3)))" using it b m by (simp add: iteration_def Let_def)
    then show ?thesis using endRun [OF agrees_finishTurn [OF t 3]] by simp
  next
    case False
    obtain bt v4 where rt: "runTools cfg m v3 = Some (bt, v4)" using it b m False by (auto simp: iteration_def)
    have 4: "agreesV g step x v4" by (rule agrees_runTools [OF t 3 rt])
    obtain d v5 where f: "finishTurnStep cfg m (eb_messages bt) (eb_terminate bt) v4 = (d, v5)" by force
    from agrees_finishTurn [OF t 4, of m "eb_messages bt" "eb_terminate bt"] have 5: "agreesV g step x v5" unfolding f by simp
    have "r = (if d = Some EndRun then Inl (endRun cfg v5)
        else Inr (pollQueues cfg (turnOf m (eb_messages bt) (eb_terminate bt) v4) (d = Some ContinueTurn) v5))"
      using it b m False rt f by (simp add: iteration_def Let_def)
    then show ?thesis using endRun [OF 5] agrees_pollQueues [OF t 5] by simp
  qed
qed

lemma agrees_runLoop:
  assumes "runLoop cfg v = Some v'"
  shows "tracks cfg g step \<longrightarrow> agreesV g step x v \<longrightarrow> agreesV g step x v'"
proof (rule runLoop.raw_induct [where P = "\<lambda>cfg v v'. tracks cfg g step \<longrightarrow> agreesV g step x v \<longrightarrow> agreesV g step x v'",
    OF _ assms], intro impI)
  fix f and cfg :: "('a, 'b) loop_config_scheme" and v v'
  assume IH: "\<And>cfg v v'. f cfg v = Some v' \<Longrightarrow> tracks cfg g step \<longrightarrow> agreesV g step x v \<longrightarrow> agreesV g step x v'"
    and eq: "(if lv_hasMoreToolCalls v \<or> lv_pendingMessages v \<noteq> [] then
        (case iteration cfg v of None \<Rightarrow> None | Some r \<Rightarrow> (case r of Inl v' \<Rightarrow> Some v' | Inr v' \<Rightarrow> f cfg v'))
      else
        (let (followUp, v1) = hook (cfg_getFollowUpMessages cfg) v in
         if followUp \<noteq> []
         then f cfg (v1\<lparr>lv_explicitContinuation := False, lv_pendingMessages := followUp, lv_hasMoreToolCalls := True\<rparr>)
         else if lv_explicitContinuation v1
         then f cfg (v1\<lparr>lv_explicitContinuation := False, lv_hasMoreToolCalls := True\<rparr>)
         else Some (endRun cfg v1))) = Some v'"
    and t: "tracks cfg g step" and a: "agreesV g step x v"
  show "agreesV g step x v'"
  proof (cases "lv_hasMoreToolCalls v \<or> lv_pendingMessages v \<noteq> []")
    case True
    then obtain r where r: "iteration cfg v = Some r" "(case r of Inl v' \<Rightarrow> Some v' | Inr v' \<Rightarrow> f cfg v') = Some v'"
      using eq by (auto split: option.splits)
    then show ?thesis using agrees_iteration [OF t a r(1)] IH t by (cases r) auto
  next
    case False
    obtain fu v1 where h: "hook (cfg_getFollowUpMessages cfg) v = (fu, v1)" by force
    have 1: "agreesV g step x v1" using agrees_hook [OF tracks_hooks(4) [OF t] a] h by simp
    consider (again) v2 where "f cfg v2 = Some v'" "lv_state v2 = lv_state v1" | (stop) "v' = endRun cfg v1"
    proof (cases "fu \<noteq> [] \<or> lv_explicitContinuation v1")
      case True
      let ?v2 = "if fu \<noteq> [] then v1\<lparr>lv_explicitContinuation := False, lv_pendingMessages := fu, lv_hasMoreToolCalls := True\<rparr>
        else v1\<lparr>lv_explicitContinuation := False, lv_hasMoreToolCalls := True\<rparr>"
      have "f cfg ?v2 = Some v'" using eq False h True by (simp split: if_splits)
      moreover have "lv_state ?v2 = lv_state v1" by simp
      ultimately show thesis by (rule again)
    next
      case stopped: False
      have "v' = endRun cfg v1" using eq False h stopped by simp
      then show thesis by (rule stop)
    qed
    then show ?thesis
    proof cases
      case again
      then show ?thesis using IH [OF again(1)] t 1 by simp
    next
      case stop
      then show ?thesis using agrees_emitV [OF t 1] by (simp add: endRun_def)
    qed
  qed
qed

lemma agrees_runAgentLoop:
  assumes t: "tracks cfg g step" and r: "runAgentLoop cfg prompts ctx model reasoning s = Some v" and "agrees g step x s"
  shows "agreesV g step x v"
proof -
  have an: "agrees g step x s \<Longrightarrow> agrees g step x (fold (announce cfg) ms s)" for ms s
    by (induction ms arbitrary: s) (simp_all add: announce_def agrees_emit [OF tracks_tools [OF t]])
  let ?init = "declareToolChanges ctx prompts (env_now cfg (ls_world s))"
  let ?s1 = "fold (announce cfg) ?init (emit cfg TurnStart (emit cfg AgentStart s))"
  let ?v = "initialVars (ctx\<lparr>ctx_messages := ctx_messages ctx @ ?init\<rparr>) ?init model reasoning ?s1"
  have "agrees g step x ?s1" by (intro an agrees_emit [OF tracks_tools [OF t]] assms(3))
  then have "agreesV g step x ?v" by (simp add: initialVars_def)
  from agrees_hook [OF tracks_hooks(3) [OF t] this] have h: "agreesV g step x (snd (hook (cfg_getSteeringMessages cfg) ?v))" .
  have "runLoop cfg ((snd (hook (cfg_getSteeringMessages cfg) ?v))\<lparr>lv_pendingMessages := fst (hook (cfg_getSteeringMessages cfg) ?v)\<rparr>) = Some v"
    using r by (simp add: runAgentLoop_def startLoop_def Let_def case_prod_beta)
  from agrees_runLoop [OF this, THEN mp, OF t, THEN mp, of x] show ?thesis using h by simp
qed

section \<open>Properties\<close>

text \<open>The embedding program's hooks and listeners do not assign the transcript of the agent themselves.\<close>

definition keepsTranscript :: "('u agent_world, 'x) loop_config_scheme \<Rightarrow> bool" where
  "keepsTranscript base \<longleftrightarrow> tracks base (\<lambda>w. ag_messages (aw_agent w)) (\<lambda>_ ms. ms)"

definition idle :: "agent \<Rightarrow> bool" where
  "idle a \<longleftrightarrow> ag_activeRun a = None \<and> \<not> ag_isStreaming a \<and> ag_streamingMessage a = None \<and> ag_pendingToolCalls a = []"

lemma reduceEvent_messages:
  "ag_messages (reduceEvent ev a) = ag_messages a @ (case messageEnd ev of None \<Rightarrow> [] | Some m \<Rightarrow> [m])"
  by (cases ev) (auto split: option.splits)

lemma drain_messages:
  "ag_messages (snd (drainSteering a)) = ag_messages a" "ag_messages (snd (drainFollowUps a)) = ag_messages a"
  by (simp_all add: drainSteering_def drainFollowUps_def case_prod_beta)

lemma tracks_createLoopConfig:
  assumes "keepsTranscript base"
  shows "tracks (createLoopConfig base) (\<lambda>w. ag_messages (aw_agent w))
           (\<lambda>ev ms. ms @ (case messageEnd ev of None \<Rightarrow> [] | Some m \<Rightarrow> [m]))"
  using assms
  by (simp add: keepsTranscript_def tracks_def tracksTools_def createLoopConfig_def reduceEvent_messages onAgent_def
      drain_messages case_prod_beta)

lemma fold_messageEnd:
  "fold (\<lambda>ev ms. ms @ (case messageEnd ev of None \<Rightarrow> [] | Some m \<Rightarrow> [m])) es x = x @ List.map_filter messageEnd es"
  by (induction es arbitrary: x) (simp_all add: List.map_filter_def split: option.split)

lemma idle_finishRun: "idle (finishRun a)" "ag_messages (finishRun a) = ag_messages a"
  by (simp_all add: idle_def finishRun_def)

lemma failure_transcript:
  assumes "keepsTranscript base"
  shows "ag_messages (aw_agent (handleRunFailure base err w)) = ag_messages (aw_agent w) @
           [Assistant (failureMessage err (ag_activeRun (aw_agent w) = Some True) (aw_agent w) (env_now base w))]"
proof -
  have e: "ag_messages (aw_agent (env_emit (createLoopConfig base) ev w)) =
      ag_messages (aw_agent w) @ (case messageEnd ev of None \<Rightarrow> [] | Some m \<Rightarrow> [m])" for ev w
    using tracks_createLoopConfig [OF assms] by (simp add: tracks_def tracksTools_def)
  show ?thesis by (simp add: handleRunFailure_def failureEvents_def Let_def e)
qed

lemma loop_transcript:
  assumes "keepsTranscript base"
    and r: "runAgentLoop (createLoopConfig base) prompts ctx model reasoning \<lparr>ls_world = w, ls_events = []\<rparr> = Some v"
  shows "ag_messages (aw_agent (ls_world (lv_state v))) = ag_messages (aw_agent w) @ lv_newMessages v"
    "messageEnds (lv_state v) = lv_newMessages v"
proof -
  let ?s = "\<lparr>ls_world = w, ls_events = []\<rparr>"
  have "loopDone (messageEnds ?s) (runEvents ?s @ [AgentStart]) v" by (rule runAgentLoop_done [OF r])
  then show m: "messageEnds (lv_state v) = lv_newMessages v"
    by (simp add: loopDone_def observed_def messageEnds_def List.map_filter_def)
  show "ag_messages (aw_agent (ls_world (lv_state v))) = ag_messages (aw_agent w) @ lv_newMessages v"
    using agrees_runAgentLoop [OF tracks_createLoopConfig [OF assms(1)] r, of "ag_messages (aw_agent w)"] m
    by (simp add: fold_messageEnd messageEnds_def)
qed

text \<open>
  C34 (transcript): the embedding program's hooks and listeners leave the transcript of the agent alone. Then a prompt
  that is started on an idle agent and returns has appended to the transcript exactly the messages the run announced, in order,
  which are the ones the loop returns, and the agent is idle again: no active run, no streaming message, no
  pending tool call. A run whose executor throws has appended one more message, its failure, and leaves the
  agent idle as well.
\<close>

theorem run_extends_transcript:
  assumes "keepsTranscript base" and "ag_activeRun (aw_agent w) = None"
  defines "w1 \<equiv> w\<lparr>aw_agent := beginRun (aw_agent w)\<rparr>"
  shows "(case runPromptMessages base prompts skip w of
            None \<Rightarrow> True
          | Some (r, w') \<Rightarrow>
              r = Inr () \<and> idle (aw_agent w') \<and>
              (\<exists>v. runAgentLoop (createLoopConfig base) prompts (createContextSnapshot (aw_agent w1)) (mo_id (ag_model (aw_agent w1)))
                     (reasoningOf (aw_agent w1)) \<lparr>ls_world = w1\<lparr>aw_skipInitialSteeringPoll := skip\<rparr>, ls_events = []\<rparr> = Some v \<and>
                   ag_messages (aw_agent w') = ag_messages (aw_agent w) @ messageEnds (lv_state v) \<and>
                   messageEnds (lv_state v) = lv_newMessages v)) \<and>
         (\<forall>executor err w2. executor w1 = Some (Inl err, w2) \<longrightarrow>
            (\<exists>w'. runWithLifecycle base executor w = Some (Inr (), w') \<and> idle (aw_agent w') \<and>
               ag_messages (aw_agent w') = ag_messages (aw_agent w2) @
                 [Assistant (failureMessage err (ag_activeRun (aw_agent w2) = Some True) (aw_agent w2) (env_now base w2))]))"
proof (intro conjI allI impI)
  let ?run = "runAgentLoop (createLoopConfig base) prompts (createContextSnapshot (aw_agent w1)) (mo_id (ag_model (aw_agent w1)))
      (reasoningOf (aw_agent w1)) \<lparr>ls_world = w1\<lparr>aw_skipInitialSteeringPoll := skip\<rparr>, ls_events = []\<rparr>"
  have p: "runPromptMessages base prompts skip w = map_option (\<lambda>v. let w2 = ls_world (lv_state v)
      in (Inr (), w2\<lparr>aw_agent := finishRun (aw_agent w2)\<rparr>)) ?run"
    using assms(2) by (simp add: runPromptMessages_def runWithLifecycle_def w1_def option.map_comp comp_def Let_def)
  have b: "ag_messages (aw_agent w1) = ag_messages (aw_agent w)" by (simp add: w1_def beginRun_def)
  show "case runPromptMessages base prompts skip w of
            None \<Rightarrow> True
          | Some (r, w') \<Rightarrow>
              r = Inr () \<and> idle (aw_agent w') \<and>
              (\<exists>v. ?run = Some v \<and> ag_messages (aw_agent w') = ag_messages (aw_agent w) @ messageEnds (lv_state v) \<and>
                   messageEnds (lv_state v) = lv_newMessages v)"
  proof (cases ?run)
    case (Some v)
    then show ?thesis using loop_transcript [OF assms(1) Some] b by (simp add: p Let_def idle_finishRun)
  qed (simp add: p)
  fix executor :: "'a agent_world \<Rightarrow> (unit js_result \<times> 'a agent_world) option" and err w2
  assume "executor w1 = Some (Inl err, w2)"
  then show "\<exists>w'. runWithLifecycle base executor w = Some (Inr (), w') \<and> idle (aw_agent w') \<and>
      ag_messages (aw_agent w') = ag_messages (aw_agent w2) @
        [Assistant (failureMessage err (ag_activeRun (aw_agent w2) = Some True) (aw_agent w2) (env_now base w2))]"
    using assms(2) failure_transcript [OF assms(1), of err w2]
    by (simp add: runWithLifecycle_def w1_def [symmetric] Let_def idle_finishRun)
qed

text \<open>An agent whose model fails at once: the prompt and the failed response are the new transcript.\<close>

definition sampleAgent :: agent where
  "sampleAgent = createAgent None [] [] \<lparr>mo_api = ''a'', mo_provider = ''p'', mo_id = ''m''\<rparr> None OneAtATime OneAtATime"

definition failedAnswer :: assistant_message where
  "failedAnswer = echoAssistant\<lparr>am_content := [], am_stopReason := StopError\<rparr>"

definition failingBase :: "unit agent_world loop_config" where
  "failingBase =
     \<lparr>env_emit = (\<lambda>_ w. w), env_aborted = (\<lambda>_. False), env_now = (\<lambda>_. 0),
      env_prepareArguments = (\<lambda>_. None), env_validate = (\<lambda>_ tc. Inr (tc_arguments tc)),
      env_execute = (\<lambda>t i args w. (\<lparr>tn_updates = [], tn_lateUpdates = [], tn_outcome = Inr (createErrorToolResult i)\<rparr>, w)),
      env_beforeToolCall = None, env_afterToolCall = None, env_toolExecution = None, env_schedule = (\<lambda>_. []),
      cfg_transformContext = (\<lambda>ms w. (ms, w)), cfg_convertToLlm = convertToLlm,
      cfg_stream = (\<lambda>_ _ _ w. (([SFailed], failedAnswer), w)),
      cfg_getSteeringMessages = (\<lambda>w. ([], w)), cfg_getFollowUpMessages = (\<lambda>w. ([], w)),
      cfg_getContextStatusMessages = (\<lambda>_ w. ([], w)), cfg_prepareNextTurn = (\<lambda>_ w. (None, w)),
      cfg_prepareRequest = (\<lambda>_ _ _ w. (None, w)), cfg_finishTurn = (\<lambda>_ w. (None, w))\<rparr>"

lemma failingBase_keeps: "keepsTranscript failingBase"
  by (simp add: keepsTranscript_def tracks_def tracksTools_def failingBase_def)

lemma failing_returns: "\<exists>v. runAgentLoop (createLoopConfig failingBase) prompts ctx model reasoning s = Some v"
proof -
  let ?cfg = "createLoopConfig failingBase"
  have st: "fst (respond ?cfg v) = failedAnswer" for v
    by (simp add: respond_def streamAssistantResponse_def createLoopConfig_def failingBase_def Let_def case_prod_beta)
  have it: "\<exists>v'. iteration ?cfg v = Some (Inl v')" for v
  proof -
    obtain prepared v1 where b: "beginTurn ?cfg v = (prepared, v1)" by force
    obtain m v3 where m: "respond ?cfg (prepareRequestStep ?cfg (injectPending ?cfg prepared v1)) = (m, v3)" by force
    have "m = failedAnswer" using st [of "prepareRequestStep ?cfg (injectPending ?cfg prepared v1)"] m by simp
    then show ?thesis using b m by (simp add: iteration_def failedAnswer_def)
  qed
  have "\<exists>v'. runLoop ?cfg v = Some v'" if "lv_hasMoreToolCalls v" for v
    using that it [of v] by (subst runLoop.simps) auto
  then show ?thesis
    by (simp add: runAgentLoop_def startLoop_def Let_def case_prod_beta hook_def initialVars_def)
qed

theorem run_extends_transcript_witness:
  "let w = \<lparr>aw_agent = sampleAgent, aw_skipInitialSteeringPoll = False, aw_user = ()\<rparr>
   in \<exists>w' new. runPromptMessages failingBase [userText ''hi'' 0] False w = Some (Inr (), w') \<and>
        ag_messages (aw_agent w') = ag_messages sampleAgent @ new \<and> idle (aw_agent w')"
proof -
  let ?w = "\<lparr>aw_agent = sampleAgent, aw_skipInitialSteeringPoll = False, aw_user = ()\<rparr>"
  have i: "ag_activeRun (aw_agent ?w) = None" by (simp add: sampleAgent_def createAgent_def Let_def)
  have "runPromptMessages failingBase [userText ''hi'' 0] False ?w \<noteq> None"
    using i failing_returns by (auto simp: runPromptMessages_def runWithLifecycle_def)
  then obtain r w' where "runPromptMessages failingBase [userText ''hi'' 0] False ?w = Some (r, w')" by auto
  then show ?thesis
    using run_extends_transcript [OF failingBase_keeps i, of "[userText ''hi'' 0]" False] by (auto simp: Let_def)
qed

text \<open>
  One run at a time: while a run is active every way to start another one is refused without
  touching anything; once a run returns, normally or through its failure handler, the agent is
  idle again with no streaming message and no pending tool call.
\<close>

theorem single_active_run:
  "(if ag_activeRun (aw_agent w) \<noteq> None
    then (\<exists>e. prompt base input w = Some (Inl e, w)) \<and> (\<exists>e. continueRun base w = Some (Inl e, w)) \<and>
         (\<exists>e. resetAgent (aw_agent w) = Inl e)
    else case runWithLifecycle base executor w of
           None \<Rightarrow> executor (w\<lparr>aw_agent := beginRun (aw_agent w)\<rparr>) = None
         | Some (r, w') \<Rightarrow> r = Inr () \<and> ag_activeRun (aw_agent w') = None \<and> \<not> ag_isStreaming (aw_agent w') \<and>
             ag_streamingMessage (aw_agent w') = None \<and> ag_pendingToolCalls (aw_agent w') = [])"
  by (auto simp: prompt_def continueRun_def resetAgent_def runWithLifecycle_def finishRun_def Let_def split: option.splits)

end
