(* ===== verification/Spec2Isabelle.thy ===== *)
theory Spec2Isabelle
  imports State_Codec Replica_Properties Branch_Summary Recovery_Overflow Curation_Properties Session_Refinement Transform_Messages Edit_Diff Agent
begin

text \<open>
  A verification library for the coding agent in \<open>packages/\<close>: the session store and what it shows to the model,
  the agent loop that talks to the model and runs tools, the compaction and curation of the context, and the text
  operations of the tools.

  \<^bold>\<open>How the program is put together.\<close> An \<open>Agent\<close> (\<open>packages/agent/src/agent.ts\<close>) holds a transcript and two queues of
  pending messages and runs the turn loop of \<open>agent-loop.ts\<close>: stream one response of the model, run its tool
  calls, append their results, take queued messages, and again. The messages are stored by the \<open>SessionManager\<close>
  (\<open>packages/coding-agent/src/core/session-manager.ts\<close>) as entries of an append-only file in which each entry
  names its parent, so that a session is a tree and a leaf selects one conversation. The context of the next
  request is a projection of the path from the root to the leaf: the newest compaction replaces what it
  summarises, context edits delete or replace single entries, and the system messages of the result resolve to
  one prompt and one set of tools (\<open>packages/ai/src/utils/transcript.ts\<close>). When the context grows too large,
  \<open>compaction.ts\<close> chooses a cut point, has the older part summarised and appends a compaction entry;
  \<open>prune.ts\<close> and \<open>block-summarization.ts\<close> serve the finer curation of single blocks.

  \<^bold>\<open>Theories\<close>, in the order of the imports.

  \<^item> \<open>Prelude\<close>: JavaScript values as they are used here (JSON, results of code that may throw, \<open>findIndex\<close>,
    \<open>findLast\<close>, \<open>split\<close> and \<open>join\<close>) and the locale \<open>keyed_log\<close>: a map replayed from a log, in which the last
    record that writes a key decides its value.
  \<^item> \<open>Messages\<close> (\<open>types.ts\<close>, \<open>text.ts\<close>, \<open>core/messages.ts\<close>): messages and their conversion for the provider.
  \<^item> \<open>Transcript\<close> (\<open>transcript.ts\<close>): prompt sections and tools declared by system messages. Tools and sections are
    instances of \<open>keyed_log\<close>. Collapsing all system messages into one, and splitting the tools into an initial set
    and later changes, keep what the transcript means.
  \<^item> \<open>Session_Entries\<close>, \<open>Session_Projection\<close> (\<open>session-manager.ts\<close>, the pure functions): entries, the walk along
    parent links, the projection. The index, the context edits and the legacy prune changes are again \<open>keyed_log\<close>s.
  \<^item> \<open>Session_Migration\<close>: ids and the migration of old files.
  \<^item> \<open>Session_Manager\<close>: the class, as a record and one function per method that takes the manager and returns a
    result and the new manager. \<open>Session_Invariant\<close> proves that every method keeps the invariant \<open>smInv\<close>,
    \<open>Session_Store\<close> puts the methods into one step relation and states the interface \<open>append_only_store\<close> it
    implements, and \<open>Session_Properties\<close> has the theorems about reachable sessions. \<open>Session_Branching\<close> has the methods
    that start a session from another one, and \<open>Session_Refinement\<close> the specification of a session as a tree of
    conversations and the proof that the manager implements it.
  \<^item> \<open>Tool_Execution\<close>, \<open>Agent_Loop\<close> (\<open>agent-loop.ts\<close>): tool batches and turns over an arbitrary environment: tools,
    hooks, model stream and interleaving of parallel tools are functions of an abstract world. The order of the
    events a listener sees is a small automaton (\<open>phase\<close>, \<open>advance\<close>), and every run that returns takes it to its end.
  \<^item> \<open>Event_Stream\<close> (\<open>event-stream.ts\<close>): the push stream, over the locale \<open>fifo\<close>, which its two-stack queue and the
    agent's queues implement; which request gets which event, and when the end is told, is exact. \<open>Agent\<close>
    (\<open>agent.ts\<close>): the stateful wrapper, whose transcript is the fold of the events of its runs as long as the hooks of the
    embedding program leave it alone.
  \<^item> \<open>Token_Estimate\<close>, \<open>Compaction_Utils\<close>, \<open>Compaction\<close> (\<open>compaction.ts\<close>, \<open>compaction/utils.ts\<close>, \<open>estimate.ts\<close>):
    sizes, file lists, cut points and the preparation of a compaction. The two cut-point searches of the code are
    the two interpretations of the locale \<open>cut_scan\<close>. \<open>Compaction_Session\<close> composes them with the session store.
  \<^item> \<open>Js_Regexp\<close>, \<open>Retry\<close> (\<open>retry.ts\<close>, \<open>overflow.ts\<close>), \<open>Summarization\<close> (the model calls of \<open>compaction.ts\<close>),
    \<open>Prune_Blocks\<close> (\<open>prune.ts\<close>, \<open>block-summarization.ts\<close>).
  \<^item> \<open>Context_Curation\<close> (the context tools of \<open>core/agent-session.ts\<close>): the list, prune and summarise tools over the
    session manager and the prune blocks. \<open>Curation_Properties\<close> shows what they do to the model context, also when
    other code changes the session while a summary is written.
  \<^item> \<open>Effects\<close>: methods that read and change a state and may throw or not return, with the contracts \<open>runs\<close> (returns
    or throws, and keeps an invariant and a relation to the old state) and \<open>keeps\<close>; the locale \<open>total_effects\<close> has the
    rules by which a method inherits the contract of the methods it calls.
  \<^item> \<open>Recovery\<close> (\<open>core/agent-session.ts\<close>, from \<open>_handleAgentEvent\<close> to \<open>_runAgentPrompt\<close>): how the messages of a run
    reach the session store, and what follows a failed run: automatic retry, compaction after an overflow or a
    truncated response, threshold and manual compaction, the context usage and its status messages.
    \<open>Recovery_Properties\<close> gives every method its contract, \<open>Recovery_Runs\<close> shows that retries are invisible in the model
    context and bounded, \<open>Recovery_Overflow\<close> that overflow recovery ends and a compaction is all or nothing.
  \<^item> \<open>Branch_Summary\<close> (\<open>branch-summarization.ts\<close>): what a move in the session tree leaves behind, how much of it fits the
    token budget, and its summary.
  \<^item> \<open>Transform_Messages\<close> (\<open>packages/ai/src/api/transform-messages.ts\<close>): the replay of a transcript to a provider, and
    its equality with a definition that closes one turn at a time.
  \<^item> \<open>Truncate\<close> (\<open>tools/truncate.ts\<close>) and \<open>Edit_Diff\<close> (\<open>tools/edit-diff.ts\<close>, the content part of \<open>tools/edit.ts\<close>),
    over texts as lists of code points or UTF-16 units.
  \<^item> The replicated state of the service layer (\<open>packages/chord\<close>). \<open>Delta_Ops\<close> and \<open>Delta_Meaning\<close>
    (\<open>delta/index.ts\<close>): operations, their validation and application, and the value a JSON document means whatever the
    order of its keys. \<open>Revision_Diff\<close> (\<open>state/diff.ts\<close>) computes the operations between two revisions and
    \<open>Diff_Properties\<close> shows that applying them gives the new one. \<open>Revision_Store\<close> (\<open>state/value.ts\<close>) shows that the
    revisions a store hands out never use one address for two values, which the comparison by identity in the
    difference relies on. \<open>Json_Keys\<close> and \<open>Delta_Codec\<close>: the wire codec with its path dictionary.
    \<open>Replicated_State\<close> (\<open>services/state.ts\<close>, the subscriptions of \<open>services/provider.ts\<close>): a source, its publications,
    a subscription and a replica; \<open>Replica_Properties\<close> shows that the replica follows the source in every order of
    events without a publication during an activation, and that such a publication clears it. \<open>State_Codec\<close>
    (\<open>services/state-codec.ts\<close>): the codecs of a subscription, one per state member and instance, over the locale
    \<open>stream_codec\<close>, which lifts the agreement of the two sides from one item to a sequence.

  \<^bold>\<open>How code becomes definitions.\<close> An interface is a record and a union a datatype with the constructors of the
  source. A method is a function of the state it reads and returns the state it leaves. Code that throws returns
  a sum with the error on the left, so every \<open>throw\<close> is a branch. Integers of the code are counts, sizes and
  indices far below \<open>2^53\<close> and are \<open>nat\<close> or \<open>int\<close>; the one place that guards against unsafe integers, the retry
  delay, has the guard. Clock, random ids and the file system are arguments (\<open>world\<close>, a map from file names to
  contents). The model call, tools, hooks and listeners are functions of an abstract world that they may change
  in any way.

  \<^bold>\<open>Loops.\<close> The walk along parent links and the turn loop may run forever, so they are partial functions in the
  option monad: \<open>None\<close> is that they do not return. That the walk returns is part of the session invariant and so
  proved for every reachable session; a turn loop is as long as its model and hooks let it, and its theorem is
  about runs that return. The loop of a prompt in the agent session has fuel, one unit per turn of its loop; the
  theorems about retries and overflows say which fuel is enough, and against which providers and settings (the
  retry theorems are about automatic compaction switched off). Parallel tools are run by a schedule, a list of
  task numbers; when no tool reports more than \<open>u\<close> updates, every schedule in which each task has \<open>u + 2\<close> turns (its
  start, its updates, its finalisation) is proved to be enough. All other loops are structural or have a measure, and are total.

  \<^bold>\<open>Not modelled.\<close> Provider wire formats, authentication and model catalogues (\<open>packages/ai/src/api\<close>, \<open>auth\<close>,
  \<open>providers\<close>): protocol encodings of remote services, for which the model stream is a parameter. The terminal
  user interface (\<open>packages/tui\<close>, \<open>modes/interactive\<close>), HTML export, command line, package manager, settings and
  extension loading: presentation, configuration and I/O around the core. \<open>evals\<close> and \<open>telemetry\<close>: separate programs.
  Of \<open>packages/chord\<close> the proxies that record mutations (the tracker of \<open>delta/index.ts\<close> and \<open>state/draft.ts\<close>), which
  run arbitrary callbacks; the registration, calls, rebinding and disposal of services; facets. Of \<open>agent-session.ts\<close> extension handlers other than \<open>session_before_compact\<close>, the
  drafts at turn boundaries, bash messages, model switching and the expansion of prompts; messages, which the code
  compares by identity there, are compared by value. Of \<open>session-manager.ts\<close> the discovery and listing of session files; of
  \<open>edit-diff.ts\<close> the display diff, whose core is the package \<open>diff\<close>. Unicode normalisation is a parameter.
\<close>

end
